(* ===== verification/Prelude.thy ===== *)
theory Prelude
  imports Complex_Main "HOL-Library.List_Lexorder" "HOL-Library.Char_ord" "HOL-Library.Multiset"
begin

text \<open>
  What the components share. JavaScript strings are HOL strings; the library's
  lexicographic order on lists of characters is the code-unit order that the source's
  \<^verbatim>\<open><\<close> uses on the strings that occur here (ids, ranks, ISO dates: all ASCII).
  JavaScript numbers that hold points and hours are exact rationals. A thrown exception
  is the left summand of a sum type. \<^verbatim>\<open>Array.prototype.sort\<close> is a stable sort by a
  comparator into the integers; the locale \<open>js_order\<close> states when such a comparator is
  consistent, and its lemmas are what every sorted listing of the program relies on.
\<close>

named_theorems js_simps "definitions of the JavaScript idioms"

type_synonym iso_date = string
type_synonym uuid = string
type_synonym num = rat

section \<open>Outcomes\<close>

text \<open>Sequencing of computations that may throw: the rest runs on a value only.\<close>

definition bind_sum :: "'e + 'a \<Rightarrow> ('a \<Rightarrow> 'e + 'b) \<Rightarrow> 'e + 'b" where
  "bind_sum m f = (case m of Inl e \<Rightarrow> Inl e | Inr x \<Rightarrow> f x)"

text \<open>Evaluation takes a step before it looks at what comes after it.\<close>

declare bind_sum_def [code_unfold]

lemma bind_sum_simps [simp]:
  "bind_sum (Inl e) f = Inl e"
  "bind_sum (Inr x) f = f x"
  by (simp_all add: bind_sum_def)

lemma bind_sum_Inr: "bind_sum m f = Inr y \<longleftrightarrow> (\<exists>x. m = Inr x \<and> f x = Inr y)"
  by (cases m) simp_all

lemma bind_sum_Inl: "bind_sum m f = Inl e \<longleftrightarrow> m = Inl e \<or> (\<exists>x. m = Inr x \<and> f x = Inl e)"
  by (cases m) simp_all

lemma bind_sum_assoc: "bind_sum (bind_sum m f) g = bind_sum m (\<lambda>x. bind_sum (f x) g)"
  by (cases m) simp_all

definition guard_sum :: "bool \<Rightarrow> 'e \<Rightarrow> 'e + unit" where
  "guard_sum b e = (if b then Inr () else Inl e)"

lemma guard_sum_simps [simp]:
  "guard_sum True e = Inr ()"
  "guard_sum False e = Inl e"
  "guard_sum b e = Inr u \<longleftrightarrow> b"
  "guard_sum b e = Inl e' \<longleftrightarrow> \<not> b \<and> e' = e"
  by (auto simp: guard_sum_def)

text \<open>The exceptions the services throw, by class and error code; \<open>Uncaught\<close> is any other throw.\<close>

datatype api_error =
    NotFound string
  | PreconditionFailed string
  | Forbidden string
  | Conflict string
  | Unauthorized string
  | Invalid string
  | Uncaught string

section \<open>Sorted and permuted lists\<close>

lemma distinct_map_mset: "mset xs = mset ys \<Longrightarrow> distinct (map f xs) \<longleftrightarrow> distinct (map f ys)"
  by (rule mset_eq_imp_distinct_iff) simp

lemma length_filter_all: "length (filter P xs) = length xs \<longleftrightarrow> (\<forall>x\<in>set xs. P x)"
  using length_filter_less [of _ xs P] by (auto simp: less_le filter_id_conv)

lemma sorted_wrt_remove1: "sorted_wrt P xs \<Longrightarrow> sorted_wrt P (remove1 x xs)"
  by (induction xs) (auto dest: notin_set_remove1 [rotated] set_remove1_subset [THEN subsetD])

lemma set_filter_map: "set (List.map_filter f xs) = {y. \<exists>x \<in> set xs. f x = Some y}"
  by (induction xs) (auto simp: List.map_filter_simps split: option.splits)

section \<open>Rows of a table\<close>

text \<open>\<^verbatim>\<open>UPDATE ... SET f WHERE p\<close> on the rows of a table.\<close>

definition update_where :: "('r \<Rightarrow> bool) \<Rightarrow> ('r \<Rightarrow> 'r) \<Rightarrow> 'r list \<Rightarrow> 'r list" where
  "update_where p f db = map (\<lambda>r. if p r then f r else r) db"

lemma in_update_where:
  "r' \<in> set (update_where p f rows) \<longleftrightarrow> (\<exists>r \<in> set rows. r' = (if p r then f r else r))"
  by (auto simp: update_where_def)

lemma ball_update_where:
  "(\<forall>r \<in> set (update_where p f rows). P r) \<longleftrightarrow> (\<forall>r \<in> set rows. P (if p r then f r else r))"
  by (auto simp: update_where_def)

lemma map_update_where: "(\<And>r. g (f r) = g r) \<Longrightarrow> map g (update_where p f rows) = map g rows"
  by (simp add: update_where_def)

lemma update_where_none: "(\<And>r. r \<in> set rows \<Longrightarrow> \<not> p r) \<Longrightarrow> update_where p f rows = rows"
  by (simp add: update_where_def map_idI)

section \<open>Rounding\<close>

text \<open>\<^verbatim>\<open>Math.round\<close>: to the nearest integer, halves upwards.\<close>

definition math_round :: "num \<Rightarrow> int" where
  "math_round x = \<lfloor>x + 1 / 2\<rfloor>"

lemma math_round_of_int [simp]: "math_round (of_int n) = n"
  unfolding math_round_def by linarith

lemma math_round_mono: "x \<le> y \<Longrightarrow> math_round x \<le> math_round y"
  by (simp add: math_round_def floor_mono)

lemma math_round_bounds: "of_int (math_round x) \<le> x + 1 / 2" "x - 1 / 2 < of_int (math_round x)"
  unfolding math_round_def by linarith+

section \<open>Position of an element\<close>

text \<open>\<^verbatim>\<open>indexOf\<close> / \<^verbatim>\<open>findIndex\<close>, with \<open>None\<close> for the \<^verbatim>\<open>-1\<close> of JavaScript.\<close>

fun find_index :: "('a \<Rightarrow> bool) \<Rightarrow> 'a list \<Rightarrow> nat option" where
  "find_index P [] = None"
| "find_index P (x # xs) = (if P x then Some 0 else map_option Suc (find_index P xs))"

lemma find_index_None: "find_index P xs = None \<longleftrightarrow> (\<forall>x\<in>set xs. \<not> P x)"
  by (induction xs) auto

lemma find_index_Some:
  "find_index P xs = Some i \<longleftrightarrow> i < length xs \<and> P (xs ! i) \<and> (\<forall>j<i. \<not> P (xs ! j))"
proof (induction xs arbitrary: i)
  case (Cons x xs)
  show ?case
  proof (cases i)
    case 0
    then show ?thesis by auto
  next
    case (Suc k)
    have "(\<forall>j<Suc k. \<not> P ((x # xs) ! j)) \<longleftrightarrow> \<not> P x \<and> (\<forall>j<k. \<not> P (xs ! j))"
      by (auto simp: nth_Cons split: nat.splits)
    with Suc Cons.IH [of k] show ?thesis by auto
  qed
qed simp

section \<open>Strings of digits\<close>

lemma append_less_same_length:
  "length xs = length ys \<Longrightarrow> (xs @ us < ys @ vs) \<longleftrightarrow> xs < ys \<or> xs = ys \<and> us < (vs :: 'a::linorder list)"
proof (induction xs arbitrary: ys)
  case (Cons x xs)
  then show ?case by (cases ys) auto
qed simp

definition DIGITS :: string where
  "DIGITS = ''0123456789''"

definition digit_char :: "int \<Rightarrow> char" where
  "digit_char n = DIGITS ! nat n"

definition digit_value :: "char \<Rightarrow> int option" where
  "digit_value c = map_option int (find_index (\<lambda>d. d = c) DIGITS)"

fun number_from :: "int \<Rightarrow> string \<Rightarrow> int option" where
  "number_from acc [] = Some acc"
| "number_from acc (c # cs) =
     (case digit_value c of None \<Rightarrow> None | Some v \<Rightarrow> number_from (10 * acc + v) cs)"

text \<open>A natural number in decimal, as a template literal prints it.\<close>

fun decimal :: "nat \<Rightarrow> string" where
  "decimal n = (if n < 10 then [digit_char (int n)] else decimal (n div 10) @ [digit_char (int (n mod 10))])"

declare decimal.simps [simp del]

text \<open>Two digits, zero-padded.\<close>

definition two :: "int \<Rightarrow> string" where
  "two n = [digit_char (n div 10), digit_char (n mod 10)]"

lemma length_two [simp]: "length (two n) = 2"
  by (simp add: two_def)

lemma ten_cases: "0 \<le> n \<Longrightarrow> n < 10 \<Longrightarrow>
    n = 0 \<or> n = 1 \<or> n = 2 \<or> n = 3 \<or> n = 4 \<or> n = 5 \<or> n = 6 \<or> n = 7 \<or> n = 8 \<or> n = (9::int)"
  by presburger

lemma digit_value_char: "0 \<le> n \<Longrightarrow> n < 10 \<Longrightarrow> digit_value (digit_char n) = Some n"
  by (drule (1) ten_cases, elim disjE) (simp_all add: digit_value_def digit_char_def DIGITS_def)

lemma DIGITS_increasing: "sorted_wrt (<) DIGITS"
  unfolding DIGITS_def by code_simp

lemma digit_char_less: "0 \<le> m \<Longrightarrow> m < 10 \<Longrightarrow> 0 \<le> n \<Longrightarrow> n < 10 \<Longrightarrow> digit_char m < digit_char n \<longleftrightarrow> m < n"
proof -
  have up: "digit_char a < digit_char b" if "0 \<le> a" "a < b" "b < 10" for a b
    using DIGITS_increasing that by (simp add: sorted_wrt_iff_nth_less digit_char_def DIGITS_def)
  assume "0 \<le> m" "m < 10" "0 \<le> n" "n < 10"
  then show ?thesis using up [of m n] up [of n m] by (cases m n rule: linorder_cases) auto
qed

lemma digit_char_eq: "0 \<le> m \<Longrightarrow> m < 10 \<Longrightarrow> 0 \<le> n \<Longrightarrow> n < 10 \<Longrightarrow> digit_char m = digit_char n \<longleftrightarrow> m = n"
  using digit_char_less [of m n] digit_char_less [of n m] by (cases m n rule: linorder_cases) auto

lemma two_less:
  assumes "0 \<le> m" "m < 100" "0 \<le> n" "n < 100"
  shows "two m < two n \<longleftrightarrow> m < n"
proof -
  have b: "0 \<le> k div 10" "k div 10 < 10" "0 \<le> k mod 10" "k mod 10 < 10" if "0 \<le> k" "k < 100" for k :: int
    using that by auto
  have "two m < two n \<longleftrightarrow> m div 10 < n div 10 \<or> m div 10 = n div 10 \<and> m mod 10 < n mod 10"
    using b [OF assms(1,2)] b [OF assms(3,4)] by (simp add: two_def digit_char_less digit_char_eq)
  also have "\<dots> \<longleftrightarrow> 10 * (m div 10) + m mod 10 < 10 * (n div 10) + n mod 10"
    using b [OF assms(1,2)] b [OF assms(3,4)] by linarith
  finally show ?thesis by simp
qed

lemma two_eq: "0 \<le> m \<Longrightarrow> m < 100 \<Longrightarrow> 0 \<le> n \<Longrightarrow> n < 100 \<Longrightarrow> two m = two n \<longleftrightarrow> m = n"
  using two_less [of m n] two_less [of n m] by (cases m n rule: linorder_cases) auto

lemma number_from_two:
  assumes "0 \<le> n" "n < 100"
  shows "number_from acc (two n @ cs) = number_from (100 * acc + n) cs"
proof -
  have "0 \<le> n div 10" "n div 10 < 10" "0 \<le> n mod 10" "n mod 10 < 10" using assms by auto
  moreover have "10 * (10 * acc + n div 10) + n mod 10 = 100 * acc + n" by simp
  ultimately show ?thesis by (simp add: two_def digit_value_char del: distrib_left_numeral)
qed

lemma number_from_append: "number_from acc (xs @ ys) = (case number_from acc xs of None \<Rightarrow> None | Some a \<Rightarrow> number_from a ys)"
  by (induction acc xs rule: number_from.induct) (auto split: option.splits)

lemma number_from_decimal: "number_from 0 (decimal n) = Some (int n)"
proof (induction n rule: decimal.induct)
  case (1 n)
  show ?case
  proof (cases "n < 10")
    case True
    then show ?thesis by (simp add: decimal.simps [of n] digit_value_char)
  next
    case False
    have "number_from (int (n div 10)) [digit_char (int (n mod 10))] = Some (int n)"
    proof -
      have "10 * int (n div 10) + int (n mod 10) = int (10 * (n div 10) + n mod 10)"
        by (simp only: of_nat_add of_nat_mult of_nat_numeral)
      then have "10 * int (n div 10) + int (n mod 10) = int n" by (simp only: mult_div_mod_eq)
      then show ?thesis by (simp only: number_from.simps) (simp add: digit_value_char del: of_nat_mod)
    qed
    with False 1 show ?thesis by (subst decimal.simps) (simp add: number_from_append)
  qed
qed

lemma digit_value_digits: "c \<in> set (decimal n) \<Longrightarrow> digit_value c \<noteq> None"
proof (induction n rule: decimal.induct)
  case (1 n)
  then show ?case
    by (subst (asm) decimal.simps) (auto simp: digit_value_char split: if_splits)
qed

section \<open>Case and blanks (ASCII)\<close>

definition lower_char :: "char \<Rightarrow> char" where
  "lower_char c = (if CHR ''A'' \<le> c \<and> c \<le> CHR ''Z'' then char_of (of_char c + 32 :: nat) else c)"

definition toLowerCase :: "string \<Rightarrow> string" where
  "toLowerCase s = map lower_char s"

definition blank :: "char \<Rightarrow> bool" where
  "blank c \<longleftrightarrow> of_char c \<in> {9, 10, 11, 12, 13, 32 :: nat}"

definition trim :: "string \<Rightarrow> string" where
  "trim s = rev (dropWhile blank (rev (dropWhile blank s)))"

lemma dropWhile_blank_idem [simp]: "dropWhile blank (dropWhile blank s) = dropWhile blank s"
  by (induction s) auto

section \<open>First of each key\<close>

text \<open>
  The loop \<^verbatim>\<open>if (seen.has(k)) continue; seen.add(k)\<close>: the elements whose key was not
  met before, in the order of their first occurrence.
\<close>

fun dedupe_by :: "('a \<Rightarrow> 'k) \<Rightarrow> 'k set \<Rightarrow> 'a list \<Rightarrow> 'a list" where
  "dedupe_by f seen [] = []"
| "dedupe_by f seen (x # xs) =
     (if f x \<in> seen then dedupe_by f seen xs
      else x # dedupe_by f (insert (f x) seen) xs)"

lemma set_dedupe_by_subset: "set (dedupe_by f seen xs) \<subseteq> set xs"
  by (induction f seen xs rule: dedupe_by.induct) auto

lemma keys_dedupe_by: "f ` set (dedupe_by f seen xs) = f ` set xs - seen"
  by (induction f seen xs rule: dedupe_by.induct) auto

lemma distinct_dedupe_by: "distinct (map f (dedupe_by f seen xs))"
proof (induction f seen xs rule: dedupe_by.induct)
  case (2 f seen x xs)
  have "f x \<notin> f ` set (dedupe_by f (insert (f x) seen) xs)"
    by (simp add: keys_dedupe_by)
  with 2 show ?case by auto
qed simp

lemma dedupe_by_id: "distinct (map f xs) \<Longrightarrow> f ` set xs \<inter> seen = {} \<Longrightarrow> dedupe_by f seen xs = xs"
  by (induction f seen xs rule: dedupe_by.induct) auto

lemma dedupe_by_idem: "dedupe_by f {} (dedupe_by f {} xs) = dedupe_by f {} xs"
  by (simp add: dedupe_by_id distinct_dedupe_by)

lemma length_dedupe_by: "length (dedupe_by f seen xs) = card (f ` set xs - seen)"
proof -
  have "length (dedupe_by f seen xs) = length (map f (dedupe_by f seen xs))" by simp
  also have "\<dots> = card (set (map f (dedupe_by f seen xs)))"
    by (metis distinct_card distinct_dedupe_by)
  also have "\<dots> = card (f ` set xs - seen)"
    using keys_dedupe_by [of f seen xs] by simp
  finally show ?thesis .
qed

section \<open>Stable sorting by a comparator\<close>

fun js_insert :: "('a \<Rightarrow> 'a \<Rightarrow> int) \<Rightarrow> 'a \<Rightarrow> 'a list \<Rightarrow> 'a list" where
  "js_insert cmp x [] = [x]"
| "js_insert cmp x (y # ys) = (if cmp x y \<le> 0 then x # y # ys else y # js_insert cmp x ys)"

fun js_sort :: "('a \<Rightarrow> 'a \<Rightarrow> int) \<Rightarrow> 'a list \<Rightarrow> 'a list" where
  "js_sort cmp [] = []"
| "js_sort cmp (x # xs) = js_insert cmp x (js_sort cmp xs)"

lemma mset_js_insert [simp]: "mset (js_insert cmp x xs) = add_mset x (mset xs)"
  by (induction xs) auto

lemma mset_js_sort [simp]: "mset (js_sort cmp xs) = mset xs"
  by (induction xs) auto

lemma set_js_insert [simp]: "set (js_insert cmp x xs) = insert x (set xs)"
  by (induction xs) auto

lemma set_js_sort [simp]: "set (js_sort cmp xs) = set xs"
  by (induction xs) auto

lemma length_js_sort [simp]: "length (js_sort cmp xs) = length xs"
  by (metis mset_js_sort size_mset)

text \<open>A comparator that \<^verbatim>\<open>sort\<close> may be handed: signs are opposite, and \<open>\<le> 0\<close> is transitive.\<close>

locale js_order =
  fixes cmp :: "'a \<Rightarrow> 'a \<Rightarrow> int"
  assumes cmp_flip: "cmp x y < 0 \<longleftrightarrow> 0 < cmp y x"
    and cmp_trans: "cmp x y \<le> 0 \<Longrightarrow> cmp y z \<le> 0 \<Longrightarrow> cmp x z \<le> 0"
begin

lemma cmp_total: "cmp x y \<le> 0 \<or> cmp y x \<le> 0"
  using cmp_flip [of x y] by linarith

lemma cmp_refl: "cmp x x = 0"
  using cmp_flip [of x x] by linarith

lemma sorted_js_insert:
  "sorted_wrt (\<lambda>a b. cmp a b \<le> 0) xs \<Longrightarrow> sorted_wrt (\<lambda>a b. cmp a b \<le> 0) (js_insert cmp x xs)"
proof (induction xs)
  case (Cons y ys)
  show ?case
  proof (cases "cmp x y \<le> 0")
    case True
    with Cons.prems show ?thesis by (auto intro: cmp_trans)
  next
    case False
    then have "cmp y x \<le> 0" using cmp_total by blast
    with False Cons show ?thesis by auto
  qed
qed simp

lemma sorted_js_sort: "sorted_wrt (\<lambda>a b. cmp a b \<le> 0) (js_sort cmp xs)"
  by (induction xs) (auto intro: sorted_js_insert)

lemma filter_js_insert:
  assumes "\<And>y. y \<in> set xs \<Longrightarrow> P x \<Longrightarrow> P y \<Longrightarrow> cmp x y = 0"
    and "sorted_wrt (\<lambda>a b. cmp a b \<le> 0) xs"
  shows "filter P (js_insert cmp x xs) = filter P (x # xs)"
  using assms by (induction xs) auto

text \<open>Stability: elements the comparator does not separate keep their order.\<close>

lemma js_sort_stable:
  "filter (\<lambda>y. cmp a y = 0) (js_sort cmp xs) = filter (\<lambda>y. cmp a y = 0) xs"
proof (induction xs)
  case (Cons x xs)
  have eq: "cmp x y = 0" if "cmp a x = 0" "cmp a y = 0" for y
    using that cmp_trans [of x a y] cmp_trans [of y a x] cmp_flip [of a x] cmp_flip [of a y]
      cmp_flip [of x y] cmp_flip [of x a] cmp_flip [of y a] cmp_flip [of y x] by linarith
  have "filter (\<lambda>y. cmp a y = 0) (js_insert cmp x (js_sort cmp xs)) =
      filter (\<lambda>y. cmp a y = 0) (x # js_sort cmp xs)"
    by (rule filter_js_insert) (auto intro: eq sorted_js_sort)
  with Cons show ?case by auto
qed simp

lemma js_sort_id: "sorted_wrt (\<lambda>a b. cmp a b \<le> 0) xs \<Longrightarrow> js_sort cmp xs = xs"
proof (induction xs)
  case (Cons x xs)
  then show ?case by (cases xs) auto
qed simp

lemma js_sort_idem: "js_sort cmp (js_sort cmp xs) = js_sort cmp xs"
  by (rule js_sort_id [OF sorted_js_sort])

lemma hd_js_sort_least:
  "xs \<noteq> [] \<Longrightarrow> hd (js_sort cmp xs) \<in> set xs \<and> (\<forall>y\<in>set xs. cmp (hd (js_sort cmp xs)) y \<le> 0)"
proof -
  assume ne: "xs \<noteq> []"
  then obtain z zs where s: "js_sort cmp xs = z # zs"
    by (metis length_js_sort length_0_conv neq_Nil_conv)
  have "\<forall>y\<in>set zs. cmp z y \<le> 0" using sorted_js_sort [of xs] s by simp
  moreover have "set xs = insert z (set zs)" using set_js_sort [of cmp xs] s by simp
  ultimately show ?thesis using s cmp_refl [of z] by auto
qed

lemma cmp_less_trans: "cmp x y \<le> 0 \<Longrightarrow> cmp y z < 0 \<Longrightarrow> cmp x z < 0"
  using cmp_trans [of z x y] cmp_flip [of x z] cmp_flip [of z x] cmp_flip [of y z] by linarith

lemma cmp_less_trans': "cmp x y < 0 \<Longrightarrow> cmp y z \<le> 0 \<Longrightarrow> cmp x z < 0"
  using cmp_trans [of y z x] cmp_flip [of x z] cmp_flip [of z x] cmp_flip [of x y] by linarith

lemma js_order_image: "js_order (\<lambda>x y. cmp (g x) (g y))"
  by unfold_locales (auto simp: cmp_flip intro: cmp_trans)

lemma js_order_reverse: "js_order (\<lambda>x y. - cmp x y)"
proof
  show "- cmp x y < 0 \<longleftrightarrow> 0 < - cmp y x" for x y using cmp_flip [of y x] by auto
  have up: "0 \<le> cmp x y \<longleftrightarrow> cmp y x \<le> 0" for x y using cmp_flip [of x y] cmp_flip [of y x] by linarith
  show "- cmp x y \<le> 0 \<Longrightarrow> - cmp y z \<le> 0 \<Longrightarrow> - cmp x z \<le> 0" for x y z
    using cmp_trans [of z y x] by (simp add: up)
qed

text \<open>Ties of one comparator broken by another.\<close>

lemma js_order_lex:
  assumes "js_order tie"
  shows "js_order (\<lambda>x y. if cmp x y \<noteq> 0 then cmp x y else tie x y)"
proof -
  note flip = js_order.cmp_flip [OF assms] and trans = js_order.cmp_trans [OF assms]
  have zero: "cmp x y = 0 \<longleftrightarrow> cmp y x = 0" for x y using cmp_flip [of x y] cmp_flip [of y x] by linarith
  show ?thesis
  proof
    show "(if cmp x y \<noteq> 0 then cmp x y else tie x y) < 0 \<longleftrightarrow> 0 < (if cmp y x \<noteq> 0 then cmp y x else tie y x)" for x y
      using zero [of x y] cmp_flip [of x y] flip [of x y] by auto
    show "(if cmp x y \<noteq> 0 then cmp x y else tie x y) \<le> 0 \<Longrightarrow>
        (if cmp y z \<noteq> 0 then cmp y z else tie y z) \<le> 0 \<Longrightarrow>
        (if cmp x z \<noteq> 0 then cmp x z else tie x z) \<le> 0" for x y z
      using cmp_less_trans [of x y z] cmp_less_trans' [of x y z] cmp_trans [of x y z] trans [of x y z]
      by (auto split: if_splits)
  qed
qed

end

text \<open>
  A comparator that only calls equal what has the same key. On rows with distinct keys the
  sorted listing is then a function of the set of rows alone: no order of arrival shows.
\<close>

locale js_keyed_order = js_order cmp for cmp :: "'a \<Rightarrow> 'a \<Rightarrow> int" +
  fixes key :: "'a \<Rightarrow> 'k"
  assumes cmp_key: "cmp x y = 0 \<Longrightarrow> key x = key y"
begin

lemma sorted_unique:
  assumes "sorted_wrt (\<lambda>a b. cmp a b \<le> 0) xs" "sorted_wrt (\<lambda>a b. cmp a b \<le> 0) ys"
    and "mset xs = mset ys" and "distinct (map key xs)"
  shows "xs = ys"
  using assms
proof (induction xs arbitrary: ys)
  case (Cons x xs)
  then obtain y ys' where ys: "ys = y # ys'" by (cases ys) auto
  have mem: "set (x # xs) = set (y # ys')"
    using Cons.prems(3) ys by (metis set_mset_mset)
  have "y \<in> set (x # xs)" "x \<in> set (y # ys')"
    using mem by (metis list.set_intros(1))+
  then have "cmp x y \<le> 0" "cmp y x \<le> 0"
    using Cons.prems(1,2) ys cmp_refl [of x] by auto
  then have "cmp x y = 0" using cmp_flip [of x y] cmp_flip [of y x] by linarith
  then have "key x = key y" by (rule cmp_key)
  have xy: "x = y"
  proof (rule ccontr)
    assume "x \<noteq> y"
    with \<open>y \<in> set (x # xs)\<close> have "y \<in> set xs" by simp
    with \<open>key x = key y\<close> Cons.prems(4) show False by auto
  qed
  with Cons.prems ys have "mset xs = mset ys'" by simp
  with Cons.IH [of ys'] Cons.prems ys have "xs = ys'" by simp
  with xy ys show ?case by simp
qed simp

lemma js_sort_perm:
  assumes "mset xs = mset ys" and "distinct (map key xs)"
  shows "js_sort cmp xs = js_sort cmp ys"
proof (rule sorted_unique [OF sorted_js_sort sorted_js_sort])
  show "mset (js_sort cmp xs) = mset (js_sort cmp ys)" using assms(1) by simp
  show "distinct (map key (js_sort cmp xs))"
    using assms(2) distinct_map_mset [OF mset_js_sort] by blast
qed

end

end
