(* ===== verification/Outbox.thy ===== *)
theory Outbox
  imports Prelude "HOL-Library.Product_Lexorder"
begin

text \<open>
  The outbox relay of \<^verbatim>\<open>libs/platform/src/outbox\<close>: the lease arithmetic, the database steps of
  \<^verbatim>\<open>AbstractOutboxRelay\<close> as functions on the table, the subclass members of the email relay, and
  the claim / deliver / finish protocol run by any number of workers as a step relation, in
  which a worker may crash at any point, a transaction may fail and rows may be locked by
  others. All times are database milliseconds; \<open>now\<close> is the start of a transaction and
  \<open>stmt\<close> the statement time within it.
\<close>

type_synonym ms = rat
type_synonym token = nat

section \<open>Leases\<close>

datatype ResiliencePreset = EXTERNAL_API | DATABASE | CACHE | EMAIL | STORAGE | STORAGE_INTERACTIVE

record ResilienceOptions =
  retry_maxAttempts :: "nat option"
  timeout_durationMs :: "ms option"

fun RESILIENCE_PRESETS :: "ResiliencePreset \<Rightarrow> ResilienceOptions" where
  "RESILIENCE_PRESETS EXTERNAL_API = \<lparr>retry_maxAttempts = Some 3, timeout_durationMs = Some 30000\<rparr>"
| "RESILIENCE_PRESETS DATABASE = \<lparr>retry_maxAttempts = Some 3, timeout_durationMs = Some 5000\<rparr>"
| "RESILIENCE_PRESETS CACHE = \<lparr>retry_maxAttempts = None, timeout_durationMs = Some 500\<rparr>"
| "RESILIENCE_PRESETS EMAIL = \<lparr>retry_maxAttempts = Some 5, timeout_durationMs = Some 30000\<rparr>"
| "RESILIENCE_PRESETS STORAGE = \<lparr>retry_maxAttempts = Some 3, timeout_durationMs = Some 60000\<rparr>"
| "RESILIENCE_PRESETS STORAGE_INTERACTIVE = \<lparr>retry_maxAttempts = Some 1, timeout_durationMs = Some 3000\<rparr>"

definition LEASE_MARGIN_MS :: ms where
  "LEASE_MARGIN_MS = 60000"

definition MAX_STRAND_MS :: ms where
  "MAX_STRAND_MS = 15 * 60000"

definition worstCaseCallMs :: "ResiliencePreset \<Rightarrow> ms" where
  "worstCaseCallMs preset =
     (let options = RESILIENCE_PRESETS preset;
          executions = (case retry_maxAttempts options of None \<Rightarrow> 0 | Some n \<Rightarrow> n) + 1
      in of_nat executions * (case timeout_durationMs options of None \<Rightarrow> 0 | Some d \<Rightarrow> d))"

definition leaseForResilience :: "ResiliencePreset \<Rightarrow> nat \<Rightarrow> ms" where
  "leaseForResilience preset calls = of_nat calls * worstCaseCallMs preset + LEASE_MARGIN_MS"

section \<open>The table and the relay's settings\<close>

datatype row_status = Pending | Sent | Failed

record outbox_row =
  ob_id :: uuid
  status :: row_status
  attempts :: nat
  scheduledAt :: ms
  ob_seq :: nat
  lastError :: string
  leaseToken :: "token option"
  lockedUntil :: "ms option"

record relay_config =
  maxAttempts :: nat
  batchSize :: nat
  leaseMsFor :: "outbox_row \<Rightarrow> ms"

definition DEFAULT_LEASE_MS :: ms where
  "DEFAULT_LEASE_MS = 2 * 60000"

definition base_relay :: relay_config where
  "base_relay = \<lparr>maxAttempts = 5, batchSize = 10, leaseMsFor = (\<lambda>_. DEFAULT_LEASE_MS)\<rparr>"

definition email_relay :: relay_config where
  "email_relay = base_relay\<lparr>batchSize := 3, leaseMsFor := (\<lambda>_. leaseForResilience EMAIL 1)\<rparr>"

text \<open>A row as the claim hands it on: with the attempt it spent and the lease it stamped.\<close>

record claimed =
  c_row :: outbox_row
  c_attempts :: nat
  c_token :: token
  c_expires :: ms

abbreviation c_id :: "claimed \<Rightarrow> uuid" where
  "c_id c \<equiv> ob_id (c_row c)"

definition MAX_RETRY_AFTER_MS :: ms where
  "MAX_RETRY_AFTER_MS = 60 * 60000"

definition MAX_BATCHES_PER_PASS :: nat where
  "MAX_BATCHES_PER_PASS = 50"

section \<open>Statements\<close>

definition notLeased :: "ms \<Rightarrow> outbox_row \<Rightarrow> bool" where
  "notLeased now r \<longleftrightarrow> (case lockedUntil r of None \<Rightarrow> True | Some t \<Rightarrow> t \<le> now)"

definition abandoned :: "relay_config \<Rightarrow> ms \<Rightarrow> outbox_row \<Rightarrow> bool" where
  "abandoned cfg now r \<longleftrightarrow> status r = Pending \<and> attempts r \<ge> maxAttempts cfg \<and> notLeased now r"

definition ABANDONED_ERROR :: string where
  "ABANDONED_ERROR = ''abandoned: the lease lapsed with every attempt used (the process died or the call never returned)''"

definition reapAbandoned :: "relay_config \<Rightarrow> ms \<Rightarrow> outbox_row list \<Rightarrow> outbox_row list" where
  "reapAbandoned cfg now db =
     update_where (abandoned cfg now)
       (\<lambda>r. r\<lparr>status := Failed, lastError := ABANDONED_ERROR, leaseToken := None, lockedUntil := None\<rparr>) db"

definition due :: "relay_config \<Rightarrow> ms \<Rightarrow> outbox_row \<Rightarrow> bool" where
  "due cfg now r \<longleftrightarrow> status r = Pending \<and> attempts r < maxAttempts cfg \<and> scheduledAt r \<le> now \<and> notLeased now r"

text \<open>\<^verbatim>\<open>FOR UPDATE SKIP LOCKED\<close>: rows locked by another transaction (\<open>skip\<close>) are passed over.\<close>

definition selectDue :: "relay_config \<Rightarrow> ms \<Rightarrow> uuid set \<Rightarrow> outbox_row list \<Rightarrow> outbox_row list" where
  "selectDue cfg now skip db =
     take (batchSize cfg)
       (sort_key (\<lambda>r. (scheduledAt r, ob_seq r, ob_id r))
         (filter (\<lambda>r. due cfg now r \<and> ob_id r \<notin> skip) db))"

definition stampLeases :: "ms \<Rightarrow> uuid list \<Rightarrow> token \<Rightarrow> ms \<Rightarrow> outbox_row list \<Rightarrow> outbox_row list" where
  "stampLeases stmt ids tok leaseMs db =
     update_where (\<lambda>r. ob_id r \<in> set ids)
       (\<lambda>r. r\<lparr>attempts := attempts r + 1, leaseToken := Some tok, lockedUntil := Some (stmt + leaseMs)\<rparr>) db"

definition mine :: "claimed \<Rightarrow> outbox_row \<Rightarrow> bool" where
  "mine c r \<longleftrightarrow> ob_id r = c_id c \<and> leaseToken r = Some (c_token c)"

definition holdsLease :: "claimed \<Rightarrow> outbox_row list \<Rightarrow> bool" where
  "holdsLease c db \<longleftrightarrow> filter (mine c) db \<noteq> []"

definition renewLease :: "relay_config \<Rightarrow> ms \<Rightarrow> claimed \<Rightarrow> outbox_row list \<Rightarrow> ms option \<times> outbox_row list" where
  "renewLease cfg stmt c db =
     (let t = stmt + leaseMsFor cfg (c_row c)
      in (if filter (mine c) db \<noteq> [] then Some t else None,
          update_where (mine c) (\<lambda>r. r\<lparr>lockedUntil := Some t\<rparr>) db))"

definition refundAttempt :: "claimed \<Rightarrow> outbox_row list \<Rightarrow> outbox_row list" where
  "refundAttempt c db = update_where (\<lambda>r. ob_id r = c_id c) (\<lambda>r. r\<lparr>attempts := max (attempts r - 1) 0\<rparr>) db"

definition releaseLease :: "claimed \<Rightarrow> outbox_row list \<Rightarrow> outbox_row list" where
  "releaseLease c db = update_where (\<lambda>r. ob_id r = c_id c) (\<lambda>r. r\<lparr>leaseToken := None, lockedUntil := None\<rparr>) db"

definition markSent :: "claimed \<Rightarrow> outbox_row list \<Rightarrow> outbox_row list" where
  "markSent c db = update_where (\<lambda>r. ob_id r = c_id c) (\<lambda>r. r\<lparr>status := Sent\<rparr>) db"

definition markFailed :: "ms \<Rightarrow> claimed \<Rightarrow> row_status \<Rightarrow> string \<Rightarrow> ms \<Rightarrow> outbox_row list \<Rightarrow> outbox_row list" where
  "markFailed now c newStatus err delayMs db =
     update_where (\<lambda>r. ob_id r = c_id c)
       (\<lambda>r. r\<lparr>status := newStatus, lastError := err,
             scheduledAt := (if newStatus = Pending then now + delayMs else scheduledAt r)\<rparr>) db"

section \<open>Claim, finish, fail\<close>

definition claim :: "relay_config \<Rightarrow> ms \<Rightarrow> ms \<Rightarrow> uuid set \<Rightarrow> token \<Rightarrow> outbox_row list
    \<Rightarrow> claimed list \<times> outbox_row list" where
  "claim cfg now stmt skip tok db =
     (let db1 = reapAbandoned cfg now db;
          rows = selectDue cfg now skip db1
      in if rows = [] then ([], db1)
         else
           let holdMs = sum_list (map (leaseMsFor cfg) rows)
           in (map (\<lambda>r. \<lparr>c_row = r, c_attempts = attempts r + 1, c_token = tok, c_expires = stmt + holdMs\<rparr>) rows,
               stampLeases stmt (map ob_id rows) tok holdMs db1))"

text \<open>A JavaScript number a server or a caller supplied: it may be \<^verbatim>\<open>NaN\<close> or infinite.\<close>

datatype js_number = Finite rat | Not_finite

datatype delivery_error =
    NonRetryableError string
  | RetryAfterError string js_number
  | DeferError string js_number
  | OtherError string

fun message :: "delivery_error \<Rightarrow> string" where
  "message (NonRetryableError m) = m"
| "message (RetryAfterError m _) = m"
| "message (DeferError m _) = m"
| "message (OtherError m) = m"

definition clamp_delay :: "rat \<Rightarrow> ms" where
  "clamp_delay d = min (max d 0) MAX_RETRY_AFTER_MS"

definition backoffDelayMs :: "nat \<Rightarrow> ms" where
  "backoffDelayMs newAttempts = min (30000 * 2 ^ newAttempts / 2) (30 * 60000)"

definition defer_delay :: "js_number \<Rightarrow> ms" where
  "defer_delay d = (case d of Finite x \<Rightarrow> clamp_delay x | Not_finite \<Rightarrow> 5 * 60000)"

definition fail_status :: "relay_config \<Rightarrow> nat \<Rightarrow> delivery_error \<Rightarrow> row_status" where
  "fail_status cfg n err =
     (if (case err of NonRetryableError _ \<Rightarrow> True | _ \<Rightarrow> False) \<or> n \<ge> maxAttempts cfg then Failed else Pending)"

definition fail_delay :: "nat \<Rightarrow> delivery_error \<Rightarrow> ms" where
  "fail_delay n err =
     max (case err of RetryAfterError _ (Finite x) \<Rightarrow> clamp_delay x | _ \<Rightarrow> 0) (backoffDelayMs n)"

text \<open>\<open>None\<close> is the source's \<open>LEASE_LOST\<close>: another relay holds the row and nothing is written.\<close>

definition finish :: "claimed \<Rightarrow> (outbox_row list \<Rightarrow> outbox_row list) \<Rightarrow> outbox_row list \<Rightarrow> outbox_row list option" where
  "finish c work db = (if holdsLease c db then Some (releaseLease c (work db)) else None)"

definition defer_row :: "ms \<Rightarrow> claimed \<Rightarrow> string \<Rightarrow> js_number \<Rightarrow> outbox_row list \<Rightarrow> outbox_row list option" where
  "defer_row now c msg d db =
     finish c (\<lambda>db. markFailed now c Pending msg (defer_delay d) (refundAttempt c db)) db"

definition fail_row :: "relay_config \<Rightarrow> ms \<Rightarrow> claimed \<Rightarrow> delivery_error \<Rightarrow> outbox_row list \<Rightarrow> outbox_row list option" where
  "fail_row cfg now c err db =
     (case err of
        DeferError msg d \<Rightarrow> defer_row now c msg d db
      | _ \<Rightarrow> finish c (markFailed now c (fail_status cfg (c_attempts c) err) (message err)
               (fail_delay (c_attempts c) err)) db)"

definition send_row :: "claimed \<Rightarrow> outbox_row list \<Rightarrow> outbox_row list option" where
  "send_row c db = finish c (markSent c) db"

end
