(* ===== verification/OutboxProtocol.thy ===== *)
theory OutboxProtocol
  imports Outbox
begin

text \<open>
  The relay passes of any number of workers over one outbox table, as a step relation. A worker
  runs the loop of \<^verbatim>\<open>runOncePass\<close>: claim a batch, and for each row renew the lease, call
  \<^verbatim>\<open>deliver\<close> with no transaction open, and record the outcome behind the fence. Between any two of
  its database steps the other workers run, time passes, the worker may crash, and the database
  may refuse the step. \<open>issued\<close>, \<open>claims\<close>, \<open>calls\<close> and \<open>refunds\<close> are history: the tokens
  drawn so far, the claims and the delivery calls made on each row, and the deferred attempts.
\<close>

section \<open>Workers\<close>

datatype outcome = Delivered | Undelivered delivery_error

datatype pc =
    Idle
  | Working (queue: "claimed list") (batches: nat)
  | Delivering claimed "claimed list" nat
  | Recording claimed outcome "claimed list" nat

record world =
  clock :: ms
  db :: "outbox_row list"
  workers :: "nat \<Rightarrow> pc"
  issued :: "token set"
  claims :: "uuid \<Rightarrow> token set"
  calls :: "uuid \<Rightarrow> token list"
  refunds :: "uuid \<Rightarrow> nat"

fun held :: "pc \<Rightarrow> claimed list" where
  "held Idle = []"
| "held (Working cs n) = cs"
| "held (Delivering c cs n) = c # cs"
| "held (Recording c d cs n) = c # cs"

fun current :: "pc \<Rightarrow> claimed option" where
  "current (Delivering c cs n) = Some c"
| "current (Recording c d cs n) = Some c"
| "current p = None"

fun waiting :: "pc \<Rightarrow> claimed list" where
  "waiting Idle = []"
| "waiting (Working cs n) = cs"
| "waiting (Delivering c cs n) = cs"
| "waiting (Recording c d cs n) = cs"

fun next_batch :: "pc \<Rightarrow> nat option" where
  "next_batch Idle = Some 0"
| "next_batch (Working [] n) = (if n < MAX_BATCHES_PER_PASS then Some n else None)"
| "next_batch p = None"

abbreviation set_worker :: "world \<Rightarrow> nat \<Rightarrow> pc \<Rightarrow> nat \<Rightarrow> pc" where
  "set_worker s w p \<equiv> (workers s)(w := p)"

definition record_result :: "relay_config \<Rightarrow> ms \<Rightarrow> claimed \<Rightarrow> outcome \<Rightarrow> outbox_row list \<Rightarrow> outbox_row list option" where
  "record_result cfg now c d rows =
     (case d of Delivered \<Rightarrow> send_row c rows | Undelivered err \<Rightarrow> fail_row cfg now c err rows)"

fun is_defer :: "outcome \<Rightarrow> bool" where
  "is_defer (Undelivered (DeferError m d)) = True"
| "is_defer d = False"

definition enqueued :: "uuid \<Rightarrow> nat \<Rightarrow> ms \<Rightarrow> outbox_row" where
  "enqueued i sq now = \<lparr>ob_id = i, status = Pending, attempts = 0, scheduledAt = now, ob_seq = sq,
     lastError = [], leaseToken = None, lockedUntil = None\<rparr>"

inductive step :: "relay_config \<Rightarrow> world \<Rightarrow> world \<Rightarrow> bool" for cfg where
  tick: "clock s \<le> t \<Longrightarrow> step cfg s (s\<lparr>clock := t\<rparr>)"
| enqueue: "i \<notin> ob_id ` set (db s) \<Longrightarrow> step cfg s (s\<lparr>db := db s @ [enqueued i sq (clock s)]\<rparr>)"
| claim: "next_batch (workers s w) = Some n \<Longrightarrow> tok \<notin> issued s \<Longrightarrow> now \<le> clock s \<Longrightarrow>
    claim cfg now (clock s) skip tok (db s) = (batch, rows) \<Longrightarrow>
    step cfg s (s\<lparr>db := rows, issued := insert tok (issued s),
      claims := (\<lambda>i. if i \<in> c_id ` set batch then insert tok (claims s i) else claims s i),
      workers := set_worker s w (if batch = [] then Idle else Working batch (Suc n))\<rparr>)"
| renew: "workers s w = Working (c # cs) n \<Longrightarrow> renewLease cfg (clock s) c (db s) = (Some t, rows) \<Longrightarrow>
    step cfg s (s\<lparr>db := rows, calls := (calls s)(c_id c := c_token c # calls s (c_id c)),
      workers := set_worker s w (Delivering (c\<lparr>c_expires := t\<rparr>) cs n)\<rparr>)"
| renew_lost: "workers s w = Working (c # cs) n \<Longrightarrow> renewLease cfg (clock s) c (db s) = (None, rows) \<Longrightarrow>
    step cfg s (s\<lparr>db := rows, workers := set_worker s w (Working cs n)\<rparr>)"
| renew_error: "workers s w = Working (c # cs) n \<Longrightarrow>
    step cfg s (s\<lparr>workers := set_worker s w (Working cs n)\<rparr>)"
| deliver: "workers s w = Delivering c cs n \<Longrightarrow>
    step cfg s (s\<lparr>workers := set_worker s w (Recording c d cs n)\<rparr>)"
| recorded: "workers s w = Recording c d cs n \<Longrightarrow> record_result cfg (clock s) c d (db s) = Some rows \<Longrightarrow>
    step cfg s (s\<lparr>db := rows,
      refunds := (if is_defer d then (refunds s)(c_id c := Suc (refunds s (c_id c))) else refunds s),
      workers := set_worker s w (Working cs n)\<rparr>)"
| record_lost: "workers s w = Recording c d cs n \<Longrightarrow> record_result cfg (clock s) c d (db s) = None \<Longrightarrow>
    step cfg s (s\<lparr>workers := set_worker s w (Working cs n)\<rparr>)"
| settle_error: "workers s w = Recording c Delivered cs n \<Longrightarrow>
    step cfg s (s\<lparr>workers := set_worker s w (Recording c (Undelivered err) cs n)\<rparr>)"
| record_error: "workers s w = Recording c (Undelivered err) cs n \<Longrightarrow>
    step cfg s (s\<lparr>workers := set_worker s w (Working cs n)\<rparr>)"
| end_pass: "workers s w = Working [] n \<Longrightarrow> step cfg s (s\<lparr>workers := set_worker s w Idle\<rparr>)"
| crash: "step cfg s (s\<lparr>workers := set_worker s w Idle\<rparr>)"

definition initial :: "world" where
  "initial = \<lparr>clock = 0, db = [], workers = (\<lambda>_. Idle), issued = {}, claims = (\<lambda>_. {}),
     calls = (\<lambda>_. []), refunds = (\<lambda>_. 0)\<rparr>"

inductive reachable :: "relay_config \<Rightarrow> world \<Rightarrow> bool" for cfg where
  start: "reachable cfg initial"
| further: "reachable cfg s \<Longrightarrow> step cfg s s' \<Longrightarrow> reachable cfg s'"

section \<open>What every statement does to one row\<close>

lemma ids_update_where [simp]:
  "(\<And>r. ob_id (f r) = ob_id r) \<Longrightarrow> map ob_id (update_where p f rows) = map ob_id rows"
  by (simp add: update_where_def)

lemma in_reapAbandoned:
  "r' \<in> set (reapAbandoned cfg now rows) \<longleftrightarrow>
    (\<exists>r \<in> set rows. r' = (if abandoned cfg now r
       then r\<lparr>status := Failed, lastError := ABANDONED_ERROR, leaseToken := None, lockedUntil := None\<rparr> else r))"
  by (simp add: reapAbandoned_def in_update_where)

lemma ids_reapAbandoned [simp]: "map ob_id (reapAbandoned cfg now rows) = map ob_id rows"
  by (simp add: reapAbandoned_def)

lemma set_selectDue: "set (selectDue cfg now skip rows) \<subseteq> {r \<in> set rows. due cfg now r \<and> ob_id r \<notin> skip}"
proof -
  let ?f = "filter (\<lambda>r. due cfg now r \<and> ob_id r \<notin> skip) rows"
  have "set (selectDue cfg now skip rows) \<subseteq> set (sort_key (\<lambda>r. (scheduledAt r, ob_seq r, ob_id r)) ?f)"
    unfolding selectDue_def by (rule set_take_subset)
  also have "\<dots> = set ?f" by (rule set_sort)
  also have "\<dots> = {r \<in> set rows. due cfg now r \<and> ob_id r \<notin> skip}" by simp
  finally show ?thesis .
qed

lemma distinct_selectDue: "distinct (map ob_id rows) \<Longrightarrow> distinct (map ob_id (selectDue cfg now skip rows))"
proof -
  let ?k = "\<lambda>r. (scheduledAt r, ob_seq r, ob_id r)"
  let ?f = "filter (\<lambda>r. due cfg now r \<and> ob_id r \<notin> skip) rows"
  assume "distinct (map ob_id rows)"
  then have "distinct (map ob_id ?f)" by (simp add: distinct_map_filter)
  then have "distinct (map ob_id (sort_key ?k ?f))"
    using distinct_map_mset [of "sort_key ?k ?f" ?f ob_id] by simp
  then show ?thesis by (simp add: selectDue_def take_map [symmetric])
qed

text \<open>A claim, row by row: reaped, or stamped with a lease and an attempt, or untouched.\<close>

lemma claim_cases:
  assumes "claim cfg now stmt skip tok rows = (batch, rows')" and "distinct (map ob_id rows)"
  shows "map ob_id rows' = map ob_id rows"
    and "distinct (map c_id batch)"
    and "\<And>c. c \<in> set batch \<Longrightarrow> c_token c = tok"
    and "\<And>r'. r' \<in> set rows' \<Longrightarrow> \<exists>r \<in> set rows. ob_id r' = ob_id r \<and>
      (if ob_id r \<in> c_id ` set batch
       then due cfg now r \<and> attempts r' = Suc (attempts r) \<and> status r' = Pending \<and>
         leaseToken r' = Some tok \<and> lockedUntil r' \<noteq> None
       else if abandoned cfg now r
       then attempts r' = attempts r \<and> status r' = Failed \<and> leaseToken r' = None \<and> lockedUntil r' = None
       else r' = r)"
proof -
  let ?r1 = "reapAbandoned cfg now rows"
  let ?sel = "selectDue cfg now skip ?r1"
  have idl: "map c_id batch = map ob_id ?sel" and toks: "\<forall>c \<in> set batch. c_token c = tok"
    and rows': "rows' = (if ?sel = [] then ?r1 else
      stampLeases stmt (map ob_id ?sel) tok (sum_list (map (leaseMsFor cfg) ?sel)) ?r1)"
    using assms(1) by (auto simp: claim_def Let_def comp_def split: if_splits)
  have batch: "c_id ` set batch = ob_id ` set ?sel"
    using idl by (metis image_set)
  show "map ob_id rows' = map ob_id rows" by (simp add: rows' stampLeases_def)
  have dist1: "distinct (map ob_id ?r1)" using assms(2) by simp
  from distinct_selectDue [OF dist1] idl show "distinct (map c_id batch)" by simp
  show "\<And>c. c \<in> set batch \<Longrightarrow> c_token c = tok" using toks by blast
  fix r' assume "r' \<in> set rows'"
  then obtain r1 where r1: "r1 \<in> set ?r1" "ob_id r' = ob_id r1"
    and r': "if ob_id r1 \<in> ob_id ` set ?sel
      then attempts r' = Suc (attempts r1) \<and> status r' = status r1 \<and> leaseToken r' = Some tok \<and> lockedUntil r' \<noteq> None
      else r' = r1"
    by (cases "?sel = []") (auto simp: rows' stampLeases_def in_update_where)
  from r1(1) obtain r where r: "r \<in> set rows" and
    rr1: "r1 = (if abandoned cfg now r
       then r\<lparr>status := Failed, lastError := ABANDONED_ERROR, leaseToken := None, lockedUntil := None\<rparr> else r)"
    by (auto simp: in_reapAbandoned)
  have "due cfg now r1" if in_sel: "ob_id r1 \<in> ob_id ` set ?sel"
  proof -
    from in_sel obtain r2 where "r2 \<in> set ?sel" "ob_id r2 = ob_id r1" by auto
    moreover from this have "r2 \<in> set ?r1" "due cfg now r2" using set_selectDue by blast+
    ultimately show ?thesis using r1(1) dist1 by (metis eq_key_imp_eq_value distinct_map inj_onD)
  qed
  then have due: "ob_id r1 \<in> ob_id ` set ?sel \<Longrightarrow> \<not> abandoned cfg now r \<and> due cfg now r"
    by (auto simp: rr1 due_def split: if_splits)
  have "ob_id r' = ob_id r \<and>
      (if ob_id r \<in> c_id ` set batch
       then due cfg now r \<and> attempts r' = Suc (attempts r) \<and> status r' = Pending \<and>
         leaseToken r' = Some tok \<and> lockedUntil r' \<noteq> None
       else if abandoned cfg now r
       then attempts r' = attempts r \<and> status r' = Failed \<and> leaseToken r' = None \<and> lockedUntil r' = None
       else r' = r)"
  proof (cases "ob_id r1 \<in> ob_id ` set ?sel")
    case True
    with due have "r1 = r" "due cfg now r" by (auto simp: rr1)
    with True r' r1(2) batch show ?thesis by (auto simp: due_def)
  next
    case False
    moreover have "ob_id r1 = ob_id r" by (simp add: rr1)
    ultimately show ?thesis using r' batch by (auto simp: rr1)
  qed
  with r show "\<exists>r \<in> set rows. ob_id r' = ob_id r \<and>
      (if ob_id r \<in> c_id ` set batch
       then due cfg now r \<and> attempts r' = Suc (attempts r) \<and> status r' = Pending \<and>
         leaseToken r' = Some tok \<and> lockedUntil r' \<noteq> None
       else if abandoned cfg now r
       then attempts r' = attempts r \<and> status r' = Failed \<and> leaseToken r' = None \<and> lockedUntil r' = None
       else r' = r)" by blast
qed

lemma update_where_twice:
  "(\<And>r. ob_id (g r) = ob_id r) \<Longrightarrow>
    update_where (\<lambda>r. ob_id r = i) f (update_where (\<lambda>r. ob_id r = i) g rows) =
    update_where (\<lambda>r. ob_id r = i) (\<lambda>r. f (g r)) rows"
  by (simp add: update_where_def)

lemma record_result_finish:
  "\<exists>f. record_result cfg now c d rows = finish c (update_where (\<lambda>r. ob_id r = c_id c) f) rows \<and>
    (\<forall>r. ob_id (f r) = ob_id r) \<and>
    (\<forall>r. attempts (f r) = (if is_defer d then attempts r - 1 else attempts r))"
proof (cases d)
  case Delivered
  then show ?thesis
    by (intro exI [of _ "\<lambda>r. r\<lparr>status := Sent\<rparr>"])
      (simp add: record_result_def send_row_def markSent_def [abs_def])
next
  case (Undelivered err)
  show ?thesis
  proof (cases "is_defer d")
    case True
    with Undelivered obtain msg x where "err = DeferError msg x" by (cases err) auto
    with Undelivered show ?thesis
      by (intro exI [of _ "\<lambda>r. r\<lparr>attempts := attempts r - 1, status := Pending, lastError := msg,
            scheduledAt := now + defer_delay x\<rparr>"])
        (simp add: record_result_def fail_row_def defer_row_def markFailed_def refundAttempt_def
          update_where_twice)
  next
    case False
    with Undelivered show ?thesis
      by (intro exI [of _ "\<lambda>r. r\<lparr>status := fail_status cfg (c_attempts c) err, lastError := message err,
            scheduledAt := (if fail_status cfg (c_attempts c) err = Pending
              then now + fail_delay (c_attempts c) err else scheduledAt r)\<rparr>"])
        (cases err; auto simp: record_result_def fail_row_def markFailed_def [abs_def])
  qed
qed

text \<open>A recorded outcome, row by row: it needs the lease, and touches only the row it holds.\<close>

lemma record_result_cases:
  assumes "record_result cfg now c d rows = Some rows'"
  shows "holdsLease c rows" and "map ob_id rows' = map ob_id rows"
    and "\<And>r'. r' \<in> set rows' \<Longrightarrow> \<exists>r \<in> set rows. ob_id r' = ob_id r \<and>
      (if ob_id r = c_id c
       then leaseToken r' = None \<and> lockedUntil r' = None \<and>
         attempts r' = (if is_defer d then attempts r - 1 else attempts r)
       else r' = r)"
proof -
  obtain f where rows': "finish c (update_where (\<lambda>r. ob_id r = c_id c) f) rows = Some rows'"
    and f: "\<And>r. ob_id (f r) = ob_id r"
      "\<And>r. attempts (f r) = (if is_defer d then attempts r - 1 else attempts r)"
    using assms record_result_finish [of cfg now c d rows] by metis
  from rows' show "holdsLease c rows" by (simp add: finish_def split: if_splits)
  have rel: "rows' = update_where (\<lambda>r. ob_id r = c_id c)
      (\<lambda>r. (f r)\<lparr>leaseToken := None, lockedUntil := None\<rparr>) rows"
    using rows' f(1) by (simp add: finish_def releaseLease_def update_where_twice split: if_splits)
  show "map ob_id rows' = map ob_id rows" by (simp add: rel f)
  fix r' assume "r' \<in> set rows'"
  then show "\<exists>r \<in> set rows. ob_id r' = ob_id r \<and>
      (if ob_id r = c_id c
       then leaseToken r' = None \<and> lockedUntil r' = None \<and>
         attempts r' = (if is_defer d then attempts r - 1 else attempts r)
       else r' = r)"
    by (auto simp: rel in_update_where f)
qed

lemma renewLease_cases:
  assumes "renewLease cfg stmt c rows = (t, rows')"
  shows "map ob_id rows' = map ob_id rows"
    and "t = (if \<exists>r \<in> set rows. mine c r then Some (stmt + leaseMsFor cfg (c_row c)) else None)"
    and "t = None \<Longrightarrow> rows' = rows"
    and "\<And>r'. r' \<in> set rows' \<Longrightarrow> \<exists>r \<in> set rows. ob_id r' = ob_id r \<and>
      (if mine c r then r' = r\<lparr>lockedUntil := t\<rparr> else r' = r)"
proof -
  let ?t = "stmt + leaseMsFor cfg (c_row c)"
  have rows': "rows' = update_where (mine c) (\<lambda>r. r\<lparr>lockedUntil := Some ?t\<rparr>) rows"
    and t: "t = (if filter (mine c) rows \<noteq> [] then Some ?t else None)"
    using assms by (auto simp: renewLease_def Let_def)
  show "map ob_id rows' = map ob_id rows" by (simp add: rows')
  show t': "t = (if \<exists>r \<in> set rows. mine c r then Some ?t else None)"
    by (auto simp: t filter_empty_conv)
  show "t = None \<Longrightarrow> rows' = rows"
    using t' by (auto simp: rows' update_where_def split: if_splits intro!: map_idI)
  fix r' assume "r' \<in> set rows'"
  then obtain r where r: "r \<in> set rows" "r' = (if mine c r then r\<lparr>lockedUntil := Some ?t\<rparr> else r)"
    by (auto simp: rows' in_update_where)
  then show "\<exists>r \<in> set rows. ob_id r' = ob_id r \<and> (if mine c r then r' = r\<lparr>lockedUntil := t\<rparr> else r' = r)"
    using t' by (intro bexI [of _ r]) auto
qed


section \<open>The invariant\<close>

text \<open>
  A row never has more attempts than allowed; it is leased only while pending, to one of its
  claims; its claims are its attempts and its refunds together.
\<close>

definition row_ok :: "relay_config \<Rightarrow> world \<Rightarrow> outbox_row \<Rightarrow> bool" where
  "row_ok cfg s r \<longleftrightarrow> attempts r \<le> maxAttempts cfg \<and>
     (leaseToken r = None \<longleftrightarrow> lockedUntil r = None) \<and>
     (\<forall>t. leaseToken r = Some t \<longrightarrow> status r = Pending \<and> 1 \<le> attempts r \<and> t \<in> claims s (ob_id r)) \<and>
     finite (claims s (ob_id r)) \<and>
     card (claims s (ob_id r)) = attempts r + refunds s (ob_id r)"

definition history_ok :: "world \<Rightarrow> bool" where
  "history_ok s \<longleftrightarrow> (\<forall>i. claims s i \<subseteq> issued s \<and> distinct (calls s i) \<and> set (calls s i) \<subseteq> claims s i \<and>
     (i \<notin> ob_id ` set (db s) \<longrightarrow> claims s i = {} \<and> refunds s i = 0))"

definition worker_ok :: "world \<Rightarrow> pc \<Rightarrow> bool" where
  "worker_ok s p \<longleftrightarrow> distinct (map c_id (held p)) \<and>
     (\<forall>c \<in> set (held p). c_token c \<in> claims s (c_id c)) \<and>
     (\<forall>c \<in> set (waiting p). c_token c \<notin> set (calls s (c_id c))) \<and>
     (\<forall>c. current p = Some c \<longrightarrow> clock s < c_expires c \<longrightarrow>
        (\<forall>r \<in> set (db s). ob_id r = c_id c \<longrightarrow>
           leaseToken r = Some (c_token c) \<and> lockedUntil r = Some (c_expires c)))"

definition apart :: "pc \<Rightarrow> pc \<Rightarrow> bool" where
  "apart p q \<longleftrightarrow> c_token ` set (held p) \<inter> c_token ` set (held q) = {}"

definition relay_inv :: "relay_config \<Rightarrow> world \<Rightarrow> bool" where
  "relay_inv cfg s \<longleftrightarrow> distinct (map ob_id (db s)) \<and> (\<forall>r \<in> set (db s). row_ok cfg s r) \<and> history_ok s \<and>
     (\<forall>w. worker_ok s (workers s w)) \<and> (\<forall>w w'. w \<noteq> w' \<longrightarrow> apart (workers s w) (workers s w'))"

lemma inv_initial: "relay_inv cfg initial"
  by (simp add: relay_inv_def initial_def history_ok_def worker_ok_def apart_def)

lemma apart_sym: "apart p q \<Longrightarrow> apart q p"
  by (auto simp: apart_def)

lemma apart_mono: "apart p q \<Longrightarrow> c_token ` set (held p') \<subseteq> c_token ` set (held p) \<Longrightarrow> apart p' q"
  unfolding apart_def by blast

lemma waiting_held: "c \<in> set (waiting p) \<Longrightarrow> c \<in> set (held p)"
  by (cases p) auto

lemma current_held: "current p = Some c \<Longrightarrow> c \<in> set (held p)"
  by (cases p) auto

lemma invD:
  assumes "relay_inv cfg s"
  shows "distinct (map ob_id (db s))" and "r \<in> set (db s) \<Longrightarrow> row_ok cfg s r" and "history_ok s"
    and "worker_ok s (workers s w)" and "w \<noteq> w' \<Longrightarrow> apart (workers s w) (workers s w')"
  using assms by (simp_all add: relay_inv_def)

lemma apart_tokens:
  "apart p q \<Longrightarrow> c \<in> set (held p) \<Longrightarrow> c' \<in> set (held q) \<Longrightarrow> c_token c \<noteq> c_token c'"
  unfolding apart_def by blast

lemma same_row: "distinct (map ob_id rows) \<Longrightarrow> r \<in> set rows \<Longrightarrow> r' \<in> set rows \<Longrightarrow> ob_id r = ob_id r' \<Longrightarrow> r = r'"
  by (simp add: distinct_map inj_on_def)

text \<open>What remains to show when worker \<open>w\<close> goes to \<open>p\<close>.\<close>

lemma invI:
  assumes "relay_inv cfg s" and "workers s' = set_worker s w p"
    and "distinct (map ob_id (db s'))" and "\<And>r. r \<in> set (db s') \<Longrightarrow> row_ok cfg s' r"
    and "history_ok s'" and "worker_ok s' p"
    and "\<And>w'. w' \<noteq> w \<Longrightarrow> worker_ok s' (workers s w')"
    and "\<And>w'. w' \<noteq> w \<Longrightarrow> apart p (workers s w')"
  shows "relay_inv cfg s'"
proof -
  have "apart (workers s' v) (workers s' v')" if "v \<noteq> v'" for v v'
    using that assms(1,2,8) by (cases "v = w"; cases "v' = w") (auto simp: relay_inv_def intro: apart_sym)
  then show ?thesis using assms unfolding relay_inv_def by simp
qed

text \<open>Steps that change one worker only: they may drop claims but not gain any.\<close>

lemma inv_worker:
  assumes "relay_inv cfg s" and "worker_ok s p" and "c_token ` set (held p) \<subseteq> c_token ` set (held (workers s w))"
  shows "relay_inv cfg (s\<lparr>workers := set_worker s w p\<rparr>)"
proof -
  have w: "worker_ok (s\<lparr>workers := ws\<rparr>) q = worker_ok s q" for ws q by (simp add: worker_ok_def)
  have r: "row_ok cfg (s\<lparr>workers := ws\<rparr>) r = row_ok cfg s r" for ws r by (simp add: row_ok_def)
  have h: "history_ok (s\<lparr>workers := ws\<rparr>) = history_ok s" for ws by (simp add: history_ok_def)
  show ?thesis
  proof (rule invI [OF assms(1)])
    show "apart p (workers s w')" if "w' \<noteq> w" for w'
      using invD(5) [OF assms(1)] that assms(3) by (metis apart_mono)
  qed (use assms(2) invD [OF assms(1)] in \<open>simp_all add: w r h\<close>)
qed

text \<open>A worker untouched by a step: its claims stay, its rows stay leased to it while its lease lasts.\<close>

lemma worker_ok_other:
  assumes "worker_ok s p" and "clock s' = clock s"
    and "\<And>c. c \<in> set (held p) \<Longrightarrow> claims s (c_id c) \<subseteq> claims s' (c_id c)"
    and "\<And>c. c \<in> set (held p) \<Longrightarrow> c_token c \<in> set (calls s' (c_id c)) \<Longrightarrow> c_token c \<in> set (calls s (c_id c))"
    and "\<And>c r'. current p = Some c \<Longrightarrow> clock s < c_expires c \<Longrightarrow> r' \<in> set (db s') \<Longrightarrow> ob_id r' = c_id c \<Longrightarrow>
      leaseToken r' = Some (c_token c) \<and> lockedUntil r' = Some (c_expires c)"
  shows "worker_ok s' p"
proof -
  have "c_token c \<in> claims s' (c_id c)" if "c \<in> set (held p)" for c
    using assms(1,3) that unfolding worker_ok_def by blast
  moreover have "c_token c \<notin> set (calls s' (c_id c))" if "c \<in> set (waiting p)" for c
    using assms(1,4) that waiting_held [OF that] unfolding worker_ok_def by blast
  moreover have "distinct (map c_id (held p))" using assms(1) unfolding worker_ok_def by blast
  ultimately show ?thesis unfolding worker_ok_def assms(2) using assms(5) by blast
qed

lemma worker_ok_leased:
  "worker_ok s p \<Longrightarrow> current p = Some c \<Longrightarrow> clock s < c_expires c \<Longrightarrow> r \<in> set (db s) \<Longrightarrow> ob_id r = c_id c \<Longrightarrow>
    leaseToken r = Some (c_token c) \<and> lockedUntil r = Some (c_expires c)"
  unfolding worker_ok_def by blast

lemma inv_tick: "relay_inv cfg s \<Longrightarrow> clock s \<le> t \<Longrightarrow> relay_inv cfg (s\<lparr>clock := t\<rparr>)"
  by (auto simp: relay_inv_def row_ok_def history_ok_def worker_ok_def)

lemma inv_enqueue:
  assumes "relay_inv cfg s" and "i \<notin> ob_id ` set (db s)"
  shows "relay_inv cfg (s\<lparr>db := db s @ [enqueued i sq (clock s)]\<rparr>)"
proof -
  have new: "claims s i = {}" "refunds s i = 0"
    using assms by (auto simp: relay_inv_def history_ok_def)
  have "c_id c \<noteq> i" if "current (workers s w) = Some c" for w c
  proof -
    have "c \<in> set (held (workers s w))" using that by (cases "workers s w") auto
    then have "c_token c \<in> claims s (c_id c)" using assms(1) by (auto simp: relay_inv_def worker_ok_def)
    with new show ?thesis by auto
  qed
  then show ?thesis
    using assms new by (auto simp: relay_inv_def row_ok_def history_ok_def worker_ok_def enqueued_def)
qed

lemma inv_renew:
  assumes "relay_inv cfg s" and w: "workers s w = Working (c # cs) n"
    and ren: "renewLease cfg (clock s) c (db s) = (Some t, rows)"
  shows "relay_inv cfg (s\<lparr>db := rows, calls := (calls s)(c_id c := c_token c # calls s (c_id c)),
      workers := set_worker s w (Delivering (c\<lparr>c_expires := t\<rparr>) cs n)\<rparr>)" (is "relay_inv cfg ?s'")
proof (rule invI [OF assms(1)])
  note ren' = renewLease_cases [OF ren] and inv = invD [OF assms(1)]
  let ?p = "Delivering (c\<lparr>c_expires := t\<rparr>) cs n"
  have held: "c \<in> set (held (workers s w))" by (simp add: w)
  have wok: "worker_ok s (Working (c # cs) n)" using inv(4) [of w] w by simp
  then have tok: "c_token c \<in> claims s (c_id c)" "c_token c \<notin> set (calls s (c_id c))"
    by (simp_all add: worker_ok_def)
  have row: "\<exists>r \<in> set (db s). ob_id r' = ob_id r \<and> (if mine c r then r' = r\<lparr>lockedUntil := Some t\<rparr> else r' = r)"
    if "r' \<in> set rows" for r' using ren'(4) [OF that] .
  show "workers ?s' = set_worker s w ?p" by simp
  show "distinct (map ob_id (db ?s'))" using inv(1) ren'(1) by simp
  show "row_ok cfg ?s' r'" if "r' \<in> set (db ?s')" for r'
  proof -
    from that row obtain r where r: "r \<in> set (db s)" "ob_id r' = ob_id r"
      "if mine c r then r' = r\<lparr>lockedUntil := Some t\<rparr> else r' = r" by auto
    from inv(2) [OF r(1)] r(2,3) show ?thesis
      by (auto simp: row_ok_def mine_def split: if_splits)
  qed
  have "ob_id ` set rows = ob_id ` set (db s)" using ren'(1) by (metis image_set)
  then show "history_ok ?s'" using inv(3) tok by (auto simp: history_ok_def)
  show "worker_ok ?s' ?p"
  proof -
    obtain r0 where r0: "r0 \<in> set (db s)" "mine c r0"
      using ren'(2) by (auto split: if_splits)
    have "leaseToken r' = Some (c_token c) \<and> lockedUntil r' = Some t"
      if "r' \<in> set rows" "ob_id r' = c_id c" for r'
    proof -
      from row [OF that(1)] obtain r where r: "r \<in> set (db s)" "ob_id r' = ob_id r"
        "if mine c r then r' = r\<lparr>lockedUntil := Some t\<rparr> else r' = r" by blast
      with that r0 have "r = r0" using same_row [OF inv(1)] by (simp add: mine_def)
      with r(3) r0(2) show ?thesis by (simp add: mine_def)
    qed
    moreover have "c_id d \<noteq> c_id c" if "d \<in> set cs" for d
    proof -
      have "c_id c \<notin> c_id ` set cs" using wok by (simp add: worker_ok_def)
      with that show ?thesis by (metis image_eqI)
    qed
    ultimately show ?thesis using wok by (auto simp: worker_ok_def)
  qed
  show "worker_ok ?s' (workers s w')" if w': "w' \<noteq> w" for w'
  proof -
    have other: "c_token d \<noteq> c_token c" if "d \<in> set (held (workers s w'))" for d
      using apart_tokens [OF inv(5) [OF w'] that held] .
    show ?thesis
    proof (rule worker_ok_other [OF inv(4) [of w']])
      fix d r'
      assume d: "current (workers s w') = Some d" "clock s < c_expires d"
      assume "r' \<in> set (db ?s')" "ob_id r' = c_id d"
      then have r': "r' \<in> set rows" "ob_id r' = c_id d" by simp_all
      from row [OF r'(1)] obtain r where r: "r \<in> set (db s)" "ob_id r' = ob_id r"
        "if mine c r then r' = r\<lparr>lockedUntil := Some t\<rparr> else r' = r" by blast
      have "leaseToken r = Some (c_token d) \<and> lockedUntil r = Some (c_expires d)"
        using worker_ok_leased [OF inv(4) d r(1)] r(2) r'(2) by simp
      moreover from this have "\<not> mine c r" using other [OF current_held [OF d(1)]] by (simp add: mine_def)
      ultimately show "leaseToken r' = Some (c_token d) \<and> lockedUntil r' = Some (c_expires d)"
        using r(3) by simp
    qed (use other in \<open>auto split: if_splits\<close>)
  qed
  show "apart ?p (workers s w')" if "w' \<noteq> w" for w'
    using inv(5) [of w w'] that w by (auto simp: apart_def)
qed


lemma inv_claim:
  assumes "relay_inv cfg s" and nb: "next_batch (workers s w) = Some n" and fresh: "tok \<notin> issued s"
    and "now \<le> clock s" and cl: "claim cfg now (clock s) skip tok (db s) = (batch, rows)"
  shows "relay_inv cfg (s\<lparr>db := rows, issued := insert tok (issued s),
      claims := (\<lambda>i. if i \<in> c_id ` set batch then insert tok (claims s i) else claims s i),
      workers := set_worker s w (if batch = [] then Idle else Working batch (Suc n))\<rparr>)" (is "relay_inv cfg ?s'")
proof (rule invI [OF assms(1)])
  note inv = invD [OF assms(1)]
  note cl' = claim_cases [OF cl inv(1)]
  let ?p = "if batch = [] then Idle else Working batch (Suc n)"
  have unclaimed: "tok \<notin> claims s i" for i using inv(3) fresh by (auto simp: history_ok_def)
  have uncalled: "tok \<notin> set (calls s i)" for i using inv(3) unclaimed by (auto simp: history_ok_def)
  have held: "c_token d \<noteq> tok" if "d \<in> set (held (workers s w'))" for d w'
    using inv(4) [of w'] that unclaimed by (auto simp: worker_ok_def)
  have ids: "ob_id ` set rows = ob_id ` set (db s)" using cl'(1) by (metis image_set)
  have sub: "c_id ` set batch \<subseteq> ob_id ` set (db s)"
  proof -
    have "c_id ` set batch = ob_id ` set (selectDue cfg now skip (reapAbandoned cfg now (db s)))"
      using cl by (auto simp: claim_def Let_def image_image split: if_splits)
    also have "\<dots> \<subseteq> ob_id ` set (reapAbandoned cfg now (db s))"
      using set_selectDue by blast
    also have "\<dots> = ob_id ` set (db s)" by (metis ids_reapAbandoned image_set)
    finally show ?thesis .
  qed
  show "workers ?s' = set_worker s w ?p" by simp
  show "distinct (map ob_id (db ?s'))" using inv(1) cl'(1) by simp
  show "row_ok cfg ?s' r'" if "r' \<in> set (db ?s')" for r'
  proof -
    from that have "r' \<in> set rows" by simp
    from cl'(4) [OF this] obtain r where r: "r \<in> set (db s)" "ob_id r' = ob_id r"
      "if ob_id r \<in> c_id ` set batch
       then due cfg now r \<and> attempts r' = Suc (attempts r) \<and> status r' = Pending \<and>
         leaseToken r' = Some tok \<and> lockedUntil r' \<noteq> None
       else if abandoned cfg now r
       then attempts r' = attempts r \<and> status r' = Failed \<and> leaseToken r' = None \<and> lockedUntil r' = None
       else r' = r" by blast
    from inv(2) [OF r(1)] r(2,3) unclaimed [of "ob_id r"] show ?thesis
      by (auto simp: row_ok_def due_def split: if_splits)
  qed
  show "history_ok ?s'"
    using inv(3) sub unclaimed fresh uncalled ids by (auto simp: history_ok_def)
  show "worker_ok ?s' ?p"
    using cl'(2,3) uncalled by (auto simp: worker_ok_def)
  show "worker_ok ?s' (workers s w')" if w': "w' \<noteq> w" for w'
  proof -
    show ?thesis
    proof (rule worker_ok_other [OF inv(4) [of w']])
      fix d r'
      assume d: "current (workers s w') = Some d" "clock s < c_expires d"
      assume "r' \<in> set (db ?s')" "ob_id r' = c_id d"
      then have r': "r' \<in> set rows" "ob_id r' = c_id d" by simp_all
      from cl'(4) [OF r'(1)] obtain r where r: "r \<in> set (db s)" "ob_id r' = ob_id r"
        "due cfg now r \<or> abandoned cfg now r \<or> r' = r" by (auto split: if_splits)
      have "leaseToken r = Some (c_token d) \<and> lockedUntil r = Some (c_expires d)"
        using worker_ok_leased [OF inv(4) d r(1)] r(2) r'(2) by simp
      moreover from this have "\<not> notLeased now r"
        using d(2) \<open>now \<le> clock s\<close> by (simp add: notLeased_def)
      ultimately show "leaseToken r' = Some (c_token d) \<and> lockedUntil r' = Some (c_expires d)"
        using r(3) by (auto simp: due_def abandoned_def)
    qed auto
  qed
  show "apart ?p (workers s w')" if "w' \<noteq> w" for w'
    using cl'(3) held [of _ w'] by (auto simp: apart_def)
qed

lemma inv_recorded:
  assumes "relay_inv cfg s" and w: "workers s w = Recording c d cs n"
    and rec: "record_result cfg (clock s) c d (db s) = Some rows"
  shows "relay_inv cfg (s\<lparr>db := rows,
      refunds := (if is_defer d then (refunds s)(c_id c := Suc (refunds s (c_id c))) else refunds s),
      workers := set_worker s w (Working cs n)\<rparr>)" (is "relay_inv cfg ?s'")
proof (rule invI [OF assms(1)])
  note inv = invD [OF assms(1)] and rec' = record_result_cases [OF rec]
  have heldc: "c \<in> set (held (workers s w))" by (simp add: w)
  obtain r0 where r0: "r0 \<in> set (db s)" "mine c r0"
    using rec'(1) by (auto simp: holdsLease_def filter_empty_conv)
  then have at: "1 \<le> attempts r0" using inv(2) [OF r0(1)] by (auto simp: row_ok_def mine_def)
  have row: "\<exists>r \<in> set (db s). ob_id r' = ob_id r \<and>
      (if ob_id r = c_id c then r = r0 \<and> leaseToken r' = None \<and> lockedUntil r' = None \<and>
         attempts r' = (if is_defer d then attempts r - 1 else attempts r) else r' = r)"
    if "r' \<in> set rows" for r'
    using rec'(3) [OF that] same_row [OF inv(1) _ r0(1)] r0(2) by (auto simp: mine_def split: if_splits)
  show "workers ?s' = set_worker s w (Working cs n)" by simp
  show "distinct (map ob_id (db ?s'))" using inv(1) rec'(2) by simp
  show "row_ok cfg ?s' r'" if "r' \<in> set (db ?s')" for r'
  proof -
    from that have "r' \<in> set rows" by simp
    from row [OF this] obtain r where r: "r \<in> set (db s)" "ob_id r' = ob_id r"
      "if ob_id r = c_id c then r = r0 \<and> leaseToken r' = None \<and> lockedUntil r' = None \<and>
         attempts r' = (if is_defer d then attempts r - 1 else attempts r) else r' = r" by blast
    from inv(2) [OF r(1)] r(2,3) at show ?thesis
      by (auto simp: row_ok_def split: if_splits)
  qed
  have "ob_id ` set rows = ob_id ` set (db s)" using rec'(2) by (metis image_set)
  moreover have "c_id c \<in> ob_id ` set (db s)" using r0 by (metis image_eqI mine_def)
  ultimately show "history_ok ?s'" using inv(3) by (auto simp: history_ok_def)
  show "worker_ok ?s' (Working cs n)" using inv(4) [of w] w by (auto simp: worker_ok_def)
  show "worker_ok ?s' (workers s w')" if w': "w' \<noteq> w" for w'
  proof -
    show ?thesis
    proof (rule worker_ok_other [OF inv(4) [of w']])
      fix e r'
      assume e: "current (workers s w') = Some e" "clock s < c_expires e"
      assume "r' \<in> set (db ?s')" "ob_id r' = c_id e"
      then have r': "r' \<in> set rows" "ob_id r' = c_id e" by simp_all
      from row [OF r'(1)] obtain r where r: "r \<in> set (db s)" "ob_id r' = ob_id r"
        "if ob_id r = c_id c then r = r0 else r' = r" by (auto split: if_splits)
      have "leaseToken r = Some (c_token e) \<and> lockedUntil r = Some (c_expires e)"
        using worker_ok_leased [OF inv(4) e r(1)] r(2) r'(2) by simp
      moreover have "c_token e \<noteq> c_token c"
        using apart_tokens [OF inv(5) [OF w'] current_held [OF e(1)] heldc] .
      ultimately show "leaseToken r' = Some (c_token e) \<and> lockedUntil r' = Some (c_expires e)"
        using r(3) r0(2) by (auto simp: mine_def split: if_splits)
    qed auto
  qed
  show "apart (Working cs n) (workers s w')" if "w' \<noteq> w" for w'
    using inv(5) [of w w'] that w by (auto simp: apart_def)
qed

lemma worker_ok_next:
  "worker_ok s Idle"
  "worker_ok s (Working (c # cs) n) \<Longrightarrow> worker_ok s (Working cs n)"
  "worker_ok s (Recording c d cs n) \<Longrightarrow> worker_ok s (Working cs n)"
  "worker_ok s (Recording c d cs n) \<Longrightarrow> worker_ok s (Recording c d' cs n)"
  "worker_ok s (Delivering c cs n) \<Longrightarrow> worker_ok s (Recording c d cs n)"
  by (simp_all add: worker_ok_def)

lemma inv_step:
  assumes "relay_inv cfg s" and "step cfg s s'"
  shows "relay_inv cfg s'"
  using assms(2)
proof cases
  case (tick t)
  then show ?thesis using inv_tick [OF assms(1)] by simp
next
  case (enqueue i sq)
  then show ?thesis using inv_enqueue [OF assms(1)] by simp
next
  case (claim w n tok now skip batch rows)
  then show ?thesis using inv_claim [OF assms(1)] by simp
next
  case (renew w c cs n t rows)
  then show ?thesis using inv_renew [OF assms(1)] by simp
next
  case (renew_lost w c cs n rows)
  then have "rows = db s" using renewLease_cases(3) by blast
  then show ?thesis
    using renew_lost(1,2) inv_worker [OF assms(1) worker_ok_next(2), of c cs n w] invD(4) [OF assms(1), of w]
    by auto
next
  case (renew_error w c cs n)
  then show ?thesis
    using inv_worker [OF assms(1) worker_ok_next(2), of c cs n w] invD(4) [OF assms(1), of w] by auto
next
  case (deliver w c cs n d)
  then show ?thesis
    using inv_worker [OF assms(1) worker_ok_next(5), of c cs n d w] invD(4) [OF assms(1), of w] by auto
next
  case (recorded w c d cs n rows)
  then show ?thesis using inv_recorded [OF assms(1)] by simp
next
  case (record_lost w c d cs n)
  then show ?thesis
    using inv_worker [OF assms(1) worker_ok_next(3), of c d cs n w] invD(4) [OF assms(1), of w] by auto
next
  case (settle_error w c cs n err)
  then show ?thesis
    using inv_worker [OF assms(1) worker_ok_next(4), of c Delivered cs n "Undelivered err" w]
      invD(4) [OF assms(1), of w] by auto
next
  case (record_error w c err cs n)
  then show ?thesis
    using inv_worker [OF assms(1) worker_ok_next(3), of c "Undelivered err" cs n w] invD(4) [OF assms(1), of w]
    by auto
next
  case (end_pass w n)
  then show ?thesis using inv_worker [OF assms(1) worker_ok_next(1), of w] by simp
next
  case (crash w)
  then show ?thesis using inv_worker [OF assms(1) worker_ok_next(1), of w] by simp
qed

lemma reachable_inv: "reachable cfg s \<Longrightarrow> relay_inv cfg s"
  by (induction rule: reachable.induct) (auto intro: inv_initial inv_step)

lemmas reachable_invD = invD [OF reachable_inv]


section \<open>What the protocol guarantees\<close>

lemma claimed_row:
  assumes "relay_inv cfg s" and "c \<in> set (held (workers s w))"
  obtains r where "r \<in> set (db s)" "ob_id r = c_id c"
proof -
  have "c_token c \<in> claims s (c_id c)" using invD(4) [OF assms(1), of w] assms(2) by (simp add: worker_ok_def)
  then have "c_id c \<in> ob_id ` set (db s)" using invD(3) [OF assms(1)] by (auto simp: history_ok_def)
  then show ?thesis using that by auto
qed

text \<open>C1: two workers are never inside the external call for one row while the leases of both last:
  the earlier lease has lapsed.\<close>

theorem one_live_delivery:
  assumes "reachable cfg s" and "w \<noteq> w'"
    and "current (workers s w) = Some c" and "current (workers s w') = Some c'" and "c_id c = c_id c'"
  shows "c_expires c \<le> clock s \<or> c_expires c' \<le> clock s"
proof (rule ccontr)
  assume "\<not> ?thesis"
  then have live: "clock s < c_expires c" "clock s < c_expires c'" by simp_all
  note inv = reachable_inv [OF assms(1)]
  obtain r where "r \<in> set (db s)" "ob_id r = c_id c"
    using claimed_row [OF inv current_held [OF assms(3)]] .
  then have "c_token c = c_token c'"
    using worker_ok_leased [OF invD(4) [OF inv] assms(3) live(1)]
      worker_ok_leased [OF invD(4) [OF inv] assms(4) live(2)] assms(5) by simp
  then show False
    using apart_tokens [OF invD(5) [OF inv assms(2)] current_held [OF assms(3)] current_held [OF assms(4)]]
    by simp
qed

text \<open>C15: the delivery calls made for a row, crashes and lost leases included, are under different
  claims, and no more than the attempts it has on record and the attempts that deferrals gave
  back; the attempts never pass \<^verbatim>\<open>maxAttempts\<close>.\<close>

theorem delivery_budget:
  assumes "reachable cfg s" and "r \<in> set (db s)"
  shows "distinct (calls s (ob_id r)) \<and>
    length (calls s (ob_id r)) \<le> attempts r + refunds s (ob_id r) \<and> attempts r \<le> maxAttempts cfg"
proof -
  have row: "row_ok cfg s r" and hist: "history_ok s" using reachable_invD [OF assms(1)] assms(2) by blast+
  then have d: "distinct (calls s (ob_id r))" "set (calls s (ob_id r)) \<subseteq> claims s (ob_id r)"
    by (auto simp: history_ok_def)
  then have "length (calls s (ob_id r)) \<le> card (claims s (ob_id r))"
    using row by (metis card_mono distinct_card row_ok_def)
  with row d(1) show ?thesis by (simp add: row_ok_def)
qed

text \<open>A row that was sent or dead-lettered is final: no later step of any worker changes it.\<close>

theorem terminal_rows_final:
  assumes "reachable cfg s" and "step cfg s s'" and "r \<in> set (db s)" and "status r \<noteq> Pending"
  shows "r \<in> set (db s')"
proof -
  note inv = reachable_invD [OF assms(1)]
  have unleased: "leaseToken r = None" using inv(2) [OF assms(3)] assms(4) by (auto simp: row_ok_def)
  have keep: "r \<in> set rows"
    if ids: "map ob_id rows = map ob_id (db s)" and img: "\<And>r'. r' \<in> set rows \<Longrightarrow> ob_id r' = ob_id r \<Longrightarrow> r' = r"
    for rows
  proof -
    have "ob_id r \<in> ob_id ` set rows" using assms(3) ids by (metis image_eqI image_set)
    with img show ?thesis by auto
  qed
  from assms(2) show ?thesis
  proof cases
    case (claim w n tok now skip batch rows)
    note cl = claim_cases [OF claim(5) inv(1)]
    have "r \<in> set rows"
    proof (rule keep [OF cl(1)])
      fix r' assume "r' \<in> set rows" "ob_id r' = ob_id r"
      from cl(4) [OF this(1)] this(2) obtain r1 where "r1 \<in> set (db s)" "ob_id r1 = ob_id r"
        "due cfg now r1 \<or> abandoned cfg now r1 \<or> r' = r1" by (auto split: if_splits)
      moreover from this have "r1 = r" using same_row [OF inv(1) _ assms(3)] by blast
      ultimately show "r' = r" using assms(4) by (auto simp: due_def abandoned_def)
    qed
    with claim show ?thesis by simp
  next
    case (renew w c cs n t rows)
    note rn = renewLease_cases [OF renew(3)]
    have "r \<in> set rows"
    proof (rule keep [OF rn(1)])
      fix r' assume "r' \<in> set rows" "ob_id r' = ob_id r"
      from rn(4) [OF this(1)] this(2) obtain r1 where "r1 \<in> set (db s)" "ob_id r1 = ob_id r"
        "mine c r1 \<or> r' = r1" by (auto split: if_splits)
      moreover from this have "r1 = r" using same_row [OF inv(1) _ assms(3)] by blast
      ultimately show "r' = r" using unleased by (auto simp: mine_def)
    qed
    with renew show ?thesis by simp
  next
    case (renew_lost w c cs n rows)
    then show ?thesis using assms(3) renewLease_cases(3) [OF renew_lost(3)] by simp
  next
    case (recorded w c d cs n rows)
    note rc = record_result_cases [OF recorded(3)]
    have "c_id c \<noteq> ob_id r"
    proof
      assume eq: "c_id c = ob_id r"
      obtain x where x: "x \<in> set (db s)" "mine c x"
        using rc(1) by (auto simp: holdsLease_def filter_empty_conv)
      with eq have "x = r" using same_row [OF inv(1) _ assms(3)] by (simp add: mine_def)
      with x(2) unleased show False by (simp add: mine_def)
    qed
    have "r \<in> set rows"
    proof (rule keep [OF rc(2)])
      fix r' assume "r' \<in> set rows" "ob_id r' = ob_id r"
      from rc(3) [OF this(1)] this(2) \<open>c_id c \<noteq> ob_id r\<close> obtain r1 where
        "r1 \<in> set (db s)" "ob_id r1 = ob_id r" "r' = r1" by (auto split: if_splits)
      then show "r' = r" using same_row [OF inv(1) _ assms(3)] by blast
    qed
    with recorded show ?thesis by simp
  qed (use assms(3) in simp_all)
qed


section \<open>A run\<close>

text \<open>Worker 0 claims a row and stalls inside the call; its lease lapses and worker 1 takes over.\<close>

abbreviation ex_row :: "nat \<Rightarrow> token option \<Rightarrow> ms option \<Rightarrow> outbox_row" where
  "ex_row n t u \<equiv> \<lparr>ob_id = ''a'', status = Pending, attempts = n, scheduledAt = 0, ob_seq = 0,
     lastError = [], leaseToken = t, lockedUntil = u\<rparr>"

abbreviation ex_claim :: "outbox_row \<Rightarrow> nat \<Rightarrow> token \<Rightarrow> ms \<Rightarrow> claimed" where
  "ex_claim r n t u \<equiv> \<lparr>c_row = r, c_attempts = n, c_token = t, c_expires = u\<rparr>"

lemmas relay_defs = claim_def reapAbandoned_def selectDue_def stampLeases_def update_where_def
  abandoned_def due_def notLeased_def renewLease_def mine_def base_relay_def DEFAULT_LEASE_MS_def
  enqueued_def initial_def

definition ex_world :: world where
  "ex_world = \<lparr>clock = 200000, db = [ex_row 2 (Some 2) (Some 320000)],
     workers = (\<lambda>_. Idle)(0 := Delivering (ex_claim (ex_row 0 None None) 1 1 120000) [] 1,
       1 := Delivering (ex_claim (ex_row 1 (Some 1) (Some 120000)) 2 2 320000) [] 1),
     issued = {1, 2}, claims = (\<lambda>i. if i = ''a'' then {1, 2} else {}),
     calls = (\<lambda>_. [])(''a'' := [2, 1]), refunds = (\<lambda>_. 0)\<rparr>"

lemma ex_reachable: "reachable base_relay ex_world"
proof -
  let ?w0 = "Working [ex_claim (ex_row 0 None None) 1 1 120000] 1"
  let ?d0 = "Delivering (ex_claim (ex_row 0 None None) 1 1 120000) [] 1"
  let ?s1 = "initial\<lparr>db := [ex_row 0 None None]\<rparr>"
  let ?s2 = "initial\<lparr>db := [ex_row 1 (Some 1) (Some 120000)], issued := {1},
    claims := (\<lambda>i. if i = ''a'' then {1} else {}), workers := (\<lambda>_. Idle)(0 := ?w0)\<rparr>"
  let ?s3 = "?s2\<lparr>calls := (\<lambda>_. [])(''a'' := [1]), workers := (\<lambda>_. Idle)(0 := ?d0)\<rparr>"
  let ?s4 = "?s3\<lparr>clock := 200000\<rparr>"
  let ?s5 = "?s4\<lparr>db := [ex_row 2 (Some 2) (Some 320000)], issued := {1, 2},
    claims := (\<lambda>i. if i = ''a'' then {1, 2} else {}),
    workers := (\<lambda>_. Idle)(0 := ?d0, 1 := Working [ex_claim (ex_row 1 (Some 1) (Some 120000)) 2 2 320000] 1)\<rparr>"
  have "reachable base_relay ?s1"
    using reachable.further [OF reachable.start step.enqueue [of "''a''" initial base_relay 0]]
    by (simp add: relay_defs)
  moreover have "step base_relay ?s1 ?s2"
    using step.claim [of ?s1 0 0 1 0 base_relay "{}" "[ex_claim (ex_row 0 None None) 1 1 120000]"
      "[ex_row 1 (Some 1) (Some 120000)]"] by (simp add: relay_defs cong: if_cong)
  moreover have "step base_relay ?s2 ?s3"
    using step.renew [of ?s2 0 "ex_claim (ex_row 0 None None) 1 1 120000" "[]" 1 base_relay 120000
      "[ex_row 1 (Some 1) (Some 120000)]"] by (simp add: relay_defs)
  moreover have "step base_relay ?s3 ?s4"
    using step.tick [of ?s3 200000 base_relay] by (simp add: relay_defs)
  moreover have "step base_relay ?s4 ?s5"
    using step.claim [of ?s4 1 0 2 200000 base_relay "{}"
      "[ex_claim (ex_row 1 (Some 1) (Some 120000)) 2 2 320000]"
      "[ex_row 2 (Some 2) (Some 320000)]"] by (simp add: relay_defs insert_commute cong: if_cong)
  moreover have "step base_relay ?s5 ex_world"
    using step.renew [of ?s5 1 "ex_claim (ex_row 1 (Some 1) (Some 120000)) 2 2 320000" "[]" 1 base_relay 320000
      "[ex_row 2 (Some 2) (Some 320000)]"] by (simp add: relay_defs ex_world_def)
  ultimately show ?thesis by (meson reachable.further)
qed


theorem one_live_delivery_witness:
  "c_expires (ex_claim (ex_row 0 None None) 1 1 120000) \<le> clock ex_world \<or>
   c_expires (ex_claim (ex_row 1 (Some 1) (Some 120000)) 2 2 320000) \<le> clock ex_world"
  by (rule one_live_delivery [OF ex_reachable, of 0 1]) (simp_all add: ex_world_def)

theorem delivery_budget_witness:
  "length (calls ex_world ''a'') \<le> 2 + refunds ex_world ''a'' \<and> (2::nat) \<le> maxAttempts base_relay"
  using delivery_budget [OF ex_reachable, of "ex_row 2 (Some 2) (Some 320000)"]
  by (simp add: ex_world_def)

text \<open>The same world with its row dead-lettered: worker 1 reports an error no retry can fix.\<close>

definition ex_failed :: world where
  "ex_failed = ex_world\<lparr>db := [\<lparr>ob_id = ''a'', status = Failed, attempts = 2, scheduledAt = 0, ob_seq = 0,
      lastError = ''gone'', leaseToken = None, lockedUntil = None\<rparr>],
    workers := (workers ex_world)(1 := Working [] 1)\<rparr>"

lemma ex_failed_reachable: "reachable base_relay ex_failed"
proof -
  let ?c = "ex_claim (ex_row 1 (Some 1) (Some 120000)) 2 2 320000"
  let ?d = "Undelivered (NonRetryableError ''gone'')"
  let ?s = "ex_world\<lparr>workers := (workers ex_world)(1 := Recording ?c ?d [] 1)\<rparr>"
  have "step base_relay ex_world ?s"
    using step.deliver [of ex_world 1 ?c "[]" 1 base_relay ?d] by (simp add: ex_world_def)
  moreover have "step base_relay ?s ex_failed"
    using step.recorded [of ?s 1 ?c ?d "[]" 1 base_relay "db ex_failed"]
    by (simp add: ex_world_def ex_failed_def record_result_def fail_row_def finish_def holdsLease_def
        mine_def releaseLease_def markFailed_def update_where_def fail_status_def)
  ultimately show ?thesis using ex_reachable by (meson reachable.further)
qed

theorem terminal_rows_final_witness:
  "hd (db ex_failed) \<in> set (db (ex_failed\<lparr>clock := 900000\<rparr>))"
  by (rule terminal_rows_final [OF ex_failed_reachable step.tick])
    (simp_all add: ex_failed_def ex_world_def)

section \<open>What is written\<close>

text \<open>The row after its outcome is recorded.\<close>

definition recorded_row :: "relay_config \<Rightarrow> ms \<Rightarrow> claimed \<Rightarrow> outcome \<Rightarrow> outbox_row \<Rightarrow> outbox_row" where
  "recorded_row cfg now c d r =
     (case d of
        Delivered \<Rightarrow> r\<lparr>status := Sent\<rparr>
      | Undelivered err \<Rightarrow>
          (case err of
             DeferError m x \<Rightarrow> r\<lparr>status := Pending, attempts := attempts r - 1, lastError := m,
               scheduledAt := now + defer_delay x\<rparr>
           | NonRetryableError m \<Rightarrow> r\<lparr>status := Failed, lastError := m\<rparr>
           | _ \<Rightarrow> if c_attempts c \<ge> maxAttempts cfg then r\<lparr>status := Failed, lastError := message err\<rparr>
                  else r\<lparr>status := Pending, lastError := message err,
                    scheduledAt := now + fail_delay (c_attempts c) err\<rparr>))
     \<lparr>leaseToken := None, lockedUntil := None\<rparr>"

text \<open>The fence. If no row carries the id and the lease token of the claim, recording an outcome
  writes nothing; otherwise exactly the rows with that id change: sent when delivered, back to
  pending with the attempt refunded when deferred, dead when not retryable or out of attempts,
  else pending again after the delay; and the lease is given up.\<close>

theorem record_result_fenced:
  "record_result cfg now c d rows =
     (if \<exists>r \<in> set rows. ob_id r = c_id c \<and> leaseToken r = Some (c_token c)
      then Some (map (\<lambda>r. if ob_id r = c_id c then recorded_row cfg now c d r else r) rows)
      else None)"
proof -
  have holds: "holdsLease c rows \<longleftrightarrow> (\<exists>r \<in> set rows. ob_id r = c_id c \<and> leaseToken r = Some (c_token c))"
    by (auto simp: holdsLease_def filter_empty_conv mine_def)
  have rel: "releaseLease c (update_where (\<lambda>r. ob_id r = c_id c) f rows) =
      map (\<lambda>r. if ob_id r = c_id c then (f r)\<lparr>leaseToken := None, lockedUntil := None\<rparr> else r) rows"
    if "\<And>r. ob_id (f r) = ob_id r" for f
    using that by (simp add: releaseLease_def update_where_twice) (simp add: update_where_def)
  show ?thesis
  proof (cases d)
    case Delivered
    then show ?thesis
      by (simp add: record_result_def send_row_def finish_def holds markSent_def rel recorded_row_def)
  next
    case (Undelivered err)
    then show ?thesis
      by (cases err)
        (auto simp: record_result_def fail_row_def defer_row_def finish_def holds markFailed_def
          refundAttempt_def update_where_twice rel recorded_row_def fail_status_def)
  qed
qed

theorem record_result_fenced_witness:
  "record_result base_relay 0 (ex_claim (ex_row 0 None None) 1 1 120000) Delivered
     [ex_row 2 (Some 2) (Some 320000)] = None"
  using record_result_fenced [of base_relay 0 "ex_claim (ex_row 0 None None) 1 1 120000" Delivered
      "[ex_row 2 (Some 2) (Some 320000)]"] by simp

text \<open>every delay written is within an hour: a deferral waits between nothing and an hour; a
  failure waits at least its backoff and 30 s from the first attempt on, never longer than an hour;
  a server's hint between the two is waited out exactly; and whatever the server sends that is
  not a number counts as no hint.\<close>

theorem delays_bounded:
  "0 \<le> defer_delay d \<and> defer_delay d \<le> MAX_RETRY_AFTER_MS \<and>
   fail_delay (Suc n) err \<ge> 30000 \<and> fail_delay (Suc n) err \<le> MAX_RETRY_AFTER_MS \<and>
   backoffDelayMs n \<le> backoffDelayMs (Suc n) \<and> backoffDelayMs n \<le> fail_delay n err \<and>
   fail_delay n (RetryAfterError m Not_finite) = backoffDelayMs n \<and>
   (backoffDelayMs n \<le> h \<longrightarrow> h \<le> MAX_RETRY_AFTER_MS \<longrightarrow> fail_delay n (RetryAfterError m (Finite h)) = h)"
proof -
  have base: "30000 \<le> backoffDelayMs (Suc n)"
    by (simp add: backoffDelayMs_def)
  have cap: "backoffDelayMs k \<le> 1800000" "0 \<le> backoffDelayMs k" for k
    by (simp_all add: backoffDelayMs_def)
  have mono: "backoffDelayMs n \<le> backoffDelayMs (Suc n)"
    unfolding backoffDelayMs_def by (intro min.mono) simp_all
  have hint: "0 \<le> clamp_delay x" "clamp_delay x \<le> MAX_RETRY_AFTER_MS" for x
    by (simp_all add: clamp_delay_def MAX_RETRY_AFTER_MS_def)
  have "fail_delay k err \<le> MAX_RETRY_AFTER_MS" for k
    using hint cap [of k] by (auto simp: fail_delay_def MAX_RETRY_AFTER_MS_def
        split: delivery_error.splits js_number.splits intro: order_trans)
  moreover have "backoffDelayMs k \<le> fail_delay k err" for k
    by (simp add: fail_delay_def)
  moreover have "fail_delay n (RetryAfterError m Not_finite) = backoffDelayMs n"
    using cap [of n] by (simp add: fail_delay_def)
  moreover have "fail_delay n (RetryAfterError m (Finite h)) = h"
    if "backoffDelayMs n \<le> h" "h \<le> MAX_RETRY_AFTER_MS"
    using that cap [of n] by (simp add: fail_delay_def clamp_delay_def)
  ultimately show ?thesis
    using base mono hint by (auto simp: defer_delay_def MAX_RETRY_AFTER_MS_def
        split: js_number.splits intro: order_trans)
qed

theorem delays_bounded_witness:
  "fail_delay 1 (RetryAfterError ''429'' (Finite 45000)) = 45000"
proof -
  have "backoffDelayMs 1 \<le> 45000 \<longrightarrow> 45000 \<le> MAX_RETRY_AFTER_MS \<longrightarrow>
      fail_delay 1 (RetryAfterError ''429'' (Finite 45000)) = 45000"
    using delays_bounded [of Not_finite 1 "OtherError []" "''429''" 45000] by blast
  then show ?thesis by (simp add: backoffDelayMs_def MAX_RETRY_AFTER_MS_def)
qed

end
