(* ===== verification/Permissions.thy ===== *)
theory Permissions
  imports Prelude
begin

text \<open>
  The permission catalogue, \<^verbatim>\<open>db/permissions.catalog.ts\<close>: the codes, the tier of each, the three
  roles and the two per-Project access levels with what they grant, and the one wildcard-aware check
  \<open>permissionGrants\<close>. In the role lists and the tier table the constants of \<open>PERMISSION\<close> stand for
  their codes.
\<close>

definition PERMISSION :: "(string \<times> string) list" where
  "PERMISSION =
     [(''WORKSPACE_ALL'', ''workspace:*''),
      (''WORKSPACE_VIEW'', ''workspace:view''),
      (''WORKSPACE_CREATE'', ''workspace:create''),
      (''WORKSPACE_EDIT'', ''workspace:edit''),
      (''WORKSPACE_DELETE'', ''workspace:delete''),
      (''USERS_INVITE'', ''users:invite''),
      (''USERS_REMOVE'', ''users:remove''),
      (''USERS_ASSIGN_ROLE'', ''users:assign_role''),
      (''API_TOKEN_MANAGE_ALL'', ''api_token:manage_all''),
      (''ROLES_VIEW'', ''roles:view''),
      (''ROLES_EDIT'', ''roles:edit''),
      (''TEAMS_CREATE'', ''teams:create''),
      (''TEAMS_EDIT'', ''teams:edit''),
      (''TEAMS_MANAGE_MEMBERS'', ''teams:manage_members''),
      (''AUDIT_VIEW'', ''audit:view''),
      (''SCM_MANAGE'', ''scm:manage''),
      (''PROJECT_VIEW'', ''project:view''),
      (''PROJECT_CREATE'', ''project:create''),
      (''PROJECT_EDIT'', ''project:edit''),
      (''PROJECT_ARCHIVE'', ''project:archive''),
      (''PROJECT_RESTORE'', ''project:restore''),
      (''PROJECT_DELETE'', ''project:delete''),
      (''PROJECT_MANAGE_MEMBERS'', ''project:manage_members''),
      (''WORK_ITEM_VIEW'', ''work_item:view''),
      (''WORK_ITEM_CREATE'', ''work_item:create''),
      (''WORK_ITEM_EDIT'', ''work_item:edit''),
      (''WORK_ITEM_DELETE'', ''work_item:delete''),
      (''ITERATION_VIEW'', ''iteration:view''),
      (''ITERATION_CREATE'', ''iteration:create''),
      (''ITERATION_EDIT'', ''iteration:edit''),
      (''ITERATION_DELETE'', ''iteration:delete''),
      (''TIMEBOX_VIEW'', ''timebox:view''),
      (''RELEASE_VIEW'', ''release:view''),
      (''RELEASE_CREATE'', ''release:create''),
      (''RELEASE_EDIT'', ''release:edit''),
      (''RELEASE_DELETE'', ''release:delete''),
      (''TEAM_STATUS_VIEW'', ''team_status:view''),
      (''TEAM_STATUS_EDIT'', ''team_status:edit''),
      (''QUALITY_VIEW'', ''quality:view''),
      (''MILESTONE_VIEW'', ''milestone:view''),
      (''MILESTONE_CREATE'', ''milestone:create''),
      (''MILESTONE_EDIT'', ''milestone:edit''),
      (''MILESTONE_DELETE'', ''milestone:delete''),
      (''PORTFOLIO_VIEW'', ''portfolio:view''),
      (''PORTFOLIO_CREATE'', ''portfolio:create''),
      (''PORTFOLIO_EDIT'', ''portfolio:edit''),
      (''PORTFOLIO_ARCHIVE'', ''portfolio:archive''),
      (''CAPACITY_VIEW'', ''capacity:view''),
      (''CAPACITY_MANAGE'', ''capacity:manage''),
      (''CAPACITY_PUBLISH'', ''capacity:publish''),
      (''CAPACITY_VIEW_DRAFT'', ''capacity:view_draft''),
      (''REPORT_VIEW'', ''report:view''),
      (''REPORT_EXPORT'', ''report:export''),
      (''TEST_CASE_VIEW'', ''test_case:view''),
      (''TEST_CASE_CREATE'', ''test_case:create''),
      (''TEST_CASE_EDIT'', ''test_case:edit''),
      (''TEST_CASE_DELETE'', ''test_case:delete''),
      (''TEST_RESULT_VIEW'', ''test_result:view''),
      (''TEST_RESULT_CREATE'', ''test_result:create''),
      (''TEST_RESULT_EDIT'', ''test_result:edit''),
      (''TEST_RESULT_DELETE'', ''test_result:delete'')]"

datatype tier = Workspace_tier | Project_tier

definition PERMISSION_TIER :: "(string \<times> tier) list" where
  "PERMISSION_TIER =
     [(''workspace:*'', Workspace_tier),
      (''workspace:view'', Workspace_tier),
      (''workspace:create'', Workspace_tier),
      (''workspace:edit'', Workspace_tier),
      (''workspace:delete'', Workspace_tier),
      (''users:invite'', Workspace_tier),
      (''users:remove'', Workspace_tier),
      (''users:assign_role'', Workspace_tier),
      (''api_token:manage_all'', Workspace_tier),
      (''roles:view'', Workspace_tier),
      (''roles:edit'', Workspace_tier),
      (''teams:create'', Workspace_tier),
      (''teams:edit'', Workspace_tier),
      (''teams:manage_members'', Workspace_tier),
      (''audit:view'', Workspace_tier),
      (''scm:manage'', Workspace_tier),
      (''project:create'', Workspace_tier),
      (''project:view'', Project_tier),
      (''project:edit'', Project_tier),
      (''project:archive'', Project_tier),
      (''project:restore'', Project_tier),
      (''project:delete'', Project_tier),
      (''project:manage_members'', Project_tier),
      (''work_item:view'', Project_tier),
      (''work_item:create'', Project_tier),
      (''work_item:edit'', Project_tier),
      (''work_item:delete'', Project_tier),
      (''iteration:view'', Project_tier),
      (''iteration:create'', Project_tier),
      (''iteration:edit'', Project_tier),
      (''iteration:delete'', Project_tier),
      (''timebox:view'', Project_tier),
      (''release:view'', Project_tier),
      (''release:create'', Project_tier),
      (''release:edit'', Project_tier),
      (''release:delete'', Project_tier),
      (''team_status:view'', Project_tier),
      (''team_status:edit'', Project_tier),
      (''quality:view'', Project_tier),
      (''milestone:view'', Project_tier),
      (''milestone:create'', Project_tier),
      (''milestone:edit'', Project_tier),
      (''milestone:delete'', Project_tier),
      (''portfolio:view'', Project_tier),
      (''portfolio:create'', Project_tier),
      (''portfolio:edit'', Project_tier),
      (''portfolio:archive'', Project_tier),
      (''capacity:view'', Project_tier),
      (''capacity:view_draft'', Project_tier),
      (''capacity:manage'', Project_tier),
      (''capacity:publish'', Project_tier),
      (''report:view'', Project_tier),
      (''report:export'', Project_tier),
      (''test_case:view'', Project_tier),
      (''test_case:create'', Project_tier),
      (''test_case:edit'', Project_tier),
      (''test_case:delete'', Project_tier),
      (''test_result:view'', Project_tier),
      (''test_result:create'', Project_tier),
      (''test_result:edit'', Project_tier),
      (''test_result:delete'', Project_tier)]"

definition isProjectTierPermission :: "string \<Rightarrow> bool" where
  "isProjectTierPermission permission \<longleftrightarrow> map_of PERMISSION_TIER permission = Some Project_tier"

definition namespace :: "string \<Rightarrow> string" where
  "namespace required = takeWhile (\<lambda>c. c \<noteq> CHR '':'') required"

definition permissionGrants :: "string list \<Rightarrow> string \<Rightarrow> bool" where
  "permissionGrants permissions required =
     (if permissions = [] then False
      else if ''workspace:*'' \<in> set permissions \<or> required \<in> set permissions then True
      else let ns = namespace required in ns \<noteq> [] \<and> ns @ '':*'' \<in> set permissions)"

datatype SystemRole = WORKSPACE_ADMIN | PROJECT_ADMIN | PROJECT_MEMBER

fun role_slug :: "SystemRole \<Rightarrow> string" where
  "role_slug WORKSPACE_ADMIN = ''workspace_admin''"
| "role_slug PROJECT_ADMIN = ''project_admin''"
| "role_slug PROJECT_MEMBER = ''project_member''"

fun ROLE_PERMISSIONS :: "SystemRole \<Rightarrow> string list" where
  "ROLE_PERMISSIONS WORKSPACE_ADMIN =
     [''workspace:*'', ''workspace:view'', ''workspace:create'', ''workspace:edit'', ''workspace:delete'',
      ''users:invite'', ''users:remove'', ''users:assign_role'', ''api_token:manage_all'', ''roles:view'',
      ''roles:edit'', ''teams:create'', ''teams:edit'', ''teams:manage_members'', ''audit:view'',
      ''scm:manage'', ''project:view'', ''project:create'', ''project:edit'', ''project:archive'',
      ''project:restore'', ''project:delete'', ''project:manage_members'', ''work_item:view'',
      ''work_item:create'', ''work_item:edit'', ''work_item:delete'', ''iteration:view'',
      ''iteration:create'', ''iteration:edit'', ''iteration:delete'', ''timebox:view'', ''release:view'',
      ''release:create'', ''release:edit'', ''release:delete'', ''team_status:view'', ''team_status:edit'',
      ''quality:view'', ''milestone:view'', ''milestone:create'', ''milestone:edit'', ''milestone:delete'',
      ''portfolio:view'', ''portfolio:create'', ''portfolio:edit'', ''portfolio:archive'', ''capacity:view'',
      ''capacity:view_draft'', ''capacity:manage'', ''capacity:publish'', ''report:view'', ''report:export'',
      ''test_case:view'', ''test_case:create'', ''test_case:edit'', ''test_case:delete'',
      ''test_result:view'', ''test_result:create'', ''test_result:edit'', ''test_result:delete'']"
| "ROLE_PERMISSIONS PROJECT_ADMIN =
     [''project:view'', ''project:edit'', ''work_item:view'', ''work_item:create'', ''work_item:edit'',
      ''work_item:delete'', ''iteration:view'', ''iteration:create'', ''iteration:edit'',
      ''iteration:delete'', ''timebox:view'', ''release:view'', ''release:create'', ''release:edit'',
      ''release:delete'', ''team_status:view'', ''team_status:edit'', ''quality:view'', ''milestone:view'',
      ''milestone:create'', ''milestone:edit'', ''milestone:delete'', ''portfolio:view'',
      ''portfolio:create'', ''portfolio:edit'', ''portfolio:archive'', ''capacity:view'',
      ''capacity:view_draft'', ''capacity:manage'', ''capacity:publish'', ''report:view'', ''report:export'',
      ''test_case:view'', ''test_case:create'', ''test_case:edit'', ''test_case:delete'',
      ''test_result:view'', ''test_result:create'', ''test_result:edit'', ''test_result:delete'']"
| "ROLE_PERMISSIONS PROJECT_MEMBER =
     [''project:view'', ''work_item:view'', ''work_item:create'', ''work_item:edit'', ''work_item:delete'',
      ''iteration:view'', ''quality:view'', ''team_status:view'', ''test_case:view'', ''test_case:create'',
      ''test_case:edit'', ''test_case:delete'', ''test_result:view'', ''test_result:create'',
      ''test_result:edit'', ''test_result:delete'']"

datatype ProjectAccessLevel = Admin | Editor

fun level_slug :: "ProjectAccessLevel \<Rightarrow> string" where
  "level_slug Admin = ''admin''"
| "level_slug Editor = ''editor''"

definition PROJECT_ACCESS_LEVEL :: "string list" where
  "PROJECT_ACCESS_LEVEL = map level_slug [Admin, Editor]"

fun ACCESS_LEVEL_PERMISSIONS :: "ProjectAccessLevel \<Rightarrow> string list" where
  "ACCESS_LEVEL_PERMISSIONS Admin = ROLE_PERMISSIONS PROJECT_ADMIN"
| "ACCESS_LEVEL_PERMISSIONS Editor = ROLE_PERMISSIONS PROJECT_MEMBER"

text \<open>The type guard, with the level it narrows to.\<close>

definition isProjectAccessLevel :: "string option \<Rightarrow> ProjectAccessLevel option" where
  "isProjectAccessLevel v =
     (if v = Some (level_slug Admin) then Some Admin
      else if v = Some (level_slug Editor) then Some Editor else None)"

section \<open>What the tables say\<close>

lemma level_permissions_catalogued:
  "list_all (\<lambda>p. map_of PERMISSION_TIER p = Some Project_tier) (ACCESS_LEVEL_PERMISSIONS Admin)"
  "list_all (\<lambda>p. map_of PERMISSION_TIER p = Some Project_tier) (ACCESS_LEVEL_PERMISSIONS Editor)"
  by code_simp+

lemma level_permissions_no_wildcard:
  "list_all (\<lambda>p. last p \<noteq> CHR ''*'') (ACCESS_LEVEL_PERMISSIONS Admin)"
  "list_all (\<lambda>p. last p \<noteq> CHR ''*'') (ACCESS_LEVEL_PERMISSIONS Editor)"
  by code_simp+

lemma member_in_admin: "list_all (\<lambda>p. List.member (ROLE_PERMISSIONS PROJECT_ADMIN) p) (ROLE_PERMISSIONS PROJECT_MEMBER)"
  by code_simp

text \<open>Without a wildcard in the list, the check is membership.\<close>

lemma permissionGrants_plain:
  assumes "list_all (\<lambda>p. last p \<noteq> CHR ''*'') ps"
  shows "permissionGrants ps required \<longleftrightarrow> required \<in> set ps"
proof -
  have "q @ '':*'' \<notin> set ps" for q
    using assms by (auto simp: list_all_iff dest!: bspec)
  moreover have "''workspace:*'' \<notin> set ps"
    using assms by (auto simp: list_all_iff dest!: bspec)
  ultimately show ?thesis by (auto simp: permissionGrants_def Let_def)
qed

lemma level_grants: "permissionGrants (ACCESS_LEVEL_PERMISSIONS l) required \<longleftrightarrow> required \<in> set (ACCESS_LEVEL_PERMISSIONS l)"
  by (rule permissionGrants_plain) (cases l; simp only: level_permissions_no_wildcard)

lemma level_grants_project_tier:
  "permissionGrants (ACCESS_LEVEL_PERMISSIONS l) required \<Longrightarrow> isProjectTierPermission required"
  using level_permissions_catalogued
  by (cases l) (auto simp only: level_grants list_all_iff isProjectTierPermission_def)

lemma workspace_admin_grants: "permissionGrants (ROLE_PERMISSIONS WORKSPACE_ADMIN) required"
  by (simp add: permissionGrants_def)

text \<open>The codes a role holds that manage or edit something whose \<open>view\<close> code exists but is not granted.\<close>

definition action :: "string \<Rightarrow> string" where
  "action required = drop 1 (dropWhile (\<lambda>c. c \<noteq> CHR '':'') required)"

definition blind_managers :: "SystemRole \<Rightarrow> string list" where
  "blind_managers r =
     filter (\<lambda>p. (action p = ''manage'' \<or> action p = ''edit'') \<and>
       List.member (map snd PERMISSION) (namespace p @ '':view'') \<and>
       \<not> permissionGrants (ROLE_PERMISSIONS r) (namespace p @ '':view'')) (ROLE_PERMISSIONS r)"

lemma no_blind_managers: "blind_managers WORKSPACE_ADMIN = []" "blind_managers PROJECT_ADMIN = []" "blind_managers PROJECT_MEMBER = []"
  by code_simp+

text \<open>the catalogue is sane: the tiers are monotone (what an editor may do an admin may do, what an
  admin may do a workspace admin may do), no per-Project level grants a workspace-tier action however
  the code is spelled, and whoever may manage or edit something may view it.\<close>

theorem catalogue_monotone:
  "(permissionGrants (ACCESS_LEVEL_PERMISSIONS Editor) p \<longrightarrow> permissionGrants (ACCESS_LEVEL_PERMISSIONS Admin) p) \<and>
   (permissionGrants (ACCESS_LEVEL_PERMISSIONS Admin) p \<longrightarrow> permissionGrants (ROLE_PERMISSIONS WORKSPACE_ADMIN) p) \<and>
   (permissionGrants (ACCESS_LEVEL_PERMISSIONS l) p \<longrightarrow> isProjectTierPermission p) \<and>
   (p \<in> set (ROLE_PERMISSIONS r) \<and> (action p = ''manage'' \<or> action p = ''edit'') \<and>
      namespace p @ '':view'' \<in> snd ` set PERMISSION \<longrightarrow>
      permissionGrants (ROLE_PERMISSIONS r) (namespace p @ '':view''))"
proof (intro conjI impI)
  assume "permissionGrants (ACCESS_LEVEL_PERMISSIONS Editor) p"
  then show "permissionGrants (ACCESS_LEVEL_PERMISSIONS Admin) p"
    using member_in_admin unfolding level_grants
    by (auto simp only: ACCESS_LEVEL_PERMISSIONS.simps list_all_iff List.member_iff)
next
  show "permissionGrants (ROLE_PERMISSIONS WORKSPACE_ADMIN) p" by (rule workspace_admin_grants)
next
  assume "permissionGrants (ACCESS_LEVEL_PERMISSIONS l) p"
  then show "isProjectTierPermission p" by (rule level_grants_project_tier)
next
  assume h: "p \<in> set (ROLE_PERMISSIONS r) \<and> (action p = ''manage'' \<or> action p = ''edit'') \<and>
      namespace p @ '':view'' \<in> snd ` set PERMISSION"
  have "p \<notin> set (blind_managers r)" using no_blind_managers by (cases r) (simp_all only: list.set empty_iff not_False_eq_True)
  with h show "permissionGrants (ROLE_PERMISSIONS r) (namespace p @ '':view'')"
    unfolding blind_managers_def by (simp only: set_filter mem_Collect_eq List.member_iff set_map) blast
qed

theorem catalogue_monotone_witness:
  "permissionGrants (ACCESS_LEVEL_PERMISSIONS Admin) ''work_item:edit'' \<and>
   isProjectTierPermission ''work_item:edit'' \<and> permissionGrants (ROLE_PERMISSIONS PROJECT_MEMBER) ''work_item:view''"
proof -
  have h: "permissionGrants (ACCESS_LEVEL_PERMISSIONS Editor) ''work_item:edit''"
    "''work_item:edit'' \<in> set (ROLE_PERMISSIONS PROJECT_MEMBER)"
    "action ''work_item:edit'' = ''edit''" "namespace ''work_item:edit'' = ''work_item''"
    "''work_item:view'' \<in> snd ` set PERMISSION"
    by (simp_all add: permissionGrants_def namespace_def action_def PERMISSION_def)
  have v: "namespace ''work_item:edit'' @ '':view'' = ''work_item:view''" by (simp add: namespace_def)
  note c = catalogue_monotone [of "''work_item:edit''" Editor PROJECT_MEMBER, unfolded v]
  from c h show ?thesis by blast
qed

end
