(* ===== verification/Access.thy ===== *)
theory Access
  imports Permissions
begin

text \<open>
  Who may do what: \<^verbatim>\<open>access/src/application/access.service.ts\<close> (effective assignments and their
  cache, per-Project level, team scope, readable projects), \<^verbatim>\<open>access/src/domain/project-access.ts\<close>,
  \<^verbatim>\<open>access/src/application/project-scope.resolver.ts\<close> and the guard of
  \<^verbatim>\<open>access/src/interface/http/policy.guard.ts\<close>. The tables the queries read are row lists; the cache is
  a map of entries with the second they expire, which a request may fail to read or to write;
  \<open>access_reach\<close> has the orders in which commits, lookups, fills and invalidations may come.
\<close>

section \<open>Tables\<close>

datatype ScopeType = Global | Workspace | Project

record role_row =
  ra_id :: uuid
  ra_workspace :: uuid
  ra_user :: uuid
  ra_scopeType :: ScopeType
  ra_scopeId :: "uuid option"
  ra_slug :: string
  ra_permissions :: "string list"

record member_row =
  wm_workspace :: uuid
  wm_user :: uuid
  wm_active :: bool

record project_member_row =
  pm_id :: uuid
  pm_workspace :: uuid
  pm_project :: uuid
  pm_user :: uuid
  pm_level :: "string option"
  pm_active :: bool

record project_team_row =
  pt_project :: uuid
  pt_team :: uuid
  pt_active :: bool

record team_member_row =
  tm_workspace :: uuid
  tm_team :: uuid
  tm_user :: uuid
  tm_active :: bool

record access_db =
  roleRows :: "role_row list"
  members :: "member_row list"
  projectMembers :: "project_member_row list"
  projectTeams :: "project_team_row list"
  teamMembers :: "team_member_row list"

record assignment =
  scopeType :: ScopeType
  scopeId :: "uuid option"
  roleSlug :: "string option"
  permissions :: "string list"

section \<open>Effective assignments\<close>

definition active_member :: "access_db \<Rightarrow> uuid \<Rightarrow> uuid \<Rightarrow> bool" where
  "active_member db ws u \<longleftrightarrow> (\<exists>m \<in> set (members db). wm_workspace m = ws \<and> wm_user m = u \<and> wm_active m)"

definition listEffectiveForUser :: "access_db \<Rightarrow> uuid \<Rightarrow> uuid \<Rightarrow> assignment list" where
  "listEffectiveForUser db ws u =
     map (\<lambda>r. \<lparr>scopeType = ra_scopeType r, scopeId = ra_scopeId r, roleSlug = Some (ra_slug r), permissions = ra_permissions r\<rparr>)
       (filter (\<lambda>r. ra_workspace r = ws \<and> ra_user r = u \<and> active_member db ws u) (roleRows db))"

definition synthesized :: "project_member_row list \<Rightarrow> assignment list" where
  "synthesized rows =
     List.map_filter (\<lambda>r. case isProjectAccessLevel (pm_level r) of
         None \<Rightarrow> None
       | Some l \<Rightarrow> Some \<lparr>scopeType = Project, scopeId = Some (pm_project r), roleSlug = pm_level r,
                          permissions = ACCESS_LEVEL_PERMISSIONS l\<rparr>) rows"

text \<open>The database half of \<open>effectiveAssignments\<close>.\<close>

definition assignments_from_db :: "access_db \<Rightarrow> uuid \<Rightarrow> uuid \<Rightarrow> assignment list" where
  "assignments_from_db db ws u =
     (let rows = listEffectiveForUser db ws u;
          accessRows = filter (\<lambda>r. pm_workspace r = ws \<and> pm_user r = u \<and> pm_active r \<and> active_member db ws u) (projectMembers db)
      in rows @ synthesized accessRows)"

text \<open>Every entry of the cache carries the second at which it expires. A lookup is two steps: it consults
  the cache and, on a miss, the database (\<open>lookup_effective\<close>), and it then fills the cache
  (\<open>store_effective\<close>); other requests may commit, invalidate or fill in between. Both cache
  accesses are best effort: \<open>r\<close> and \<open>w\<close> say whether they reach it.\<close>

type_synonym assignment_cache = "uuid \<times> uuid \<Rightarrow> (assignment list \<times> nat) option"

definition ASSIGNMENTS_TTL_SECONDS :: nat where
  "ASSIGNMENTS_TTL_SECONDS = 300"

definition cached_assignments :: "assignment_cache \<Rightarrow> nat \<Rightarrow> uuid \<Rightarrow> uuid \<Rightarrow> assignment list option" where
  "cached_assignments cache now ws u =
     (case cache (ws, u) of
        None \<Rightarrow> None
      | Some (v, expiry) \<Rightarrow> if now < expiry then Some v else None)"

definition lookup_effective ::
  "access_db \<Rightarrow> bool \<Rightarrow> nat \<Rightarrow> assignment_cache \<Rightarrow> uuid \<Rightarrow> uuid \<Rightarrow> assignment list \<times> bool" where
  "lookup_effective db r now cache ws u =
     (case (if r then cached_assignments cache now ws u else None) of
        Some hit \<Rightarrow> (hit, True)
      | None \<Rightarrow> (assignments_from_db db ws u, False))"

definition store_effective ::
  "bool \<Rightarrow> nat \<Rightarrow> assignment list \<Rightarrow> uuid \<Rightarrow> uuid \<Rightarrow> assignment_cache \<Rightarrow> assignment_cache" where
  "store_effective w now all_rows ws u cache =
     (if w then cache((ws, u) := Some (all_rows, now + ASSIGNMENTS_TTL_SECONDS)) else cache)"

definition effectiveAssignments ::
  "access_db \<Rightarrow> bool \<Rightarrow> bool \<Rightarrow> nat \<Rightarrow> assignment_cache \<Rightarrow> uuid \<Rightarrow> uuid \<Rightarrow> assignment list \<times> assignment_cache" where
  "effectiveAssignments db r w now cache ws u =
     (let (all_rows, hit) = lookup_effective db r now cache ws u
      in (all_rows, if hit then cache else store_effective w now all_rows ws u cache))"

definition invalidateUser :: "bool \<Rightarrow> assignment_cache \<Rightarrow> uuid \<Rightarrow> uuid \<Rightarrow> assignment_cache" where
  "invalidateUser reached cache ws u = (if reached then cache((ws, u) := None) else cache)"

definition revokeRole ::
  "access_db \<Rightarrow> bool \<Rightarrow> assignment_cache \<Rightarrow> uuid \<Rightarrow> uuid \<Rightarrow> api_error + (access_db \<times> assignment_cache)" where
  "revokeRole db reached cache actor_ws assignmentId =
     (case find (\<lambda>r. ra_id r = assignmentId \<and> ra_workspace r = actor_ws) (roleRows db) of
        None \<Rightarrow> Inl (NotFound ''ROLE_ASSIGNMENT_NOT_FOUND'')
      | Some a \<Rightarrow> Inr (db\<lparr>roleRows := filter (\<lambda>r. ra_id r \<noteq> assignmentId) (roleRows db)\<rparr>,
                       invalidateUser reached cache (ra_workspace a) (ra_user a)))"

definition isWorkspaceAdmin :: "access_db \<Rightarrow> uuid \<Rightarrow> uuid \<Rightarrow> bool" where
  "isWorkspaceAdmin db ws u \<longleftrightarrow>
     (\<exists>r \<in> set (roleRows db). ra_workspace r = ws \<and> ra_user r = u \<and> active_member db ws u \<and>
        ra_scopeType r = Workspace \<and> ra_slug r = role_slug WORKSPACE_ADMIN)"

section \<open>Permissions of a user\<close>

definition covers :: "uuid \<Rightarrow> assignment \<Rightarrow> bool" where
  "covers projectId a \<longleftrightarrow>
     scopeType a = Global \<or> scopeType a = Workspace \<or> scopeType a = Project \<and> scopeId a = Some projectId"

definition getProjectPermissions :: "assignment list \<Rightarrow> uuid \<Rightarrow> string list" where
  "getProjectPermissions effective projectId =
     dedupe_by (\<lambda>x. x) {} (concat (map permissions (filter (covers projectId) effective)))"

definition hasProjectPermission :: "assignment list \<Rightarrow> uuid \<Rightarrow> string \<Rightarrow> bool" where
  "hasProjectPermission effective projectId required =
     permissionGrants (getProjectPermissions effective projectId) required"

definition assertProjectPermission :: "assignment list \<Rightarrow> uuid \<Rightarrow> string \<Rightarrow> api_error + unit" where
  "assertProjectPermission effective projectId required =
     (if hasProjectPermission effective projectId required then Inr ()
      else Inl (Forbidden ''PROJECT_PERMISSION_DENIED''))"

definition baseline :: "assignment \<Rightarrow> bool" where
  "baseline a \<longleftrightarrow> scopeType a = Global \<or> scopeType a = Workspace"

definition getUserRoleAndPermissions :: "assignment list \<Rightarrow> string \<times> string list" where
  "getUserRoleAndPermissions effective =
     (let base = filter baseline effective in
      case base of
        [] \<Rightarrow> ([], [])
      | first # _ \<Rightarrow>
          let primary = (case find (\<lambda>a. scopeType a = Global) base of Some a \<Rightarrow> a | None \<Rightarrow> first)
          in (case roleSlug primary of None \<Rightarrow> [] | Some s \<Rightarrow> s, dedupe_by (\<lambda>x. x) {} (concat (map permissions base))))"

definition getWorkspacePermissions :: "assignment list \<Rightarrow> string list" where
  "getWorkspacePermissions effective = snd (getUserRoleAndPermissions effective)"

text \<open>\<open>None\<close>: every project of the workspace.\<close>

definition listReadableProjectIds :: "assignment list \<Rightarrow> string \<Rightarrow> uuid list option" where
  "listReadableProjectIds effective permission =
     (if \<exists>a \<in> set effective. baseline a \<and> permissionGrants (permissions a) permission then None
      else Some (dedupe_by (\<lambda>x. x) {}
        (List.map_filter (\<lambda>a. if scopeType a = Project \<and> permissionGrants (permissions a) permission then scopeId a else None) effective)))"

definition hasPermission :: "assignment list \<Rightarrow> string \<Rightarrow> bool" where
  "hasPermission effective permission \<longleftrightarrow>
     (\<exists>a \<in> set effective. namespace permission @ '':*'' \<in> set (permissions a) \<or> permission \<in> set (permissions a))"

definition getProjectAccessLevel :: "assignment list \<Rightarrow> uuid \<Rightarrow> ProjectAccessLevel option" where
  "getProjectAccessLevel eff projectId =
     (case find (\<lambda>a. scopeType a = Project \<and> scopeId a = Some projectId \<and> isProjectAccessLevel (roleSlug a) \<noteq> None) eff of
        None \<Rightarrow> None | Some a \<Rightarrow> isProjectAccessLevel (roleSlug a))"

section \<open>Team scope\<close>

definition listScopedTeamIds :: "access_db \<Rightarrow> uuid \<Rightarrow> uuid \<Rightarrow> uuid \<Rightarrow> uuid list" where
  "listScopedTeamIds db ws u projectId =
     dedupe_by (\<lambda>x. x) {} (map tm_team (filter (\<lambda>t. tm_workspace t = ws \<and> tm_user t = u \<and> tm_active t \<and>
        (\<exists>p \<in> set (projectTeams db). pt_team p = tm_team t \<and> pt_project p = projectId \<and> pt_active p)) (teamMembers db)))"

text \<open>\<open>None\<close> is \<^verbatim>\<open>unrestricted: true\<close>.\<close>

definition resolveTeamScope :: "access_db \<Rightarrow> assignment list \<Rightarrow> uuid \<Rightarrow> uuid \<Rightarrow> uuid \<Rightarrow> uuid list option" where
  "resolveTeamScope db eff ws u projectId =
     (if isWorkspaceAdmin db ws u then None
      else if getProjectAccessLevel eff projectId \<noteq> Some Editor then None
      else Some (listScopedTeamIds db ws u projectId))"

definition assertTeamInScope ::
  "access_db \<Rightarrow> assignment list \<Rightarrow> uuid \<Rightarrow> uuid \<Rightarrow> uuid \<Rightarrow> uuid option \<Rightarrow> api_error + unit" where
  "assertTeamInScope db eff ws u projectId teamId =
     (case resolveTeamScope db eff ws u projectId of
        None \<Rightarrow> Inr ()
      | Some teamIds \<Rightarrow>
          if teamIds = [] then Inl (Forbidden ''EDITOR_NO_TEAM_SCOPE'')
          else (case teamId of
                  None \<Rightarrow> Inl (Forbidden ''PROJECT_BACKLOG_ADMIN_ONLY'')
                | Some t \<Rightarrow> if t \<notin> set teamIds then Inl (Forbidden ''TEAM_NOT_IN_SCOPE'') else Inr ()))"

definition grantsAllTeams :: "ProjectAccessLevel option \<Rightarrow> bool" where
  "grantsAllTeams level \<longleftrightarrow> level = Some Admin"

definition TEAM_ROSTER_ACCESS_LEVEL :: ProjectAccessLevel where
  "TEAM_ROSTER_ACCESS_LEVEL = hd (filter (\<lambda>l. \<not> grantsAllTeams (Some l)) [Admin, Editor])"

definition requiresTeamAssignment :: "ProjectAccessLevel option \<Rightarrow> bool" where
  "requiresTeamAssignment level \<longleftrightarrow> level = Some TEAM_ROSTER_ACCESS_LEVEL"

definition assertTeamAssignmentForLevel :: "ProjectAccessLevel option \<Rightarrow> uuid list \<Rightarrow> bool \<Rightarrow> api_error + unit" where
  "assertTeamAssignmentForLevel level teamIds projectHasTeams =
     (if \<not> requiresTeamAssignment level then Inr ()
      else if \<not> projectHasTeams then Inr ()
      else if length teamIds > 0 then Inr ()
      else Inl (PreconditionFailed ''PROJECT_EDITOR_REQUIRES_TEAM''))"

section \<open>The guard\<close>

datatype ScopedResource =
  Work_item | Iteration | Release | Milestone | Portfolio_item | Capacity_plan | Test_case | Test_result

fun not_found_code :: "ScopedResource \<Rightarrow> string" where
  "not_found_code Work_item = ''WORK_ITEM_NOT_FOUND''"
| "not_found_code Iteration = ''ITERATION_NOT_FOUND''"
| "not_found_code Release = ''RELEASE_NOT_FOUND''"
| "not_found_code Milestone = ''MILESTONE_NOT_FOUND''"
| "not_found_code Portfolio_item = ''PORTFOLIO_ITEM_NOT_FOUND''"
| "not_found_code Capacity_plan = ''CAPACITY_PLAN_NOT_FOUND''"
| "not_found_code Test_case = ''TEST_CASE_NOT_FOUND''"
| "not_found_code Test_result = ''TEST_RESULT_NOT_FOUND''"

text \<open>The tables a resource id is looked up in; \<open>Tasks\<close> is the second table of \<open>Work_item\<close>.\<close>

datatype scoped_table = Table ScopedResource | Tasks

record scoped_row =
  sr_id :: uuid
  sr_workspace :: uuid
  sr_project :: uuid

definition lookup_project :: "scoped_row list \<Rightarrow> uuid \<Rightarrow> uuid \<Rightarrow> uuid option" where
  "lookup_project rows i ws = map_option sr_project (find (\<lambda>r. sr_id r = i \<and> sr_workspace r = ws) rows)"

definition resolve_scope ::
  "(scoped_table \<Rightarrow> scoped_row list) \<Rightarrow> ScopedResource \<Rightarrow> uuid \<Rightarrow> uuid \<Rightarrow> api_error + uuid" where
  "resolve_scope tables resource i ws =
     (case lookup_project (tables (Table resource)) i ws of
        Some p \<Rightarrow> Inr p
      | None \<Rightarrow>
          (case (if resource = Work_item then lookup_project (tables Tasks) i ws else None) of
             Some p \<Rightarrow> Inr p
           | None \<Rightarrow> Inl (NotFound (not_found_code resource))))"

datatype IdSource = Param | Query | Body

datatype PolicyScope = Direct_id IdSource string | Resource_id ScopedResource IdSource string

datatype AuthzMode = Self_scoped | Shared_read | In_service | Gap

record PolicyMeta =
  pm_permission :: string
  pm_scope :: "PolicyScope option"

record principal =
  sub :: uuid
  workspaceId :: uuid
  scopes :: "string list option"

text \<open>Of the request's bags only string values count.\<close>

record request =
  rq_user :: "principal option"
  rq_params :: "string \<Rightarrow> string option"
  rq_query :: "string \<Rightarrow> string option"
  rq_body :: "string \<Rightarrow> string option"

definition extract_id :: "request \<Rightarrow> IdSource \<Rightarrow> string \<Rightarrow> string option" where
  "extract_id rq src field =
     (case (case src of Param \<Rightarrow> rq_params rq | Query \<Rightarrow> rq_query rq | Body \<Rightarrow> rq_body rq) field of
        None \<Rightarrow> None
      | Some v \<Rightarrow> if length v > 0 then Some v else None)"

definition resolveProjectId ::
  "(scoped_table \<Rightarrow> scoped_row list) \<Rightarrow> request \<Rightarrow> PolicyScope option \<Rightarrow> uuid \<Rightarrow> api_error + uuid option" where
  "resolveProjectId tables rq scope ws =
     (case scope of
        None \<Rightarrow> Inr None
      | Some (Direct_id src field) \<Rightarrow> Inr (extract_id rq src field)
      | Some (Resource_id resource src field) \<Rightarrow>
          (case extract_id rq src field of
             None \<Rightarrow> Inr None
           | Some i \<Rightarrow> bind_sum (resolve_scope tables resource i ws) (\<lambda>p. Inr (Some p))))"

definition grantsUnderTokenScopes :: "string list \<Rightarrow> string list option \<Rightarrow> string \<Rightarrow> bool" where
  "grantsUnderTokenScopes base token required =
     (if \<not> permissionGrants base required then False
      else case token of
             None \<Rightarrow> True
           | Some s \<Rightarrow> if s = [] then True else permissionGrants s required)"

definition deny :: "api_error + unit" where
  "deny = Inl (Forbidden ''PROJECT_PERMISSION_DENIED'')"

text \<open>\<open>read\<close> is the effective assignments of a user, as \<open>effectiveAssignments\<close> returns them.\<close>

definition canActivate ::
  "(uuid \<Rightarrow> uuid \<Rightarrow> assignment list) \<Rightarrow> (scoped_table \<Rightarrow> scoped_row list) \<Rightarrow> PolicyMeta option \<Rightarrow> AuthzMode option
    \<Rightarrow> request \<Rightarrow> api_error + unit" where
  "canActivate read tables meta declared rq =
     (case meta of
        None \<Rightarrow> if declared \<noteq> None then Inr () else deny
      | Some m \<Rightarrow>
          (case rq_user rq of
             None \<Rightarrow> deny
           | Some user \<Rightarrow>
               if \<not> isProjectTierPermission (pm_permission m)
               then if grantsUnderTokenScopes (getWorkspacePermissions (read (workspaceId user) (sub user))) (scopes user) (pm_permission m)
                    then Inr () else deny
               else bind_sum (resolveProjectId tables rq (pm_scope m) (workspaceId user)) (\<lambda>pid.
                 case pid of
                   None \<Rightarrow> deny
                 | Some projectId \<Rightarrow>
                     if grantsUnderTokenScopes (getProjectPermissions (read (workspaceId user) (sub user)) projectId)
                          (scopes user) (pm_permission m)
                     then Inr () else deny)))"

section \<open>Unions of permissions\<close>

lemma set_dedupe [simp]: "set (dedupe_by (\<lambda>x. x) {} xs) = set xs"
  using keys_dedupe_by [of "\<lambda>x. x" "{}" xs] by simp

lemma permissionGrants_mem:
  "permissionGrants ps required \<longleftrightarrow>
     ''workspace:*'' \<in> set ps \<or> required \<in> set ps \<or> namespace required \<noteq> [] \<and> namespace required @ '':*'' \<in> set ps"
  by (auto simp: permissionGrants_def Let_def)

lemma permissionGrants_union:
  "permissionGrants (dedupe_by (\<lambda>x. x) {} (concat (map permissions as))) required \<longleftrightarrow>
     (\<exists>a \<in> set as. permissionGrants (permissions a) required)"
  by (auto simp: permissionGrants_mem)

lemma getProjectPermissions_grants:
  "permissionGrants (getProjectPermissions eff pid) required \<longleftrightarrow>
     (\<exists>a \<in> set eff. covers pid a \<and> permissionGrants (permissions a) required)"
  by (auto simp: getProjectPermissions_def permissionGrants_union)

lemma getWorkspacePermissions_grants:
  "permissionGrants (getWorkspacePermissions eff) required \<longleftrightarrow>
     (\<exists>a \<in> set eff. baseline a \<and> permissionGrants (permissions a) required)"
proof (cases "filter baseline eff")
  case Nil
  then have "\<not> baseline a" if "a \<in> set eff" for a using that by (simp add: filter_empty_conv)
  with Nil show ?thesis
    by (auto simp: getWorkspacePermissions_def getUserRoleAndPermissions_def permissionGrants_def)
next
  case (Cons b bs)
  then have s: "set (b # bs) = {a \<in> set eff. baseline a}" by (metis set_filter)
  have "getWorkspacePermissions eff = dedupe_by (\<lambda>x. x) {} (concat (map permissions (b # bs)))"
    unfolding getWorkspacePermissions_def getUserRoleAndPermissions_def Let_def Cons by simp
  then show ?thesis by (simp only: permissionGrants_union s) auto
qed

text \<open>The list of projects a user may read and the check on one project agree: a project is in the
  list (or the list is the whole workspace) exactly when the check on that project passes.\<close>

theorem readable_projects_agree:
  "(case listReadableProjectIds eff permission of None \<Rightarrow> True | Some ids \<Rightarrow> pid \<in> set ids) =
     hasProjectPermission eff pid permission"
proof -
  have "hasProjectPermission eff pid permission \<longleftrightarrow>
      (\<exists>a \<in> set eff. covers pid a \<and> permissionGrants (permissions a) permission)"
    by (simp add: hasProjectPermission_def getProjectPermissions_grants)
  then show ?thesis
    by (auto simp: listReadableProjectIds_def covers_def baseline_def set_filter_map)
qed

section \<open>Admission\<close>

lemma level_of_slug: "isProjectAccessLevel (Some s) = Some l \<longleftrightarrow> s = level_slug l"
  by (cases l) (auto simp: isProjectAccessLevel_def)

lemma set_synthesized:
  "a \<in> set (synthesized rows) \<longleftrightarrow> (\<exists>r \<in> set rows. \<exists>l. isProjectAccessLevel (pm_level r) = Some l \<and>
     a = \<lparr>scopeType = Project, scopeId = Some (pm_project r), roleSlug = pm_level r, permissions = ACCESS_LEVEL_PERMISSIONS l\<rparr>)"
  by (fastforce simp: synthesized_def set_filter_map split: option.splits)

text \<open>A user without role assignments has exactly what the active grants of an active member give.\<close>

lemma grants_only:
  assumes "\<forall>r \<in> set (roleRows db). \<not> (ra_workspace r = ws \<and> ra_user r = u)"
    and "a \<in> set (assignments_from_db db ws u)"
  obtains r l where "r \<in> set (projectMembers db)" "pm_workspace r = ws" "pm_user r = u" "pm_active r"
    "active_member db ws u" "isProjectAccessLevel (pm_level r) = Some l"
    "a = \<lparr>scopeType = Project, scopeId = Some (pm_project r), roleSlug = pm_level r, permissions = ACCESS_LEVEL_PERMISSIONS l\<rparr>"
proof -
  from assms(1) have "listEffectiveForUser db ws u = []"
    by (auto simp: listEffectiveForUser_def filter_empty_conv)
  with assms(2) show thesis using that
    by (auto simp: assignments_from_db_def Let_def set_synthesized)
qed

lemma guard_from_grants:
  assumes "canActivate read tables (Some m) declared rq = Inr ()"
    and "rq_user rq = Some user"
    and "read (workspaceId user) (sub user) = assignments_from_db db (workspaceId user) (sub user)"
    and "\<forall>r \<in> set (roleRows db). \<not> (ra_workspace r = workspaceId user \<and> ra_user r = sub user)"
  shows "isProjectTierPermission (pm_permission m) \<and>
    (\<exists>pid r l. resolveProjectId tables rq (pm_scope m) (workspaceId user) = Inr (Some pid) \<and>
       r \<in> set (projectMembers db) \<and> pm_workspace r = workspaceId user \<and> pm_user r = sub user \<and>
       pm_project r = pid \<and> pm_active r \<and> active_member db (workspaceId user) (sub user) \<and>
       isProjectAccessLevel (pm_level r) = Some l \<and> pm_permission m \<in> set (ACCESS_LEVEL_PERMISSIONS l)) \<and>
    (case scopes user of None \<Rightarrow> True | Some s \<Rightarrow> s = [] \<or> permissionGrants s (pm_permission m))"
proof -
  let ?eff = "assignments_from_db db (workspaceId user) (sub user)"
  let ?tok = "case scopes user of None \<Rightarrow> True | Some s \<Rightarrow> s = [] \<or> permissionGrants s (pm_permission m)"
  have under: "permissionGrants ps (pm_permission m) \<and> ?tok" if "grantsUnderTokenScopes ps (scopes user) (pm_permission m)" for ps
    using that by (auto simp: grantsUnderTokenScopes_def split: if_splits option.splits)
  show ?thesis
  proof (cases "isProjectTierPermission (pm_permission m)")
    case False
    with assms(1-3) have "permissionGrants (getWorkspacePermissions ?eff) (pm_permission m)"
      using under by (auto simp: canActivate_def deny_def split: if_splits)
    then obtain a where a: "a \<in> set ?eff" "baseline a" by (auto simp: getWorkspacePermissions_grants)
    then have False by (elim grants_only [OF assms(4)]) (simp add: baseline_def)
    then show ?thesis ..
  next
    case True
    with assms(1-3) obtain pid where pid: "resolveProjectId tables rq (pm_scope m) (workspaceId user) = Inr (Some pid)"
      and g: "grantsUnderTokenScopes (getProjectPermissions ?eff pid) (scopes user) (pm_permission m)"
      by (auto simp: canActivate_def deny_def bind_sum_Inr split: if_splits option.splits)
    from under [OF g] obtain a where a: "a \<in> set ?eff" "covers pid a" "permissionGrants (permissions a) (pm_permission m)"
      by (auto simp: getProjectPermissions_grants)
    from grants_only [OF assms(4) a(1)] obtain r l where r: "r \<in> set (projectMembers db)"
      "pm_workspace r = workspaceId user" "pm_user r = sub user" "pm_active r"
      "active_member db (workspaceId user) (sub user)" "isProjectAccessLevel (pm_level r) = Some l"
      "a = \<lparr>scopeType = Project, scopeId = Some (pm_project r), roleSlug = pm_level r, permissions = ACCESS_LEVEL_PERMISSIONS l\<rparr>"
      by metis
    then have "pm_project r = pid" "pm_permission m \<in> set (ACCESS_LEVEL_PERMISSIONS l)"
      using a(2,3) by (simp_all add: covers_def level_grants)
    with True pid r under [OF g] show ?thesis by blast
  qed
qed

section \<open>Staleness of the cache\<close>

text \<open>Seconds pass, other requests commit any change of the tables, lookups read the tables and fill the
  cache later (at most \<open>lag\<close> seconds after they read), and invalidations reach the cache or do not.
  \<open>aw_hist\<close> records which tables were current at which second; \<open>aw_pending\<close> holds the lookups between
  their read and their fill.\<close>

record access_world =
  aw_now :: nat
  aw_db :: access_db
  aw_cache :: assignment_cache
  aw_pending :: "(uuid \<times> uuid \<times> assignment list \<times> nat) list"
  aw_hist :: "(nat \<times> access_db) list"

inductive access_reach :: "nat \<Rightarrow> access_world \<Rightarrow> bool" for lag where
  access_start: "access_reach lag \<lparr>aw_now = t, aw_db = db, aw_cache = (\<lambda>_. None), aw_pending = [], aw_hist = [(t, db)]\<rparr>"
| access_pass: "access_reach lag w \<Longrightarrow> t = aw_now w + n \<Longrightarrow>
    access_reach lag (w\<lparr>aw_now := t, aw_hist := (t, aw_db w) # aw_hist w\<rparr>)"
| access_commit: "access_reach lag w \<Longrightarrow>
    access_reach lag (w\<lparr>aw_db := db, aw_hist := (aw_now w, db) # aw_hist w\<rparr>)"
| access_read: "access_reach lag w \<Longrightarrow>
    lookup_effective (aw_db w) r (aw_now w) (aw_cache w) ws u = (all_rows, False) \<Longrightarrow>
    access_reach lag (w\<lparr>aw_pending := (ws, u, all_rows, aw_now w) # aw_pending w\<rparr>)"
| access_store: "access_reach lag w \<Longrightarrow> (ws, u, all_rows, t) \<in> set (aw_pending w) \<Longrightarrow> aw_now w \<le> t + lag \<Longrightarrow>
    access_reach lag (w\<lparr>aw_cache := store_effective reached (aw_now w) all_rows ws u (aw_cache w)\<rparr>)"
| access_invalidate: "access_reach lag w \<Longrightarrow>
    access_reach lag (w\<lparr>aw_cache := invalidateUser reached (aw_cache w) ws u\<rparr>)"

text \<open>The answer for a user comes from the tables of second \<open>t\<close>.\<close>

definition answer_of :: "access_world \<Rightarrow> uuid \<Rightarrow> uuid \<Rightarrow> assignment list \<Rightarrow> nat \<Rightarrow> bool" where
  "answer_of w ws u v t \<longleftrightarrow> (\<exists>db. (t, db) \<in> set (aw_hist w) \<and> v = assignments_from_db db ws u)"

definition cache_backed :: "nat \<Rightarrow> access_world \<Rightarrow> bool" where
  "cache_backed lag w \<longleftrightarrow>
     (aw_now w, aw_db w) \<in> set (aw_hist w) \<and>
     (\<forall>(ws, u, v, t) \<in> set (aw_pending w). answer_of w ws u v t) \<and>
     (\<forall>ws u v e. aw_cache w (ws, u) = Some (v, e) \<longrightarrow>
        (\<exists>t. e \<le> t + lag + ASSIGNMENTS_TTL_SECONDS \<and> answer_of w ws u v t))"

lemma answer_of_grows: "answer_of w ws u v t \<Longrightarrow> set (aw_hist w) \<subseteq> set (aw_hist w') \<Longrightarrow> answer_of w' ws u v t"
  by (auto simp: answer_of_def)

lemma lookup_miss:
  "lookup_effective db r now cache ws u = (v, False) \<Longrightarrow> v = assignments_from_db db ws u"
  by (auto simp: lookup_effective_def split: option.splits if_splits)

lemma cache_backed_grows:
  assumes "cache_backed lag w" "set (aw_hist w) \<subseteq> set (aw_hist w')" "(aw_now w', aw_db w') \<in> set (aw_hist w')"
    "aw_cache w' = aw_cache w" "aw_pending w' = aw_pending w"
  shows "cache_backed lag w'"
  using assms answer_of_grows [OF _ assms(2)] unfolding cache_backed_def by fastforce

lemma access_reach_backed: "access_reach lag w \<Longrightarrow> cache_backed lag w"
proof (induction rule: access_reach.induct)
  case (access_read w r ws u all_rows)
  then have "answer_of w ws u all_rows (aw_now w)"
    by (auto simp: answer_of_def cache_backed_def dest!: lookup_miss)
  with access_read show ?case by (auto simp: cache_backed_def answer_of_def)
next
  case (access_store w ws u all_rows t reached)
  then have "answer_of w ws u all_rows t" by (auto simp: cache_backed_def)
  with access_store show ?case
    by (fastforce simp: cache_backed_def store_effective_def answer_of_def)
next
  case (access_invalidate w reached ws u)
  then show ?case by (auto simp: cache_backed_def invalidateUser_def answer_of_def)
next
  case (access_pass w t n)
  then show ?case by (intro cache_backed_grows [OF access_pass.IH]) auto
next
  case (access_commit w db)
  then show ?case by (intro cache_backed_grows [OF access_commit.IH]) auto
qed (simp add: cache_backed_def)

lemma effective_backed:
  assumes "access_reach lag w"
  obtains t db where "(t, db) \<in> set (aw_hist w)" "aw_now w < t + lag + ASSIGNMENTS_TTL_SECONDS"
    "\<not> r \<or> cached_assignments (aw_cache w) (aw_now w) ws u = None \<longrightarrow> db = aw_db w"
    "fst (effectiveAssignments (aw_db w) r wr (aw_now w) (aw_cache w) ws u) = assignments_from_db db ws u"
proof (cases "if r then cached_assignments (aw_cache w) (aw_now w) ws u else None")
  case None
  with access_reach_backed [OF assms] show thesis
    by (intro that [of "aw_now w" "aw_db w"])
      (auto simp: cache_backed_def effectiveAssignments_def lookup_effective_def Let_def ASSIGNMENTS_TTL_SECONDS_def)
next
  case (Some v)
  then obtain e where e: "r" "aw_cache w (ws, u) = Some (v, e)" "aw_now w < e"
    by (auto simp: cached_assignments_def split: if_splits option.splits)
  with access_reach_backed [OF assms] obtain t where t: "e \<le> t + lag + ASSIGNMENTS_TTL_SECONDS" "answer_of w ws u v t"
    unfolding cache_backed_def by blast
  then obtain db where "(t, db) \<in> set (aw_hist w)" "v = assignments_from_db db ws u" by (auto simp: answer_of_def)
  with Some e t show thesis
    by (intro that [of t db]) (auto simp: effectiveAssignments_def lookup_effective_def Let_def)
qed

text \<open>C5: whoever holds no role acts through project grants alone. A request the guard lets through names a
  project-tier action on one project; in tables that were current at most the cache lifetime of 300
  seconds (plus the seconds a lookup may take between its read and its fill) before the check, the user
  is an active member of the workspace with an active grant on that very project whose level lists the
  action; and a token with scopes lists it too. When no live cache entry is read, those are the tables
  at the check. The roles are absent from the tables of the same window. Commits, lookups in flight and
  invalidations that miss the cache may come in any order.\<close>

theorem guard_admits_only_granted:
  assumes "access_reach lag w"
    and "canActivate (\<lambda>ws u. fst (effectiveAssignments (aw_db w) r wr (aw_now w) (aw_cache w) ws u)) tables (Some m) declared rq = Inr ()"
    and "rq_user rq = Some user"
    and "\<forall>(t, db) \<in> set (aw_hist w). aw_now w < t + lag + ASSIGNMENTS_TTL_SECONDS \<longrightarrow>
      (\<forall>row \<in> set (roleRows db). \<not> (ra_workspace row = workspaceId user \<and> ra_user row = sub user))"
  shows "isProjectTierPermission (pm_permission m) \<and>
    (\<exists>t db. (t, db) \<in> set (aw_hist w) \<and> aw_now w < t + lag + ASSIGNMENTS_TTL_SECONDS \<and>
       (\<not> r \<or> cached_assignments (aw_cache w) (aw_now w) (workspaceId user) (sub user) = None \<longrightarrow> db = aw_db w) \<and>
       (\<exists>pid row l. resolveProjectId tables rq (pm_scope m) (workspaceId user) = Inr (Some pid) \<and>
          row \<in> set (projectMembers db) \<and> pm_workspace row = workspaceId user \<and> pm_user row = sub user \<and>
          pm_project row = pid \<and> pm_active row \<and> active_member db (workspaceId user) (sub user) \<and>
          isProjectAccessLevel (pm_level row) = Some l \<and> pm_permission m \<in> set (ACCESS_LEVEL_PERMISSIONS l))) \<and>
    (case scopes user of None \<Rightarrow> True | Some s \<Rightarrow> s = [] \<or> permissionGrants s (pm_permission m))"
proof -
  obtain t db where t: "(t, db) \<in> set (aw_hist w)" "aw_now w < t + lag + ASSIGNMENTS_TTL_SECONDS"
    "\<not> r \<or> cached_assignments (aw_cache w) (aw_now w) (workspaceId user) (sub user) = None \<longrightarrow> db = aw_db w"
    "fst (effectiveAssignments (aw_db w) r wr (aw_now w) (aw_cache w) (workspaceId user) (sub user)) =
      assignments_from_db db (workspaceId user) (sub user)"
    by (rule effective_backed [OF assms(1)])
  with assms(4) have "\<forall>row \<in> set (roleRows db). \<not> (ra_workspace row = workspaceId user \<and> ra_user row = sub user)" by auto
  from guard_from_grants [OF assms(2,3) t(4) this] t(1-3) show ?thesis
    by (elim conjE, intro conjI exI [of _ t] exI [of _ db]) assumption+
qed

definition ex_access_db :: access_db where
  "ex_access_db = \<lparr>roleRows = [], members = [\<lparr>wm_workspace = ''w'', wm_user = ''u'', wm_active = True\<rparr>],
     projectMembers = [\<lparr>pm_id = ''g'', pm_workspace = ''w'', pm_project = ''p'', pm_user = ''u'', pm_level = Some ''editor'', pm_active = True\<rparr>],
     projectTeams = [\<lparr>pt_project = ''p'', pt_team = ''t'', pt_active = True\<rparr>],
     teamMembers = [\<lparr>tm_workspace = ''w'', tm_team = ''t'', tm_user = ''u'', tm_active = True\<rparr>]\<rparr>"

definition ex_request :: request where
  "ex_request = \<lparr>rq_user = Some \<lparr>sub = ''u'', workspaceId = ''w'', scopes = None\<rparr>,
     rq_params = (\<lambda>f. if f = ''id'' then Some ''US'' else None), rq_query = (\<lambda>_. None), rq_body = (\<lambda>_. None)\<rparr>"

definition ex_tables :: "scoped_table \<Rightarrow> scoped_row list" where
  "ex_tables t = (if t = Table Work_item then [\<lparr>sr_id = ''US'', sr_workspace = ''w'', sr_project = ''p''\<rparr>] else [])"

text \<open>The user is suspended at second 10, after a lookup of second 0 was cached at second 2, and the
  invalidation misses the cache: the guard still admits at second 200 and refuses at second 302.\<close>

definition ex_world :: "nat \<Rightarrow> access_world" where
  "ex_world t = \<lparr>aw_now = t, aw_db = ex_access_db\<lparr>members := []\<rparr>,
     aw_cache = (\<lambda>_. None)((''w'', ''u'') := Some (assignments_from_db ex_access_db ''w'' ''u'', 302)),
     aw_pending = [(''w'', ''u'', assignments_from_db ex_access_db ''w'' ''u'', 0)],
     aw_hist = [(t, ex_access_db\<lparr>members := []\<rparr>), (10, ex_access_db\<lparr>members := []\<rparr>), (10, ex_access_db), (2, ex_access_db), (0, ex_access_db)]\<rparr>"

definition ex_check :: "access_world \<Rightarrow> string \<Rightarrow> api_error + unit" where
  "ex_check w permission =
     canActivate (\<lambda>ws u. fst (effectiveAssignments (aw_db w) True True (aw_now w) (aw_cache w) ws u)) ex_tables
       (Some \<lparr>pm_permission = permission, pm_scope = Some (Resource_id Work_item Param ''id'')\<rparr>) None ex_request"

lemma ex_world_reached: "10 \<le> t \<Longrightarrow> access_reach 5 (ex_world t)"
proof -
  assume t: "10 \<le> t"
  let ?all = "assignments_from_db ex_access_db ''w'' ''u''"
  let ?w0 = "\<lparr>aw_now = 0, aw_db = ex_access_db, aw_cache = (\<lambda>_. None), aw_pending = [], aw_hist = [(0, ex_access_db)]\<rparr>"
  let ?w1 = "?w0\<lparr>aw_pending := [(''w'', ''u'', ?all, 0)]\<rparr>"
  let ?w2 = "?w1\<lparr>aw_now := 2, aw_hist := (2, ex_access_db) # aw_hist ?w1\<rparr>"
  let ?w3 = "?w2\<lparr>aw_cache := store_effective True 2 ?all ''w'' ''u'' (\<lambda>_. None)\<rparr>"
  let ?w4 = "?w3\<lparr>aw_now := 10, aw_hist := (10, ex_access_db) # aw_hist ?w3\<rparr>"
  let ?w5 = "?w4\<lparr>aw_db := ex_access_db\<lparr>members := []\<rparr>, aw_hist := (10, ex_access_db\<lparr>members := []\<rparr>) # aw_hist ?w4\<rparr>"
  have "access_reach 5 ?w0" by (rule access_start)
  from access_read [OF this, of True "''w''" "''u''" ?all] have "access_reach 5 ?w1"
    by (simp add: lookup_effective_def cached_assignments_def)
  from access_pass [OF this, of 2 2] have "access_reach 5 ?w2" by simp
  from access_store [OF this, of "''w''" "''u''" ?all 0 True] have "access_reach 5 ?w3" by simp
  from access_pass [OF this, of 10 8] have "access_reach 5 ?w4" by simp
  from access_commit [OF this] have "access_reach 5 ?w5" by (simp del: fun_upd_apply)
  from access_pass [OF this, of t "t - 10"] t show ?thesis
    by (simp add: ex_world_def store_effective_def ASSIGNMENTS_TTL_SECONDS_def)
qed

theorem guard_admits_only_granted_witness:
  "ex_check (ex_world 200) ''work_item:edit'' = Inr () \<and> ex_check (ex_world 200) ''timebox:view'' = deny \<and>
    ex_check (ex_world 302) ''work_item:edit'' = deny \<and> isProjectTierPermission ''work_item:edit'' \<and>
    \<not> active_member (aw_db (ex_world 200)) ''w'' ''u'' \<and>
    (\<exists>t db. (t, db) \<in> set (aw_hist (ex_world 200)) \<and> 200 < t + 305 \<and> active_member db ''w'' ''u'')"
proof -
  have e: "ex_check (ex_world 200) ''work_item:edit'' = Inr ()" "ex_check (ex_world 200) ''timebox:view'' = deny"
    "ex_check (ex_world 302) ''work_item:edit'' = deny" "\<not> active_member (aw_db (ex_world 200)) ''w'' ''u''"
    by code_simp+
  have u: "rq_user ex_request = Some \<lparr>sub = ''u'', workspaceId = ''w'', scopes = None\<rparr>" by (simp add: ex_request_def)
  have r: "access_reach 5 (ex_world 200)" by (rule ex_world_reached) simp
  have n: "\<forall>(t, db) \<in> set (aw_hist (ex_world 200)). aw_now (ex_world 200) < t + 5 + ASSIGNMENTS_TTL_SECONDS \<longrightarrow>
      (\<forall>row \<in> set (roleRows db). \<not> (ra_workspace row = workspaceId \<lparr>sub = ''u'', workspaceId = ''w'', scopes = None\<rparr> \<and>
        ra_user row = sub \<lparr>sub = ''u'', workspaceId = ''w'', scopes = None\<rparr>))"
    by (simp add: ex_world_def ex_access_db_def)
  from guard_admits_only_granted [OF r e(1) [unfolded ex_check_def] u n]
  have "isProjectTierPermission ''work_item:edit'' \<and>
      (\<exists>t db. (t, db) \<in> set (aw_hist (ex_world 200)) \<and> 200 < t + 305 \<and> active_member db ''w'' ''u'')"
    by (auto simp: ASSIGNMENTS_TTL_SECONDS_def ex_world_def)
  with e show ?thesis by blast
qed

section \<open>The editor's teams\<close>

lemma set_listScopedTeamIds:
  "t \<in> set (listScopedTeamIds db ws u pid) \<longleftrightarrow>
     (\<exists>m \<in> set (teamMembers db). tm_workspace m = ws \<and> tm_user m = u \<and> tm_active m \<and> tm_team m = t) \<and>
     (\<exists>p \<in> set (projectTeams db). pt_team p = t \<and> pt_project p = pid \<and> pt_active p)"
  unfolding listScopedTeamIds_def set_dedupe set_map set_filter image_iff by fastforce

text \<open>C24: a workspace administrator is never fenced, and neither is a caller whose level on the project is
  not Editor. Any other caller, an Editor, reaches a row of the project exactly when the row names a
  team, the team is actively linked to the project and the caller is an active member of it; a row
  without a team is the Project Backlog and is refused to them.\<close>

theorem editor_team_boundary:
  "(isWorkspaceAdmin db ws u \<longrightarrow> assertTeamInScope db eff ws u pid team = Inr ()) \<and>
    (getProjectAccessLevel eff pid \<noteq> Some Editor \<longrightarrow> assertTeamInScope db eff ws u pid team = Inr ()) \<and>
    (\<not> isWorkspaceAdmin db ws u \<and> getProjectAccessLevel eff pid = Some Editor \<longrightarrow>
      (assertTeamInScope db eff ws u pid team = Inr () \<longleftrightarrow>
        (\<exists>t. team = Some t \<and>
          (\<exists>m \<in> set (teamMembers db). tm_workspace m = ws \<and> tm_user m = u \<and> tm_active m \<and> tm_team m = t) \<and>
          (\<exists>p \<in> set (projectTeams db). pt_team p = t \<and> pt_project p = pid \<and> pt_active p))) \<and>
      assertTeamInScope db eff ws u pid None \<noteq> Inr ())"
proof (intro conjI impI)
  assume "isWorkspaceAdmin db ws u"
  then show "assertTeamInScope db eff ws u pid team = Inr ()"
    by (simp add: assertTeamInScope_def resolveTeamScope_def)
next
  assume "getProjectAccessLevel eff pid \<noteq> Some Editor"
  then show "assertTeamInScope db eff ws u pid team = Inr ()"
    by (simp add: assertTeamInScope_def resolveTeamScope_def)
next
  assume "\<not> isWorkspaceAdmin db ws u \<and> getProjectAccessLevel eff pid = Some Editor"
  then have s: "resolveTeamScope db eff ws u pid = Some (listScopedTeamIds db ws u pid)"
    by (simp add: resolveTeamScope_def)
  show "assertTeamInScope db eff ws u pid team = Inr () \<longleftrightarrow>
        (\<exists>t. team = Some t \<and>
          (\<exists>m \<in> set (teamMembers db). tm_workspace m = ws \<and> tm_user m = u \<and> tm_active m \<and> tm_team m = t) \<and>
          (\<exists>p \<in> set (projectTeams db). pt_team p = t \<and> pt_project p = pid \<and> pt_active p))"
    unfolding set_listScopedTeamIds [symmetric] by (auto simp: assertTeamInScope_def s split: option.split)
  show "assertTeamInScope db eff ws u pid None \<noteq> Inr ()"
    by (simp add: assertTeamInScope_def s)
qed

theorem editor_team_boundary_witness:
  "let eff = assignments_from_db ex_access_db ''w'' ''u'' in
     assertTeamInScope ex_access_db eff ''w'' ''u'' ''p'' (Some ''t'') = Inr () \<and>
     assertTeamInScope ex_access_db eff ''w'' ''u'' ''p'' (Some ''other'') = Inl (Forbidden ''TEAM_NOT_IN_SCOPE'') \<and>
     assertTeamInScope ex_access_db eff ''w'' ''u'' ''p'' None \<noteq> Inr ()"
proof -
  have n: "\<not> isWorkspaceAdmin ex_access_db ''w'' ''u''" by (simp add: isWorkspaceAdmin_def ex_access_db_def)
  have e: "getProjectAccessLevel (assignments_from_db ex_access_db ''w'' ''u'') ''p'' = Some Editor" by code_simp
  have o: "assertTeamInScope ex_access_db (assignments_from_db ex_access_db ''w'' ''u'') ''w'' ''u'' ''p'' (Some ''other'') =
      Inl (Forbidden ''TEAM_NOT_IN_SCOPE'')" by code_simp
  from editor_team_boundary [of ex_access_db "''w''" "''u''" "assignments_from_db ex_access_db ''w'' ''u''" "''p''" "Some ''t''"] n e o show ?thesis
    by (simp add: Let_def) (simp add: ex_access_db_def)
qed

end
