(* ===== verification/Workspaces.thy ===== *)
theory Workspaces
  imports Access
begin

text \<open>
  Who belongs to a workspace: \<^verbatim>\<open>workspace/src/application/workspace.service.ts\<close> (memberships and
  invitations), the one writer of a per-Project grant and the role writes of \<^verbatim>\<open>access.service.ts\<close>, the machine
  tokens of \<^verbatim>\<open>api-tokens.service.ts\<close>, the relay that provisions an invited guest
  (\<^verbatim>\<open>entra-guest-invite-relay.service.ts\<close>) and the sweep that expires invitations. \<open>access_view\<close> gives the
  tables of \<open>Access\<close>, from which every permission is resolved. Times are milliseconds; what the
  environment supplies (clock, random bytes, generated ids, configuration, whether Redis and the
  token store are reached) is a \<open>staff_env\<close>, sha256 an argument.
\<close>

section \<open>Tables\<close>

datatype MemberStatus = Member_active | Member_suspended | Member_removed

datatype InvitationStatus = Invite_pending | Invite_accepted | Invite_cancelled | Invite_expired

record workspace_row =
  ws_id :: uuid
  ws_slug :: string
  ws_archived :: bool
  ws_deleted :: bool

record workspace_member =
  wsm_id :: uuid
  wsm_workspace :: uuid
  wsm_user :: uuid
  wsm_role :: "uuid option"
  wsm_status :: MemberStatus

record invitation =
  inv_id :: uuid
  inv_workspace :: uuid
  inv_email :: string
  inv_role :: "uuid option"
  inv_hash :: string
  inv_status :: InvitationStatus
  inv_expires :: int
  inv_resends :: nat
  inv_sent :: int
  inv_accepted_by :: "uuid option"
  inv_guest :: "string option"

record invitation_access =
  ia_invitation :: uuid
  ia_project :: uuid
  ia_level :: string

record role_def =
  rl_id :: uuid
  rl_workspace :: "uuid option"
  rl_slug :: string
  rl_permissions :: "string list"

record role_assignment =
  ua_id :: uuid
  ua_workspace :: uuid
  ua_user :: uuid
  ua_role :: uuid
  ua_scope :: ScopeType
  ua_scopeId :: "uuid option"

record project_ref =
  pj_id :: uuid
  pj_workspace :: uuid
  pj_deleted :: bool

record person =
  pe_id :: uuid
  pe_email :: string
  pe_subjects :: "string list"

record api_token =
  tk_id :: uuid
  tk_workspace :: uuid
  tk_user :: uuid
  tk_prefix :: string
  tk_hash :: string
  tk_scopes :: "string list option"
  tk_expires :: int
  tk_used :: "int option"
  tk_revoked :: "int option"

text \<open>Rows of the two outboxes an invitation writes to; the idempotency key of a guest row is the invitation.\<close>

record invite_mail =
  ml_key :: string
  ml_to :: string
  ml_token :: string

datatype JobStatus = Job_pending | Job_sent | Job_failed

record guest_job =
  gj_invitation :: uuid
  gj_email :: string
  gj_token :: "string option"
  gj_status :: JobStatus

record staff_db =
  sd_workspaces :: "workspace_row list"
  sd_members :: "workspace_member list"
  sd_invitations :: "invitation list"
  sd_invitation_access :: "invitation_access list"
  sd_roles :: "role_def list"
  sd_assignments :: "role_assignment list"
  sd_projects :: "project_ref list"
  sd_grants :: "project_member_row list"
  sd_links :: "project_team_row list"
  sd_seats :: "team_member_row list"
  sd_people :: "person list"
  sd_tokens :: "api_token list"
  sd_mails :: "invite_mail list"
  sd_jobs :: "guest_job list"

record staff_env =
  se_now :: int
  se_ttl :: int
  se_internal :: "string option"
  se_guests :: bool
  se_secret :: string
  se_id :: uuid
  se_role_id :: uuid
  se_grant_id :: "uuid \<Rightarrow> uuid"
  se_cache :: bool
  se_tokens :: bool

definition MS_PER_DAY :: int where
  "MS_PER_DAY = 24 * (60 * (60 * 1000))"

definition unique_violation :: api_error where
  "unique_violation = Uncaught ''23505''"

section \<open>The tables permissions are resolved from\<close>

definition role_row_of :: "role_def list \<Rightarrow> role_assignment \<Rightarrow> role_row option" where
  "role_row_of roles a =
     map_option (\<lambda>r. \<lparr>ra_id = ua_id a, ra_workspace = ua_workspace a, ra_user = ua_user a, ra_scopeType = ua_scope a,
        ra_scopeId = ua_scopeId a, ra_slug = rl_slug r, ra_permissions = rl_permissions r\<rparr>)
       (find (\<lambda>r. rl_id r = ua_role a) roles)"

definition member_of :: "workspace_member \<Rightarrow> member_row" where
  "member_of m = \<lparr>wm_workspace = wsm_workspace m, wm_user = wsm_user m, wm_active = (wsm_status m = Member_active)\<rparr>"

definition access_view :: "staff_db \<Rightarrow> access_db" where
  "access_view db =
     \<lparr>roleRows = List.map_filter (role_row_of (sd_roles db)) (sd_assignments db), members = map member_of (sd_members db),
      projectMembers = sd_grants db, projectTeams = sd_links db, teamMembers = sd_seats db\<rparr>"

section \<open>Workspaces and members\<close>

definition getWorkspace :: "staff_db \<Rightarrow> uuid \<Rightarrow> api_error + workspace_row" where
  "getWorkspace db ws =
     (case find (\<lambda>w. ws_id w = ws) (sd_workspaces db) of
        None \<Rightarrow> Inl (NotFound ''WORKSPACE_NOT_FOUND'')
      | Some w \<Rightarrow>
          if ws_deleted w then Inl (NotFound ''WORKSPACE_NOT_FOUND'')
          else if ws_archived w then Inl (Unauthorized ''WORKSPACE_ARCHIVED'')
          else Inr w)"

definition findMember :: "staff_db \<Rightarrow> uuid \<Rightarrow> uuid \<Rightarrow> workspace_member option" where
  "findMember db ws u = find (\<lambda>m. wsm_workspace m = ws \<and> wsm_user m = u) (sd_members db)"

text \<open>\<open>uq_workspace_member\<close> is on workspace and user, whatever the status.\<close>

definition insert_member :: "uuid \<Rightarrow> uuid \<Rightarrow> uuid \<Rightarrow> uuid option \<Rightarrow> staff_db \<Rightarrow> api_error + staff_db" where
  "insert_member i ws u role db =
     (if \<exists>m \<in> set (sd_members db). wsm_id m = i \<or> wsm_workspace m = ws \<and> wsm_user m = u then Inl unique_violation
      else Inr (db\<lparr>sd_members := sd_members db @
        [\<lparr>wsm_id = i, wsm_workspace = ws, wsm_user = u, wsm_role = role, wsm_status = Member_active\<rparr>]\<rparr>))"

definition insert_workspace :: "uuid \<Rightarrow> string \<Rightarrow> staff_db \<Rightarrow> api_error + staff_db" where
  "insert_workspace i slug db =
     (if \<exists>w \<in> set (sd_workspaces db). ws_id w = i \<or> ws_slug w = slug \<and> \<not> ws_deleted w then Inl unique_violation
      else Inr (db\<lparr>sd_workspaces := sd_workspaces db @
        [\<lparr>ws_id = i, ws_slug = slug, ws_archived = False, ws_deleted = False\<rparr>]\<rparr>))"

definition createWorkspace :: "staff_env \<Rightarrow> uuid \<Rightarrow> string \<Rightarrow> staff_db \<Rightarrow> api_error + staff_db" where
  "createWorkspace env actor slug db =
     (if \<exists>w \<in> set (sd_workspaces db). ws_slug w = slug \<and> \<not> ws_deleted w then Inl (Conflict ''WORKSPACE_SLUG_TAKEN'')
      else bind_sum (insert_workspace (se_id env) slug db) (insert_member (se_role_id env) (se_id env) actor None))"

definition deleteWorkspace :: "uuid \<Rightarrow> staff_db \<Rightarrow> api_error + staff_db" where
  "deleteWorkspace ws db =
     bind_sum (getWorkspace db ws) (\<lambda>_.
       Inr (db\<lparr>sd_workspaces := update_where (\<lambda>w. ws_id w = ws) (\<lambda>w. w\<lparr>ws_deleted := True\<rparr>) (sd_workspaces db)\<rparr>))"

definition enrollMember :: "staff_env \<Rightarrow> uuid \<Rightarrow> uuid \<Rightarrow> uuid option \<Rightarrow> staff_db \<Rightarrow> api_error + staff_db" where
  "enrollMember env ws u role db =
     (if findMember db ws u \<noteq> None then Inr db else insert_member (se_id env) ws u role db)"

definition addMember :: "staff_env \<Rightarrow> uuid \<Rightarrow> uuid \<Rightarrow> staff_db \<Rightarrow> api_error + staff_db" where
  "addMember env ws u db =
     bind_sum (getWorkspace db ws) (\<lambda>_.
       if findMember db ws u \<noteq> None then Inl (Conflict ''WORKSPACE_MEMBER_ALREADY_EXISTS'')
       else insert_member (se_id env) ws u None db)"

text \<open>The join of members, assignments and roles that the sole-admin check counts the rows of.\<close>

definition admin_rows :: "staff_db \<Rightarrow> uuid \<Rightarrow> (workspace_member \<times> role_row) list" where
  "admin_rows db ws =
     filter (\<lambda>(m, r). wsm_workspace m = ws \<and> wsm_status m = Member_active \<and> ra_user r = wsm_user m \<and>
         ra_workspace r = wsm_workspace m \<and> ra_scopeType r = Workspace \<and> ra_slug r = role_slug WORKSPACE_ADMIN)
       (List.product (sd_members db) (roleRows (access_view db)))"

definition countActiveAdmins :: "staff_db \<Rightarrow> uuid \<Rightarrow> nat" where
  "countActiveAdmins db ws = length (admin_rows db ws)"

definition isActiveAdmin :: "staff_db \<Rightarrow> uuid \<Rightarrow> uuid \<Rightarrow> bool" where
  "isActiveAdmin db ws u = (length (filter (\<lambda>(m, _). wsm_user m = u) (admin_rows db ws)) > 0)"

definition sole_admin_check :: "staff_db \<Rightarrow> uuid \<Rightarrow> uuid \<Rightarrow> api_error + unit" where
  "sole_admin_check db ws u =
     (if isActiveAdmin db ws u
      then if countActiveAdmins db ws \<le> 1 then Inl (PreconditionFailed ''SOLE_ADMIN_VIOLATION'') else Inr ()
      else Inr ())"

text \<open>\<open>setTeamsForUser\<close>: leave every team that is not wished for, enter the others; one row per team and user.\<close>

definition enter_team :: "uuid \<Rightarrow> uuid \<Rightarrow> uuid \<Rightarrow> team_member_row list \<Rightarrow> team_member_row list" where
  "enter_team ws u t seats =
     (if \<exists>s \<in> set seats. tm_team s = t \<and> tm_user s = u
      then update_where (\<lambda>s. tm_team s = t \<and> tm_user s = u) (\<lambda>s. s\<lparr>tm_active := True\<rparr>) seats
      else seats @ [\<lparr>tm_workspace = ws, tm_team = t, tm_user = u, tm_active = True\<rparr>])"

definition setTeamsForUser :: "uuid \<Rightarrow> uuid \<Rightarrow> uuid list \<Rightarrow> team_member_row list \<Rightarrow> team_member_row list" where
  "setTeamsForUser ws u teamIds seats =
     fold (enter_team ws u) teamIds
       (update_where (\<lambda>s. tm_user s = u \<and> tm_active s \<and> tm_team s \<notin> set teamIds) (\<lambda>s. s\<lparr>tm_active := False\<rparr>) seats)"

definition revokeAllForUser :: "int \<Rightarrow> uuid \<Rightarrow> uuid \<Rightarrow> staff_db \<Rightarrow> staff_db" where
  "revokeAllForUser time ws u db =
     db\<lparr>sd_tokens := update_where (\<lambda>t. tk_workspace t = ws \<and> tk_user t = u \<and> tk_revoked t = None)
       (\<lambda>t. t\<lparr>tk_revoked := Some time\<rparr>) (sd_tokens db)\<rparr>"

definition revokeMachineCredentials :: "staff_env \<Rightarrow> uuid \<Rightarrow> uuid \<Rightarrow> staff_db \<Rightarrow> staff_db" where
  "revokeMachineCredentials env ws u db = (if se_tokens env then revokeAllForUser (se_now env) ws u db else db)"

definition leaves :: "MemberStatus option \<Rightarrow> bool" where
  "leaves s \<longleftrightarrow> s = Some Member_suspended \<or> s = Some Member_removed"

definition updateMember ::
  "staff_env \<Rightarrow> uuid \<Rightarrow> uuid \<Rightarrow> uuid option \<Rightarrow> MemberStatus option \<Rightarrow> uuid list option \<Rightarrow>
   staff_db \<times> assignment_cache \<Rightarrow> api_error + (staff_db \<times> assignment_cache)" where
  "updateMember env ws memberId role status teamIds = (\<lambda>(db, cache).
     bind_sum (getWorkspace db ws) (\<lambda>_.
     case find (\<lambda>m. wsm_id m = memberId) (sd_members db) of
       None \<Rightarrow> Inl (NotFound ''WORKSPACE_MEMBER_NOT_FOUND'')
     | Some m \<Rightarrow>
         if wsm_workspace m \<noteq> ws then Inl (NotFound ''WORKSPACE_MEMBER_NOT_FOUND'')
         else bind_sum (if leaves status then sole_admin_check db ws (wsm_user m) else Inr ()) (\<lambda>_.
           let changed = db\<lparr>
                 sd_members := update_where (\<lambda>r. wsm_id r = memberId)
                   (\<lambda>r. r\<lparr>wsm_role := (case role of None \<Rightarrow> wsm_role r | Some x \<Rightarrow> Some x),
                          wsm_status := (case status of None \<Rightarrow> wsm_status r | Some s \<Rightarrow> s)\<rparr>) (sd_members db),
                 sd_seats := (case teamIds of None \<Rightarrow> sd_seats db | Some ts \<Rightarrow> setTeamsForUser ws (wsm_user m) ts (sd_seats db))\<rparr>
           in Inr (if leaves status
                   then (revokeMachineCredentials env ws (wsm_user m) changed, invalidateUser (se_cache env) cache ws (wsm_user m))
                   else (changed, cache)))))"

definition removeMember ::
  "staff_env \<Rightarrow> uuid \<Rightarrow> uuid \<Rightarrow> staff_db \<times> assignment_cache \<Rightarrow> api_error + (staff_db \<times> assignment_cache)" where
  "removeMember env ws u = (\<lambda>(db, cache).
     bind_sum (getWorkspace db ws) (\<lambda>_.
     case findMember db ws u of
       None \<Rightarrow> Inl (NotFound ''WORKSPACE_MEMBER_NOT_FOUND'')
     | Some _ \<Rightarrow> bind_sum (sole_admin_check db ws u) (\<lambda>_.
         Inr (revokeMachineCredentials env ws u
                (db\<lparr>sd_members := update_where (\<lambda>m. wsm_workspace m = ws \<and> wsm_user m = u)
                   (\<lambda>m. m\<lparr>wsm_status := Member_removed\<rparr>) (sd_members db)\<rparr>),
              invalidateUser (se_cache env) cache ws u))))"

section \<open>Roles and per-Project grants\<close>

definition findRole :: "staff_db \<Rightarrow> uuid \<Rightarrow> uuid \<Rightarrow> role_def option" where
  "findRole db ws i =
     (case find (\<lambda>r. rl_id r = i) (sd_roles db) of
        None \<Rightarrow> None
      | Some r \<Rightarrow> if rl_workspace r \<noteq> None \<and> rl_workspace r \<noteq> Some ws then None else Some r)"

text \<open>\<open>uq_ura_user_role_scope\<close> is a plain unique index: rows whose scope id is null never conflict.\<close>

definition scope_conflict :: "role_assignment \<Rightarrow> role_assignment \<Rightarrow> bool" where
  "scope_conflict a b \<longleftrightarrow> ua_user a = ua_user b \<and> ua_role a = ua_role b \<and> ua_scope a = ua_scope b \<and>
     ua_scopeId a \<noteq> None \<and> ua_scopeId a = ua_scopeId b"

definition grantWorkspaceRole :: "uuid \<Rightarrow> uuid \<Rightarrow> uuid \<Rightarrow> uuid \<Rightarrow> staff_db \<Rightarrow> staff_db" where
  "grantWorkspaceRole i ws u role db =
     (let new = \<lparr>ua_id = i, ua_workspace = ws, ua_user = u, ua_role = role, ua_scope = Workspace, ua_scopeId = None\<rparr>
      in if \<exists>a \<in> set (sd_assignments db). ua_id a = i \<or> scope_conflict new a then db
         else db\<lparr>sd_assignments := sd_assignments db @ [new]\<rparr>)"

definition drop_assignment :: "uuid \<Rightarrow> staff_db \<Rightarrow> staff_db" where
  "drop_assignment i db = db\<lparr>sd_assignments := filter (\<lambda>a. ua_id a \<noteq> i) (sd_assignments db)\<rparr>"

definition revoke_assignment :: "uuid \<Rightarrow> uuid \<Rightarrow> staff_db \<Rightarrow> api_error + staff_db" where
  "revoke_assignment ws i db =
     (if \<exists>a \<in> set (sd_assignments db). ua_id a = i \<and> ua_workspace a = ws then Inr (drop_assignment i db)
      else Inl (NotFound ''ROLE_ASSIGNMENT_NOT_FOUND''))"

text \<open>\<open>listForWorkspace\<close> returns the workspace's own roles and the shared ones.\<close>

definition elevateToWorkspaceAdmin :: "staff_env \<Rightarrow> uuid \<Rightarrow> uuid \<Rightarrow> staff_db \<Rightarrow> api_error + staff_db" where
  "elevateToWorkspaceAdmin env u ws db =
     (case find (\<lambda>r. (rl_workspace r = None \<or> rl_workspace r = Some ws) \<and> rl_slug r = role_slug WORKSPACE_ADMIN) (sd_roles db) of
        None \<Rightarrow> Inr db
      | Some admin \<Rightarrow>
          let existing = filter (\<lambda>a. ua_workspace a = ws \<and> ua_user a = u) (sd_assignments db)
          in if \<exists>a \<in> set existing. ua_role a = rl_id admin then Inr db
             else let cleared = fold drop_assignment (map ua_id (filter (\<lambda>a. ua_scope a = Workspace) existing)) db
                  in Inr (cleared\<lparr>sd_assignments := sd_assignments cleared @
                       [\<lparr>ua_id = se_role_id env, ua_workspace = ws, ua_user = u, ua_role = rl_id admin,
                         ua_scope = Workspace, ua_scopeId = None\<rparr>]\<rparr>))"

definition live_project :: "staff_db \<Rightarrow> uuid \<Rightarrow> uuid \<Rightarrow> bool" where
  "live_project db ws p \<longleftrightarrow> (\<exists>r \<in> set (sd_projects db). pj_id r = p \<and> pj_workspace r = ws \<and> \<not> pj_deleted r)"

definition createGrant ::
  "uuid \<Rightarrow> uuid \<Rightarrow> uuid \<Rightarrow> uuid \<Rightarrow> string option \<Rightarrow> staff_db \<Rightarrow> api_error + staff_db" where
  "createGrant i ws p u level db =
     (if \<exists>g \<in> set (sd_grants db). pm_project g = p \<and> pm_user g = u
      then Inr (db\<lparr>sd_grants := update_where (\<lambda>g. pm_project g = p \<and> pm_user g = u)
             (\<lambda>g. g\<lparr>pm_active := True, pm_level := level\<rparr>) (sd_grants db)\<rparr>)
      else if \<exists>g \<in> set (sd_grants db). pm_id g = i then Inl unique_violation
      else Inr (db\<lparr>sd_grants := sd_grants db @
             [\<lparr>pm_id = i, pm_workspace = ws, pm_project = p, pm_user = u, pm_level = level, pm_active = True\<rparr>]\<rparr>))"

definition grantProjectAccess ::
  "staff_env \<Rightarrow> bool \<Rightarrow> uuid \<Rightarrow> uuid \<Rightarrow> uuid \<Rightarrow> string option \<Rightarrow> staff_db \<Rightarrow> api_error + staff_db" where
  "grantProjectAccess env skip ws p u level db =
     (if \<not> live_project db ws p then Inl (NotFound ''PROJECT_NOT_FOUND'')
      else if \<not> active_member (access_view db) ws u then Inl (PreconditionFailed ''ASSIGNEE_NOT_WORKSPACE_MEMBER'')
      else if isWorkspaceAdmin (access_view db) ws u
      then if skip then Inr db else Inl (PreconditionFailed ''PROJECT_MEMBER_IS_WORKSPACE_ADMIN'')
      else (case find (\<lambda>g. pm_project g = p \<and> pm_user g = u \<and> pm_active g) (sd_grants db) of
          Some g \<Rightarrow>
            if level = None \<or> level = pm_level g then Inr db
            else Inr (db\<lparr>sd_grants := update_where (\<lambda>r. pm_id r = pm_id g) (\<lambda>r. r\<lparr>pm_level := level\<rparr>) (sd_grants db)\<rparr>)
        | None \<Rightarrow> createGrant (se_grant_id env p) ws p u level db))"
section \<open>Invitations\<close>

fun split_at_char :: "char \<Rightarrow> string \<Rightarrow> string list" where
  "split_at_char c [] = [[]]"
| "split_at_char c (x # xs) =
     (if x = c then [] # split_at_char c xs
      else case split_at_char c xs of [] \<Rightarrow> [[x]] | w # ws \<Rightarrow> (x # w) # ws)"

definition isInternalEmail :: "staff_env \<Rightarrow> string \<Rightarrow> bool" where
  "isInternalEmail env email =
     (let configured = (case se_internal env of None \<Rightarrow> [] | Some s \<Rightarrow> s) in
      if trim configured = [] then False
      else let domain = last (split_at_char (CHR ''@'') (trim (toLowerCase email))) in
           if domain = [] then False
           else domain \<in> set (filter (\<lambda>d. d \<noteq> []) (map (\<lambda>d. toLowerCase (trim d)) (split_at_char (CHR '','') configured))))"

definition assertInvitationProjectAccess :: "(uuid \<times> string) list \<Rightarrow> api_error + (uuid \<times> string) list" where
  "assertInvitationProjectAccess access =
     (if \<exists>a \<in> set access. isProjectAccessLevel (Some (snd a)) = None then Inl (PreconditionFailed ''VALIDATION_FAILED'')
      else if length (dedupe_by (\<lambda>p. p) {} (map fst access)) \<noteq> length access
      then Inl (PreconditionFailed ''VALIDATION_FAILED'')
      else Inr access)"

definition countProjectsInWorkspace :: "staff_db \<Rightarrow> uuid \<Rightarrow> uuid list \<Rightarrow> nat" where
  "countProjectsInWorkspace db ws ids =
     (if ids = [] then 0
      else length (filter (\<lambda>p. pj_workspace p = ws \<and> \<not> pj_deleted p \<and> pj_id p \<in> set ids) (sd_projects db)))"

text \<open>\<^verbatim>\<open>ON CONFLICT (idempotency_key) DO NOTHING\<close> in both outboxes.\<close>

definition schedule_mail :: "string \<Rightarrow> string \<Rightarrow> string \<Rightarrow> staff_db \<Rightarrow> staff_db" where
  "schedule_mail key to token db =
     (if \<exists>m \<in> set (sd_mails db). ml_key m = key then db
      else db\<lparr>sd_mails := sd_mails db @ [\<lparr>ml_key = key, ml_to = to, ml_token = token\<rparr>]\<rparr>)"

definition schedule_guest :: "staff_env \<Rightarrow> uuid \<Rightarrow> string \<Rightarrow> string option \<Rightarrow> staff_db \<Rightarrow> bool \<times> staff_db" where
  "schedule_guest env i email token db =
     (if \<not> se_guests env then (False, db)
      else (True,
        if \<exists>j \<in> set (sd_jobs db). gj_invitation j = i then db
        else db\<lparr>sd_jobs := sd_jobs db @ [\<lparr>gj_invitation = i, gj_email = email, gj_token = token, gj_status = Job_pending\<rparr>]\<rparr>))"

definition insert_invitation :: "invitation \<Rightarrow> staff_db \<Rightarrow> api_error + staff_db" where
  "insert_invitation x db =
     (if \<exists>r \<in> set (sd_invitations db). inv_id r = inv_id x \<or> inv_hash r = inv_hash x then Inl unique_violation
      else Inr (db\<lparr>sd_invitations := sd_invitations db @ [x]\<rparr>))"

definition cancelExistingForEmail :: "uuid \<Rightarrow> string \<Rightarrow> staff_db \<Rightarrow> staff_db" where
  "cancelExistingForEmail ws email db =
     db\<lparr>sd_invitations := update_where (\<lambda>r. inv_workspace r = ws \<and> inv_email r = email \<and> inv_status r = Invite_pending)
       (\<lambda>r. r\<lparr>inv_status := Invite_cancelled\<rparr>) (sd_invitations db)\<rparr>"

definition new_invitation :: "(string \<Rightarrow> string) \<Rightarrow> staff_env \<Rightarrow> uuid \<Rightarrow> string \<Rightarrow> uuid option \<Rightarrow> invitation" where
  "new_invitation sha env ws address role =
     \<lparr>inv_id = se_id env, inv_workspace = ws, inv_email = address, inv_role = role, inv_hash = sha (se_secret env),
      inv_status = Invite_pending, inv_expires = se_now env + se_ttl env * MS_PER_DAY, inv_resends = 0,
      inv_sent = se_now env, inv_accepted_by = None, inv_guest = None\<rparr>"

definition setProjectAccess :: "uuid \<Rightarrow> (uuid \<times> string) list \<Rightarrow> staff_db \<Rightarrow> staff_db" where
  "setProjectAccess i access db =
     db\<lparr>sd_invitation_access := sd_invitation_access db @
       map (\<lambda>(p, l). \<lparr>ia_invitation = i, ia_project = p, ia_level = l\<rparr>) access\<rparr>"

definition inviteMember ::
  "(string \<Rightarrow> string) \<Rightarrow> staff_env \<Rightarrow> uuid \<Rightarrow> string \<Rightarrow> uuid option \<Rightarrow> (uuid \<times> string) list \<Rightarrow> staff_db \<Rightarrow> api_error + staff_db" where
  "inviteMember sha env ws email role projectAccess db =
     bind_sum (getWorkspace db ws) (\<lambda>_.
     bind_sum (assertInvitationProjectAccess projectAccess) (\<lambda>access.
     if access \<noteq> [] \<and> countProjectsInWorkspace db ws (map fst access) \<noteq> length access
     then Inl (PreconditionFailed ''PROJECT_NOT_FOUND'')
     else
       let address = trim (toLowerCase email);
           i = se_id env
       in bind_sum (insert_invitation (new_invitation sha env ws address role) (cancelExistingForEmail ws address db)) (\<lambda>db1.
          let db2 = setProjectAccess i access db1;
              (queued, db3) = (if isInternalEmail env address then (False, db2)
                               else schedule_guest env i address (Some (se_secret env)) db2)
          in Inr (if queued then db3 else schedule_mail i address (se_secret env) db3))))"

definition loadRotatableInvitation :: "staff_db \<Rightarrow> uuid \<Rightarrow> uuid \<Rightarrow> api_error + invitation" where
  "loadRotatableInvitation db ws i =
     (case find (\<lambda>r. inv_id r = i) (sd_invitations db) of
        None \<Rightarrow> Inl (NotFound ''INVITATION_NOT_FOUND'')
      | Some r \<Rightarrow>
          if inv_workspace r \<noteq> ws then Inl (NotFound ''INVITATION_NOT_FOUND'')
          else if inv_status r \<noteq> Invite_pending \<and> inv_status r \<noteq> Invite_expired
          then Inl (PreconditionFailed ''INVITATION_NOT_PENDING'')
          else Inr r)"

definition rotateForResend :: "uuid \<Rightarrow> string \<Rightarrow> int \<Rightarrow> int \<Rightarrow> staff_db \<Rightarrow> api_error + staff_db" where
  "rotateForResend i hash expires sent db =
     (if \<exists>r \<in> set (sd_invitations db). inv_id r \<noteq> i \<and> inv_hash r = hash then Inl unique_violation
      else Inr (db\<lparr>sd_invitations := update_where (\<lambda>r. inv_id r = i)
        (\<lambda>r. r\<lparr>inv_hash := hash, inv_expires := expires, inv_status := Invite_pending, inv_sent := sent,
               inv_resends := inv_resends r + 1\<rparr>) (sd_invitations db)\<rparr>))"

definition RESEND_COOLDOWN_MS :: int where
  "RESEND_COOLDOWN_MS = 60000"

definition resendInvitation :: "(string \<Rightarrow> string) \<Rightarrow> staff_env \<Rightarrow> uuid \<Rightarrow> uuid \<Rightarrow> staff_db \<Rightarrow> api_error + staff_db" where
  "resendInvitation sha env ws i db =
     bind_sum (getWorkspace db ws) (\<lambda>_.
     bind_sum (loadRotatableInvitation db ws i) (\<lambda>r.
     if se_now env - inv_sent r < RESEND_COOLDOWN_MS then Inl (PreconditionFailed ''INVITATION_RESEND_TOO_SOON'')
     else bind_sum (rotateForResend i (sha (se_secret env)) (se_now env + se_ttl env * MS_PER_DAY) (se_now env) db) (\<lambda>db1.
       let db2 = schedule_mail (i @ '':r'' @ decimal (inv_resends r + 1)) (inv_email r) (se_secret env) db1
       in Inr (if isInternalEmail env (inv_email r) then db2 else snd (schedule_guest env i (inv_email r) None db2)))))"

text \<open>The link that is returned carries the new secret.\<close>

definition buildInvitationLink :: "(string \<Rightarrow> string) \<Rightarrow> staff_env \<Rightarrow> uuid \<Rightarrow> uuid \<Rightarrow> staff_db \<Rightarrow> api_error + staff_db" where
  "buildInvitationLink sha env ws i db =
     bind_sum (getWorkspace db ws) (\<lambda>_.
     bind_sum (loadRotatableInvitation db ws i) (\<lambda>r.
     rotateForResend i (sha (se_secret env)) (se_now env + se_ttl env * MS_PER_DAY) (inv_sent r) db))"

definition set_invitation_status :: "uuid \<Rightarrow> InvitationStatus \<Rightarrow> uuid option \<Rightarrow> staff_db \<Rightarrow> staff_db" where
  "set_invitation_status i status acceptedBy db =
     db\<lparr>sd_invitations := update_where (\<lambda>r. inv_id r = i)
       (\<lambda>r. r\<lparr>inv_status := status, inv_accepted_by := (case acceptedBy of None \<Rightarrow> inv_accepted_by r | Some u \<Rightarrow> Some u)\<rparr>)
       (sd_invitations db)\<rparr>"

definition cancelInvitation :: "uuid \<Rightarrow> uuid \<Rightarrow> staff_db \<Rightarrow> api_error + staff_db" where
  "cancelInvitation ws i db =
     bind_sum (getWorkspace db ws) (\<lambda>_.
     case find (\<lambda>r. inv_id r = i) (sd_invitations db) of
       None \<Rightarrow> Inl (NotFound ''INVITATION_NOT_FOUND'')
     | Some r \<Rightarrow>
         if inv_workspace r \<noteq> ws then Inl (NotFound ''INVITATION_NOT_FOUND'')
         else if inv_status r \<noteq> Invite_pending then Inl (PreconditionFailed ''INVITATION_NOT_PENDING'')
         else Inr (set_invitation_status i Invite_cancelled None db))"

text \<open>The recipient: the guest object where the relay has recorded one, the address otherwise.\<close>

definition recipient_check :: "staff_db \<Rightarrow> invitation \<Rightarrow> uuid \<Rightarrow> api_error + unit" where
  "recipient_check db r u =
     (case inv_guest r of
        Some g \<Rightarrow>
          if \<exists>p \<in> set (sd_people db). pe_id p = u \<and> (\<exists>s \<in> set (pe_subjects p). toLowerCase s = toLowerCase g)
          then Inr () else Inl (PreconditionFailed ''INVITATION_EMAIL_MISMATCH'')
      | None \<Rightarrow>
          (case find (\<lambda>p. pe_id p = u) (sd_people db) of
             None \<Rightarrow> Inl (PreconditionFailed ''INVITATION_EMAIL_MISMATCH'')
           | Some p \<Rightarrow>
               if pe_email p = [] \<or> toLowerCase (pe_email p) \<noteq> toLowerCase (inv_email r)
               then Inl (PreconditionFailed ''INVITATION_EMAIL_MISMATCH'') else Inr ()))"

fun grant_all :: "staff_env \<Rightarrow> uuid \<Rightarrow> uuid \<Rightarrow> invitation_access list \<Rightarrow> staff_db \<Rightarrow> api_error + staff_db" where
  "grant_all env ws u [] db = Inr db"
| "grant_all env ws u (a # rows) db =
     bind_sum (grantProjectAccess env True ws (ia_project a) u (Some (ia_level a)) db) (grant_all env ws u rows)"

definition grant_invited_role :: "staff_env \<Rightarrow> invitation \<Rightarrow> uuid \<Rightarrow> staff_db \<Rightarrow> api_error + staff_db" where
  "grant_invited_role env r u db =
     (case inv_role r of
        None \<Rightarrow> Inr db
      | Some i \<Rightarrow>
          if (case findRole db (inv_workspace r) i of
                None \<Rightarrow> False
              | Some role \<Rightarrow> rl_slug role = role_slug PROJECT_ADMIN \<or> rl_slug role = role_slug PROJECT_MEMBER)
          then Inl (Conflict ''INVITED_ROLE_IS_PROJECT_TIER'')
          else Inr (grantWorkspaceRole (se_role_id env) (inv_workspace r) u i db))"

text \<open>
  The checks read one state; \<open>others\<close> is what other requests commit before the transaction. The
  cached permissions are dropped after the commit.
\<close>

definition accept_checks :: "(string \<Rightarrow> string) \<Rightarrow> staff_env \<Rightarrow> string \<Rightarrow> uuid \<Rightarrow> staff_db \<Rightarrow> api_error + invitation" where
  "accept_checks sha env raw u db =
     (case find (\<lambda>r. inv_hash r = sha raw) (sd_invitations db) of
        None \<Rightarrow> Inl (NotFound ''INVITATION_NOT_FOUND'')
      | Some r \<Rightarrow>
          if inv_status r \<noteq> Invite_pending then Inl (PreconditionFailed ''INVITATION_ALREADY_USED'')
          else if inv_expires r < se_now env then Inl (PreconditionFailed ''INVITATION_EXPIRED'')
          else bind_sum (recipient_check db r u) (\<lambda>_. Inr r))"

definition accept_in_tx :: "staff_env \<Rightarrow> invitation \<Rightarrow> bool \<Rightarrow> invitation_access list \<Rightarrow> uuid \<Rightarrow> staff_db \<Rightarrow> api_error + staff_db" where
  "accept_in_tx env r enrolled access u db =
     bind_sum (if \<not> enrolled then insert_member (se_id env) (inv_workspace r) u (inv_role r) db else Inr db) (\<lambda>db1.
     bind_sum (grant_invited_role env r u db1) (\<lambda>db2.
     bind_sum (grant_all env (inv_workspace r) u access db2) (\<lambda>db3.
     Inr (set_invitation_status (inv_id r) Invite_accepted (Some u) db3))))"

definition acceptInvitation ::
  "(string \<Rightarrow> string) \<Rightarrow> (staff_db \<Rightarrow> staff_db) \<Rightarrow> staff_env \<Rightarrow> string \<Rightarrow> uuid \<Rightarrow>
   staff_db \<times> assignment_cache \<Rightarrow> api_error + (staff_db \<times> assignment_cache)" where
  "acceptInvitation sha others env raw u = (\<lambda>(db, cache).
     bind_sum (accept_checks sha env raw u db) (\<lambda>r.
       let enrolled = (findMember db (inv_workspace r) u \<noteq> None);
           access = filter (\<lambda>a. ia_invitation a = inv_id r) (sd_invitation_access db)
       in bind_sum (accept_in_tx env r enrolled access u (others db)) (\<lambda>db'.
            Inr (db', if inv_role r \<noteq> None \<or> access \<noteq> [] then invalidateUser (se_cache env) cache (inv_workspace r) u
                      else cache))))"

text \<open>The daily sweep, and the relay that settles the provisioning of a guest.\<close>

definition expire_invitations :: "int \<Rightarrow> staff_db \<Rightarrow> staff_db" where
  "expire_invitations time db =
     db\<lparr>sd_invitations := update_where (\<lambda>r. inv_status r = Invite_pending \<and> inv_expires r < time)
       (\<lambda>r. r\<lparr>inv_status := Invite_expired\<rparr>) (sd_invitations db)\<rparr>"

definition scheduleInviteEmail :: "(string \<Rightarrow> string) \<Rightarrow> guest_job \<Rightarrow> staff_db \<Rightarrow> staff_db" where
  "scheduleInviteEmail sha j db =
     (case gj_token j of
        None \<Rightarrow> db
      | Some raw \<Rightarrow>
          (case find (\<lambda>r. inv_id r = gj_invitation j) (sd_invitations db) of
             None \<Rightarrow> db
           | Some r \<Rightarrow>
               if inv_status r \<noteq> Invite_pending \<or> inv_hash r \<noteq> sha raw then db
               else if \<exists>w \<in> set (sd_workspaces db). ws_id w = inv_workspace r
               then schedule_mail (gj_invitation j) (gj_email j) raw db else db))"

definition finish_job :: "uuid \<Rightarrow> JobStatus \<Rightarrow> staff_db \<Rightarrow> staff_db" where
  "finish_job i status db =
     db\<lparr>sd_jobs := update_where (\<lambda>j. gj_invitation j = i) (\<lambda>j. j\<lparr>gj_status := status, gj_token := None\<rparr>) (sd_jobs db)\<rparr>"

definition record_guest :: "uuid \<Rightarrow> string option \<Rightarrow> staff_db \<Rightarrow> staff_db" where
  "record_guest i oid db =
     (case oid of
        None \<Rightarrow> db
      | Some g \<Rightarrow> db\<lparr>sd_invitations := update_where (\<lambda>r. inv_id r = i) (\<lambda>r. r\<lparr>inv_guest := Some g\<rparr>) (sd_invitations db)\<rparr>)"

definition settle_guest :: "(string \<Rightarrow> string) \<Rightarrow> uuid \<Rightarrow> string option \<Rightarrow> staff_db \<Rightarrow> staff_db" where
  "settle_guest sha i oid db =
     (case find (\<lambda>j. gj_invitation j = i \<and> gj_status j = Job_pending) (sd_jobs db) of
        None \<Rightarrow> db
      | Some j \<Rightarrow> finish_job i Job_sent (scheduleInviteEmail sha j (record_guest i oid db)))"

definition fail_guest :: "uuid \<Rightarrow> staff_db \<Rightarrow> staff_db" where
  "fail_guest i db =
     (if \<exists>j \<in> set (sd_jobs db). gj_invitation j = i \<and> gj_status j = Job_pending then finish_job i Job_failed db else db)"

section \<open>Machine tokens\<close>

definition API_TOKEN_PREFIX :: string where
  "API_TOKEN_PREFIX = ''rly_''"

definition PREFIX_BODY_LENGTH :: nat where
  "PREFIX_BODY_LENGTH = 8"

definition DEFAULT_EXPIRY_DAYS :: num where
  "DEFAULT_EXPIRY_DAYS = 90"

definition MAX_EXPIRY_DAYS :: num where
  "MAX_EXPIRY_DAYS = 365"

definition LAST_USED_THROTTLE_SECONDS :: int where
  "LAST_USED_THROTTLE_SECONDS = 60"

definition prefixOf :: "string \<Rightarrow> string option" where
  "prefixOf plaintext =
     (if take (length API_TOKEN_PREFIX) plaintext \<noteq> API_TOKEN_PREFIX then None
      else let body = drop (length API_TOKEN_PREFIX) plaintext in
           if length body < PREFIX_BODY_LENGTH then None
           else Some (API_TOKEN_PREFIX @ take PREFIX_BODY_LENGTH body))"

definition hashesMatch :: "string \<Rightarrow> string \<Rightarrow> bool" where
  "hashesMatch a b = (if length a \<noteq> length b then False else a = b)"

definition assertExpiryDays :: "num \<Rightarrow> api_error + unit" where
  "assertExpiryDays days =
     (if of_int \<lfloor>days\<rfloor> \<noteq> days \<or> days < 1 \<or> days > MAX_EXPIRY_DAYS then Inl (Uncaught ''RangeError'') else Inr ())"

definition validateScopes :: "string list option \<Rightarrow> api_error + string list option" where
  "validateScopes requested =
     (case requested of
        None \<Rightarrow> Inr None
      | Some ss \<Rightarrow>
          if ss = [] then Inr None
          else if \<exists>s \<in> set ss. s \<notin> snd ` set PERMISSION then Inl (Forbidden ''API_TOKEN_UNKNOWN_SCOPE'')
          else Inr (Some (dedupe_by (\<lambda>s. s) {} ss)))"

definition mintToken :: "(string \<Rightarrow> string) \<Rightarrow> string \<Rightarrow> string \<times> string \<times> string" where
  "mintToken sha secret =
     (let plaintext = API_TOKEN_PREFIX @ secret
      in (plaintext, API_TOKEN_PREFIX @ take PREFIX_BODY_LENGTH secret, sha plaintext))"

definition mint ::
  "(string \<Rightarrow> string) \<Rightarrow> staff_env \<Rightarrow> uuid \<Rightarrow> uuid \<Rightarrow> num option \<Rightarrow> string list option \<Rightarrow> staff_db \<Rightarrow>
   api_error + (string \<times> staff_db)" where
  "mint sha env ws u expiresInDays requested db =
     bind_sum (validateScopes requested) (\<lambda>valid.
     let days = (case expiresInDays of None \<Rightarrow> DEFAULT_EXPIRY_DAYS | Some d \<Rightarrow> d) in
     bind_sum (assertExpiryDays days) (\<lambda>_.
     let (plaintext, prefix, hash) = mintToken sha (se_secret env)
     in if \<exists>t \<in> set (sd_tokens db). tk_id t = se_id env \<or> tk_prefix t = prefix \<or> tk_hash t = hash
        then Inl unique_violation
        else Inr (plaintext, db\<lparr>sd_tokens := sd_tokens db @
          [\<lparr>tk_id = se_id env, tk_workspace = ws, tk_user = u, tk_prefix = prefix, tk_hash = hash, tk_scopes = valid,
            tk_expires = se_now env + \<lfloor>days\<rfloor> * MS_PER_DAY, tk_used = None, tk_revoked = None\<rparr>]\<rparr>)))"

definition findLiveByPrefix :: "int \<Rightarrow> string \<Rightarrow> staff_db \<Rightarrow> api_token option" where
  "findLiveByPrefix time prefix db = find (\<lambda>t. tk_prefix t = prefix \<and> tk_revoked t = None \<and> tk_expires t > time) (sd_tokens db)"

definition verify :: "(string \<Rightarrow> string) \<Rightarrow> int \<Rightarrow> string \<Rightarrow> staff_db \<Rightarrow> api_token option" where
  "verify sha time raw db =
     (case prefixOf raw of
        None \<Rightarrow> None
      | Some prefix \<Rightarrow>
          (case findLiveByPrefix time prefix db of
             None \<Rightarrow> None
           | Some t \<Rightarrow> if \<not> hashesMatch (tk_hash t) (sha raw) then None else Some t))"

definition touch :: "int \<Rightarrow> uuid \<Rightarrow> uuid \<Rightarrow> staff_db \<Rightarrow> staff_db" where
  "touch time ws i db =
     db\<lparr>sd_tokens := update_where (\<lambda>t. tk_workspace t = ws \<and> tk_id t = i \<and>
         (case tk_used t of None \<Rightarrow> True | Some last_use \<Rightarrow> last_use < time - LAST_USED_THROTTLE_SECONDS * 1000))
       (\<lambda>t. t\<lparr>tk_used := Some time\<rparr>) (sd_tokens db)\<rparr>"

definition revoke_token :: "int \<Rightarrow> uuid \<Rightarrow> uuid \<Rightarrow> staff_db \<Rightarrow> staff_db" where
  "revoke_token time ws i db =
     db\<lparr>sd_tokens := update_where (\<lambda>t. tk_workspace t = ws \<and> tk_id t = i \<and> tk_revoked t = None)
       (\<lambda>t. t\<lparr>tk_revoked := Some time\<rparr>) (sd_tokens db)\<rparr>"

definition revokeOwn :: "int \<Rightarrow> uuid \<Rightarrow> uuid \<Rightarrow> uuid \<Rightarrow> staff_db \<Rightarrow> api_error + staff_db" where
  "revokeOwn time ws u i db =
     (case find (\<lambda>t. tk_workspace t = ws \<and> tk_id t = i) (sd_tokens db) of
        None \<Rightarrow> Inl (NotFound ''API_TOKEN_NOT_FOUND'')
      | Some t \<Rightarrow> if tk_user t \<noteq> u then Inl (NotFound ''API_TOKEN_NOT_FOUND'') else Inr (revoke_token time ws i db))"

definition revokeAsAdmin :: "int \<Rightarrow> uuid \<Rightarrow> uuid \<Rightarrow> staff_db \<Rightarrow> api_error + staff_db" where
  "revokeAsAdmin time ws i db =
     (case find (\<lambda>t. tk_workspace t = ws \<and> tk_id t = i) (sd_tokens db) of
        None \<Rightarrow> Inl (NotFound ''API_TOKEN_NOT_FOUND'')
      | Some _ \<Rightarrow> Inr (revoke_token time ws i db))"

text \<open>The sweep of dead credentials: expired or revoked before \<open>limit\<close>.\<close>

definition purge_tokens :: "int \<Rightarrow> staff_db \<Rightarrow> staff_db" where
  "purge_tokens limit db =
     db\<lparr>sd_tokens := filter (\<lambda>t. \<not> (tk_expires t < limit \<or> (case tk_revoked t of None \<Rightarrow> False | Some r \<Rightarrow> r < limit)))
       (sd_tokens db)\<rparr>"

section \<open>Requests\<close>

datatype staff_request =
    Create_workspace uuid string
  | Delete_workspace uuid
  | Enroll uuid uuid "uuid option"
  | Add_member uuid uuid
  | Update_member uuid uuid "uuid option" "MemberStatus option" "uuid list option"
  | Remove_member uuid uuid
  | Invite uuid string "uuid option" "(uuid \<times> string) list"
  | Resend uuid uuid
  | Copy_link uuid uuid
  | Cancel uuid uuid
  | Accept string uuid
  | Expire
  | Settle_guest uuid "string option"
  | Fail_guest uuid
  | Grant_access uuid uuid uuid "string option"
  | Revoke_role uuid uuid
  | Elevate uuid uuid
  | Mint uuid uuid "num option" "string list option"
  | Revoke_own uuid uuid uuid
  | Revoke_as_admin uuid uuid
  | Touch uuid uuid
  | Purge int

definition keep_cache :: "assignment_cache \<Rightarrow> api_error + staff_db \<Rightarrow> api_error + (staff_db \<times> assignment_cache)" where
  "keep_cache cache r = bind_sum r (\<lambda>db. Inr (db, cache))"

text \<open>Granting and elevating drop the cached permissions of the user after the commit, when they wrote anything.\<close>

definition drop_cached ::
  "staff_env \<Rightarrow> uuid \<Rightarrow> uuid \<Rightarrow> staff_db \<Rightarrow> assignment_cache \<Rightarrow> staff_db \<Rightarrow> api_error + (staff_db \<times> assignment_cache)" where
  "drop_cached env ws u db cache db' = Inr (db', if db' = db then cache else invalidateUser (se_cache env) cache ws u)"

fun perform ::
  "(string \<Rightarrow> string) \<Rightarrow> staff_env \<Rightarrow> staff_request \<Rightarrow> staff_db \<times> assignment_cache \<Rightarrow> api_error + (staff_db \<times> assignment_cache)" where
  "perform sha env (Create_workspace u slug) (db, c) = keep_cache c (createWorkspace env u slug db)"
| "perform sha env (Delete_workspace ws) (db, c) = keep_cache c (deleteWorkspace ws db)"
| "perform sha env (Enroll ws u role) (db, c) = keep_cache c (enrollMember env ws u role db)"
| "perform sha env (Add_member ws u) (db, c) = keep_cache c (addMember env ws u db)"
| "perform sha env (Update_member ws i role status teams) (db, c) = updateMember env ws i role status teams (db, c)"
| "perform sha env (Remove_member ws u) (db, c) = removeMember env ws u (db, c)"
| "perform sha env (Invite ws email role access) (db, c) = keep_cache c (inviteMember sha env ws email role access db)"
| "perform sha env (Resend ws i) (db, c) = keep_cache c (resendInvitation sha env ws i db)"
| "perform sha env (Copy_link ws i) (db, c) = keep_cache c (buildInvitationLink sha env ws i db)"
| "perform sha env (Cancel ws i) (db, c) = keep_cache c (cancelInvitation ws i db)"
| "perform sha env (Accept raw u) (db, c) = acceptInvitation sha (\<lambda>db. db) env raw u (db, c)"
| "perform sha env Expire (db, c) = Inr (expire_invitations (se_now env) db, c)"
| "perform sha env (Settle_guest i oid) (db, c) = Inr (settle_guest sha i oid db, c)"
| "perform sha env (Fail_guest i) (db, c) = Inr (fail_guest i db, c)"
| "perform sha env (Grant_access ws p u level) (db, c) =
     bind_sum (grantProjectAccess env False ws p u level db) (drop_cached env ws u db c)"
| "perform sha env (Revoke_role ws i) (db, c) =
     (case find (\<lambda>a. ua_id a = i \<and> ua_workspace a = ws) (sd_assignments db) of
        None \<Rightarrow> Inl (NotFound ''ROLE_ASSIGNMENT_NOT_FOUND'')
      | Some a \<Rightarrow> keep_cache (invalidateUser (se_cache env) c ws (ua_user a)) (revoke_assignment ws i db))"
| "perform sha env (Elevate ws u) (db, c) =
     bind_sum (elevateToWorkspaceAdmin env u ws db) (drop_cached env ws u db c)"
| "perform sha env (Mint ws u days scs) (db, c) = keep_cache c (map_sum id snd (mint sha env ws u days scs db))"
| "perform sha env (Revoke_own ws u i) (db, c) = keep_cache c (revokeOwn (se_now env) ws u i db)"
| "perform sha env (Revoke_as_admin ws i) (db, c) = keep_cache c (revokeAsAdmin (se_now env) ws i db)"
| "perform sha env (Touch ws i) (db, c) = Inr (touch (se_now env) ws i db, c)"
| "perform sha env (Purge limit) (db, c) = Inr (purge_tokens limit db, c)"

text \<open>A run of requests one after the other; a request that is refused leaves the tables as they are.\<close>

definition staff_step :: "(string \<Rightarrow> string) \<Rightarrow> staff_env \<times> staff_request \<Rightarrow> staff_db \<times> assignment_cache \<Rightarrow> staff_db \<times> assignment_cache" where
  "staff_step sha q s = (case perform sha (fst q) (snd q) s of Inl _ \<Rightarrow> s | Inr s' \<Rightarrow> s')"

definition staff_run :: "(string \<Rightarrow> string) \<Rightarrow> (staff_env \<times> staff_request) list \<Rightarrow> staff_db \<times> assignment_cache \<Rightarrow> staff_db \<times> assignment_cache" where
  "staff_run sha qs s = fold (staff_step sha) qs s"

end
