(* ===== verification/Iterations.thy ===== *)
theory Iterations
  imports Access
begin

text \<open>
  Iterations and their membership: the state machine of
  \<^verbatim>\<open>iterations/src/domain/iteration-state.ts\<close>, the service \<^verbatim>\<open>iterations.service.ts\<close> (create, update,
  delete, commit, accept), the timebox identity of \<^verbatim>\<open>timebox-group.ts\<close>, the queries of its
  repository, and the two membership operations of the work items module that move an iteration's
  state: \<open>autoAcceptIterationIfComplete\<close> and \<open>bulkAssignIteration\<close>. MD5 is an argument (\<open>md5\<close>). A
  transaction of another request that commits in between is an argument too (\<open>others\<close>).
\<close>

section \<open>Tables\<close>

datatype IterationState = Planning | Committed | Accepted

datatype WorkItemType = Story | Task | Defect

datatype ScheduleState = S_idea | S_defined | S_in_progress | S_completed | S_accepted | S_release

definition isAcceptedScheduleState :: "ScheduleState \<Rightarrow> bool" where
  "isAcceptedScheduleState s \<longleftrightarrow> s \<in> set [S_accepted, S_release]"

definition isCompletedScheduleState :: "ScheduleState \<Rightarrow> bool" where
  "isCompletedScheduleState s \<longleftrightarrow> s \<in> set [S_completed, S_accepted, S_release]"

record iteration_row =
  it_id :: uuid
  it_workspace :: uuid
  it_project :: uuid
  it_team :: "uuid option"
  it_key :: string
  it_name :: string
  it_goal :: "string option"
  it_theme :: "string option"
  it_notes :: "string option"
  it_state :: IterationState
  it_velocity :: "num option"
  it_start :: "iso_date option"
  it_end :: "iso_date option"
  it_completedAt :: "nat option"
  it_group :: "string option"

record project_row =
  p_id :: uuid
  p_workspace :: uuid
  p_archived :: bool
  p_deleted :: bool

record item_row =
  wi_id :: uuid
  wi_workspace :: uuid
  wi_project :: uuid
  wi_team :: "uuid option"
  wi_type :: WorkItemType
  wi_parent :: "uuid option"
  wi_schedule :: ScheduleState
  wi_iteration :: "uuid option"
  wi_deleted :: bool

record transition_row =
  tr_story :: uuid
  tr_source :: "uuid option"
  tr_target :: "uuid option"

record log_row =
  lg_entity :: uuid
  lg_action :: string
  lg_field :: "string option"

text \<open>\<open>history\<close>: the (iteration, workspace) of every recorded daily snapshot.\<close>

record iter_db =
  iterations :: "iteration_row list"
  projects :: "project_row list"
  links :: "project_team_row list"
  items :: "item_row list"
  history :: "(uuid \<times> uuid) list"
  transitions :: "transition_row list"
  activity :: "log_row list"

section \<open>The state machine\<close>

datatype IterationStateChange = Commit | Accept | Reopen

definition isCreatableIterationState :: "IterationState \<Rightarrow> bool" where
  "isCreatableIterationState s \<longleftrightarrow> s \<in> set [Planning, Committed]"

definition classifyIterationStateChange :: "IterationState \<Rightarrow> IterationState \<Rightarrow> IterationStateChange" where
  "classifyIterationStateChange from to =
     (if to = Accepted then Accept
      else if from = Planning \<and> to = Committed then Commit
      else Reopen)"

fun STATE_CHANGE_ACTION :: "IterationStateChange \<Rightarrow> string" where
  "STATE_CHANGE_ACTION Commit = ''iteration.committed''"
| "STATE_CHANGE_ACTION Accept = ''iteration.accepted''"
| "STATE_CHANGE_ACTION Reopen = ''iteration.reopened''"

section \<open>Guards of the projects module\<close>

definition getProject :: "iter_db \<Rightarrow> uuid \<Rightarrow> uuid \<Rightarrow> api_error + project_row" where
  "getProject db ws pid =
     (case find (\<lambda>p. p_id p = pid \<and> p_workspace p = ws) (projects db) of
        None \<Rightarrow> Inl (NotFound ''PROJECT_NOT_FOUND'')
      | Some p \<Rightarrow> if p_deleted p then Inl (NotFound ''PROJECT_NOT_FOUND'') else Inr p)"

definition assertProjectWritable :: "iter_db \<Rightarrow> uuid \<Rightarrow> uuid \<Rightarrow> api_error + project_row" where
  "assertProjectWritable db ws pid =
     bind_sum (getProject db ws pid) (\<lambda>p.
       if p_archived p then Inl (PreconditionFailed ''PROJECT_ARCHIVED'') else Inr p)"

definition assertTeamLinkedToProject :: "iter_db \<Rightarrow> uuid \<Rightarrow> uuid \<Rightarrow> uuid \<Rightarrow> api_error + unit" where
  "assertTeamLinkedToProject db ws pid team =
     bind_sum (getProject db ws pid) (\<lambda>_.
       if \<exists>l \<in> set (links db). pt_project l = pid \<and> pt_team l = team \<and> pt_active l then Inr ()
       else Inl (PreconditionFailed ''PROJECT_TEAM_LINK_NOT_FOUND''))"

section \<open>The timebox identity and the key\<close>

definition present :: "string option \<Rightarrow> bool" where
  "present s \<longleftrightarrow> (case s of None \<Rightarrow> False | Some v \<Rightarrow> v \<noteq> [])"

definition slice :: "nat \<Rightarrow> nat \<Rightarrow> string \<Rightarrow> string" where
  "slice a b s = take (b - a) (drop a s)"

definition timeboxGroupIdFor :: "(string \<Rightarrow> string) \<Rightarrow> uuid \<Rightarrow> iso_date option \<Rightarrow> iso_date option \<Rightarrow> string option" where
  "timeboxGroupIdFor md5 projectId startDate endDate =
     (if \<not> present startDate \<or> \<not> present endDate then None
      else let hex = md5 (projectId @ '':'' @ the startDate @ '':'' @ the endDate)
           in Some (slice 0 8 hex @ ''-'' @ slice 8 12 hex @ ''-'' @ slice 12 16 hex @ ''-'' @
                    slice 16 20 hex @ ''-'' @ slice 20 32 hex))"

text \<open>\<^verbatim>\<open>substring(key from '[0-9]+$')::int\<close>.\<close>

definition key_number :: "string \<Rightarrow> int option" where
  "key_number key =
     (let ds = rev (takeWhile (\<lambda>c. digit_value c \<noteq> None) (rev key)) in if ds = [] then None else number_from 0 ds)"

definition nextKeyNumber :: "iteration_row list \<Rightarrow> uuid \<Rightarrow> uuid \<Rightarrow> nat" where
  "nextKeyNumber rows projectId ws =
     nat (fold max (List.map_filter (\<lambda>r. if it_project r = projectId \<and> it_workspace r = ws then key_number (it_key r) else None) rows) 0) + 1"

section \<open>Create\<close>

definition assertDateRange :: "iso_date option \<Rightarrow> iso_date option \<Rightarrow> api_error + unit" where
  "assertDateRange startDate endDate =
     (if present startDate \<and> present endDate \<and> the startDate > the endDate
      then Inl (PreconditionFailed ''ITERATION_INVALID_DATE_RANGE'') else Inr ())"

record create_opts =
  c_team :: "uuid option"
  c_goal :: "string option"
  c_theme :: "string option"
  c_notes :: "string option"
  c_state :: "IterationState option"
  c_start :: "iso_date option"
  c_end :: "iso_date option"
  c_velocity :: "num option"

definition insert_row ::
  "(string \<Rightarrow> string) \<Rightarrow> uuid \<Rightarrow> uuid \<Rightarrow> uuid \<Rightarrow> string \<Rightarrow> string \<Rightarrow> create_opts \<Rightarrow> iteration_row" where
  "insert_row md5 i ws projectId key name opts =
     \<lparr>it_id = i, it_workspace = ws, it_project = projectId, it_team = c_team opts, it_key = key, it_name = name,
      it_goal = c_goal opts, it_theme = c_theme opts, it_notes = c_notes opts,
      it_state = (case c_state opts of None \<Rightarrow> Planning | Some s \<Rightarrow> s), it_velocity = c_velocity opts,
      it_start = c_start opts, it_end = c_end opts, it_completedAt = None,
      it_group = timeboxGroupIdFor md5 projectId (c_start opts) (c_end opts)\<rparr>"

definition MAX_KEY_RETRIES :: nat where
  "MAX_KEY_RETRIES = 2"

text \<open>\<^verbatim>\<open>uq_iterations_key\<close> on (project, key).\<close>

definition duplicate_key :: "iteration_row list \<Rightarrow> iteration_row \<Rightarrow> bool" where
  "duplicate_key rows r \<longleftrightarrow> (\<exists>r' \<in> set rows. it_project r' = it_project r \<and> it_key r' = it_key r)"

text \<open>\<open>others k\<close>: what other requests commit between the read of the next key and the insert of attempt
  \<open>k\<close>. \<open>fuel\<close> counts the attempts left.\<close>

fun create_attempts ::
  "(string \<Rightarrow> string) \<Rightarrow> (nat \<Rightarrow> iteration_row list \<Rightarrow> iteration_row list) \<Rightarrow> uuid \<Rightarrow> uuid \<Rightarrow> uuid \<Rightarrow> string \<Rightarrow> create_opts
    \<Rightarrow> nat \<Rightarrow> nat \<Rightarrow> iteration_row list \<Rightarrow> api_error + (iteration_row \<times> iteration_row list)" where
  "create_attempts md5 others i ws projectId name opts attempt 0 rows = Inl (Uncaught ''undefined'')"
| "create_attempts md5 others i ws projectId name opts attempt (Suc fuel) rows =
     (let keyNumber = nextKeyNumber rows projectId ws;
          row = insert_row md5 i ws projectId (''IT-'' @ decimal keyNumber) name opts;
          rows' = others attempt rows
      in if duplicate_key rows' row
         then (if attempt < MAX_KEY_RETRIES - 1
               then create_attempts md5 others i ws projectId name opts (attempt + 1) fuel rows'
               else Inl (Uncaught ''23505''))
         else Inr (row, rows' @ [row]))"

definition createIteration ::
  "(string \<Rightarrow> string) \<Rightarrow> (nat \<Rightarrow> iteration_row list \<Rightarrow> iteration_row list) \<Rightarrow> uuid \<Rightarrow> iter_db \<Rightarrow> uuid \<Rightarrow> uuid \<Rightarrow> string \<Rightarrow> create_opts
    \<Rightarrow> api_error + (iteration_row \<times> iter_db)" where
  "createIteration md5 others i db ws projectId name opts =
     bind_sum (assertProjectWritable db ws projectId) (\<lambda>_.
     bind_sum (if present (c_team opts) then assertTeamLinkedToProject db ws projectId (the (c_team opts)) else Inr ()) (\<lambda>_.
     bind_sum (assertDateRange (c_start opts) (c_end opts)) (\<lambda>_.
     if (case c_state opts of None \<Rightarrow> False | Some s \<Rightarrow> \<not> isCreatableIterationState s)
     then Inl (PreconditionFailed ''ITERATION_EMPTY'')
     else bind_sum (create_attempts md5 others i ws projectId name opts 0 MAX_KEY_RETRIES (iterations db)) (\<lambda>(row, rows).
       Inr (row, db\<lparr>iterations := rows,
                    activity := activity db @ [\<lparr>lg_entity = i, lg_action = ''iteration.created'', lg_field = None\<rparr>]\<rparr>)))))"

section \<open>Reads\<close>

definition findById :: "iter_db \<Rightarrow> uuid \<Rightarrow> iteration_row option" where
  "findById db i = find (\<lambda>r. it_id r = i) (iterations db)"

definition getIteration :: "iter_db \<Rightarrow> uuid \<Rightarrow> uuid \<Rightarrow> api_error + iteration_row" where
  "getIteration db ws i =
     (case findById db i of
        None \<Rightarrow> Inl (NotFound ''ITERATION_NOT_FOUND'')
      | Some r \<Rightarrow> if it_workspace r \<noteq> ws then Inl (NotFound ''ITERATION_NOT_FOUND'') else Inr r)"

text \<open>The members of an iteration: its live Stories and Defects.\<close>

definition assigned :: "iter_db \<Rightarrow> uuid \<Rightarrow> uuid \<Rightarrow> item_row list" where
  "assigned db i ws =
     filter (\<lambda>w. wi_iteration w = Some i \<and> wi_workspace w = ws \<and> wi_type w \<in> {Story, Defect} \<and> \<not> wi_deleted w) (items db)"

section \<open>State changes\<close>

definition assertAcceptable :: "iter_db \<Rightarrow> uuid \<Rightarrow> uuid \<Rightarrow> api_error + unit" where
  "assertAcceptable db ws i =
     (let members = assigned db i ws in
      if length members = 0 then Inl (PreconditionFailed ''ITERATION_EMPTY'')
      else if \<not> list_all (\<lambda>w. isAcceptedScheduleState (wi_schedule w)) members
      then Inl (PreconditionFailed ''ITERATION_NOT_ALL_ACCEPTED'')
      else Inr ())"

definition applyStateChange ::
  "nat \<Rightarrow> iter_db \<Rightarrow> uuid \<Rightarrow> iteration_row \<Rightarrow> IterationState \<Rightarrow> api_error + (iteration_row \<times> iter_db)" where
  "applyStateChange now db ws iteration target =
     bind_sum (assertProjectWritable db ws (it_project iteration)) (\<lambda>_.
     if it_state iteration = target then Inl (PreconditionFailed ''ITERATION_INVALID_STATE_TRANSITION'')
     else let change = classifyIterationStateChange (it_state iteration) target in
       bind_sum (if change = Accept then assertAcceptable db ws (it_id iteration) else Inr ()) (\<lambda>_.
       let upd = (\<lambda>r. r\<lparr>it_state := target, it_completedAt := (if change = Accept then Some now else None)\<rparr>)
       in Inr (upd iteration,
               db\<lparr>iterations := update_where (\<lambda>r. it_id r = it_id iteration) upd (iterations db),
                  activity := activity db @ [\<lparr>lg_entity = it_id iteration, lg_action = STATE_CHANGE_ACTION change,
                                              lg_field = Some ''state''\<rparr>]\<rparr>)))"

definition commitIteration :: "nat \<Rightarrow> iter_db \<Rightarrow> uuid \<Rightarrow> uuid \<Rightarrow> api_error + (iteration_row \<times> iter_db)" where
  "commitIteration now db ws i =
     bind_sum (getIteration db ws i) (\<lambda>iteration. applyStateChange now db ws iteration Committed)"

definition acceptIteration :: "nat \<Rightarrow> iter_db \<Rightarrow> uuid \<Rightarrow> uuid \<Rightarrow> api_error + (iteration_row \<times> iter_db)" where
  "acceptIteration now db ws i =
     bind_sum (getIteration db ws i) (\<lambda>iteration. applyStateChange now db ws iteration Accepted)"

section \<open>Update\<close>

text \<open>A field of the patch is \<open>None\<close> when absent; a nullable one carries an option.\<close>

record update_input =
  u_name :: "string option"
  u_goal :: "string option option"
  u_theme :: "string option option"
  u_notes :: "string option option"
  u_team :: "uuid option option"
  u_state :: "IterationState option"
  u_velocity :: "num option option"
  u_start :: "iso_date option option"
  u_end :: "iso_date option option"

definition set_if :: "'a option \<Rightarrow> 'a \<Rightarrow> 'a" where
  "set_if v old = (case v of None \<Rightarrow> old | Some x \<Rightarrow> x)"

text \<open>The repository's \<open>update\<close> on the fields other than the state.\<close>

definition apply_fields :: "update_input \<Rightarrow> iteration_row \<Rightarrow> iteration_row" where
  "apply_fields u r =
     r\<lparr>it_name := set_if (u_name u) (it_name r), it_goal := set_if (u_goal u) (it_goal r),
       it_theme := set_if (u_theme u) (it_theme r), it_notes := set_if (u_notes u) (it_notes r),
       it_team := set_if (u_team u) (it_team r), it_velocity := set_if (u_velocity u) (it_velocity r),
       it_start := set_if (u_start u) (it_start r), it_end := set_if (u_end u) (it_end r)\<rparr>"

definition has_fields :: "update_input \<Rightarrow> bool" where
  "has_fields u \<longleftrightarrow> u_name u \<noteq> None \<or> u_goal u \<noteq> None \<or> u_theme u \<noteq> None \<or> u_notes u \<noteq> None \<or> u_team u \<noteq> None \<or>
     u_velocity u \<noteq> None \<or> u_start u \<noteq> None \<or> u_end u \<noteq> None"

text \<open>\<open>changed\<close> compares by string form: \<open>null\<close> prints as \<open>null\<close>.\<close>

definition changed :: "string option \<Rightarrow> string option \<Rightarrow> bool" where
  "changed a b =
     (if a = None \<and> b = None then False
      else (case a of None \<Rightarrow> ''null'' | Some s \<Rightarrow> s) \<noteq> (case b of None \<Rightarrow> ''null'' | Some s \<Rightarrow> s))"

definition diff_field :: "string \<Rightarrow> string option \<Rightarrow> string option option \<Rightarrow> string list" where
  "diff_field field old new = (case new of None \<Rightarrow> [] | Some v \<Rightarrow> if changed old v then [field] else [])"

definition diffIteration :: "iteration_row \<Rightarrow> update_input \<Rightarrow> string list" where
  "diffIteration r u =
     diff_field ''name'' (Some (it_name r)) (map_option Some (u_name u)) @
     diff_field ''goal'' (it_goal r) (u_goal u) @
     diff_field ''theme'' (it_theme r) (u_theme u) @
     diff_field ''notes'' (it_notes r) (u_notes u) @
     diff_field ''teamId'' (it_team r) (u_team u) @
     (case u_velocity u of None \<Rightarrow> [] | Some v \<Rightarrow> if it_velocity r \<noteq> v then [''plannedVelocity''] else []) @
     diff_field ''startDate'' (it_start r) (u_start u) @
     diff_field ''endDate'' (it_end r) (u_end u)"

definition updateIteration ::
  "nat \<Rightarrow> iter_db \<Rightarrow> uuid \<Rightarrow> uuid \<Rightarrow> update_input \<Rightarrow> api_error + (iteration_row \<times> iter_db)" where
  "updateIteration now db ws i u =
     bind_sum (getIteration db ws i) (\<lambda>current.
     bind_sum (assertProjectWritable db ws (it_project current)) (\<lambda>_.
     bind_sum (case u_team u of Some t \<Rightarrow> if present t then assertTeamLinkedToProject db ws (it_project current) (the t) else Inr () | None \<Rightarrow> Inr ()) (\<lambda>_.
     bind_sum (assertDateRange (set_if (u_start u) (it_start current)) (set_if (u_end u) (it_end current))) (\<lambda>_.
     bind_sum (case u_state u of
         Some s \<Rightarrow> if s \<noteq> it_state current then applyStateChange now db ws current s else Inr (current, db)
       | None \<Rightarrow> Inr (current, db)) (\<lambda>(result, db1).
     if has_fields u
     then Inr (apply_fields u result,
               db1\<lparr>iterations := update_where (\<lambda>r. it_id r = i) (apply_fields u) (iterations db1),
                   activity := activity db1 @ map (\<lambda>f. \<lparr>lg_entity = i, lg_action = ''iteration.updated'', lg_field = Some f\<rparr>)
                     (diffIteration current u)\<rparr>)
     else Inr (result, db1))))))"

section \<open>Delete\<close>

definition deleteIteration :: "iter_db \<Rightarrow> uuid \<Rightarrow> uuid \<Rightarrow> api_error + iter_db" where
  "deleteIteration db ws i =
     bind_sum (getIteration db ws i) (\<lambda>iteration.
     bind_sum (assertProjectWritable db ws (it_project iteration)) (\<lambda>_.
     if it_state iteration \<noteq> Planning then Inl (PreconditionFailed ''ITERATION_NOT_PLANNING'')
     else if length (filter (\<lambda>h. h = (i, it_workspace iteration)) (history db)) > 0
     then Inl (PreconditionFailed ''ITERATION_HAS_REPORT_HISTORY'')
     else Inr (db\<lparr>iterations := filter (\<lambda>r. it_id r \<noteq> i) (iterations db),
                  items := update_where (\<lambda>w. wi_iteration w = Some i) (\<lambda>w. w\<lparr>wi_iteration := None\<rparr>) (items db)\<rparr>)))"

section \<open>Membership\<close>

definition autoAcceptIterationIfComplete :: "nat \<Rightarrow> iter_db \<Rightarrow> uuid \<Rightarrow> uuid \<Rightarrow> bool \<times> iter_db" where
  "autoAcceptIterationIfComplete now db i ws =
     (let members = assigned db i ws in
      if length members = 0 \<or> \<not> list_all (\<lambda>w. isAcceptedScheduleState (wi_schedule w)) members then (False, db)
      else let hit = (\<lambda>r. it_id r = i \<and> it_workspace r = ws \<and> it_state r \<in> {Planning, Committed})
           in (\<exists>r \<in> set (iterations db). hit r,
               db\<lparr>iterations := update_where hit (\<lambda>r. r\<lparr>it_state := Accepted, it_completedAt := Some now\<rparr>) (iterations db)\<rparr>))"

datatype refusal = Refuse_project | Refuse_team

definition iterationAssignmentRefusal :: "uuid \<Rightarrow> uuid option \<Rightarrow> uuid \<Rightarrow> uuid option \<Rightarrow> refusal option" where
  "iterationAssignmentRefusal scopeProject scopeTeam itemProject itemTeam =
     (if scopeProject \<noteq> itemProject then Some Refuse_project
      else if present scopeTeam \<and> present itemTeam \<and> scopeTeam \<noteq> itemTeam then Some Refuse_team
      else None)"

definition findIterationScope :: "iter_db \<Rightarrow> uuid \<Rightarrow> uuid \<Rightarrow> iteration_row option" where
  "findIterationScope db i ws = find (\<lambda>r. it_id r = i \<and> it_workspace r = ws) (iterations db)"

definition assertIterationAssignable :: "iter_db \<Rightarrow> uuid \<Rightarrow> item_row \<Rightarrow> uuid \<Rightarrow> api_error + unit" where
  "assertIterationAssignable db ws w i =
     (case findIterationScope db i ws of
        None \<Rightarrow> Inl (NotFound ''ITERATION_NOT_FOUND'')
      | Some scope \<Rightarrow>
          (case iterationAssignmentRefusal (it_project scope) (it_team scope) (wi_project w) (wi_team w) of
             Some Refuse_project \<Rightarrow> Inl (PreconditionFailed ''ITERATION_PROJECT_MISMATCH'')
           | Some Refuse_team \<Rightarrow> Inl (PreconditionFailed ''ITERATION_TEAM_MISMATCH'')
           | None \<Rightarrow> Inr ()))"

definition find_item :: "iter_db \<Rightarrow> uuid \<Rightarrow> uuid \<Rightarrow> item_row option" where
  "find_item db i ws = find (\<lambda>w. wi_id w = i \<and> wi_workspace w = ws \<and> \<not> wi_deleted w) (items db)"

definition resolveRowTeam :: "iter_db \<Rightarrow> uuid \<Rightarrow> item_row \<Rightarrow> uuid option" where
  "resolveRowTeam db ws w =
     (if present (wi_team w) then wi_team w
      else if wi_type w \<noteq> Task \<or> \<not> present (wi_parent w) then None
      else (case find_item db (the (wi_parent w)) ws of
              None \<Rightarrow> None
            | Some parent \<Rightarrow>
                if present (wi_team parent) then wi_team parent
                else if \<not> present (wi_iteration parent) then None
                else (case findIterationScope db (the (wi_iteration parent)) ws of None \<Rightarrow> None | Some s \<Rightarrow> it_team s)))"

text \<open>Runs a check over a list, in order; the first refusal is the answer.\<close>

fun check_all :: "('a \<Rightarrow> api_error + unit) \<Rightarrow> 'a list \<Rightarrow> api_error + unit" where
  "check_all f [] = Inr ()"
| "check_all f (x # xs) = bind_sum (f x) (\<lambda>_. check_all f xs)"

definition loadBulkItems ::
  "access_db \<Rightarrow> assignment list \<Rightarrow> iter_db \<Rightarrow> uuid \<Rightarrow> uuid \<Rightarrow> uuid \<Rightarrow> uuid list \<Rightarrow> api_error + item_row list" where
  "loadBulkItems acc eff db ws actor projectId itemIds =
     bind_sum (assertProjectWritable db ws projectId) (\<lambda>_.
     let ids = dedupe_by (\<lambda>x. x) {} itemIds in
     if length ids = 0 then Inl (PreconditionFailed ''WORK_ITEM_EMPTY_SELECTION'')
     else let found = filter (\<lambda>w. wi_id w \<in> set ids \<and> wi_workspace w = ws \<and> \<not> wi_deleted w) (items db) in
       if length found \<noteq> length ids then Inl (NotFound ''WORK_ITEM_NOT_FOUND'')
       else if \<exists>w \<in> set found. wi_project w \<noteq> projectId then Inl (PreconditionFailed ''WORK_ITEM_PARENT_SCOPE_MISMATCH'')
       else bind_sum (check_all (\<lambda>w. assertTeamInScope acc eff ws actor (wi_project w) (resolveRowTeam db ws w)) found) (\<lambda>_.
         Inr found))"

definition lockForManualMove :: "iter_db \<Rightarrow> item_row list \<Rightarrow> api_error + unit" where
  "lockForManualMove db stories =
     check_all (\<lambda>s. case find (\<lambda>w. wi_id w = wi_id s \<and> wi_workspace w = wi_workspace s \<and> \<not> wi_deleted w) (items db) of
         None \<Rightarrow> Inl (PreconditionFailed ''WORK_ITEM_ITERATION_CHANGED'')
       | Some w \<Rightarrow> if wi_iteration w \<noteq> wi_iteration s \<or> wi_team w \<noteq> wi_team s
                   then Inl (PreconditionFailed ''WORK_ITEM_ITERATION_CHANGED'') else Inr ()) stories"

definition recordManualMoves :: "item_row list \<Rightarrow> uuid option \<Rightarrow> iter_db \<Rightarrow> iter_db" where
  "recordManualMoves stories target db =
     db\<lparr>transitions := transitions db @ map (\<lambda>s. \<lparr>tr_story = wi_id s, tr_source = wi_iteration s, tr_target = target\<rparr>) stories,
        activity := activity db @ map (\<lambda>s. \<lparr>lg_entity = wi_id s, lg_action = ''work_item.iteration_moved'',
                                            lg_field = Some ''iterationId''\<rparr>) stories\<rparr>"

definition assignIteration :: "uuid list \<Rightarrow> uuid option \<Rightarrow> uuid \<Rightarrow> iter_db \<Rightarrow> iter_db" where
  "assignIteration ids target ws db =
     db\<lparr>items := update_where (\<lambda>w. wi_id w \<in> set ids \<and> wi_workspace w = ws \<and> \<not> wi_deleted w)
          (\<lambda>w. w\<lparr>wi_iteration := target\<rparr>) (items db)\<rparr>"

text \<open>\<open>others\<close>: what other requests commit between the checks and the transaction.\<close>

definition bulkAssignIteration ::
  "nat \<Rightarrow> access_db \<Rightarrow> assignment list \<Rightarrow> (iter_db \<Rightarrow> iter_db) \<Rightarrow> iter_db \<Rightarrow> uuid \<Rightarrow> uuid \<Rightarrow> uuid \<Rightarrow> uuid list \<Rightarrow> uuid option
    \<Rightarrow> api_error + (nat \<times> iter_db)" where
  "bulkAssignIteration now acc eff others db ws actor projectId itemIds target =
     bind_sum (loadBulkItems acc eff db ws actor projectId itemIds) (\<lambda>found.
     if \<exists>w \<in> set found. wi_type w \<noteq> Story \<and> wi_type w \<noteq> Defect then Inl (PreconditionFailed ''WORK_ITEM_NOT_BACKLOG_TYPE'')
     else bind_sum (if present target then check_all (\<lambda>w. assertIterationAssignable db ws w (the target)) found else Inr ()) (\<lambda>_.
     let affected = dedupe_by (\<lambda>x. x) {} (List.map_filter (\<lambda>x. x) (map wi_iteration found @ [target]));
         moved = filter (\<lambda>w. wi_type w = Story \<and> wi_iteration w \<noteq> target) found;
         db1 = others db
     in bind_sum (lockForManualMove db1 moved) (\<lambda>_.
        let db2 = recordManualMoves moved target (assignIteration (map wi_id found) target ws db1);
            db3 = fold (\<lambda>i d. snd (autoAcceptIterationIfComplete now d i ws)) affected db2
        in Inr (length found, db3))))"

end
