(* ===== verification/StorySplit.thy ===== *)
theory StorySplit
  imports Iterations
begin

text \<open>
  The two ways a story is moved on when a sprint ends, as far as they are decisions over rows in
  memory: the split of \<^verbatim>\<open>work-items/src/application/split-story.ts\<close> (who may be split, which sprints
  may take the rest, the titles, the sides, the day of the chart marker) and the carryover of
  \<^verbatim>\<open>carryover-eligibility.ts\<close> (which sprints and which days the picker offers, and the verdict on a
  target end date). A candidate sprint is a row of the iterations table. Titles are ASCII strings.
\<close>

section \<open>Split\<close>

datatype SplitSide = Unfinished | Continued

datatype SplitIneligibleReason = Not_a_story | Finished_state | Unscheduled | No_target | Not_editable

definition splitIneligibleReason :: "'a item_row_scheme \<Rightarrow> SplitIneligibleReason option" where
  "splitIneligibleReason item =
     (if wi_type item \<noteq> Story then Some Not_a_story
      else if isCompletedScheduleState (wi_schedule item) then Some Finished_state
      else if wi_iteration item = None then Some Unscheduled
      else None)"

definition isLaterThanSource :: "iso_date option \<Rightarrow> iso_date option \<Rightarrow> bool" where
  "isLaterThanSource sourceEnd candidateStart =
     (case (sourceEnd, candidateStart) of (Some e, Some s) \<Rightarrow> s > e | _ \<Rightarrow> False)"

definition compareByWindowThenId :: "iteration_row \<Rightarrow> iteration_row \<Rightarrow> int" where
  "compareByWindowThenId a b =
     (let left = (case it_start a of None \<Rightarrow> [] | Some s \<Rightarrow> s); right = (case it_start b of None \<Rightarrow> [] | Some s \<Rightarrow> s)
      in if left \<noteq> right then (if left < right then -1 else 1)
         else if it_id a < it_id b then -1 else if it_id a > it_id b then 1 else 0)"

definition filterSplitTargets ::
  "uuid \<Rightarrow> iso_date option \<Rightarrow> iteration_row list \<Rightarrow> uuid \<Rightarrow> uuid option \<Rightarrow> iteration_row list" where
  "filterSplitTargets sourceId sourceEnd candidates storyProject storyTeam =
     js_sort compareByWindowThenId
       (filter (\<lambda>c. isLaterThanSource sourceEnd (it_start c))
         (filter (\<lambda>c. iterationAssignmentRefusal (it_project c) (it_team c) storyProject storyTeam = None)
           (filter (\<lambda>c. it_state c \<noteq> Accepted)
             (filter (\<lambda>c. it_id c \<noteq> sourceId) candidates))))"

definition earliestTarget :: "iteration_row list \<Rightarrow> iteration_row option" where
  "earliestTarget targets = (case targets of [] \<Rightarrow> None | t # _ \<Rightarrow> Some t)"

fun SPLIT_TITLE_PREFIX :: "SplitSide \<Rightarrow> string" where
  "SPLIT_TITLE_PREFIX Unfinished = ''[Unfinished] ''"
| "SPLIT_TITLE_PREFIX Continued = ''[Continued] ''"

text \<open>\<^verbatim>\<open>title.replace(/^\[(Continued|Unfinished)\]\s*/i, '')\<close>: the first alternative that matches.\<close>

definition strip_tag :: "string \<Rightarrow> string \<Rightarrow> string option" where
  "strip_tag tag title =
     (if toLowerCase (take (length tag) title) = toLowerCase tag then Some (dropWhile blank (drop (length tag) title)) else None)"

definition stripSplitPrefix :: "string \<Rightarrow> string" where
  "stripSplitPrefix title =
     (case strip_tag ''[Continued]'' title of
        Some rest \<Rightarrow> rest
      | None \<Rightarrow> (case strip_tag ''[Unfinished]'' title of Some rest \<Rightarrow> rest | None \<Rightarrow> title))"

definition defaultSplitTitles :: "string \<Rightarrow> SplitSide \<Rightarrow> string" where
  "defaultSplitTitles title side = (let bare = stripSplitPrefix title in SPLIT_TITLE_PREFIX side @ bare)"

definition defaultTaskSide :: "ScheduleState \<Rightarrow> SplitSide" where
  "defaultTaskSide state = (if isCompletedScheduleState state then Unfinished else Continued)"

definition DEFAULT_RELATED_SIDE :: SplitSide where
  "DEFAULT_RELATED_SIDE = Continued"

definition clampMarkerDate :: "iso_date \<Rightarrow> iso_date option \<Rightarrow> iso_date option \<Rightarrow> iso_date" where
  "clampMarkerDate localDate startDate endDate =
     (if startDate \<noteq> None \<and> localDate < the startDate then the startDate
      else if endDate \<noteq> None \<and> localDate > the endDate then the endDate
      else localDate)"

section \<open>Carryover\<close>

definition CARRYOVER_TARGET_STATES :: "IterationState list" where
  "CARRYOVER_TARGET_STATES = [Planning, Committed]"

definition containsDate :: "iteration_row \<Rightarrow> iso_date \<Rightarrow> bool" where
  "containsDate iteration date =
     (case (it_start iteration, it_end iteration) of
        (Some s, Some e) \<Rightarrow> s \<le> date \<and> date \<le> e
      | _ \<Rightarrow> False)"

definition isSameProject :: "uuid \<Rightarrow> iteration_row \<Rightarrow> bool" where
  "isSameProject storyProject iteration \<longleftrightarrow> storyProject = it_project iteration"

definition isSameTeam :: "uuid option \<Rightarrow> iteration_row \<Rightarrow> bool" where
  "isSameTeam storyTeam iteration \<longleftrightarrow> storyTeam = it_team iteration"

definition isOpenState :: "iteration_row \<Rightarrow> bool" where
  "isOpenState iteration \<longleftrightarrow> it_state iteration \<in> set CARRYOVER_TARGET_STATES"

definition isCurrentOrLater :: "iteration_row \<Rightarrow> iteration_row \<Rightarrow> bool" where
  "isCurrentOrLater iteration current =
     (if it_start iteration = None \<or> it_end iteration = None then False
      else if it_id iteration = it_id current then True
      else if it_start current = None then False
      else the (it_start iteration) > the (it_start current))"

definition isEligibleIteration :: "uuid \<Rightarrow> uuid option \<Rightarrow> iteration_row \<Rightarrow> iteration_row \<Rightarrow> bool" where
  "isEligibleIteration storyProject storyTeam iteration current \<longleftrightarrow>
     isSameProject storyProject iteration \<and> isSameTeam storyTeam iteration \<and> isOpenState iteration \<and>
     isCurrentOrLater iteration current"

definition compareIterations :: "iteration_row \<Rightarrow> iteration_row \<Rightarrow> int" where
  "compareIterations a b =
     (let left = (case it_start a of None \<Rightarrow> [] | Some s \<Rightarrow> s); right = (case it_start b of None \<Rightarrow> [] | Some s \<Rightarrow> s)
      in if left \<noteq> right then (if left < right then -1 else 1)
         else if it_name a \<noteq> it_name b then (if it_name a < it_name b then -1 else 1)
         else if it_id a < it_id b then -1 else if it_id a > it_id b then 1 else 0)"

definition eligibleIterations :: "uuid \<Rightarrow> uuid option \<Rightarrow> iteration_row list \<Rightarrow> iteration_row \<Rightarrow> iteration_row list" where
  "eligibleIterations storyProject storyTeam candidates current =
     js_sort compareIterations (filter (\<lambda>i. isEligibleIteration storyProject storyTeam i current) candidates)"

definition minDate :: "iso_date option \<Rightarrow> iteration_row list \<Rightarrow> iso_date option" where
  "minDate storyStart eligible =
     (case find (\<lambda>i. it_start i \<noteq> None) eligible of
        None \<Rightarrow> None
      | Some firstDated \<Rightarrow> if storyStart \<noteq> None then storyStart else it_start firstDated)"

definition isAfterCurrent :: "iso_date \<Rightarrow> iteration_row \<Rightarrow> bool" where
  "isAfterCurrent date current \<longleftrightarrow> it_end current \<noteq> None \<and> date > the (it_end current)"

definition isEnabledDate :: "iso_date \<Rightarrow> iso_date option \<Rightarrow> iteration_row \<Rightarrow> iteration_row list \<Rightarrow> bool" where
  "isEnabledDate date storyStart current eligible =
     (case minDate storyStart eligible of
        None \<Rightarrow> False
      | Some low \<Rightarrow>
          if date < low then False
          else if \<not> (\<exists>i \<in> set eligible. it_id i = it_id current) \<and> \<not> isAfterCurrent date current then False
          else (\<exists>i \<in> set eligible. containsDate i date))"

definition resolveTargets :: "iso_date \<Rightarrow> iteration_row \<Rightarrow> iteration_row list \<Rightarrow> iteration_row list" where
  "resolveTargets date current eligible =
     (if \<not> isAfterCurrent date current then [] else filter (\<lambda>i. containsDate i date) eligible)"

datatype TargetEndVerdict = Verdict_invalid | Requires_carryover | Verdict_save

definition targetEndVerdict :: "iso_date \<Rightarrow> iso_date option \<Rightarrow> iteration_row \<Rightarrow> iteration_row list \<Rightarrow> TargetEndVerdict" where
  "targetEndVerdict date storyStart current eligible =
     (if \<not> isEnabledDate date storyStart current eligible then Verdict_invalid
      else if isAfterCurrent date current then Requires_carryover
      else Verdict_save)"

section \<open>The two listings are ordered\<close>

lemma string_cmp_flip:
  "((if (a :: 'a :: linorder) \<noteq> b then if a < b then -1 else 1 else k) :: int) =
     (if a < b then -1 else if b < a then 1 else k)"
  by auto

interpretation by_window: js_keyed_order compareByWindowThenId it_id
proof
  show "compareByWindowThenId x y < 0 \<longleftrightarrow> 0 < compareByWindowThenId y x" for x y
    by (auto simp: compareByWindowThenId_def Let_def)
  show "compareByWindowThenId x y \<le> 0 \<Longrightarrow> compareByWindowThenId y z \<le> 0 \<Longrightarrow> compareByWindowThenId x z \<le> 0" for x y z
    by (auto simp: compareByWindowThenId_def Let_def split: if_splits)
  show "compareByWindowThenId x y = 0 \<Longrightarrow> it_id x = it_id y" for x y
    by (auto simp: compareByWindowThenId_def Let_def split: if_splits)
qed

interpretation by_iteration: js_keyed_order compareIterations it_id
proof
  show "compareIterations x y < 0 \<longleftrightarrow> 0 < compareIterations y x" for x y
    by (auto simp: compareIterations_def Let_def)
  show "compareIterations x y \<le> 0 \<Longrightarrow> compareIterations y z \<le> 0 \<Longrightarrow> compareIterations x z \<le> 0" for x y z
    by (auto simp: compareIterations_def Let_def split: if_splits)
  show "compareIterations x y = 0 \<Longrightarrow> it_id x = it_id y" for x y
    by (auto simp: compareIterations_def Let_def split: if_splits)
qed

section \<open>What the split picker offers\<close>

lemma set_filterSplitTargets:
  "c \<in> set (filterSplitTargets src srcEnd cands pr tm) \<longleftrightarrow>
     c \<in> set cands \<and> it_id c \<noteq> src \<and> it_state c \<noteq> Accepted \<and>
     iterationAssignmentRefusal (it_project c) (it_team c) pr tm = None \<and> isLaterThanSource srcEnd (it_start c)"
  by (auto simp: filterSplitTargets_def)

lemma later_start: "isLaterThanSource e s \<longleftrightarrow> (\<exists>e' s'. e = Some e' \<and> s = Some s' \<and> e' < s')"
  by (auto simp: isLaterThanSource_def split: option.splits)

lemma refusal_none:
  "iterationAssignmentRefusal pr tm pr' tm' = None \<longleftrightarrow> pr = pr' \<and> \<not> (present tm \<and> present tm' \<and> tm \<noteq> tm')"
  by (auto simp: iterationAssignmentRefusal_def)

text \<open>The split picker offers exactly the open sprints of the story's project and team (or of no team)
  that start after the source sprint ends, without the source, ordered by start; the default is the
  first of them to start. The listing does not depend on the order the rows arrive in.\<close>

theorem split_targets_offered:
  fixes src :: uuid and srcEnd :: "iso_date option" and pr :: uuid and tm :: "uuid option"
  assumes "distinct (map it_id cands)"
  defines "offered \<equiv> filterSplitTargets src srcEnd cands pr tm"
  shows "set offered = {c \<in> set cands. it_id c \<noteq> src \<and> it_state c \<noteq> Accepted \<and> it_project c = pr \<and>
       (present (it_team c) \<and> present tm \<longrightarrow> it_team c = tm) \<and>
       (\<exists>e s. srcEnd = Some e \<and> it_start c = Some s \<and> e < s)} \<and>
    sorted_wrt (\<lambda>a b. the (it_start a) \<le> the (it_start b)) offered \<and>
    (earliestTarget offered = None \<longleftrightarrow> offered = []) \<and>
    (\<forall>t. earliestTarget offered = Some t \<longrightarrow> t \<in> set offered \<and> (\<forall>c \<in> set offered. the (it_start t) \<le> the (it_start c))) \<and>
    (\<forall>cands'. mset cands' = mset cands \<longrightarrow> filterSplitTargets src srcEnd cands' pr tm = offered)"
proof -
  have mem: "set offered = {c \<in> set cands. it_id c \<noteq> src \<and> it_state c \<noteq> Accepted \<and> it_project c = pr \<and>
       (present (it_team c) \<and> present tm \<longrightarrow> it_team c = tm) \<and>
       (\<exists>e s. srcEnd = Some e \<and> it_start c = Some s \<and> e < s)}"
    unfolding offered_def by (auto simp: set_filterSplitTargets refusal_none later_start)
  have le: "the (it_start a) \<le> the (it_start b)"
    if "compareByWindowThenId a b \<le> 0" "it_start a \<noteq> None" "it_start b \<noteq> None" for a b
    using that by (auto simp: compareByWindowThenId_def Let_def split: if_splits)
  have dated: "it_start c \<noteq> None" if "c \<in> set offered" for c using that mem by auto
  have "sorted_wrt (\<lambda>a b. compareByWindowThenId a b \<le> 0) offered"
    unfolding offered_def filterSplitTargets_def by (rule by_window.sorted_js_sort)
  then have sorted: "sorted_wrt (\<lambda>a b. the (it_start a) \<le> the (it_start b)) offered"
    by (rule sorted_wrt_mono_rel [rotated]) (use le dated in blast)
  have early: "t \<in> set offered \<and> (\<forall>c \<in> set offered. the (it_start t) \<le> the (it_start c))"
    if "earliestTarget offered = Some t" for t
    using that sorted by (cases offered) (auto simp: earliestTarget_def)
  have "filterSplitTargets src srcEnd cands' pr tm = offered" if "mset cands' = mset cands" for cands'
    unfolding offered_def filterSplitTargets_def
    by (rule by_window.js_sort_perm) (use that assms(1) distinct_map_mset [OF that, of it_id] in
      \<open>auto simp: distinct_map_filter\<close>)
  with mem sorted early show ?thesis by (auto simp: earliestTarget_def split: list.splits)
qed

section \<open>Titles\<close>

lemma strip_prefixed:
  "stripSplitPrefix (SPLIT_TITLE_PREFIX side @ bare) = dropWhile blank bare"
  by (cases side) (simp_all add: stripSplitPrefix_def strip_tag_def toLowerCase_def lower_char_def blank_def)

lemma strip_tag_blank: "strip_tag tag t = Some r \<Longrightarrow> dropWhile blank r = r"
  by (auto simp: strip_tag_def split: if_splits)

text \<open>Splitting what a split has titled does not pile up tags: the default titles are the bare title
  behind one tag, taking the tag off gives the bare title back (without leading blanks), and the
  titles proposed for a story that already carries a tag are the titles of the first split.\<close>

theorem split_titles_round_trip:
  "stripSplitPrefix (defaultSplitTitles title side) = dropWhile blank (stripSplitPrefix title) \<and>
   defaultSplitTitles (defaultSplitTitles title side) side' =
     SPLIT_TITLE_PREFIX side' @ dropWhile blank (stripSplitPrefix title) \<and>
   defaultSplitTitles (defaultSplitTitles (defaultSplitTitles title side) side') side'' =
     defaultSplitTitles (defaultSplitTitles title side) side''"
  by (simp add: defaultSplitTitles_def strip_prefixed)

section \<open>What the carryover picker offers and what the write does\<close>

lemma eligible_dated: "isEligibleIteration pr tm i cur \<Longrightarrow> \<exists>s e. it_start i = Some s \<and> it_end i = Some e"
  by (auto simp: isEligibleIteration_def isCurrentOrLater_def split: if_splits)

lemma set_eligibleIterations:
  "i \<in> set (eligibleIterations pr tm cands cur) \<longleftrightarrow> i \<in> set cands \<and> isEligibleIteration pr tm i cur"
  by (simp add: eligibleIterations_def)

lemma minDate_none: "minDate storyStart (eligibleIterations pr tm cands cur) = None \<longleftrightarrow> eligibleIterations pr tm cands cur = []"
proof -
  have "it_start i \<noteq> None" if "i \<in> set (eligibleIterations pr tm cands cur)" for i
    using that eligible_dated by (fastforce simp: set_eligibleIterations)
  then show ?thesis
    by (cases "eligibleIterations pr tm cands cur") (auto simp: minDate_def)
qed

text \<open>The earliest selectable date without a start date of the story is at most every start.\<close>

lemma minDate_least:
  assumes "minDate storyStart (eligibleIterations pr tm cands cur) = Some low"
  shows "storyStart = Some low \<or> storyStart = None \<and> (\<forall>i \<in> set (eligibleIterations pr tm cands cur). low \<le> the (it_start i))"
proof (cases "eligibleIterations pr tm cands cur")
  case Nil
  with assms show ?thesis by (simp add: minDate_def)
next
  case (Cons i rest)
  have dated: "it_start j \<noteq> None" if "j \<in> set (eligibleIterations pr tm cands cur)" for j
    using that eligible_dated by (fastforce simp: set_eligibleIterations)
  have "sorted_wrt (\<lambda>a b. compareIterations a b \<le> 0) (eligibleIterations pr tm cands cur)"
    unfolding eligibleIterations_def by (rule by_iteration.sorted_js_sort)
  with Cons have "\<forall>j \<in> set (i # rest). compareIterations i j \<le> 0" using by_iteration.cmp_refl [of i] by simp
  moreover have "the (it_start a) \<le> the (it_start b)"
    if "compareIterations a b \<le> 0" "it_start a \<noteq> None" "it_start b \<noteq> None" for a b
    using that by (auto simp: compareIterations_def Let_def split: if_splits)
  ultimately have "\<forall>j \<in> set (i # rest). the (it_start i) \<le> the (it_start j)"
    using dated Cons by (metis list.set_intros(1))
  with assms Cons dated [of i] show ?thesis by (auto simp: minDate_def split: if_splits)
qed

lemma eligible_after_current:
  assumes "distinct (map it_id cands)" "cur \<in> set cands" "i \<in> set cands" "isEligibleIteration pr tm i cur"
  shows "i = cur \<or> the (it_start cur) < the (it_start i)"
  using assms inj_on_eq_iff [OF distinct_map [THEN iffD1, THEN conjunct2, OF assms(1)], of i cur]
  by (auto simp: isEligibleIteration_def isCurrentOrLater_def split: if_splits)

lemma enabled_date:
  fixes pr :: uuid and tm :: "uuid option"
  assumes "distinct (map it_id cands)" "cur \<in> set cands"
  defines "eligible \<equiv> eligibleIterations pr tm cands cur"
  shows "isEnabledDate d st cur eligible \<longleftrightarrow>
    (\<forall>s. st = Some s \<longrightarrow> s \<le> d) \<and> (cur \<in> set eligible \<or> isAfterCurrent d cur) \<and> (\<exists>i \<in> set eligible. containsDate i d)"
proof -
  have cur: "(\<exists>i \<in> set eligible. it_id i = it_id cur) \<longleftrightarrow> cur \<in> set eligible"
    using assms(2) inj_on_eq_iff [OF distinct_map [THEN iffD1, THEN conjunct2, OF assms(1)], of _ cur]
    by (auto simp: eligible_def set_eligibleIterations)
  show ?thesis
  proof (cases "minDate st eligible")
    case None
    then have "eligible = []" using minDate_none by (simp add: eligible_def)
    with None show ?thesis by (simp add: isEnabledDate_def)
  next
    case (Some low)
    have "\<not> d < low \<longleftrightarrow> (\<forall>s. st = Some s \<longrightarrow> s \<le> d)" if "i \<in> set eligible" "containsDate i d" for i
      using minDate_least [of st pr tm cands cur low] Some that
      by (fastforce simp: eligible_def containsDate_def split: option.splits)
    with Some cur show ?thesis by (auto simp: isEnabledDate_def)
  qed
qed

text \<open>The carryover picker and the write agree. On the sprints of the story's project a target end
  date is saved in place exactly when it lies in the current sprint, that sprint is open for the
  story, and the story had started; it asks for a carryover exactly when the picker has a sprint to
  offer for it (from the story's start on), and then every offered sprint is another, open sprint of
  the same project and team that contains the date and starts after the current one.\<close>

theorem carryover_verdict:
  fixes pr :: uuid and tm :: "uuid option"
  assumes "distinct (map it_id cands)" and "cur \<in> set cands"
  defines "eligible \<equiv> eligibleIterations pr tm cands cur"
  defines "started \<equiv> \<lambda>d st. \<forall>s :: iso_date. st = Some s \<longrightarrow> s \<le> d"
  shows "(targetEndVerdict d st cur eligible = Verdict_save \<longleftrightarrow>
        started d st \<and> containsDate cur d \<and> isEligibleIteration pr tm cur cur) \<and>
    (targetEndVerdict d st cur eligible = Requires_carryover \<longleftrightarrow>
        started d st \<and> resolveTargets d cur eligible \<noteq> []) \<and>
    (\<forall>t \<in> set (resolveTargets d cur eligible). it_id t \<noteq> it_id cur \<and> t \<in> set cands \<and> it_project t = pr \<and>
        it_team t = tm \<and> it_state t \<noteq> Accepted \<and> containsDate t d \<and> the (it_start cur) < the (it_start t))"
proof -
  note enabled = enabled_date [OF assms(1,2), of d st pr tm, folded eligible_def]
  have inside: "containsDate i d \<Longrightarrow> the (it_start i) \<le> d \<and> d \<le> the (it_end i)" for i
    by (auto simp: containsDate_def split: option.splits)
  have curs: "cur \<in> set eligible \<longleftrightarrow> isEligibleIteration pr tm cur cur"
    using assms(2) by (simp add: eligible_def set_eligibleIterations)
  have in_cur: "containsDate cur d" if "\<not> isAfterCurrent d cur" "cur \<in> set eligible" "i \<in> set eligible" "containsDate i d" for i
  proof -
    have "i = cur \<or> the (it_start cur) < the (it_start i)"
      using eligible_after_current [OF assms(1,2), of i pr tm] that(3) by (simp add: eligible_def set_eligibleIterations)
    moreover have "\<exists>s e. it_start cur = Some s \<and> it_end cur = Some e"
      using that(2) eligible_dated curs by blast
    ultimately show ?thesis
      using that(1) that(4) inside [OF that(4)] by (auto simp: containsDate_def isAfterCurrent_def)
  qed
  have save: "targetEndVerdict d st cur eligible = Verdict_save \<longleftrightarrow>
      started d st \<and> containsDate cur d \<and> isEligibleIteration pr tm cur cur"
    using in_cur enabled curs inside [of cur]
    by (auto simp: targetEndVerdict_def started_def isAfterCurrent_def)
  have carry: "targetEndVerdict d st cur eligible = Requires_carryover \<longleftrightarrow> started d st \<and> resolveTargets d cur eligible \<noteq> []"
    using enabled by (auto simp: targetEndVerdict_def started_def resolveTargets_def filter_empty_conv)
  have "it_id t \<noteq> it_id cur \<and> t \<in> set cands \<and> it_project t = pr \<and> it_team t = tm \<and> it_state t \<noteq> Accepted \<and>
      containsDate t d \<and> the (it_start cur) < the (it_start t)" if t: "t \<in> set (resolveTargets d cur eligible)" for t
  proof -
    have "isAfterCurrent d cur" "containsDate t d" and el: "t \<in> set cands" "isEligibleIteration pr tm t cur"
      using t by (auto simp: resolveTargets_def eligible_def set_eligibleIterations split: if_splits)
    then have "t \<noteq> cur" using inside [of cur] by (auto simp: isAfterCurrent_def)
    then have "it_id t \<noteq> it_id cur" "the (it_start cur) < the (it_start t)"
      using eligible_after_current [OF assms(1,2) el] assms(1,2) el(1) by (auto simp: distinct_map dest: inj_onD)
    with el \<open>containsDate t d\<close> show ?thesis
      by (auto simp: isEligibleIteration_def isSameProject_def isSameTeam_def isOpenState_def CARRYOVER_TARGET_STATES_def)
  qed
  with save carry show ?thesis by blast
qed

section \<open>Concrete sprints\<close>

definition ex_sprint :: "uuid \<Rightarrow> IterationState \<Rightarrow> iso_date \<Rightarrow> iso_date \<Rightarrow> iteration_row" where
  "ex_sprint i s a b = \<lparr>it_id = i, it_workspace = ''w'', it_project = ''p'', it_team = None, it_key = ''IT-'' @ i, it_name = ''Sprint '' @ i,
     it_goal = None, it_theme = None, it_notes = None, it_state = s, it_velocity = None, it_start = Some a, it_end = Some b,
     it_completedAt = None, it_group = None\<rparr>"

definition ex_sprints :: "iteration_row list" where
  "ex_sprints = [ex_sprint ''3'' Planning ''2026-03-30'' ''2026-04-10'', ex_sprint ''1'' Committed ''2026-03-02'' ''2026-03-13'',
     ex_sprint ''2'' Planning ''2026-03-16'' ''2026-03-27'']"

theorem split_targets_offered_witness:
  "map it_id (filterSplitTargets ''1'' (Some ''2026-03-13'') ex_sprints ''p'' (Some ''t'')) = [''2'', ''3''] \<and>
   ex_sprint ''2'' Planning ''2026-03-16'' ''2026-03-27'' \<in> set (filterSplitTargets ''1'' (Some ''2026-03-13'') ex_sprints ''p'' (Some ''t''))"
proof -
  have "distinct (map it_id ex_sprints)" unfolding ex_sprints_def by (simp add: ex_sprint_def)
  note split_targets_offered [OF \<open>distinct (map it_id ex_sprints)\<close>, of "''1''" "Some ''2026-03-13''" "''p''" "Some ''t''", THEN conjunct1]
  from this have "ex_sprint ''2'' Planning ''2026-03-16'' ''2026-03-27'' \<in> set (filterSplitTargets ''1'' (Some ''2026-03-13'') ex_sprints ''p'' (Some ''t''))"
    by (simp add: ex_sprints_def ex_sprint_def present_def)
  moreover have "map it_id (filterSplitTargets ''1'' (Some ''2026-03-13'') ex_sprints ''p'' (Some ''t'')) = [''2'', ''3'']"
    unfolding ex_sprints_def by code_simp
  ultimately show ?thesis by blast
qed

theorem carryover_verdict_witness:
  "targetEndVerdict ''2026-03-20'' None (ex_sprint ''1'' Committed ''2026-03-02'' ''2026-03-13'')
     (eligibleIterations ''p'' None ex_sprints (ex_sprint ''1'' Committed ''2026-03-02'' ''2026-03-13'')) = Requires_carryover \<and>
   targetEndVerdict ''2026-03-10'' None (ex_sprint ''1'' Committed ''2026-03-02'' ''2026-03-13'')
     (eligibleIterations ''p'' None ex_sprints (ex_sprint ''1'' Committed ''2026-03-02'' ''2026-03-13'')) = Verdict_save"
proof -
  have "distinct (map it_id ex_sprints)" "ex_sprint ''1'' Committed ''2026-03-02'' ''2026-03-13'' \<in> set ex_sprints"
    unfolding ex_sprints_def by (simp_all add: ex_sprint_def)
  note this_law = carryover_verdict [OF this, of _ None "''p''" None]
  have "isEligibleIteration ''p'' None (ex_sprint ''1'' Committed ''2026-03-02'' ''2026-03-13'') (ex_sprint ''1'' Committed ''2026-03-02'' ''2026-03-13'')"
    "containsDate (ex_sprint ''1'' Committed ''2026-03-02'' ''2026-03-13'') ''2026-03-10''"
    "resolveTargets ''2026-03-20'' (ex_sprint ''1'' Committed ''2026-03-02'' ''2026-03-13'')
       (eligibleIterations ''p'' None ex_sprints (ex_sprint ''1'' Committed ''2026-03-02'' ''2026-03-13'')) \<noteq> []"
    unfolding ex_sprints_def by code_simp+
  with this_law show ?thesis by simp
qed

end
