(* ===== verification/LexoRank.thy ===== *)
theory LexoRank
  imports Prelude
begin

text \<open>
  The rank strings of \<^verbatim>\<open>libs/platform/src/utils/lexorank.util.ts\<close>. \<open>walk\<close> is the loop of
  \<^verbatim>\<open>between\<close> with its position \<^verbatim>\<open>i\<close> and accumulated \<^verbatim>\<open>result\<close>; it is shown equal to
  \<open>gap\<close>, a recursion on the two strings without position or accumulator, on which the
  ordering lemmas are proved. A throw is \<open>Inl\<close>; a \<^verbatim>\<open>null\<close> neighbour is \<open>None\<close>.
\<close>

section \<open>The alphabet\<close>

datatype rank_error =
    Invalid_Character char
  | Neighbours_Out_Of_Order string string

definition ALPHABET :: string where
  "ALPHABET = ''0123456789abcdefghijklmnopqrstuvwxyz''"

definition BASE :: nat where
  "BASE = length ALPHABET"

definition RANK_REBALANCE_THRESHOLD :: nat where
  "RANK_REBALANCE_THRESHOLD = 48"

definition digit :: "char \<Rightarrow> rank_error + nat" where
  "digit c = (case find_index (\<lambda>d. d = c) ALPHABET of
     None \<Rightarrow> Inl (Invalid_Character c)
   | Some v \<Rightarrow> Inr v)"

definition digit_at :: "string \<Rightarrow> nat \<Rightarrow> nat \<Rightarrow> rank_error + nat" where
  "digit_at s i past_end = (if i < length s then digit (s ! i) else Inr past_end)"

lemma BASE_36: "BASE = 36"
  by (simp add: BASE_def ALPHABET_def)

lemma length_ALPHABET [simp]: "length ALPHABET = 36"
  by (simp add: ALPHABET_def)

lemma ALPHABET_increasing: "sorted_wrt (<) ALPHABET"
  unfolding ALPHABET_def by code_simp

lemma ALPHABET_less: "u < v \<Longrightarrow> v < 36 \<Longrightarrow> ALPHABET ! u < ALPHABET ! v"
  using ALPHABET_increasing by (simp add: sorted_wrt_iff_nth_less)

lemma ALPHABET_0: "ALPHABET ! 0 = CHR ''0''"
  by (simp add: ALPHABET_def)

lemma ALPHABET_18: "ALPHABET ! 18 = CHR ''i''"
  by (simp add: ALPHABET_def)

lemma ALPHABET_not_zero: "0 < v \<Longrightarrow> v < 36 \<Longrightarrow> ALPHABET ! v \<noteq> CHR ''0''"
  using ALPHABET_less [of 0 v] ALPHABET_0 by force

lemma ALPHABET_inject: "u < 36 \<Longrightarrow> v < 36 \<Longrightarrow> ALPHABET ! u = ALPHABET ! v \<Longrightarrow> u = v"
  using ALPHABET_less [of u v] ALPHABET_less [of v u] by (cases u v rule: linorder_cases) auto

lemma digit_nth: "v < 36 \<Longrightarrow> digit (ALPHABET ! v) = Inr v"
proof -
  assume v: "v < 36"
  then have "find_index (\<lambda>d. d = ALPHABET ! v) ALPHABET = Some v"
    unfolding find_index_Some using ALPHABET_less [of _ v] by (simp add: order_less_imp_not_eq)
  then show ?thesis by (simp add: digit_def)
qed

lemma digit_Inr: "digit c = Inr v \<longleftrightarrow> v < 36 \<and> c = ALPHABET ! v"
proof
  assume "digit c = Inr v"
  then have "find_index (\<lambda>d. d = c) ALPHABET = Some v"
    by (simp add: digit_def split: option.splits)
  then show "v < 36 \<and> c = ALPHABET ! v" by (auto simp: find_index_Some)
qed (simp add: digit_nth)

lemma digit_Inl: "digit c = Inl e \<longleftrightarrow> c \<notin> set ALPHABET \<and> e = Invalid_Character c"
proof (cases "find_index (\<lambda>d. d = c) ALPHABET")
  case None
  then have "c \<notin> set ALPHABET" by (auto simp: find_index_None)
  with None show ?thesis by (auto simp: digit_def)
next
  case (Some v)
  then have "v < 36" "c = ALPHABET ! v" by (auto simp: find_index_Some)
  then have "c \<in> set ALPHABET" by simp
  with Some show ?thesis by (simp add: digit_def)
qed

lemma digit_ok: "c \<in> set ALPHABET \<Longrightarrow> \<exists>v. digit c = Inr v"
  by (metis digit_Inl sum.exhaust)

section \<open>The search for a rank\<close>

function walk :: "string \<Rightarrow> string \<Rightarrow> string \<Rightarrow> nat \<Rightarrow> rank_error + string" where
  "walk a b result i =
     (case digit_at a i 0 of
        Inl e \<Rightarrow> Inl e
      | Inr lo \<Rightarrow>
          (case digit_at b i BASE of
             Inl e \<Rightarrow> Inl e
           | Inr hi \<Rightarrow>
               if lo = hi then walk a b (result @ [ALPHABET ! lo]) (Suc i)
               else
                 let mid = (lo + hi) div 2 in
                 if mid > lo then Inr (result @ [ALPHABET ! mid])
                 else if Suc i \<ge> length a
                   then Inr (result @ [ALPHABET ! lo] @ [ALPHABET ! (BASE div 2)])
                 else walk a b (result @ [ALPHABET ! lo]) (Suc i)))"
  by pat_completeness auto
termination
proof (relation "measure (\<lambda>(a, b, result, i). max (length a) (length b) - i)", goal_cases)
  case 1
  then show ?case by simp
next
  case (2 a b result i lo hi)
  then have "i < length a \<or> i < length b"
    by (auto simp: digit_at_def BASE_36 split: if_splits)
  then show ?case by auto
next
  case (3 a b result i lo hi mid)
  then show ?case by auto
qed

declare walk.simps [simp del]

definition between :: "string option \<Rightarrow> string option \<Rightarrow> rank_error + string" where
  "between low high =
     (case (low, high) of
        (Some l, Some h) \<Rightarrow>
          if l \<ge> h then Inl (Neighbours_Out_Of_Order l h) else walk l h [] 0
      | _ \<Rightarrow> walk (case low of None \<Rightarrow> [] | Some l \<Rightarrow> l)
               (case high of None \<Rightarrow> [] | Some h \<Rightarrow> h) [] 0)"

definition initialRank :: string where
  "initialRank = [ALPHABET ! (BASE div 2)]"

definition rankNeedsRebalance :: "string \<Rightarrow> bool" where
  "rankNeedsRebalance rank \<longleftrightarrow> length rank > RANK_REBALANCE_THRESHOLD"

fun evenly_from :: "nat \<Rightarrow> string option \<Rightarrow> rank_error + string list" where
  "evenly_from 0 prev = Inr []"
| "evenly_from (Suc n) prev =
     bind_sum (between prev None) (\<lambda>r. bind_sum (evenly_from n (Some r)) (\<lambda>rs. Inr (r # rs)))"

definition evenlySpacedRanks :: "int \<Rightarrow> rank_error + string list" where
  "evenlySpacedRanks n = (if n \<le> 0 then Inr [] else evenly_from (nat n) None)"

section \<open>The same search on the strings themselves\<close>

definition val :: "char \<Rightarrow> nat" where
  "val c = (case digit c of Inl _ \<Rightarrow> 0 | Inr v \<Rightarrow> v)"

definition head_val :: "nat \<Rightarrow> string \<Rightarrow> nat" where
  "head_val past_end s = (case s of [] \<Rightarrow> past_end | c # _ \<Rightarrow> val c)"

function gap :: "string \<Rightarrow> string \<Rightarrow> string" where
  "gap a b =
     (let lo = head_val 0 a; hi = head_val 36 b in
      if lo = hi \<and> (a \<noteq> [] \<or> b \<noteq> []) then ALPHABET ! lo # gap (tl a) (tl b)
      else if (lo + hi) div 2 > lo then [ALPHABET ! ((lo + hi) div 2)]
      else if length a \<le> 1 then [ALPHABET ! lo, CHR ''i'']
      else ALPHABET ! lo # gap (tl a) (tl b))"
  by pat_completeness auto
termination
proof (relation "measure (\<lambda>(a, b). length a + length b)", goal_cases)
  case (2 a b lo hi)
  then show ?case by (cases a; cases b) auto
next
  case (3 a b lo hi)
  then show ?case by (cases a; cases b) auto
qed simp

declare gap.simps [simp del]

abbreviation rank_chars :: "string \<Rightarrow> bool" where
  "rank_chars s \<equiv> set s \<subseteq> set ALPHABET"

lemma val_ok: "c \<in> set ALPHABET \<Longrightarrow> digit c = Inr (val c) \<and> val c < 36 \<and> ALPHABET ! val c = c"
proof -
  assume "c \<in> set ALPHABET"
  then obtain v where "digit c = Inr v" using digit_ok by blast
  then show ?thesis using digit_Inr [of c v] by (simp add: val_def)
qed

lemma val_less:
  assumes "c \<in> set ALPHABET" "d \<in> set ALPHABET"
  shows "val c < val d \<longleftrightarrow> c < d"
proof -
  have less: "x < y" if "x \<in> set ALPHABET" "y \<in> set ALPHABET" "val x < val y" for x y
    using that ALPHABET_less [of "val x" "val y"] val_ok by simp
  have "c = d" if "val c = val d"
    using that val_ok [OF assms(1)] val_ok [OF assms(2)] by metis
  with less [OF assms] less [OF assms(2,1)] show ?thesis
    by (cases "val c" "val d" rule: linorder_cases) auto
qed

lemma val_eq: "c \<in> set ALPHABET \<Longrightarrow> d \<in> set ALPHABET \<Longrightarrow> val c = val d \<longleftrightarrow> c = d"
  using val_ok by metis

lemma val_0: "c \<in> set ALPHABET \<Longrightarrow> val c = 0 \<longleftrightarrow> c = CHR ''0''"
  using val_ok [of c] ALPHABET_0 digit_nth [of 0] by (auto simp: val_def)

lemma digit_at_head_val:
  assumes "rank_chars s"
  shows "digit_at s i n = Inr (head_val n (drop i s))"
proof (cases "i < length s")
  case True
  then have "drop i s = s ! i # drop (Suc i) s" by (simp add: Cons_nth_drop_Suc)
  moreover have "s ! i \<in> set ALPHABET" using assms True by auto
  ultimately show ?thesis using True val_ok [of "s ! i"] by (simp add: digit_at_def head_val_def)
qed (simp add: digit_at_def head_val_def)

lemma head_val_less: "rank_chars s \<Longrightarrow> s \<noteq> [] \<Longrightarrow> head_val n s < 36"
  by (auto simp: head_val_def val_ok split: list.splits)

theorem walk_gap:
  assumes "rank_chars a" "rank_chars b"
  shows "walk a b result i = Inr (result @ gap (drop i a) (drop i b))"
  using assms
proof (induction a b result i rule: walk.induct)
  case (1 a b result i)
  let ?lo = "head_val 0 (drop i a)" and ?hi = "head_val 36 (drop i b)"
  have lo: "digit_at a i 0 = Inr ?lo" and hi: "digit_at b i BASE = Inr ?hi"
    using 1(3,4) by (simp_all add: digit_at_head_val BASE_36)
  have tl: "tl (drop i a) = drop (Suc i) a" "tl (drop i b) = drop (Suc i) b"
    by (simp_all add: tl_drop drop_Suc)
  have hi36: "digit_at b i 36 = Inr ?hi" using hi by (simp add: BASE_36)
  have eqn: "?lo \<noteq> ?hi \<or> drop i a \<noteq> [] \<or> drop i b \<noteq> []"
    by (auto simp: head_val_def)
  show ?case
  proof (cases "?lo = ?hi")
    case True
    with eqn have "gap (drop i a) (drop i b) = ALPHABET ! ?hi # gap (drop (Suc i) a) (drop (Suc i) b)"
      by (subst gap.simps) (simp add: Let_def tl)
    with True 1(1) [OF lo hi True 1(3,4)] show ?thesis
      by (subst walk.simps) (simp add: lo hi36 BASE_36)
  next
    case False
    show ?thesis
    proof (cases "(?lo + ?hi) div 2 > ?lo \<or> Suc i \<ge> length a")
      case True
      with False show ?thesis
        by (subst walk.simps, subst gap.simps) (auto simp: lo hi36 Let_def BASE_36 ALPHABET_18)
    next
      case stay: False
      with False 1(2) [OF lo hi False refl _ _ 1(3,4)] show ?thesis
        by (subst walk.simps, subst gap.simps) (auto simp: lo hi36 BASE_36 Let_def tl)
    qed
  qed
qed

section \<open>Ranks that leave room below them\<close>

text \<open>
  A rank ending in the least digit has ranks below it that no search can reach: nothing
  lies between \<open>r\<close> and \<open>r @ ''0''\<close>. The ranks in use never end so.
\<close>

definition good_rank :: "string \<Rightarrow> bool" where
  "good_rank r \<longleftrightarrow> r \<noteq> [] \<and> rank_chars r \<and> last r \<noteq> CHR ''0''"

lemma nth_ALPHABET [simp]: "v < 36 \<Longrightarrow> ALPHABET ! v \<in> set ALPHABET"
  by simp

lemma head_val_le: "rank_chars s \<Longrightarrow> head_val 36 s \<le> 36"
  by (cases "s = []") (auto simp: head_val_def dest: head_val_less [of s 36])

lemma head_val_lo: "rank_chars s \<Longrightarrow> head_val 0 s < 36"
  by (cases "s = []") (auto simp: head_val_def dest: head_val_less [of s 0])

lemma ALPHABET_head_val: "rank_chars s \<Longrightarrow> s \<noteq> [] \<Longrightarrow> ALPHABET ! head_val n s = hd s"
  by (cases s) (auto simp: head_val_def val_ok)

lemma rank_chars_tl: "rank_chars s \<Longrightarrow> rank_chars (tl s)"
  by (cases s) auto

text \<open>
  The search by cases on the two leading digits: equal digits are copied; a digit with room
  strictly between ends it; otherwise the low digit is kept, and the search ends below it or
  goes on past it, the upper bound being out of play from there.
\<close>

lemma gap_induct [consumes 2, case_names same between stop down]:
  assumes chars: "rank_chars a" "rank_chars b"
    and same: "\<And>a b. rank_chars a \<Longrightarrow> rank_chars b \<Longrightarrow> a \<noteq> [] \<or> b \<noteq> [] \<Longrightarrow>
      head_val 36 b = head_val 0 a \<Longrightarrow> P (tl a) (tl b) (gap (tl a) (tl b)) \<Longrightarrow>
      P a b (ALPHABET ! head_val 0 a # gap (tl a) (tl b))"
    and btw: "\<And>a b m. rank_chars a \<Longrightarrow> rank_chars b \<Longrightarrow> head_val 0 a < m \<Longrightarrow> m < 36 \<Longrightarrow>
      m < head_val 36 b \<Longrightarrow> P a b [ALPHABET ! m]"
    and stop: "\<And>a b. rank_chars a \<Longrightarrow> rank_chars b \<Longrightarrow> length a \<le> 1 \<Longrightarrow>
      head_val 36 b \<le> Suc (head_val 0 a) \<Longrightarrow> head_val 0 a \<noteq> head_val 36 b \<Longrightarrow>
      P a b [ALPHABET ! head_val 0 a, CHR ''i'']"
    and down: "\<And>a b. rank_chars a \<Longrightarrow> rank_chars b \<Longrightarrow> length a > 1 \<Longrightarrow>
      head_val 0 a \<noteq> head_val 36 b \<Longrightarrow> P (tl a) (tl b) (gap (tl a) (tl b)) \<Longrightarrow>
      P a b (ALPHABET ! head_val 0 a # gap (tl a) (tl b))"
  shows "P a b (gap a b)"
  using chars
proof (induction a b rule: gap.induct)
  case (1 a b)
  let ?lo = "head_val 0 a" and ?hi = "head_val 36 b"
  have lo: "?lo < 36" and hi: "?hi \<le> 36"
    using 1(3,4) by (simp_all add: head_val_lo head_val_le)
  have empty: "a \<noteq> [] \<or> b \<noteq> [] \<or> ?lo \<noteq> ?hi" by (auto simp: head_val_def)
  show ?case
  proof (cases "?lo = ?hi")
    case True
    with empty have step: "gap a b = ALPHABET ! ?lo # gap (tl a) (tl b)"
      by (subst gap.simps) (auto simp: Let_def)
    show ?thesis unfolding step
      using True empty 1(1) [OF refl refl _ rank_chars_tl [OF 1(3)] rank_chars_tl [OF 1(4)]]
      by (intro same 1(3,4)) auto
  next
    case ne: False
    show ?thesis
    proof (cases "(?lo + ?hi) div 2 > ?lo \<or> length a \<le> 1")
      case True
      have "(?lo + ?hi) div 2 < 36" "(?lo + ?hi) div 2 > ?lo \<Longrightarrow> (?lo + ?hi) div 2 < ?hi"
        using lo hi by linarith+
      with True ne show ?thesis
        by (subst gap.simps) (auto simp: Let_def intro!: btw stop 1(3,4))
    next
      case False
      with ne 1(2) [OF refl refl _ _ _ rank_chars_tl [OF 1(3)] rank_chars_tl [OF 1(4)]]
      show ?thesis by (subst gap.simps) (auto simp: Let_def intro!: down 1(3,4))
    qed
  qed
qed

lemma good_rank_Cons: "c \<in> set ALPHABET \<Longrightarrow> good_rank r \<Longrightarrow> good_rank (c # r)"
  by (auto simp: good_rank_def)

lemma good_rank_single: "0 < m \<Longrightarrow> m < 36 \<Longrightarrow> good_rank [ALPHABET ! m]"
  using ALPHABET_not_zero by (simp add: good_rank_def)

lemma good_rank_i: "good_rank [CHR ''i'']"
  using good_rank_single [of 18] by (simp add: ALPHABET_18)

lemma gap_good: "rank_chars a \<Longrightarrow> rank_chars b \<Longrightarrow> good_rank (gap a b)"
  by (induction rule: gap_induct)
    (simp_all add: good_rank_Cons good_rank_single good_rank_i head_val_lo)

lemma gap_length: "rank_chars a \<Longrightarrow> rank_chars b \<Longrightarrow> length (gap a b) \<le> Suc (max (length a) (length b))"
proof (induction rule: gap_induct)
  case (same a b)
  then show ?case by (cases a; cases b) auto
next
  case (stop a b)
  then show ?case by (cases a; cases b) (auto simp: head_val_def)
next
  case (down a b)
  then show ?case by (cases a; cases b) auto
qed simp

lemma gap_above: "rank_chars a \<Longrightarrow> rank_chars b \<Longrightarrow> a < gap a b"
proof (induction rule: gap_induct)
  case (same a b)
  then show ?case by (cases a) (auto simp: head_val_def val_ok)
next
  case (between a b m)
  then show ?case
    using ALPHABET_less [of "head_val 0 a" m] by (cases a) (auto simp: head_val_def val_ok)
next
  case (stop a b)
  then show ?case by (cases a) (auto simp: head_val_def val_ok)
next
  case (down a b)
  then show ?case by (cases a) (auto simp: head_val_def val_ok)
qed

lemma head_val_step:
  assumes "rank_chars a" "rank_chars b" "a < b" "head_val 0 a \<noteq> head_val 36 b"
  shows "ALPHABET ! head_val 0 a < hd b"
proof -
  from \<open>a < b\<close> have "b \<noteq> []" by auto
  then obtain y b' where b: "b = y # b'" by (cases b) auto
  have "head_val 0 a < head_val 36 b"
  proof (cases a)
    case (Cons x a')
    with assms b val_less [of x y] show ?thesis by (auto simp: head_val_def)
  qed (use assms in \<open>simp add: head_val_def\<close>)
  with b assms(2) ALPHABET_less [of "head_val 0 a" "head_val 36 b"] show ?thesis
    by (simp add: head_val_def val_ok)
qed

text \<open>The result is below the upper bound except when that is the lower one padded with zeros.\<close>

lemma Nil_padded: "(\<exists>k. b = replicate k c) \<longleftrightarrow> set b \<subseteq> {c}"
proof
  assume "set b \<subseteq> {c}"
  then have "b = replicate (length b) c" by (intro replicate_eqI) auto
  then show "\<exists>k. b = replicate k c" ..
qed auto

lemma gap_below_iff:
  "rank_chars a \<Longrightarrow> rank_chars b \<Longrightarrow>
    a \<le> b \<longrightarrow> (gap a b < b \<longleftrightarrow> (\<nexists>k. b = a @ replicate k CHR ''0''))"
proof (induction rule: gap_induct)
  case (same a b)
  show ?case
  proof (cases b)
    case (Cons y b')
    with same show ?thesis
      by (cases a) (auto simp: head_val_def ALPHABET_0 val_ok val_0 val_eq Nil_padded)
  qed (use same in simp)
next
  case (between a b m)
  then show ?case
    using ALPHABET_less [of m "head_val 36 b"] head_val_less [of b 36]
    by (cases b; cases a) (auto simp: head_val_def val_ok Nil_padded val_0 [symmetric])
next
  case (stop a b)
  then show ?case
    using head_val_step [of a b] by (cases b; cases a) (auto simp: head_val_def val_ok Nil_padded val_0)
next
  case (down a b)
  then show ?case
    using head_val_step [of a b] by (cases b; cases a) (auto simp: head_val_def val_ok)
qed

lemma good_rank_not_padded: "good_rank b \<Longrightarrow> a < b \<Longrightarrow> b \<noteq> a @ replicate k CHR ''0''"
  by (cases k) (auto simp: good_rank_def last_append simp flip: replicate_Suc)

section \<open>Placement\<close>

definition bound :: "string option \<Rightarrow> string" where
  "bound r = (case r of None \<Rightarrow> [] | Some s \<Rightarrow> s)"

lemma bound_simps [simp]: "bound None = []" "bound (Some s) = s"
  by (simp_all add: bound_def)

lemma between_gap:
  assumes "rank_chars (bound low)" "rank_chars (bound high)"
    and "case (low, high) of (Some l, Some h) \<Rightarrow> l < h | _ \<Rightarrow> True"
  shows "between low high = Inr (gap (bound low) (bound high))"
  using assms by (cases low; cases high) (simp_all add: between_def walk_gap)

lemma between_out_of_order:
  "h \<le> l \<Longrightarrow> between (Some l) (Some h) = Inl (Neighbours_Out_Of_Order l h)"
  by (simp add: between_def)

definition neighbours_ok :: "string option \<Rightarrow> string option \<Rightarrow> bool" where
  "neighbours_ok low high \<longleftrightarrow>
     (case low of None \<Rightarrow> True | Some l \<Rightarrow> good_rank l) \<and>
     (case high of None \<Rightarrow> True | Some h \<Rightarrow> good_rank h) \<and>
     (case (low, high) of (Some l, Some h) \<Rightarrow> l < h | _ \<Rightarrow> True)"

definition strictly_between :: "string option \<Rightarrow> string \<Rightarrow> string option \<Rightarrow> bool" where
  "strictly_between low r high \<longleftrightarrow>
     (case low of None \<Rightarrow> True | Some l \<Rightarrow> l < r) \<and>
     (case high of None \<Rightarrow> True | Some h \<Rightarrow> r < h)"

lemma between_places:
  assumes "neighbours_ok low high"
  shows "\<exists>r. between low high = Inr r \<and> good_rank r \<and> strictly_between low r high"
proof -
  have chars: "rank_chars (bound low)" "rank_chars (bound high)"
    using assms by (auto simp: neighbours_ok_def good_rank_def split: option.splits)
  have "between low high = Inr (gap (bound low) (bound high))"
    using assms chars by (intro between_gap) (auto simp: neighbours_ok_def)
  moreover have "gap (bound low) h < h" if h: "high = Some h" for h
  proof -
    have "good_rank h" "bound low < h"
      using assms h by (auto simp: neighbours_ok_def good_rank_def neq_Nil_conv split: option.splits)
    then show ?thesis
      using gap_below_iff [OF chars] h good_rank_not_padded by simp
  qed
  ultimately show ?thesis
    using gap_good [OF chars] gap_above [OF chars] assms
    by (auto simp: strictly_between_def split: option.splits)
qed

text \<open>C14: between two ranks in use that are in order, or at an open end, \<open>between\<close>
  returns a rank in use strictly between them; so ranks never have to be renumbered.\<close>

theorem between_strict:
  assumes "neighbours_ok low high"
  shows "\<exists>r. between low high = Inr r \<and> good_rank r \<and> strictly_between low r high \<and>
    length r \<le> Suc (max (length (bound low)) (length (bound high)))"
proof -
  have chars: "rank_chars (bound low)" "rank_chars (bound high)"
    using assms by (auto simp: neighbours_ok_def good_rank_def split: option.splits)
  have "between low high = Inr (gap (bound low) (bound high))"
    using assms chars by (intro between_gap) (auto simp: neighbours_ok_def)
  with between_places [OF assms] gap_length [OF chars] show ?thesis by auto
qed

theorem between_strict_witness:
  "\<exists>r. between (Some ''az'') (Some ''b'') = Inr r \<and> good_rank r \<and>
     strictly_between (Some ''az'') r (Some ''b'') \<and> length r \<le> 3"
proof -
  have "neighbours_ok (Some ''az'') (Some ''b'')" by code_simp
  from between_strict [OF this] show ?thesis by (simp add: eval_nat_numeral)
qed

text \<open>for any two stored ranks \<open>between\<close> throws exactly when they are out of order;
  in order, its result is above the low one always, and below the high one unless that is the
  low one padded with zeros (as the ranks \<^verbatim>\<open>a0010\<close> of the seeds can be).\<close>

theorem between_any_ranks:
  assumes "rank_chars l" "rank_chars h"
  shows "(h \<le> l \<longleftrightarrow> between (Some l) (Some h) = Inl (Neighbours_Out_Of_Order l h)) \<and>
    (l < h \<longrightarrow> (\<exists>r. between (Some l) (Some h) = Inr r \<and> l < r \<and>
       (r < h \<longleftrightarrow> (\<nexists>k. h = l @ replicate k CHR ''0''))))"
proof (cases "l < h")
  case True
  with assms between_gap [of "Some l" "Some h"]
  have "between (Some l) (Some h) = Inr (gap l h)" by simp
  with True gap_above [OF assms] gap_below_iff [OF assms] show ?thesis by auto
next
  case False
  then show ?thesis by (simp add: between_out_of_order)
qed

theorem between_any_ranks_witness:
  "between (Some ''a001'') (Some ''a0010'') = Inr ''a0010i'' \<and> \<not> ''a0010i'' < ''a0010''"
proof -
  have chars: "rank_chars ''a001''" "rank_chars ''a0010''" by (simp_all add: ALPHABET_def)
  have "''a001'' < ''a0010''" by code_simp
  with between_any_ranks [OF chars] have
    "\<exists>r. between (Some ''a001'') (Some ''a0010'') = Inr r \<and>
      (r < ''a0010'' \<longleftrightarrow> (\<nexists>k. ''a0010'' = ''a001'' @ replicate k CHR ''0''))" by blast
  moreover have "''a0010'' = ''a001'' @ replicate 1 CHR ''0''" by simp
  moreover have "between (Some ''a001'') (Some ''a0010'') = Inr ''a0010i''"
    by code_simp
  ultimately show ?thesis by (metis Inr_inject)
qed

section \<open>Whole lists\<close>

definition append_rank :: "nat \<Rightarrow> string" where
  "append_rank n = replicate (n div 6) CHR ''z'' @ [''irvxyz'' ! (n mod 6)]"

lemma gap_z: "a \<noteq> [] \<Longrightarrow> gap (CHR ''z'' # a) [] = CHR ''z'' # gap a []"
proof -
  have "val CHR ''z'' = 35" by code_simp
  then show "a \<noteq> [] \<Longrightarrow> gap (CHR ''z'' # a) [] = CHR ''z'' # gap a []"
    by (subst gap.simps) (cases a, simp_all add: head_val_def ALPHABET_def)
qed

lemma gap_zs: "a \<noteq> [] \<Longrightarrow> gap (replicate k CHR ''z'' @ a) [] = replicate k CHR ''z'' @ gap a []"
  by (induction k) (simp_all add: gap_z)

lemma gap_last:
  "gap ''i'' [] = ''r''" "gap ''r'' [] = ''v''" "gap ''v'' [] = ''x''" "gap ''x'' [] = ''y''"
  "gap ''y'' [] = ''z''" "gap ''z'' [] = ''zi''"
  by code_simp+

lemma gap_append_rank: "gap (append_rank n) [] = append_rank (Suc n)"
proof -
  define q where "q = n div 6"
  have n: "n = 6 * q + n mod 6" by (simp add: q_def)
  have "n mod 6 = 0 \<or> n mod 6 = 1 \<or> n mod 6 = 2 \<or> n mod 6 = 3 \<or> n mod 6 = 4 \<or> n mod 6 = 5"
    by linarith
  then obtain r where r: "n = 6 * q + r" "r = 0 \<or> r = 1 \<or> r = 2 \<or> r = 3 \<or> r = 4 \<or> r = 5"
    using n by metis
  have div: "(6 * q + s) div 6 = q" "(6 * q + s) mod 6 = s" if "s < 6" for s
    using that by auto
  have six: "(6 * q + 6) div 6 = Suc q" "(6 * q + 6) mod 6 = 0" by auto
  from r(2) show ?thesis
    unfolding r(1) append_rank_def
    using div [of "Suc r"] div [of r] six
    by (elim disjE) (simp_all add: gap_zs gap_last replicate_append_same [symmetric])
qed

lemma append_rank_chars: "rank_chars (append_rank n)"
proof -
  have "''irvxyz'' ! (n mod 6) \<in> set ''irvxyz''" by (intro nth_mem) simp
  then show ?thesis by (auto simp: append_rank_def ALPHABET_def)
qed

lemma between_append_rank:
  "between (Some (append_rank n)) None = Inr (append_rank (Suc n))"
  "between None None = Inr (append_rank 0)"
proof -
  show "between (Some (append_rank n)) None = Inr (append_rank (Suc n))"
    using between_gap [of "Some (append_rank n)" None] by (simp add: append_rank_chars gap_append_rank)
  show "between None None = Inr (append_rank 0)" by code_simp
qed

lemma evenly_from_append_rank:
  "evenly_from n (Some (append_rank m)) = Inr (map append_rank [Suc m ..< Suc m + n])"
  by (induction n arbitrary: m) (simp_all add: between_append_rank upt_conv_Cons del: upt_Suc)

lemma append_rank_less_Suc: "append_rank n < append_rank (Suc n)"
  using gap_above [of "append_rank n" "[]"] by (simp add: append_rank_chars gap_append_rank)

lemma append_rank_strict_mono: "m < n \<Longrightarrow> append_rank m < append_rank n"
  by (rule lift_Suc_mono_less [of append_rank, OF append_rank_less_Suc])

lemma evenlySpacedRanks_closed: "evenlySpacedRanks n = Inr (map append_rank [0 ..< nat n])"
proof (cases "nat n")
  case (Suc k)
  then show ?thesis
    by (simp add: evenlySpacedRanks_def between_append_rank evenly_from_append_rank upt_conv_Cons
        del: upt_Suc)
qed (simp add: evenlySpacedRanks_def)

text \<open>\<open>evenlySpacedRanks n\<close> never throws and gives \<open>n\<close> strictly increasing ranks; the one
  at position \<open>p\<close> is \<open>p div 6\<close> digits \<open>z\<close> and one more, so the ranks from position 288 on are
  themselves over the length at which a rebalance is called for.\<close>

theorem evenlySpacedRanks_increasing:
  "\<exists>rs. evenlySpacedRanks n = Inr rs \<and> length rs = nat n \<and> sorted_wrt (<) rs \<and>
    (\<forall>p < length rs. length (rs ! p) = Suc (p div 6)) \<and>
    (\<exists>r \<in> set rs. rankNeedsRebalance r) = (n > 288)"
proof -
  let ?rs = "map append_rank [0 ..< nat n]"
  have len: "length (append_rank p) = Suc (p div 6)" for p by (simp add: append_rank_def)
  have "(\<exists>r \<in> set ?rs. rankNeedsRebalance r) \<longleftrightarrow> (\<exists>p < nat n. 48 < Suc (p div 6))"
    by (auto simp: rankNeedsRebalance_def RANK_REBALANCE_THRESHOLD_def len)
  also have "\<dots> \<longleftrightarrow> n > 288"
  proof
    assume "\<exists>p < nat n. 48 < Suc (p div 6)"
    then obtain p where "p < nat n" "48 < Suc (p div 6)" by blast
    then show "n > 288" by linarith
  next
    assume "n > 288"
    then show "\<exists>p < nat n. 48 < Suc (p div 6)" by (intro exI [of _ 288]) simp
  qed
  finally have "(\<exists>r \<in> set ?rs. rankNeedsRebalance r) = (n > 288)" .
  moreover have "sorted_wrt (<) ?rs"
    by (simp add: sorted_wrt_iff_nth_less append_rank_strict_mono)
  ultimately show ?thesis by (simp add: evenlySpacedRanks_closed len)
qed

theorem evenlySpacedRanks_increasing_witness:
  "\<exists>rs. evenlySpacedRanks 3 = Inr rs \<and> length rs = 3 \<and> sorted_wrt (<) rs"
  using evenlySpacedRanks_increasing [of 3] by auto

end
