(* ===== verification/WorkItems.thy ===== *)
theory WorkItems
  imports StorySplit LexoRank
begin

text \<open>
  Work items and their tasks: the writes of \<^verbatim>\<open>work-items.service.ts\<close> (create, update, delete, and the
  reconciliation of a parent with its tasks) over the two tables of
  \<^verbatim>\<open>work-item.drizzle-repository.ts\<close>, with the database triggers that complete each row. Text columns
  that are only copied (description, notes, acceptance criteria, custom fields) are left out;
  points and hours are numbers. The caller, the clock and the access tables are the environment of
  a request.
\<close>

section \<open>Tables\<close>

datatype TaskState = T_defined | T_in_progress | T_completed

datatype DefectState = D_submitted | D_open | D_fixed | D_closed | D_closed_declined

text \<open>A row of the work items table, and what the service reads a task row as.\<close>

record WorkItem = item_row +
  w_key :: string
  w_title :: string
  w_status :: uuid
  w_flow :: ScheduleState
  w_priority :: string
  w_assignee :: "uuid option"
  w_reporter :: "uuid option"
  w_devOwner :: "uuid option"
  w_release :: "uuid option"
  w_feature :: "uuid option"
  w_foundIn :: "uuid option"
  w_points :: "num option"
  w_estimate :: "num option"
  w_todo :: "num option"
  w_actual :: "num option"
  w_blocked :: bool
  w_blockedReason :: "string option"
  w_defectState :: "DefectState option"
  w_rank :: string
  w_accepted :: "nat option"
  w_start :: "iso_date option"
  w_end :: "iso_date option"
  w_target :: "iso_date option"
  w_split :: "uuid option"
  w_version :: nat

record task_row =
  tk_id :: uuid
  tk_workspace :: uuid
  tk_project :: uuid
  tk_parent :: uuid
  tk_key :: string
  tk_title :: string
  tk_state :: TaskState
  tk_assignee :: "uuid option"
  tk_devOwner :: "uuid option"
  tk_team :: "uuid option"
  tk_iteration :: "uuid option"
  tk_estimate :: "num option"
  tk_todo :: "num option"
  tk_actual :: "num option"
  tk_rank :: string
  tk_start :: "iso_date option"
  tk_end :: "iso_date option"
  tk_version :: nat
  tk_deleted :: bool

record status_row =
  st_id :: uuid
  st_project :: uuid
  st_default :: bool

record test_row =
  tc_id :: uuid
  tc_workspace :: uuid
  tc_item :: uuid
  tc_rank :: string
  tc_deleted :: bool

text \<open>
  \<open>base\<close>: the tables of the other components (its own items field is not used, see \<open>view\<close>);
  \<open>flows\<close>: allowed status transitions (project, from, to); \<open>releases\<close>: (id, workspace, project);
  \<open>features\<close>: portfolio items (id, workspace, is a feature, archived); \<open>counters\<close>: the last number
  given per workspace and type; \<open>notices\<close>: the assignment notifications enqueued (item, recipient).
\<close>

record work_db =
  base :: iter_db
  work_items :: "WorkItem list"
  tasks :: "task_row list"
  tests :: "test_row list"
  statuses :: "status_row list"
  flows :: "(uuid \<times> uuid option \<times> uuid) list"
  releases :: "(uuid \<times> uuid \<times> uuid) list"
  features :: "(uuid \<times> uuid \<times> bool \<times> bool) list"
  counters :: "uuid \<Rightarrow> WorkItemType \<Rightarrow> nat"
  notices :: "(uuid \<times> uuid) list"

record env =
  e_ws :: uuid
  e_actor :: uuid
  e_acc :: access_db
  e_eff :: "assignment list"
  e_now :: nat
  e_today :: iso_date

fun SCHEDULE_STATE_TO_TASK_STATE :: "ScheduleState \<Rightarrow> TaskState" where
  "SCHEDULE_STATE_TO_TASK_STATE S_idea = T_defined"
| "SCHEDULE_STATE_TO_TASK_STATE S_defined = T_defined"
| "SCHEDULE_STATE_TO_TASK_STATE S_in_progress = T_in_progress"
| "SCHEDULE_STATE_TO_TASK_STATE S_completed = T_completed"
| "SCHEDULE_STATE_TO_TASK_STATE S_accepted = T_completed"
| "SCHEDULE_STATE_TO_TASK_STATE S_release = T_completed"

definition task_schedule :: "TaskState \<Rightarrow> ScheduleState" where
  "task_schedule s = (if s = T_in_progress then S_in_progress else if s = T_completed then S_completed else S_defined)"

definition mapTaskRow :: "task_row \<Rightarrow> WorkItem" where
  "mapTaskRow t =
     \<lparr>wi_id = tk_id t, wi_workspace = tk_workspace t, wi_project = tk_project t, wi_team = tk_team t, wi_type = Task,
      wi_parent = Some (tk_parent t), wi_schedule = task_schedule (tk_state t), wi_iteration = tk_iteration t,
      wi_deleted = tk_deleted t,
      w_key = tk_key t, w_title = tk_title t, w_status = [], w_flow = task_schedule (tk_state t), w_priority = ''normal'',
      w_assignee = tk_assignee t, w_reporter = None, w_devOwner = None, w_release = None, w_feature = None, w_foundIn = None,
      w_points = None, w_estimate = tk_estimate t, w_todo = tk_todo t, w_actual = tk_actual t, w_blocked = False,
      w_blockedReason = None, w_defectState = None, w_rank = tk_rank t, w_accepted = None, w_start = tk_start t,
      w_end = tk_end t, w_target = None, w_split = None, w_version = tk_version t\<rparr>"

definition view :: "work_db \<Rightarrow> iter_db" where
  "view db = (base db)\<lparr>items := map item_row.truncate (work_items db @ map mapTaskRow (tasks db))\<rparr>"

section \<open>Reads\<close>

definition live_item :: "uuid \<Rightarrow> uuid \<Rightarrow> WorkItem \<Rightarrow> bool" where
  "live_item i ws w \<longleftrightarrow> wi_id w = i \<and> wi_workspace w = ws \<and> \<not> wi_deleted w"

definition live_task :: "uuid \<Rightarrow> uuid \<Rightarrow> task_row \<Rightarrow> bool" where
  "live_task i ws t \<longleftrightarrow> tk_id t = i \<and> tk_workspace t = ws \<and> \<not> tk_deleted t"

text \<open>\<^verbatim>\<open>toWorkItem\<close>: the hours are a task's.\<close>

definition toWorkItem :: "WorkItem \<Rightarrow> WorkItem" where
  "toWorkItem w = w\<lparr>w_estimate := None, w_todo := None, w_actual := None\<rparr>"

definition findById :: "work_db \<Rightarrow> uuid \<Rightarrow> uuid \<Rightarrow> WorkItem option" where
  "findById db i ws =
     (case find (live_item i ws) (work_items db) of
        Some w \<Rightarrow> Some (toWorkItem w)
      | None \<Rightarrow> map_option mapTaskRow (find (live_task i ws) (tasks db)))"

definition getWorkItem :: "work_db \<Rightarrow> uuid \<Rightarrow> uuid \<Rightarrow> api_error + WorkItem" where
  "getWorkItem db ws i =
     (case findById db i ws of None \<Rightarrow> Inl (NotFound ''WORK_ITEM_NOT_FOUND'') | Some w \<Rightarrow> Inr w)"

definition tasks_of :: "work_db \<Rightarrow> uuid \<Rightarrow> uuid \<Rightarrow> task_row list" where
  "tasks_of db parentId ws = filter (\<lambda>t. tk_parent t = parentId \<and> tk_workspace t = ws \<and> \<not> tk_deleted t) (tasks db)"

text \<open>The counts (total, defined, completed).\<close>

definition taskStateCounts :: "work_db \<Rightarrow> uuid \<Rightarrow> uuid \<Rightarrow> nat \<times> nat \<times> nat" where
  "taskStateCounts db parentId ws =
     (let ts = tasks_of db parentId ws
      in (length ts, length (filter (\<lambda>t. tk_state t = T_defined) ts), length (filter (\<lambda>t. tk_state t = T_completed) ts)))"

text \<open>\<^verbatim>\<open>ORDER BY rank DESC LIMIT 1\<close>: the greatest rank.\<close>

definition max_rank :: "string list \<Rightarrow> string option" where
  "max_rank rs = (if rs = [] then None else Some (fold max rs []))"

definition findMaxRank :: "work_db \<Rightarrow> uuid \<Rightarrow> uuid option \<Rightarrow> uuid \<Rightarrow> string option" where
  "findMaxRank db projectId parentId ws =
     (if present parentId then max_rank (map tk_rank (tasks_of db (the parentId) ws))
      else max_rank (map w_rank (filter (\<lambda>w. wi_workspace w = ws \<and> \<not> wi_deleted w \<and> wi_project w = projectId \<and>
                                             wi_parent w = None) (work_items db))))"

definition findReleaseProject :: "work_db \<Rightarrow> uuid \<Rightarrow> uuid \<Rightarrow> uuid option" where
  "findReleaseProject db i ws = map_option (\<lambda>(_, _, p). p) (find (\<lambda>(r, w, _). r = i \<and> w = ws) (releases db))"

section \<open>Database triggers\<close>

text \<open>Before an insert (no old row) or an update: \<^verbatim>\<open>bump_version\<close>, \<^verbatim>\<open>stamp_story_lifecycle_dates\<close>,
  \<^verbatim>\<open>sync_accepted_date\<close>, in the order of the triggers' names.\<close>

definition stamp_item :: "env \<Rightarrow> WorkItem option \<Rightarrow> WorkItem \<Rightarrow> WorkItem" where
  "stamp_item e old r =
     (let was = (\<lambda>s. case old of None \<Rightarrow> False | Some q \<Rightarrow> wi_schedule q = s);
          keep = (\<lambda>sel new. case old of None \<Rightarrow> new | Some q \<Rightarrow> if sel q \<noteq> None then sel q else new);
          start0 = keep w_start (w_start r);
          end0 = keep w_end (w_end r);
          start1 = (if start0 = None \<and> wi_schedule r = S_in_progress \<and> \<not> was S_in_progress then Some (e_today e) else start0);
          end1 = (if end0 = None \<and> wi_schedule r = S_accepted \<and> \<not> was S_accepted then Some (e_today e) else end0);
          accepted = (if isAcceptedScheduleState (wi_schedule r)
                      then (if (case old of None \<Rightarrow> True | Some q \<Rightarrow> \<not> isAcceptedScheduleState (wi_schedule q))
                            then (case w_accepted r of None \<Rightarrow> Some (e_now e) | Some d \<Rightarrow> Some d)
                            else w_accepted r)
                      else None)
      in r\<lparr>w_version := (case old of None \<Rightarrow> w_version r | Some q \<Rightarrow> w_version q + 1),
           w_start := (if wi_type r \<noteq> Story then None else start1),
           w_end := (if wi_type r \<noteq> Story then None else end1),
           w_target := (if wi_type r \<noteq> Story then None else w_target r),
           w_accepted := accepted\<rparr>)"

definition stamp_task :: "env \<Rightarrow> task_row option \<Rightarrow> task_row \<Rightarrow> task_row" where
  "stamp_task e old r =
     (let was = (\<lambda>s. case old of None \<Rightarrow> False | Some q \<Rightarrow> tk_state q = s);
          keep = (\<lambda>sel new. case old of None \<Rightarrow> new | Some q \<Rightarrow> if sel q \<noteq> None then sel q else new);
          start0 = keep tk_start (tk_start r);
          end0 = keep tk_end (tk_end r)
      in r\<lparr>tk_version := (case old of None \<Rightarrow> tk_version r | Some q \<Rightarrow> tk_version q + 1),
           tk_start := (if start0 = None \<and> tk_state r = T_in_progress \<and> \<not> was T_in_progress then Some (e_today e) else start0),
           tk_end := (if end0 = None \<and> tk_state r = T_completed \<and> \<not> was T_completed then Some (e_today e) else end0)\<rparr>)"

text \<open>\<^verbatim>\<open>task_iteration_from_parent\<close>: on insert, and when the update names the parent or the iteration.\<close>

definition iteration_from_parent :: "WorkItem list \<Rightarrow> task_row \<Rightarrow> task_row" where
  "iteration_from_parent rows t =
     t\<lparr>tk_iteration := (case find (\<lambda>w. wi_id w = tk_parent t) rows of None \<Rightarrow> None | Some p \<Rightarrow> wi_iteration p)\<rparr>"

text \<open>\<^verbatim>\<open>cascade_iteration_to_tasks\<close>: after an update that changed the iteration of the row.\<close>

definition cascade_iteration :: "env \<Rightarrow> uuid \<Rightarrow> uuid option \<Rightarrow> task_row list \<Rightarrow> task_row list" where
  "cascade_iteration e i iteration ts =
     update_where (\<lambda>t. tk_parent t = i \<and> \<not> tk_deleted t \<and> tk_iteration t \<noteq> iteration)
       (\<lambda>t. stamp_task e (Some t) (t\<lparr>tk_iteration := iteration\<rparr>)) ts"

text \<open>\<^verbatim>\<open>UPDATE work_items SET f WHERE id = i AND workspace_id = ws\<close>.\<close>

definition write_item :: "env \<Rightarrow> uuid \<Rightarrow> (WorkItem \<Rightarrow> WorkItem) \<Rightarrow> work_db \<Rightarrow> work_db" where
  "write_item e i f db =
     (let hit = (\<lambda>w. wi_id w = i \<and> wi_workspace w = e_ws e) in
      db\<lparr>work_items := update_where hit (\<lambda>w. stamp_item e (Some w) (f w)) (work_items db),
         tasks := (case find hit (work_items db) of
                     None \<Rightarrow> tasks db
                   | Some w \<Rightarrow> if wi_iteration (f w) \<noteq> wi_iteration w
                               then cascade_iteration e i (wi_iteration (f w)) (tasks db) else tasks db)\<rparr>)"

text \<open>\<^verbatim>\<open>UPDATE tasks SET f WHERE id = i AND workspace_id = ws\<close>; \<open>moved\<close>: the update names the parent or the
  iteration.\<close>

definition write_task :: "env \<Rightarrow> uuid \<Rightarrow> bool \<Rightarrow> (task_row \<Rightarrow> task_row) \<Rightarrow> work_db \<Rightarrow> work_db" where
  "write_task e i moved f db =
     db\<lparr>tasks := update_where (\<lambda>t. tk_id t = i \<and> tk_workspace t = e_ws e)
          (\<lambda>t. let t' = stamp_task e (Some t) (f t) in if moved then iteration_from_parent (work_items db) t' else t') (tasks db)\<rparr>"

section \<open>The update of a row\<close>

text \<open>\<open>None\<close>: the field is undefined in the request; \<open>Some None\<close>: it is null.\<close>

record item_input =
  u_title :: "string option"
  u_status :: "uuid option"
  u_schedule :: "ScheduleState option"
  u_flow :: "ScheduleState option"
  u_priority :: "string option"
  u_assignee :: "uuid option option"
  u_reporter :: "uuid option option"
  u_parent :: "uuid option option"
  u_team :: "uuid option option"
  u_iteration :: "uuid option option"
  u_release :: "uuid option option"
  u_feature :: "uuid option option"
  u_foundIn :: "uuid option option"
  u_devOwner :: "uuid option option"
  u_points :: "num option option"
  u_estimate :: "num option option"
  u_todo :: "num option option"
  u_actual :: "num option option"
  u_blocked :: "bool option"
  u_blockedReason :: "string option option"
  u_defectState :: "DefectState option option"
  u_target :: "iso_date option option"
  u_rank :: "string option"

definition no_input :: item_input where
  "no_input = \<lparr>u_title = None, u_status = None, u_schedule = None, u_flow = None, u_priority = None, u_assignee = None,
     u_reporter = None, u_parent = None, u_team = None, u_iteration = None, u_release = None, u_feature = None,
     u_foundIn = None, u_devOwner = None, u_points = None, u_estimate = None, u_todo = None, u_actual = None,
     u_blocked = None, u_blockedReason = None, u_defectState = None, u_target = None, u_rank = None\<rparr>"

definition mirroredState :: "item_input \<Rightarrow> ScheduleState option" where
  "mirroredState u = (case u_schedule u of Some s \<Rightarrow> Some s | None \<Rightarrow> u_flow u)"

definition set_item :: "item_input \<Rightarrow> WorkItem \<Rightarrow> WorkItem" where
  "set_item u w =
     w\<lparr>w_title := set_if (u_title u) (w_title w),
       w_status := set_if (u_status u) (w_status w),
       wi_schedule := set_if (mirroredState u) (wi_schedule w),
       w_flow := set_if (mirroredState u) (w_flow w),
       w_priority := set_if (u_priority u) (w_priority w),
       w_assignee := set_if (u_assignee u) (w_assignee w),
       w_reporter := set_if (u_reporter u) (w_reporter w),
       wi_parent := set_if (u_parent u) (wi_parent w),
       wi_team := set_if (u_team u) (wi_team w),
       wi_iteration := set_if (u_iteration u) (wi_iteration w),
       w_release := set_if (u_release u) (w_release w),
       w_points := set_if (u_points u) (w_points w),
       w_blocked := set_if (u_blocked u) (w_blocked w),
       w_blockedReason := set_if (u_blockedReason u) (w_blockedReason w),
       w_feature := set_if (u_feature u) (w_feature w),
       w_rank := set_if (u_rank u) (w_rank w),
       w_foundIn := set_if (u_foundIn u) (w_foundIn w),
       w_devOwner := set_if (u_devOwner u) (w_devOwner w),
       w_defectState := set_if (u_defectState u) (w_defectState w),
       w_target := set_if (u_target u) (w_target w)\<rparr>"

definition set_task :: "item_input \<Rightarrow> task_row \<Rightarrow> task_row" where
  "set_task u t =
     t\<lparr>tk_title := set_if (u_title u) (tk_title t),
       tk_parent := (case u_parent u of Some (Some p) \<Rightarrow> p | _ \<Rightarrow> tk_parent t),
       tk_state := (case mirroredState u of Some s \<Rightarrow> SCHEDULE_STATE_TO_TASK_STATE s | None \<Rightarrow> tk_state t),
       tk_assignee := set_if (u_assignee u) (tk_assignee t),
       tk_devOwner := set_if (u_devOwner u) (tk_devOwner t),
       tk_team := set_if (u_team u) (tk_team t),
       tk_iteration := set_if (u_iteration u) (tk_iteration t),
       tk_estimate := set_if (u_estimate u) (tk_estimate t),
       tk_todo := set_if (u_todo u) (tk_todo t),
       tk_actual := set_if (u_actual u) (tk_actual t),
       tk_rank := set_if (u_rank u) (tk_rank t)\<rparr>"

definition task_moved :: "item_input \<Rightarrow> bool" where
  "task_moved u \<longleftrightarrow> (case u_parent u of Some (Some _) \<Rightarrow> True | _ \<Rightarrow> False) \<or> u_iteration u \<noteq> None"

definition update_row :: "env \<Rightarrow> uuid \<Rightarrow> item_input \<Rightarrow> nat option \<Rightarrow> work_db \<Rightarrow> api_error + (WorkItem \<times> work_db)" where
  "update_row e i u expected db =
     (let stale = (\<lambda>v. case expected of None \<Rightarrow> False | Some n \<Rightarrow> v \<noteq> n) in
      case find (live_task i (e_ws e)) (tasks db) of
        Some t \<Rightarrow>
          if stale (tk_version t) then Inl (PreconditionFailed ''WORK_ITEM_STALE'')
          else let db' = write_task e i (task_moved u) (set_task u) db
            in (case findById db' i (e_ws e) of None \<Rightarrow> Inl (Uncaught ''TypeError'') | Some w \<Rightarrow> Inr (w, db'))
      | None \<Rightarrow>
          (case find (\<lambda>w. wi_id w = i \<and> wi_workspace w = e_ws e) (work_items db) of
             None \<Rightarrow> if expected \<noteq> None then Inl (PreconditionFailed ''WORK_ITEM_STALE'') else Inl (Uncaught ''TypeError'')
           | Some w \<Rightarrow>
               if stale (w_version w) then Inl (PreconditionFailed ''WORK_ITEM_STALE'')
               else Inr (toWorkItem (stamp_item e (Some w) (set_item u w)), write_item e i (set_item u) db)))"

section \<open>A parent follows its tasks\<close>

definition log_entry :: "uuid \<Rightarrow> string \<Rightarrow> string option \<Rightarrow> work_db \<Rightarrow> work_db" where
  "log_entry i what field db =
     db\<lparr>base := (base db)\<lparr>activity := activity (base db) @ [\<lparr>lg_entity = i, lg_action = what, lg_field = field\<rparr>]\<rparr>\<rparr>"

definition derived_state :: "nat \<Rightarrow> nat \<Rightarrow> nat \<Rightarrow> ScheduleState" where
  "derived_state n defined completed =
     (if completed = n then S_completed else if defined = n then S_defined else S_in_progress)"

definition reconcileParentScheduleState :: "env \<Rightarrow> uuid \<Rightarrow> work_db \<Rightarrow> work_db" where
  "reconcileParentScheduleState e parentId db =
     (case taskStateCounts db parentId (e_ws e) of (n, defined, completed) \<Rightarrow>
      if n = 0 then db
      else case findById db parentId (e_ws e) of
             None \<Rightarrow> db
           | Some parent \<Rightarrow>
               let derived = derived_state n defined completed in
               if derived = wi_schedule parent then db
               else case update_row e parentId (no_input\<lparr>u_schedule := Some derived\<rparr>) None db of
                      Inl _ \<Rightarrow> db
                    | Inr (_, db') \<Rightarrow>
                        (case findById db' parentId (e_ws e) of
                           None \<Rightarrow> db'
                         | Some fresh \<Rightarrow> log_entry parentId ''work_item.schedule_state_changed'' (Some ''scheduleState'') db'))"

section \<open>Guards\<close>

definition assertTeamScope :: "env \<Rightarrow> work_db \<Rightarrow> WorkItem \<Rightarrow> api_error + unit" where
  "assertTeamScope e db item =
     assertTeamInScope (e_acc e) (e_eff e) (e_ws e) (e_actor e) (wi_project item)
       (resolveRowTeam (view db) (e_ws e) (item_row.truncate item))"

text \<open>The same check for a project and a team that are not yet a row's.\<close>

definition assertPairScope :: "env \<Rightarrow> uuid \<Rightarrow> uuid option \<Rightarrow> api_error + unit" where
  "assertPairScope e projectId team =
     assertTeamInScope (e_acc e) (e_eff e) (e_ws e) (e_actor e) projectId (if present team then team else None)"

text \<open>\<^verbatim>\<open>assignmentCandidates\<close>: is the user among the people an item of the team can be assigned to?\<close>

definition assignable :: "env \<Rightarrow> work_db \<Rightarrow> uuid \<Rightarrow> uuid option \<Rightarrow> uuid \<Rightarrow> api_error + bool" where
  "assignable e db projectId team u =
     (let admin = isWorkspaceAdmin (e_acc e) (e_ws e) u;
          level = (\<lambda>l. \<not> admin \<and> (\<exists>m \<in> set (projectMembers (e_acc e)). pm_project m = projectId \<and> pm_user m = u \<and> pm_active m \<and>
                                    pm_level m = Some l))
      in if \<not> present team then Inr (level ''admin'' \<or> admin)
         else bind_sum (assertTeamLinkedToProject (view db) (e_ws e) projectId (the team)) (\<lambda>_.
           let on_team = (\<exists>t \<in> set (teamMembers (e_acc e)). tm_workspace t = e_ws e \<and> tm_team t = the team \<and> tm_user t = u \<and> tm_active t)
           in Inr (level ''admin'' \<or> level ''editor'' \<and> on_team \<or> admin \<and> on_team)))"

definition assertAssignable :: "env \<Rightarrow> work_db \<Rightarrow> uuid \<Rightarrow> uuid option \<Rightarrow> uuid \<Rightarrow> api_error + unit" where
  "assertAssignable e db projectId team u =
     bind_sum (assignable e db projectId team u) (\<lambda>ok.
       if ok then Inr () else Inl (PreconditionFailed ''WORK_ITEM_ASSIGNEE_NOT_ELIGIBLE''))"

text \<open>A team change clears an owner who is not on the new team.\<close>

definition resetOwnerOutsideTeam :: "env \<Rightarrow> work_db \<Rightarrow> WorkItem \<Rightarrow> item_input \<Rightarrow> api_error + item_input" where
  "resetOwnerOutsideTeam e db item u =
     (let nextOwner = set_if (u_assignee u) (w_assignee item); nextTeam = set_if (u_team u) None in
      if \<not> present nextOwner then Inr u
      else if nextTeam = None then Inr (u\<lparr>u_assignee := Some None\<rparr>)
      else bind_sum (getProject (view db) (e_ws e) (wi_project item)) (\<lambda>_.
           bind_sum (assignable e db (wi_project item) nextTeam (the nextOwner)) (\<lambda>ok.
           Inr (if ok then u else u\<lparr>u_assignee := Some None\<rparr>))))"

definition assertFeatureLinkable :: "work_db \<Rightarrow> uuid \<Rightarrow> WorkItemType \<Rightarrow> uuid \<Rightarrow> api_error + unit" where
  "assertFeatureLinkable db ws itemType featureId =
     (if itemType = Task then Inl (PreconditionFailed ''WORK_ITEM_FEATURE_LINK_NOT_ALLOWED'')
      else case find (\<lambda>(i, w, _). i = featureId \<and> w = ws) (features db) of
             None \<Rightarrow> Inl (NotFound ''PORTFOLIO_ITEM_NOT_FOUND'')
           | Some (_, _, feature, archived) \<Rightarrow>
               if \<not> feature then Inl (PreconditionFailed ''WORK_ITEM_FEATURE_LINK_NOT_FEATURE'')
               else if archived then Inl (PreconditionFailed ''WORK_ITEM_FEATURE_LINK_ARCHIVED'')
               else Inr ())"

definition assertReleaseAssignable :: "work_db \<Rightarrow> uuid \<Rightarrow> uuid \<Rightarrow> uuid \<Rightarrow> api_error + unit" where
  "assertReleaseAssignable db ws projectId releaseId =
     (case findReleaseProject db releaseId ws of
        None \<Rightarrow> Inl (NotFound ''RELEASE_NOT_FOUND'')
      | Some p \<Rightarrow> if p \<noteq> projectId then Inl (PreconditionFailed ''RELEASE_PROJECT_MISMATCH'') else Inr ())"

definition assertMayAssignRelease :: "env \<Rightarrow> uuid \<Rightarrow> api_error + unit" where
  "assertMayAssignRelease e projectId = assertProjectPermission (e_eff e) projectId ''release:view''"

definition canTransition :: "work_db \<Rightarrow> uuid \<Rightarrow> uuid \<Rightarrow> uuid \<Rightarrow> bool" where
  "canTransition db projectId fromStatus toStatus =
     (let own = filter (\<lambda>(p, _, _). p = projectId) (flows db)
      in own = [] \<or> (\<exists>(_, from, to) \<in> set own. to = toStatus \<and> (from = None \<or> from = Some fromStatus)))"

definition assertTransitionAllowed :: "work_db \<Rightarrow> uuid \<Rightarrow> uuid \<Rightarrow> uuid \<Rightarrow> api_error + unit" where
  "assertTransitionAllowed db projectId fromStatus toStatus =
     guard_sum (canTransition db projectId fromStatus toStatus) (PreconditionFailed ''WORKFLOW_TRANSITION_NOT_ALLOWED'')"

definition resolveStatusId :: "work_db \<Rightarrow> uuid \<Rightarrow> uuid \<Rightarrow> uuid option \<Rightarrow> api_error + uuid" where
  "resolveStatusId db ws projectId requested =
     bind_sum (getProject (view db) ws projectId) (\<lambda>_.
     let own = filter (\<lambda>s. st_project s = projectId) (statuses db) in
     if present requested
     then (if the requested \<in> st_id ` set own then Inr (the requested) else Inl (NotFound ''WORKFLOW_STATUS_NOT_FOUND''))
     else (case find st_default own of
             Some s \<Rightarrow> Inr (st_id s)
           | None \<Rightarrow> (case own of s # _ \<Rightarrow> Inr (st_id s) | [] \<Rightarrow> Inl (PreconditionFailed ''WORKFLOW_STATUS_NOT_FOUND''))))"

text \<open>The ids that are set, each once.\<close>

definition ids_in :: "uuid option list \<Rightarrow> uuid list" where
  "ids_in xs = dedupe_by (\<lambda>x. x) {} (List.map_filter (\<lambda>x. if present x then x else None) xs)"

definition assertAssignmentScope ::
  "env \<Rightarrow> work_db \<Rightarrow> bool \<Rightarrow> uuid \<Rightarrow> uuid option \<Rightarrow> uuid option \<Rightarrow> uuid option \<Rightarrow> uuid option \<Rightarrow> uuid option list \<Rightarrow> uuid option list
    \<Rightarrow> api_error + unit" where
  "assertAssignmentScope e db validateTeamLink projectId team iteration release foundIn memberIds assignableIds =
     bind_sum (if validateTeamLink \<and> present team then assertTeamLinkedToProject (view db) (e_ws e) projectId (the team) else Inr ()) (\<lambda>_.
     bind_sum (if present iteration
               then assertIterationAssignable (view db) (e_ws e)
                      \<lparr>wi_id = [], wi_workspace = [], wi_project = projectId, wi_team = team, wi_type = Story, wi_parent = None,
                       wi_schedule = S_defined, wi_iteration = None, wi_deleted = False\<rparr> (the iteration)
               else Inr ()) (\<lambda>_.
     bind_sum (if present release then assertReleaseAssignable db (e_ws e) projectId (the release) else Inr ()) (\<lambda>_.
     bind_sum (if present foundIn then assertReleaseAssignable db (e_ws e) projectId (the foundIn) else Inr ()) (\<lambda>_.
     bind_sum (check_all (\<lambda>u. guard_sum (active_member (e_acc e) (e_ws e) u) (PreconditionFailed ''ASSIGNEE_NOT_WORKSPACE_MEMBER''))
                (ids_in memberIds)) (\<lambda>_.
     check_all (assertAssignable e db projectId team) (ids_in assignableIds))))))"

text \<open>Assignment notifications go to a person other than the actor who may view the project's items.\<close>

definition notifyAssignment :: "env \<Rightarrow> WorkItem \<Rightarrow> uuid option \<Rightarrow> work_db \<Rightarrow> work_db" where
  "notifyAssignment e item recipient db =
     (if \<not> present recipient then db
      else let u = the recipient in
        if u \<noteq> e_actor e \<and>
           permissionGrants (getProjectPermissions (assignments_from_db (e_acc e) (wi_workspace item) u) (wi_project item)) ''work_item:view''
        then db\<lparr>notices := notices db @ [(wi_id item, u)]\<rparr> else db)"

section \<open>Create\<close>

record item_opts =
  n_status :: "uuid option"
  n_schedule :: "ScheduleState option"
  n_priority :: "string option"
  n_assignee :: "uuid option"
  n_reporter :: "uuid option"
  n_parent :: "uuid option"
  n_team :: "uuid option"
  n_iteration :: "uuid option"
  n_release :: "uuid option option"
  n_foundIn :: "uuid option"
  n_devOwner :: "uuid option"
  n_points :: "num option"
  n_estimate :: "num option"
  n_todo :: "num option"
  n_actual :: "num option"
  n_defectState :: "DefectState option"

fun TYPE_PREFIX :: "WorkItemType \<Rightarrow> string" where
  "TYPE_PREFIX Story = ''US''"
| "TYPE_PREFIX Task = ''TA''"
| "TYPE_PREFIX Defect = ''DE''"

definition generateItemKey :: "env \<Rightarrow> uuid \<Rightarrow> WorkItemType \<Rightarrow> work_db \<Rightarrow> api_error + (string \<times> work_db)" where
  "generateItemKey e projectId type db =
     bind_sum (assertProjectWritable (view db) (e_ws e) projectId) (\<lambda>_.
     let sq = counters db (e_ws e) type + 1 in
     Inr (TYPE_PREFIX type @ ''-'' @ decimal sq,
          db\<lparr>counters := (counters db)(e_ws e := (counters db (e_ws e))(type := sq))\<rparr>))"

definition new_item :: "env \<Rightarrow> uuid \<Rightarrow> uuid \<Rightarrow> WorkItemType \<Rightarrow> string \<Rightarrow> string \<Rightarrow> uuid \<Rightarrow> string \<Rightarrow> item_opts \<Rightarrow> WorkItem" where
  "new_item e i projectId type key title statusId rank opts =
     (let state = (case n_schedule opts of None \<Rightarrow> if type = Task then S_defined else S_idea | Some s \<Rightarrow> s) in
      \<lparr>wi_id = i, wi_workspace = e_ws e, wi_project = projectId, wi_team = n_team opts, wi_type = type, wi_parent = n_parent opts,
       wi_schedule = state, wi_iteration = n_iteration opts, wi_deleted = False,
       w_key = key, w_title = title, w_status = statusId, w_flow = state,
       w_priority = (case n_priority opts of None \<Rightarrow> ''none'' | Some p \<Rightarrow> p),
       w_assignee = n_assignee opts, w_reporter = Some (case n_reporter opts of None \<Rightarrow> e_actor e | Some r \<Rightarrow> r),
       w_devOwner = n_devOwner opts, w_release = (case n_release opts of None \<Rightarrow> None | Some r \<Rightarrow> r), w_feature = None,
       w_foundIn = n_foundIn opts, w_points = n_points opts, w_estimate = n_estimate opts,
       w_todo = (if type = Task then (case n_todo opts of None \<Rightarrow> n_estimate opts | Some h \<Rightarrow> Some h) else n_todo opts),
       w_actual = n_actual opts, w_blocked = False, w_blockedReason = None, w_defectState = n_defectState opts, w_rank = rank,
       w_accepted = None, w_start = None, w_end = None, w_target = None, w_split = None, w_version = 0\<rparr>)"

text \<open>The repository's \<^verbatim>\<open>create\<close>: one of the two tables, by type; the created row as it is returned.\<close>

definition task_of_item :: "WorkItem \<Rightarrow> task_row" where
  "task_of_item w =
     \<lparr>tk_id = wi_id w, tk_workspace = wi_workspace w, tk_project = wi_project w, tk_parent = the (wi_parent w), tk_key = w_key w,
      tk_title = w_title w, tk_state = SCHEDULE_STATE_TO_TASK_STATE (wi_schedule w), tk_assignee = w_assignee w,
      tk_devOwner = w_devOwner w, tk_team = wi_team w, tk_iteration = wi_iteration w, tk_estimate = w_estimate w,
      tk_todo = w_todo w, tk_actual = w_actual w, tk_rank = w_rank w, tk_start = None, tk_end = None, tk_version = 0,
      tk_deleted = False\<rparr>"

definition create_row :: "env \<Rightarrow> WorkItem \<Rightarrow> work_db \<Rightarrow> WorkItem \<times> work_db" where
  "create_row e w db =
     (if wi_type w = Task
      then let t = iteration_from_parent (work_items db) (stamp_task e None (task_of_item w))
           in ((mapTaskRow t)\<lparr>w_devOwner := tk_devOwner t\<rparr>, db\<lparr>tasks := tasks db @ [t]\<rparr>)
      else let r = stamp_item e None (toWorkItem w) in (r, db\<lparr>work_items := work_items db @ [r]\<rparr>))"

text \<open>\<^verbatim>\<open>uq_wi_item_key\<close> and \<^verbatim>\<open>uq_task_item_key\<close> on (workspace, key).\<close>

definition key_taken :: "work_db \<Rightarrow> uuid \<Rightarrow> WorkItemType \<Rightarrow> string \<Rightarrow> bool" where
  "key_taken db ws type key =
     (if type = Task then \<exists>t \<in> set (tasks db). tk_workspace t = ws \<and> tk_key t = key
      else \<exists>w \<in> set (work_items db). wi_workspace w = ws \<and> w_key w = key)"

definition rank_error_to_api :: "rank_error + string \<Rightarrow> api_error + string" where
  "rank_error_to_api r = (case r of Inl _ \<Rightarrow> Inl (Uncaught ''Error'') | Inr s \<Rightarrow> Inr s)"

definition create_in_tx :: "env \<Rightarrow> WorkItem \<Rightarrow> work_db \<Rightarrow> WorkItem \<times> work_db" where
  "create_in_tx e w db =
     (case create_row e w db of (created, db1) \<Rightarrow>
      let task = (wi_type w = Task);
          db2 = log_entry (wi_id w) (if task then ''task.created'' else ''work_item.created'') None db1;
          db3 = notifyAssignment e created (w_devOwner created) (notifyAssignment e created (w_assignee created) db2)
      in (created,
          if task \<and> present (wi_parent created) then reconcileParentScheduleState e (the (wi_parent created)) db3 else db3))"

fun create_tries ::
  "env \<Rightarrow> uuid \<Rightarrow> uuid \<Rightarrow> WorkItemType \<Rightarrow> string \<Rightarrow> uuid \<Rightarrow> item_opts \<Rightarrow> nat \<Rightarrow> nat \<Rightarrow> work_db \<Rightarrow> api_error + (WorkItem \<times> work_db)" where
  "create_tries e i projectId type title statusId opts attempt 0 db = Inl (Uncaught ''undefined'')"
| "create_tries e i projectId type title statusId opts attempt (Suc fuel) db =
     bind_sum (generateItemKey e projectId type db) (\<lambda>(key, db1).
     bind_sum (rank_error_to_api (between (findMaxRank db1 projectId (n_parent opts) (e_ws e)) None)) (\<lambda>rank.
     if key_taken db1 (e_ws e) type key
     then (if attempt < MAX_KEY_RETRIES - 1
           then create_tries e i projectId type title statusId opts (attempt + 1) fuel db1
           else Inl (Uncaught ''23505''))
     else Inr (create_in_tx e (new_item e i projectId type key title statusId rank opts) db1)))"

text \<open>The parent a new item may have.\<close>

definition check_new_parent :: "env \<Rightarrow> work_db \<Rightarrow> uuid \<Rightarrow> WorkItemType \<Rightarrow> uuid option \<Rightarrow> api_error + unit" where
  "check_new_parent e db projectId type parentId =
     (if present parentId
      then bind_sum (getWorkItem db (e_ws e) (the parentId)) (\<lambda>parent.
        if wi_project parent \<noteq> projectId then Inl (PreconditionFailed ''WORK_ITEM_PARENT_SCOPE_MISMATCH'')
        else bind_sum (assertTeamScope e db parent) (\<lambda>_.
          if type = Defect \<and> wi_type parent \<noteq> Story then Inl (PreconditionFailed ''WORK_ITEM_INVALID_PARENT_TYPE'')
          else if type = Task \<and> wi_type parent \<noteq> Story \<and> wi_type parent \<noteq> Defect
          then Inl (PreconditionFailed ''WORK_ITEM_INVALID_PARENT_TYPE'')
          else if type \<noteq> Defect \<and> type \<noteq> Task then Inl (PreconditionFailed ''WORK_ITEM_INVALID_PARENT_TYPE'')
          else Inr ()))
      else if type = Task then Inl (PreconditionFailed ''WORK_ITEM_INVALID_PARENT_TYPE'')
      else Inr ())"

definition createWorkItem ::
  "env \<Rightarrow> uuid \<Rightarrow> uuid \<Rightarrow> WorkItemType \<Rightarrow> string \<Rightarrow> item_opts \<Rightarrow> work_db \<Rightarrow> api_error + (WorkItem \<times> work_db)" where
  "createWorkItem e i projectId type title opts db =
     bind_sum (assertProjectWritable (view db) (e_ws e) projectId) (\<lambda>_.
     if type = Task \<and> n_iteration opts \<noteq> None then Inl (Invalid ''TASK_ITERATION_DERIVED'')
     else if n_release opts = Some None then Inl (Invalid ''BAD_REQUEST'')
     else if n_team opts = None \<and> resolveTeamScope (e_acc e) (e_eff e) (e_ws e) (e_actor e) projectId \<noteq> None
     then Inl (PreconditionFailed ''WORK_ITEM_TEAM_REQUIRED'')
     else
     bind_sum (assertPairScope e projectId (n_team opts)) (\<lambda>_.
     bind_sum (check_new_parent e db projectId type (n_parent opts)) (\<lambda>_.
     bind_sum (resolveStatusId db (e_ws e) projectId (n_status opts)) (\<lambda>statusId.
     bind_sum (if n_release opts \<noteq> None then assertMayAssignRelease e projectId else Inr ()) (\<lambda>_.
     bind_sum (assertAssignmentScope e db True projectId (n_team opts) (n_iteration opts)
                 (case n_release opts of None \<Rightarrow> None | Some r \<Rightarrow> r) (n_foundIn opts)
                 [n_assignee opts, n_reporter opts, n_devOwner opts] [n_assignee opts, n_devOwner opts]) (\<lambda>_.
     create_tries e i projectId type title statusId opts 0 MAX_KEY_RETRIES db))))))"

text \<open>What the caller may say of a new task; everything else is undefined.\<close>

definition task_opts ::
  "uuid option \<Rightarrow> uuid option \<Rightarrow> uuid option \<Rightarrow> num option \<Rightarrow> num option \<Rightarrow> num option \<Rightarrow> item_opts" where
  "task_opts assignee devOwner team estimate todo actual =
     \<lparr>n_status = None, n_schedule = None, n_priority = None, n_assignee = assignee, n_reporter = None, n_parent = None,
      n_team = team, n_iteration = None, n_release = None, n_foundIn = None, n_devOwner = devOwner, n_points = None,
      n_estimate = estimate, n_todo = todo, n_actual = actual, n_defectState = None\<rparr>"

definition createTask ::
  "env \<Rightarrow> uuid \<Rightarrow> uuid \<Rightarrow> string \<Rightarrow> uuid option \<Rightarrow> uuid option \<Rightarrow> uuid option \<Rightarrow> num option \<Rightarrow> num option \<Rightarrow> num option
    \<Rightarrow> work_db \<Rightarrow> api_error + (WorkItem \<times> work_db)" where
  "createTask e i parentId title assignee devOwner team estimate todo actual db =
     bind_sum (getWorkItem db (e_ws e) parentId) (\<lambda>parent.
     if wi_type parent \<noteq> Story \<and> wi_type parent \<noteq> Defect then Inl (PreconditionFailed ''WORK_ITEM_INVALID_PARENT_TYPE'')
     else createWorkItem e i (wi_project parent) Task title
            ((task_opts assignee devOwner (case team of Some t \<Rightarrow> Some t | None \<Rightarrow> wi_team parent) estimate todo actual)
               \<lparr>n_parent := Some (wi_id parent)\<rparr>) db)"

section \<open>Update\<close>

text \<open>The parent an item may be moved under.\<close>

definition check_moved_parent :: "env \<Rightarrow> work_db \<Rightarrow> WorkItem \<Rightarrow> uuid option option \<Rightarrow> api_error + unit" where
  "check_moved_parent e db item target =
     (case target of
        None \<Rightarrow> Inr ()
      | Some np \<Rightarrow>
          if np = wi_parent item then Inr ()
          else case wi_type item of
            Task \<Rightarrow>
              (case np of
                 None \<Rightarrow> Inl (PreconditionFailed ''WORK_ITEM_INVALID_PARENT_TYPE'')
               | Some p \<Rightarrow> bind_sum (getWorkItem db (e_ws e) p) (\<lambda>newParent.
                   if wi_project newParent \<noteq> wi_project item then Inl (PreconditionFailed ''WORK_ITEM_PARENT_SCOPE_MISMATCH'')
                   else bind_sum (assertTeamScope e db newParent) (\<lambda>_.
                     if wi_type newParent \<noteq> Story \<and> wi_type newParent \<noteq> Defect
                     then Inl (PreconditionFailed ''WORK_ITEM_INVALID_PARENT_TYPE'') else Inr ())))
          | Defect \<Rightarrow>
              (case np of
                 None \<Rightarrow> Inr ()
               | Some p \<Rightarrow> bind_sum (getWorkItem db (e_ws e) p) (\<lambda>newParent.
                   if wi_project newParent \<noteq> wi_project item then Inl (PreconditionFailed ''WORK_ITEM_PARENT_SCOPE_MISMATCH'')
                   else bind_sum (assertTeamScope e db newParent) (\<lambda>_.
                     if wi_type newParent \<noteq> Story
                     then Inl (PreconditionFailed ''WORK_ITEM_INVALID_PARENT_TYPE'') else Inr ())))
          | Story \<Rightarrow>
              (case np of None \<Rightarrow> Inr () | Some _ \<Rightarrow> Inl (PreconditionFailed ''WORK_ITEM_INVALID_PARENT_TYPE'')))"

text \<open>The sprints a carryover of the story may look at: all of the project, the current one, the eligible ones.\<close>

definition listProjectIterations :: "work_db \<Rightarrow> uuid \<Rightarrow> uuid \<Rightarrow> iteration_row list" where
  "listProjectIterations db projectId ws =
     js_sort (\<lambda>a b. let k = (\<lambda>r. (it_start r = None, case it_start r of None \<Rightarrow> [] | Some s \<Rightarrow> s, it_id r)) in
         if k a = k b then 0
         else if fst (k a) < fst (k b) \<or> fst (k a) = fst (k b) \<and> (fst (snd (k a)) < fst (snd (k b)) \<or>
                fst (snd (k a)) = fst (snd (k b)) \<and> snd (snd (k a)) < snd (snd (k b))) then -1 else 1)
       (filter (\<lambda>r. it_project r = projectId \<and> it_workspace r = ws) (iterations (base db)))"

definition carryoverContext :: "work_db \<Rightarrow> WorkItem \<Rightarrow> iteration_row option \<times> iteration_row list" where
  "carryoverContext db story =
     (let its = listProjectIterations db (wi_project story) (wi_workspace story);
          current = (case wi_iteration story of None \<Rightarrow> None | Some i \<Rightarrow> find (\<lambda>r. it_id r = i) its)
      in (current, case current of None \<Rightarrow> [] | Some c \<Rightarrow> eligibleIterations (wi_project story) (wi_team story) its c))"

definition assertTargetEndDate :: "work_db \<Rightarrow> WorkItem \<Rightarrow> item_input \<Rightarrow> api_error + unit" where
  "assertTargetEndDate db item u =
     (case u_target u of
        None \<Rightarrow> Inr ()
      | Some d \<Rightarrow>
          if wi_type item \<noteq> Story then Inl (PreconditionFailed ''TARGET_END_NOT_SUPPORTED'')
          else case d of
            None \<Rightarrow> Inr ()
          | Some date \<Rightarrow>
              if (case u_iteration u of None \<Rightarrow> False | Some i \<Rightarrow> i \<noteq> wi_iteration item)
              then Inl (PreconditionFailed ''TARGET_END_WITH_ITERATION_CHANGE'')
              else if wi_iteration item = None then Inl (PreconditionFailed ''TARGET_END_REQUIRES_ITERATION'')
              else case carryoverContext db item of (current, eligible) \<Rightarrow>
                if (case current of None \<Rightarrow> False | Some c \<Rightarrow> it_start c = None \<or> it_end c = None)
                then Inl (PreconditionFailed ''TARGET_END_DATE_INVALID'')
                else (case (case current of None \<Rightarrow> Verdict_invalid | Some c \<Rightarrow> targetEndVerdict date (w_start item) c eligible) of
                        Verdict_invalid \<Rightarrow> Inl (PreconditionFailed ''TARGET_END_DATE_INVALID'')
                      | Requires_carryover \<Rightarrow> Inl (PreconditionFailed ''TARGET_END_REQUIRES_CARRYOVER'')
                      | Verdict_save \<Rightarrow> Inr ()))"

fun validTransitions :: "DefectState \<Rightarrow> DefectState list" where
  "validTransitions D_submitted = [D_open, D_closed_declined]"
| "validTransitions D_open = [D_fixed, D_closed_declined]"
| "validTransitions D_fixed = [D_closed]"
| "validTransitions D_closed = []"
| "validTransitions D_closed_declined = []"

definition check_defect_state :: "WorkItem \<Rightarrow> item_input \<Rightarrow> api_error + unit" where
  "check_defect_state item u =
     (case (u_defectState u, w_defectState item) of
        (Some (Some target), Some from) \<Rightarrow>
          guard_sum (target \<in> set (validTransitions from)) (PreconditionFailed ''WORK_ITEM_INVALID_TRANSITION'')
      | _ \<Rightarrow> Inr ())"

text \<open>The two state fields are one value; a completed task has no hours left; the first estimate seeds the
  hours left.\<close>

definition mirror_state :: "item_input \<Rightarrow> api_error + item_input" where
  "mirror_state u =
     (if u_schedule u \<noteq> None \<and> u_flow u \<noteq> None \<and> u_schedule u \<noteq> u_flow u
      then Inl (PreconditionFailed ''WORK_ITEM_STATE_MIRROR_CONFLICT'')
      else case mirroredState u of None \<Rightarrow> Inr u | Some s \<Rightarrow> Inr (u\<lparr>u_schedule := Some s, u_flow := Some s\<rparr>))"

definition task_hours :: "WorkItem \<Rightarrow> item_input \<Rightarrow> item_input" where
  "task_hours item u =
     (if wi_type item \<noteq> Task then u
      else let completing = (case u_schedule u of None \<Rightarrow> False | Some s \<Rightarrow> isCompletedScheduleState s);
               u1 = (if completing \<and> u_todo u = None then u\<lparr>u_todo := Some (Some 0)\<rparr> else u);
               firstEstimate = (u_estimate u1 \<noteq> None \<and> u_todo u1 = None \<and> w_todo item = None)
           in if firstEstimate then u1\<lparr>u_todo := u_estimate u1\<rparr> else u1)"

definition clearReasonOnUnblock :: "item_input \<Rightarrow> item_input" where
  "clearReasonOnUnblock u = (if u_blocked u = Some False then u\<lparr>u_blockedReason := Some None\<rparr> else u)"

text \<open>The revision entries of an update, by field, in the order of \<^verbatim>\<open>ITEM_FIELDS\<close> / \<^verbatim>\<open>TASK_FIELDS\<close>. Fields that
  hold numbers are compared as text by the source and are left out here.\<close>

definition diff_value :: "string \<Rightarrow> 'v \<Rightarrow> 'v option \<Rightarrow> string list" where
  "diff_value field old new = (case new of None \<Rightarrow> [] | Some v \<Rightarrow> if v \<noteq> old then [field] else [])"

definition diffWorkItem :: "WorkItem \<Rightarrow> item_input \<Rightarrow> bool \<Rightarrow> string list" where
  "diffWorkItem w u isTask =
     diff_value ''title'' (w_title w) (u_title u) @
     diff_value ''isBlocked'' (w_blocked w) (u_blocked u) @
     diff_value ''blockedReason'' (w_blockedReason w) (u_blockedReason u) @
     diff_value ''teamId'' (wi_team w) (u_team u) @
     diff_value ''iterationId'' (wi_iteration w) (u_iteration u) @
     diff_value ''releaseId'' (w_release w) (u_release u) @
     diff_value ''featureId'' (w_feature w) (u_feature u) @
     diff_value ''statusId'' (w_status w) (u_status u) @
     diff_value ''scheduleState'' (wi_schedule w) (u_schedule u) @
     (if isTask then [] else diff_value ''flowState'' (w_flow w) (u_flow u)) @
     diff_value ''priority'' (w_priority w) (u_priority u) @
     diff_value ''assigneeId'' (w_assignee w) (u_assignee u) @
     (if isTask then [] else diff_value ''targetEndDate'' (w_target w) (u_target u))"

fun entry_action :: "bool \<Rightarrow> string \<Rightarrow> string" where
  "entry_action isTask field =
     (if isTask then (if field = ''scheduleState'' then ''task.state_changed'' else ''task.updated'')
      else if field = ''scheduleState'' then ''work_item.schedule_state_changed''
      else if field = ''flowState'' then ''work_item.flow_state_changed''
      else if field = ''priority'' then ''work_item.priority_changed''
      else if field = ''assigneeId'' then ''work_item.assigned''
      else if field = ''targetEndDate'' then ''work_item.target_end_date_changed''
      else ''work_item.updated'')"

definition log_fields :: "uuid \<Rightarrow> bool \<Rightarrow> string list \<Rightarrow> work_db \<Rightarrow> work_db" where
  "log_fields i isTask names db = fold (\<lambda>f d. log_entry i (entry_action isTask f) (Some f) d) names db"

text \<open>The people the update newly names, as the two rows returned by the repository show them.\<close>

definition newlyAssigned :: "item_input \<Rightarrow> WorkItem \<Rightarrow> WorkItem \<Rightarrow> uuid list" where
  "newlyAssigned u updated item =
     dedupe_by (\<lambda>x. x) {} (List.map_filter
       (\<lambda>(patched, after, before). if patched \<noteq> None \<and> present after \<and> after \<noteq> before then after else None)
       [(u_assignee u, w_assignee updated, w_assignee item), (u_devOwner u, w_devOwner updated, w_devOwner item)])"

definition auto_accept :: "env \<Rightarrow> uuid \<Rightarrow> work_db \<Rightarrow> work_db" where
  "auto_accept e i db =
     db\<lparr>base := (base db)\<lparr>iterations := iterations (snd (autoAcceptIterationIfComplete (e_now e) (view db) i (e_ws e)))\<rparr>\<rparr>"

definition affected_iterations :: "WorkItem \<Rightarrow> item_input \<Rightarrow> uuid list" where
  "affected_iterations item u =
     dedupe_by (\<lambda>x. x) {} (List.map_filter (\<lambda>x. x) [wi_iteration item, set_if (u_iteration u) (wi_iteration item)])"

text \<open>What the transaction of an update does after the row is written: the revision entries, the manual
  move, the sprints whose membership changed, the parent of a task, the notifications. \<open>item\<close> is the row
  as read before the update, \<open>u\<close> the normalised request.\<close>

definition after_update :: "env \<Rightarrow> WorkItem \<Rightarrow> item_input \<Rightarrow> WorkItem \<Rightarrow> work_db \<Rightarrow> work_db" where
  "after_update e item u updated db =
     (let isTask = (wi_type item = Task);
          iterationChanged = (case u_iteration u of None \<Rightarrow> False | Some i \<Rightarrow> i \<noteq> wi_iteration item);
          storyMove = (wi_type item = Story \<and> iterationChanged);
          logged = (if storyMove then filter (\<lambda>f. f \<noteq> ''iterationId'') (diffWorkItem item u isTask) else diffWorkItem item u isTask);
          db1 = log_fields (wi_id item) isTask logged db;
          db2 = (if storyMove
                 then db1\<lparr>base := recordManualMoves [item_row.truncate item] (set_if (u_iteration u) None) (base db1)\<rparr> else db1);
          acceptedTransition = (case u_schedule u of None \<Rightarrow> False
                                | Some s \<Rightarrow> isAcceptedScheduleState s \<and> \<not> isAcceptedScheduleState (wi_schedule item));
          db3 = (if \<not> isTask \<and> (acceptedTransition \<or> iterationChanged)
                 then fold (auto_accept e) (affected_iterations item u) db2 else db2);
          db4 = (if isTask \<and> present (wi_parent item) \<and> u_schedule u \<noteq> None
                 then reconcileParentScheduleState e (the (wi_parent item)) db3 else db3)
      in fold (\<lambda>r d. notifyAssignment e updated (Some r) d) (newlyAssigned u updated item) db4)"

text \<open>An item that gets another parent is ranked last under it.\<close>

definition rerank :: "env \<Rightarrow> WorkItem \<Rightarrow> item_input \<Rightarrow> work_db \<Rightarrow> api_error + item_input" where
  "rerank e item u db =
     (if (case u_parent u of None \<Rightarrow> False | Some p \<Rightarrow> p \<noteq> wi_parent item)
      then bind_sum (rank_error_to_api (between (findMaxRank db (wi_project item) (set_if (u_parent u) None) (e_ws e)) None))
             (\<lambda>r. Inr (u\<lparr>u_rank := Some r\<rparr>))
      else Inr u)"

definition update_in_tx :: "env \<Rightarrow> WorkItem \<Rightarrow> item_input \<Rightarrow> nat option \<Rightarrow> work_db \<Rightarrow> api_error + (WorkItem \<times> work_db)" where
  "update_in_tx e item u expected db =
     bind_sum (rerank e item u db) (\<lambda>u1.
     bind_sum (if wi_type item = Story \<and> (case u_iteration u of None \<Rightarrow> False | Some i \<Rightarrow> i \<noteq> wi_iteration item)
               then lockForManualMove (view db) [item_row.truncate item] else Inr ()) (\<lambda>_.
     bind_sum (update_row e (wi_id item) (clearReasonOnUnblock u1) expected db) (\<lambda>(updated, db1).
     Inr (updated, after_update e item u updated db1))))"

definition checkAssignment :: "env \<Rightarrow> work_db \<Rightarrow> WorkItem \<Rightarrow> item_input \<Rightarrow> api_error + unit" where
  "checkAssignment e db item u =
     (let newTeam = set_if (u_team u) (wi_team item);
          newIteration = (case set_if (u_iteration u) None of
                            Some x \<Rightarrow> Some x | None \<Rightarrow> if u_team u \<noteq> None then wi_iteration item else None);
          fresh = (\<lambda>sel old. let v = set_if sel None in if present v \<and> v \<noteq> old then [v] else []);
          memberIds = fresh (u_assignee u) (w_assignee item) @ fresh (u_reporter u) (w_reporter item) @ fresh (u_devOwner u) (w_devOwner item);
          assignableIds = fresh (u_assignee u) (w_assignee item) @ fresh (u_devOwner u) (w_devOwner item)
      in assertAssignmentScope e db (present (set_if (u_team u) None)) (wi_project item) newTeam newIteration
           (set_if (u_release u) None) (set_if (u_foundIn u) None) memberIds assignableIds)"

text \<open>The checks between the team change and the normalisation of the request, in order.\<close>

definition check_update :: "env \<Rightarrow> work_db \<Rightarrow> WorkItem \<Rightarrow> item_input \<Rightarrow> api_error + unit" where
  "check_update e db item u =
     bind_sum (if (case u_release u of None \<Rightarrow> False | Some r \<Rightarrow> r \<noteq> w_release item)
               then assertMayAssignRelease e (wi_project item) else Inr ()) (\<lambda>_.
     bind_sum (check_moved_parent e db item (u_parent u)) (\<lambda>_.
     bind_sum (if (case u_status u of None \<Rightarrow> False | Some s \<Rightarrow> s \<noteq> [] \<and> s \<noteq> w_status item)
               then assertTransitionAllowed db (wi_project item) (w_status item) (the (u_status u)) else Inr ()) (\<lambda>_.
     bind_sum (guard_sum (\<not> ((case u_priority u of None \<Rightarrow> False | Some p \<Rightarrow> p \<noteq> [] \<and> p \<noteq> ''none'') \<and> wi_type item = Story))
                 (PreconditionFailed ''WORK_ITEM_STORY_HAS_NO_PRIORITY'')) (\<lambda>_.
     bind_sum (guard_sum (\<not> (wi_type item = Task \<and> u_iteration u \<noteq> None)) (PreconditionFailed ''TASK_ITERATION_DERIVED'')) (\<lambda>_.
     bind_sum (assertTargetEndDate db item u) (\<lambda>_.
     bind_sum (if present (set_if (u_feature u) None)
               then assertFeatureLinkable db (e_ws e) (wi_type item) (the (set_if (u_feature u) None)) else Inr ()) (\<lambda>_.
     bind_sum (checkAssignment e db item u) (\<lambda>_.
     check_defect_state item u))))))))"

definition updateWorkItem ::
  "env \<Rightarrow> uuid \<Rightarrow> item_input \<Rightarrow> nat option \<Rightarrow> work_db \<Rightarrow> api_error + (WorkItem \<times> work_db)" where
  "updateWorkItem e i u0 expected db =
     bind_sum (getWorkItem db (e_ws e) i) (\<lambda>item.
     bind_sum (assertProjectWritable (view db) (e_ws e) (wi_project item)) (\<lambda>_.
     bind_sum (assertTeamScope e db item) (\<lambda>_.
     bind_sum (if (case u_team u0 of None \<Rightarrow> False | Some t \<Rightarrow> t \<noteq> wi_team item)
               then bind_sum (assertPairScope e (wi_project item) (set_if (u_team u0) None)) (\<lambda>_. resetOwnerOutsideTeam e db item u0)
               else Inr u0) (\<lambda>u.
     bind_sum (check_update e db item u) (\<lambda>_.
     bind_sum (mirror_state u) (\<lambda>u1.
     update_in_tx e item (task_hours item u1) expected db))))))"

section \<open>Delete\<close>

definition softDelete :: "env \<Rightarrow> uuid \<Rightarrow> work_db \<Rightarrow> work_db" where
  "softDelete e i db =
     (if \<exists>t \<in> set (tasks db). tk_id t = i \<and> tk_workspace t = e_ws e
      then write_task e i False (\<lambda>t. t\<lparr>tk_deleted := True\<rparr>) db
      else write_item e i (\<lambda>w. w\<lparr>wi_deleted := True\<rparr>) db)"

definition softDeleteByWorkItem :: "env \<Rightarrow> uuid \<Rightarrow> work_db \<Rightarrow> work_db" where
  "softDeleteByWorkItem e i db =
     db\<lparr>tests := update_where (\<lambda>t. tc_item t = i \<and> tc_workspace t = e_ws e \<and> \<not> tc_deleted t) (\<lambda>t. t\<lparr>tc_deleted := True\<rparr>) (tests db)\<rparr>"

definition deleteWorkItem :: "env \<Rightarrow> uuid \<Rightarrow> work_db \<Rightarrow> api_error + work_db" where
  "deleteWorkItem e i db =
     bind_sum (getWorkItem db (e_ws e) i) (\<lambda>item.
     bind_sum (assertTeamScope e db item) (\<lambda>_.
     bind_sum (assertProjectWritable (view db) (e_ws e) (wi_project item)) (\<lambda>_.
     let db1 = softDeleteByWorkItem e i (softDelete e i db);
         db2 = log_entry i (if wi_type item = Task then ''task.deleted'' else ''work_item.deleted'') None db1
     in Inr (if wi_type item = Task \<and> present (wi_parent item)
             then reconcileParentScheduleState e (the (wi_parent item)) db2 else db2))))"

end
