(* ===== verification/PortfolioRollup.thy ===== *)
theory PortfolioRollup
  imports Prelude
begin

text \<open>
  The portfolio rules of \<^verbatim>\<open>libs/modules/portfolio/src/domain/portfolio-rollup.ts\<close>: progress of a portfolio
  item, the estimate tiers, the capacity warnings and the cutline of a plan, and the size map of
  \<^verbatim>\<open>preliminary-estimate-map.service.ts\<close>.
\<close>

section \<open>Progress\<close>

record PortfolioRollupInput =
  rollupPoints :: num
  rollupCount :: num
  acceptedPoints :: num
  acceptedCount :: num

record PortfolioForecastInput =
  refinedPoints :: "num option"
  refinedCount :: "num option"
  preliminaryPoints :: num
  preliminaryCount :: num

record PortfolioProgress =
  percentDoneByPlanEstimate :: "num option"
  percentDoneByCount :: "num option"
  estimatedProgressByPoints :: "num option"
  estimatedProgressByCount :: "num option"

definition forecastTarget :: "num option \<Rightarrow> num \<Rightarrow> num" where
  "forecastTarget refined preliminary = (case refined of Some r \<Rightarrow> if r > 0 then r else preliminary | None \<Rightarrow> preliminary)"

definition ratio :: "num \<Rightarrow> num \<Rightarrow> num option" where
  "ratio numerator denominator =
     (if \<not> denominator > 0 then None
      else let r = numerator / denominator in Some (if r < 0 then 0 else r))"

definition computePortfolioProgress :: "PortfolioRollupInput \<Rightarrow> PortfolioForecastInput \<Rightarrow> PortfolioProgress" where
  "computePortfolioProgress rollup forecast =
     (let pointsTarget = forecastTarget (refinedPoints forecast) (preliminaryPoints forecast);
          countTarget = forecastTarget (refinedCount forecast) (preliminaryCount forecast)
      in \<lparr>percentDoneByPlanEstimate = ratio (acceptedPoints rollup) (rollupPoints rollup),
          percentDoneByCount = ratio (acceptedCount rollup) (rollupCount rollup),
          estimatedProgressByPoints = ratio (acceptedPoints rollup) pointsTarget,
          estimatedProgressByCount = ratio (acceptedCount rollup) countTarget\<rparr>)"

section \<open>Estimate tiers\<close>

datatype PreliminaryEstimateSize = Size_no_entry | Size_xs | Size_s | Size_m | Size_l | Size_xl

text \<open>The point sizes a project has set (extra small to extra large), if it has a settings row.\<close>

record size_settings =
  xsPoints :: num
  sPoints :: num
  mPoints :: num
  lPoints :: num
  xlPoints :: num

text \<open>The points and the count of a size.\<close>

fun size_of :: "size_settings \<Rightarrow> PreliminaryEstimateSize \<Rightarrow> num \<times> num" where
  "size_of s Size_no_entry = (0, 0)"
| "size_of s Size_xs = (xsPoints s, 1)"
| "size_of s Size_s = (sPoints s, 2)"
| "size_of s Size_m = (mPoints s, 3)"
| "size_of s Size_l = (lPoints s, 5)"
| "size_of s Size_xl = (xlPoints s, 8)"

fun DEFAULT_PRELIMINARY_ESTIMATE_MAP :: "PreliminaryEstimateSize \<Rightarrow> num \<times> num" where
  "DEFAULT_PRELIMINARY_ESTIMATE_MAP Size_no_entry = (0, 0)"
| "DEFAULT_PRELIMINARY_ESTIMATE_MAP Size_xs = (1, 1)"
| "DEFAULT_PRELIMINARY_ESTIMATE_MAP Size_s = (3, 2)"
| "DEFAULT_PRELIMINARY_ESTIMATE_MAP Size_m = (5, 3)"
| "DEFAULT_PRELIMINARY_ESTIMATE_MAP Size_l = (8, 5)"
| "DEFAULT_PRELIMINARY_ESTIMATE_MAP Size_xl = (13, 8)"

definition forProject :: "(uuid \<times> size_settings) list \<Rightarrow> uuid \<Rightarrow> PreliminaryEstimateSize \<Rightarrow> num \<times> num" where
  "forProject settings projectId =
     (case map_of settings projectId of None \<Rightarrow> DEFAULT_PRELIMINARY_ESTIMATE_MAP | Some s \<Rightarrow> size_of s)"

datatype EstimateTier = Tier_allocated | Tier_refined | Tier_preliminary | Tier_none

definition defaultAllocationEstimate :: "num option \<Rightarrow> num \<Rightarrow> num \<times> EstimateTier" where
  "defaultAllocationEstimate refined preliminary =
     (if (case refined of Some r \<Rightarrow> r > 0 | None \<Rightarrow> False) then (the refined, Tier_refined)
      else if preliminary > 0 then (preliminary, Tier_preliminary)
      else (0, Tier_none))"

definition resolveEstimate :: "num \<Rightarrow> num option \<Rightarrow> num \<Rightarrow> num \<times> EstimateTier" where
  "resolveEstimate totalAllocated refined preliminary =
     (if totalAllocated > 0 then (totalAllocated, Tier_allocated)
      else if (case refined of Some r \<Rightarrow> r > 0 | None \<Rightarrow> False) then (the refined, Tier_refined)
      else if preliminary > 0 then (preliminary, Tier_preliminary)
      else (0, Tier_none))"

section \<open>Warnings\<close>

datatype CapacityWarning =
    Feature_missing_estimate
  | Team_missing_capacity
  | Rollup_exceeds_estimated
  | Rollup_exceeds_capacity
  | Estimated_exceeds_capacity

datatype warned = Warned_team | Warned_feature

text \<open>\<open>tier\<close>: absent for a team.\<close>

definition computeCapacityWarnings :: "warned \<Rightarrow> num \<Rightarrow> num \<Rightarrow> num option \<Rightarrow> EstimateTier option \<Rightarrow> CapacityWarning list" where
  "computeCapacityWarnings kind rollup estimated capacity tier =
     (if kind = Warned_feature \<and> tier = Some Tier_none then [Feature_missing_estimate] else []) @
     (if kind = Warned_team \<and> (case capacity of None \<Rightarrow> True | Some c \<Rightarrow> c \<le> 0) then [Team_missing_capacity] else []) @
     (if rollup > estimated then [Rollup_exceeds_estimated] else []) @
     (case capacity of
        None \<Rightarrow> []
      | Some c \<Rightarrow>
          if c > 0
          then (if rollup > c then [Rollup_exceeds_capacity] else []) @
               (if estimated > c then [Estimated_exceeds_capacity] else [])
          else [])"

section \<open>The cutline\<close>

fun cutline_loop :: "num \<Rightarrow> num \<Rightarrow> int \<Rightarrow> int \<Rightarrow> num list \<Rightarrow> int" where
  "cutline_loop capacity running i lastFitting [] = lastFitting"
| "cutline_loop capacity running i lastFitting (x # xs) =
     (if running + x > capacity then lastFitting
      else cutline_loop capacity (running + x) (i + 1) i xs)"

definition computeCutlineIndex :: "num list \<Rightarrow> num option \<Rightarrow> int option" where
  "computeCutlineIndex estimates capacity =
     (case capacity of
        None \<Rightarrow> None
      | Some c \<Rightarrow> if c \<le> 0 then None else Some (cutline_loop c 0 0 (-1) estimates))"

section \<open>What the rules say\<close>

lemma cutline_loop_spec:
  assumes "cutline_loop c r i (i - 1) xs = k"
  shows "\<exists>n. k = i + int n - 1 \<and> n \<le> length xs \<and> (\<forall>m. 1 \<le> m \<and> m \<le> n \<longrightarrow> r + sum_list (take m xs) \<le> c) \<and>
    (n < length xs \<longrightarrow> r + sum_list (take (Suc n) xs) > c)"
  using assms
proof (induction xs arbitrary: r i)
  case (Cons x xs)
  show ?case
  proof (cases "r + x > c")
    case True
    with Cons.prems show ?thesis by (intro exI [of _ 0]) auto
  next
    case False
    with Cons.prems have "cutline_loop c (r + x) (i + 1) (i + 1 - 1) xs = k" by simp
    from Cons.IH [OF this] obtain n where n: "k = i + 1 + int n - 1" "n \<le> length xs"
      "\<forall>m. 1 \<le> m \<and> m \<le> n \<longrightarrow> r + x + sum_list (take m xs) \<le> c"
      "n < length xs \<longrightarrow> r + x + sum_list (take (Suc n) xs) > c" by blast
    have "r + sum_list (take m (x # xs)) \<le> c" if "1 \<le> m" "m \<le> Suc n" for m
    proof (cases m)
      case (Suc m')
      then show ?thesis using n(3) that False by (cases m') (auto simp: add.assoc [symmetric])
    qed (use that in simp)
    with n show ?thesis by (intro exI [of _ "Suc n"]) (auto simp: add.assoc [symmetric])
  qed
qed simp

lemma cutline_fits:
  assumes "computeCutlineIndex estimates (Some c) = Some k" and "0 < c"
  shows "-1 \<le> k \<and> k < int (length estimates) \<and>
    (\<forall>i. 0 \<le> i \<and> i \<le> k \<longrightarrow> sum_list (take (nat i + 1) estimates) \<le> c) \<and>
    (k + 1 < int (length estimates) \<longrightarrow> c < sum_list (take (nat (k + 1) + 1) estimates))"
proof -
  from assms have "cutline_loop c 0 0 (0 - 1) estimates = k" by (simp add: computeCutlineIndex_def)
  from cutline_loop_spec [OF this] obtain n where n: "k = int n - 1" "n \<le> length estimates"
    "\<forall>m. 1 \<le> m \<and> m \<le> n \<longrightarrow> sum_list (take m estimates) \<le> c"
    "n < length estimates \<longrightarrow> c < sum_list (take (Suc n) estimates)" by auto
  moreover have "sum_list (take (nat i + 1) estimates) \<le> c" if "0 \<le> i" "i \<le> k" for i
    using n(3) [rule_format, of "nat i + 1"] that n(1) by auto
  ultimately show ?thesis by auto
qed

lemma resolveEstimate_default:
  "resolveEstimate t refined preliminary =
    (if t > 0 then (t, Tier_allocated) else defaultAllocationEstimate refined preliminary)"
  by (simp add: resolveEstimate_def defaultAllocationEstimate_def)

lemma defaultAllocationEstimate_nonneg: "0 \<le> fst (defaultAllocationEstimate refined preliminary)"
  by (auto simp: defaultAllocationEstimate_def split: option.splits)

lemma tier_none_iff: "snd (resolveEstimate t refined preliminary) = Tier_none \<longleftrightarrow> fst (resolveEstimate t refined preliminary) \<le> 0"
  by (auto simp: resolveEstimate_def split: option.splits)

text \<open>Progress is over one when the accepted points exceed the forecast.\<close>

lemma ratio_over_one: "0 < d \<Longrightarrow> d < n \<Longrightarrow> ratio n d = Some (n / d) \<and> 1 < n / d"
  by (auto simp: ratio_def Let_def divide_less_0_iff)

end
