(* ===== verification/CapacityPlans.thy ===== *)
theory CapacityPlans
  imports WorkItems PortfolioRollup "HOL-Library.AList"
begin

text \<open>
  Capacity plans: the writes of \<^verbatim>\<open>capacity-plans.service.ts\<close> over the tables of
  \<^verbatim>\<open>capacity-plan.drizzle-repository.ts\<close>. A plan belongs to a release of a project; each allocation row
  commits a value of one Feature to one team of the plan, or parks it (no team); one team row per
  Feature is the primary one. A statement that violates a constraint of the schema throws its SQLSTATE. Each
  handler gives the tables after it; its answer is the plan detail read from them.
\<close>

section \<open>Tables\<close>

datatype CapacityPlanStatus = Draft | Published

datatype CapacityPlanUnit = In_points | In_count

datatype CapacityAllocationSource = Feature_estimate | Manual

datatype PortfolioItemType = Epic | Feature

record plan_row =
  cp_id :: uuid
  cp_workspace :: uuid
  cp_project :: uuid
  cp_release :: uuid
  cp_key :: string
  cp_name :: string
  cp_status :: CapacityPlanStatus
  cp_unit :: CapacityPlanUnit
  cp_start :: "iso_date option"
  cp_end :: "iso_date option"
  cp_publishedAt :: "nat option"
  cp_publishedBy :: "uuid option"

record plan_team_row =
  ct_plan :: uuid
  ct_team :: uuid
  ct_capacity :: "num option"

record allocation_row =
  al_id :: uuid
  al_plan :: uuid
  al_item :: uuid
  al_team :: "uuid option"
  al_primary :: bool
  al_value :: num
  al_source :: CapacityAllocationSource
  al_created :: nat

record portfolio_item_row =
  pf_id :: uuid
  pf_workspace :: uuid
  pf_project :: uuid
  pf_key :: string
  pf_type :: PortfolioItemType
  pf_state :: string
  pf_size :: PreliminaryEstimateSize
  pf_refined :: num
  pf_refinedCount :: num
  pf_release :: "uuid option"
  pf_team :: "uuid option"
  pf_rank :: string
  pf_start :: "iso_date option"
  pf_end :: "iso_date option"
  pf_archived :: bool

record release_row =
  rl_id :: uuid
  rl_workspace :: uuid
  rl_project :: uuid
  rl_start :: "iso_date option"
  rl_end :: "iso_date option"

record team_row =
  te_id :: uuid
  te_workspace :: uuid
  te_active :: bool

text \<open>\<open>cd_base\<close> holds the projects and their team links; \<open>cd_children\<close> the work items.\<close>

record cap_db =
  cd_base :: iter_db
  cd_plans :: "plan_row list"
  cd_planTeams :: "plan_team_row list"
  cd_allocations :: "allocation_row list"
  cd_items :: "portfolio_item_row list"
  cd_releases :: "release_row list"
  cd_teams :: "team_row list"
  cd_settings :: "(uuid \<times> size_settings) list"
  cd_children :: "WorkItem list"

section \<open>Plans and their teams\<close>

definition findPlan :: "cap_db \<Rightarrow> uuid \<Rightarrow> uuid \<Rightarrow> plan_row option" where
  "findPlan db i ws = find (\<lambda>p. cp_id p = i \<and> cp_workspace p = ws) (cd_plans db)"

definition findByProjectRelease :: "cap_db \<Rightarrow> uuid \<Rightarrow> uuid \<Rightarrow> uuid \<Rightarrow> plan_row option" where
  "findByProjectRelease db projectId releaseId ws =
     find (\<lambda>p. cp_project p = projectId \<and> cp_release p = releaseId \<and> cp_workspace p = ws) (cd_plans db)"

definition findTeam :: "cap_db \<Rightarrow> uuid \<Rightarrow> uuid \<Rightarrow> plan_team_row option" where
  "findTeam db planId teamId = find (\<lambda>t. ct_plan t = planId \<and> ct_team t = teamId) (cd_planTeams db)"

definition requireDraft :: "env \<Rightarrow> cap_db \<Rightarrow> uuid \<Rightarrow> api_error + plan_row" where
  "requireDraft e db i =
     (case findPlan db i (e_ws e) of
        None \<Rightarrow> Inl (NotFound ''CAPACITY_PLAN_NOT_FOUND'')
      | Some plan \<Rightarrow>
          bind_sum (assertProjectWritable (cd_base db) (e_ws e) (cp_project plan)) (\<lambda>_.
          if cp_status plan \<noteq> Draft then Inl (PreconditionFailed ''CAPACITY_PLAN_NOT_DRAFT'') else Inr plan))"

definition requirePlanTeam :: "cap_db \<Rightarrow> uuid \<Rightarrow> uuid \<Rightarrow> api_error + plan_team_row" where
  "requirePlanTeam db planId teamId =
     (case findTeam db planId teamId of None \<Rightarrow> Inl (NotFound ''CAPACITY_TEAM_NOT_FOUND'') | Some t \<Rightarrow> Inr t)"

definition assertReleaseInProject :: "cap_db \<Rightarrow> uuid \<Rightarrow> uuid \<Rightarrow> uuid \<Rightarrow> api_error + unit" where
  "assertReleaseInProject db ws projectId releaseId =
     guard_sum (\<exists>r \<in> set (cd_releases db). rl_id r = releaseId \<and> rl_workspace r = ws \<and> rl_project r = projectId)
       (PreconditionFailed ''CAPACITY_PLAN_RELEASE_MISMATCH'')"

definition assertTeamInProject :: "cap_db \<Rightarrow> uuid \<Rightarrow> uuid \<Rightarrow> uuid \<Rightarrow> api_error + unit" where
  "assertTeamInProject db ws projectId teamId =
     guard_sum ((\<exists>t \<in> set (cd_teams db). te_id t = teamId \<and> te_workspace t = ws \<and> te_active t) \<and>
                (\<exists>l \<in> set (links (cd_base db)). pt_team l = teamId \<and> pt_project l = projectId \<and> pt_active l))
       (NotFound ''CAPACITY_TEAM_NOT_FOUND'')"

definition nextPlanNumber :: "plan_row list \<Rightarrow> uuid \<Rightarrow> uuid \<Rightarrow> nat" where
  "nextPlanNumber plans projectId ws =
     nat (fold max (List.map_filter (\<lambda>p. if cp_project p = projectId \<and> cp_workspace p = ws then key_number (cp_key p) else None) plans) 0) + 1"

text \<open>\<^verbatim>\<open>uq_capacity_plan_project_release\<close>, \<^verbatim>\<open>uq_capacity_plans_key\<close> and the primary key.\<close>

definition plan_clash :: "plan_row list \<Rightarrow> plan_row \<Rightarrow> bool" where
  "plan_clash plans p \<longleftrightarrow>
     (\<exists>q \<in> set plans. cp_id q = cp_id p \<or> cp_project q = cp_project p \<and> (cp_release q = cp_release p \<or> cp_key q = cp_key p))"

definition PLAN_KEY_RETRIES :: nat where
  "PLAN_KEY_RETRIES = 2"

text \<open>\<open>others k\<close>: the plans other requests commit between the key of attempt \<open>k\<close> and its insert; \<open>fuel\<close>:
  the attempts left.\<close>

fun plan_tries :: "(nat \<Rightarrow> plan_row list \<Rightarrow> plan_row list) \<Rightarrow> plan_row \<Rightarrow> nat \<Rightarrow> nat \<Rightarrow> plan_row list \<Rightarrow> api_error + plan_row list" where
  "plan_tries others row attempt 0 plans = Inl (Uncaught ''undefined'')"
| "plan_tries others row attempt (Suc fuel) plans =
     (let row' = row\<lparr>cp_key := ''CP-'' @ decimal (nextPlanNumber plans (cp_project row) (cp_workspace row))\<rparr>;
          plans' = others attempt plans
      in if plan_clash plans' row'
         then (if attempt = PLAN_KEY_RETRIES - 1 then Inl (Uncaught ''23505'') else plan_tries others row (attempt + 1) fuel plans')
         else Inr (plans' @ [row']))"

definition createPlan ::
  "env \<Rightarrow> (nat \<Rightarrow> plan_row list \<Rightarrow> plan_row list) \<Rightarrow> uuid \<Rightarrow> uuid \<Rightarrow> uuid \<Rightarrow> string \<Rightarrow> CapacityPlanUnit \<Rightarrow> iso_date option \<Rightarrow> iso_date option
    \<Rightarrow> cap_db \<Rightarrow> api_error + cap_db" where
  "createPlan e others i projectId releaseId name unit start finish db =
     bind_sum (assertProjectPermission (e_eff e) projectId ''capacity:manage'') (\<lambda>_.
     bind_sum (assertProjectWritable (cd_base db) (e_ws e) projectId) (\<lambda>_.
     bind_sum (assertReleaseInProject db (e_ws e) projectId releaseId) (\<lambda>_.
     if findByProjectRelease db projectId releaseId (e_ws e) \<noteq> None then Inl (Conflict ''CAPACITY_PLAN_EXISTS'')
     else bind_sum (plan_tries others
            \<lparr>cp_id = i, cp_workspace = e_ws e, cp_project = projectId, cp_release = releaseId, cp_key = [], cp_name = name,
             cp_status = Draft, cp_unit = unit, cp_start = start, cp_end = finish, cp_publishedAt = None, cp_publishedBy = None\<rparr>
            0 PLAN_KEY_RETRIES (cd_plans db)) (\<lambda>plans. Inr (db\<lparr>cd_plans := plans\<rparr>)))))"

text \<open>The rows of a plan go with it.\<close>

definition deletePlan :: "env \<Rightarrow> uuid \<Rightarrow> cap_db \<Rightarrow> api_error + cap_db" where
  "deletePlan e i db =
     (case findPlan db i (e_ws e) of
        None \<Rightarrow> Inl (NotFound ''CAPACITY_PLAN_NOT_FOUND'')
      | Some plan \<Rightarrow>
          bind_sum (assertProjectPermission (e_eff e) (cp_project plan) ''capacity:manage'') (\<lambda>_.
          bind_sum (assertProjectWritable (cd_base db) (e_ws e) (cp_project plan)) (\<lambda>_.
          Inr (db\<lparr>cd_plans := filter (\<lambda>p. \<not> (cp_id p = i \<and> cp_workspace p = e_ws e)) (cd_plans db),
                  cd_planTeams := filter (\<lambda>t. ct_plan t \<noteq> i) (cd_planTeams db),
                  cd_allocations := filter (\<lambda>a. al_plan a \<noteq> i) (cd_allocations db)\<rparr>))))"

definition update_plan_row :: "env \<Rightarrow> uuid \<Rightarrow> (plan_row \<Rightarrow> plan_row) \<Rightarrow> cap_db \<Rightarrow> cap_db" where
  "update_plan_row e i f db = db\<lparr>cd_plans := update_where (\<lambda>p. cp_id p = i \<and> cp_workspace p = e_ws e) f (cd_plans db)\<rparr>"

text \<open>A planner's change to a draft.\<close>

definition planning :: "env \<Rightarrow> uuid \<Rightarrow> cap_db \<Rightarrow> (plan_row \<Rightarrow> api_error + 'a) \<Rightarrow> api_error + 'a" where
  "planning e i db f =
     bind_sum (requireDraft e db i) (\<lambda>plan.
     bind_sum (assertProjectPermission (e_eff e) (cp_project plan) ''capacity:manage'') (\<lambda>_. f plan))"

definition updatePlan :: "env \<Rightarrow> uuid \<Rightarrow> string option \<Rightarrow> iso_date option option \<Rightarrow> iso_date option option \<Rightarrow> cap_db \<Rightarrow> api_error + cap_db" where
  "updatePlan e i name start finish db =
     planning e i db (\<lambda>_.
       Inr (update_plan_row e i (\<lambda>p. p\<lparr>cp_name := set_if name (cp_name p), cp_start := set_if start (cp_start p),
                                       cp_end := set_if finish (cp_end p)\<rparr>) db))"

definition addTeam :: "env \<Rightarrow> uuid \<Rightarrow> uuid \<Rightarrow> cap_db \<Rightarrow> api_error + cap_db" where
  "addTeam e i teamId db =
     planning e i db (\<lambda>plan.
       bind_sum (assertTeamInProject db (e_ws e) (cp_project plan) teamId) (\<lambda>_.
       if findTeam db i teamId \<noteq> None then Inl (Conflict ''CAPACITY_TEAM_ALREADY_ADDED'')
       else Inr (db\<lparr>cd_planTeams := cd_planTeams db @ [\<lparr>ct_plan = i, ct_team = teamId, ct_capacity = None\<rparr>]\<rparr>)))"

text \<open>\<^verbatim>\<open>numeric(10, 2)\<close>: two decimals, halves away from zero (upwards on the amounts here).\<close>

definition numeric_10_2 :: "num \<Rightarrow> api_error + num" where
  "numeric_10_2 x =
     (let r = of_int (math_round (x * 100)) / 100 in
      if 10 ^ 8 \<le> \<bar>r\<bar> then Inl (Uncaught ''22003'') else Inr r)"

definition setTeamCapacity :: "env \<Rightarrow> uuid \<Rightarrow> uuid \<Rightarrow> num option \<Rightarrow> cap_db \<Rightarrow> api_error + cap_db" where
  "setTeamCapacity e i teamId capacity db =
     planning e i db (\<lambda>_.
       bind_sum (requirePlanTeam db i teamId) (\<lambda>_.
       bind_sum (case capacity of None \<Rightarrow> Inr None | Some c \<Rightarrow> bind_sum (numeric_10_2 c) (\<lambda>v. if v < 0 then Inl (Uncaught ''23514'') else Inr (Some v))) (\<lambda>c.
       Inr (db\<lparr>cd_planTeams := update_where (\<lambda>t. ct_plan t = i \<and> ct_team t = teamId) (\<lambda>t. t\<lparr>ct_capacity := c\<rparr>) (cd_planTeams db)\<rparr>))))"

section \<open>Statements on the allocations\<close>

definition oldest_first :: "allocation_row \<Rightarrow> allocation_row \<Rightarrow> int" where
  "oldest_first a b =
     (if al_created a < al_created b then -1 else if al_created b < al_created a then 1
      else if al_id a < al_id b then -1 else if al_id b < al_id a then 1 else 0)"

definition primary_first :: "allocation_row \<Rightarrow> allocation_row \<Rightarrow> int" where
  "primary_first a b = (if al_primary a \<and> \<not> al_primary b then -1 else if al_primary b \<and> \<not> al_primary a then 1 else oldest_first a b)"

definition findAllocation :: "uuid \<Rightarrow> uuid \<Rightarrow> allocation_row list \<Rightarrow> allocation_row option" where
  "findAllocation i planId rows = find (\<lambda>a. al_id a = i \<and> al_plan a = planId) rows"

definition findAllocationFor :: "uuid \<Rightarrow> uuid \<Rightarrow> uuid option \<Rightarrow> allocation_row list \<Rightarrow> allocation_row option" where
  "findAllocationFor planId itemId teamId rows = find (\<lambda>a. al_plan a = planId \<and> al_item a = itemId \<and> al_team a = teamId) rows"

definition listAllocationsForTeam :: "uuid \<Rightarrow> uuid \<Rightarrow> allocation_row list \<Rightarrow> allocation_row list" where
  "listAllocationsForTeam planId teamId rows = js_sort oldest_first (filter (\<lambda>a. al_plan a = planId \<and> al_team a = Some teamId) rows)"

definition listAllocationsForItem :: "uuid \<Rightarrow> uuid \<Rightarrow> allocation_row list \<Rightarrow> allocation_row list" where
  "listAllocationsForItem planId itemId rows = js_sort primary_first (filter (\<lambda>a. al_plan a = planId \<and> al_item a = itemId) rows)"

definition hasPrimaryAllocation :: "uuid \<Rightarrow> uuid \<Rightarrow> allocation_row list \<Rightarrow> bool" where
  "hasPrimaryAllocation planId itemId rows \<longleftrightarrow> (\<exists>a \<in> set rows. al_plan a = planId \<and> al_item a = itemId \<and> al_primary a)"

definition oldestTeamAllocation :: "uuid \<Rightarrow> uuid \<Rightarrow> allocation_row list \<Rightarrow> uuid option" where
  "oldestTeamAllocation planId itemId rows =
     (case js_sort oldest_first (filter (\<lambda>a. al_plan a = planId \<and> al_item a = itemId \<and> al_team a \<noteq> None) rows) of
        [] \<Rightarrow> None | a # _ \<Rightarrow> Some (al_id a))"

text \<open>\<^verbatim>\<open>uq_capacity_allocation_team\<close>, \<^verbatim>\<open>uq_capacity_allocation_unassigned\<close> and \<^verbatim>\<open>uq_capacity_allocation_primary\<close>.\<close>

definition allocation_clash :: "allocation_row \<Rightarrow> allocation_row \<Rightarrow> bool" where
  "allocation_clash a b \<longleftrightarrow>
     al_plan a = al_plan b \<and> al_item a = al_item b \<and> (al_team a = al_team b \<or> al_primary a \<and> al_primary b)"

text \<open>The row a statement stores beside the rows \<open>others\<close>.\<close>

definition stored_row :: "allocation_row \<Rightarrow> allocation_row list \<Rightarrow> api_error + allocation_row" where
  "stored_row r others =
     bind_sum (numeric_10_2 (al_value r)) (\<lambda>v.
     if v < 0 \<or> al_primary r \<and> al_team r = None then Inl (Uncaught ''23514'')
     else if \<exists>b \<in> set others. allocation_clash r b then Inl (Uncaught ''23505'')
     else Inr (r\<lparr>al_value := v\<rparr>))"

definition createAllocation :: "allocation_row \<Rightarrow> allocation_row list \<Rightarrow> api_error + allocation_row list" where
  "createAllocation r rows =
     (if al_id r \<in> al_id ` set rows then Inl (Uncaught ''23505'')
      else bind_sum (stored_row r rows) (\<lambda>r'. Inr (rows @ [r'])))"

text \<open>An update of a row that is gone answers nothing, and mapping it throws.\<close>

definition updateAllocation :: "uuid \<Rightarrow> (allocation_row \<Rightarrow> allocation_row) \<Rightarrow> allocation_row list \<Rightarrow> api_error + allocation_row list" where
  "updateAllocation i f rows =
     (case find (\<lambda>a. al_id a = i) rows of
        None \<Rightarrow> Inl (Uncaught ''TypeError'')
      | Some a \<Rightarrow>
          bind_sum (stored_row (f a) (filter (\<lambda>b. al_id b \<noteq> i) rows)) (\<lambda>a'.
          Inr (update_where (\<lambda>b. al_id b = i) (\<lambda>_. a') rows)))"

definition deleteAllocation :: "uuid \<Rightarrow> allocation_row list \<Rightarrow> allocation_row list" where
  "deleteAllocation i rows = filter (\<lambda>a. al_id a \<noteq> i) rows"

definition clearPrimaryAllocations :: "uuid \<Rightarrow> uuid \<Rightarrow> allocation_row list \<Rightarrow> allocation_row list" where
  "clearPrimaryAllocations planId itemId rows =
     update_where (\<lambda>a. al_plan a = planId \<and> al_item a = itemId \<and> al_primary a) (\<lambda>a. a\<lparr>al_primary := False\<rparr>) rows"

definition mergeParked :: "allocation_row list \<Rightarrow> num \<times> CapacityAllocationSource" where
  "mergeParked rows = (sum_list (map al_value rows), if length rows = 1 then al_source (hd rows) else Manual)"

definition set_value :: "num \<times> CapacityAllocationSource \<Rightarrow> allocation_row \<Rightarrow> allocation_row" where
  "set_value v a = a\<lparr>al_value := fst v, al_source := snd v\<rparr>"

text \<open>The primary assignment goes to the oldest team row that is left.\<close>

definition promote :: "uuid \<Rightarrow> uuid \<Rightarrow> allocation_row list \<Rightarrow> api_error + allocation_row list" where
  "promote planId itemId rows =
     (case oldestTeamAllocation planId itemId rows of
        None \<Rightarrow> Inr rows
      | Some i \<Rightarrow> updateAllocation i (\<lambda>a. a\<lparr>al_primary := True\<rparr>) rows)"

section \<open>Handlers of the allocations\<close>

text \<open>The rows of a team that leaves; \<open>rows0\<close>: the rows before the transaction, which the search for a
  parked row reads.\<close>

fun park_rows :: "uuid \<Rightarrow> allocation_row list \<Rightarrow> allocation_row list \<Rightarrow> allocation_row list \<Rightarrow> api_error + allocation_row list" where
  "park_rows planId rows0 [] rows = Inr rows"
| "park_rows planId rows0 (r # rs) rows =
     bind_sum
       (case findAllocationFor planId (al_item r) None rows0 of
          Some parked \<Rightarrow>
            bind_sum (updateAllocation (al_id parked) (set_value (mergeParked [parked, r])) rows) (\<lambda>rows'.
            Inr (deleteAllocation (al_id r) rows'))
        | None \<Rightarrow> updateAllocation (al_id r) (\<lambda>a. a\<lparr>al_team := None, al_primary := False\<rparr>) rows)
       (park_rows planId rows0 rs)"

fun promote_each :: "uuid \<Rightarrow> allocation_row list \<Rightarrow> allocation_row list \<Rightarrow> api_error + allocation_row list" where
  "promote_each planId [] rows = Inr rows"
| "promote_each planId (r # rs) rows = bind_sum (promote planId (al_item r) rows) (promote_each planId rs)"

definition removeTeam :: "env \<Rightarrow> uuid \<Rightarrow> uuid \<Rightarrow> cap_db \<Rightarrow> api_error + cap_db" where
  "removeTeam e i teamId db =
     planning e i db (\<lambda>_.
       bind_sum (requirePlanTeam db i teamId) (\<lambda>_.
       let mine = listAllocationsForTeam i teamId (cd_allocations db) in
       bind_sum (park_rows i (cd_allocations db) mine (cd_allocations db)) (\<lambda>rows.
       bind_sum (promote_each i (filter al_primary mine) rows) (\<lambda>rows'.
       Inr (db\<lparr>cd_allocations := rows',
               cd_planTeams := filter (\<lambda>t. \<not> (ct_plan t = i \<and> ct_team t = teamId)) (cd_planTeams db)\<rparr>)))))"

definition getItem :: "env \<Rightarrow> cap_db \<Rightarrow> uuid \<Rightarrow> api_error + portfolio_item_row" where
  "getItem e db itemId =
     (case find (\<lambda>p. pf_id p = itemId \<and> pf_workspace p = e_ws e) (cd_items db) of
        None \<Rightarrow> Inl (NotFound ''PORTFOLIO_ITEM_NOT_FOUND'')
      | Some p \<Rightarrow> Inr p)"

definition requireAllocatableFeature :: "env \<Rightarrow> cap_db \<Rightarrow> plan_row \<Rightarrow> uuid \<Rightarrow> bool \<Rightarrow> api_error + portfolio_item_row" where
  "requireAllocatableFeature e db plan itemId allowOtherRelease =
     bind_sum (getItem e db itemId) (\<lambda>item.
     if pf_type item \<noteq> Feature then Inl (PreconditionFailed ''CAPACITY_ALLOCATION_NOT_FEATURE'')
     else if pf_project item \<noteq> cp_project plan then Inl (PreconditionFailed ''CAPACITY_ALLOCATION_WRONG_PROJECT'')
     else if pf_archived item then Inl (PreconditionFailed ''CAPACITY_ALLOCATION_ARCHIVED'')
     else if pf_state item = ''cancelled'' then Inl (PreconditionFailed ''CAPACITY_ALLOCATION_CANCELLED'')
     else if \<not> allowOtherRelease \<and> pf_release item \<noteq> None \<and> pf_release item \<noteq> Some (cp_release plan)
          then Inl (PreconditionFailed ''CAPACITY_ALLOCATION_OTHER_RELEASE'')
     else Inr item)"

definition in_unit :: "CapacityPlanUnit \<Rightarrow> num \<times> num \<Rightarrow> num" where
  "in_unit u pc = (if u = In_points then fst pc else snd pc)"

definition featureEstimate :: "cap_db \<Rightarrow> plan_row \<Rightarrow> portfolio_item_row \<Rightarrow> num" where
  "featureEstimate db plan item =
     (let size = forProject (cd_settings db) (cp_project plan) (pf_size item) in
      fst (defaultAllocationEstimate
            (Some (if cp_unit plan = In_points then pf_refined item else pf_refinedCount item))
            (in_unit (cp_unit plan) size)))"

text \<open>The rows after it; \<open>value\<close>: the typed estimate, if the request carries one, \<open>estimate\<close>: that of the Feature;
  \<open>i\<close>: the id of a new row.\<close>

definition allocate_rows ::
  "env \<Rightarrow> uuid \<Rightarrow> uuid \<Rightarrow> uuid \<Rightarrow> uuid option \<Rightarrow> num option \<Rightarrow> num \<Rightarrow> allocation_row list \<Rightarrow> api_error + allocation_row list" where
  "allocate_rows e i planId itemId teamId value estimate rows =
     (let supplied = (\<lambda>a. case value of Some x \<Rightarrow> set_value (x, Manual) a | None \<Rightarrow> a) in
      case (if teamId \<noteq> None then findAllocationFor planId itemId None rows else None) of
        Some parked \<Rightarrow>
          updateAllocation (al_id parked)
            (\<lambda>a. (supplied a)\<lparr>al_team := teamId, al_primary := \<not> hasPrimaryAllocation planId itemId rows\<rparr>) rows
      | None \<Rightarrow>
          (case findAllocationFor planId itemId teamId rows of
             Some existing \<Rightarrow> if value \<noteq> None then updateAllocation (al_id existing) supplied rows else Inr rows
           | None \<Rightarrow>
               createAllocation
                 \<lparr>al_id = i, al_plan = planId, al_item = itemId, al_team = teamId,
                  al_primary = (teamId \<noteq> None \<and> \<not> hasPrimaryAllocation planId itemId rows),
                  al_value = (case value of Some x \<Rightarrow> x | None \<Rightarrow> estimate),
                  al_source = (case value of Some _ \<Rightarrow> Manual | None \<Rightarrow> Feature_estimate), al_created = e_now e\<rparr> rows))"

definition allocate :: "env \<Rightarrow> uuid \<Rightarrow> uuid \<Rightarrow> uuid \<Rightarrow> uuid option \<Rightarrow> num option \<Rightarrow> cap_db \<Rightarrow> api_error + cap_db" where
  "allocate e i planId itemId teamId value db =
     planning e planId db (\<lambda>plan.
       bind_sum (requireAllocatableFeature e db plan itemId (teamId \<noteq> None)) (\<lambda>item.
       bind_sum (case teamId of None \<Rightarrow> Inr () | Some t \<Rightarrow> bind_sum (requirePlanTeam db planId t) (\<lambda>_. Inr ())) (\<lambda>_.
       bind_sum (allocate_rows e i planId itemId teamId value (featureEstimate db plan item) (cd_allocations db)) (\<lambda>rows.
       Inr (db\<lparr>cd_allocations := rows\<rparr>)))))"

text \<open>\<open>value\<close>: absent, null (copy the estimate again) or a number; \<open>teamId\<close>: absent, null (park) or a team.\<close>

definition allocation_change :: "num \<Rightarrow> num option option \<Rightarrow> uuid option option \<Rightarrow> bool \<Rightarrow> bool \<Rightarrow> allocation_row \<Rightarrow> allocation_row" where
  "allocation_change recopied value teamId losesTeam promoteToPrimary a =
     (let a1 = (case value of
                  None \<Rightarrow> a
                | Some None \<Rightarrow> set_value (recopied, Feature_estimate) a
                | Some (Some v) \<Rightarrow> set_value (v, Manual) a);
          a2 = a1\<lparr>al_team := set_if teamId (al_team a1)\<rparr>;
          a3 = (if losesTeam then a2\<lparr>al_primary := False\<rparr> else a2)
      in (if promoteToPrimary then a3\<lparr>al_primary := True\<rparr> else a3))"

definition change_rows ::
  "uuid \<Rightarrow> allocation_row \<Rightarrow> num \<Rightarrow> num option option \<Rightarrow> uuid option option \<Rightarrow> allocation_row list \<Rightarrow> api_error + allocation_row list" where
  "change_rows planId a recopied value teamId rows =
     (let gainsTeam = (case teamId of Some (Some _) \<Rightarrow> al_team a = None \<and> \<not> al_primary a | _ \<Rightarrow> False);
          promoteToPrimary = (gainsTeam \<and> \<not> hasPrimaryAllocation planId (al_item a) rows);
          losesTeam = (teamId = Some None \<and> al_primary a)
      in bind_sum (updateAllocation (al_id a) (allocation_change recopied value teamId losesTeam promoteToPrimary) rows) (\<lambda>rows'.
         if losesTeam then promote planId (al_item a) rows' else Inr rows'))"

definition updateAllocationOf :: "env \<Rightarrow> uuid \<Rightarrow> uuid \<Rightarrow> num option option \<Rightarrow> uuid option option \<Rightarrow> cap_db \<Rightarrow> api_error + cap_db" where
  "updateAllocationOf e planId i value teamId db =
     planning e planId db (\<lambda>plan.
       let rows = cd_allocations db in
       case findAllocation i planId rows of
         None \<Rightarrow> Inl (NotFound ''CAPACITY_ALLOCATION_NOT_FOUND'')
       | Some a \<Rightarrow>
           bind_sum (case teamId of Some (Some t) \<Rightarrow> bind_sum (requirePlanTeam db planId t) (\<lambda>_. Inr ()) | _ \<Rightarrow> Inr ()) (\<lambda>_.
           if (case teamId of None \<Rightarrow> False | Some t \<Rightarrow> t \<noteq> al_team a \<and> findAllocationFor planId (al_item a) t rows \<noteq> None)
           then Inl (Conflict (if teamId = Some None then ''CAPACITY_ALLOCATION_ALREADY_UNASSIGNED'' else ''CAPACITY_ALLOCATION_TEAM_TAKEN''))
           else
           bind_sum (if value = Some None then bind_sum (getItem e db (al_item a)) (\<lambda>item. Inr (featureEstimate db plan item)) else Inr 0) (\<lambda>recopied.
           bind_sum (change_rows planId a recopied value teamId rows) (\<lambda>rows'.
           Inr (db\<lparr>cd_allocations := rows'\<rparr>)))))"

definition setPrimaryAllocation :: "env \<Rightarrow> uuid \<Rightarrow> uuid \<Rightarrow> cap_db \<Rightarrow> api_error + cap_db" where
  "setPrimaryAllocation e planId i db =
     planning e planId db (\<lambda>_.
       case findAllocation i planId (cd_allocations db) of
         None \<Rightarrow> Inl (NotFound ''CAPACITY_ALLOCATION_NOT_FOUND'')
       | Some a \<Rightarrow>
           if al_team a = None then Inl (PreconditionFailed ''CAPACITY_PRIMARY_NEEDS_TEAM'')
           else bind_sum (updateAllocation i (\<lambda>b. b\<lparr>al_primary := True\<rparr>)
                            (clearPrimaryAllocations planId (al_item a) (cd_allocations db))) (\<lambda>rows.
                Inr (db\<lparr>cd_allocations := rows\<rparr>)))"

definition removeItemFromPlan :: "env \<Rightarrow> uuid \<Rightarrow> uuid \<Rightarrow> cap_db \<Rightarrow> api_error + cap_db" where
  "removeItemFromPlan e planId itemId db =
     planning e planId db (\<lambda>_.
       let rows = listAllocationsForItem planId itemId (cd_allocations db) in
       if rows = [] then Inl (NotFound ''CAPACITY_ALLOCATION_NOT_FOUND'')
       else Inr (db\<lparr>cd_allocations := fold (\<lambda>r. deleteAllocation (al_id r)) rows (cd_allocations db)\<rparr>))"

definition removeAllocation :: "env \<Rightarrow> uuid \<Rightarrow> uuid \<Rightarrow> cap_db \<Rightarrow> api_error + cap_db" where
  "removeAllocation e planId i db =
     planning e planId db (\<lambda>_.
       case findAllocation i planId (cd_allocations db) of
         None \<Rightarrow> Inl (NotFound ''CAPACITY_ALLOCATION_NOT_FOUND'')
       | Some a \<Rightarrow>
           let rows = deleteAllocation i (cd_allocations db) in
           bind_sum (if al_primary a then promote planId (al_item a) rows else Inr rows) (\<lambda>rows'.
           Inr (db\<lparr>cd_allocations := rows'\<rparr>)))"

section \<open>Publishing\<close>

text \<open>The rows of a plan joined with their items: team rows first, by the rank of the item, then the id.\<close>

definition listing_order :: "allocation_row \<times> portfolio_item_row \<Rightarrow> allocation_row \<times> portfolio_item_row \<Rightarrow> int" where
  "listing_order x y =
     (let parked = (\<lambda>z. al_team (fst z) = None) in
      if \<not> parked x \<and> parked y then -1 else if parked x \<and> \<not> parked y then 1
      else if pf_rank (snd x) < pf_rank (snd y) then -1 else if pf_rank (snd y) < pf_rank (snd x) then 1
      else if al_id (fst x) < al_id (fst y) then -1 else if al_id (fst y) < al_id (fst x) then 1 else 0)"

definition with_item :: "portfolio_item_row list \<Rightarrow> allocation_row \<Rightarrow> (allocation_row \<times> portfolio_item_row) option" where
  "with_item pitems a = map_option (Pair a) (find (\<lambda>p. pf_id p = al_item a) pitems)"

definition listAllocations :: "cap_db \<Rightarrow> uuid \<Rightarrow> (allocation_row \<times> portfolio_item_row) list" where
  "listAllocations db planId =
     js_sort listing_order (List.map_filter (with_item (cd_items db)) (filter (\<lambda>a. al_plan a = planId) (cd_allocations db)))"

record PublishTarget =
  tg_item :: uuid
  tg_key :: string
  tg_release :: "uuid option"
  tg_hasTeam :: bool

definition target_of :: "allocation_row \<times> portfolio_item_row \<Rightarrow> PublishTarget" where
  "target_of x = \<lparr>tg_item = al_item (fst x), tg_key = pf_key (snd x), tg_release = pf_release (snd x), tg_hasTeam = (al_team (fst x) \<noteq> None)\<rparr>"

fun publish_targets :: "(allocation_row \<times> portfolio_item_row) list \<Rightarrow> (uuid \<times> PublishTarget) list \<Rightarrow> (uuid \<times> PublishTarget) list" where
  "publish_targets [] byFeature = byFeature"
| "publish_targets (x # xs) byFeature =
     publish_targets xs
       (case map_of byFeature (al_item (fst x)) of
          None \<Rightarrow> AList.update (al_item (fst x)) (target_of x) byFeature
        | Some seen \<Rightarrow>
            if al_team (fst x) \<noteq> None then AList.update (al_item (fst x)) (seen\<lparr>tg_hasTeam := True\<rparr>) byFeature
            else byFeature)"

definition publishTargets :: "(allocation_row \<times> portfolio_item_row) list \<Rightarrow> PublishTarget list" where
  "publishTargets rows = map snd (publish_targets rows [])"

definition planWindow :: "plan_row \<Rightarrow> (iso_date \<times> iso_date) option" where
  "planWindow plan = (case (cp_start plan, cp_end plan) of (Some s, Some f) \<Rightarrow> Some (s, f) | _ \<Rightarrow> None)"

definition dateOnly :: "string \<Rightarrow> string" where
  "dateOnly v = take 10 v"

definition windowsMatch :: "(iso_date \<times> iso_date) option \<Rightarrow> release_row option \<Rightarrow> bool" where
  "windowsMatch window release =
     (case (window, release) of
        (Some (ps, pe), Some r) \<Rightarrow>
          (case (rl_start r, rl_end r) of
             (Some rs, Some re) \<Rightarrow> dateOnly ps = dateOnly rs \<and> dateOnly pe = dateOnly re
           | _ \<Rightarrow> False)
      | _ \<Rightarrow> False)"

datatype skip_reason = Skip_unallocated | Skip_no_window | Skip_release_span_mismatch | Skip_archived | Skip_other_release

definition feature_writable :: "env \<Rightarrow> uuid \<Rightarrow> uuid \<Rightarrow> portfolio_item_row \<Rightarrow> bool" where
  "feature_writable e itemId projectId p \<longleftrightarrow>
     pf_id p = itemId \<and> pf_workspace p = e_ws e \<and> pf_project p = projectId \<and> \<not> pf_archived p"

text \<open>Whether a row was written, and the items after it.\<close>

definition applyPlanToFeature ::
  "env \<Rightarrow> uuid \<Rightarrow> uuid \<Rightarrow> iso_date \<times> iso_date \<Rightarrow> uuid option \<Rightarrow> portfolio_item_row list \<Rightarrow> bool \<times> portfolio_item_row list" where
  "applyPlanToFeature e itemId projectId window releaseId pitems =
     (list_ex (feature_writable e itemId projectId) pitems,
      update_where (feature_writable e itemId projectId)
        (\<lambda>p. p\<lparr>pf_start := Some (fst window), pf_end := Some (snd window),
              pf_release := (case releaseId of None \<Rightarrow> pf_release p | Some r \<Rightarrow> Some r)\<rparr>) pitems)"

text \<open>The items after it, the features updated so far and the skips.\<close>

fun publish_features ::
  "env \<Rightarrow> plan_row \<Rightarrow> (iso_date \<times> iso_date) option \<Rightarrow> bool \<Rightarrow> PublishTarget list \<Rightarrow>
     portfolio_item_row list \<times> nat \<times> (uuid \<times> skip_reason) list \<Rightarrow> portfolio_item_row list \<times> nat \<times> (uuid \<times> skip_reason) list" where
  "publish_features e plan window spansReleases [] acc = acc"
| "publish_features e plan window spansReleases (t # ts) (pitems, updated, skipped) =
     publish_features e plan window spansReleases ts
       (if \<not> tg_hasTeam t then (pitems, updated, skipped @ [(tg_item t, Skip_unallocated)])
        else case window of
          None \<Rightarrow> (pitems, updated, skipped @ [(tg_item t, Skip_no_window)])
        | Some w \<Rightarrow>
            let ownsOtherRelease = (tg_release t \<noteq> None \<and> tg_release t \<noteq> Some (cp_release plan));
                (written, pitems') = applyPlanToFeature e (tg_item t) (cp_project plan) w
                  (if spansReleases \<or> ownsOtherRelease then None else Some (cp_release plan)) pitems
            in if \<not> written then (pitems, updated, skipped @ [(tg_item t, Skip_archived)])
               else (pitems', updated + 1,
                     skipped @ (if ownsOtherRelease then [(tg_item t, Skip_other_release)]
                                else if spansReleases then [(tg_item t, Skip_release_span_mismatch)] else [])))"

definition setStatus :: "env \<Rightarrow> uuid \<Rightarrow> CapacityPlanStatus \<Rightarrow> uuid option \<Rightarrow> cap_db \<Rightarrow> cap_db" where
  "setStatus e i status publishedBy db =
     update_plan_row e i
       (\<lambda>p. if status = Published
            then p\<lparr>cp_status := status, cp_publishedAt := Some (e_now e), cp_publishedBy := publishedBy\<rparr>
            else p\<lparr>cp_status := status\<rparr>) db"

definition releaseWindow :: "env \<Rightarrow> uuid \<Rightarrow> cap_db \<Rightarrow> release_row option" where
  "releaseWindow e releaseId db = find (\<lambda>r. rl_id r = releaseId \<and> rl_workspace r = e_ws e) (cd_releases db)"

text \<open>The tables after it, the features updated and the skips.\<close>

definition publishPlan :: "env \<Rightarrow> uuid \<Rightarrow> bool \<Rightarrow> cap_db \<Rightarrow> api_error + (cap_db \<times> nat \<times> (uuid \<times> skip_reason) list)" where
  "publishPlan e i updateFields db =
     bind_sum (requireDraft e db i) (\<lambda>plan.
     bind_sum (assertProjectPermission (e_eff e) (cp_project plan) ''capacity:publish'') (\<lambda>_.
     let rows = listAllocations db i in
     if cp_publishedAt plan = None \<and> rows = [] \<and> filter (\<lambda>t. ct_plan t = i) (cd_planTeams db) = []
     then Inl (PreconditionFailed ''CAPACITY_PLAN_EMPTY'')
     else if updateFields
     then let window = planWindow plan;
              spansReleases = (\<not> windowsMatch window (releaseWindow e (cp_release plan) db));
              (pitems, updated, skipped) = publish_features e plan window spansReleases (publishTargets rows) (cd_items db, 0, [])
          in Inr (setStatus e i Published (Some (e_actor e)) (db\<lparr>cd_items := pitems\<rparr>), updated, skipped)
     else Inr (setStatus e i Published (Some (e_actor e)) db, 0, [])))"

definition revertPlan :: "env \<Rightarrow> uuid \<Rightarrow> cap_db \<Rightarrow> api_error + cap_db" where
  "revertPlan e i db =
     (case findPlan db i (e_ws e) of
        None \<Rightarrow> Inl (NotFound ''CAPACITY_PLAN_NOT_FOUND'')
      | Some plan \<Rightarrow>
          bind_sum (assertProjectPermission (e_eff e) (cp_project plan) ''capacity:publish'') (\<lambda>_.
          bind_sum (assertProjectWritable (cd_base db) (e_ws e) (cp_project plan)) (\<lambda>_.
          if cp_status plan \<noteq> Published then Inl (PreconditionFailed ''CAPACITY_PLAN_NOT_PUBLISHED'')
          else Inr (setStatus e i Draft None db))))"

section \<open>Moving a Feature to another plan\<close>

record move_request =
  mv_item :: uuid
  mv_target :: uuid
  mv_updateRelease :: bool
  mv_republish :: bool

text \<open>\<open>ids k\<close>: the id of the \<open>k\<close>-th row the move inserts.\<close>

fun carry_rows ::
  "env \<Rightarrow> (nat \<Rightarrow> uuid) \<Rightarrow> uuid \<Rightarrow> bool \<Rightarrow> nat \<Rightarrow> allocation_row list \<Rightarrow> allocation_row list \<Rightarrow> api_error + allocation_row list" where
  "carry_rows e ids targetId ownerSurvives at' [] rows = Inr rows"
| "carry_rows e ids targetId ownerSurvives at' (r # rs) rows =
     bind_sum (createAllocation (r\<lparr>al_id := ids at', al_plan := targetId,
                                  al_primary := (if ownerSurvives then al_primary r else at' = 0), al_created := e_now e\<rparr>) rows)
       (carry_rows e ids targetId ownerSurvives (at' + 1) rs)"

text \<open>The rows that keep their team on the target, and those that cannot.\<close>

definition carriable :: "cap_db \<Rightarrow> uuid \<Rightarrow> allocation_row \<Rightarrow> bool" where
  "carriable db targetId r \<longleftrightarrow> (case al_team r of None \<Rightarrow> False | Some t \<Rightarrow> findTeam db targetId t \<noteq> None)"

definition setFeatureRelease :: "env \<Rightarrow> uuid \<Rightarrow> uuid \<Rightarrow> portfolio_item_row list \<Rightarrow> portfolio_item_row list" where
  "setFeatureRelease e itemId releaseId pitems =
     update_where (\<lambda>p. pf_id p = itemId \<and> pf_workspace p = e_ws e \<and> \<not> pf_archived p) (\<lambda>p. p\<lparr>pf_release := Some releaseId\<rparr>) pitems"

definition move_rows :: "env \<Rightarrow> (nat \<Rightarrow> uuid) \<Rightarrow> uuid \<Rightarrow> move_request \<Rightarrow> allocation_row list \<Rightarrow> cap_db \<Rightarrow> api_error + allocation_row list" where
  "move_rows e ids planId m rows db =
     (let kept = filter (carriable db (mv_target m)) rows;
          lost = filter (\<lambda>r. \<not> carriable db (mv_target m) r) rows;
          ownerSurvives = list_ex al_primary kept
      in bind_sum (carry_rows e ids (mv_target m) ownerSurvives 0 kept (cd_allocations db)) (\<lambda>rows1.
         bind_sum (if lost = [] then Inr rows1
                   else createAllocation
                     \<lparr>al_id = ids (length kept), al_plan = mv_target m, al_item = mv_item m, al_team = None, al_primary = False,
                      al_value = fst (mergeParked lost), al_source = snd (mergeParked lost), al_created = e_now e\<rparr> rows1) (\<lambda>rows2.
         Inr (fold (\<lambda>r. deleteAllocation (al_id r)) rows rows2))))"

text \<open>The checks: the target plan, the rows that move, whether the release of the item moves.\<close>

definition check_move :: "env \<Rightarrow> uuid \<Rightarrow> move_request \<Rightarrow> cap_db \<Rightarrow> api_error + (plan_row \<times> allocation_row list \<times> bool)" where
  "check_move e planId m db =
     planning e planId db (\<lambda>source.
       if mv_target m = planId then Inl (PreconditionFailed ''CAPACITY_MOVE_SAME_PLAN'')
       else case findPlan db (mv_target m) (e_ws e) of
         None \<Rightarrow> Inl (NotFound ''CAPACITY_PLAN_NOT_FOUND'')
       | Some target \<Rightarrow>
           if cp_project target \<noteq> cp_project source then Inl (PreconditionFailed ''CAPACITY_MOVE_OTHER_PROJECT'')
           else
           bind_sum (if mv_republish m \<or> cp_status target = Published
                     then assertProjectPermission (e_eff e) (cp_project target) ''capacity:publish'' else Inr ()) (\<lambda>_.
           let rows = listAllocationsForItem planId (mv_item m) (cd_allocations db) in
           if rows = [] then Inl (NotFound ''CAPACITY_ALLOCATION_NOT_FOUND'')
           else if listAllocationsForItem (mv_target m) (mv_item m) (cd_allocations db) \<noteq> []
           then Inl (PreconditionFailed ''CAPACITY_MOVE_ALREADY_ON_TARGET'')
           else
           bind_sum (getItem e db (mv_item m)) (\<lambda>item.
           let releaseMoves = (pf_release item \<noteq> None \<and> pf_release item \<noteq> Some (cp_release target)) in
           if releaseMoves \<and> \<not> mv_updateRelease m then Inl (PreconditionFailed ''CAPACITY_MOVE_RELEASE_MISMATCH'')
           else Inr (target, rows, releaseMoves))))"

text \<open>The tables after the transaction of the move, before a republication.\<close>

definition move_tx :: "env \<Rightarrow> (nat \<Rightarrow> uuid) \<Rightarrow> uuid \<Rightarrow> move_request \<Rightarrow> cap_db \<Rightarrow> api_error + cap_db" where
  "move_tx e ids planId m db =
     bind_sum (check_move e planId m db) (\<lambda>(target, rows, releaseMoves).
     bind_sum (move_rows e ids planId m rows db) (\<lambda>rows'.
     let db1 = db\<lparr>cd_allocations := rows'\<rparr>;
         db2 = (if releaseMoves then db1\<lparr>cd_items := setFeatureRelease e (mv_item m) (cp_release target) (cd_items db1)\<rparr> else db1)
     in Inr (if cp_status target = Published then setStatus e (mv_target m) Draft None db2 else db2)))"

text \<open>The republication is a transaction of its own, and \<open>others\<close> is what other requests commit before it
  starts: the outcome, and the tables that are left.\<close>

definition moveItemToPlan ::
  "env \<Rightarrow> (cap_db \<Rightarrow> cap_db) \<Rightarrow> (nat \<Rightarrow> uuid) \<Rightarrow> uuid \<Rightarrow> move_request \<Rightarrow> cap_db \<Rightarrow> (api_error + unit) \<times> cap_db" where
  "moveItemToPlan e others ids planId m db =
     (case move_tx e ids planId m db of
        Inl x \<Rightarrow> (Inl x, db)
      | Inr db1 \<Rightarrow>
          if \<not> mv_republish m then (Inr (), db1)
          else case publishPlan e (mv_target m) True (others db1) of
            Inl x \<Rightarrow> (Inl x, others db1)
          | Inr (db2, _, _) \<Rightarrow> (Inr (), db2))"

end
