(* ===== verification/Teams.thy ===== *)
theory Teams
  imports Workspaces CapacityPlans
begin

text \<open>
  Teams, their rosters and their Projects: \<^verbatim>\<open>workspace/src/application/team.service.ts\<close> and the team and
  member writes of \<^verbatim>\<open>projects.service.ts\<close> (\<^verbatim>\<open>linkTeam\<close>, \<^verbatim>\<open>unlinkTeam\<close>, \<^verbatim>\<open>setProjectAccess\<close>,
  \<^verbatim>\<open>updateProjectMember\<close>, \<^verbatim>\<open>removeProjectMember\<close>). Memberships, links and grants are the tables of
  \<open>Workspaces\<close>, from which \<open>Access\<close> resolves permissions and team scope; a team that leaves a Project or is
  deleted is checked against plans, work and recorded history. Requests run one after the other; generated
  ids are arguments, constraint violations the uncaught SQLSTATE. Members and links are listed in the order
  of their rows (the code sorts by \<^verbatim>\<open>joined_at\<close> and \<^verbatim>\<open>linked_at\<close>, which some reactivations renew).
\<close>

section \<open>Tables\<close>

record full_team = team_row +
  te_key :: string
  te_name :: string
  te_lead :: "uuid option"

text \<open>\<open>og_archived\<close>: the archived Projects among \<open>sd_projects\<close>; \<open>og_memberCapacity\<close> and \<open>og_snapshots\<close>: the team of
  each row of two tables that are only counted here.\<close>

record org_db =
  og_staff :: staff_db
  og_teams :: "full_team list"
  og_archived :: "uuid list"
  og_tasks :: "task_row list"
  og_items :: "WorkItem list"
  og_iterations :: "iteration_row list"
  og_features :: "portfolio_item_row list"
  og_plans :: "plan_row list"
  og_planTeams :: "plan_team_row list"
  og_allocations :: "allocation_row list"
  og_memberCapacity :: "uuid list"
  og_snapshots :: "uuid option list"

definition with_seats :: "(team_member_row list \<Rightarrow> team_member_row list) \<Rightarrow> org_db \<Rightarrow> org_db" where
  "with_seats f db = db\<lparr>og_staff := (og_staff db)\<lparr>sd_seats := f (sd_seats (og_staff db))\<rparr>\<rparr>"

definition with_links :: "(project_team_row list \<Rightarrow> project_team_row list) \<Rightarrow> org_db \<Rightarrow> org_db" where
  "with_links f db = db\<lparr>og_staff := (og_staff db)\<lparr>sd_links := f (sd_links (og_staff db))\<rparr>\<rparr>"

section \<open>The repositories\<close>

definition findTeamById :: "org_db \<Rightarrow> uuid \<Rightarrow> uuid \<Rightarrow> full_team option" where
  "findTeamById db i ws = find (\<lambda>t. te_id t = i \<and> te_workspace t = ws) (og_teams db)"

definition findTeamByKey :: "org_db \<Rightarrow> uuid \<Rightarrow> string \<Rightarrow> full_team option" where
  "findTeamByKey db ws k = find (\<lambda>t. te_workspace t = ws \<and> te_key t = k) (og_teams db)"

definition listActiveProjectIds :: "org_db \<Rightarrow> uuid \<Rightarrow> uuid list" where
  "listActiveProjectIds db t = map pt_project (filter (\<lambda>l. pt_team l = t \<and> pt_active l) (sd_links (og_staff db)))"

definition countTeamProjects :: "org_db \<Rightarrow> uuid \<Rightarrow> uuid list \<Rightarrow> nat" where
  "countTeamProjects db ws ids =
     (if ids = [] then 0 else length (filter (\<lambda>p. pj_workspace p = ws \<and> pj_id p \<in> set ids) (sd_projects (og_staff db))))"

definition findBlockingCapacityPlans :: "org_db \<Rightarrow> uuid \<Rightarrow> uuid \<Rightarrow> uuid list \<Rightarrow> string list" where
  "findBlockingCapacityPlans db ws t ps =
     (if ps = [] then []
      else take 3 (List.map_filter (\<lambda>(c, p). if ct_plan c = cp_id p \<and> ct_team c = t \<and> cp_workspace p = ws \<and> cp_project p \<in> set ps
                                       then Some (cp_key p) else None)
             (List.product (og_planTeams db) (og_plans db))))"

definition link_project :: "uuid \<Rightarrow> uuid \<Rightarrow> project_team_row list \<Rightarrow> project_team_row list" where
  "link_project t p rows =
     (if \<exists>l\<in>set rows. pt_project l = p \<and> pt_team l = t
      then update_where (\<lambda>l. pt_project l = p \<and> pt_team l = t) (\<lambda>l. l\<lparr>pt_active := True\<rparr>) rows
      else rows @ [\<lparr>pt_project = p, pt_team = t, pt_active = True\<rparr>])"

definition setProjectLinks :: "uuid \<Rightarrow> uuid list \<Rightarrow> project_team_row list \<Rightarrow> project_team_row list" where
  "setProjectLinks t ps rows =
     fold (link_project t) ps
       (update_where (\<lambda>l. pt_team l = t \<and> pt_active l \<and> pt_project l \<notin> set ps) (\<lambda>l. l\<lparr>pt_active := False\<rparr>) rows)"

definition findTeamMember :: "org_db \<Rightarrow> uuid \<Rightarrow> uuid \<Rightarrow> bool" where
  "findTeamMember db t u \<longleftrightarrow> (\<exists>m\<in>set (sd_seats (og_staff db)). tm_team m = t \<and> tm_user m = u \<and> tm_active m)"

text \<open>\<^verbatim>\<open>listByTeam\<close>.\<close>

definition roster :: "org_db \<Rightarrow> uuid \<Rightarrow> uuid list" where
  "roster db t = map tm_user (filter (\<lambda>m. tm_team m = t \<and> tm_active m) (sd_seats (og_staff db)))"

definition leave_team :: "uuid \<Rightarrow> uuid \<Rightarrow> team_member_row list \<Rightarrow> team_member_row list" where
  "leave_team t u = update_where (\<lambda>m. tm_team m = t \<and> tm_user m = u) (\<lambda>m. m\<lparr>tm_active := False\<rparr>)"

definition setMembers :: "uuid \<Rightarrow> uuid \<Rightarrow> uuid list \<Rightarrow> team_member_row list \<Rightarrow> team_member_row list" where
  "setMembers ws t us seats =
     fold (\<lambda>u. enter_team ws u t) us
       (update_where (\<lambda>m. tm_team m = t \<and> tm_active m \<and> tm_user m \<notin> set us) (\<lambda>m. m\<lparr>tm_active := False\<rparr>) seats)"

definition countHistoryReferences :: "org_db \<Rightarrow> uuid \<Rightarrow> uuid \<Rightarrow> (string \<times> nat) list" where
  "countHistoryReferences db t ws =
     filter (\<lambda>(_, n). n > 0)
       [(''capacity allocations'', length (filter (\<lambda>a. al_team a = Some t) (og_allocations db))),
        (''capacity plans'', length (filter (\<lambda>c. ct_team c = t) (og_planTeams db))),
        (''iterations'', length (filter (\<lambda>i. it_team i = Some t \<and> it_workspace i = ws) (og_iterations db))),
        (''member capacity rows'', length (filter (\<lambda>x. x = t) (og_memberCapacity db))),
        (''portfolio items'', length (filter (\<lambda>f. pf_team f = Some t \<and> pf_workspace f = ws) (og_features db))),
        (''recorded report history'', length (filter (\<lambda>x. x = Some t) (og_snapshots db))),
        (''tasks'', length (filter (\<lambda>k. tk_team k = Some t \<and> tk_workspace k = ws) (og_tasks db))),
        (''work items'', length (filter (\<lambda>w. wi_team w = Some t \<and> wi_workspace w = ws) (og_items db)))]"

definition upper_char :: "char \<Rightarrow> char" where
  "upper_char c = (if CHR ''a'' \<le> c \<and> c \<le> CHR ''z'' then char_of (of_char c - 32 :: nat) else c)"

definition toUpperCase :: "string \<Rightarrow> string" where
  "toUpperCase s = map upper_char s"

section \<open>Reading teams\<close>

text \<open>\<open>eff\<close>: the assignments of the reader; \<open>None\<close> is unrestricted.\<close>

definition readableProjectIds :: "assignment list \<Rightarrow> uuid list option" where
  "readableProjectIds eff = listReadableProjectIds eff ''project:view''"

text \<open>\<open>named\<close>: the collation of the database.\<close>

definition by_team_name :: "(string \<Rightarrow> string \<Rightarrow> int) \<Rightarrow> full_team \<Rightarrow> full_team \<Rightarrow> int" where
  "by_team_name named x y =
     (if named (te_name x) (te_name y) \<noteq> 0 then named (te_name x) (te_name y)
      else if te_id x < te_id y then -1 else if te_id y < te_id x then 1 else 0)"

record TeamWithStats =
  ts_row :: full_team
  ts_memberCount :: nat
  ts_projects :: "uuid list"

definition team_stats :: "org_db \<Rightarrow> full_team \<Rightarrow> TeamWithStats" where
  "team_stats db t =
     \<lparr>ts_row = t, ts_memberCount = length (roster db (te_id t)),
      ts_projects = filter (\<lambda>p. \<exists>r\<in>set (sd_projects (og_staff db)). pj_id r = p) (listActiveProjectIds db (te_id t))\<rparr>"

definition listByWorkspaceWithStats :: "(string \<Rightarrow> string \<Rightarrow> int) \<Rightarrow> org_db \<Rightarrow> uuid \<Rightarrow> bool \<Rightarrow> TeamWithStats list" where
  "listByWorkspaceWithStats named db ws includeInactive =
     map (team_stats db) (js_sort (by_team_name named) (filter (\<lambda>t. te_workspace t = ws \<and> (includeInactive \<or> te_active t)) (og_teams db)))"

definition listTeamsForReader :: "(string \<Rightarrow> string \<Rightarrow> int) \<Rightarrow> org_db \<Rightarrow> assignment list \<Rightarrow> uuid \<Rightarrow> bool \<Rightarrow> TeamWithStats list" where
  "listTeamsForReader named db eff ws includeInactive =
     (case readableProjectIds eff of
        None \<Rightarrow> listByWorkspaceWithStats named db ws includeInactive
      | Some allowed \<Rightarrow>
          if allowed = [] then []
          else map (\<lambda>t. t\<lparr>ts_projects := filter (\<lambda>p. p \<in> set allowed) (ts_projects t)\<rparr>)
                 (filter (\<lambda>t. \<exists>p\<in>set (ts_projects t). p \<in> set allowed) (listByWorkspaceWithStats named db ws includeInactive)))"

definition assertTeamReadable :: "org_db \<Rightarrow> assignment list \<Rightarrow> uuid \<Rightarrow> api_error + unit" where
  "assertTeamReadable db eff t =
     (case readableProjectIds eff of
        None \<Rightarrow> Inr ()
      | Some allowed \<Rightarrow>
          if \<exists>p\<in>set (listActiveProjectIds db t). p \<in> set allowed then Inr () else Inl (NotFound ''TEAM_NOT_FOUND''))"

definition getTeam :: "org_db \<Rightarrow> uuid \<Rightarrow> uuid \<Rightarrow> api_error + full_team" where
  "getTeam db i ws = (case findTeamById db i ws of None \<Rightarrow> Inl (NotFound ''TEAM_NOT_FOUND'') | Some t \<Rightarrow> Inr t)"

definition getTeamForReader :: "org_db \<Rightarrow> assignment list \<Rightarrow> uuid \<Rightarrow> uuid \<Rightarrow> api_error + full_team" where
  "getTeamForReader db eff i ws = bind_sum (getTeam db i ws) (\<lambda>t. bind_sum (assertTeamReadable db eff i) (\<lambda>_. Inr t))"

text \<open>The members with \<^verbatim>\<open>isWorkspaceAdmin\<close> of each.\<close>

definition listTeamMembersForReader :: "org_db \<Rightarrow> assignment list \<Rightarrow> uuid \<Rightarrow> uuid \<Rightarrow> api_error + (uuid \<times> bool) list" where
  "listTeamMembersForReader db eff t ws =
     bind_sum (getTeam db t ws) (\<lambda>_. bind_sum (assertTeamReadable db eff t) (\<lambda>_.
     Inr (map (\<lambda>u. (u, isWorkspaceAdmin (access_view (og_staff db)) ws u)) (roster db t))))"

section \<open>Writing teams\<close>

definition assertProjectsExist :: "org_db \<Rightarrow> uuid \<Rightarrow> uuid list \<Rightarrow> api_error + uuid list" where
  "assertProjectsExist db ws ids =
     (let unique = dedupe_by (\<lambda>x. x) {} ids in
      if unique = [] then Inr unique
      else if countTeamProjects db ws unique \<noteq> length unique then Inl (PreconditionFailed ''PROJECT_NOT_FOUND'')
      else Inr unique)"

definition leadInclusiveRoster :: "uuid option \<Rightarrow> uuid list \<Rightarrow> uuid list" where
  "leadInclusiveRoster lead users =
     (case lead of None \<Rightarrow> users | Some l \<Rightarrow> if l = [] \<or> l \<in> set users then users else users @ [l])"

definition assertMembers :: "org_db \<Rightarrow> uuid \<Rightarrow> uuid list \<Rightarrow> api_error + uuid list" where
  "assertMembers db ws users =
     (let unique = dedupe_by (\<lambda>x. x) {} users in
      if \<exists>u\<in>set unique. \<not> active_member (access_view (og_staff db)) ws u
      then Inl (PreconditionFailed ''TEAM_MEMBER_NOT_WORKSPACE_MEMBER'') else Inr unique)"

text \<open>\<open>uq_teams_key\<close>, the primary key.\<close>

definition insert_team :: "full_team \<Rightarrow> org_db \<Rightarrow> api_error + org_db" where
  "insert_team t db =
     (if \<exists>x\<in>set (og_teams db). te_id x = te_id t \<or> te_workspace x = te_workspace t \<and> te_key x = te_key t
      then Inl (Uncaught ''23505'') else Inr (db\<lparr>og_teams := og_teams db @ [t]\<rparr>))"

record team_request =
  tq_name :: string
  tq_key :: string
  tq_lead :: "uuid option"
  tq_active :: "bool option"
  tq_projects :: "uuid list option"
  tq_members :: "uuid list option"

definition or_empty :: "'a list option \<Rightarrow> 'a list" where
  "or_empty xs = (case xs of None \<Rightarrow> [] | Some ys \<Rightarrow> ys)"

definition createTeam :: "uuid \<Rightarrow> uuid \<Rightarrow> team_request \<Rightarrow> org_db \<Rightarrow> api_error + org_db" where
  "createTeam i ws q db =
     bind_sum (getWorkspace (og_staff db) ws) (\<lambda>_.
     let k = toUpperCase (tq_key q) in
     if findTeamByKey db ws k \<noteq> None then Inl (Conflict ''TEAM_KEY_TAKEN'')
     else
       bind_sum (assertProjectsExist db ws (or_empty (tq_projects q))) (\<lambda>projectIds.
       bind_sum (assertMembers db ws (leadInclusiveRoster (tq_lead q) (or_empty (tq_members q)))) (\<lambda>memberUserIds.
       bind_sum (insert_team \<lparr>te_id = i, te_workspace = ws, te_active = True, te_key = toUpperCase k, te_name = tq_name q, te_lead = tq_lead q\<rparr> db) (\<lambda>db1.
       let db2 = (if tq_active q = Some False
                  then db1\<lparr>og_teams := update_where (\<lambda>t. te_id t = i) (\<lambda>t. t\<lparr>te_active := False\<rparr>) (og_teams db1)\<rparr> else db1)
       in Inr (with_seats (setMembers ws i memberUserIds) (with_links (setProjectLinks i projectIds) db2))))))"

record team_patch =
  tp_key :: "string option"
  tp_name :: "string option"
  tp_lead :: "uuid option option"
  tp_active :: "bool option"
  tp_projects :: "uuid list option"
  tp_members :: "uuid list option"

definition patch_team :: "team_patch \<Rightarrow> string option \<Rightarrow> full_team \<Rightarrow> full_team" where
  "patch_team q k t =
     t\<lparr>te_key := (case k of None \<Rightarrow> te_key t | Some x \<Rightarrow> x), te_name := (case tp_name q of None \<Rightarrow> te_name t | Some x \<Rightarrow> x),
       te_lead := (case tp_lead q of None \<Rightarrow> te_lead t | Some x \<Rightarrow> x), te_active := (case tp_active q of None \<Rightarrow> te_active t | Some x \<Rightarrow> x)\<rparr>"

definition checked_key :: "org_db \<Rightarrow> uuid \<Rightarrow> full_team \<Rightarrow> string option \<Rightarrow> api_error + string option" where
  "checked_key db ws team k =
     (case k of
        None \<Rightarrow> Inr None
      | Some x \<Rightarrow>
          let normalizedKey = trim (toUpperCase x) in
          if normalizedKey \<noteq> te_key team \<and>
             (case findTeamByKey db ws normalizedKey of None \<Rightarrow> False | Some clash \<Rightarrow> te_id clash \<noteq> te_id team)
          then Inl (Conflict ''TEAM_KEY_TAKEN'') else Inr (Some normalizedKey))"

definition unlink_check :: "org_db \<Rightarrow> uuid \<Rightarrow> uuid \<Rightarrow> uuid list option \<Rightarrow> api_error + unit" where
  "unlink_check db ws i projectIds =
     (case projectIds of
        None \<Rightarrow> Inr ()
      | Some ps \<Rightarrow>
          let removed = filter (\<lambda>p. p \<notin> set ps) (listActiveProjectIds db i) in
          if removed \<noteq> [] \<and> findBlockingCapacityPlans db ws i removed \<noteq> []
          then Inl (Conflict ''PROJECT_TEAM_HAS_CAPACITY_PLAN'') else Inr ())"

definition next_roster :: "org_db \<Rightarrow> full_team \<Rightarrow> uuid option option \<Rightarrow> uuid list option \<Rightarrow> uuid list option" where
  "next_roster db team lead memberUserIds =
     (let nextLeadId = (case lead of None \<Rightarrow> te_lead team | Some l \<Rightarrow> l) in
      case memberUserIds of
        Some us \<Rightarrow> Some (leadInclusiveRoster nextLeadId us)
      | None \<Rightarrow>
          (case lead of
             Some (Some l) \<Rightarrow>
               if l = [] \<or> l \<in> set (roster db (te_id team)) then None
               else Some (leadInclusiveRoster (Some l) (roster db (te_id team)))
           | _ \<Rightarrow> None))"

text \<open>The transaction: the row (\<open>uq_teams_key\<close>), the links, the roster.\<close>

definition update_tx :: "uuid \<Rightarrow> uuid \<Rightarrow> team_patch \<Rightarrow> string option \<Rightarrow> uuid list option \<Rightarrow> uuid list option \<Rightarrow> org_db \<Rightarrow> api_error + org_db" where
  "update_tx i ws q k projectIds memberUserIds db =
     (if \<exists>x\<in>set (og_teams db). \<exists>y\<in>set (og_teams db).
           te_id x \<noteq> i \<and> te_id y = i \<and> te_workspace x = te_workspace y \<and> te_key x = te_key (patch_team q k y)
      then Inl (Uncaught ''23505'')
      else
        let db1 = db\<lparr>og_teams := update_where (\<lambda>t. te_id t = i) (patch_team q k) (og_teams db)\<rparr>;
            db2 = (case projectIds of None \<Rightarrow> db1 | Some ps \<Rightarrow> with_links (setProjectLinks i ps) db1)
        in Inr (case memberUserIds of None \<Rightarrow> db2 | Some us \<Rightarrow> with_seats (setMembers ws i us) db2))"

definition updateTeam :: "uuid \<Rightarrow> uuid \<Rightarrow> team_patch \<Rightarrow> org_db \<Rightarrow> api_error + org_db" where
  "updateTeam i ws q db =
     bind_sum (getTeam db i ws) (\<lambda>team.
     bind_sum (checked_key db ws team (tp_key q)) (\<lambda>k.
     if tp_active q = Some False \<and> \<not> te_active team then Inl (Conflict ''TEAM_ALREADY_ARCHIVED'')
     else
       bind_sum (case tp_projects q of None \<Rightarrow> Inr None | Some ps \<Rightarrow> bind_sum (assertProjectsExist db ws ps) (\<lambda>x. Inr (Some x))) (\<lambda>projectIds.
       bind_sum (case tp_members q of None \<Rightarrow> Inr None | Some us \<Rightarrow> bind_sum (assertMembers db ws us) (\<lambda>x. Inr (Some x))) (\<lambda>memberUserIds.
       bind_sum (unlink_check db ws i projectIds) (\<lambda>_.
       update_tx i ws q k projectIds (next_roster db team (tp_lead q) memberUserIds) db)))))"

definition deleteTeam :: "uuid \<Rightarrow> uuid \<Rightarrow> org_db \<Rightarrow> api_error + org_db" where
  "deleteTeam i ws db =
     bind_sum (getTeam db i ws) (\<lambda>team.
     if te_active team then Inl (PreconditionFailed ''TEAM_NOT_ARCHIVED'')
     else if countHistoryReferences db i ws \<noteq> [] then Inl (PreconditionFailed ''TEAM_HAS_HISTORY'')
     else
       let db1 = with_links (filter (\<lambda>l. pt_team l \<noteq> i)) (with_seats (filter (\<lambda>m. tm_team m \<noteq> i)) db)
       in Inr (db1\<lparr>og_teams := filter (\<lambda>t. \<not> (te_id t = i \<and> te_workspace t = ws)) (og_teams db1)\<rparr>))"

section \<open>Members of a team\<close>

text \<open>The team a task is worked in: its own, or its parent's, or its iteration's.\<close>

definition worked_team :: "org_db \<Rightarrow> task_row \<Rightarrow> uuid option" where
  "worked_team db k =
     (case tk_team k of
        Some t \<Rightarrow> Some t
      | None \<Rightarrow>
          (case (case find (\<lambda>w. wi_id w = tk_parent k) (og_items db) of None \<Rightarrow> None | Some w \<Rightarrow> wi_team w) of
             Some t \<Rightarrow> Some t
           | None \<Rightarrow>
               (case find (\<lambda>i. Some (it_id i) = tk_iteration k) (og_iterations db) of None \<Rightarrow> None | Some i \<Rightarrow> it_team i)))"

definition unassign :: "uuid \<Rightarrow> (uuid \<Rightarrow> bool) \<Rightarrow> org_db \<Rightarrow> org_db" where
  "unassign u P db =
     db\<lparr>og_tasks := update_where
       (\<lambda>k. tk_assignee k = Some u \<and> \<not> tk_deleted k \<and> (case worked_team db k of None \<Rightarrow> False | Some t \<Rightarrow> P t))
       (\<lambda>k. k\<lparr>tk_assignee := None\<rparr>) (og_tasks db)\<rparr>"

definition dropMemberRow :: "uuid \<Rightarrow> uuid \<Rightarrow> org_db \<Rightarrow> org_db" where
  "dropMemberRow t u db = with_seats (leave_team t u) (unassign u (\<lambda>x. x = t) db)"

definition user_level :: "org_db \<Rightarrow> uuid \<Rightarrow> uuid \<Rightarrow> uuid \<Rightarrow> ProjectAccessLevel option" where
  "user_level db ws u p = getProjectAccessLevel (assignments_from_db (access_view (og_staff db)) ws u) p"

definition addTeamMember :: "uuid \<Rightarrow> uuid \<Rightarrow> uuid \<Rightarrow> org_db \<Rightarrow> api_error + org_db" where
  "addTeamMember t u ws db =
     bind_sum (getTeam db t ws) (\<lambda>_.
     if \<not> active_member (access_view (og_staff db)) ws u then Inl (PreconditionFailed ''TEAM_MEMBER_NOT_WORKSPACE_MEMBER'')
     else if listActiveProjectIds db t \<noteq> [] \<and> \<not> isWorkspaceAdmin (access_view (og_staff db)) ws u \<and>
             (\<forall>p\<in>set (listActiveProjectIds db t). user_level db ws u p = None)
     then Inl (PreconditionFailed ''TEAM_MEMBER_NOT_PROJECT_MEMBER'')
     else if findTeamMember db t u then Inl (Conflict ''TEAM_MEMBER_ALREADY_EXISTS'')
     else Inr (with_seats (enter_team ws u t) db))"

definition removeTeamMember :: "uuid \<Rightarrow> uuid \<Rightarrow> uuid \<Rightarrow> org_db \<Rightarrow> api_error + org_db" where
  "removeTeamMember t u ws db =
     bind_sum (getTeam db t ws) (\<lambda>_.
     if \<not> findTeamMember db t u then Inl (NotFound ''TEAM_MEMBER_NOT_FOUND'') else Inr (dropMemberRow t u db))"

definition listUserTeamIds :: "org_db \<Rightarrow> uuid \<Rightarrow> uuid list \<Rightarrow> uuid list" where
  "listUserTeamIds db u teamIds = filter (\<lambda>t. findTeamMember db t u) teamIds"

definition applyTeamMembershipDiff :: "uuid \<Rightarrow> uuid \<Rightarrow> uuid list \<Rightarrow> uuid list \<Rightarrow> org_db \<Rightarrow> org_db" where
  "applyTeamMembershipDiff ws u add remove db =
     fold (\<lambda>t db. if findTeamMember db t u then dropMemberRow t u db else db) remove
       (fold (\<lambda>t. with_seats (enter_team ws u t)) add db)"

section \<open>Teams and members of a Project\<close>

text \<open>\<^verbatim>\<open>assertProjectWritable\<close>, over these tables.\<close>

definition writable :: "org_db \<Rightarrow> uuid \<Rightarrow> uuid \<Rightarrow> api_error + unit" where
  "writable db ws p =
     (if \<not> live_project (og_staff db) ws p then Inl (NotFound ''PROJECT_NOT_FOUND'')
      else if p \<in> set (og_archived db) then Inl (PreconditionFailed ''PROJECT_ARCHIVED'') else Inr ())"

definition findLink :: "org_db \<Rightarrow> uuid \<Rightarrow> uuid \<Rightarrow> bool" where
  "findLink db p t \<longleftrightarrow> (\<exists>l\<in>set (sd_links (og_staff db)). pt_project l = p \<and> pt_team l = t \<and> pt_active l)"

definition linkTeam :: "uuid \<Rightarrow> uuid \<Rightarrow> uuid \<Rightarrow> org_db \<Rightarrow> api_error + org_db" where
  "linkTeam ws p t db =
     bind_sum (writable db ws p) (\<lambda>_.
     if \<not> (\<exists>x\<in>set (og_teams db). te_id x = t \<and> te_workspace x = ws \<and> te_active x) then Inl (PreconditionFailed ''PROJECT_TEAM_NOT_FOUND'')
     else if findLink db p t then Inl (Conflict ''PROJECT_TEAM_ALREADY_LINKED'')
     else if \<exists>l\<in>set (sd_links (og_staff db)). pt_project l = p \<and> pt_team l = t then Inl (Uncaught ''23505'')
     else Inr (with_links (\<lambda>rows. rows @ [\<lparr>pt_project = p, pt_team = t, pt_active = True\<rparr>]) db))"

definition unlinkTeam :: "uuid \<Rightarrow> uuid \<Rightarrow> uuid \<Rightarrow> org_db \<Rightarrow> api_error + org_db" where
  "unlinkTeam ws p t db =
     bind_sum (writable db ws p) (\<lambda>_.
     if \<not> findLink db p t then Inl (NotFound ''PROJECT_TEAM_LINK_NOT_FOUND'')
     else if \<exists>c\<in>set (og_planTeams db). \<exists>x\<in>set (og_plans db). ct_plan c = cp_id x \<and> ct_team c = t \<and> cp_project x = p \<and> cp_workspace x = ws
     then Inl (PreconditionFailed ''PROJECT_TEAM_HAS_CAPACITY_PLAN'')
     else Inr (with_links (update_where (\<lambda>l. pt_project l = p \<and> pt_team l = t \<and> pt_active l) (\<lambda>l. l\<lparr>pt_active := False\<rparr>)) db))"

text \<open>The active links whose team is active.\<close>

definition project_teams :: "org_db \<Rightarrow> uuid \<Rightarrow> uuid list" where
  "project_teams db p =
     map pt_team (filter (\<lambda>l. pt_project l = p \<and> pt_active l \<and> (\<exists>t\<in>set (og_teams db). te_id t = pt_team l \<and> te_active t)) (sd_links (og_staff db)))"

definition projectTeamContext :: "org_db \<Rightarrow> uuid \<Rightarrow> uuid \<Rightarrow> uuid list \<times> uuid list" where
  "projectTeamContext db p u = (project_teams db p, listUserTeamIds db u (project_teams db p))"

definition setProjectAccess_teams ::
  "staff_env \<Rightarrow> uuid \<Rightarrow> uuid \<Rightarrow> uuid \<Rightarrow> ProjectAccessLevel option \<Rightarrow> uuid list option \<Rightarrow> org_db \<Rightarrow> api_error + org_db" where
  "setProjectAccess_teams env ws p u level teamIds db =
     (if \<not> live_project (og_staff db) ws p then Inl (NotFound ''PROJECT_NOT_FOUND'')
      else
        let (projectTeamIds, currentTeamIds) = projectTeamContext db p u;
            requested = map_option (dedupe_by (\<lambda>x. x) {}) teamIds
        in if (case requested of None \<Rightarrow> False | Some ts \<Rightarrow> \<exists>t\<in>set ts. t \<notin> set projectTeamIds)
           then Inl (PreconditionFailed ''PROJECT_TEAM_NOT_FOUND'')
           else
             let target = (if grantsAllTeams level then currentTeamIds else case requested of None \<Rightarrow> currentTeamIds | Some ts \<Rightarrow> ts)
             in bind_sum (assertTeamAssignmentForLevel level target (projectTeamIds \<noteq> [])) (\<lambda>_.
                let db1 = applyTeamMembershipDiff ws u (filter (\<lambda>t. t \<notin> set currentTeamIds) target)
                            (filter (\<lambda>t. t \<notin> set target) currentTeamIds) db
                in bind_sum (grantProjectAccess env False ws p u (map_option level_slug level) (og_staff db1)) (\<lambda>staff.
                   Inr (db1\<lparr>og_staff := staff\<rparr>))))"

definition updateProjectMember ::
  "uuid \<Rightarrow> uuid \<Rightarrow> uuid \<Rightarrow> ProjectAccessLevel option \<Rightarrow> bool option \<Rightarrow> org_db \<Rightarrow> api_error + org_db" where
  "updateProjectMember ws p i level active db =
     (if \<not> live_project (og_staff db) ws p then Inl (NotFound ''PROJECT_NOT_FOUND'')
      else
        (case find (\<lambda>g. pm_id g = i) (sd_grants (og_staff db)) of
           None \<Rightarrow> Inl (NotFound ''PROJECT_MEMBER_NOT_FOUND'')
         | Some g \<Rightarrow>
             if pm_project g \<noteq> p then Inl (NotFound ''PROJECT_MEMBER_NOT_FOUND'')
             else
               let (projectTeamIds, currentTeamIds) = projectTeamContext db p (pm_user g)
               in bind_sum (if level = None then Inr () else assertTeamAssignmentForLevel level currentTeamIds (projectTeamIds \<noteq> [])) (\<lambda>_.
                  Inr (db\<lparr>og_staff := (og_staff db)\<lparr>sd_grants := update_where (\<lambda>r. pm_id r = i)
                     (\<lambda>r. r\<lparr>pm_level := (case level of None \<Rightarrow> pm_level r | Some l \<Rightarrow> Some (level_slug l)),
                            pm_active := (case active of None \<Rightarrow> pm_active r | Some a \<Rightarrow> a)\<rparr>) (sd_grants (og_staff db))\<rparr>\<rparr>))))"

text \<open>The rows of the team members are deleted, not marked.\<close>

definition removeProjectMember :: "uuid \<Rightarrow> uuid \<Rightarrow> uuid \<Rightarrow> org_db \<Rightarrow> api_error + org_db" where
  "removeProjectMember ws p u db =
     (if \<not> live_project (og_staff db) ws p then Inl (NotFound ''PROJECT_NOT_FOUND'')
      else if \<not> (\<exists>g\<in>set (sd_grants (og_staff db)). pm_project g = p \<and> pm_user g = u \<and> pm_active g)
      then Inl (NotFound ''PROJECT_MEMBER_NOT_FOUND'')
      else
        let linked = (\<lambda>t. findLink db p t);
            db1 = db\<lparr>og_staff := (og_staff db)\<lparr>
              sd_grants := update_where (\<lambda>g. pm_project g = p \<and> pm_user g = u) (\<lambda>g. g\<lparr>pm_active := False\<rparr>) (sd_grants (og_staff db))\<rparr>\<rparr>
        in Inr (unassign u linked (with_seats (filter (\<lambda>m. \<not> (tm_user m = u \<and> linked (tm_team m)))) db1)))"

end
