(* ===== verification/TeamLaws.thy ===== *)
theory TeamLaws
  imports Teams
begin

text \<open>
  What the requests of \<open>Teams\<close> keep, over any sequence of them: unique keys, one row per member and per link,
  and for every team of a capacity plan an active link to the Project of the plan.
\<close>

section \<open>Requests\<close>

datatype org_call =
    Create_team uuid uuid team_request
  | Update_team uuid uuid team_patch
  | Delete_team uuid uuid
  | Add_member uuid uuid uuid
  | Remove_member uuid uuid uuid
  | Link_team uuid uuid uuid
  | Unlink_team uuid uuid uuid
  | Set_access staff_env uuid uuid uuid "ProjectAccessLevel option" "uuid list option"
  | Update_grant uuid uuid uuid "ProjectAccessLevel option" "bool option"
  | Remove_grant uuid uuid uuid

fun org_exec :: "org_call \<Rightarrow> org_db \<Rightarrow> api_error + org_db" where
  "org_exec (Create_team i ws q) = createTeam i ws q"
| "org_exec (Update_team i ws q) = updateTeam i ws q"
| "org_exec (Delete_team i ws) = deleteTeam i ws"
| "org_exec (Add_member t u ws) = addTeamMember t u ws"
| "org_exec (Remove_member t u ws) = removeTeamMember t u ws"
| "org_exec (Link_team ws p t) = linkTeam ws p t"
| "org_exec (Unlink_team ws p t) = unlinkTeam ws p t"
| "org_exec (Set_access env ws p u level ts) = setProjectAccess_teams env ws p u level ts"
| "org_exec (Update_grant ws p i level active) = updateProjectMember ws p i level active"
| "org_exec (Remove_grant ws p u) = removeProjectMember ws p u"

definition org_run :: "org_call list \<Rightarrow> org_db \<Rightarrow> org_db" where
  "org_run cs db = fold (\<lambda>c db. case org_exec c db of Inl _ \<Rightarrow> db | Inr db' \<Rightarrow> db') cs db"

definition seat_key :: "team_member_row \<Rightarrow> uuid \<times> uuid" where
  "seat_key m = (tm_team m, tm_user m)"

definition link_key :: "project_team_row \<Rightarrow> uuid \<times> uuid" where
  "link_key l = (pt_project l, pt_team l)"

definition linked :: "project_team_row list \<Rightarrow> uuid \<Rightarrow> uuid \<Rightarrow> bool" where
  "linked rows p t \<longleftrightarrow> (\<exists>l\<in>set rows. pt_project l = p \<and> pt_team l = t \<and> pt_active l)"

definition team_ref :: "full_team \<Rightarrow> uuid \<times> uuid" where
  "team_ref t = (te_id t, te_workspace t)"

text \<open>A team of a plan exists in the workspace of the plan and is linked to its Project.\<close>

definition plan_teams_linked :: "full_team list \<Rightarrow> project_team_row list \<Rightarrow> plan_row list \<Rightarrow> plan_team_row list \<Rightarrow> bool" where
  "plan_teams_linked teams rows plans cs \<longleftrightarrow>
     (\<forall>c\<in>set cs. \<exists>p\<in>set plans. cp_id p = ct_plan c \<and> linked rows (cp_project p) (ct_team c) \<and>
        (ct_team c, cp_workspace p) \<in> set (map team_ref teams))"

definition org_inv :: "org_db \<Rightarrow> bool" where
  "org_inv db \<longleftrightarrow>
     distinct (map te_id (og_teams db)) \<and> distinct (map (\<lambda>t. (te_workspace t, te_key t)) (og_teams db)) \<and>
     distinct (map seat_key (sd_seats (og_staff db))) \<and> distinct (map link_key (sd_links (og_staff db))) \<and>
     distinct (map cp_id (og_plans db)) \<and>
     (\<forall>p\<in>set (og_plans db). \<forall>r\<in>set (sd_projects (og_staff db)). pj_id r = cp_project p \<longrightarrow> pj_workspace r = cp_workspace p) \<and>
     plan_teams_linked (og_teams db) (sd_links (og_staff db)) (og_plans db) (og_planTeams db)"

section \<open>Rows of members and links\<close>

lemma with_seats_fields [simp]:
  "og_teams (with_seats f db) = og_teams db" "og_plans (with_seats f db) = og_plans db" "og_planTeams (with_seats f db) = og_planTeams db"
  "sd_seats (og_staff (with_seats f db)) = f (sd_seats (og_staff db))" "sd_links (og_staff (with_seats f db)) = sd_links (og_staff db)"
  "sd_projects (og_staff (with_seats f db)) = sd_projects (og_staff db)" "sd_grants (og_staff (with_seats f db)) = sd_grants (og_staff db)"
  "og_tasks (with_seats f db) = og_tasks db" "og_items (with_seats f db) = og_items db" "og_iterations (with_seats f db) = og_iterations db"
  "og_archived (with_seats f db) = og_archived db"
  by (simp_all add: with_seats_def)

lemma with_links_fields [simp]:
  "og_teams (with_links f db) = og_teams db" "og_plans (with_links f db) = og_plans db" "og_planTeams (with_links f db) = og_planTeams db"
  "sd_links (og_staff (with_links f db)) = f (sd_links (og_staff db))" "sd_seats (og_staff (with_links f db)) = sd_seats (og_staff db)"
  "sd_projects (og_staff (with_links f db)) = sd_projects (og_staff db)" "sd_grants (og_staff (with_links f db)) = sd_grants (og_staff db)"
  "og_tasks (with_links f db) = og_tasks db"
  by (simp_all add: with_links_def)

lemma unassign_fields [simp]:
  "og_teams (unassign u P db) = og_teams db" "og_plans (unassign u P db) = og_plans db" "og_planTeams (unassign u P db) = og_planTeams db"
  "og_staff (unassign u P db) = og_staff db" "og_items (unassign u P db) = og_items db" "og_iterations (unassign u P db) = og_iterations db"
  "og_archived (unassign u P db) = og_archived db"
  by (simp_all add: unassign_def)

text \<open>Whether a user sits in a team, after each write.\<close>

definition seated :: "team_member_row list \<Rightarrow> uuid \<Rightarrow> uuid \<Rightarrow> bool" where
  "seated rows t u \<longleftrightarrow> (\<exists>m\<in>set rows. tm_team m = t \<and> tm_user m = u \<and> tm_active m)"

lemma seated_update: "seated (update_where P (\<lambda>m. m\<lparr>tm_active := b\<rparr>) rows) t u \<longleftrightarrow>
    (\<exists>m\<in>set rows. tm_team m = t \<and> tm_user m = u \<and> (P m \<and> b \<or> \<not> P m \<and> tm_active m))"
  by (induction rows) (auto simp: seated_def update_where_def)

lemma seated_enter [simp]: "seated (enter_team ws u t rows) t' u' \<longleftrightarrow> (t' = t \<and> u' = u) \<or> seated rows t' u'"
proof (cases "\<exists>s\<in>set rows. tm_team s = t \<and> tm_user s = u")
  case True
  then show ?thesis unfolding enter_team_def if_P [OF True] seated_update by (cases "t' = t \<and> u' = u") (auto simp: seated_def)
qed (auto simp: enter_team_def seated_def)

lemma seated_leave [simp]: "seated (leave_team t u rows) t' u' \<longleftrightarrow> \<not> (t' = t \<and> u' = u) \<and> seated rows t' u'"
  unfolding leave_team_def seated_update by (auto simp: seated_def)

lemma seated_fold_users: "seated (fold (\<lambda>u. enter_team ws u t) us rows) t' u' \<longleftrightarrow> (t' = t \<and> u' \<in> set us) \<or> seated rows t' u'"
  by (induction us arbitrary: rows) auto

lemma seated_fold_teams: "seated (fold (enter_team ws u) ts rows) t' u' \<longleftrightarrow> (u' = u \<and> t' \<in> set ts) \<or> seated rows t' u'"
  by (induction ts arbitrary: rows) auto

lemma seated_setMembers: "seated (setMembers ws t us rows) t' u' \<longleftrightarrow> (if t' = t then u' \<in> set us else seated rows t' u')"
  unfolding setMembers_def seated_fold_users seated_update by (auto simp: seated_def)

lemma linked_update: "linked (update_where P (\<lambda>l. l\<lparr>pt_active := b\<rparr>) rows) p t \<longleftrightarrow>
    (\<exists>l\<in>set rows. pt_project l = p \<and> pt_team l = t \<and> (P l \<and> b \<or> \<not> P l \<and> pt_active l))"
  by (induction rows) (auto simp: linked_def update_where_def)

lemma linked_project [simp]: "linked (link_project t p rows) p' t' \<longleftrightarrow> (p' = p \<and> t' = t) \<or> linked rows p' t'"
proof (cases "\<exists>l\<in>set rows. pt_project l = p \<and> pt_team l = t")
  case True
  then show ?thesis unfolding link_project_def if_P [OF True] linked_update by (cases "p' = p \<and> t' = t") (auto simp: linked_def)
qed (auto simp: link_project_def linked_def)

lemma linked_fold: "linked (fold (link_project t) ps rows) p' t' \<longleftrightarrow> (t' = t \<and> p' \<in> set ps) \<or> linked rows p' t'"
  by (induction ps arbitrary: rows) auto

lemma linked_setProjectLinks: "linked (setProjectLinks t ps rows) p' t' \<longleftrightarrow> (if t' = t then p' \<in> set ps else linked rows p' t')"
  unfolding setProjectLinks_def linked_fold linked_update by (auto simp: linked_def)

lemma distinct_snoc_key: "distinct (map k rows) \<Longrightarrow> k x \<notin> k ` set rows \<Longrightarrow> distinct (map k (rows @ [x]))"
  by simp

lemma seats_enter: "distinct (map seat_key rows) \<Longrightarrow> distinct (map seat_key (enter_team ws u t rows))"
  by (auto simp: enter_team_def map_update_where seat_key_def)

lemma seats_leave: "distinct (map seat_key rows) \<Longrightarrow> distinct (map seat_key (leave_team t u rows))"
  by (simp add: leave_team_def map_update_where seat_key_def)

lemma seats_fold_users: "distinct (map seat_key rows) \<Longrightarrow> distinct (map seat_key (fold (\<lambda>u. enter_team ws u t) us rows))"
  by (induction us arbitrary: rows) (auto intro: seats_enter)

lemma seats_setMembers: "distinct (map seat_key rows) \<Longrightarrow> distinct (map seat_key (setMembers ws t us rows))"
  unfolding setMembers_def by (rule seats_fold_users) (simp add: map_update_where seat_key_def)

lemma links_project: "distinct (map link_key rows) \<Longrightarrow> distinct (map link_key (link_project t p rows))"
  by (auto simp: link_project_def map_update_where link_key_def)

lemma links_fold: "distinct (map link_key rows) \<Longrightarrow> distinct (map link_key (fold (link_project t) ps rows))"
  by (induction ps arbitrary: rows) (auto intro: links_project)

lemma links_setProjectLinks: "distinct (map link_key rows) \<Longrightarrow> distinct (map link_key (setProjectLinks t ps rows))"
  unfolding setProjectLinks_def by (rule links_fold) (simp add: map_update_where link_key_def)

section \<open>The tables stay sound\<close>

lemma plan_teams_linked_mono:
  "plan_teams_linked teams rows plans cs \<Longrightarrow>
   (\<And>c p. c \<in> set cs \<Longrightarrow> p \<in> set plans \<Longrightarrow> cp_id p = ct_plan c \<Longrightarrow> linked rows (cp_project p) (ct_team c) \<Longrightarrow>
      (ct_team c, cp_workspace p) \<in> set (map team_ref teams) \<Longrightarrow> linked rows' (cp_project p) (ct_team c)) \<Longrightarrow>
   plan_teams_linked teams rows' plans cs"
  unfolding plan_teams_linked_def by blast

lemma org_inv_seats: "org_inv db \<Longrightarrow> distinct (map seat_key (f (sd_seats (og_staff db)))) \<Longrightarrow> org_inv (with_seats f db)"
  by (simp add: org_inv_def)

lemma org_inv_links:
  "org_inv db \<Longrightarrow> distinct (map link_key (f (sd_links (og_staff db)))) \<Longrightarrow>
   (\<And>c p. c \<in> set (og_planTeams db) \<Longrightarrow> p \<in> set (og_plans db) \<Longrightarrow> cp_id p = ct_plan c \<Longrightarrow>
      linked (sd_links (og_staff db)) (cp_project p) (ct_team c) \<Longrightarrow>
      (ct_team c, cp_workspace p) \<in> set (map team_ref (og_teams db)) \<Longrightarrow>
      linked (f (sd_links (og_staff db))) (cp_project p) (ct_team c)) \<Longrightarrow>
   org_inv (with_links f db)"
  unfolding org_inv_def with_links_fields by (blast intro: plan_teams_linked_mono)

lemma org_inv_teams:
  "org_inv db \<Longrightarrow> distinct (map te_id ts) \<Longrightarrow> distinct (map (\<lambda>t. (te_workspace t, te_key t)) ts) \<Longrightarrow>
   set (map team_ref (og_teams db)) \<subseteq> set (map team_ref ts) \<Longrightarrow> org_inv (db\<lparr>og_teams := ts\<rparr>)"
  unfolding org_inv_def plan_teams_linked_def by (simp add: subset_iff) blast

lemma org_inv_unassign [simp]: "org_inv (unassign u P db) \<longleftrightarrow> org_inv db"
  by (simp add: org_inv_def)

lemma org_inv_staff:
  "org_inv db \<Longrightarrow> sd_seats s = sd_seats (og_staff db) \<Longrightarrow> sd_links s = sd_links (og_staff db) \<Longrightarrow> sd_projects s = sd_projects (og_staff db) \<Longrightarrow>
   org_inv (db\<lparr>og_staff := s\<rparr>)"
  by (simp add: org_inv_def)

lemma org_inv_drop: "org_inv db \<Longrightarrow> org_inv (dropMemberRow t u db)"
  by (auto simp: dropMemberRow_def org_inv_def intro: seats_leave)

lemma org_inv_enter: "org_inv db \<Longrightarrow> org_inv (with_seats (enter_team ws u t) db)"
  by (rule org_inv_seats) (auto simp: org_inv_def intro: seats_enter)

lemma org_inv_diff: "org_inv db \<Longrightarrow> org_inv (applyTeamMembershipDiff ws u add remove db)"
proof -
  have "org_inv (fold (\<lambda>t. with_seats (enter_team ws u t)) ts db)" if "org_inv db" for ts db
    using that by (induction ts arbitrary: db) (auto intro: org_inv_enter)
  moreover have "org_inv (fold (\<lambda>t db. if findTeamMember db t u then dropMemberRow t u db else db) ts db)" if "org_inv db" for ts db
    using that by (induction ts arbitrary: db) (auto intro: org_inv_drop)
  ultimately show "org_inv db \<Longrightarrow> ?thesis" unfolding applyTeamMembershipDiff_def by blast
qed

lemma grant_fields:
  "grantProjectAccess env b ws p u l s = Inr s' \<Longrightarrow>
     sd_seats s' = sd_seats s \<and> sd_links s' = sd_links s \<and> sd_projects s' = sd_projects s \<and> sd_members s' = sd_members s \<and>
     sd_assignments s' = sd_assignments s \<and> sd_roles s' = sd_roles s"
  by (auto simp: grantProjectAccess_def createGrant_def split: if_splits option.splits)

lemma patch_team_fields [simp]: "te_id (patch_team q k t) = te_id t" "te_workspace (patch_team q k t) = te_workspace t"
  by (simp_all add: patch_team_def)

lemma keys_patch:
  assumes "distinct (map te_id teams)" "distinct (map (\<lambda>t. (te_workspace t, te_key t)) teams)"
    and "\<not> (\<exists>x\<in>set teams. \<exists>y\<in>set teams. te_id x \<noteq> i \<and> te_id y = i \<and> te_workspace x = te_workspace y \<and> te_key x = te_key (patch_team q k y))"
  shows "distinct (map (\<lambda>t. (te_workspace t, te_key t)) (update_where (\<lambda>t. te_id t = i) (patch_team q k) teams))"
  using assms
proof (induction teams)
  case (Cons a ts)
  have "(te_workspace a', te_key a') \<notin> (\<lambda>t. (te_workspace t, te_key t)) ` set (update_where (\<lambda>t. te_id t = i) (patch_team q k) ts)"
    if a': "a' = (if te_id a = i then patch_team q k a else a)" for a'
  proof
    assume "(te_workspace a', te_key a') \<in> (\<lambda>t. (te_workspace t, te_key t)) ` set (update_where (\<lambda>t. te_id t = i) (patch_team q k) ts)"
    then obtain b where b: "b \<in> set ts" "te_workspace a' = te_workspace b"
      "te_key a' = te_key (if te_id b = i then patch_team q k b else b)" by (auto simp: in_update_where split: if_splits)
    from b(1) have "te_id b \<in> te_id ` set ts" by simp
    with Cons.prems(1) have "te_id b \<noteq> te_id a" by auto
    with a' b Cons.prems(2,3) show False by (cases "te_id a = i"; cases "te_id b = i") auto
  qed
  moreover have "distinct (map (\<lambda>t. (te_workspace t, te_key t)) (update_where (\<lambda>t. te_id t = i) (patch_team q k) ts))"
    by (rule Cons.IH) (use Cons.prems in auto)
  moreover have "update_where P f (a # ts) = (if P a then f a else a) # update_where P f ts" for P and f :: "full_team \<Rightarrow> full_team"
    by (simp add: update_where_def)
  ultimately show ?case by simp
qed (simp add: update_where_def)

lemma org_inv_create: "org_inv db \<Longrightarrow> createTeam i ws q db = Inr db' \<Longrightarrow> org_inv db'"
proof -
  assume inv: "org_inv db" and run: "createTeam i ws q db = Inr db'"
  let ?t = "\<lparr>te_id = i, te_workspace = ws, te_active = True, te_key = toUpperCase (toUpperCase (tq_key q)), te_name = tq_name q, te_lead = tq_lead q\<rparr>"
  from run obtain ps us where fresh: "\<forall>x\<in>set (og_teams db). te_id x \<noteq> i \<and> \<not> (te_workspace x = ws \<and> te_key x = te_key ?t)" and
    db': "db' = with_seats (setMembers ws i us) (with_links (setProjectLinks i ps)
      (db\<lparr>og_teams := (if tq_active q = Some False then update_where (\<lambda>t. te_id t = i) (\<lambda>t. t\<lparr>te_active := False\<rparr>) (og_teams db @ [?t]) else og_teams db @ [?t])\<rparr>))"
    by (auto simp: createTeam_def bind_sum_Inr insert_team_def Let_def split: if_splits)
  let ?ts = "if tq_active q = Some False then update_where (\<lambda>t. te_id t = i) (\<lambda>t. t\<lparr>te_active := False\<rparr>) (og_teams db @ [?t]) else og_teams db @ [?t]"
  have same: "map te_id ?ts = map te_id (og_teams db @ [?t])" "map team_ref ?ts = map team_ref (og_teams db @ [?t])"
    "map (\<lambda>t. (te_workspace t, te_key t)) ?ts = map (\<lambda>t. (te_workspace t, te_key t)) (og_teams db @ [?t])"
    by (simp_all add: map_update_where team_ref_def)
  have "org_inv (db\<lparr>og_teams := ?ts\<rparr>)"
    by (rule org_inv_teams [OF inv]; simp only: same) (use inv fresh in \<open>auto simp: org_inv_def\<close>)
  moreover have "ct_team c \<noteq> i" if "c \<in> set (og_planTeams db)" for c
  proof -
    from inv that have "ct_team c \<in> te_id ` set (og_teams db)" unfolding org_inv_def plan_teams_linked_def by (force simp: team_ref_def)
    with fresh show ?thesis by auto
  qed
  ultimately have "org_inv (with_links (setProjectLinks i ps) (db\<lparr>og_teams := ?ts\<rparr>))"
    by (intro org_inv_links) (use inv in \<open>auto simp: org_inv_def linked_setProjectLinks intro: links_setProjectLinks\<close>)
  then show "org_inv db'" unfolding db' by (rule org_inv_seats) (use inv in \<open>auto simp: org_inv_def intro: seats_setMembers\<close>)
qed

text \<open>A plan that keeps a team at a Project is found by the check before the link is dropped.\<close>

lemma blocking_none:
  "findBlockingCapacityPlans db ws t ps = [] \<Longrightarrow> c \<in> set (og_planTeams db) \<Longrightarrow> x \<in> set (og_plans db) \<Longrightarrow> ct_plan c = cp_id x \<Longrightarrow>
   ct_team c = t \<Longrightarrow> cp_workspace x = ws \<Longrightarrow> cp_project x \<in> set ps \<Longrightarrow> False"
  by (fastforce simp: findBlockingCapacityPlans_def map_filter_def filter_empty_conv split: if_splits)

lemma linked_active: "linked (sd_links (og_staff db)) p t \<longleftrightarrow> p \<in> set (listActiveProjectIds db t)"
  by (auto simp: linked_def listActiveProjectIds_def)

lemma team_workspace:
  "org_inv db \<Longrightarrow> getTeam db i ws = Inr team \<Longrightarrow> (i, w) \<in> set (map team_ref (og_teams db)) \<Longrightarrow> w = ws"
proof -
  assume inv: "org_inv db" and team: "getTeam db i ws = Inr team" and ref: "(i, w) \<in> set (map team_ref (og_teams db))"
  from team have "team \<in> set (og_teams db)" "te_id team = i" "te_workspace team = ws"
    by (auto simp: getTeam_def findTeamById_def find_Some_iff split: option.splits)
  moreover from ref obtain x where "x \<in> set (og_teams db)" "te_id x = i" "te_workspace x = w" by (auto simp: team_ref_def)
  moreover from inv have "inj_on te_id (set (og_teams db))" by (simp add: org_inv_def distinct_map)
  ultimately show "w = ws" by (metis inj_onD)
qed

lemma org_inv_update: "org_inv db \<Longrightarrow> updateTeam i ws q db = Inr db' \<Longrightarrow> org_inv db'"
proof -
  assume inv: "org_inv db" and run: "updateTeam i ws q db = Inr db'"
  from run obtain team k ps ms where team: "getTeam db i ws = Inr team" and unlink: "unlink_check db ws i ps = Inr ()" and
    tx: "update_tx i ws q k ps (next_roster db team (tp_lead q) ms) db = Inr db'"
    by (auto simp: updateTeam_def bind_sum_Inr split: if_splits)
  define us where "us = next_roster db team (tp_lead q) ms"
  from tx have clash: "\<not> (\<exists>x\<in>set (og_teams db). \<exists>y\<in>set (og_teams db).
      te_id x \<noteq> i \<and> te_id y = i \<and> te_workspace x = te_workspace y \<and> te_key x = te_key (patch_team q k y))"
    unfolding update_tx_def by (meson Inl_Inr_False)
  from tx have db': "db' = (case us of None \<Rightarrow> (\<lambda>d. d) | Some us \<Rightarrow> with_seats (setMembers ws i us))
      ((case ps of None \<Rightarrow> (\<lambda>d. d) | Some ps \<Rightarrow> with_links (setProjectLinks i ps))
        (db\<lparr>og_teams := update_where (\<lambda>t. te_id t = i) (patch_team q k) (og_teams db)\<rparr>))"
    unfolding update_tx_def if_not_P [OF clash] us_def [symmetric] Let_def by (cases ps; cases us) simp_all
  let ?ts = "update_where (\<lambda>t. te_id t = i) (patch_team q k) (og_teams db)" and ?db1 = "db\<lparr>og_teams := update_where (\<lambda>t. te_id t = i) (patch_team q k) (og_teams db)\<rparr>"
  have same: "map te_id ?ts = map te_id (og_teams db)" "map team_ref ?ts = map team_ref (og_teams db)"
    by (simp_all add: map_update_where team_ref_def)
  have 1: "org_inv ?db1"
  proof (rule org_inv_teams [OF inv])
    show "distinct (map te_id ?ts)" unfolding same using inv by (simp add: org_inv_def)
    show "distinct (map (\<lambda>t. (te_workspace t, te_key t)) ?ts)" by (rule keys_patch) (use inv clash in \<open>simp_all add: org_inv_def\<close>)
    show "set (map team_ref (og_teams db)) \<subseteq> set (map team_ref ?ts)" unfolding same by simp
  qed
  have 2: "org_inv (with_links (setProjectLinks i xs) ?db1)" if xs: "ps = Some xs" for xs
  proof (rule org_inv_links [OF 1])
    show "distinct (map link_key (setProjectLinks i xs (sd_links (og_staff ?db1))))" using inv by (auto simp: org_inv_def intro: links_setProjectLinks)
    fix c p assume c: "c \<in> set (og_planTeams ?db1)" "p \<in> set (og_plans ?db1)" "cp_id p = ct_plan c"
      "linked (sd_links (og_staff ?db1)) (cp_project p) (ct_team c)" "(ct_team c, cp_workspace p) \<in> set (map team_ref (og_teams ?db1))"
    have "cp_project p \<in> set xs" if t: "ct_team c = i"
    proof (rule ccontr)
      assume out: "cp_project p \<notin> set xs"
      let ?removed = "filter (\<lambda>p. p \<notin> set xs) (listActiveProjectIds db i)"
      from c(4) t out have mem: "cp_project p \<in> set ?removed" by (simp add: linked_active listActiveProjectIds_def)
      then have ne: "?removed \<noteq> []" by (force simp: filter_empty_conv)
      with unlink xs have none: "findBlockingCapacityPlans db ws i ?removed = []" by (simp add: unlink_check_def Let_def split: if_splits)
      have "(i, cp_workspace p) \<in> set (map team_ref (og_teams db))" using c(5) t same(2) by simp
      with team_workspace [OF inv team] have "cp_workspace p = ws" by blast
      with blocking_none [OF none _ _ _ t _ mem] c show False by simp
    qed
    with c(4) show "linked (setProjectLinks i xs (sd_links (og_staff ?db1))) (cp_project p) (ct_team c)" by (simp add: linked_setProjectLinks)
  qed
  have 3: "org_inv d \<Longrightarrow> org_inv (with_seats (setMembers ws i vs) d)" for d vs
    by (rule org_inv_seats) (auto simp: org_inv_def intro: seats_setMembers)
  show "org_inv db'" unfolding db' using 1 2 3 by (simp split: option.splits)
qed

lemma org_inv_delete: "org_inv db \<Longrightarrow> deleteTeam i ws db = Inr db' \<Longrightarrow> org_inv db'"
proof -
  assume inv: "org_inv db" and run: "deleteTeam i ws db = Inr db'"
  let ?db1 = "with_links (filter (\<lambda>l. pt_team l \<noteq> i)) (with_seats (filter (\<lambda>m. tm_team m \<noteq> i)) db)"
  let ?ts = "filter (\<lambda>t. \<not> (te_id t = i \<and> te_workspace t = ws)) (og_teams db)"
  from run have hist: "countHistoryReferences db i ws = []" and db': "db' = ?db1\<lparr>og_teams := ?ts\<rparr>"
    by (auto simp: deleteTeam_def bind_sum_Inr Let_def split: if_splits)
  from hist have "filter (\<lambda>c. ct_team c = i) (og_planTeams db) = []" by (auto simp: countHistoryReferences_def split: if_splits)
  then have none: "ct_team c \<noteq> i" if "c \<in> set (og_planTeams db)" for c using that by (auto simp: filter_empty_conv)
  have link: "linked (filter (\<lambda>l. pt_team l \<noteq> i) rows) p t \<longleftrightarrow> t \<noteq> i \<and> linked rows p t" for rows p t by (auto simp: linked_def)
  have "plan_teams_linked ?ts (filter (\<lambda>l. pt_team l \<noteq> i) (sd_links (og_staff db))) (og_plans db) (og_planTeams db)"
    unfolding plan_teams_linked_def
  proof
    fix c assume c: "c \<in> set (og_planTeams db)"
    with inv obtain p where p: "p \<in> set (og_plans db)" "cp_id p = ct_plan c" "linked (sd_links (og_staff db)) (cp_project p) (ct_team c)"
      "(ct_team c, cp_workspace p) \<in> set (map team_ref (og_teams db))" unfolding org_inv_def plan_teams_linked_def by blast
    with none [OF c] show "\<exists>p\<in>set (og_plans db). cp_id p = ct_plan c \<and>
        linked (filter (\<lambda>l. pt_team l \<noteq> i) (sd_links (og_staff db))) (cp_project p) (ct_team c) \<and>
        (ct_team c, cp_workspace p) \<in> set (map team_ref ?ts)"
      by (intro bexI [of _ p]) (auto simp: link team_ref_def)
  qed
  with inv show "org_inv db'" by (simp add: db' org_inv_def distinct_map_filter)
qed

lemma org_inv_link: "org_inv db \<Longrightarrow> linkTeam ws p t db = Inr db' \<Longrightarrow> org_inv db'"
  by (auto simp: linkTeam_def bind_sum_Inr split: if_splits intro!: org_inv_links) (auto simp: org_inv_def link_key_def linked_def)

lemma org_inv_unlink: "org_inv db \<Longrightarrow> unlinkTeam ws p t db = Inr db' \<Longrightarrow> org_inv db'"
proof -
  assume inv: "org_inv db" and run: "unlinkTeam ws p t db = Inr db'"
  let ?f = "update_where (\<lambda>l. pt_project l = p \<and> pt_team l = t \<and> pt_active l) (\<lambda>l. l\<lparr>pt_active := False\<rparr>)"
  from run have db': "db' = with_links ?f db" and live: "live_project (og_staff db) ws p" and
    none: "\<not> (\<exists>c\<in>set (og_planTeams db). \<exists>x\<in>set (og_plans db). ct_plan c = cp_id x \<and> ct_team c = t \<and> cp_project x = p \<and> cp_workspace x = ws)"
    by (auto simp: unlinkTeam_def writable_def bind_sum_Inr split: if_splits)
  show "org_inv db'" unfolding db'
  proof (rule org_inv_links [OF inv])
    show "distinct (map link_key (?f (sd_links (og_staff db))))" using inv by (simp add: org_inv_def map_update_where link_key_def)
    fix c x assume c: "c \<in> set (og_planTeams db)" "x \<in> set (og_plans db)" "cp_id x = ct_plan c" "linked (sd_links (og_staff db)) (cp_project x) (ct_team c)"
    from live inv c(2) have "cp_workspace x = ws" if "cp_project x = p" using that by (auto simp: live_project_def org_inv_def)
    with none c have "\<not> (cp_project x = p \<and> ct_team c = t)" by auto
    with c(4) show "linked (?f (sd_links (og_staff db))) (cp_project x) (ct_team c)" unfolding linked_update by (auto simp: linked_def)
  qed
qed

lemma org_inv_access: "org_inv db \<Longrightarrow> setProjectAccess_teams env ws p u level ts db = Inr db' \<Longrightarrow> org_inv db'"
proof -
  assume inv: "org_inv db" and run: "setProjectAccess_teams env ws p u level ts db = Inr db'"
  then obtain add remove staff where "grantProjectAccess env False ws p u (map_option level_slug level) (og_staff (applyTeamMembershipDiff ws u add remove db)) = Inr staff"
    "db' = (applyTeamMembershipDiff ws u add remove db)\<lparr>og_staff := staff\<rparr>"
    by (auto simp: setProjectAccess_teams_def Let_def bind_sum_Inr split: if_splits prod.splits)
  with org_inv_diff [OF inv] grant_fields show "org_inv db'" by (metis org_inv_staff)
qed

lemma org_inv_grants:
  "org_inv db \<Longrightarrow> updateProjectMember ws p i level active db = Inr db' \<Longrightarrow> org_inv db'"
  "org_inv db \<Longrightarrow> removeProjectMember ws p u db = Inr db' \<Longrightarrow> org_inv db'"
  by (auto simp: updateProjectMember_def removeProjectMember_def Let_def bind_sum_Inr split: if_splits option.splits prod.splits
      intro!: org_inv_staff org_inv_seats) (auto simp: org_inv_def distinct_map_filter)

lemma org_inv_exec: "org_inv db \<Longrightarrow> org_exec c db = Inr db' \<Longrightarrow> org_inv db'"
  by (cases c)
    (auto intro: org_inv_create org_inv_update org_inv_delete org_inv_link org_inv_unlink org_inv_access org_inv_grants
      simp: addTeamMember_def removeTeamMember_def bind_sum_Inr org_inv_enter org_inv_drop split: if_splits)

lemma org_inv_run: "org_inv db \<Longrightarrow> org_inv (org_run cs db)"
  unfolding org_run_def by (induction cs arbitrary: db) (auto intro: org_inv_exec split: sum.splits)

end
