(* ===== verification/TeamCases.thy ===== *)
theory TeamCases
  imports TeamLaws
begin

text \<open>
  What becomes of a user whom a request takes out of a team, the teams an Editor is left with by the combined
  access write, and the two requests that break the rules the others keep; with the laws of \<open>TeamLaws\<close> on a
  concrete workspace.
\<close>

section \<open>Membership and scope\<close>

lemma scoped_linked:
  "t \<in> set (listScopedTeamIds (access_view s) ws u p) \<longleftrightarrow>
     (\<exists>m\<in>set (sd_seats s). tm_workspace m = ws \<and> tm_user m = u \<and> tm_active m \<and> tm_team m = t) \<and> linked (sd_links s) p t"
  unfolding set_listScopedTeamIds linked_def by (auto simp: access_view_def)

lemma scoped_leave:
  "(\<exists>m\<in>set (leave_team t u rows). tm_workspace m = ws \<and> tm_user m = u' \<and> tm_active m \<and> tm_team m = t') \<longleftrightarrow>
     \<not> (t' = t \<and> u' = u) \<and> (\<exists>m\<in>set rows. tm_workspace m = ws \<and> tm_user m = u' \<and> tm_active m \<and> tm_team m = t')"
  by (induction rows) (auto simp: leave_team_def update_where_def)

lemma assignments_seats: "assignments_from_db (access_view (s\<lparr>sd_seats := rows\<rparr>)) = assignments_from_db (access_view s)"
  by (intro ext) (simp add: assignments_from_db_def access_view_def listEffectiveForUser_def active_member_def)

lemma admin_seats: "isWorkspaceAdmin (access_view (s\<lparr>sd_seats := rows\<rparr>)) = isWorkspaceAdmin (access_view s)"
  by (intro ext) (simp add: isWorkspaceAdmin_def access_view_def active_member_def)

lemma staff_drop: "og_staff (dropMemberRow t u db) = (og_staff db)\<lparr>sd_seats := leave_team t u (sd_seats (og_staff db))\<rparr>"
  by (simp add: dropMemberRow_def with_seats_def)

lemma seated_find: "findTeamMember db t u \<longleftrightarrow> seated (sd_seats (og_staff db)) t u"
  by (simp add: findTeamMember_def seated_def)

section \<open>Tasks of a member who leaves\<close>

text \<open>Nobody may hold an open row of a team through \<open>u\<close>.\<close>

definition idle_in :: "org_db \<Rightarrow> uuid \<Rightarrow> uuid \<Rightarrow> bool" where
  "idle_in db t u \<longleftrightarrow> (\<forall>k\<in>set (og_tasks db). worked_team db k = Some t \<and> \<not> tk_deleted k \<longrightarrow> tk_assignee k \<noteq> Some u)"

lemma worked_team_drop: "worked_team (dropMemberRow t u db) k = worked_team db k"
  unfolding worked_team_def dropMemberRow_def with_seats_fields unassign_fields ..

lemma worked_team_assignee: "worked_team db (k\<lparr>tk_assignee := a\<rparr>) = worked_team db k"
  by (simp add: worked_team_def cong: option.case_cong)

lemma tasks_drop:
  "og_tasks (dropMemberRow t u db) = update_where (\<lambda>k. tk_assignee k = Some u \<and> \<not> tk_deleted k \<and> worked_team db k = Some t)
     (\<lambda>k. k\<lparr>tk_assignee := None\<rparr>) (og_tasks db)"
  by (auto simp: dropMemberRow_def unassign_def update_where_def split: option.splits)

lemma idle_drop: "idle_in (dropMemberRow t u db) t u"
  by (simp add: idle_in_def worked_team_drop tasks_drop ball_update_where worked_team_assignee) blast

lemma idle_keep: "idle_in db t u \<Longrightarrow> idle_in (dropMemberRow t' u' db) t u"
  by (fastforce simp: idle_in_def worked_team_drop tasks_drop in_update_where worked_team_assignee split: if_splits)

section \<open>A removed member\<close>

text \<open>C40: A member removed from a team loses that team from their scope in every Project, and no other team; as an
  Editor they are refused the rows of the team from then on. Their roles and everyone else's teams and permissions
  stay as they were, and exactly their live tasks of that team lose their assignee.\<close>

theorem removed_member_out:
  assumes "removeTeamMember t u ws db = Inr db'"
  shows "(\<forall>p. set (listScopedTeamIds (access_view (og_staff db')) ws u p) = set (listScopedTeamIds (access_view (og_staff db)) ws u p) - {t}) \<and>
    (\<forall>p. \<not> isWorkspaceAdmin (access_view (og_staff db)) ws u \<and> user_level db ws u p = Some Editor \<longrightarrow>
       assertTeamInScope (access_view (og_staff db')) (assignments_from_db (access_view (og_staff db')) ws u) ws u p (Some t) \<noteq> Inr ()) \<and>
    (\<forall>v p. v \<noteq> u \<longrightarrow> set (listScopedTeamIds (access_view (og_staff db')) ws v p) = set (listScopedTeamIds (access_view (og_staff db)) ws v p)) \<and>
    assignments_from_db (access_view (og_staff db')) = assignments_from_db (access_view (og_staff db)) \<and>
    list_all2 (\<lambda>k k'. k' = (if tk_assignee k = Some u \<and> \<not> tk_deleted k \<and> worked_team db k = Some t then k\<lparr>tk_assignee := None\<rparr> else k))
      (og_tasks db) (og_tasks db')"
proof -
  from assms have db': "db' = dropMemberRow t u db" by (auto simp: removeTeamMember_def bind_sum_Inr split: if_splits)
  let ?s = "og_staff db" and ?s' = "og_staff db'"
  have in_scope: "x \<in> set (listScopedTeamIds (access_view ?s') ws v p) \<longleftrightarrow>
      x \<in> set (listScopedTeamIds (access_view ?s) ws v p) \<and> \<not> (x = t \<and> v = u)" for x v p
    unfolding scoped_linked by (auto simp: db' staff_drop scoped_leave)
  have same: "assignments_from_db (access_view ?s') = assignments_from_db (access_view ?s)"
    "isWorkspaceAdmin (access_view ?s') = isWorkspaceAdmin (access_view ?s)"
    unfolding db' staff_drop by (rule assignments_seats, rule admin_seats)
  have "assertTeamInScope (access_view ?s') (assignments_from_db (access_view ?s') ws u) ws u p (Some t) \<noteq> Inr ()"
    if "\<not> isWorkspaceAdmin (access_view ?s) ws u \<and> user_level db ws u p = Some Editor" for p
    using that in_scope [of t u p] by (simp add: assertTeamInScope_def resolveTeamScope_def same user_level_def)
  moreover have "list_all2 (\<lambda>k k'. k' = (if tk_assignee k = Some u \<and> \<not> tk_deleted k \<and> worked_team db k = Some t then k\<lparr>tk_assignee := None\<rparr> else k))
      (og_tasks db) (og_tasks db')"
    unfolding db' tasks_drop update_where_def list_all2_map2 by (rule list_all2_refl) simp
  ultimately show ?thesis using in_scope same(1) by (auto simp: set_eq_iff)
qed

section \<open>The combined access write\<close>

abbreviation drops :: "uuid \<Rightarrow> uuid list \<Rightarrow> org_db \<Rightarrow> org_db" where
  "drops u \<equiv> fold (\<lambda>t db. if findTeamMember db t u then dropMemberRow t u db else db)"

lemma member_drop: "findTeamMember (dropMemberRow t u db) t' v \<longleftrightarrow> findTeamMember db t' v \<and> \<not> (v = u \<and> t' = t)"
  by (auto simp: seated_find staff_drop)

lemma member_drops: "findTeamMember (drops u remove db) t v \<longleftrightarrow> findTeamMember db t v \<and> \<not> (v = u \<and> t \<in> set remove)"
  by (induction remove arbitrary: db) (auto simp: member_drop)

lemma drops_frame:
  "sd_links (og_staff (drops u remove db)) = sd_links (og_staff db) \<and> og_teams (drops u remove db) = og_teams db"
  by (induction remove arbitrary: db) (auto simp: staff_drop dropMemberRow_def)

lemma idle_drops: "idle_in db t u \<Longrightarrow> idle_in (drops u remove db) t u"
  by (induction remove arbitrary: db) (auto intro: idle_keep)

lemma idle_dropped: "findTeamMember db t u \<Longrightarrow> t \<in> set remove \<Longrightarrow> idle_in (drops u remove db) t u"
proof (induction remove arbitrary: db)
  case (Cons x xs)
  show ?case
  proof (cases "t = x")
    case True
    with Cons.prems idle_drops [OF idle_drop] show ?thesis by simp
  next
    case False
    with Cons.prems Cons.IH [of "if findTeamMember db x u then dropMemberRow x u db else db"] show ?thesis by (simp add: member_drop)
  qed
qed simp

lemma adds_frame:
  fixes add :: "uuid list" and ws u :: uuid
  defines "adds \<equiv> fold (\<lambda>t. with_seats (enter_team ws u t)) add"
  shows "findTeamMember (adds db) t v \<longleftrightarrow> findTeamMember db t v \<or> v = u \<and> t \<in> set add"
    and "sd_links (og_staff (adds db)) = sd_links (og_staff db)" "og_teams (adds db) = og_teams db"
    and "og_tasks (adds db) = og_tasks db"
  unfolding adds_def by (induction add arbitrary: db) (auto simp: seated_find)

lemma diff_frame:
  shows "findTeamMember (applyTeamMembershipDiff ws u add remove db) t v \<longleftrightarrow>
      (findTeamMember db t v \<or> v = u \<and> t \<in> set add) \<and> \<not> (v = u \<and> t \<in> set remove)"
    and "sd_links (og_staff (applyTeamMembershipDiff ws u add remove db)) = sd_links (og_staff db)"
    and "og_teams (applyTeamMembershipDiff ws u add remove db) = og_teams db"
    and "findTeamMember db t u \<Longrightarrow> t \<in> set remove \<Longrightarrow> idle_in (applyTeamMembershipDiff ws u add remove db) t u"
  unfolding applyTeamMembershipDiff_def
  by (simp_all add: member_drops drops_frame idle_dropped adds_frame)

lemma find_hit: "find P xs = Some x \<Longrightarrow> x \<in> set xs \<and> P x"
  by (auto simp: find_Some_iff)

lemma createGrant_written:
  "createGrant i ws p u l s = Inr s' \<Longrightarrow>
     \<exists>g\<in>set (sd_grants s'). pm_project g = p \<and> pm_user g = u \<and> pm_active g \<and> pm_level g = l"
proof -
  assume run: "createGrant i ws p u l s = Inr s'"
  show ?thesis
  proof (cases "\<exists>g\<in>set (sd_grants s). pm_project g = p \<and> pm_user g = u")
    case True
    then obtain g where g: "g \<in> set (sd_grants s)" "pm_project g = p" "pm_user g = u" by blast
    from run True have "sd_grants s' = update_where (\<lambda>g. pm_project g = p \<and> pm_user g = u) (\<lambda>g. g\<lparr>pm_active := True, pm_level := l\<rparr>) (sd_grants s)"
      by (auto simp: createGrant_def)
    with g show ?thesis by (intro bexI [of _ "g\<lparr>pm_active := True, pm_level := l\<rparr>"]) (auto simp: in_update_where)
  next
    case False
    with run show ?thesis by (auto simp: createGrant_def split: if_splits)
  qed
qed

lemma grant_written:
  assumes "grantProjectAccess env False ws p u l s = Inr s'"
  shows "\<exists>g\<in>set (sd_grants s'). pm_project g = p \<and> pm_user g = u \<and> pm_active g \<and> (l \<noteq> None \<longrightarrow> pm_level g = l)"
proof (cases "find (\<lambda>g. pm_project g = p \<and> pm_user g = u \<and> pm_active g) (sd_grants s)")
  case None
  with assms show ?thesis using createGrant_written by (fastforce simp: grantProjectAccess_def split: if_splits)
next
  case (Some g)
  let ?g = "if l = None \<or> l = pm_level g then g else g\<lparr>pm_level := l\<rparr>"
  from find_hit [OF Some] assms Some have "?g \<in> set (sd_grants s')"
    by (auto simp: grantProjectAccess_def in_update_where split: if_splits)
  with find_hit [OF Some] show ?thesis by (intro bexI [of _ ?g]) auto
qed

text \<open>The Projects' teams depend on the links and the status of the teams only.\<close>

lemma project_teams_same:
  "sd_links (og_staff d) = sd_links (og_staff db) \<Longrightarrow> og_teams d = og_teams db \<Longrightarrow> project_teams d p = project_teams db p"
  by (simp add: project_teams_def)

text \<open>The written state: the diff, then the grant.\<close>

lemma access_written:
  assumes "setProjectAccess_teams env ws p u level teamIds db = Inr db'"
  obtains target where
    "target = (if level = Some Admin then listUserTeamIds db u (project_teams db p)
       else case teamIds of None \<Rightarrow> listUserTeamIds db u (project_teams db p) | Some ts \<Rightarrow> dedupe_by (\<lambda>x. x) {} ts)"
    "\<And>ts. teamIds = Some ts \<Longrightarrow> set ts \<subseteq> set (project_teams db p)"
    "level = Some Editor \<Longrightarrow> project_teams db p \<noteq> [] \<Longrightarrow> target \<noteq> []"
    "sd_seats (og_staff db') = sd_seats (og_staff (applyTeamMembershipDiff ws u (filter (\<lambda>t. t \<notin> set (listUserTeamIds db u (project_teams db p))) target)
       (filter (\<lambda>t. t \<notin> set target) (listUserTeamIds db u (project_teams db p))) db))"
    "og_tasks db' = og_tasks (applyTeamMembershipDiff ws u (filter (\<lambda>t. t \<notin> set (listUserTeamIds db u (project_teams db p))) target)
       (filter (\<lambda>t. t \<notin> set target) (listUserTeamIds db u (project_teams db p))) db)"
    "project_teams db' p = project_teams db p"
    "\<And>k. worked_team db' k = worked_team (applyTeamMembershipDiff ws u (filter (\<lambda>t. t \<notin> set (listUserTeamIds db u (project_teams db p))) target)
       (filter (\<lambda>t. t \<notin> set target) (listUserTeamIds db u (project_teams db p))) db) k"
    "\<exists>g\<in>set (sd_grants (og_staff db')). pm_project g = p \<and> pm_user g = u \<and> pm_active g \<and> (level \<noteq> None \<longrightarrow> pm_level g = map_option level_slug level)"
proof -
  let ?current = "listUserTeamIds db u (project_teams db p)"
  let ?target = "if level = Some Admin then ?current else case teamIds of None \<Rightarrow> ?current | Some ts \<Rightarrow> dedupe_by (\<lambda>x. x) {} ts"
  let ?d = "applyTeamMembershipDiff ws u (filter (\<lambda>t. t \<notin> set ?current) ?target) (filter (\<lambda>t. t \<notin> set ?target) ?current) db"
  have target: "(if grantsAllTeams level then ?current else case map_option (dedupe_by (\<lambda>x. x) {}) teamIds of None \<Rightarrow> ?current | Some ts \<Rightarrow> ts) = ?target"
    by (cases teamIds) (simp_all add: grantsAllTeams_def)
  from assms obtain staff where inside: "case teamIds of None \<Rightarrow> True | Some ts \<Rightarrow> set ts \<subseteq> set (project_teams db p)"
    and rule: "assertTeamAssignmentForLevel level ?target (project_teams db p \<noteq> []) = Inr ()"
    and grant: "grantProjectAccess env False ws p u (map_option level_slug level) (og_staff ?d) = Inr staff"
    and db': "db' = ?d\<lparr>og_staff := staff\<rparr>"
    unfolding setProjectAccess_teams_def projectTeamContext_def Let_def prod.case target
    by (cases teamIds) (auto simp: bind_sum_Inr set_dedupe subset_iff split: if_splits)
  note kept = grant_fields [OF grant]
  have editor: "?target \<noteq> []" if "level = Some Editor" "project_teams db p \<noteq> []"
    using rule that by (auto simp: assertTeamAssignmentForLevel_def requiresTeamAssignment_def TEAM_ROSTER_ACCESS_LEVEL_def grantsAllTeams_def split: if_splits)
  have "project_teams db' p = project_teams db p"
    by (rule project_teams_same) (simp_all add: db' kept diff_frame)
  moreover have "worked_team db' k = worked_team ?d k" for k by (simp add: worked_team_def db' cong: option.case_cong)
  moreover have "set ts \<subseteq> set (project_teams db p)" if "teamIds = Some ts" for ts using inside that by simp
  ultimately show ?thesis
    by (intro that [of ?target]) (use kept grant_written [OF grant] editor in \<open>simp_all add: db'\<close>)
qed

lemma set_listUserTeamIds: "t \<in> set (listUserTeamIds db u ts) \<longleftrightarrow> t \<in> set ts \<and> findTeamMember db t u"
  by (simp add: listUserTeamIds_def)

text \<open>C25: A combined write of an access level and teams that names the level Editor, on a Project that has teams,
  leaves the user in at least one of them. Where it names teams and a level other than Admin, or none, the user's
  teams of the Project are then exactly those; a request that names Admin changes no team at all. It touches nobody
  else's teams and no team outside the Project, leaves an active grant with the level it names, and where the user
  leaves a team no live task of that team stays assigned to them. A Project without teams accepts an Editor, and a
  request that names no level may take an Editor's last team (\<open>levelless_access_empties\<close>).\<close>

theorem editor_keeps_team:
  assumes "setProjectAccess_teams env ws p u level teamIds db = Inr db'"
  shows "(level = Some Editor \<and> project_teams db' p \<noteq> [] \<longrightarrow> (\<exists>t\<in>set (project_teams db' p). findTeamMember db' t u)) \<and>
    (level = Some Admin \<longrightarrow> (\<forall>t v. findTeamMember db' t v = findTeamMember db t v)) \<and>
    (\<forall>ts. level \<noteq> Some Admin \<and> teamIds = Some ts \<longrightarrow> (\<forall>t\<in>set (project_teams db' p). findTeamMember db' t u \<longleftrightarrow> t \<in> set ts)) \<and>
    (\<forall>t v. t \<notin> set (project_teams db p) \<or> v \<noteq> u \<longrightarrow> findTeamMember db' t v = findTeamMember db t v) \<and>
    (\<forall>t. findTeamMember db t u \<and> \<not> findTeamMember db' t u \<longrightarrow> idle_in db' t u) \<and>
    (\<exists>g\<in>set (sd_grants (og_staff db')). pm_project g = p \<and> pm_user g = u \<and> pm_active g \<and>
       (level \<noteq> None \<longrightarrow> pm_level g = map_option level_slug level))"
proof -
  let ?current = "listUserTeamIds db u (project_teams db p)"
  from assms obtain target where target: "target = (if level = Some Admin then ?current else case teamIds of None \<Rightarrow> ?current | Some ts \<Rightarrow> dedupe_by (\<lambda>x. x) {} ts)"
    and inside: "\<And>ts. teamIds = Some ts \<Longrightarrow> set ts \<subseteq> set (project_teams db p)"
    and editor: "level = Some Editor \<Longrightarrow> project_teams db p \<noteq> [] \<Longrightarrow> target \<noteq> []"
    and seats: "sd_seats (og_staff db') = sd_seats (og_staff (applyTeamMembershipDiff ws u (filter (\<lambda>t. t \<notin> set ?current) target) (filter (\<lambda>t. t \<notin> set target) ?current) db))"
    and tasks: "og_tasks db' = og_tasks (applyTeamMembershipDiff ws u (filter (\<lambda>t. t \<notin> set ?current) target) (filter (\<lambda>t. t \<notin> set target) ?current) db)"
    and teams: "project_teams db' p = project_teams db p"
    and worked_teams: "\<And>k. worked_team db' k = worked_team (applyTeamMembershipDiff ws u (filter (\<lambda>t. t \<notin> set ?current) target) (filter (\<lambda>t. t \<notin> set target) ?current) db) k"
    and grant: "\<exists>g\<in>set (sd_grants (og_staff db')). pm_project g = p \<and> pm_user g = u \<and> pm_active g \<and> (level \<noteq> None \<longrightarrow> pm_level g = map_option level_slug level)"
    by (rule access_written) blast
  let ?d = "applyTeamMembershipDiff ws u (filter (\<lambda>t. t \<notin> set ?current) target) (filter (\<lambda>t. t \<notin> set target) ?current) db"
  from target inside have sub: "set target \<subseteq> set (project_teams db p)" by (auto simp: set_listUserTeamIds set_dedupe split: option.splits if_splits)
  have member: "findTeamMember db' t v \<longleftrightarrow> (if v = u \<and> t \<in> set (project_teams db p) then t \<in> set target else findTeamMember db t v)" for t v
    using diff_frame(1) [of ws u "filter (\<lambda>t. t \<notin> set ?current) target" "filter (\<lambda>t. t \<notin> set target) ?current" db t v] sub
    by (auto simp: seated_find seats set_listUserTeamIds)
  have idle: "idle_in db' t u" if left: "findTeamMember db t u" "\<not> findTeamMember db' t u" for t
  proof -
    from left member [of t u] have "t \<in> set (filter (\<lambda>t. t \<notin> set target) ?current)" by (auto simp: set_listUserTeamIds split: if_splits)
    from diff_frame(4) [OF left(1) this] show ?thesis by (simp add: idle_in_def tasks worked_teams)
  qed
  have "\<exists>t\<in>set (project_teams db' p). findTeamMember db' t u" if e: "level = Some Editor" "project_teams db' p \<noteq> []"
    using editor e sub member unfolding teams by (metis hd_in_set subsetD)
  moreover have "findTeamMember db' t v = findTeamMember db t v" if "level = Some Admin" for t v
    using member [of t v] target that by (simp add: set_listUserTeamIds)
  moreover have "findTeamMember db' t u \<longleftrightarrow> t \<in> set ts" if "level \<noteq> Some Admin" "teamIds = Some ts" "t \<in> set (project_teams db' p)" for t ts
    using member [of t u] target that by (simp add: teams set_dedupe)
  ultimately show ?thesis using member idle grant by (auto simp: teams)
qed

section \<open>Sound tables\<close>

lemma update_tx_plans: "update_tx i ws q k ps us db = Inr db' \<Longrightarrow> og_plans db' = og_plans db \<and> og_planTeams db' = og_planTeams db"
  unfolding update_tx_def by (cases ps; cases us; simp add: Let_def split: if_split_asm; clarsimp)

lemma org_plans_exec: "org_exec c db = Inr db' \<Longrightarrow> og_plans db' = og_plans db \<and> og_planTeams db' = og_planTeams db"
proof (cases c)
  case (Set_access env ws p u level ts)
  have "og_plans (drops u xs d) = og_plans d \<and> og_planTeams (drops u xs d) = og_planTeams d" for xs d
    by (induction xs arbitrary: d) (simp_all add: dropMemberRow_def)
  moreover have "og_plans (fold (\<lambda>t. with_seats (enter_team ws u t)) xs d) = og_plans d \<and>
      og_planTeams (fold (\<lambda>t. with_seats (enter_team ws u t)) xs d) = og_planTeams d" for xs d
    by (induction xs arbitrary: d) simp_all
  moreover assume "org_exec c db = Inr db'"
  ultimately show ?thesis using Set_access
    by (auto simp: setProjectAccess_teams_def Let_def bind_sum_Inr applyTeamMembershipDiff_def split: if_splits prod.splits)
qed (auto simp: createTeam_def updateTeam_def deleteTeam_def addTeamMember_def removeTeamMember_def dropMemberRow_def linkTeam_def
    unlinkTeam_def updateProjectMember_def removeProjectMember_def insert_team_def bind_sum_Inr Let_def split: if_splits option.splits prod.splits dest: update_tx_plans)

lemma org_plans_run: "og_plans (org_run cs db) = og_plans db \<and> og_planTeams (org_run cs db) = og_planTeams db"
  unfolding org_run_def by (induction cs arbitrary: db) (auto split: sum.splits dest: org_plans_exec)

text \<open>C27: However many requests create, change, archive and delete teams, move members in and out and link and unlink
  Projects: team keys stay unique in a workspace, no user has two rows in a team and no team two links to a Project,
  and every team of a capacity plan still exists and is actively linked to the Project of its plan.\<close>

theorem team_tables_sound:
  assumes "org_inv db"
  shows "distinct (map (\<lambda>t. (te_workspace t, te_key t)) (og_teams (org_run cs db))) \<and>
    distinct (map (\<lambda>m. (tm_team m, tm_user m)) (sd_seats (og_staff (org_run cs db)))) \<and>
    distinct (map (\<lambda>l. (pt_project l, pt_team l)) (sd_links (og_staff (org_run cs db)))) \<and>
    (\<forall>c\<in>set (og_planTeams db). \<exists>p\<in>set (og_plans db). \<exists>t\<in>set (og_teams (org_run cs db)).
       cp_id p = ct_plan c \<and> te_id t = ct_team c \<and> te_workspace t = cp_workspace p \<and> findLink (org_run cs db) (cp_project p) (ct_team c))"
proof -
  have inv: "org_inv (org_run cs db)" by (rule org_inv_run) (rule assms)
  then have keys: "distinct (map (\<lambda>t. (te_workspace t, te_key t)) (og_teams (org_run cs db)))"
    "distinct (map (\<lambda>m. (tm_team m, tm_user m)) (sd_seats (og_staff (org_run cs db))))"
    "distinct (map (\<lambda>l. (pt_project l, pt_team l)) (sd_links (og_staff (org_run cs db))))"
    by (simp_all add: org_inv_def seat_key_def [abs_def] link_key_def [abs_def])
  have "plan_teams_linked (og_teams (org_run cs db)) (sd_links (og_staff (org_run cs db))) (og_plans db) (og_planTeams db)"
    using inv org_plans_run [of cs db] by (simp add: org_inv_def)
  then have "\<exists>p\<in>set (og_plans db). \<exists>t\<in>set (og_teams (org_run cs db)). cp_id p = ct_plan c \<and> te_id t = ct_team c \<and>
      te_workspace t = cp_workspace p \<and> findLink (org_run cs db) (cp_project p) (ct_team c)" if "c \<in> set (og_planTeams db)" for c
    using that unfolding plan_teams_linked_def by (fastforce simp: linked_def findLink_def team_ref_def)
  with keys show ?thesis by blast
qed

section \<open>Requests that break a rule\<close>

text \<open>A Project that unlinks a team cannot link it again: the insert meets the row the unlinking left behind.\<close>

lemma relink_refused:
  assumes "unlinkTeam ws p t db = Inr db'" and "\<exists>x\<in>set (og_teams db). te_id x = t \<and> te_workspace x = ws \<and> te_active x"
  shows "linkTeam ws p t db' = Inl (Uncaught ''23505'')"
proof -
  let ?f = "update_where (\<lambda>l. pt_project l = p \<and> pt_team l = t \<and> pt_active l) (\<lambda>l. l\<lparr>pt_active := False\<rparr>)"
  from assms(1) have db': "db' = with_links ?f db" and open': "writable db ws p = Inr ()" and link: "findLink db p t"
    by (auto simp: unlinkTeam_def bind_sum_Inr split: if_splits)
  have "writable db' ws p = writable db ws p" by (simp add: db' writable_def live_project_def with_links_def)
  then have open'': "writable db' ws p = Inr ()" unfolding open' .
  have teams: "og_teams db' = og_teams db" by (simp add: db')
  have gone: "\<not> findLink db' p t" unfolding findLink_def linked_def [symmetric] db' with_links_fields linked_update by auto
  have "map link_key (sd_links (og_staff db')) = map link_key (sd_links (og_staff db))" by (simp add: db' map_update_where link_key_def)
  moreover have "(p, t) \<in> set (map link_key (sd_links (og_staff db)))" using link by (force simp: findLink_def link_key_def)
  ultimately have "(p, t) \<in> set (map link_key (sd_links (og_staff db')))" by (simp only:)
  then have row: "\<exists>l\<in>set (sd_links (og_staff db')). pt_project l = p \<and> pt_team l = t" by (auto simp: link_key_def)
  show ?thesis unfolding linkTeam_def open'' teams using gone row assms(2) by (simp only: bind_sum_def sum.case if_False if_True not_True_eq_False not_False_eq_True)
qed

section \<open>A concrete workspace\<close>

text \<open>Bob edits Project \<open>p\<close> through two teams and owns a task in each; the first is on a capacity plan.\<close>

definition ex_team_task :: "uuid \<Rightarrow> uuid \<Rightarrow> task_row" where
  "ex_team_task i t =
     \<lparr>tk_id = i, tk_workspace = ''w'', tk_project = ''p'', tk_parent = ''S'', tk_key = i, tk_title = ''Do'', tk_state = T_in_progress,
      tk_assignee = Some ''bob'', tk_devOwner = None, tk_team = Some t, tk_iteration = None, tk_estimate = None, tk_todo = None,
      tk_actual = None, tk_rank = ''i'', tk_start = None, tk_end = None, tk_version = 0, tk_deleted = False\<rparr>"

definition ex_org :: org_db where
  "ex_org =
     \<lparr>og_staff =
        \<lparr>sd_workspaces = [\<lparr>ws_id = ''w'', ws_slug = ''qnsc'', ws_archived = False, ws_deleted = False\<rparr>],
         sd_members = [\<lparr>wsm_id = ''m2'', wsm_workspace = ''w'', wsm_user = ''bob'', wsm_role = None, wsm_status = Member_active\<rparr>],
         sd_invitations = [], sd_invitation_access = [], sd_roles = [], sd_assignments = [],
         sd_projects = [\<lparr>pj_id = ''p'', pj_workspace = ''w'', pj_deleted = False\<rparr>],
         sd_grants = [\<lparr>pm_id = ''g1'', pm_workspace = ''w'', pm_project = ''p'', pm_user = ''bob'', pm_level = Some ''editor'', pm_active = True\<rparr>],
         sd_links = [\<lparr>pt_project = ''p'', pt_team = ''t1'', pt_active = True\<rparr>, \<lparr>pt_project = ''p'', pt_team = ''t2'', pt_active = True\<rparr>],
         sd_seats = [\<lparr>tm_workspace = ''w'', tm_team = ''t1'', tm_user = ''bob'', tm_active = True\<rparr>,
                     \<lparr>tm_workspace = ''w'', tm_team = ''t2'', tm_user = ''bob'', tm_active = True\<rparr>],
         sd_people = [], sd_tokens = [], sd_mails = [], sd_jobs = []\<rparr>,
      og_teams = [\<lparr>te_id = ''t1'', te_workspace = ''w'', te_active = True, te_key = ''A'', te_name = ''Alpha'', te_lead = None\<rparr>,
                  \<lparr>te_id = ''t2'', te_workspace = ''w'', te_active = True, te_key = ''B'', te_name = ''Beta'', te_lead = None\<rparr>],
      og_archived = [], og_tasks = [ex_team_task ''K1'' ''t1'', ex_team_task ''K2'' ''t2''], og_items = [], og_iterations = [], og_features = [],
      og_plans = [\<lparr>cp_id = ''c'', cp_workspace = ''w'', cp_project = ''p'', cp_release = ''r'', cp_key = ''CP1'', cp_name = ''Q1'',
                   cp_status = Draft, cp_unit = In_points, cp_start = None, cp_end = None, cp_publishedAt = None, cp_publishedBy = None\<rparr>],
      og_planTeams = [\<lparr>ct_plan = ''c'', ct_team = ''t1'', ct_capacity = None\<rparr>], og_allocations = [], og_memberCapacity = [], og_snapshots = []\<rparr>"

definition ex_no_patch :: team_patch where
  "ex_no_patch = \<lparr>tp_key = None, tp_name = None, tp_lead = None, tp_active = None, tp_projects = None, tp_members = None\<rparr>"

definition ex_org_env :: staff_env where
  "ex_org_env = \<lparr>se_now = 1, se_ttl = 7, se_internal = None, se_guests = False, se_secret = ''s'', se_id = ''i'',
      se_role_id = ''ri'', se_grant_id = (\<lambda>p. ''gi'' @ p), se_cache = True, se_tokens = True\<rparr>"

text \<open>Every way to take the first team from the Project, and a new team under its key.\<close>

definition ex_org_calls :: "org_call list" where
  "ex_org_calls = [Unlink_team ''w'' ''p'' ''t1'', Update_team ''t1'' ''w'' (ex_no_patch\<lparr>tp_projects := Some []\<rparr>),
     Update_team ''t1'' ''w'' (ex_no_patch\<lparr>tp_active := Some False\<rparr>), Delete_team ''t1'' ''w'',
     Create_team ''t3'' ''w'' \<lparr>tq_name = ''Again'', tq_key = ''a'', tq_lead = None, tq_active = None, tq_projects = None, tq_members = None\<rparr>,
     Unlink_team ''w'' ''p'' ''t2'', Remove_member ''t2'' ''bob'' ''w'']"

lemma ex_org_inv: "org_inv ex_org"
  by (simp add: org_inv_def plan_teams_linked_def linked_def team_ref_def seat_key_def link_key_def ex_org_def)

theorem team_tables_sound_witness:
  "findLink (org_run ex_org_calls ex_org) ''p'' ''t1'' \<and> \<not> findLink (org_run ex_org_calls ex_org) ''p'' ''t2'' \<and>
   distinct (map (\<lambda>t. (te_workspace t, te_key t)) (og_teams (org_run ex_org_calls ex_org)))"
proof -
  have "\<not> findLink (org_run ex_org_calls ex_org) ''p'' ''t2''" by code_simp
  moreover have "og_planTeams ex_org = [\<lparr>ct_plan = ''c'', ct_team = ''t1'', ct_capacity = None\<rparr>]" "map cp_project (og_plans ex_org) = [''p'']"
    by (simp_all add: ex_org_def)
  moreover note team_tables_sound [OF ex_org_inv, of ex_org_calls]
  ultimately show ?thesis by (auto simp: map_eq_Cons_conv)
qed

theorem removed_member_out_witness:
  "set (listScopedTeamIds (access_view (og_staff (projr (removeTeamMember ''t1'' ''bob'' ''w'' ex_org)))) ''w'' ''bob'' ''p'') = {''t2''} \<and>
   assertTeamInScope (access_view (og_staff (projr (removeTeamMember ''t1'' ''bob'' ''w'' ex_org))))
     (assignments_from_db (access_view (og_staff (projr (removeTeamMember ''t1'' ''bob'' ''w'' ex_org)))) ''w'' ''bob'') ''w'' ''bob'' ''p'' (Some ''t1'') \<noteq> Inr ()"
proof -
  have "\<not> isl (removeTeamMember ''t1'' ''bob'' ''w'' ex_org)" by code_simp
  then have run: "removeTeamMember ''t1'' ''bob'' ''w'' ex_org = Inr (projr (removeTeamMember ''t1'' ''bob'' ''w'' ex_org))" by simp
  have "listScopedTeamIds (access_view (og_staff ex_org)) ''w'' ''bob'' ''p'' = [''t1'', ''t2'']"
    "\<not> isWorkspaceAdmin (access_view (og_staff ex_org)) ''w'' ''bob''" "user_level ex_org ''w'' ''bob'' ''p'' = Some Editor" by code_simp+
  with removed_member_out [OF run] show ?thesis by auto
qed

theorem editor_keeps_team_witness:
  "findTeamMember (projr (setProjectAccess_teams ex_org_env ''w'' ''p'' ''bob'' (Some Editor) (Some [''t2'']) ex_org)) ''t2'' ''bob'' \<and>
   \<not> findTeamMember (projr (setProjectAccess_teams ex_org_env ''w'' ''p'' ''bob'' (Some Editor) (Some [''t2'']) ex_org)) ''t1'' ''bob'' \<and>
   idle_in (projr (setProjectAccess_teams ex_org_env ''w'' ''p'' ''bob'' (Some Editor) (Some [''t2'']) ex_org)) ''t1'' ''bob''"
proof -
  let ?run = "setProjectAccess_teams ex_org_env ''w'' ''p'' ''bob'' (Some Editor) (Some [''t2'']) ex_org"
  have "\<not> isl ?run" by code_simp
  then have run: "?run = Inr (projr ?run)" by simp
  have "project_teams (projr ?run) ''p'' = [''t1'', ''t2'']" "findTeamMember ex_org ''t1'' ''bob''" by code_simp+
  with editor_keeps_team [OF run] show ?thesis by simp
qed

text \<open>A request without a level takes an Editor's last team.\<close>

lemma levelless_access_empties:
  "case setProjectAccess_teams ex_org_env ''w'' ''p'' ''bob'' None (Some []) ex_org of
     Inl _ \<Rightarrow> False
   | Inr db' \<Rightarrow> user_level db' ''w'' ''bob'' ''p'' = Some Editor \<and> project_teams db' ''p'' \<noteq> [] \<and>
       filter (\<lambda>t. findTeamMember db' t ''bob'') (project_teams db' ''p'') = []"
  by code_simp

text \<open>A new lead joins the roster without being a member of the workspace.\<close>

lemma lead_unchecked:
  "case updateTeam ''t2'' ''w'' (ex_no_patch\<lparr>tp_lead := Some (Some ''zoe'')\<rparr>) ex_org of
     Inl _ \<Rightarrow> False | Inr db' \<Rightarrow> findTeamMember db' ''t2'' ''zoe'' \<and> \<not> active_member (access_view (og_staff db')) ''w'' ''zoe''"
  by code_simp

text \<open>A roster that is replaced leaves the tasks of the dropped members assigned.\<close>

lemma replaced_roster_keeps_tasks:
  "case updateTeam ''t1'' ''w'' (ex_no_patch\<lparr>tp_members := Some []\<rparr>) ex_org of
     Inl _ \<Rightarrow> False | Inr db' \<Rightarrow> \<not> findTeamMember db' ''t1'' ''bob'' \<and> \<not> idle_in db' ''t1'' ''bob''"
  by code_simp

end
