(* ===== verification/RelayPasses.thy ===== *)
theory RelayPasses
  imports OutboxProtocol
begin

text \<open>
  Two more views of \<^verbatim>\<open>AbstractOutboxRelay\<close>: what one claim takes and for how long, and how calls
  of \<^verbatim>\<open>relay()\<close> share passes. The latter is modelled at the level of the promises: each pass, and
  each \<^verbatim>\<open>inFlight.then(() => runOnce())\<close>, is an entry of a list with its state.
\<close>

section \<open>What a claim takes\<close>

abbreviation due_key :: "outbox_row \<Rightarrow> ms \<times> nat \<times> uuid" where
  "due_key r \<equiv> (scheduledAt r, ob_seq r, ob_id r)"

lemma take_sort_key_least:
  fixes k :: "'a \<Rightarrow> 'b::linorder"
  assumes "x \<in> set (take n (sort_key k xs))" "y \<in> set xs" "y \<notin> set (take n (sort_key k xs))"
  shows "k x \<le> k y \<and> length (take n (sort_key k xs)) = n"
proof -
  let ?s = "sort_key k xs"
  have "set ?s = set (take n ?s) \<union> set (drop n ?s)"
    by (metis append_take_drop_id set_append)
  with assms(2,3) have y: "y \<in> set (drop n ?s)" by simp
  have "sorted (map k (take n ?s @ drop n ?s))" by simp
  then have "\<forall>a \<in> set (take n ?s). \<forall>b \<in> set (drop n ?s). k a \<le> k b"
    unfolding map_append sorted_append by auto
  moreover have "n \<le> length ?s" using y by (cases "n \<le> length ?s") auto
  ultimately show ?thesis using assms(1) y by simp
qed

lemma claim_batch:
  assumes "claim cfg now stmt skip tok rows = (batch, rows')"
  shows "map c_row batch = selectDue cfg now skip (reapAbandoned cfg now rows)"
    and "c \<in> set batch \<Longrightarrow> c_expires c = stmt + sum_list (map (leaseMsFor cfg) (map c_row batch))"
  using assms by (auto simp: claim_def Let_def comp_def split: if_splits)

text \<open>A claim takes at most \<^verbatim>\<open>batchSize\<close> rows, all due, unlocked and unleased, and a due unlocked
  row is left only when the batch is full of rows before it in (due time, sequence, id) order;
  no pending row whose budget is spent and whose lease lapsed survives it.\<close>

theorem claim_takes_due:
  assumes "claim cfg now stmt skip tok rows = (batch, rows')" and "distinct (map ob_id rows)"
    and "now \<le> stmt" and "\<And>r. 0 < leaseMsFor cfg r"
  shows "length batch \<le> batchSize cfg \<and>
    (\<forall>c \<in> set batch. c_row c \<in> set rows \<and> due cfg now (c_row c) \<and> c_id c \<notin> skip) \<and>
    (\<forall>r \<in> set rows. due cfg now r \<longrightarrow> ob_id r \<notin> skip \<longrightarrow> r \<notin> c_row ` set batch \<longrightarrow>
       length batch = batchSize cfg \<and> (\<forall>c \<in> set batch. due_key (c_row c) \<le> due_key r)) \<and>
    (\<forall>r \<in> set rows'. \<not> abandoned cfg now r)"
proof -
  let ?r1 = "reapAbandoned cfg now rows"
  let ?f = "filter (\<lambda>r. due cfg now r \<and> ob_id r \<notin> skip) ?r1"
  note b = claim_batch(1) [OF assms(1)]
  have due: "r \<in> set ?r1 \<longleftrightarrow> r \<in> set rows" if "due cfg now r" for r
  proof -
    have "\<not> abandoned cfg now r" using that by (auto simp: due_def abandoned_def)
    moreover have "\<not> due cfg now (x\<lparr>status := Failed, lastError := ABANDONED_ERROR,
        leaseToken := None, lockedUntil := None\<rparr>)" for x by (simp add: due_def)
    ultimately show ?thesis using that unfolding in_reapAbandoned by metis
  qed
  have len: "length batch = length (selectDue cfg now skip ?r1)"
    using arg_cong [OF b, of length] by simp
  have img: "c_row ` set batch = set (selectDue cfg now skip ?r1)"
    using arg_cong [OF b, of set] by simp
  have "length batch \<le> batchSize cfg" using len by (simp add: selectDue_def)
  moreover have "c_row c \<in> set rows \<and> due cfg now (c_row c) \<and> c_id c \<notin> skip" if "c \<in> set batch" for c
    using img that set_selectDue [of cfg now skip ?r1] due by blast
  moreover have "length batch = batchSize cfg \<and> due_key (c_row c) \<le> due_key r"
    if "r \<in> set rows" "due cfg now r" "ob_id r \<notin> skip" "r \<notin> c_row ` set batch" "c \<in> set batch" for r c
    using take_sort_key_least [of "c_row c" "batchSize cfg" due_key ?f r] that img len due
    by (auto simp: selectDue_def)
  moreover have "batchSize cfg = 0"
    if "r \<in> set rows" "due cfg now r" "ob_id r \<notin> skip" "r \<notin> c_row ` set batch" "batch = []" for r
  proof -
    have "0 < length ?f" using length_pos_if_in_set [of r ?f] that due by simp
    then show ?thesis using len that(5) by (simp add: selectDue_def min_def split: if_splits)
  qed
  moreover have "\<not> abandoned cfg now r'" if "r' \<in> set rows'" for r'
  proof -
    have hold: "0 < sum_list (map (leaseMsFor cfg) xs)" if "xs \<noteq> []" for xs
      using that assms(4) by (induction xs rule: list_nonempty_induct) (auto intro: add_pos_pos)
    have reaped: "\<not> abandoned cfg now r1" if "r1 \<in> set ?r1" for r1
    proof -
      from that obtain r where "r1 = (if abandoned cfg now r then r\<lparr>status := Failed,
          lastError := ABANDONED_ERROR, leaseToken := None, lockedUntil := None\<rparr> else r)"
        unfolding in_reapAbandoned by blast
      then show ?thesis by (cases "abandoned cfg now r") (simp add: abandoned_def, simp)
    qed
    have "r' \<in> set ?r1 \<or> 
        selectDue cfg now skip ?r1 \<noteq> [] \<and>
        lockedUntil r' = Some (stmt + sum_list (map (leaseMsFor cfg) (selectDue cfg now skip ?r1)))"
      using assms(1) that
      by (auto simp: claim_def Let_def stampLeases_def in_update_where split: if_splits)
    then show ?thesis
    proof
      assume l: "selectDue cfg now skip ?r1 \<noteq> [] \<and>
        lockedUntil r' = Some (stmt + sum_list (map (leaseMsFor cfg) (selectDue cfg now skip ?r1)))"
      with hold [of "selectDue cfg now skip ?r1"] assms(3) show ?thesis
        by (auto simp: abandoned_def notLeased_def)
    qed (rule reaped)
  qed
  ultimately show ?thesis by (cases batch) auto
qed

theorem claim_takes_due_witness:
  "fst (claim base_relay 5 5 {} 1 [ex_row 0 None None, ex_row 5 None (Some 4)\<lparr>ob_id := ''b''\<rparr>]) \<noteq> [] \<and>
   filter (abandoned base_relay 5)
     (snd (claim base_relay 5 5 {} 1 [ex_row 0 None None, ex_row 5 None (Some 4)\<lparr>ob_id := ''b''\<rparr>])) = []"
proof -
  let ?rows = "[ex_row 0 None None, ex_row 5 None (Some 4)\<lparr>ob_id := ''b''\<rparr>]"
  obtain batch rows' where c: "claim base_relay 5 5 {} 1 ?rows = (batch, rows')" by fastforce
  have "\<forall>r \<in> set rows'. \<not> abandoned base_relay 5 r"
    using claim_takes_due [OF c] by (simp add: base_relay_def DEFAULT_LEASE_MS_def)
  moreover have "batch \<noteq> []" using c by (auto simp: relay_defs)
  ultimately show ?thesis using c by (simp add: filter_empty_conv)
qed

text \<open>the rows of a batch are worked one after another, and the hold stamped on all of them covers
  the waiting: when every earlier row took no longer than its own lease, the lease of row \<open>k\<close> has
  at least the row's own lease left when its turn comes.\<close>

theorem hold_covers_queue:
  assumes "claim cfg now stmt skip tok rows = (batch, rows')" and "k < length batch"
    and "\<And>r. 0 \<le> leaseMsFor cfg r" and "length took = k"
    and "\<And>j. j < k \<Longrightarrow> took ! j \<le> leaseMsFor cfg (c_row (batch ! j))"
  shows "stmt + sum_list took + leaseMsFor cfg (c_row (batch ! k)) \<le> c_expires (batch ! k)"
proof -
  let ?l = "\<lambda>c. leaseMsFor cfg (c_row c)"
  have "sum_list took \<le> sum_list (map ?l (take k batch))"
    using assms(2,4,5) by (intro sum_list_mono2) simp_all
  moreover have "sum_list (map ?l batch) =
      sum_list (map ?l (take k batch)) + ?l (batch ! k) + sum_list (map ?l (drop (Suc k) batch))"
    using arg_cong [OF id_take_nth_drop [OF assms(2)], of "\<lambda>xs. sum_list (map ?l xs)"] by simp
  moreover have "0 \<le> sum_list (map ?l (drop (Suc k) batch))"
    using assms(3) by (intro sum_list_nonneg) auto
  ultimately show ?thesis
    using claim_batch(2) [OF assms(1), of "batch ! k"] assms(2) by (simp add: comp_def)
qed

theorem hold_covers_queue_witness:
  "7 + 100000 + 120000 \<le> c_expires (ex_claim (ex_row 0 None None\<lparr>ob_id := ''b''\<rparr>) 1 1 240007)"
proof -
  let ?b = "ex_row 0 None None\<lparr>ob_id := ''b''\<rparr>"
  have c: "claim base_relay 0 7 {} 1 [ex_row 0 None None, ?b] =
      ([ex_claim (ex_row 0 None None) 1 1 240007, ex_claim ?b 1 1 240007],
       [ex_row 1 (Some 1) (Some 240007), ex_row 1 (Some 1) (Some 240007)\<lparr>ob_id := ''b''\<rparr>])"
    by (simp add: relay_defs less_list_code)
  show ?thesis
    using hold_covers_queue [OF c, of 1 "[100000]"] by (simp add: base_relay_def DEFAULT_LEASE_MS_def)
qed


section \<open>Sharing of passes\<close>

text \<open>
  A promise is a running pass, or waits for another promise to be fulfilled before it runs its
  own pass, or is settled. A promise chained to a rejected one is rejected without running.
\<close>

datatype promise = Running | Waiting nat | Fulfilled | Rejected

record coalescer =
  proms :: "promise list"
  inFlight :: "nat option"
  queued :: "nat option"

definition idle :: coalescer where
  "idle = \<lparr>proms = [], inFlight = None, queued = None\<rparr>"

definition then_run :: "coalescer \<Rightarrow> nat \<Rightarrow> promise" where
  "then_run st p = (case proms st ! p of Fulfilled \<Rightarrow> Running | Rejected \<Rightarrow> Rejected | _ \<Rightarrow> Waiting p)"

text \<open>\<^verbatim>\<open>relay()\<close>: the promise the caller awaits, and the new state.\<close>

definition relay :: "coalescer \<Rightarrow> nat \<times> coalescer" where
  "relay st =
     (case inFlight st of
        Some p \<Rightarrow>
          (case queued st of
             Some q \<Rightarrow> (q, st)
           | None \<Rightarrow> (length (proms st), st\<lparr>proms := proms st @ [then_run st p], queued := Some (length (proms st))\<rparr>))
      | None \<Rightarrow> (length (proms st), st\<lparr>proms := proms st @ [Running], inFlight := Some (length (proms st))\<rparr>))"

text \<open>The end of pass \<open>p\<close>: the \<^verbatim>\<open>finally\<close> of \<^verbatim>\<open>runOncePass\<close> hands over to the queued promise, then
  the pass is fulfilled or, when it threw, rejected, and what was chained to it follows.\<close>

definition end_of_pass :: "nat \<Rightarrow> bool \<Rightarrow> coalescer \<Rightarrow> coalescer" where
  "end_of_pass p ok st =
     (if p < length (proms st) \<and> proms st ! p = Running
      then \<lparr>proms = map (\<lambda>s. if s = Waiting p then (if ok then Running else Rejected) else s)
              ((proms st)[p := (if ok then Fulfilled else Rejected)]),
            inFlight = queued st, queued = None\<rparr>
      else st)"

datatype relay_event = Call | End nat bool

fun on_event :: "coalescer \<Rightarrow> relay_event \<Rightarrow> coalescer" where
  "on_event st Call = snd (relay st)"
| "on_event st (End p ok) = end_of_pass p ok st"

definition relay_run :: "relay_event list \<Rightarrow> coalescer \<Rightarrow> coalescer" where
  "relay_run evs st = foldl on_event st evs"

text \<open>A relay in order: the pass in flight is the only one running, the queued one waits for it.\<close>

definition in_order :: "coalescer \<Rightarrow> bool" where
  "in_order st \<longleftrightarrow>
     (case inFlight st of
        None \<Rightarrow> queued st = None \<and> (\<forall>i < length (proms st). proms st ! i \<in> {Fulfilled, Rejected})
      | Some p \<Rightarrow> p < length (proms st) \<and> proms st ! p = Running \<and>
          (\<forall>i < length (proms st). i \<noteq> p \<longrightarrow> Some i \<noteq> queued st \<longrightarrow> proms st ! i \<in> {Fulfilled, Rejected}) \<and>
          (\<forall>q. queued st = Some q \<longrightarrow> q < length (proms st) \<and> proms st ! q = Waiting p))"

lemma in_order_idle: "in_order idle"
  by (simp add: in_order_def idle_def)

lemma in_order_call: "in_order st \<Longrightarrow> in_order (snd (relay st))"
  by (auto simp: in_order_def relay_def then_run_def nth_append less_Suc_eq split: option.splits)

lemma in_order_end:
  assumes "in_order st" and "ok \<or> queued st = None"
  shows "in_order (end_of_pass p ok st)"
proof (cases "p < length (proms st) \<and> proms st ! p = Running")
  case True
  then have fl: "inFlight st = Some p"
    using assms(1) by (force simp: in_order_def split: option.splits)
  show ?thesis
  proof (cases "queued st")
    case None
    with True fl assms(1) show ?thesis
      by (auto simp: in_order_def end_of_pass_def nth_list_update)
  next
    case (Some q)
    with True fl assms have "q < length (proms st)" "proms st ! q = Waiting p" "ok" "q \<noteq> p"
      by (auto simp: in_order_def)
    with True Some fl assms(1) show ?thesis
      by (auto simp: in_order_def end_of_pass_def nth_list_update)
  qed
next
  case False
  then have "end_of_pass p ok st = st" unfolding end_of_pass_def by (rule if_not_P)
  with assms(1) show ?thesis by simp
qed

fun harmless :: "relay_event \<Rightarrow> bool" where
  "harmless Call = True"
| "harmless (End p ok) = ok"

lemma in_order_run: "in_order st \<Longrightarrow> \<forall>e \<in> set evs. harmless e \<Longrightarrow> in_order (relay_run evs st)"
proof (induction evs arbitrary: st)
  case (Cons e evs)
  then have "in_order (on_event st e)"
    by (cases e) (auto intro: in_order_call in_order_end)
  with Cons show ?case by (simp add: relay_run_def)
qed (simp add: relay_run_def)

text \<open>as long as no pass throws, passes run one at a time, and a call awaits a pass that starts
  after it: the one it starts itself when the relay is idle, else the single queued one, which
  starts as soon as the running one ends.\<close>

theorem passes_shared:
  assumes "\<forall>e \<in> set evs. harmless e" and "st = relay_run evs idle" and "relay st = (r, st')"
  shows "(\<forall>i j. i < length (proms st') \<longrightarrow> j < length (proms st') \<longrightarrow>
       proms st' ! i = Running \<longrightarrow> proms st' ! j = Running \<longrightarrow> i = j) \<and>
    (case inFlight st of
       None \<Rightarrow> r = length (proms st) \<and> proms st' ! r = Running
     | Some p \<Rightarrow> proms st ! p = Running \<and> proms st' ! r = Waiting p \<and> proms (end_of_pass p True st') ! r = Running)"
proof -
  have st: "in_order st" using assms(1,2) in_order_run [OF in_order_idle] by simp
  have st': "in_order st'" using in_order_call [OF st] assms(3) by simp
  have "i = j" if ij: "i < length (proms st')" "j < length (proms st')" "proms st' ! i = Running"
    "proms st' ! j = Running" for i j
  proof (cases "inFlight st'")
    case None
    with st' ij show ?thesis by (force simp: in_order_def)
  next
    case (Some p)
    have "k = p" if "k < length (proms st')" "proms st' ! k = Running" for k
      using st' Some that by (cases "Some k = queued st'") (force simp: in_order_def)+
    with ij show ?thesis by blast
  qed
  moreover have "case inFlight st of
       None \<Rightarrow> r = length (proms st) \<and> proms st' ! r = Running
     | Some p \<Rightarrow> proms st ! p = Running \<and> proms st' ! r = Waiting p \<and> proms (end_of_pass p True st') ! r = Running"
  proof (cases "inFlight st")
    case None
    with assms(3) show ?thesis by (auto simp: relay_def)
  next
    case (Some p)
    with st assms(3) show ?thesis
      by (auto simp: in_order_def relay_def then_run_def end_of_pass_def nth_append
          nth_list_update split: option.splits)
  qed
  ultimately show ?thesis by blast
qed

theorem passes_shared_witness:
  "proms (end_of_pass 0 True (snd (relay (relay_run [Call] idle)))) ! 1 = Running"
proof -
  obtain st where st: "st = relay_run [Call] idle" by blast
  have "relay st = (1, \<lparr>proms = [Running, Waiting 0], inFlight = Some 0, queued = Some 1\<rparr>)" "inFlight st = Some 0"
    unfolding st by code_simp+
  from passes_shared [of "[Call]", OF _ st this(1)] this show ?thesis
    unfolding st by simp
qed

text \<open>A wedged relay: what is in flight is already rejected, so its \<^verbatim>\<open>finally\<close> never comes.\<close>

definition wedged :: "coalescer \<Rightarrow> bool" where
  "wedged st \<longleftrightarrow> (\<exists>p. inFlight st = Some p \<and> p < length (proms st) \<and> proms st ! p = Rejected) \<and>
     (\<forall>i < length (proms st). proms st ! i \<in> {Fulfilled, Rejected}) \<and>
     (\<forall>q. queued st = Some q \<longrightarrow> q < length (proms st) \<and> proms st ! q = Rejected)"

lemma wedged_event: "wedged st \<Longrightarrow> wedged (on_event st e)"
  by (cases e)
    (auto simp: wedged_def relay_def then_run_def end_of_pass_def nth_append less_Suc_eq split: option.splits)

lemma wedged_run: "wedged st \<Longrightarrow> wedged (relay_run evs st)"
  by (induction evs arbitrary: st) (simp_all add: relay_run_def wedged_event)

lemma wedged_rejects: "wedged st \<Longrightarrow> Running \<notin> set (proms st) \<and> proms (snd (relay st)) ! fst (relay st) = Rejected"
  by (force simp: wedged_def relay_def then_run_def nth_append in_set_conv_nth split: option.splits)

text \<open>A pass that throws while a call is queued wedges a relay that was in order; nothing else takes it out
  of order.\<close>

lemma throwing_end_wedges:
  assumes "in_order st" "inFlight st = Some k" "queued st = Some q"
  shows "wedged (end_of_pass k False st)"
proof -
  have k: "k < length (proms st)" "proms st ! k = Running" and q: "q < length (proms st)" "proms st ! q = Waiting k"
    and rest: "\<And>i. i < length (proms st) \<Longrightarrow> i \<noteq> k \<Longrightarrow> i \<noteq> q \<Longrightarrow> proms st ! i \<in> {Fulfilled, Rejected}"
    using assms by (auto simp: in_order_def)
  have nth: "proms (end_of_pass k False st) ! i =
      (if i = k then Rejected else if proms st ! i = Waiting k then Rejected else proms st ! i)" if "i < length (proms st)" for i
    using that k by (auto simp: end_of_pass_def nth_list_update)
  have "proms (end_of_pass k False st) ! i \<in> {Fulfilled, Rejected}" if "i < length (proms st)" for i
    using nth [OF that] rest [OF that] q(2) by (cases "i = q") auto
  moreover have "inFlight (end_of_pass k False st) = Some q" "queued (end_of_pass k False st) = None"
    "length (proms (end_of_pass k False st)) = length (proms st)" "proms (end_of_pass k False st) ! q = Rejected"
    using k q assms(3) nth [OF q(1)] by (auto simp: end_of_pass_def)
  ultimately show ?thesis using q(1) by (simp add: wedged_def)
qed

lemma in_order_or_wedged: "in_order st \<or> wedged st \<Longrightarrow> in_order (on_event st e) \<or> wedged (on_event st e)"
proof (cases "wedged st")
  case False
  assume "in_order st \<or> wedged st"
  with False have st: "in_order st" by simp
  show ?thesis
  proof (cases e)
    case (End p ok)
    show ?thesis
    proof (cases "ok \<or> queued st = None")
      case True
      with in_order_end [OF st] End show ?thesis by simp
    next
      case bad: False
      then obtain q where q: "queued st = Some q" by blast
      with st obtain k where k: "inFlight st = Some k" by (auto simp: in_order_def split: option.splits)
      show ?thesis
      proof (cases "p = k")
        case True
        with throwing_end_wedges [OF st k q] End bad show ?thesis by simp
      next
        case False
        have "\<not> (p < length (proms st) \<and> proms st ! p = Running)"
          using st k q False by (cases "p = q") (auto simp: in_order_def)
        then have "end_of_pass p ok st = st" unfolding end_of_pass_def by (rule if_not_P)
        with st End show ?thesis by simp
      qed
    qed
  qed (use in_order_call [OF st] in simp)
qed (use wedged_event in blast)

lemma in_order_or_wedged_run: "in_order st \<or> wedged st \<Longrightarrow> in_order (relay_run evs st) \<or> wedged (relay_run evs st)"
proof (induction evs arbitrary: st)
  case (Cons e evs)
  from Cons.IH [OF in_order_or_wedged [OF Cons.prems]] show ?case by (simp add: relay_run_def)
qed (simp add: relay_run_def)

text \<open>C39: after any calls and ends of passes, when the pass in flight throws while another call is queued, the
  relay stops for good: whatever happens later, no pass is running, and every later call gets a promise
  that is rejected at once.\<close>

theorem failed_pass_wedges_relay:
  assumes "inFlight (relay_run before idle) = Some k" and "queued (relay_run before idle) \<noteq> None"
    and st: "st = relay_run (before @ End k False # later) idle"
  shows "Running \<notin> set (proms st) \<and> proms (snd (relay st)) ! fst (relay st) = Rejected"
proof -
  let ?st = "relay_run before idle"
  have "in_order ?st \<or> wedged ?st" using in_order_or_wedged_run [of idle before] in_order_idle by blast
  then have "wedged (end_of_pass k False ?st)"
  proof (elim disjE)
    assume "in_order ?st"
    with throwing_end_wedges assms(1,2) show ?thesis by blast
  next
    assume "wedged ?st"
    from wedged_event [OF this, of "End k False"] show ?thesis by simp
  qed
  from wedged_run [OF this, of later] have "wedged st" by (simp add: st relay_run_def)
  then show ?thesis by (rule wedged_rejects)
qed

text \<open>The second pass throws while a third call waits; later ends and calls change nothing.\<close>

theorem failed_pass_wedges_relay_witness:
  "Running \<notin> set (proms (relay_run ([Call, Call, End 0 True, Call] @ End 1 False # [Call, End 2 True, Call]) idle)) \<and>
   proms (relay_run [Call, Call, End 0 True, Call] idle) ! 1 = Running"
proof -
  have "inFlight (relay_run [Call, Call, End 0 True, Call] idle) = Some 1" "queued (relay_run [Call, Call, End 0 True, Call] idle) \<noteq> None"
    "proms (relay_run [Call, Call, End 0 True, Call] idle) ! 1 = Running" by code_simp+
  with failed_pass_wedges_relay [OF this(1,2) refl, of "[Call, End 2 True, Call]"] show ?thesis by blast
qed

end
