(* ===== verification/RankMoves.thy ===== *)
theory RankMoves
  imports LexoRank
begin

text \<open>
  The three services that move one row between two neighbours by a single rank update:
  \<^verbatim>\<open>rankItem\<close> (portfolio items), \<^verbatim>\<open>rankWorkItem\<close> (work items) and \<^verbatim>\<open>reorder\<close> (test cases). The
  rows of the workspace are a list; what the repository returns for a set of ids is the
  sublist with those ids, and an update replaces the rank of the row with the id. The locale
  \<open>rank_space\<close> is what they need of a placement function, and its lemma that a move puts the
  row where it was asked is used for all three through the interpretation on \<open>between\<close>.
\<close>

record 's ranked_row =
  row_id :: uuid
  row_scope :: 's
  row_rank :: string

record move_opts =
  beforeId :: "uuid option"
  afterId :: "uuid option"

text \<open>A neighbour id that is absent, null or empty counts as none (\<^verbatim>\<open>!nid\<close>).\<close>

definition absent :: "uuid option \<Rightarrow> bool" where
  "absent nid \<longleftrightarrow> nid = None \<or> nid = Some []"

definition neighbour_ids :: "move_opts \<Rightarrow> uuid list" where
  "neighbour_ids opts = concat (map (\<lambda>n. case n of None \<Rightarrow> [] | Some s \<Rightarrow> [s]) [beforeId opts, afterId opts])"

definition find_by_ids :: "uuid list \<Rightarrow> ('s, 'm) ranked_row_scheme list \<Rightarrow> ('s, 'm) ranked_row_scheme list" where
  "find_by_ids ids rows = filter (\<lambda>r. row_id r \<in> set ids) rows"

definition find_row :: "uuid \<Rightarrow> ('s, 'm) ranked_row_scheme list \<Rightarrow> ('s, 'm) ranked_row_scheme option" where
  "find_row i rows = find (\<lambda>r. row_id r = i) rows"

definition rank_of ::
  "'e \<Rightarrow> 's \<Rightarrow> ('s, 'm) ranked_row_scheme list \<Rightarrow> uuid option \<Rightarrow> 'e + string option" where
  "rank_of err scope neighbours nid =
     (if absent nid then Inr None
      else case map_of (rev (map (\<lambda>n. (row_id n, n)) neighbours)) (the nid) of
             None \<Rightarrow> Inl err
           | Some n \<Rightarrow> if row_scope n \<noteq> scope then Inl err else Inr (Some (row_rank n)))"

definition update_rank ::
  "uuid \<Rightarrow> string \<Rightarrow> ('s, 'm) ranked_row_scheme list \<Rightarrow> ('s, 'm) ranked_row_scheme list" where
  "update_rank i r rows = map (\<lambda>x. if row_id x = i then x\<lparr>row_rank := r\<rparr> else x) rows"

text \<open>\<^verbatim>\<open>try { between(..) } catch\<close>: any throw becomes the given conflict.\<close>

definition caught :: "'e \<Rightarrow> 'd + 'a \<Rightarrow> 'e + 'a" where
  "caught err m = (case m of Inl _ \<Rightarrow> Inl err | Inr x \<Rightarrow> Inr x)"

lemma caught_Inr [simp]: "caught e (Inr x) = Inr x"
  by (simp add: caught_def)

section \<open>Portfolio items\<close>

datatype portfolio_type = Epic | Feature

record portfolio_row = "portfolio_type ranked_row" +
  item_project :: uuid
  archived :: bool

abbreviation RANK_CONFLICT :: api_error where
  "RANK_CONFLICT \<equiv> PreconditionFailed ''PORTFOLIO_ITEM_RANK_CONFLICT''"

definition rankItem ::
  "(uuid \<Rightarrow> api_error + unit) \<Rightarrow> (uuid \<Rightarrow> api_error + unit) \<Rightarrow> portfolio_row list \<Rightarrow> uuid \<Rightarrow> move_opts
    \<Rightarrow> api_error + portfolio_row list" where
  "rankItem permitted writable rows i opts =
     (case find_row i rows of
        None \<Rightarrow> Inl (NotFound ''PORTFOLIO_ITEM_NOT_FOUND'')
      | Some item \<Rightarrow>
          bind_sum (permitted (item_project item)) (\<lambda>_.
          bind_sum (writable (item_project item)) (\<lambda>_.
          if archived item then Inl (PreconditionFailed ''PORTFOLIO_ITEM_ARCHIVED'')
          else if absent (beforeId opts) \<and> absent (afterId opts) then Inl RANK_CONFLICT
          else if i \<in> set (neighbour_ids opts) then Inl RANK_CONFLICT
          else
            let neighbours = find_by_ids (neighbour_ids opts) rows in
            bind_sum (rank_of RANK_CONFLICT (row_scope item) neighbours (beforeId opts)) (\<lambda>lowRank.
            bind_sum (rank_of RANK_CONFLICT (row_scope item) neighbours (afterId opts)) (\<lambda>highRank.
            bind_sum (caught RANK_CONFLICT (between lowRank highRank)) (\<lambda>rank.
            Inr (update_rank i rank rows)))))))"

section \<open>Work items\<close>

type_synonym work_row = "uuid ranked_row"

abbreviation SCOPE_MISMATCH :: api_error where
  "SCOPE_MISMATCH \<equiv> PreconditionFailed ''WORK_ITEM_PARENT_SCOPE_MISMATCH''"

definition rankWorkItem ::
  "(work_row \<Rightarrow> api_error + unit) \<Rightarrow> (uuid \<Rightarrow> api_error + unit) \<Rightarrow> work_row list \<Rightarrow> uuid \<Rightarrow> uuid \<Rightarrow> move_opts
    \<Rightarrow> api_error + work_row list" where
  "rankWorkItem inTeamScope writable rows i projectId opts =
     (case find_row i rows of
        None \<Rightarrow> Inl (NotFound ''WORK_ITEM_NOT_FOUND'')
      | Some item \<Rightarrow>
          bind_sum (inTeamScope item) (\<lambda>_.
          if row_scope item \<noteq> projectId then Inl SCOPE_MISMATCH
          else
            bind_sum (writable (row_scope item)) (\<lambda>_.
            let neighbours = find_by_ids (neighbour_ids opts) rows in
            bind_sum (rank_of SCOPE_MISMATCH projectId neighbours (beforeId opts)) (\<lambda>lowRank.
            bind_sum (rank_of SCOPE_MISMATCH projectId neighbours (afterId opts)) (\<lambda>highRank.
            bind_sum (caught (PreconditionFailed ''WORK_ITEM_RANK_CONFLICT'') (between lowRank highRank)) (\<lambda>newRank.
            Inr (update_rank i newRank rows)))))))"

section \<open>Test cases\<close>

text \<open>A test case belongs to a work item or to none (\<^verbatim>\<open>workItemId: string | null\<close>). Unlike the
  other two, this one lets the throw of \<open>between\<close> escape.\<close>

type_synonym test_case_row = "uuid option ranked_row"

definition reorder ::
  "(uuid \<Rightarrow> api_error + unit) \<Rightarrow> test_case_row list \<Rightarrow> uuid \<Rightarrow> uuid \<Rightarrow> move_opts
    \<Rightarrow> api_error + test_case_row list" where
  "reorder readable rows i workItemId opts =
     (case find_row i rows of
        None \<Rightarrow> Inl (NotFound ''TEST_CASE_NOT_FOUND'')
      | Some existing \<Rightarrow>
          if row_scope existing \<noteq> Some workItemId then Inl SCOPE_MISMATCH
          else
            bind_sum (case row_scope existing of
                        None \<Rightarrow> Inr ()
                      | Some w \<Rightarrow> if w = [] then Inr () else readable w) (\<lambda>_.
            let neighbours = find_by_ids (neighbour_ids opts) rows in
            bind_sum (rank_of SCOPE_MISMATCH (Some workItemId) neighbours (beforeId opts)) (\<lambda>lowRank.
            bind_sum (rank_of SCOPE_MISMATCH (Some workItemId) neighbours (afterId opts)) (\<lambda>highRank.
            bind_sum (case between lowRank highRank of Inl e \<Rightarrow> Inl (Uncaught ''Error'') | Inr r \<Rightarrow> Inr r) (\<lambda>newRank.
            Inr (update_rank i newRank rows))))))"

section \<open>What a placement function is for\<close>

definition last_rank :: "('s, 'm) ranked_row_scheme list \<Rightarrow> string option" where
  "last_rank xs = (if xs = [] then None else Some (row_rank (last xs)))"

definition first_rank :: "('s, 'm) ranked_row_scheme list \<Rightarrow> string option" where
  "first_rank xs = (case xs of [] \<Rightarrow> None | x # _ \<Rightarrow> Some (row_rank x))"

abbreviation rank_sorted :: "('s, 'm) ranked_row_scheme list \<Rightarrow> bool" where
  "rank_sorted \<equiv> sorted_wrt (\<lambda>a b. row_rank a < row_rank b)"

locale rank_space =
  fixes place :: "string option \<Rightarrow> string option \<Rightarrow> 'e + string"
    and good :: "string \<Rightarrow> bool"
  assumes place_ok:
    "(\<And>l. low = Some l \<Longrightarrow> good l) \<Longrightarrow> (\<And>h. high = Some h \<Longrightarrow> good h) \<Longrightarrow>
     (\<And>l h. low = Some l \<Longrightarrow> high = Some h \<Longrightarrow> l < h) \<Longrightarrow>
     \<exists>r. place low high = Inr r \<and> good r \<and> strictly_between low r high"
    and place_throws: "h \<le> l \<Longrightarrow> \<exists>e. place (Some l) (Some h) = Inl e"
begin

lemma place_into:
  assumes "rank_sorted (xs @ ys)" and "\<forall>x \<in> set (xs @ ys). good (row_rank x)"
  shows "\<exists>r. place (last_rank xs) (first_rank ys) = Inr r \<and> good r \<and>
    rank_sorted (xs @ m\<lparr>row_rank := r\<rparr> # ys)"
proof -
  have "\<exists>r. place (last_rank xs) (first_rank ys) = Inr r \<and> good r \<and>
      strictly_between (last_rank xs) r (first_rank ys)"
    using assms
    by (intro place_ok) (auto simp: last_rank_def first_rank_def sorted_wrt_append
        split: if_splits list.splits)
  then obtain r where r: "place (last_rank xs) (first_rank ys) = Inr r" "good r"
      "strictly_between (last_rank xs) r (first_rank ys)" by blast
  have "row_rank x < r" if "x \<in> set xs" for x
  proof -
    have "xs \<noteq> []" using that by auto
    then obtain zs z where xs: "xs = zs @ [z]" by (metis rev_exhaust)
    then have "row_rank x \<le> row_rank z"
      using assms(1) that by (auto simp: sorted_wrt_append)
    moreover have "row_rank z < r" using r(3) xs by (simp add: strictly_between_def last_rank_def)
    ultimately show ?thesis by simp
  qed
  moreover have "r < row_rank y" if "y \<in> set ys" for y
    using that assms(1) r(3)
    by (cases ys) (auto simp: strictly_between_def first_rank_def sorted_wrt_append)
  ultimately show ?thesis
    using assms(1) r by (auto simp: sorted_wrt_append)
qed

lemma place_conflict:
  assumes "place low high = Inr r"
  shows "low = None \<or> high = None \<or> the low < the high"
  using assms place_throws [of "the high" "the low"] by (cases low; cases high) force+

end

interpretation lexo: rank_space between good_rank
proof
  show "\<exists>r. between low high = Inr r \<and> good_rank r \<and> strictly_between low r high"
    if "\<And>l. low = Some l \<Longrightarrow> good_rank l" "\<And>h. high = Some h \<Longrightarrow> good_rank h"
      "\<And>l h. low = Some l \<Longrightarrow> high = Some h \<Longrightarrow> l < h" for low high
    using that by (intro between_places) (auto simp: neighbours_ok_def split: option.splits)
qed (simp add: between_out_of_order)

section \<open>Looking up the neighbours\<close>

definition distinct_rows :: "('s, 'm) ranked_row_scheme list \<Rightarrow> bool" where
  "distinct_rows rows \<longleftrightarrow> distinct (map row_id rows) \<and> (\<forall>r \<in> set rows. row_id r \<noteq> [])"

lemma find_row_Some:
  "distinct_rows rows \<Longrightarrow> m \<in> set rows \<Longrightarrow> find_row (row_id m) rows = Some m"
  by (auto simp: find_row_def distinct_rows_def find_Some_iff in_set_conv_nth distinct_conv_nth)

lemma rank_of_found:
  assumes "distinct_rows rows" "n \<in> set rows" "row_scope n = s" "row_id n \<in> set ids"
  shows "rank_of err s (find_by_ids ids rows) (Some (row_id n)) = Inr (Some (row_rank n))"
proof -
  let ?ns = "find_by_ids ids rows"
  have "distinct (map row_id ?ns)"
    using assms(1) by (auto simp: distinct_rows_def find_by_ids_def distinct_map_filter)
  then have "map_of (rev (map (\<lambda>n. (row_id n, n)) ?ns)) (row_id n) = Some n"
    using assms(2,4)
    by (intro map_of_is_SomeI) (auto simp: comp_def find_by_ids_def rev_map [symmetric])
  then show ?thesis
    using assms by (auto simp: rank_of_def absent_def distinct_rows_def)
qed

lemma rank_of_None [simp]: "rank_of err s ns None = Inr None"
  by (simp add: rank_of_def absent_def)

definition last_id :: "('s, 'm) ranked_row_scheme list \<Rightarrow> uuid option" where
  "last_id xs = (if xs = [] then None else Some (row_id (last xs)))"

definition first_id :: "('s, 'm) ranked_row_scheme list \<Rightarrow> uuid option" where
  "first_id xs = (case xs of [] \<Rightarrow> None | x # _ \<Rightarrow> Some (row_id x))"

definition between_rows ::
  "('s, 'm) ranked_row_scheme list \<Rightarrow> ('s, 'm) ranked_row_scheme list \<Rightarrow> move_opts" where
  "between_rows xs ys = \<lparr>beforeId = last_id xs, afterId = first_id ys\<rparr>"

lemma between_rows_simps [simp]:
  "beforeId (between_rows xs ys) = last_id xs" "afterId (between_rows xs ys) = first_id ys"
  by (simp_all add: between_rows_def)

lemma rank_of_neighbours:
  assumes "distinct_rows rows" "set (xs @ ys) \<subseteq> set rows" "\<forall>x \<in> set (xs @ ys). row_scope x = s"
  defines "ns \<equiv> find_by_ids (neighbour_ids (between_rows xs ys)) rows"
  shows "rank_of err s ns (last_id xs) = Inr (last_rank xs)"
    and "rank_of err s ns (first_id ys) = Inr (first_rank ys)"
proof -
  show "rank_of err s ns (last_id xs) = Inr (last_rank xs)"
  proof (cases "xs = []")
    case False
    have "rank_of err s ns (Some (row_id (last xs))) = Inr (Some (row_rank (last xs)))"
      unfolding ns_def using False assms(2,3) last_in_set [OF False]
      by (intro rank_of_found [OF assms(1)]) (auto simp: between_rows_def neighbour_ids_def last_id_def)
    with False show ?thesis by (simp add: last_id_def last_rank_def)
  qed (simp add: last_id_def last_rank_def)
  show "rank_of err s ns (first_id ys) = Inr (first_rank ys)"
  proof (cases ys)
    case (Cons y ys')
    have "rank_of err s ns (Some (row_id y)) = Inr (Some (row_rank y))"
      unfolding ns_def using Cons assms(2,3)
      by (intro rank_of_found [OF assms(1)]) (auto simp: between_rows_def neighbour_ids_def first_id_def)
    with Cons show ?thesis by (simp add: first_id_def first_rank_def)
  qed (simp add: first_id_def first_rank_def)
qed

section \<open>A move ends up where it was asked\<close>

text \<open>The listing of a scope: its rows in strict order of rank, all ranks usable.\<close>

definition listing :: "'s \<Rightarrow> ('s, 'm) ranked_row_scheme list \<Rightarrow> ('s, 'm) ranked_row_scheme list \<Rightarrow> bool" where
  "listing s rows ls \<longleftrightarrow> mset ls = mset (filter (\<lambda>r. row_scope r = s) rows) \<and>
     rank_sorted ls \<and> (\<forall>r \<in> set ls. good_rank (row_rank r))"

text \<open>Row \<open>m\<close> may be moved between \<open>xs\<close> and \<open>ys\<close>, which with it are the listing of its scope.\<close>

definition movable :: "('s, 'm) ranked_row_scheme list \<Rightarrow> ('s, 'm) ranked_row_scheme \<Rightarrow>
    ('s, 'm) ranked_row_scheme list \<Rightarrow> ('s, 'm) ranked_row_scheme list \<Rightarrow> bool" where
  "movable rows m xs ys \<longleftrightarrow> distinct_rows rows \<and> m \<in> set rows \<and>
     (\<exists>ls. listing (row_scope m) rows ls \<and> remove1 m ls = xs @ ys)"

lemma movable_facts:
  assumes "movable rows m xs ys"
  shows "distinct_rows rows" and "find_row (row_id m) rows = Some m"
    and "set (xs @ ys) \<subseteq> set rows" and "\<forall>x \<in> set (xs @ ys). row_scope x = row_scope m"
    and "\<forall>x \<in> set (xs @ ys). good_rank (row_rank x)" and "rank_sorted (xs @ ys)"
    and "add_mset m (mset (xs @ ys)) = mset (filter (\<lambda>r. row_scope r = row_scope m) rows)"
    and "row_id m \<notin> row_id ` set (xs @ ys)"
proof -
  from assms obtain ls where dr: "distinct_rows rows" and m: "m \<in> set rows"
      and l: "listing (row_scope m) rows ls" and rem: "remove1 m ls = xs @ ys"
    by (auto simp: movable_def)
  show "distinct_rows rows" by fact
  show "find_row (row_id m) rows = Some m" by (rule find_row_Some [OF dr m])
  have ls: "mset ls = mset (filter (\<lambda>r. row_scope r = row_scope m) rows)"
    using l by (simp add: listing_def)
  then have "set ls = {r \<in> set rows. row_scope r = row_scope m}"
    by (metis set_mset_mset set_filter)
  moreover have sub: "set (xs @ ys) \<subseteq> set ls" using rem by (metis set_remove1_subset)
  ultimately show "set (xs @ ys) \<subseteq> set rows" "\<forall>x \<in> set (xs @ ys). row_scope x = row_scope m"
    by auto
  show "\<forall>x \<in> set (xs @ ys). good_rank (row_rank x)" using l sub by (auto simp: listing_def)
  show "rank_sorted (xs @ ys)"
    using l rem by (metis listing_def sorted_wrt_remove1)
  show add: "add_mset m (mset (xs @ ys)) = mset (filter (\<lambda>r. row_scope r = row_scope m) rows)"
    using m ls \<open>set ls = _\<close> rem by (simp flip: rem)
  have "distinct (map row_id (filter (\<lambda>r. row_scope r = row_scope m) rows))"
    using dr by (simp add: distinct_rows_def distinct_map_filter)
  moreover have "mset (row_id m # map row_id (xs @ ys)) =
      mset (map row_id (filter (\<lambda>r. row_scope r = row_scope m) rows))"
    using arg_cong [OF add, of "image_mset row_id"] by simp
  ultimately have "distinct (row_id m # map row_id (xs @ ys))"
    by (metis mset_eq_imp_distinct_iff)
  then show "row_id m \<notin> row_id ` set (xs @ ys)" by auto
qed

lemma mset_update_rank:
  assumes "distinct_rows rows" "m \<in> set rows" "row_scope m = s"
    "add_mset m (mset zs) = mset (filter (\<lambda>r. row_scope r = s) rows)"
    "row_id m \<notin> row_id ` set zs"
  shows "mset (filter (\<lambda>r. row_scope r = s) (update_rank (row_id m) r rows)) =
    add_mset (m\<lparr>row_rank := r\<rparr>) (mset zs)"
proof -
  let ?u = "\<lambda>x. if row_id x = row_id m then x\<lparr>row_rank := r\<rparr> else x"
  have "filter (\<lambda>r. row_scope r = s) (update_rank (row_id m) r rows) =
      map ?u (filter (\<lambda>r. row_scope r = s) rows)"
    by (simp add: update_rank_def filter_map comp_def if_distrib [of row_scope] cong: if_cong)
  then have "mset (filter (\<lambda>r. row_scope r = s) (update_rank (row_id m) r rows)) =
      image_mset ?u (mset (filter (\<lambda>r. row_scope r = s) rows))"
    by (simp only: mset_map)
  also have "\<dots> = image_mset ?u (add_mset m (mset zs))"
    by (simp only: assms(4))
  finally have "mset (filter (\<lambda>r. row_scope r = s) (update_rank (row_id m) r rows)) =
      image_mset ?u (add_mset m (mset zs))" .
  moreover have "image_mset ?u (mset zs) = image_mset (\<lambda>x. x) (mset zs)"
  proof (rule image_mset_cong)
    fix x assume "x \<in># mset zs"
    with assms(5) have "row_id x \<noteq> row_id m" by (metis image_eqI set_mset_mset)
    then show "?u x = x" by simp
  qed
  ultimately show ?thesis by simp
qed

text \<open>The common end of the three services: resolve both neighbours, place, write.\<close>

lemma move_listing:
  assumes "movable rows m xs ys"
  shows "\<exists>r. between (last_rank xs) (first_rank ys) = Inr r \<and>
    listing (row_scope m) (update_rank (row_id m) r rows) (xs @ m\<lparr>row_rank := r\<rparr> # ys)"
proof -
  note facts = movable_facts [OF assms]
  obtain r where r: "between (last_rank xs) (first_rank ys) = Inr r" "good_rank r"
      "rank_sorted (xs @ m\<lparr>row_rank := r\<rparr> # ys)"
    using lexo.place_into [OF facts(6,5)] by blast
  have "m \<in> set rows" using assms by (simp add: movable_def)
  from mset_update_rank [OF facts(1) this refl facts(7,8), of r] r facts(5)
  have "listing (row_scope m) (update_rank (row_id m) r rows) (xs @ m\<lparr>row_rank := r\<rparr> # ys)"
    by (auto simp: listing_def)
  with r(1) show ?thesis by blast
qed

lemma movable_ranks:
  assumes "movable rows m xs ys"
  defines "ns \<equiv> find_by_ids (neighbour_ids (between_rows xs ys)) rows"
  shows "rank_of err (row_scope m) ns (last_id xs) = Inr (last_rank xs)"
    and "rank_of err (row_scope m) ns (first_id ys) = Inr (first_rank ys)"
  unfolding ns_def by (rule rank_of_neighbours [OF movable_facts(1,3,4) [OF assms(1)]])+

lemmas move_steps = movable_facts(2) movable_ranks

text \<open>C23: In a project whose ranks are well-formed and strictly ordered, dragging a work item between two adjacent
  rows of the backlog succeeds when the item is in the actor's team scope and the project is writable. It writes one
  rank, that of the item: every other row of the table, of this project and of all others, stays as it was. The
  listing of the project is then exactly the one asked for.\<close>

theorem rankWorkItem_places:
  assumes "movable rows m xs ys" and "inTeamScope m = Inr ()" and "writable (row_scope m) = Inr ()"
  shows "\<exists>rows' r. rankWorkItem inTeamScope writable rows (row_id m) (row_scope m) (between_rows xs ys) =
      Inr rows' \<and>
    rows' = map (\<lambda>w. if row_id w = row_id m then w\<lparr>row_rank := r\<rparr> else w) rows \<and>
    listing (row_scope m) rows' (xs @ m\<lparr>row_rank := r\<rparr> # ys)"
  using move_listing [OF assms(1)] assms(2,3)
  by (auto simp: rankWorkItem_def Let_def move_steps [OF assms(1)] simp flip: update_rank_def)

theorem rankWorkItem_places_witness:
  "\<exists>rows' r. rankWorkItem (\<lambda>_. Inr ()) (\<lambda>_. Inr ())
      [\<lparr>row_id = ''a'', row_scope = ''p'', row_rank = ''i''\<rparr>,
       \<lparr>row_id = ''b'', row_scope = ''p'', row_rank = ''r''\<rparr>,
       \<lparr>row_id = ''c'', row_scope = ''p'', row_rank = ''v''\<rparr>,
       \<lparr>row_id = ''d'', row_scope = ''q'', row_rank = ''i''\<rparr>] ''c'' ''p''
      \<lparr>beforeId = Some ''a'', afterId = Some ''b''\<rparr> = Inr rows' \<and>
    \<lparr>row_id = ''d'', row_scope = ''q'', row_rank = ''i''\<rparr> \<in> set rows' \<and>
    listing ''p'' rows' [\<lparr>row_id = ''a'', row_scope = ''p'', row_rank = ''i''\<rparr>,
       \<lparr>row_id = ''c'', row_scope = ''p'', row_rank = r\<rparr>,
       \<lparr>row_id = ''b'', row_scope = ''p'', row_rank = ''r''\<rparr>]"
proof -
  let ?a = "\<lparr>row_id = ''a'', row_scope = ''p'', row_rank = ''i''\<rparr> :: work_row"
  let ?b = "\<lparr>row_id = ''b'', row_scope = ''p'', row_rank = ''r''\<rparr> :: work_row"
  let ?c = "\<lparr>row_id = ''c'', row_scope = ''p'', row_rank = ''v''\<rparr> :: work_row"
  let ?d = "\<lparr>row_id = ''d'', row_scope = ''q'', row_rank = ''i''\<rparr> :: work_row"
  have "movable [?a, ?b, ?c, ?d] ?c [?a] [?b]"
  proof -
    have "''i'' < ''r''" "''r'' < ''v''" "''i'' < ''v''" by code_simp+
    then have "listing ''p'' [?a, ?b, ?c, ?d] [?a, ?b, ?c]"
      by (simp add: listing_def good_rank_def ALPHABET_def)
    then show ?thesis by (auto simp: movable_def distinct_rows_def intro!: exI [of _ "[?a, ?b, ?c]"])
  qed
  from rankWorkItem_places [OF this, of "\<lambda>_. Inr ()" "\<lambda>_. Inr ()"] show ?thesis
    by (auto simp: between_rows_def last_id_def first_id_def)
qed

text \<open>The same for a portfolio item that is not archived, given at least one neighbour; its
  scope is all items of its type.\<close>

theorem rankItem_places:
  assumes "movable rows m xs ys" and "xs @ ys \<noteq> []" and "\<not> archived m"
    and "permitted (item_project m) = Inr ()" and "writable (item_project m) = Inr ()"
  shows "\<exists>rows' r. rankItem permitted writable rows (row_id m) (between_rows xs ys) = Inr rows' \<and>
    listing (row_scope m) rows' (xs @ m\<lparr>row_rank := r\<rparr> # ys)"
proof -
  note facts = movable_facts [OF assms(1)]
  have ids: "row_id m \<notin> set (neighbour_ids (between_rows xs ys))"
    using facts(8) by (auto simp: neighbour_ids_def last_id_def first_id_def split: if_splits list.splits)
  have "row_id x \<noteq> []" if "x \<in> set xs \<union> set ys" for x
    using facts(1,3) that by (auto simp: distinct_rows_def)
  then have "\<not> (absent (last_id xs) \<and> absent (first_id ys))"
    using assms(2) last_in_set [of xs]
    by (cases ys) (auto simp: absent_def last_id_def first_id_def)
  then show ?thesis
    using move_listing [OF assms(1)] assms(3-5) ids
    by (auto simp: rankItem_def Let_def move_steps [OF assms(1)])
qed

lemma reorder_places:
  assumes "movable rows m xs ys" and "row_scope m = Some w" and "readable w = Inr ()"
  shows "\<exists>rows' r. reorder readable rows (row_id m) w (between_rows xs ys) = Inr rows' \<and>
    listing (Some w) rows' (xs @ m\<lparr>row_rank := r\<rparr> # ys)"
  using move_listing [OF assms(1)] assms(2,3)
  by (auto simp: reorder_def Let_def movable_facts(2) [OF assms(1)]
      movable_ranks [OF assms(1), unfolded assms(2)])

theorem rankItem_places_witness:
  "\<exists>rows' r. rankItem (\<lambda>_. Inr ()) (\<lambda>_. Inr ())
      [\<lparr>row_id = ''a'', row_scope = Epic, row_rank = ''i'', item_project = ''p'', archived = False\<rparr>,
       \<lparr>row_id = ''b'', row_scope = Epic, row_rank = ''r'', item_project = ''q'', archived = False\<rparr>] ''b''
      \<lparr>beforeId = None, afterId = Some ''a''\<rparr> = Inr rows' \<and>
    listing Epic rows'
      [\<lparr>row_id = ''b'', row_scope = Epic, row_rank = r, item_project = ''q'', archived = False\<rparr>,
       \<lparr>row_id = ''a'', row_scope = Epic, row_rank = ''i'', item_project = ''p'', archived = False\<rparr>]"
proof -
  let ?a = "\<lparr>row_id = ''a'', row_scope = Epic, row_rank = ''i'', item_project = ''p'', archived = False\<rparr>"
  let ?b = "\<lparr>row_id = ''b'', row_scope = Epic, row_rank = ''r'', item_project = ''q'', archived = False\<rparr>"
  have "movable [?a, ?b] ?b [] [?a]"
  proof -
    have "''i'' < ''r''" by code_simp
    then have "listing Epic [?a, ?b] [?a, ?b]"
      by (simp add: listing_def good_rank_def ALPHABET_def)
    then show ?thesis by (auto simp: movable_def distinct_rows_def intro!: exI [of _ "[?a, ?b]"])
  qed
  from rankItem_places [OF this, of "\<lambda>_. Inr ()" "\<lambda>_. Inr ()"] show ?thesis
    by (simp add: between_rows_def last_id_def first_id_def)
qed

text \<open>Two rows of the scope of \<open>m\<close> that are not in the order the client believes.\<close>

definition stale :: "('s, 'm) ranked_row_scheme list \<Rightarrow> ('s, 'm) ranked_row_scheme \<Rightarrow>
    ('s, 'm) ranked_row_scheme \<Rightarrow> ('s, 'm) ranked_row_scheme \<Rightarrow> bool" where
  "stale rows m x y \<longleftrightarrow> distinct_rows rows \<and> {m, x, y} \<subseteq> set rows \<and>
     row_scope x = row_scope m \<and> row_scope y = row_scope m \<and> row_rank y \<le> row_rank x"

abbreviation stale_opts :: "('s, 'm) ranked_row_scheme \<Rightarrow> ('s, 'm) ranked_row_scheme \<Rightarrow> move_opts" where
  "stale_opts x y \<equiv> \<lparr>beforeId = Some (row_id x), afterId = Some (row_id y)\<rparr>"

lemma stale_facts:
  assumes "stale rows m x y"
  defines "ns \<equiv> find_by_ids (neighbour_ids (stale_opts x y)) rows"
  shows "find_row (row_id m) rows = Some m"
    and "rank_of err (row_scope m) ns (Some (row_id x)) = Inr (Some (row_rank x))"
    and "rank_of err (row_scope m) ns (Some (row_id y)) = Inr (Some (row_rank y))"
    and "between (Some (row_rank x)) (Some (row_rank y)) =
      Inl (Neighbours_Out_Of_Order (row_rank x) (row_rank y))"
  using assms
  by (auto simp: stale_def between_out_of_order find_row_Some neighbour_ids_def
      intro!: rank_of_found)

text \<open>When both neighbours are rows of the right scope but no longer in that order, work items
  and portfolio items answer with a rank conflict and test cases with an uncaught error;
  nothing is written.\<close>

theorem stale_neighbours_refused:
  assumes "stale rows m x y" and "stale prows m' x' y'" and "stale trows m'' x'' y''"
    and "row_scope m'' = Some w" and "\<not> archived m'"
  shows "rankWorkItem (\<lambda>_. Inr ()) (\<lambda>_. Inr ()) rows (row_id m) (row_scope m) (stale_opts x y) =
      Inl (PreconditionFailed ''WORK_ITEM_RANK_CONFLICT'') \<and>
    rankItem (\<lambda>_. Inr ()) (\<lambda>_. Inr ()) prows (row_id m') (stale_opts x' y') = Inl RANK_CONFLICT \<and>
    reorder (\<lambda>_. Inr ()) trows (row_id m'') w (stale_opts x'' y'') = Inl (Uncaught ''Error'')"
proof (intro conjI)
  show "rankWorkItem (\<lambda>_. Inr ()) (\<lambda>_. Inr ()) rows (row_id m) (row_scope m) (stale_opts x y) =
      Inl (PreconditionFailed ''WORK_ITEM_RANK_CONFLICT'')"
    by (simp add: rankWorkItem_def Let_def caught_def stale_facts [OF assms(1)])
  have "\<not> absent (Some (row_id x'))"
    using assms(2) by (auto simp: stale_def absent_def distinct_rows_def)
  then show "rankItem (\<lambda>_. Inr ()) (\<lambda>_. Inr ()) prows (row_id m') (stale_opts x' y') = Inl RANK_CONFLICT"
    using assms(5) by (simp add: rankItem_def Let_def caught_def stale_facts [OF assms(2)])
  show "reorder (\<lambda>_. Inr ()) trows (row_id m'') w (stale_opts x'' y'') = Inl (Uncaught ''Error'')"
    using assms(4) by (simp add: reorder_def Let_def stale_facts(1) [OF assms(3)]
        stale_facts(2-) [OF assms(3), unfolded assms(4)])
qed

theorem stale_neighbours_refused_witness:
  "rankWorkItem (\<lambda>_. Inr ()) (\<lambda>_. Inr ())
      [\<lparr>row_id = ''a'', row_scope = ''p'', row_rank = ''i''\<rparr>, \<lparr>row_id = ''b'', row_scope = ''p'', row_rank = ''r''\<rparr>]
      ''a'' ''p'' \<lparr>beforeId = Some ''b'', afterId = Some ''a''\<rparr> =
      Inl (PreconditionFailed ''WORK_ITEM_RANK_CONFLICT'') \<and>
    reorder (\<lambda>_. Inr ())
      [\<lparr>row_id = ''a'', row_scope = Some ''w'', row_rank = ''i''\<rparr>]
      ''a'' ''w'' \<lparr>beforeId = Some ''a'', afterId = Some ''a''\<rparr> = Inl (Uncaught ''Error'')"
proof -
  let ?a = "\<lparr>row_id = ''a'', row_scope = ''p'', row_rank = ''i''\<rparr> :: work_row"
  let ?b = "\<lparr>row_id = ''b'', row_scope = ''p'', row_rank = ''r''\<rparr> :: work_row"
  let ?f = "\<lparr>row_id = ''a'', row_scope = Epic, row_rank = ''i'', item_project = ''p'', archived = False\<rparr>"
  let ?t = "\<lparr>row_id = ''a'', row_scope = Some ''w'', row_rank = ''i''\<rparr> :: test_case_row"
  have "stale [?a, ?b] ?a ?b ?a" "stale [?f] ?f ?f ?f" "stale [?t] ?t ?t ?t" by code_simp+
  from stale_neighbours_refused [OF this, of "''w''"] show ?thesis by simp
qed

end
