(* ===== verification/WorkspaceLaws.thy ===== *)
theory WorkspaceLaws
  imports Workspaces
begin

text \<open>
  What the memberships and invitations of \<open>Workspaces\<close> promise: an invitation is worth what it says, to the one
  it was sent to, once; whoever leaves stays out; the last administrator of a workspace stays, unless
  an administrator holds the role twice; a token answers to its owner until it expires or is revoked.
\<close>

section \<open>What a request leaves alone\<close>

text \<open>The parts of the tables that permissions and credentials are read from.\<close>

named_theorems staff_frames "which tables an operation leaves alone"

lemma schedule_frames [staff_frames]:
  "sd_members (schedule_mail k to t db) = sd_members db" "sd_assignments (schedule_mail k to t db) = sd_assignments db"
  "sd_grants (schedule_mail k to t db) = sd_grants db" "sd_roles (schedule_mail k to t db) = sd_roles db"
  "sd_tokens (schedule_mail k to t db) = sd_tokens db" "sd_invitations (schedule_mail k to t db) = sd_invitations db"
  "sd_members (snd (schedule_guest env i e tk db)) = sd_members db"
  "sd_assignments (snd (schedule_guest env i e tk db)) = sd_assignments db"
  "sd_grants (snd (schedule_guest env i e tk db)) = sd_grants db" "sd_roles (snd (schedule_guest env i e tk db)) = sd_roles db"
  "sd_tokens (snd (schedule_guest env i e tk db)) = sd_tokens db"
  "sd_invitations (snd (schedule_guest env i e tk db)) = sd_invitations db"
  by (simp_all add: schedule_mail_def schedule_guest_def)

lemma settle_frames [staff_frames]:
  "sd_members (settle_guest sha i oid db) = sd_members db" "sd_assignments (settle_guest sha i oid db) = sd_assignments db"
  "sd_grants (settle_guest sha i oid db) = sd_grants db" "sd_roles (settle_guest sha i oid db) = sd_roles db"
  "sd_tokens (settle_guest sha i oid db) = sd_tokens db"
  "sd_invitations (fail_guest i db) = sd_invitations db" "sd_members (fail_guest i db) = sd_members db"
  "sd_assignments (fail_guest i db) = sd_assignments db" "sd_roles (fail_guest i db) = sd_roles db"
  "sd_tokens (fail_guest i db) = sd_tokens db"
  by (simp_all add: settle_guest_def fail_guest_def finish_job_def record_guest_def scheduleInviteEmail_def staff_frames
      split: option.split)

lemma settle_invitations:
  "sd_invitations (settle_guest sha i oid db) = sd_invitations db \<or>
   (\<exists>g. sd_invitations (settle_guest sha i oid db) = update_where (\<lambda>r. inv_id r = i) (\<lambda>r. r\<lparr>inv_guest := Some g\<rparr>) (sd_invitations db))"
  by (auto simp: settle_guest_def finish_job_def record_guest_def scheduleInviteEmail_def staff_frames split: option.split)

lemma insert_member_frames:
  assumes "insert_member i ws u role db = Inr db'"
  shows "sd_assignments db' = sd_assignments db" "sd_grants db' = sd_grants db" "sd_roles db' = sd_roles db"
    "sd_tokens db' = sd_tokens db" "sd_invitations db' = sd_invitations db"
    "sd_members db' = sd_members db @ [\<lparr>wsm_id = i, wsm_workspace = ws, wsm_user = u, wsm_role = role, wsm_status = Member_active\<rparr>]"
    "\<forall>m \<in> set (sd_members db). wsm_id m \<noteq> i \<and> \<not> (wsm_workspace m = ws \<and> wsm_user m = u)"
  using assms by (auto simp: insert_member_def split: if_splits)

lemma createGrant_frames:
  assumes "createGrant i ws p u level db = Inr db'"
  shows "sd_assignments db' = sd_assignments db" "sd_members db' = sd_members db" "sd_roles db' = sd_roles db"
    "sd_tokens db' = sd_tokens db" "sd_invitations db' = sd_invitations db"
  using assms by (auto simp: createGrant_def split: if_splits)

lemma grantProjectAccess_frames:
  assumes "grantProjectAccess env skip ws p u level db = Inr db'"
  shows "sd_assignments db' = sd_assignments db" "sd_members db' = sd_members db" "sd_roles db' = sd_roles db"
    "sd_tokens db' = sd_tokens db" "sd_invitations db' = sd_invitations db"
  using assms by (auto simp: grantProjectAccess_def createGrant_frames split: if_splits option.splits)

lemma grant_all_frames:
  assumes "grant_all env ws u rows db = Inr db'"
  shows "sd_assignments db' = sd_assignments db \<and> sd_members db' = sd_members db \<and> sd_roles db' = sd_roles db \<and>
    sd_tokens db' = sd_tokens db \<and> sd_invitations db' = sd_invitations db"
  using assms
proof (induction rows arbitrary: db)
  case (Cons a rows)
  then obtain mid where "grantProjectAccess env True ws (ia_project a) u (Some (ia_level a)) db = Inr mid"
      "grant_all env ws u rows mid = Inr db'" by (auto simp: bind_sum_Inr)
  with Cons.IH show ?case by (auto dest: grantProjectAccess_frames)
qed simp

lemma grantWorkspaceRole_frames [staff_frames]:
  "sd_members (grantWorkspaceRole i ws u role db) = sd_members db" "sd_grants (grantWorkspaceRole i ws u role db) = sd_grants db"
  "sd_roles (grantWorkspaceRole i ws u role db) = sd_roles db" "sd_tokens (grantWorkspaceRole i ws u role db) = sd_tokens db"
  "sd_invitations (grantWorkspaceRole i ws u role db) = sd_invitations db"
  by (simp_all add: grantWorkspaceRole_def Let_def)

lemma grant_invited_role_frames:
  assumes "grant_invited_role env r u db = Inr db'"
  shows "sd_members db' = sd_members db" "sd_grants db' = sd_grants db" "sd_roles db' = sd_roles db"
    "sd_tokens db' = sd_tokens db" "sd_invitations db' = sd_invitations db"
    "sd_assignments db' = sd_assignments db \<or> (\<exists>i. inv_role r = Some i \<and>
       sd_assignments db' = sd_assignments db @ [\<lparr>ua_id = se_role_id env, ua_workspace = inv_workspace r, ua_user = u,
         ua_role = i, ua_scope = Workspace, ua_scopeId = None\<rparr>])"
  using assms
  by (auto simp: grant_invited_role_def staff_frames grantWorkspaceRole_def Let_def split: option.splits if_splits)

lemma set_status_frames [staff_frames]:
  "sd_members (set_invitation_status i st by db) = sd_members db"
  "sd_assignments (set_invitation_status i st by db) = sd_assignments db"
  "sd_grants (set_invitation_status i st by db) = sd_grants db" "sd_roles (set_invitation_status i st by db) = sd_roles db"
  "sd_tokens (set_invitation_status i st by db) = sd_tokens db"
  by (simp_all add: set_invitation_status_def)
section \<open>Accepting an invitation\<close>

lemma found_row: "find P xs = Some x \<Longrightarrow> x \<in> set xs \<and> P x"
  by (induction xs) (auto split: if_splits)

lemma filter_update_other:
  "(\<And>r. r \<in> set rows \<Longrightarrow> p r \<Longrightarrow> \<not> Q r \<and> \<not> Q (f r)) \<Longrightarrow> filter Q (update_where p f rows) = filter Q rows"
  by (induction rows) (auto simp: update_where_def)

definition assignment_of :: "role_row \<Rightarrow> assignment" where
  "assignment_of r = \<lparr>scopeType = ra_scopeType r, scopeId = ra_scopeId r, roleSlug = Some (ra_slug r), permissions = ra_permissions r\<rparr>"

definition level_assignment :: "project_member_row \<Rightarrow> ProjectAccessLevel \<Rightarrow> assignment" where
  "level_assignment g l = \<lparr>scopeType = Project, scopeId = Some (pm_project g), roleSlug = pm_level g,
     permissions = ACCESS_LEVEL_PERMISSIONS l\<rparr>"

lemma in_assignments:
  "a \<in> set (assignments_from_db d ws u) \<longleftrightarrow> active_member d ws u \<and>
     ((\<exists>r \<in> set (roleRows d). ra_workspace r = ws \<and> ra_user r = u \<and> a = assignment_of r) \<or>
      (\<exists>g \<in> set (projectMembers d). pm_workspace g = ws \<and> pm_user g = u \<and> pm_active g \<and>
         (\<exists>l. isProjectAccessLevel (pm_level g) = Some l \<and> a = level_assignment g l)))"
  by (auto simp: assignments_from_db_def listEffectiveForUser_def synthesized_def set_filter_map Let_def assignment_of_def
      level_assignment_def split: option.splits)

text \<open>Who is not an active member has no permission at all.\<close>

lemma inactive_no_assignments: "\<not> active_member d ws u \<Longrightarrow> assignments_from_db d ws u = []"
  by (metis in_assignments last_in_set)

lemma active_view:
  "active_member (access_view db) ws u \<longleftrightarrow>
     (\<exists>m \<in> set (sd_members db). wsm_workspace m = ws \<and> wsm_user m = u \<and> wsm_status m = Member_active)"
  by (auto simp: active_member_def access_view_def member_of_def)

lemma role_row_of_Some:
  "role_row_of roles a = Some r \<Longrightarrow> ra_id r = ua_id a \<and> ra_workspace r = ua_workspace a \<and> ra_user r = ua_user a \<and> ra_scopeType r = ua_scope a"
  by (auto simp: role_row_of_def)

lemma roleRows_append:
  "sd_roles db' = sd_roles db \<Longrightarrow> sd_assignments db' = sd_assignments db @ xs \<Longrightarrow>
   roleRows (access_view db') = roleRows (access_view db) @ List.map_filter (role_row_of (sd_roles db)) xs"
  by (simp add: access_view_def map_filter_def)

text \<open>\<open>for_user\<close>: the tables differ for one user only.\<close>

definition for_user :: "uuid \<Rightarrow> staff_db \<Rightarrow> staff_db \<Rightarrow> bool" where
  "for_user u db db' \<longleftrightarrow> sd_roles db' = sd_roles db \<and>
     filter (\<lambda>m. wsm_user m \<noteq> u) (sd_members db') = filter (\<lambda>m. wsm_user m \<noteq> u) (sd_members db) \<and>
     filter (\<lambda>a. ua_user a \<noteq> u) (sd_assignments db') = filter (\<lambda>a. ua_user a \<noteq> u) (sd_assignments db) \<and>
     filter (\<lambda>g. pm_user g \<noteq> u) (sd_grants db') = filter (\<lambda>g. pm_user g \<noteq> u) (sd_grants db)"

lemma for_user_trans: "for_user u a b \<Longrightarrow> for_user u b c \<Longrightarrow> for_user u a c"
  by (simp add: for_user_def)

lemma filter_eq_mono:
  assumes "filter P xs = filter P ys" and "\<And>x. Q x \<Longrightarrow> P x"
  shows "filter Q xs = filter Q ys"
proof -
  have "filter Q zs = filter Q (filter P zs)" for zs using assms(2) by (auto intro!: filter_cong)
  then show ?thesis by (metis assms(1))
qed

lemma filter_role_rows:
  "filter (\<lambda>r. ra_workspace r = ws \<and> ra_user r = u \<and> A) (roleRows (access_view db)) =
   List.map_filter (role_row_of (sd_roles db)) (filter (\<lambda>a. ua_workspace a = ws \<and> ua_user a = u \<and> A) (sd_assignments db))"
proof -
  have "filter (\<lambda>r. ra_workspace r = ws \<and> ra_user r = u \<and> A) (List.map_filter (role_row_of roles) xs) =
      List.map_filter (role_row_of roles) (filter (\<lambda>a. ua_workspace a = ws \<and> ua_user a = u \<and> A) xs)" for roles xs
  proof (induction xs)
    case (Cons a xs)
    then show ?case by (cases "role_row_of roles a") (auto simp: map_filter_simps dest: role_row_of_Some)
  qed (simp add: map_filter_simps)
  then show ?thesis by (simp add: access_view_def)
qed

lemma for_user_others:
  assumes "for_user u db db'" and "u' \<noteq> u"
  shows "assignments_from_db (access_view db') ws u' = assignments_from_db (access_view db) ws u'"
proof -
  have "set (filter (\<lambda>m. wsm_user m \<noteq> u) (sd_members db')) = set (filter (\<lambda>m. wsm_user m \<noteq> u) (sd_members db))"
    using assms(1) by (simp add: for_user_def del: set_filter)
  then have "m \<in> set (sd_members db') \<longleftrightarrow> m \<in> set (sd_members db)" if "wsm_user m = u'" for m
    using that assms(2) by auto
  then have act: "active_member (access_view db') ws u' = active_member (access_view db) ws u'"
    unfolding active_view by blast
  have "filter (\<lambda>a. ua_workspace a = ws \<and> ua_user a = u' \<and> A) (sd_assignments db') =
      filter (\<lambda>a. ua_workspace a = ws \<and> ua_user a = u' \<and> A) (sd_assignments db)" for A
    by (rule filter_eq_mono [where P = "\<lambda>a. ua_user a \<noteq> u"]) (use assms in \<open>auto simp: for_user_def\<close>)
  then have rows: "filter (\<lambda>r. ra_workspace r = ws \<and> ra_user r = u' \<and> A) (roleRows (access_view db')) =
      filter (\<lambda>r. ra_workspace r = ws \<and> ra_user r = u' \<and> A) (roleRows (access_view db))" for A
    using assms(1) by (simp add: filter_role_rows for_user_def)
  have grants: "filter (\<lambda>g. pm_workspace g = ws \<and> pm_user g = u' \<and> pm_active g \<and> A) (sd_grants db') =
      filter (\<lambda>g. pm_workspace g = ws \<and> pm_user g = u' \<and> pm_active g \<and> A) (sd_grants db)" for A
    by (rule filter_eq_mono [where P = "\<lambda>g. pm_user g \<noteq> u"]) (use assms in \<open>auto simp: for_user_def\<close>)
  have "projectMembers (access_view d) = sd_grants d" for d by (simp add: access_view_def)
  then show ?thesis by (simp only: assignments_from_db_def listEffectiveForUser_def act rows grants)
qed

lemma createGrant_for_user:
  assumes "createGrant i ws p u level db = Inr db'"
  shows "for_user u db db'"
  using assms by (auto simp: createGrant_def for_user_def split: if_splits intro!: filter_update_other)

lemma createGrant_ids:
  "createGrant i ws p u level db = Inr db' \<Longrightarrow> distinct (map pm_id (sd_grants db)) \<Longrightarrow> distinct (map pm_id (sd_grants db'))"
  by (auto simp: createGrant_def map_update_where split: if_splits)

lemma grantProjectAccess_for_user:
  assumes "grantProjectAccess env skip ws p u level db = Inr db'" and ids: "distinct (map pm_id (sd_grants db))"
  shows "for_user u db db' \<and> distinct (map pm_id (sd_grants db'))"
proof -
  have one: "pm_user r = u" if found: "find (\<lambda>g. pm_project g = p \<and> pm_user g = u \<and> pm_active g) (sd_grants db) = Some g"
      and r: "r \<in> set (sd_grants db)" "pm_id r = pm_id g" for g r
  proof -
    from found have "g \<in> set (sd_grants db)" "pm_user g = u" by (auto dest: found_row)
    with r ids have "r = g" by (metis distinct_map inj_on_def)
    with \<open>pm_user g = u\<close> show ?thesis by simp
  qed
  show ?thesis
  proof (cases "find (\<lambda>g. pm_project g = p \<and> pm_user g = u \<and> pm_active g) (sd_grants db)")
    case None
    with assms(1) have "db' = db \<or> createGrant (se_grant_id env p) ws p u level db = Inr db'"
      by (simp add: grantProjectAccess_def split: if_splits)
    with ids show ?thesis by (elim disjE) (simp add: for_user_def, blast intro: createGrant_for_user createGrant_ids)
  next
    case (Some g)
    have "for_user u db (db\<lparr>sd_grants := update_where (\<lambda>r. pm_id r = pm_id g) (\<lambda>r. r\<lparr>pm_level := level\<rparr>) (sd_grants db)\<rparr>)"
      using one [OF Some] by (simp add: for_user_def filter_update_other)
    with assms(1) Some ids show ?thesis
      by (auto simp: grantProjectAccess_def for_user_def map_update_where split: if_splits)
  qed
qed

lemma grant_all_for_user:
  assumes "grant_all env ws u rows db = Inr db'" and "distinct (map pm_id (sd_grants db))"
  shows "for_user u db db' \<and> distinct (map pm_id (sd_grants db'))"
  using assms
proof (induction rows arbitrary: db)
  case Nil
  then show ?case by (simp add: for_user_def)
next
  case (Cons a rows)
  then obtain mid where "grantProjectAccess env True ws (ia_project a) u (Some (ia_level a)) db = Inr mid"
      "grant_all env ws u rows mid = Inr db'" by (auto simp: bind_sum_Inr)
  with Cons show ?case by (meson grantProjectAccess_for_user for_user_trans)
qed
text \<open>What a user holds in a workspace as soon as they are an active member of it.\<close>

definition potential :: "staff_db \<Rightarrow> uuid \<Rightarrow> uuid \<Rightarrow> assignment set" where
  "potential db ws u =
     {assignment_of r | r. r \<in> set (roleRows (access_view db)) \<and> ra_workspace r = ws \<and> ra_user r = u} \<union>
     {level_assignment g l | g l. g \<in> set (sd_grants db) \<and> pm_workspace g = ws \<and> pm_user g = u \<and> pm_active g \<and>
        isProjectAccessLevel (pm_level g) = Some l}"

lemma assignments_potential:
  "set (assignments_from_db (access_view db) ws u) = (if active_member (access_view db) ws u then potential db ws u else {})"
proof -
  have "projectMembers (access_view db) = sd_grants db" by (simp add: access_view_def)
  then show ?thesis unfolding potential_def by (intro set_eqI) (simp add: in_assignments, blast)
qed

text \<open>What an invitation offers: its role, as a role of the workspace, and the levels listed with it.\<close>

definition offered_levels :: "invitation_access list \<Rightarrow> assignment set" where
  "offered_levels access =
     {\<lparr>scopeType = Project, scopeId = Some (ia_project a), roleSlug = Some (ia_level a), permissions = ACCESS_LEVEL_PERMISSIONS l\<rparr>
        | a l. a \<in> set access \<and> isProjectAccessLevel (Some (ia_level a)) = Some l}"

definition offered_role :: "staff_db \<Rightarrow> invitation \<Rightarrow> assignment set" where
  "offered_role db r =
     {\<lparr>scopeType = Workspace, scopeId = None, roleSlug = Some (rl_slug d), permissions = rl_permissions d\<rparr>
        | d. d \<in> set (sd_roles db) \<and> inv_role r = Some (rl_id d)}"

lemma potential_cong:
  assumes "sd_roles db' = sd_roles db" "sd_assignments db' = sd_assignments db" "sd_grants db' = sd_grants db"
  shows "potential db' ws u = potential db ws u"
  using assms by (simp add: potential_def access_view_def)

lemma createGrant_gains:
  assumes "createGrant i ws (ia_project a) u (Some (ia_level a)) db = Inr db'"
  shows "potential db' ws u \<subseteq> potential db ws u \<union> offered_levels [a]"
proof -
  have same: "roleRows (access_view db') = roleRows (access_view db)"
    using createGrant_frames [OF assms] by (simp add: access_view_def)
  have "g \<in> set (sd_grants db) \<or> pm_project g = ia_project a \<and> pm_level g = Some (ia_level a)" if "g \<in> set (sd_grants db')" for g
    using that assms by (auto simp: createGrant_def in_update_where split: if_splits)
  then show ?thesis unfolding potential_def same offered_levels_def level_assignment_def by fastforce
qed

lemma grantProjectAccess_gains:
  assumes "grantProjectAccess env True ws (ia_project a) u (Some (ia_level a)) db = Inr db'"
    and ids: "distinct (map pm_id (sd_grants db))"
  shows "potential db' ws u \<subseteq> potential db ws u \<union> offered_levels [a]"
proof (cases "find (\<lambda>g. pm_project g = ia_project a \<and> pm_user g = u \<and> pm_active g) (sd_grants db)")
  case None
  with assms(1) have "db' = db \<or> createGrant (se_grant_id env (ia_project a)) ws (ia_project a) u (Some (ia_level a)) db = Inr db'"
    by (simp add: grantProjectAccess_def split: if_splits)
  then show ?thesis by (elim disjE) (simp, blast dest: createGrant_gains)
next
  case (Some g)
  from found_row [OF this] have g: "g \<in> set (sd_grants db)" "pm_project g = ia_project a" by auto
  consider "db' = db" | "db' = db\<lparr>sd_grants := update_where (\<lambda>r. pm_id r = pm_id g) (\<lambda>r. r\<lparr>pm_level := Some (ia_level a)\<rparr>) (sd_grants db)\<rparr>"
    using assms(1) Some by (auto simp: grantProjectAccess_def split: if_splits)
  then show ?thesis
  proof cases
    case 2
    have same: "roleRows (access_view db') = roleRows (access_view db)" using 2 by (simp add: access_view_def)
    have "h \<in> set (sd_grants db) \<or> pm_project h = ia_project a \<and> pm_level h = Some (ia_level a)" if h: "h \<in> set (sd_grants db')" for h
    proof -
      from h 2 obtain h0 where h0: "h0 \<in> set (sd_grants db)" "h = (if pm_id h0 = pm_id g then h0\<lparr>pm_level := Some (ia_level a)\<rparr> else h0)"
        by (auto simp: in_update_where)
      show ?thesis
      proof (cases "pm_id h0 = pm_id g")
        case True
        with h0(1) g(1) ids have "h0 = g" by (metis distinct_map inj_on_def)
        with True h0(2) g(2) show ?thesis by simp
      qed (use h0 in simp)
    qed
    then show ?thesis unfolding potential_def same offered_levels_def level_assignment_def by fastforce
  qed simp
qed

lemma offered_levels_Cons: "offered_levels (a # rows) = offered_levels [a] \<union> offered_levels rows"
  by (auto simp: offered_levels_def)

lemma grant_all_gains:
  assumes "grant_all env ws u rows db = Inr db'" and "distinct (map pm_id (sd_grants db))"
  shows "potential db' ws u \<subseteq> potential db ws u \<union> offered_levels rows"
  using assms
proof (induction rows arbitrary: db)
  case (Cons a rows)
  then obtain mid where mid: "grantProjectAccess env True ws (ia_project a) u (Some (ia_level a)) db = Inr mid"
      "grant_all env ws u rows mid = Inr db'" by (auto simp: bind_sum_Inr)
  have "distinct (map pm_id (sd_grants mid))" using grantProjectAccess_for_user [OF mid(1) Cons.prems(2)] by blast
  from Cons.IH [OF mid(2) this] grantProjectAccess_gains [OF mid(1) Cons.prems(2)]
  show ?case unfolding offered_levels_Cons [of a rows] by blast
qed simp

lemma grant_invited_role_gains:
  assumes "grant_invited_role env r u db = Inr db'"
  shows "potential db' (inv_workspace r) u \<subseteq> potential db (inv_workspace r) u \<union> offered_role db r"
proof -
  note frames = grant_invited_role_frames [OF assms]
  from frames(6) show ?thesis
  proof
    assume "sd_assignments db' = sd_assignments db"
    with frames show ?thesis using potential_cong [of db' db] by auto
  next
    assume "\<exists>i. inv_role r = Some i \<and> sd_assignments db' = sd_assignments db @
      [\<lparr>ua_id = se_role_id env, ua_workspace = inv_workspace r, ua_user = u, ua_role = i, ua_scope = Workspace, ua_scopeId = None\<rparr>]"
    then obtain i where i: "inv_role r = Some i" "sd_assignments db' = sd_assignments db @
      [\<lparr>ua_id = se_role_id env, ua_workspace = inv_workspace r, ua_user = u, ua_role = i, ua_scope = Workspace, ua_scopeId = None\<rparr>]" by blast
    have "set (roleRows (access_view db')) \<subseteq> set (roleRows (access_view db)) \<union>
        {x. \<exists>d \<in> set (sd_roles db). rl_id d = i \<and> ra_scopeType x = Workspace \<and> ra_scopeId x = None \<and> ra_slug x = rl_slug d \<and>
           ra_permissions x = rl_permissions d}"
      unfolding roleRows_append [OF frames(3) i(2)]
      by (auto simp: map_filter_simps role_row_of_def split: option.splits dest!: found_row)
    then show ?thesis using i(1) frames(2) unfolding potential_def offered_role_def assignment_of_def by fastforce
  qed
qed

definition addressed_to :: "staff_db \<Rightarrow> invitation \<Rightarrow> uuid \<Rightarrow> bool" where
  "addressed_to db r u \<longleftrightarrow> (\<exists>p \<in> set (sd_people db). pe_id p = u \<and>
     (case inv_guest r of
        None \<Rightarrow> toLowerCase (pe_email p) = toLowerCase (inv_email r)
      | Some g \<Rightarrow> toLowerCase g \<in> toLowerCase ` set (pe_subjects p)))"

lemma recipient_addressed: "recipient_check db r u = Inr () \<Longrightarrow> addressed_to db r u"
proof (cases "inv_guest r")
  case None
  moreover assume "recipient_check db r u = Inr ()"
  ultimately show ?thesis by (force simp: recipient_check_def addressed_to_def split: option.splits if_splits dest!: found_row)
next
  case (Some g)
  moreover assume "recipient_check db r u = Inr ()"
  ultimately obtain p s where "p \<in> set (sd_people db)" "pe_id p = u" "s \<in> set (pe_subjects p)" "toLowerCase s = toLowerCase g"
    by (auto simp: recipient_check_def split: if_splits)
  with Some show ?thesis unfolding addressed_to_def by (metis image_eqI option.simps(5))
qed

lemma accept_checks_Inr:
  assumes "accept_checks sha env raw u db = Inr r"
  shows "r \<in> set (sd_invitations db)" "inv_hash r = sha raw" "inv_status r = Invite_pending" "se_now env \<le> inv_expires r"
    "addressed_to db r u"
  using assms by (auto simp: accept_checks_def bind_sum_Inr recipient_addressed split: option.splits if_splits dest!: found_row)

lemma accept_in_tx_steps:
  assumes "accept_in_tx env r enrolled access u db = Inr db'"
  obtains db1 db2 db3 where "if enrolled then db1 = db else insert_member (se_id env) (inv_workspace r) u (inv_role r) db = Inr db1"
    "grant_invited_role env r u db1 = Inr db2" "grant_all env (inv_workspace r) u access db2 = Inr db3"
    "db' = set_invitation_status (inv_id r) Invite_accepted (Some u) db3"
  using assms by (auto simp: accept_in_tx_def bind_sum_Inr split: if_splits)

lemma for_user_insert:
  assumes "insert_member i ws u role db = Inr db'"
  shows "for_user u db db'"
  using insert_member_frames [OF assms] by (simp add: for_user_def)

lemma for_user_role: "grant_invited_role env r u db = Inr db' \<Longrightarrow> for_user u db db'"
  using grant_invited_role_frames [of env r u db db'] by (auto simp: for_user_def)

lemma accept_in_tx_effect:
  assumes "accept_in_tx env r enrolled access u db = Inr db'" and ids: "distinct (map pm_id (sd_grants db))"
  shows "for_user u db db'" and "sd_tokens db' = sd_tokens db"
    and "potential db' (inv_workspace r) u \<subseteq> potential db (inv_workspace r) u \<union> offered_role db r \<union> offered_levels access"
proof -
  obtain db1 db2 db3 where st: "if enrolled then db1 = db else insert_member (se_id env) (inv_workspace r) u (inv_role r) db = Inr db1"
    "grant_invited_role env r u db1 = Inr db2" "grant_all env (inv_workspace r) u access db2 = Inr db3"
    "db' = set_invitation_status (inv_id r) Invite_accepted (Some u) db3"
    by (rule accept_in_tx_steps [OF assms(1)])
  have one: "for_user u db db1 \<and> sd_roles db1 = sd_roles db \<and> sd_assignments db1 = sd_assignments db \<and> sd_grants db1 = sd_grants db \<and>
      sd_tokens db1 = sd_tokens db"
    using st(1) by (auto simp: for_user_insert insert_member_frames split: if_splits) (simp add: for_user_def)
  note two = for_user_role [OF st(2)] grant_invited_role_frames [OF st(2)] grant_invited_role_gains [OF st(2)]
  have ids2: "distinct (map pm_id (sd_grants db2))" using ids one two by simp
  note three = grant_all_for_user [OF st(3) ids2] grant_all_frames [OF st(3)] grant_all_gains [OF st(3) ids2]
  have last: "for_user u db3 db'" by (simp add: for_user_def st(4) staff_frames)
  show "for_user u db db'" using one two(1) three(1) last by (meson for_user_trans)
  show "sd_tokens db' = sd_tokens db" using one two three(2) by (simp add: st(4) staff_frames)
  have "potential db' ws u = potential db3 ws u" for ws by (rule potential_cong) (simp_all add: st(4) staff_frames)
  moreover have "potential db1 ws u = potential db ws u" for ws using one by (intro potential_cong) simp_all
  moreover have "offered_role db1 r = offered_role db r" using one by (simp add: offered_role_def)
  ultimately show "potential db' (inv_workspace r) u \<subseteq> potential db (inv_workspace r) u \<union> offered_role db r \<union> offered_levels access"
    using two(8) three(3) by auto
qed

text \<open>C6: an accepted invitation was pending, not expired and sent to the one who accepts it, by the guest object
  where one is recorded and by the address otherwise. It changes the permissions of nobody else, in any
  workspace, whatever other requests commit in between, and gives no more than its role and the levels listed
  with it; no token is touched.\<close>

theorem invitation_bound:
  assumes "acceptInvitation sha others env raw u (db, c) = Inr (db', c')"
    and "distinct (map pm_id (sd_grants (others db)))"
  shows "\<exists>r \<in> set (sd_invitations db). inv_hash r = sha raw \<and> inv_status r = Invite_pending \<and> se_now env \<le> inv_expires r \<and>
    addressed_to db r u \<and>
    (\<forall>ws' u'. u' \<noteq> u \<longrightarrow>
       assignments_from_db (access_view db') ws' u' = assignments_from_db (access_view (others db)) ws' u') \<and>
    potential db' (inv_workspace r) u \<subseteq> potential (others db) (inv_workspace r) u \<union> offered_role (others db) r \<union>
      offered_levels (filter (\<lambda>a. ia_invitation a = inv_id r) (sd_invitation_access db)) \<and>
    sd_tokens db' = sd_tokens (others db)"
proof -
  obtain r where r: "accept_checks sha env raw u db = Inr r"
    and tx: "accept_in_tx env r (findMember db (inv_workspace r) u \<noteq> None)
      (filter (\<lambda>a. ia_invitation a = inv_id r) (sd_invitation_access db)) u (others db) = Inr db'"
    using assms(1) by (auto simp: acceptInvitation_def bind_sum_Inr Let_def)
  note effect = accept_in_tx_effect [OF tx assms(2)]
  show ?thesis
    using accept_checks_Inr [OF r] effect(2,3) for_user_others [OF effect(1)] by (intro bexI [of _ r] conjI) simp_all
qed

end
