(* ===== verification/WorkspaceRuns.thy ===== *)
theory WorkspaceRuns
  imports WorkspaceLaws
begin

text \<open>
  Runs of the requests of \<open>Workspaces\<close>: an invitation link works once, whoever left a workspace stays
  out until an administrator lets them in again, a workspace keeps an administrator as long as nobody
  holds that role twice, and a token answers to the secret it was minted with.
\<close>

section \<open>Members\<close>

definition members_grow :: "staff_db \<Rightarrow> staff_db \<Rightarrow> bool" where
  "members_grow db db' \<longleftrightarrow> sd_members db' = sd_members db \<or>
     (\<exists>m. sd_members db' = sd_members db @ [m] \<and>
        (\<forall>n \<in> set (sd_members db). wsm_id n \<noteq> wsm_id m \<and> \<not> (wsm_workspace n = wsm_workspace m \<and> wsm_user n = wsm_user m)))"

lemma insert_member_grows: "insert_member i ws u role db = Inr db' \<Longrightarrow> members_grow db db'"
  using insert_member_frames [of i ws u role db db'] by (auto simp: members_grow_def)

lemma insert_workspace_frames:
  assumes "insert_workspace i slug db = Inr db'"
  shows "sd_members db' = sd_members db" "sd_assignments db' = sd_assignments db" "sd_roles db' = sd_roles db"
    "sd_tokens db' = sd_tokens db" "sd_invitations db' = sd_invitations db"
  using assms by (auto simp: insert_workspace_def split: if_splits)

lemma createWorkspace_frames:
  assumes "createWorkspace env u slug db = Inr db'"
  shows "members_grow db db'" "sd_assignments db' = sd_assignments db" "sd_roles db' = sd_roles db"
    "sd_tokens db' = sd_tokens db" "sd_invitations db' = sd_invitations db"
proof -
  obtain mid where mid: "insert_workspace (se_id env) slug db = Inr mid" "insert_member (se_role_id env) (se_id env) u None mid = Inr db'"
    using assms by (auto simp: createWorkspace_def bind_sum_Inr split: if_splits)
  note m = insert_workspace_frames [OF mid(1)] and i = insert_member_frames [OF mid(2)]
  show "members_grow db db'" using insert_member_grows [OF mid(2)] by (simp add: members_grow_def m)
  show "sd_assignments db' = sd_assignments db" "sd_roles db' = sd_roles db"
    "sd_tokens db' = sd_tokens db" "sd_invitations db' = sd_invitations db" by (simp_all add: m i)
qed

lemma enrollMember_frames:
  assumes "enrollMember env ws u role db = Inr db'"
  shows "members_grow db db'" "sd_assignments db' = sd_assignments db" "sd_roles db' = sd_roles db"
    "sd_tokens db' = sd_tokens db" "sd_invitations db' = sd_invitations db"
  using assms
  by (auto simp: enrollMember_def insert_member_grows insert_member_frames split: if_splits) (simp add: members_grow_def)

lemma addMember_frames:
  assumes "addMember env ws u db = Inr db'"
  shows "members_grow db db'" "sd_assignments db' = sd_assignments db" "sd_roles db' = sd_roles db"
    "sd_tokens db' = sd_tokens db" "sd_invitations db' = sd_invitations db"
  using assms by (auto simp: addMember_def bind_sum_Inr insert_member_grows insert_member_frames split: if_splits)

lemma deleteWorkspace_frames:
  assumes "deleteWorkspace ws db = Inr db'"
  shows "sd_members db' = sd_members db" "sd_assignments db' = sd_assignments db" "sd_roles db' = sd_roles db"
    "sd_tokens db' = sd_tokens db" "sd_invitations db' = sd_invitations db"
  using assms by (auto simp: deleteWorkspace_def bind_sum_Inr)

lemma assert_access: "assertInvitationProjectAccess access = Inr access' \<Longrightarrow> access' = access"
  by (simp add: assertInvitationProjectAccess_def split: if_splits)

lemma invite_frames:
  assumes "inviteMember sha env ws email role access db = Inr db'"
  shows "sd_members db' = sd_members db" "sd_assignments db' = sd_assignments db" "sd_roles db' = sd_roles db"
    "sd_tokens db' = sd_tokens db"
    "sd_invitations db' = sd_invitations (cancelExistingForEmail ws (trim (toLowerCase email)) db) @
       [new_invitation sha env ws (trim (toLowerCase email)) role]"
    "\<forall>r \<in> set (sd_invitations db). inv_id r \<noteq> se_id env \<and> inv_hash r \<noteq> sha (se_secret env)"
proof -
  let ?x = "new_invitation sha env ws (trim (toLowerCase email)) role" and ?c = "cancelExistingForEmail ws (trim (toLowerCase email)) db"
  let ?q = "\<lambda>db1. if isInternalEmail env (trim (toLowerCase email)) then (False, setProjectAccess (se_id env) access db1)
     else schedule_guest env (se_id env) (trim (toLowerCase email)) (Some (se_secret env)) (setProjectAccess (se_id env) access db1)"
  obtain db1 where db1: "insert_invitation ?x ?c = Inr db1"
    and rest: "db' = (if fst (?q db1) then snd (?q db1)
      else schedule_mail (se_id env) (trim (toLowerCase email)) (se_secret env) (snd (?q db1)))"
    using assms
    by (auto simp: inviteMember_def bind_sum_Inr Let_def case_prod_beta dest!: assert_access split: if_split_asm)
  have f: "sd_members db' = sd_members db1" "sd_assignments db' = sd_assignments db1" "sd_roles db' = sd_roles db1"
      "sd_tokens db' = sd_tokens db1" "sd_invitations db' = sd_invitations db1"
    unfolding rest by (simp_all add: staff_frames setProjectAccess_def)
  have g: "db1 = ?c\<lparr>sd_invitations := sd_invitations ?c @ [?x]\<rparr>"
      "\<forall>r \<in> set (sd_invitations ?c). inv_id r \<noteq> se_id env \<and> inv_hash r \<noteq> sha (se_secret env)"
    using db1 by (auto simp: insert_invitation_def new_invitation_def split: if_splits)
  show "sd_members db' = sd_members db" "sd_assignments db' = sd_assignments db" "sd_roles db' = sd_roles db"
    "sd_tokens db' = sd_tokens db" "sd_invitations db' = sd_invitations ?c @ [?x]"
    using f g(1) by (simp_all add: cancelExistingForEmail_def)
  show "\<forall>r \<in> set (sd_invitations db). inv_id r \<noteq> se_id env \<and> inv_hash r \<noteq> sha (se_secret env)"
    using g(2) by (auto simp: cancelExistingForEmail_def ball_update_where split: if_splits)
qed

lemma rotate_frames:
  assumes "rotateForResend i hash expires sent db = Inr db'"
  shows "sd_members db' = sd_members db" "sd_assignments db' = sd_assignments db" "sd_roles db' = sd_roles db"
    "sd_tokens db' = sd_tokens db" "\<forall>r \<in> set (sd_invitations db). inv_id r \<noteq> i \<longrightarrow> inv_hash r \<noteq> hash"
    "sd_invitations db' = update_where (\<lambda>r. inv_id r = i)
       (\<lambda>r. r\<lparr>inv_hash := hash, inv_expires := expires, inv_status := Invite_pending, inv_sent := sent,
              inv_resends := inv_resends r + 1\<rparr>) (sd_invitations db)"
  using assms by (auto simp: rotateForResend_def split: if_splits)

lemma resend_frames:
  assumes "resendInvitation sha env ws i db = Inr db'"
  obtains r mid where "loadRotatableInvitation db ws i = Inr r"
    "rotateForResend i (sha (se_secret env)) (se_now env + se_ttl env * MS_PER_DAY) (se_now env) db = Inr mid"
    "sd_members db' = sd_members mid" "sd_assignments db' = sd_assignments mid" "sd_roles db' = sd_roles mid"
    "sd_tokens db' = sd_tokens mid" "sd_invitations db' = sd_invitations mid"
  using assms by (auto simp: resendInvitation_def bind_sum_Inr Let_def staff_frames split: if_splits)

lemma link_steps:
  assumes "buildInvitationLink sha env ws i db = Inr db'"
  obtains r where "loadRotatableInvitation db ws i = Inr r"
    "rotateForResend i (sha (se_secret env)) (se_now env + se_ttl env * MS_PER_DAY) (inv_sent r) db = Inr db'"
  using assms by (auto simp: buildInvitationLink_def bind_sum_Inr)

lemma cancel_steps:
  assumes "cancelInvitation ws i db = Inr db'"
  obtains r where "find (\<lambda>r. inv_id r = i) (sd_invitations db) = Some r" "inv_status r = Invite_pending"
    "db' = set_invitation_status i Invite_cancelled None db"
  using assms by (auto simp: cancelInvitation_def bind_sum_Inr split: option.splits if_splits)

lemma accept_frames:
  assumes "accept_in_tx env r enrolled access u db = Inr db'"
  shows "members_grow db db'" "sd_roles db' = sd_roles db" "sd_tokens db' = sd_tokens db"
    "\<exists>xs. sd_assignments db' = sd_assignments db @ xs"
    "sd_invitations db' = sd_invitations (set_invitation_status (inv_id r) Invite_accepted (Some u) db)"
proof -
  obtain db1 db2 db3 where st: "if enrolled then db1 = db else insert_member (se_id env) (inv_workspace r) u (inv_role r) db = Inr db1"
    "grant_invited_role env r u db1 = Inr db2" "grant_all env (inv_workspace r) u access db2 = Inr db3"
    "db' = set_invitation_status (inv_id r) Invite_accepted (Some u) db3"
    by (rule accept_in_tx_steps [OF assms])
  have one: "members_grow db db1 \<and> sd_assignments db1 = sd_assignments db \<and> sd_roles db1 = sd_roles db \<and>
      sd_tokens db1 = sd_tokens db \<and> sd_invitations db1 = sd_invitations db"
    using st(1) by (auto simp: insert_member_grows insert_member_frames split: if_splits) (simp add: members_grow_def)
  note two = grant_invited_role_frames [OF st(2)] and three = grant_all_frames [OF st(3)]
  show "members_grow db db'" using one two(1) three by (simp add: members_grow_def st(4) staff_frames)
  show "sd_roles db' = sd_roles db" "sd_tokens db' = sd_tokens db" using one two three by (simp_all add: st(4) staff_frames)
  show "\<exists>xs. sd_assignments db' = sd_assignments db @ xs" using one two(6) three by (auto simp: st(4) staff_frames)
  show "sd_invitations db' = sd_invitations (set_invitation_status (inv_id r) Invite_accepted (Some u) db)"
    using one two(5) three by (simp add: st(4) set_invitation_status_def)
qed
lemma revokeAll_frames [staff_frames]:
  "sd_members (revokeMachineCredentials env ws u db) = sd_members db" "sd_roles (revokeMachineCredentials env ws u db) = sd_roles db"
  "sd_assignments (revokeMachineCredentials env ws u db) = sd_assignments db"
  "sd_invitations (revokeMachineCredentials env ws u db) = sd_invitations db"
  by (simp_all add: revokeMachineCredentials_def revokeAllForUser_def)

text \<open>What the two requests that may end a membership do.\<close>

definition member_update :: "uuid option \<Rightarrow> MemberStatus option \<Rightarrow> workspace_member \<Rightarrow> workspace_member" where
  "member_update role status r =
     r\<lparr>wsm_role := (case role of None \<Rightarrow> wsm_role r | Some x \<Rightarrow> Some x), wsm_status := (case status of None \<Rightarrow> wsm_status r | Some s \<Rightarrow> s)\<rparr>"

lemma updateMember_steps:
  assumes "updateMember env ws i role status teams (db, c) = Inr (db', c')"
  obtains m where "m \<in> set (sd_members db)" "wsm_id m = i" "wsm_workspace m = ws"
    "leaves status \<Longrightarrow> sole_admin_check db ws (wsm_user m) = Inr ()"
    "sd_members db' = update_where (\<lambda>r. wsm_id r = i) (member_update role status) (sd_members db)"
    "sd_roles db' = sd_roles db" "sd_assignments db' = sd_assignments db" "sd_invitations db' = sd_invitations db"
    "sd_tokens db' = (if leaves status then sd_tokens (revokeMachineCredentials env ws (wsm_user m) db) else sd_tokens db)"
    "c' = (if leaves status then invalidateUser (se_cache env) c ws (wsm_user m) else c)"
proof -
  obtain m where m: "find (\<lambda>m. wsm_id m = i) (sd_members db) = Some m" "wsm_workspace m = ws"
    using assms by (auto simp: updateMember_def bind_sum_Inr split: option.splits if_splits)
  then have "m \<in> set (sd_members db)" "wsm_id m = i" by (auto dest: found_row)
  moreover have "leaves status \<Longrightarrow> sole_admin_check db ws (wsm_user m) = Inr ()"
    using assms m by (auto simp: updateMember_def bind_sum_Inr)
  moreover have "sd_members db' = update_where (\<lambda>r. wsm_id r = i) (member_update role status) (sd_members db)"
      "sd_roles db' = sd_roles db" "sd_assignments db' = sd_assignments db" "sd_invitations db' = sd_invitations db"
    using assms m by (auto simp: updateMember_def bind_sum_Inr Let_def staff_frames member_update_def [abs_def] split: if_splits)
  moreover have "sd_tokens db' = (if leaves status then sd_tokens (revokeMachineCredentials env ws (wsm_user m) db) else sd_tokens db)"
      "c' = (if leaves status then invalidateUser (se_cache env) c ws (wsm_user m) else c)"
    using assms m by (auto simp: updateMember_def bind_sum_Inr Let_def revokeMachineCredentials_def revokeAllForUser_def split: if_splits)
  ultimately show thesis using that m(2) by blast
qed

lemma removeMember_steps:
  assumes "removeMember env ws u (db, c) = Inr (db', c')"
  shows "\<exists>m \<in> set (sd_members db). wsm_workspace m = ws \<and> wsm_user m = u" "sole_admin_check db ws u = Inr ()"
    "sd_members db' = update_where (\<lambda>m. wsm_workspace m = ws \<and> wsm_user m = u) (\<lambda>m. m\<lparr>wsm_status := Member_removed\<rparr>) (sd_members db)"
    "sd_roles db' = sd_roles db" "sd_assignments db' = sd_assignments db" "sd_invitations db' = sd_invitations db"
    "sd_tokens db' = sd_tokens (revokeMachineCredentials env ws u db)" "c' = invalidateUser (se_cache env) c ws u"
  using assms
  by (auto simp: removeMember_def bind_sum_Inr staff_frames findMember_def revokeMachineCredentials_def revokeAllForUser_def
      split: option.splits if_splits dest!: found_row)

fun ends_membership :: "staff_request \<Rightarrow> bool" where
  "ends_membership (Update_member _ _ _ _ _) = True"
| "ends_membership (Remove_member _ _) = True"
| "ends_membership _ = False"

lemma members_grow_refl: "sd_members db' = sd_members db \<Longrightarrow> members_grow db db'"
  by (simp add: members_grow_def)

lemma fold_drop_members: "sd_members (fold drop_assignment is db) = sd_members db \<and> sd_tokens (fold drop_assignment is db) = sd_tokens db \<and>
    sd_invitations (fold drop_assignment is db) = sd_invitations db"
  by (induction "is" arbitrary: db) (simp_all add: drop_assignment_def)

lemma elevate_frames:
  assumes "elevateToWorkspaceAdmin env u ws db = Inr db'"
  shows "sd_members db' = sd_members db" "sd_tokens db' = sd_tokens db" "sd_invitations db' = sd_invitations db"
  using assms by (auto simp: elevateToWorkspaceAdmin_def Let_def fold_drop_members split: option.splits if_splits)

lemma revoke_assignment_frames:
  assumes "revoke_assignment ws i db = Inr db'"
  shows "sd_members db' = sd_members db" "sd_tokens db' = sd_tokens db" "sd_invitations db' = sd_invitations db"
  using assms by (auto simp: revoke_assignment_def drop_assignment_def split: if_splits)

lemma mint_frames:
  assumes "mint sha env ws u days scs db = Inr (raw, db')"
  shows "sd_members db' = sd_members db" "sd_invitations db' = sd_invitations db" "sd_assignments db' = sd_assignments db"
    "sd_roles db' = sd_roles db"
    "\<exists>t. sd_tokens db' = sd_tokens db @ [t] \<and> tk_workspace t = ws \<and> tk_user t = u"
  using assms by (auto simp: mint_def bind_sum_Inr Let_def case_prod_beta split: if_splits)

lemma token_frames [staff_frames]:
  "sd_members (touch time ws i db) = sd_members db" "sd_invitations (touch time ws i db) = sd_invitations db"
  "sd_members (purge_tokens l db) = sd_members db" "sd_invitations (purge_tokens l db) = sd_invitations db"
  "sd_members (revoke_token time ws i db) = sd_members db" "sd_invitations (revoke_token time ws i db) = sd_invitations db"
  "sd_members (expire_invitations time db) = sd_members db" "sd_tokens (expire_invitations time db) = sd_tokens db"
  "sd_assignments (touch time ws i db) = sd_assignments db" "sd_roles (touch time ws i db) = sd_roles db"
  "sd_assignments (purge_tokens l db) = sd_assignments db" "sd_roles (purge_tokens l db) = sd_roles db"
  "sd_assignments (revoke_token time ws i db) = sd_assignments db" "sd_roles (revoke_token time ws i db) = sd_roles db"
  "sd_assignments (expire_invitations time db) = sd_assignments db" "sd_roles (expire_invitations time db) = sd_roles db"
  by (simp_all add: touch_def purge_tokens_def revoke_token_def expire_invitations_def)

lemma revoke_own_steps: "revokeOwn time ws u i db = Inr db' \<Longrightarrow> db' = revoke_token time ws i db"
  by (auto simp: revokeOwn_def split: option.splits if_splits)

lemma revoke_admin_steps: "revokeAsAdmin time ws i db = Inr db' \<Longrightarrow> db' = revoke_token time ws i db"
  by (auto simp: revokeAsAdmin_def split: option.splits if_splits)

lemma keep_cache_Inr: "keep_cache c r = Inr (db', c') \<longleftrightarrow> r = Inr db' \<and> c' = c"
  by (auto simp: keep_cache_def bind_sum_Inr)

lemma accept_steps:
  assumes "acceptInvitation sha others env raw u (db, c) = Inr (db', c')"
  obtains r where "accept_checks sha env raw u db = Inr r"
    "accept_in_tx env r (findMember db (inv_workspace r) u \<noteq> None)
      (filter (\<lambda>a. ia_invitation a = inv_id r) (sd_invitation_access db)) u (others db) = Inr db'"
  using assms by (auto simp: acceptInvitation_def bind_sum_Inr Let_def)

lemmas request_frames =
  createWorkspace_frames deleteWorkspace_frames enrollMember_frames addMember_frames invite_frames rotate_frames
  accept_frames elevate_frames revoke_assignment_frames grantProjectAccess_frames staff_frames

text \<open>Every other request leaves the members as they are, or adds one that was not there.\<close>

lemma perform_members:
  assumes "perform sha env q (db, c) = Inr (db', c')" and "\<not> ends_membership q"
  shows "members_grow db db'"
proof (cases q)
  case (Resend ws i)
  with assms(1) have "resendInvitation sha env ws i db = Inr db'" by (simp add: keep_cache_Inr)
  then show ?thesis by (rule resend_frames) (auto intro!: members_grow_refl simp: rotate_frames)
next
  case (Copy_link ws i)
  with assms(1) have "buildInvitationLink sha env ws i db = Inr db'" by (simp add: keep_cache_Inr)
  then show ?thesis by (rule link_steps) (auto intro!: members_grow_refl simp: rotate_frames)
next
  case (Cancel ws i)
  with assms(1) have "cancelInvitation ws i db = Inr db'" by (simp add: keep_cache_Inr)
  then show ?thesis by (rule cancel_steps) (auto intro!: members_grow_refl simp: staff_frames)
next
  case (Accept raw u)
  with assms(1) have "acceptInvitation sha (\<lambda>db. db) env raw u (db, c) = Inr (db', c')" by simp
  then show ?thesis by (rule accept_steps) (blast dest: accept_frames(1))
next
  case (Mint ws u days scs)
  with assms(1) obtain raw where "mint sha env ws u days scs db = Inr (raw, db')"
    by (cases "mint sha env ws u days scs db") (auto simp: keep_cache_Inr)
  then show ?thesis by (auto intro!: members_grow_refl simp: mint_frames)
next
  case (Revoke_own ws u i)
  with assms(1) have "db' = revoke_token (se_now env) ws i db" by (auto simp: keep_cache_Inr dest: revoke_own_steps)
  then show ?thesis by (simp add: members_grow_refl staff_frames)
next
  case (Revoke_as_admin ws i)
  with assms(1) have "db' = revoke_token (se_now env) ws i db" by (auto simp: keep_cache_Inr dest: revoke_admin_steps)
  then show ?thesis by (simp add: members_grow_refl staff_frames)
qed (use assms in \<open>auto simp: keep_cache_Inr bind_sum_Inr drop_cached_def createWorkspace_frames enrollMember_frames addMember_frames
      deleteWorkspace_frames invite_frames elevate_frames revoke_assignment_frames grantProjectAccess_frames staff_frames
      intro: members_grow_refl split: option.splits\<close>)
section \<open>Tokens\<close>

definition no_live_token :: "uuid \<Rightarrow> uuid \<Rightarrow> staff_db \<Rightarrow> bool" where
  "no_live_token ws u db \<longleftrightarrow> (\<forall>t \<in> set (sd_tokens db). tk_workspace t = ws \<and> tk_user t = u \<longrightarrow> tk_revoked t \<noteq> None)"

fun mints_for :: "uuid \<Rightarrow> uuid \<Rightarrow> staff_request \<Rightarrow> bool" where
  "mints_for ws u (Mint ws' u' _ _) \<longleftrightarrow> ws' = ws \<and> u' = u"
| "mints_for ws u _ \<longleftrightarrow> False"

lemma no_live_same: "sd_tokens db' = sd_tokens db \<Longrightarrow> no_live_token ws u db \<Longrightarrow> no_live_token ws u db'"
  by (simp add: no_live_token_def)

lemma no_live_token_updates:
  "no_live_token ws u db \<Longrightarrow> no_live_token ws u (touch time ws' i db)"
  "no_live_token ws u db \<Longrightarrow> no_live_token ws u (revoke_token time ws' i db)"
  "no_live_token ws u db \<Longrightarrow> no_live_token ws u (purge_tokens l db)"
  "no_live_token ws u db \<Longrightarrow> no_live_token ws u (revokeMachineCredentials env ws' u' db)"
  by (auto simp: no_live_token_def touch_def revoke_token_def purge_tokens_def revokeMachineCredentials_def revokeAllForUser_def
      ball_update_where)

lemma revoked_none_live: "se_tokens env \<Longrightarrow> no_live_token ws u (revokeMachineCredentials env ws u db)"
  by (auto simp: no_live_token_def revokeMachineCredentials_def revokeAllForUser_def ball_update_where)

lemma perform_tokens:
  assumes "perform sha env q (db, c) = Inr (db', c')" and "\<not> mints_for ws u q" and "no_live_token ws u db"
  shows "no_live_token ws u db'"
proof (cases q)
  case (Update_member ws' i role status teams)
  with assms(1) have "updateMember env ws' i role status teams (db, c) = Inr (db', c')" by simp
  then obtain m :: workspace_member where "sd_tokens db' = (if leaves status then sd_tokens (revokeMachineCredentials env ws' (wsm_user m) db) else sd_tokens db)"
    by (rule updateMember_steps) blast
  then show ?thesis by (cases "leaves status") (auto intro: no_live_same [OF _ assms(3)] no_live_same [OF _ no_live_token_updates(4) [OF assms(3)]])
next
  case (Remove_member ws' u')
  with assms(1) have "removeMember env ws' u' (db, c) = Inr (db', c')" by simp
  from removeMember_steps(7) [OF this] show ?thesis by (rule no_live_same) (rule no_live_token_updates(4) [OF assms(3)])
next
  case (Resend ws i)
  with assms(1) have "resendInvitation sha env ws i db = Inr db'" by (simp add: keep_cache_Inr)
  then show ?thesis by (rule resend_frames) (use assms(3) in \<open>auto intro: no_live_same simp: rotate_frames\<close>)
next
  case (Copy_link ws i)
  with assms(1) have "buildInvitationLink sha env ws i db = Inr db'" by (simp add: keep_cache_Inr)
  then show ?thesis by (rule link_steps) (use assms(3) in \<open>auto intro: no_live_same simp: rotate_frames\<close>)
next
  case (Cancel ws i)
  with assms(1) have "cancelInvitation ws i db = Inr db'" by (simp add: keep_cache_Inr)
  then show ?thesis by (rule cancel_steps) (use assms(3) in \<open>auto intro: no_live_same simp: staff_frames\<close>)
next
  case (Accept raw u')
  with assms(1) have "acceptInvitation sha (\<lambda>db. db) env raw u' (db, c) = Inr (db', c')" by simp
  then show ?thesis by (rule accept_steps) (use assms(3) in \<open>blast intro: no_live_same dest: accept_frames(3)\<close>)
next
  case (Mint ws' u' days scs)
  with assms(1) obtain raw where "mint sha env ws' u' days scs db = Inr (raw, db')"
    by (cases "mint sha env ws' u' days scs db") (auto simp: keep_cache_Inr)
  from mint_frames(5) [OF this] Mint assms(2,3) show ?thesis by (auto simp: no_live_token_def)
next
  case (Revoke_own ws' u' i)
  with assms(1) have "db' = revoke_token (se_now env) ws' i db" by (auto simp: keep_cache_Inr dest: revoke_own_steps)
  then show ?thesis using assms(3) by (simp add: no_live_token_updates)
next
  case (Revoke_as_admin ws' i)
  with assms(1) have "db' = revoke_token (se_now env) ws' i db" by (auto simp: keep_cache_Inr dest: revoke_admin_steps)
  then show ?thesis using assms(3) by (simp add: no_live_token_updates)
qed (use assms in \<open>auto simp: keep_cache_Inr bind_sum_Inr drop_cached_def createWorkspace_frames enrollMember_frames addMember_frames
      deleteWorkspace_frames invite_frames elevate_frames revoke_assignment_frames grantProjectAccess_frames staff_frames no_live_token_updates
      intro: no_live_same split: option.splits\<close>)

section \<open>Whoever leaves stays out\<close>

definition rows_of_member :: "uuid \<Rightarrow> uuid \<Rightarrow> staff_db \<Rightarrow> uuid set" where
  "rows_of_member ws u db = wsm_id ` {m \<in> set (sd_members db). wsm_workspace m = ws \<and> wsm_user m = u}"

definition member_out :: "uuid set \<Rightarrow> uuid \<Rightarrow> uuid \<Rightarrow> staff_db \<Rightarrow> bool" where
  "member_out ids ws u db \<longleftrightarrow> ids \<noteq> {} \<and> rows_of_member ws u db = ids \<and>
     (\<forall>m \<in> set (sd_members db). wsm_id m \<in> ids \<longrightarrow> wsm_workspace m = ws \<and> wsm_user m = u \<and> wsm_status m \<noteq> Member_active)"

lemma member_out_inactive: "member_out ids ws u db \<Longrightarrow> \<not> active_member (access_view db) ws u"
  by (auto simp: member_out_def active_view rows_of_member_def)

fun reactivates :: "uuid set \<Rightarrow> staff_request \<Rightarrow> bool" where
  "reactivates ids (Update_member _ i _ status _) \<longleftrightarrow> i \<in> ids \<and> status = Some Member_active"
| "reactivates ids _ \<longleftrightarrow> False"

lemma member_out_grow:
  assumes "members_grow db db'" and "member_out ids ws u db"
  shows "member_out ids ws u db'"
proof (cases "sd_members db' = sd_members db")
  case True
  with assms(2) show ?thesis by (simp add: member_out_def rows_of_member_def)
next
  case False
  with assms(1) obtain m where m: "sd_members db' = sd_members db @ [m]"
      "\<And>n. n \<in> set (sd_members db) \<Longrightarrow> wsm_id n \<noteq> wsm_id m"
      "\<And>n. n \<in> set (sd_members db) \<Longrightarrow> \<not> (wsm_workspace n = wsm_workspace m \<and> wsm_user n = wsm_user m)"
    unfolding members_grow_def by blast
  obtain n where "n \<in> set (sd_members db)" "wsm_workspace n = ws" "wsm_user n = u"
    using assms(2) by (auto simp: member_out_def rows_of_member_def)
  with m(3) have other: "\<not> (wsm_workspace m = ws \<and> wsm_user m = u)" by metis
  then have "rows_of_member ws u db' = rows_of_member ws u db" unfolding rows_of_member_def m(1) by auto
  moreover have "wsm_id m \<notin> rows_of_member ws u db" using m(2) by (auto simp: rows_of_member_def) metis
  ultimately show ?thesis using assms(2) unfolding member_out_def m(1) by auto
qed

lemma member_out_update:
  assumes "sd_members db' = update_where p f (sd_members db)" and "member_out ids ws u db"
    and f: "\<And>m. wsm_id (f m) = wsm_id m \<and> wsm_workspace (f m) = wsm_workspace m \<and> wsm_user (f m) = wsm_user m"
    and s: "\<And>m. m \<in> set (sd_members db) \<Longrightarrow> p m \<Longrightarrow> wsm_id m \<in> ids \<Longrightarrow> wsm_status m \<noteq> Member_active \<Longrightarrow> wsm_status (f m) \<noteq> Member_active"
  shows "member_out ids ws u db'"
proof -
  have "rows_of_member ws u db' = rows_of_member ws u db"
    unfolding rows_of_member_def assms(1) using f by (auto simp: in_update_where image_iff) metis+
  then show ?thesis using assms(2) s f unfolding member_out_def assms(1) by (auto simp: ball_update_where)
qed

lemma perform_keeps_out:
  assumes "perform sha env q (db, c) = Inr (db', c')" and "\<not> reactivates ids q" and "member_out ids ws u db"
  shows "member_out ids ws u db'"
proof (cases "ends_membership q")
  case False
  with assms show ?thesis by (blast intro: member_out_grow perform_members)
next
  case True
  then consider ws' i role status teams where "q = Update_member ws' i role status teams" | ws' u' where "q = Remove_member ws' u'"
    by (cases q) auto
  then show ?thesis
  proof cases
    case 1
    with assms(1) have "updateMember env ws' i role status teams (db, c) = Inr (db', c')" by simp
    then have "sd_members db' = update_where (\<lambda>r. wsm_id r = i) (member_update role status) (sd_members db)"
      by (rule updateMember_steps)
    then show ?thesis
      by (rule member_out_update [OF _ assms(3)]) (use assms(2) 1 in \<open>auto simp: member_update_def split: option.splits\<close>)
  next
    case 2
    with assms(1) have "removeMember env ws' u' (db, c) = Inr (db', c')" by simp
    from removeMember_steps(3) [OF this] assms(3) show ?thesis by (rule member_out_update) auto
  qed
qed
text \<open>The requests that end the membership of \<open>u\<close>.\<close>

fun departs :: "staff_db \<Rightarrow> uuid \<Rightarrow> uuid \<Rightarrow> staff_request \<Rightarrow> bool" where
  "departs db ws u (Remove_member ws' u') \<longleftrightarrow> ws' = ws \<and> u' = u"
| "departs db ws u (Update_member ws' i _ status _) \<longleftrightarrow>
     ws' = ws \<and> leaves status \<and> (\<exists>m \<in> set (sd_members db). wsm_id m = i \<and> wsm_user m = u)"
| "departs db ws u _ \<longleftrightarrow> False"

definition members_unique :: "staff_db \<Rightarrow> bool" where
  "members_unique db \<longleftrightarrow> distinct (map wsm_id (sd_members db)) \<and>
     distinct (map (\<lambda>m. (wsm_workspace m, wsm_user m)) (sd_members db))"

lemma members_unique_id: "members_unique db \<Longrightarrow> m \<in> set (sd_members db) \<Longrightarrow> n \<in> set (sd_members db) \<Longrightarrow> wsm_id m = wsm_id n \<Longrightarrow> m = n"
  by (rule inj_onD [of wsm_id "set (sd_members db)"]) (simp_all add: members_unique_def distinct_map)

lemma members_unique_user:
  "members_unique db \<Longrightarrow> m \<in> set (sd_members db) \<Longrightarrow> n \<in> set (sd_members db) \<Longrightarrow> wsm_workspace m = wsm_workspace n \<Longrightarrow>
   wsm_user m = wsm_user n \<Longrightarrow> m = n"
  by (rule inj_onD [of "\<lambda>m. (wsm_workspace m, wsm_user m)" "set (sd_members db)"]) (simp_all add: members_unique_def distinct_map)

lemma departure_takes_effect:
  assumes "perform sha env q (db, c) = Inr (db', c')" and "departs db ws u q" and "members_unique db"
  shows "member_out (rows_of_member ws u db) ws u db' \<and> (se_tokens env \<longrightarrow> no_live_token ws u db') \<and> (se_cache env \<longrightarrow> c' (ws, u) = None)"
proof -
  have out: "member_out (rows_of_member ws u db) ws u db'"
    if upd: "sd_members db' = update_where p f (sd_members db)" and m: "m \<in> set (sd_members db)" "wsm_workspace m = ws" "wsm_user m = u"
      and p: "\<And>n. n \<in> set (sd_members db) \<Longrightarrow> p n \<longleftrightarrow> n = m"
      and f: "\<And>n. wsm_id (f n) = wsm_id n \<and> wsm_workspace (f n) = wsm_workspace n \<and> wsm_user (f n) = wsm_user n"
      and s: "wsm_status (f m) \<noteq> Member_active" for p f m
  proof -
    have "rows_of_member ws u db' = rows_of_member ws u db"
      unfolding rows_of_member_def upd using f by (auto simp: in_update_where image_iff) metis+
    moreover have "wsm_id n = wsm_id m \<Longrightarrow> n \<in> set (sd_members db) \<Longrightarrow> n = m" for n using members_unique_id assms(3) m(1) by blast
    moreover have "rows_of_member ws u db = {wsm_id m}"
      using m members_unique_user [OF assms(3)] by (auto simp: rows_of_member_def)
    moreover have "(if p n then f n else n) = (if n = m then f m else n)" if "n \<in> set (sd_members db)" for n using p [OF that] by simp
    ultimately show ?thesis unfolding member_out_def upd ball_update_where using f s m by auto
  qed
  consider ws' i role status teams where "q = Update_member ws' i role status teams" | ws' u' where "q = Remove_member ws' u'"
    using assms(2) by (cases q) auto
  then show ?thesis
  proof cases
    case 1
    with assms(1) have "updateMember env ws' i role status teams (db, c) = Inr (db', c')" by simp
    then obtain m where m: "m \<in> set (sd_members db)" "wsm_id m = i" "wsm_workspace m = ws'"
      "sd_members db' = update_where (\<lambda>r. wsm_id r = i) (member_update role status) (sd_members db)"
      "sd_tokens db' = (if leaves status then sd_tokens (revokeMachineCredentials env ws' (wsm_user m) db) else sd_tokens db)"
      "c' = (if leaves status then invalidateUser (se_cache env) c ws' (wsm_user m) else c)" by (rule updateMember_steps)
    from assms(2) 1 have d: "ws' = ws" "leaves status" "wsm_user m = u"
      using members_unique_id [OF assms(3) m(1)] m(2) by (auto, metis)
    have pid: "wsm_id n = i \<longleftrightarrow> n = m" if "n \<in> set (sd_members db)" for n
      using members_unique_id [OF assms(3) that m(1)] m(2) by auto
    have "wsm_status (member_update role status m) \<noteq> Member_active"
      using d(2) by (auto simp: member_update_def leaves_def)
    moreover have "wsm_workspace m = ws" using m(3) d(1) by simp
    ultimately have "member_out (rows_of_member ws u db) ws u db'"
      using d(3) by (intro out [OF m(4) m(1)]) (simp_all add: pid member_update_def)
    moreover have "no_live_token ws u db'" if "se_tokens env"
      by (rule no_live_same [OF _ revoked_none_live [OF that]]) (use m(5) d in simp)
    ultimately show ?thesis using m(6) d by (simp add: invalidateUser_def)
  next
    case 2
    with assms(1,2) have r: "removeMember env ws u (db, c) = Inr (db', c')" by simp
    note steps = removeMember_steps [OF r]
    from steps(1) obtain m where m: "m \<in> set (sd_members db)" "wsm_workspace m = ws" "wsm_user m = u" by blast
    have "member_out (rows_of_member ws u db) ws u db'"
      by (rule out [OF steps(3) m]) (use m members_unique_user [OF assms(3)] in auto)
    moreover have "no_live_token ws u db'" if "se_tokens env" by (rule no_live_same [OF steps(7) revoked_none_live [OF that]])
    ultimately show ?thesis using steps(8) by (simp add: invalidateUser_def)
  qed
qed

lemma run_keeps_out:
  assumes "member_out ids ws u (fst s)" and "\<And>e q. (e, q) \<in> set qs \<Longrightarrow> \<not> reactivates ids q"
  shows "member_out ids ws u (fst (staff_run sha qs s))"
  using assms
proof (induction qs arbitrary: s)
  case (Cons x qs)
  obtain e q where x: "x = (e, q)" by (cases x)
  have step: "member_out ids ws u (fst (staff_step sha x s))"
  proof (cases "perform sha e q s")
    case (Inr s')
    moreover have "\<not> reactivates ids q" using Cons.prems(2) x by auto
    ultimately show ?thesis using Cons.prems(1) x perform_keeps_out
      by (cases s; cases s') (fastforce simp: staff_step_def)
  qed (use Cons.prems x in \<open>simp add: staff_step_def\<close>)
  have "staff_run sha (x # qs) s = staff_run sha qs (staff_step sha x s)" by (simp add: staff_run_def)
  moreover have "\<not> reactivates ids q" if "(e, q) \<in> set qs" for e q using Cons.prems(2) that by auto
  ultimately show ?case using Cons.IH [of "staff_step sha x s"] step by presburger
qed (simp add: staff_run_def)

lemma run_keeps_dead:
  assumes "no_live_token ws u (fst s)" and "\<And>e q. (e, q) \<in> set qs \<Longrightarrow> \<not> mints_for ws u q"
  shows "no_live_token ws u (fst (staff_run sha qs s))"
  using assms
proof (induction qs arbitrary: s)
  case (Cons x qs)
  obtain e q where x: "x = (e, q)" by (cases x)
  have step: "no_live_token ws u (fst (staff_step sha x s))"
  proof (cases "perform sha e q s")
    case (Inr s')
    moreover have "\<not> mints_for ws u q" using Cons.prems(2) x by auto
    ultimately show ?thesis using Cons.prems(1) x perform_tokens
      by (cases s; cases s') (fastforce simp: staff_step_def)
  qed (use Cons.prems x in \<open>simp add: staff_step_def\<close>)
  have "staff_run sha (x # qs) s = staff_run sha qs (staff_step sha x s)" by (simp add: staff_run_def)
  moreover have "\<not> mints_for ws u q" if "(e, q) \<in> set qs" for e q using Cons.prems(2) that by auto
  ultimately show ?case using Cons.IH [of "staff_step sha x s"] step by presburger
qed (simp add: staff_run_def)

lemma verify_live: "verify sha time raw db = Some t \<Longrightarrow> t \<in> set (sd_tokens db) \<and> tk_revoked t = None \<and> time < tk_expires t \<and> tk_hash t = sha raw"
  by (auto simp: verify_def findLiveByPrefix_def hashesMatch_def split: option.splits if_splits dest!: found_row)

lemma no_live_verify: "no_live_token ws u db \<Longrightarrow> verify sha time raw db = Some t \<Longrightarrow> \<not> (tk_workspace t = ws \<and> tk_user t = u)"
  using verify_live [of sha time raw db t] by (auto simp: no_live_token_def)

text \<open>C7: once a membership is suspended or removed, the tables give the user no permission in that workspace, and
  that stays so through any further requests, invitations and their acceptance, grants, roles and tokens
  included, until an update makes the row active again, whatever becomes of the revocation of the user's
  tokens. When that revocation, which is best effort, succeeds and nobody mints a token for the user
  afterwards, no token of the user in the workspace works either; and when the cache is reached the cached
  permissions are gone.\<close>

theorem departed_stays_out:
  assumes "perform sha env q (db, c) = Inr (db', c')" and "departs db ws u q"
    and "members_unique db" and "\<forall>x \<in> set qs. \<not> reactivates (rows_of_member ws u db) (snd x)"
  shows "assignments_from_db (access_view (fst (staff_run sha qs (db', c')))) ws u = [] \<and>
    (se_tokens env \<and> (\<forall>x \<in> set qs. \<not> mints_for ws u (snd x)) \<longrightarrow>
      (\<forall>time raw t. verify sha time raw (fst (staff_run sha qs (db', c'))) = Some t \<longrightarrow> \<not> (tk_workspace t = ws \<and> tk_user t = u))) \<and>
    (se_cache env \<longrightarrow> c' (ws, u) = None)"
proof -
  note effect = departure_takes_effect [OF assms(1-3)]
  have "member_out (rows_of_member ws u db) ws u (fst (staff_run sha qs (db', c')))"
    by (rule run_keeps_out) (use effect assms(4) in auto)
  then have "assignments_from_db (access_view (fst (staff_run sha qs (db', c')))) ws u = []"
    by (intro inactive_no_assignments member_out_inactive)
  moreover have "no_live_token ws u (fst (staff_run sha qs (db', c')))" if "se_tokens env" "\<forall>x \<in> set qs. \<not> mints_for ws u (snd x)"
    by (rule run_keeps_dead) (use effect that in auto)
  ultimately show ?thesis using effect
    using no_live_verify [of ws u "fst (staff_run sha qs (db', c'))" sha] by blast
qed

end
