(* ===== verification/WorkspaceCases.thy ===== *)
theory WorkspaceCases
  imports WorkspaceRuns
begin

text \<open>
  The life of an invitation link, the last administrator and the machine tokens; then the laws of the
  memberships on a concrete workspace.
\<close>

section \<open>A link works once\<close>

definition invites_unique :: "staff_db \<Rightarrow> bool" where
  "invites_unique db \<longleftrightarrow> distinct (map inv_id (sd_invitations db)) \<and> distinct (map inv_hash (sd_invitations db))"

definition redeemed :: "string \<Rightarrow> staff_db \<Rightarrow> bool" where
  "redeemed h db \<longleftrightarrow> (\<exists>r \<in> set (sd_invitations db). inv_hash r = h \<and> inv_status r = Invite_accepted)"

definition links_kept :: "staff_db \<Rightarrow> staff_db \<Rightarrow> bool" where
  "links_kept db db' \<longleftrightarrow> (invites_unique db \<longrightarrow> invites_unique db' \<and> (\<forall>h. redeemed h db \<longrightarrow> redeemed h db'))"

lemma links_same: "sd_invitations db' = sd_invitations db \<Longrightarrow> links_kept db db'"
  by (simp add: links_kept_def invites_unique_def redeemed_def)

lemma links_trans: "links_kept a b \<Longrightarrow> links_kept b c \<Longrightarrow> links_kept a c"
  by (auto simp: links_kept_def)

lemma links_update:
  assumes "sd_invitations db' = update_where p f (sd_invitations db)"
    and "\<And>r. inv_id (f r) = inv_id r \<and> inv_hash (f r) = inv_hash r"
    and "\<And>r. r \<in> set (sd_invitations db) \<Longrightarrow> invites_unique db \<Longrightarrow> p r \<Longrightarrow> inv_status r = Invite_accepted \<Longrightarrow> inv_status (f r) = Invite_accepted"
  shows "links_kept db db'"
proof -
  have "invites_unique db' = invites_unique db"
    using assms(2) by (simp add: invites_unique_def assms(1) map_update_where)
  moreover have "redeemed h db'" if "redeemed h db" "invites_unique db" for h
  proof -
    from that(1) obtain r where r: "r \<in> set (sd_invitations db)" "inv_hash r = h" "inv_status r = Invite_accepted"
      by (auto simp: redeemed_def)
    let ?r = "if p r then f r else r"
    have "?r \<in> set (sd_invitations db')" unfolding assms(1) in_update_where using r(1) by blast
    moreover have "inv_hash ?r = h \<and> inv_status ?r = Invite_accepted" using r assms(2) assms(3) [OF r(1) that(2)] by simp
    ultimately show ?thesis unfolding redeemed_def by blast
  qed
  ultimately show ?thesis by (simp add: links_kept_def)
qed

lemma invites_unique_id:
  "invites_unique db \<Longrightarrow> r \<in> set (sd_invitations db) \<Longrightarrow> r' \<in> set (sd_invitations db) \<Longrightarrow> inv_id r = inv_id r' \<Longrightarrow> r = r'"
  by (rule inj_onD [of inv_id "set (sd_invitations db)"]) (simp_all add: invites_unique_def distinct_map)

lemma invites_unique_hash:
  "invites_unique db \<Longrightarrow> r \<in> set (sd_invitations db) \<Longrightarrow> r' \<in> set (sd_invitations db) \<Longrightarrow> inv_hash r = inv_hash r' \<Longrightarrow> r = r'"
  by (rule inj_onD [of inv_hash "set (sd_invitations db)"]) (simp_all add: invites_unique_def distinct_map)

lemma links_status:
  assumes r: "r \<in> set (sd_invitations db)" "inv_status r \<noteq> Invite_accepted"
    and eq: "sd_invitations db' = sd_invitations (set_invitation_status (inv_id r) status acceptedBy db)"
  shows "links_kept db db'"
  by (rule links_update [OF eq [unfolded set_invitation_status_def, simplified]])
    (use invites_unique_id [OF _ _ r(1)] r(2) in auto)

lemma rotatable: "loadRotatableInvitation db ws i = Inr r \<Longrightarrow> r \<in> set (sd_invitations db) \<and> inv_id r = i \<and> inv_status r \<noteq> Invite_accepted"
  by (auto simp: loadRotatableInvitation_def split: option.splits if_splits dest!: found_row)

lemma links_rotate:
  assumes "loadRotatableInvitation db ws i = Inr r" and "rotateForResend i hash expires sent db = Inr db'"
  shows "links_kept db db'"
  unfolding links_kept_def
proof (intro impI conjI allI)
  assume u: "invites_unique db"
  note f = rotate_frames [OF assms(2)] and r = rotatable [OF assms(1)]
  have ids: "map inv_id (sd_invitations db') = map inv_id (sd_invitations db)"
    unfolding f(6) by (rule map_update_where) simp
  have "inj_on inv_hash (set (sd_invitations db'))"
  proof (rule inj_onI)
    let ?F = "\<lambda>r. r\<lparr>inv_hash := hash, inv_expires := expires, inv_status := Invite_pending, inv_sent := sent,
       inv_resends := inv_resends r + 1\<rparr>"
    fix x y assume "x \<in> set (sd_invitations db')" "y \<in> set (sd_invitations db')" and eq: "inv_hash x = inv_hash y"
    then obtain x0 y0 where o: "x0 \<in> set (sd_invitations db)" "y0 \<in> set (sd_invitations db)"
      and x: "x = (if inv_id x0 = i then ?F x0 else x0)" and y: "y = (if inv_id y0 = i then ?F y0 else y0)"
      unfolding f(6) in_update_where by blast
    have "inv_id x0 = inv_id y0"
    proof (cases "inv_id x0 = i"; cases "inv_id y0 = i")
      assume "inv_id x0 \<noteq> i" "inv_id y0 \<noteq> i"
      with o eq x y have "x0 = y0" by (intro invites_unique_hash [OF u]) simp_all
      then show ?thesis by simp
    qed (use o x y eq f(5) in auto)
    with invites_unique_id [OF u o] x y show "x = y" by simp
  qed
  moreover have "distinct (sd_invitations db')"
    using u ids by (metis distinct_map invites_unique_def)
  ultimately show "invites_unique db'" using u ids by (simp add: invites_unique_def distinct_map)
  fix h assume "redeemed h db"
  then obtain x where x: "x \<in> set (sd_invitations db)" "inv_hash x = h" "inv_status x = Invite_accepted" by (auto simp: redeemed_def)
  with r have "inv_id x \<noteq> i" using invites_unique_id [OF u, of x r] by auto
  with x have "x \<in> set (sd_invitations db')" unfolding f(6) in_update_where by force
  with x show "redeemed h db'" by (auto simp: redeemed_def)
qed

lemma links_cancel: "links_kept db (cancelExistingForEmail ws email db)"
proof -
  have "sd_invitations (cancelExistingForEmail ws email db) =
      update_where (\<lambda>r. inv_workspace r = ws \<and> inv_email r = email \<and> inv_status r = Invite_pending)
        (\<lambda>r. r\<lparr>inv_status := Invite_cancelled\<rparr>) (sd_invitations db)" by (simp add: cancelExistingForEmail_def)
  then show ?thesis by (rule links_update) auto
qed

lemma links_invite:
  assumes "inviteMember sha env ws email role access db = Inr db'"
  shows "links_kept db db'"
proof (rule links_trans [OF links_cancel])
  let ?c = "cancelExistingForEmail ws (trim (toLowerCase email)) db"
  note f = invite_frames [OF assms]
  have "\<forall>r \<in> set (sd_invitations ?c). inv_id r \<noteq> se_id env \<and> inv_hash r \<noteq> sha (se_secret env)"
    using f(6) by (auto simp: cancelExistingForEmail_def ball_update_where)
  then show "links_kept ?c db'"
    by (auto simp: links_kept_def invites_unique_def redeemed_def f(5) new_invitation_def)
qed
lemma links_accept:
  assumes "acceptInvitation sha (\<lambda>db. db) env raw u (db, c) = Inr (db', c')"
  shows "links_kept db db'" and "redeemed (sha raw) db'"
proof -
  obtain r where r: "accept_checks sha env raw u db = Inr r"
    and tx: "accept_in_tx env r (findMember db (inv_workspace r) u \<noteq> None)
      (filter (\<lambda>a. ia_invitation a = inv_id r) (sd_invitation_access db)) u db = Inr db'"
    by (rule accept_steps [OF assms])
  note f = accept_frames(5) [OF tx] and ok = accept_checks_Inr [OF r]
  show "links_kept db db'" by (rule links_status [OF ok(1) _ f]) (simp add: ok)
  have "r\<lparr>inv_status := Invite_accepted, inv_accepted_by := Some u\<rparr> \<in> set (sd_invitations db')"
    unfolding f set_invitation_status_def by (simp add: in_update_where) (use ok(1) in force)
  then show "redeemed (sha raw) db'" unfolding redeemed_def by (rule bexI [rotated]) (simp add: ok)
qed

lemma perform_links:
  assumes "perform sha env q (db, c) = Inr (db', c')"
  shows "links_kept db db'"
proof (cases q)
  case (Update_member ws' i role status teams)
  with assms have "updateMember env ws' i role status teams (db, c) = Inr (db', c')" by simp
  then show ?thesis by (rule updateMember_steps) (rule links_same)
next
  case (Remove_member ws' u')
  with assms have "removeMember env ws' u' (db, c) = Inr (db', c')" by simp
  from removeMember_steps(6) [OF this] show ?thesis by (rule links_same)
next
  case (Invite ws email role access)
  with assms show ?thesis by (auto simp: keep_cache_Inr intro: links_invite)
next
  case (Resend ws i)
  with assms have "resendInvitation sha env ws i db = Inr db'" by (simp add: keep_cache_Inr)
  then show ?thesis by (rule resend_frames) (rule links_trans [OF links_rotate links_same])
next
  case (Copy_link ws i)
  with assms have "buildInvitationLink sha env ws i db = Inr db'" by (simp add: keep_cache_Inr)
  then show ?thesis by (rule link_steps) (rule links_rotate)
next
  case (Cancel ws i)
  with assms have "cancelInvitation ws i db = Inr db'" by (simp add: keep_cache_Inr)
  then show ?thesis by (rule cancel_steps) (rule links_status, auto dest: found_row)
next
  case (Accept raw u')
  with assms show ?thesis by (auto intro: links_accept(1))
next
  case Expire
  have "links_kept db (expire_invitations (se_now env) db)"
    by (rule links_update [where p = "\<lambda>r. inv_status r = Invite_pending \<and> inv_expires r < se_now env"
          and f = "\<lambda>r. r\<lparr>inv_status := Invite_expired\<rparr>"]) (auto simp: expire_invitations_def)
  with assms Expire show ?thesis by simp
next
  case (Settle_guest i oid)
  have "links_kept db (settle_guest sha i oid db)"
    using settle_invitations [of sha i oid db]
  proof
    assume "\<exists>g. sd_invitations (settle_guest sha i oid db) =
      update_where (\<lambda>r. inv_id r = i) (\<lambda>r. r\<lparr>inv_guest := Some g\<rparr>) (sd_invitations db)"
    then obtain g where "sd_invitations (settle_guest sha i oid db) =
      update_where (\<lambda>r. inv_id r = i) (\<lambda>r. r\<lparr>inv_guest := Some g\<rparr>) (sd_invitations db)" by blast
    then show ?thesis by (rule links_update) auto
  qed (rule links_same)
  with assms Settle_guest show ?thesis by simp
next
  case (Mint ws' u' days scs)
  with assms obtain raw where "mint sha env ws' u' days scs db = Inr (raw, db')"
    by (cases "mint sha env ws' u' days scs db") (auto simp: keep_cache_Inr)
  then show ?thesis by (simp add: links_same mint_frames)
next
  case (Revoke_own ws' u' i)
  with assms have "db' = revoke_token (se_now env) ws' i db" by (auto simp: keep_cache_Inr dest: revoke_own_steps)
  then show ?thesis by (simp add: links_same staff_frames)
next
  case (Revoke_as_admin ws' i)
  with assms have "db' = revoke_token (se_now env) ws' i db" by (auto simp: keep_cache_Inr dest: revoke_admin_steps)
  then show ?thesis by (simp add: links_same staff_frames)
qed (use assms in \<open>auto simp: keep_cache_Inr bind_sum_Inr drop_cached_def createWorkspace_frames enrollMember_frames addMember_frames
      deleteWorkspace_frames elevate_frames revoke_assignment_frames grantProjectAccess_frames staff_frames
      intro: links_same split: option.splits\<close>)

lemma run_links: "links_kept (fst s) (fst (staff_run sha qs s))"
proof (induction qs arbitrary: s)
  case (Cons x qs)
  have "links_kept (fst s) (fst (staff_step sha x s))"
  proof (cases "perform sha (fst x) (snd x) s")
    case (Inr s')
    then show ?thesis by (cases s; cases s') (simp add: staff_step_def perform_links)
  qed (simp add: staff_step_def links_same)
  with Cons.IH [of "staff_step sha x s"] show ?case by (simp add: staff_run_def) (rule links_trans)
qed (simp add: staff_run_def links_same)

lemma redeemed_refused:
  assumes "invites_unique db" and "redeemed (sha raw) db"
  shows "acceptInvitation sha others env raw u (db, c) = Inl (PreconditionFailed ''INVITATION_ALREADY_USED'')"
proof -
  obtain r where r: "r \<in> set (sd_invitations db)" "inv_hash r = sha raw" "inv_status r = Invite_accepted"
    using assms(2) by (auto simp: redeemed_def)
  then obtain r' where f: "find (\<lambda>r. inv_hash r = sha raw) (sd_invitations db) = Some r'"
    by (cases "find (\<lambda>r. inv_hash r = sha raw) (sd_invitations db)") (auto simp: find_None_iff)
  with found_row [OF f] r have "r' = r" by (intro invites_unique_hash [OF assms(1)]) simp_all
  with f r(3) show ?thesis by (simp add: acceptInvitation_def accept_checks_def)
qed

text \<open>C10: an invitation link works once. After its acceptance every further attempt with that link, by anyone
  and after any requests (resending, copying, cancelling, inviting again), is refused as used.\<close>

theorem link_works_once:
  assumes "invites_unique db"
    and "acceptInvitation sha (\<lambda>db. db) env raw u (db, c) = Inr s"
  shows "acceptInvitation sha others env' raw u' (staff_run sha qs s) = Inl (PreconditionFailed ''INVITATION_ALREADY_USED'')"
proof -
  obtain db' c' where s: "s = (db', c')" by (cases s)
  note kept = links_accept [OF assms(2) [unfolded s]]
  have "invites_unique db'" using kept(1) assms(1) by (simp add: links_kept_def)
  with run_links [of s sha qs] kept(2) s
  have "invites_unique (fst (staff_run sha qs s)) \<and> redeemed (sha raw) (fst (staff_run sha qs s))" by (simp add: links_kept_def)
  then show ?thesis by (cases "staff_run sha qs s") (simp add: redeemed_refused)
qed

section \<open>The last administrator\<close>

lemma in_admin_rows:
  "(m, r) \<in> set (admin_rows db ws) \<longleftrightarrow> m \<in> set (sd_members db) \<and> r \<in> set (roleRows (access_view db)) \<and> wsm_workspace m = ws \<and>
     wsm_status m = Member_active \<and> ra_user r = wsm_user m \<and> ra_workspace r = ws \<and> ra_scopeType r = Workspace \<and>
     ra_slug r = role_slug WORKSPACE_ADMIN"
  by (auto simp: admin_rows_def)

lemma admin_rows_iff: "isWorkspaceAdmin (access_view db) ws u \<longleftrightarrow> (\<exists>m r. (m, r) \<in> set (admin_rows db ws) \<and> wsm_user m = u)"
  by (fastforce simp: in_admin_rows isWorkspaceAdmin_def active_view)

lemma isActiveAdmin_iff: "isActiveAdmin db ws u \<longleftrightarrow> isWorkspaceAdmin (access_view db) ws u"
  by (auto simp: isActiveAdmin_def admin_rows_iff filter_empty_conv)

text \<open>With one row per administrator the count is the number of administrators.\<close>

lemma another_admin:
  assumes "sole_admin_check db ws u = Inr ()" and "distinct (map (\<lambda>x. wsm_user (fst x)) (admin_rows db ws))"
    and "isWorkspaceAdmin (access_view db) ws u0"
  obtains m r where "(m, r) \<in> set (admin_rows db ws)" "wsm_user m \<noteq> u"
proof (cases "isActiveAdmin db ws u")
  case True
  with assms(1) have n: "1 < length (admin_rows db ws)" by (simp add: sole_admin_check_def countActiveAdmins_def split: if_splits)
  have "\<exists>x \<in> set (admin_rows db ws). wsm_user (fst x) \<noteq> u"
  proof (rule ccontr)
    assume "\<not> ?thesis"
    then have "set (map (\<lambda>x. wsm_user (fst x)) (admin_rows db ws)) \<subseteq> {u}" by auto
    then have "card (set (map (\<lambda>x. wsm_user (fst x)) (admin_rows db ws))) \<le> card {u}" by (intro card_mono) auto
    with assms(2) n show False by (simp add: distinct_card del: set_map)
  qed
  with that show thesis by force
next
  case False
  with assms(3) have "u0 \<noteq> u" by (auto simp: isActiveAdmin_iff)
  with assms(3) that show thesis by (auto simp: admin_rows_iff)
qed
fun changes_roles :: "staff_request \<Rightarrow> bool" where
  "changes_roles (Revoke_role _ _) = True"
| "changes_roles (Elevate _ _) = True"
| "changes_roles _ = False"

lemma perform_assignments:
  assumes "perform sha env q (db, c) = Inr (db', c')" and "\<not> changes_roles q"
  shows "sd_roles db' = sd_roles db \<and> (\<exists>xs. sd_assignments db' = sd_assignments db @ xs)"
proof (cases q)
  case (Update_member ws' i role status teams)
  with assms have "updateMember env ws' i role status teams (db, c) = Inr (db', c')" by simp
  then show ?thesis by (rule updateMember_steps) simp
next
  case (Remove_member ws' u')
  with assms have "removeMember env ws' u' (db, c) = Inr (db', c')" by simp
  from removeMember_steps(4,5) [OF this] show ?thesis by simp
next
  case (Resend ws i)
  with assms have "resendInvitation sha env ws i db = Inr db'" by (simp add: keep_cache_Inr)
  then show ?thesis by (rule resend_frames) (simp add: rotate_frames)
next
  case (Copy_link ws i)
  with assms have "buildInvitationLink sha env ws i db = Inr db'" by (simp add: keep_cache_Inr)
  then show ?thesis by (rule link_steps) (simp add: rotate_frames)
next
  case (Cancel ws i)
  with assms have "cancelInvitation ws i db = Inr db'" by (simp add: keep_cache_Inr)
  then show ?thesis by (rule cancel_steps) (simp add: staff_frames)
next
  case (Accept raw u')
  with assms have "acceptInvitation sha (\<lambda>db. db) env raw u' (db, c) = Inr (db', c')" by simp
  then show ?thesis by (rule accept_steps) (simp add: accept_frames)
next
  case (Mint ws' u' days scs)
  with assms obtain raw where "mint sha env ws' u' days scs db = Inr (raw, db')"
    by (cases "mint sha env ws' u' days scs db") (auto simp: keep_cache_Inr)
  then show ?thesis by (simp add: mint_frames)
next
  case (Revoke_own ws' u' i)
  with assms have "db' = revoke_token (se_now env) ws' i db" by (auto simp: keep_cache_Inr dest: revoke_own_steps)
  then show ?thesis by (simp add: staff_frames)
next
  case (Revoke_as_admin ws' i)
  with assms have "db' = revoke_token (se_now env) ws' i db" by (auto simp: keep_cache_Inr dest: revoke_admin_steps)
  then show ?thesis by (simp add: staff_frames)
qed (use assms in \<open>auto simp: keep_cache_Inr bind_sum_Inr drop_cached_def createWorkspace_frames enrollMember_frames addMember_frames
      deleteWorkspace_frames invite_frames grantProjectAccess_frames staff_frames split: option.splits\<close>)

lemma admin_row_stays:
  assumes "(m, r) \<in> set (admin_rows db ws)" and "m' \<in> set (sd_members db')" "wsm_workspace m' = ws" "wsm_user m' = wsm_user m"
    "wsm_status m' = Member_active" and "sd_roles db' = sd_roles db" "sd_assignments db' = sd_assignments db @ xs"
  shows "isWorkspaceAdmin (access_view db') ws (wsm_user m)"
proof -
  have "r \<in> set (roleRows (access_view db'))"
    using assms(1) unfolding roleRows_append [OF assms(6,7)] by (simp add: in_admin_rows)
  with assms have "(m', r) \<in> set (admin_rows db' ws)" by (simp add: in_admin_rows)
  with assms(4) show ?thesis by (auto simp: admin_rows_iff)
qed

text \<open>The two requests that end a membership leave an administrator behind.\<close>

lemma update_leaves_admin:
  assumes "updateMember env ws' i role status teams (db, c) = Inr (db', c')" and "members_unique db"
    and "distinct (map (\<lambda>x. wsm_user (fst x)) (admin_rows db ws))" and "isWorkspaceAdmin (access_view db) ws u0"
  shows "\<exists>m r. (m, r) \<in> set (admin_rows db ws) \<and>
      (\<exists>m' \<in> set (sd_members db'). wsm_workspace m' = ws \<and> wsm_user m' = wsm_user m \<and> wsm_status m' = Member_active)"
proof -
  from assms(1) obtain n where n: "n \<in> set (sd_members db)" "wsm_id n = i" "wsm_workspace n = ws'"
    "leaves status \<longrightarrow> sole_admin_check db ws' (wsm_user n) = Inr ()"
    "sd_members db' = update_where (\<lambda>r. wsm_id r = i) (member_update role status) (sd_members db)"
    by (rule updateMember_steps) blast
  have "\<exists>m r. (m, r) \<in> set (admin_rows db ws) \<and> (leaves status \<longrightarrow> m \<noteq> n)"
  proof (cases "leaves status \<and> ws' = ws")
    case True
    with n(4) have "sole_admin_check db ws (wsm_user n) = Inr ()" by simp
    from another_admin [OF this assms(3,4)] obtain m r where "(m, r) \<in> set (admin_rows db ws)" "wsm_user m \<noteq> wsm_user n" by blast
    then show ?thesis by blast
  next
    case False
    with assms(4) n(3) show ?thesis by (auto simp: admin_rows_iff in_admin_rows)
  qed
  then obtain m r where mr: "(m, r) \<in> set (admin_rows db ws)" "leaves status \<longrightarrow> m \<noteq> n" by blast
  then have m: "m \<in> set (sd_members db)" "wsm_workspace m = ws" "wsm_status m = Member_active" by (auto simp: in_admin_rows)
  let ?m = "if wsm_id m = i then member_update role status m else m"
  have "wsm_id m = i \<Longrightarrow> m = n" using members_unique_id [OF assms(2) m(1) n(1)] n(2) by simp
  then have "wsm_status ?m = Member_active"
    using mr(2) m(3) by (cases status rule: option.exhaust; cases "the status") (auto simp: member_update_def leaves_def)
  moreover have "?m \<in> set (sd_members db')" unfolding n(5) in_update_where using m(1) by blast
  moreover have "wsm_workspace ?m = ws \<and> wsm_user ?m = wsm_user m" using m(2) by (simp add: member_update_def)
  ultimately show ?thesis using mr(1) by blast
qed

lemma remove_leaves_admin:
  assumes "removeMember env ws' u' (db, c) = Inr (db', c')"
    and "distinct (map (\<lambda>x. wsm_user (fst x)) (admin_rows db ws))" and "isWorkspaceAdmin (access_view db) ws u0"
  shows "\<exists>m r. (m, r) \<in> set (admin_rows db ws) \<and>
      (\<exists>m' \<in> set (sd_members db'). wsm_workspace m' = ws \<and> wsm_user m' = wsm_user m \<and> wsm_status m' = Member_active)"
proof -
  note steps = removeMember_steps [OF assms(1)]
  have "\<exists>m r. (m, r) \<in> set (admin_rows db ws) \<and> \<not> (wsm_workspace m = ws' \<and> wsm_user m = u')"
  proof (cases "ws' = ws")
    case True
    with steps(2) have "sole_admin_check db ws u' = Inr ()" by simp
    from another_admin [OF this assms(2,3)] show ?thesis by blast
  next
    case False
    with assms(3) show ?thesis by (auto simp: admin_rows_iff in_admin_rows)
  qed
  then obtain m r where mr: "(m, r) \<in> set (admin_rows db ws)" "\<not> (wsm_workspace m = ws' \<and> wsm_user m = u')" by blast
  then have "m \<in> set (sd_members db')" unfolding steps(3) in_update_where by (auto simp: in_admin_rows)
  with mr(1) show ?thesis by (auto simp: in_admin_rows)
qed

text \<open>C16: as long as no administrator of a workspace holds that role in two rows, no request but the revocation of a
  role (and the elevation from the deployment's list) takes its last active administrator: suspending and removing
  the only one are refused.\<close>

theorem sole_admin_kept:
  assumes "perform sha env q (db, c) = Inr (db', c')" and "\<not> changes_roles q" and "members_unique db"
    and "distinct (map (\<lambda>x. wsm_user (fst x)) (admin_rows db ws))" and "isWorkspaceAdmin (access_view db) ws u0"
  shows "\<exists>u. isWorkspaceAdmin (access_view db') ws u"
proof -
  obtain xs where frame: "sd_roles db' = sd_roles db" "sd_assignments db' = sd_assignments db @ xs"
    using perform_assignments [OF assms(1,2)] by blast
  consider ws' i role status teams where "q = Update_member ws' i role status teams" | ws' u' where "q = Remove_member ws' u'"
    | "\<not> ends_membership q" by (cases q) auto
  then have "\<exists>m r. (m, r) \<in> set (admin_rows db ws) \<and>
      (\<exists>m' \<in> set (sd_members db'). wsm_workspace m' = ws \<and> wsm_user m' = wsm_user m \<and> wsm_status m' = Member_active)"
  proof cases
    case 1
    with assms(1) have "updateMember env ws' i role status teams (db, c) = Inr (db', c')" by simp
    from update_leaves_admin [OF this assms(3-5)] show ?thesis .
  next
    case 2
    with assms(1) have "removeMember env ws' u' (db, c) = Inr (db', c')" by simp
    from remove_leaves_admin [OF this assms(4,5)] show ?thesis .
  next
    case 3
    obtain m0 r0 where m0: "(m0, r0) \<in> set (admin_rows db ws)" using assms(5) by (auto simp: admin_rows_iff)
    then have "m0 \<in> set (sd_members db)" "wsm_workspace m0 = ws" "wsm_status m0 = Member_active" by (auto simp: in_admin_rows)
    with perform_members [OF assms(1) 3] have "m0 \<in> set (sd_members db') \<and> wsm_workspace m0 = ws \<and> wsm_status m0 = Member_active"
      by (auto simp: members_grow_def)
    with m0 show ?thesis by blast
  qed
  then show ?thesis using admin_row_stays [OF _ _ _ _ _ frame] by blast
qed

text \<open>One row per administrator is not given: the unique index does not stop a second row.\<close>

lemma two_of_list: "x \<in> set xs \<Longrightarrow> y \<in> set xs \<Longrightarrow> x \<noteq> y \<Longrightarrow> 1 < length xs"
  by (cases xs; cases "tl xs") auto

lemma only_admin:
  assumes "map (\<lambda>x. wsm_user (fst x)) (admin_rows db ws) = [u]"
  shows "\<forall>v. isWorkspaceAdmin (access_view db) ws v \<longleftrightarrow> v = u"
proof -
  from assms obtain m r where "admin_rows db ws = [(m, r)]" "wsm_user m = u" by (auto simp: map_eq_Cons_conv)
  then show ?thesis by (auto simp: admin_rows_iff)
qed

lemma grant_all_workspaces: "grant_all env ws u rows db = Inr db' \<Longrightarrow> sd_workspaces db' = sd_workspaces db"
proof (induction rows arbitrary: db)
  case (Cons a rows)
  then obtain mid where "grantProjectAccess env True ws (ia_project a) u (Some (ia_level a)) db = Inr mid" "grant_all env ws u rows mid = Inr db'"
    by (auto simp: bind_sum_Inr)
  moreover from this(1) have "sd_workspaces mid = sd_workspaces db"
    by (auto simp: grantProjectAccess_def createGrant_def split: if_splits option.splits)
  ultimately show ?case using Cons.IH by simp
qed simp

text \<open>What the acceptance of an invitation to a role adds for a member: one row of that role.\<close>

lemma accepted_role_row:
  assumes "accept_in_tx env iv True access u db = Inr db1" and "inv_role iv = Some i"
    and "se_role_id env \<notin> ua_id ` set (sd_assignments db)"
  shows "sd_assignments db1 = sd_assignments db @ [\<lparr>ua_id = se_role_id env, ua_workspace = inv_workspace iv, ua_user = u, ua_role = i,
      ua_scope = Workspace, ua_scopeId = None\<rparr>]" "sd_members db1 = sd_members db" "sd_roles db1 = sd_roles db"
    "sd_workspaces db1 = sd_workspaces db"
proof -
  obtain db2 db3 where st: "grant_invited_role env iv u db = Inr db2" "grant_all env (inv_workspace iv) u access db2 = Inr db3"
    "db1 = set_invitation_status (inv_id iv) Invite_accepted (Some u) db3"
    using assms(1) by (auto simp: accept_in_tx_def bind_sum_Inr)
  have "\<forall>a \<in> set (sd_assignments db). ua_id a \<noteq> se_role_id env" using assms(3) by (metis imageI)
  then have db2: "db2 = db\<lparr>sd_assignments := sd_assignments db @ [\<lparr>ua_id = se_role_id env, ua_workspace = inv_workspace iv, ua_user = u,
      ua_role = i, ua_scope = Workspace, ua_scopeId = None\<rparr>]\<rparr>"
    using st(1) assms(2) by (auto simp: grant_invited_role_def grantWorkspaceRole_def scope_conflict_def Let_def split: if_splits)
  show "sd_assignments db1 = sd_assignments db @ [\<lparr>ua_id = se_role_id env, ua_workspace = inv_workspace iv, ua_user = u, ua_role = i,
      ua_scope = Workspace, ua_scopeId = None\<rparr>]" "sd_members db1 = sd_members db" "sd_roles db1 = sd_roles db"
    "sd_workspaces db1 = sd_workspaces db"
    using grant_all_frames [OF st(2)] grant_all_workspaces [OF st(2)] by (simp_all add: st(3) db2 set_invitation_status_def)
qed

text \<open>C33: the check that keeps the last administrator counts rows of roles, not people, and the unique index does
  not stop a second row, as its scope id is null. In any workspace with one administrator whose removal the
  check refuses, the acceptance by that person of an invitation to an administrator role gives them a
  second row; their removal then succeeds and leaves the workspace without any administrator.\<close>

theorem sole_admin_bypassed:
  assumes "acceptInvitation sha (\<lambda>d. d) env raw u (db, c) = Inr (db1, c1)"
    and "accept_checks sha env raw u db = Inr iv" and "inv_workspace iv = ws" and "inv_role iv = Some i"
    and "find (\<lambda>x. rl_id x = i) (sd_roles db) = Some role" and "rl_slug role = role_slug WORKSPACE_ADMIN"
    and "\<forall>v. isWorkspaceAdmin (access_view db) ws v \<longleftrightarrow> v = u"
    and "se_role_id env \<notin> ua_id ` set (sd_assignments db)" and "getWorkspace db ws = Inr w"
  shows "(countActiveAdmins db ws = 1 \<longrightarrow> removeMember env' ws u (db, c) = Inl (PreconditionFailed ''SOLE_ADMIN_VIOLATION'')) \<and>
    (\<exists>db2 c2. removeMember env' ws u (db1, c1) = Inr (db2, c2) \<and> (\<forall>v. \<not> isWorkspaceAdmin (access_view db2) ws v))"
proof -
  let ?new = "\<lparr>ua_id = se_role_id env, ua_workspace = ws, ua_user = u, ua_role = i, ua_scope = Workspace, ua_scopeId = None\<rparr>"
  let ?row = "\<lparr>ra_id = se_role_id env, ra_workspace = ws, ra_user = u, ra_scopeType = Workspace, ra_scopeId = None,
    ra_slug = role_slug WORKSPACE_ADMIN, ra_permissions = rl_permissions role\<rparr>"
  from assms(7) have "isWorkspaceAdmin (access_view db) ws u" by blast
  then obtain m r where mr: "(m, r) \<in> set (admin_rows db ws)" "wsm_user m = u" unfolding admin_rows_iff by blast
  then have m: "m \<in> set (sd_members db)" "wsm_workspace m = ws" by (auto simp: in_admin_rows)
  have found: "findMember db ws u \<noteq> None" using m mr(2) by (auto simp: findMember_def find_None_iff)
  with assms(1-3) have tx: "accept_in_tx env iv True (filter (\<lambda>a. ia_invitation a = inv_id iv) (sd_invitation_access db)) u db = Inr db1"
    by (auto simp: acceptInvitation_def bind_sum_Inr Let_def)
  note step = accepted_role_row [OF tx assms(4) assms(8), unfolded assms(3)]
  have rows: "roleRows (access_view db1) = roleRows (access_view db) @ [?row]"
    using assms(5,6) by (simp add: access_view_def step map_filter_def role_row_of_def)
  have "r \<in> set (roleRows (access_view db))" using mr(1) by (simp add: in_admin_rows)
  then have "ra_id r \<in> ua_id ` set (sd_assignments db)" by (auto simp: access_view_def set_filter_map role_row_of_def)
  with assms(8) have "r \<noteq> ?row" by auto
  moreover have "(m, r) \<in> set (admin_rows db1 ws)" "(m, ?row) \<in> set (admin_rows db1 ws)"
    using mr m by (auto simp: in_admin_rows rows step)
  ultimately have two: "1 < countActiveAdmins db1 ws" unfolding countActiveAdmins_def by (intro two_of_list [of "(m, r)" _ "(m, ?row)"]) auto
  let ?db2 = "revokeMachineCredentials env' ws u (db1\<lparr>sd_members := update_where (\<lambda>m. wsm_workspace m = ws \<and> wsm_user m = u)
     (\<lambda>m. m\<lparr>wsm_status := Member_removed\<rparr>) (sd_members db1)\<rparr>)"
  have "getWorkspace db1 ws = Inr w" using assms(9) by (simp add: getWorkspace_def step)
  then have removed: "removeMember env' ws u (db1, c1) = Inr (?db2, invalidateUser (se_cache env') c1 ws u)"
    using found two by (auto simp: removeMember_def findMember_def step sole_admin_check_def)
  have "\<not> isWorkspaceAdmin (access_view ?db2) ws v" for v
  proof
    assume "isWorkspaceAdmin (access_view ?db2) ws v"
    then obtain n q where nq: "(n, q) \<in> set (admin_rows ?db2 ws)" "wsm_user n = v" by (auto simp: admin_rows_iff)
    have "roleRows (access_view ?db2) = roleRows (access_view db1)" by (simp add: access_view_def staff_frames)
    with nq(1) have q: "q \<in> set (roleRows (access_view db)) \<or> q = ?row" by (auto simp: in_admin_rows rows)
    from nq(1) have active: "wsm_status n = Member_active" "wsm_workspace n = ws" and out: "n \<in> set (sd_members ?db2)"
      and role: "ra_user q = wsm_user n" "ra_workspace q = ws" "ra_scopeType q = Workspace" "ra_slug q = role_slug WORKSPACE_ADMIN"
      unfolding in_admin_rows by blast+
    have "sd_members ?db2 = update_where (\<lambda>m. wsm_workspace m = ws \<and> wsm_user m = u) (\<lambda>m. m\<lparr>wsm_status := Member_removed\<rparr>) (sd_members db)"
      by (simp add: staff_frames step)
    with out obtain k where k: "k \<in> set (sd_members db)"
      "n = (if wsm_workspace k = ws \<and> wsm_user k = u then k\<lparr>wsm_status := Member_removed\<rparr> else k)" by (auto simp: update_where_def)
    with active have n: "n \<in> set (sd_members db)" "wsm_user n \<noteq> u" by (auto split: if_splits)
    have "ra_user ?row = u" by simp
    with n(2) role(1) have "q \<noteq> ?row" by metis
    with q n(1) role active have "(n, q) \<in> set (admin_rows db ws)" unfolding in_admin_rows by auto
    then have "isWorkspaceAdmin (access_view db) ws (wsm_user n)" unfolding admin_rows_iff by blast
    with assms(7) n(2) show False by blast
  qed
  moreover have "removeMember env' ws u (db, c) = Inl (PreconditionFailed ''SOLE_ADMIN_VIOLATION'')" if "countActiveAdmins db ws = 1"
  proof -
    have "isActiveAdmin db ws u" using assms(7) unfolding isActiveAdmin_iff by blast
    with that have "sole_admin_check db ws u = Inl (PreconditionFailed ''SOLE_ADMIN_VIOLATION'')" by (simp add: sole_admin_check_def)
    with found assms(9) show ?thesis by (auto simp: removeMember_def)
  qed
  ultimately show ?thesis using removed by blast
qed

section \<open>Machine tokens\<close>

lemma prefixOf_minted: "PREFIX_BODY_LENGTH \<le> length secret \<Longrightarrow>
    prefixOf (API_TOKEN_PREFIX @ secret) = Some (API_TOKEN_PREFIX @ take PREFIX_BODY_LENGTH secret)"
  by (simp add: prefixOf_def API_TOKEN_PREFIX_def)

text \<open>C35: the secret returned by a mint, and only a text with the same hash, verifies as the new token: for its owner,
  with the scopes asked for (each a known permission, none twice), until the expiry date and no longer once it is revoked.
  The expiry lies between one and 365 days away.\<close>

theorem minted_token_verifies:
  assumes "mint sha env ws u days requested db = Inr (raw, db')" and "PREFIX_BODY_LENGTH \<le> length (se_secret env)"
  shows "\<exists>t. raw = API_TOKEN_PREFIX @ se_secret env \<and> tk_workspace t = ws \<and> tk_user t = u \<and>
    se_now env + MS_PER_DAY \<le> tk_expires t \<and> tk_expires t \<le> se_now env + 365 * MS_PER_DAY \<and>
    (\<forall>time. verify sha time raw db' = (if time < tk_expires t then Some t else None)) \<and>
    (\<forall>time raw'. verify sha time raw' db' = Some t \<longrightarrow> sha raw' = sha raw) \<and>
    (\<forall>time. verify sha time raw (revoke_token now ws (tk_id t) db') = None) \<and>
    (case tk_scopes t of None \<Rightarrow> requested = None \<or> requested = Some []
     | Some ss \<Rightarrow> distinct ss \<and> set ss \<subseteq> snd ` set PERMISSION \<and> requested \<noteq> None \<and> set ss = set (the requested))"
proof -
  let ?d = "case days of None \<Rightarrow> DEFAULT_EXPIRY_DAYS | Some d \<Rightarrow> d" and ?raw = "API_TOKEN_PREFIX @ se_secret env"
  let ?prefix = "API_TOKEN_PREFIX @ take PREFIX_BODY_LENGTH (se_secret env)"
  obtain valid where valid: "validateScopes requested = Inr valid" and d: "assertExpiryDays ?d = Inr ()"
    and fresh: "\<forall>t \<in> set (sd_tokens db). tk_id t \<noteq> se_id env \<and> tk_prefix t \<noteq> ?prefix \<and> tk_hash t \<noteq> sha ?raw"
    and new: "raw = ?raw" "db' = db\<lparr>sd_tokens := sd_tokens db @ [\<lparr>tk_id = se_id env, tk_workspace = ws, tk_user = u, tk_prefix = ?prefix,
      tk_hash = sha ?raw, tk_scopes = valid, tk_expires = se_now env + \<lfloor>?d\<rfloor> * MS_PER_DAY, tk_used = None, tk_revoked = None\<rparr>]\<rparr>"
    using assms(1) by (auto simp: mint_def mintToken_def bind_sum_Inr Let_def split: if_splits)
  let ?t = "\<lparr>tk_id = se_id env, tk_workspace = ws, tk_user = u, tk_prefix = ?prefix,
      tk_hash = sha ?raw, tk_scopes = valid, tk_expires = se_now env + \<lfloor>?d\<rfloor> * MS_PER_DAY, tk_used = None, tk_revoked = None\<rparr>"
  have days: "1 \<le> \<lfloor>?d\<rfloor>" "\<lfloor>?d\<rfloor> \<le> 365"
    using d by (auto simp: assertExpiryDays_def MAX_EXPIRY_DAYS_def le_floor_iff floor_le_iff split: if_splits)
  have "\<lfloor>?d\<rfloor> * MS_PER_DAY \<le> 365 * MS_PER_DAY" "1 * MS_PER_DAY \<le> \<lfloor>?d\<rfloor> * MS_PER_DAY"
    using days by (auto intro!: mult_right_mono simp: MS_PER_DAY_def)
  then have window: "se_now env + MS_PER_DAY \<le> tk_expires ?t \<and> tk_expires ?t \<le> se_now env + 365 * MS_PER_DAY" by simp
  have none: "find (\<lambda>t. tk_prefix t = ?prefix \<and> tk_revoked t = None \<and> tk_expires t > time) (sd_tokens db) = None" for time
    using fresh by (auto simp: find_None_iff)
  have none': "find (\<lambda>t. tk_prefix t = ?prefix \<and> tk_revoked t = None \<and> tk_expires t > time)
      (update_where p (\<lambda>t. t\<lparr>tk_revoked := Some now\<rparr>) (sd_tokens db)) = None" for time p
    using fresh by (auto simp: find_None_iff in_update_where)
  have app: "find P (xs @ ys) = (case find P xs of Some x \<Rightarrow> Some x | None \<Rightarrow> find P ys)" for P and xs ys :: "api_token list"
    by (induction xs) auto
  have upd: "update_where p f (xs @ ys) = update_where p f xs @ update_where p f ys" for p f and xs ys :: "api_token list"
    by (simp add: update_where_def)
  have live: "verify sha time raw db' = (if time < tk_expires ?t then Some ?t else None)" for time
    using none [of time] by (simp add: verify_def new prefixOf_minted assms(2) findLiveByPrefix_def app hashesMatch_def)
  have dead: "verify sha time raw (revoke_token now ws (tk_id ?t) db') = None" for time
    unfolding verify_def new(1) prefixOf_minted [OF assms(2)] findLiveByPrefix_def revoke_token_def new(2)
    by (simp add: upd app none') (simp add: update_where_def)
  have scopes: "case valid of None \<Rightarrow> requested = None \<or> requested = Some []
     | Some ss \<Rightarrow> distinct ss \<and> set ss \<subseteq> snd ` set PERMISSION \<and> requested \<noteq> None \<and> set ss = set (the requested)"
    using valid distinct_dedupe_by [of "\<lambda>s. s" "{}"]
    by (auto simp: validateScopes_def split: option.splits if_splits)
  show ?thesis
    by (rule exI [of _ ?t]) (use new(1) window live dead scopes in \<open>auto dest: verify_live\<close>)
qed
section \<open>A concrete workspace\<close>

text \<open>Ann administers the workspace, Bob is a member with a grant and a token.\<close>

definition ex_staff_env :: "int \<Rightarrow> string \<Rightarrow> string \<Rightarrow> staff_env" where
  "ex_staff_env time secret i =
     \<lparr>se_now = time, se_ttl = 7, se_internal = None, se_guests = False, se_secret = secret, se_id = i,
      se_role_id = ''r-'' @ i, se_grant_id = (\<lambda>p. i @ p), se_cache = True, se_tokens = True\<rparr>"

definition ex_staff :: staff_db where
  "ex_staff =
     \<lparr>sd_workspaces = [\<lparr>ws_id = ''w'', ws_slug = ''qnsc'', ws_archived = False, ws_deleted = False\<rparr>],
      sd_members = [\<lparr>wsm_id = ''m1'', wsm_workspace = ''w'', wsm_user = ''ann'', wsm_role = None, wsm_status = Member_active\<rparr>,
                    \<lparr>wsm_id = ''m2'', wsm_workspace = ''w'', wsm_user = ''bob'', wsm_role = None, wsm_status = Member_active\<rparr>],
      sd_invitations = [], sd_invitation_access = [],
      sd_roles = [\<lparr>rl_id = ''ra'', rl_workspace = None, rl_slug = ''workspace_admin'', rl_permissions = [''workspace:*'']\<rparr>],
      sd_assignments = [\<lparr>ua_id = ''a1'', ua_workspace = ''w'', ua_user = ''ann'', ua_role = ''ra'', ua_scope = Workspace, ua_scopeId = None\<rparr>],
      sd_projects = [\<lparr>pj_id = ''p'', pj_workspace = ''w'', pj_deleted = False\<rparr>],
      sd_grants = [\<lparr>pm_id = ''g1'', pm_workspace = ''w'', pm_project = ''p'', pm_user = ''bob'', pm_level = Some ''editor'', pm_active = True\<rparr>],
      sd_links = [], sd_seats = [],
      sd_people = [\<lparr>pe_id = ''ann'', pe_email = ''ann@x.io'', pe_subjects = []\<rparr>, \<lparr>pe_id = ''bob'', pe_email = ''Bob@x.io'', pe_subjects = []\<rparr>,
                   \<lparr>pe_id = ''cat'', pe_email = ''cat@x.io'', pe_subjects = []\<rparr>],
      sd_tokens = [\<lparr>tk_id = ''t1'', tk_workspace = ''w'', tk_user = ''bob'', tk_prefix = ''rly_abcdefgh'', tk_hash = ''rly_abcdefghij'',
                    tk_scopes = None, tk_expires = 900, tk_used = None, tk_revoked = None\<rparr>],
      sd_mails = [], sd_jobs = []\<rparr>"

definition ex_invited :: staff_db where
  "ex_invited = fst (staff_run (\<lambda>s. s) [(ex_staff_env 1 ''s1'' ''i1'', Invite ''w'' '' Cat@x.io'' None [(''p'', ''editor'')])] (ex_staff, Map.empty))"

definition ex_reinvite :: "(staff_env \<times> staff_request) list" where
  "ex_reinvite = [(ex_staff_env 3 ''s2'' ''i2'', Invite ''w'' ''bob@x.io'' None []), (ex_staff_env 4 ''s3'' ''i3'', Accept ''s2'' ''bob'')]"

definition ex_second_role :: "(staff_env \<times> staff_request) list" where
  "ex_second_role = [(ex_staff_env 3 ''s2'' ''i2'', Invite ''w'' ''ann@x.io'' (Some ''ra'') []),
     (ex_staff_env 4 ''s3'' ''i3'', Accept ''s2'' ''ann''), (ex_staff_env 5 ''s4'' ''i4'', Remove_member ''w'' ''ann'')]"
lemmas ex_staff_simps = ex_staff_def ex_staff_env_def ex_invited_def ex_reinvite_def ex_second_role_def

theorem invitation_bound_witness:
  "set (assignments_from_db (access_view (fst (projr (acceptInvitation (\<lambda>s. s) (\<lambda>db. db) (ex_staff_env 2 ''x'' ''m3'') ''s1'' ''cat''
      (ex_invited, Map.empty))))) ''w'' ''bob'') =
   set (assignments_from_db (access_view ex_invited) ''w'' ''bob'') \<and> ex_invited \<noteq> ex_staff"
proof -
  let ?r = "acceptInvitation (\<lambda>s. s) (\<lambda>db. db) (ex_staff_env 2 ''x'' ''m3'') ''s1'' ''cat'' (ex_invited, Map.empty)"
  have "isl ?r = False" by code_simp
  then obtain db' c' where r: "?r = Inr (db', c')" by (cases ?r) auto
  have "distinct (map pm_id (sd_grants ex_invited))" by code_simp
  from invitation_bound [OF r this]
  have "assignments_from_db (access_view db') ''w'' ''bob'' = assignments_from_db (access_view ex_invited) ''w'' ''bob''" by auto
  moreover have "sd_invitations ex_invited \<noteq> sd_invitations ex_staff" by code_simp
  ultimately show ?thesis by (auto simp: r)
qed

theorem link_works_once_witness:
  "acceptInvitation (\<lambda>s. s) (\<lambda>db. db) (ex_staff_env 9 ''y'' ''m4'') ''s1'' ''bob''
     (staff_run (\<lambda>s. s) [(ex_staff_env 5 ''s2'' ''i2'', Resend ''w'' ''i1'')]
       (projr (acceptInvitation (\<lambda>s. s) (\<lambda>db. db) (ex_staff_env 2 ''x'' ''m3'') ''s1'' ''cat'' (ex_invited, Map.empty)))) =
   Inl (PreconditionFailed ''INVITATION_ALREADY_USED'')"
proof -
  let ?r = "acceptInvitation (\<lambda>s. s) (\<lambda>db. db) (ex_staff_env 2 ''x'' ''m3'') ''s1'' ''cat'' (ex_invited, Map.empty)"
  have "isl ?r = False" by code_simp
  then obtain s where r: "?r = Inr s" by (cases ?r) auto
  have "invites_unique ex_invited" by code_simp
  from link_works_once [OF this r] show ?thesis by (simp add: r)
qed

text \<open>Bob is removed, invited again and accepts: the invitation is spent and he is still out.\<close>

theorem departed_stays_out_witness:
  "assignments_from_db (access_view (fst (staff_run (\<lambda>s. s) ex_reinvite
     (projr (perform (\<lambda>s. s) (ex_staff_env 2 ''s'' ''z'') (Remove_member ''w'' ''bob'') (ex_staff, Map.empty)))))) ''w'' ''bob'' = [] \<and>
   map inv_status (sd_invitations (fst (staff_run (\<lambda>s. s) ex_reinvite
     (projr (perform (\<lambda>s. s) (ex_staff_env 2 ''s'' ''z'') (Remove_member ''w'' ''bob'') (ex_staff, Map.empty)))))) = [Invite_accepted] \<and>
   assignments_from_db (access_view ex_staff) ''w'' ''bob'' \<noteq> []"
proof -
  let ?r = "perform (\<lambda>s. s) (ex_staff_env 2 ''s'' ''z'') (Remove_member ''w'' ''bob'') (ex_staff, Map.empty)"
  have "isl ?r = False" by code_simp
  then obtain db' c' where r: "?r = Inr (db', c')" by (cases ?r) auto
  have "departs ex_staff ''w'' ''bob'' (Remove_member ''w'' ''bob'')" by simp
  moreover have "members_unique ex_staff" by code_simp
  moreover have "\<forall>x \<in> set ex_reinvite. \<not> reactivates (rows_of_member ''w'' ''bob'' ex_staff) (snd x)" by (simp add: ex_reinvite_def)
  ultimately have "assignments_from_db (access_view (fst (staff_run (\<lambda>s. s) ex_reinvite (db', c')))) ''w'' ''bob'' = []"
    using departed_stays_out [OF r] by blast
  moreover have "map inv_status (sd_invitations (fst (staff_run (\<lambda>s. s) ex_reinvite (projr ?r)))) = [Invite_accepted]" by code_simp
  moreover have "assignments_from_db (access_view ex_staff) ''w'' ''bob'' \<noteq> []" by code_simp
  ultimately show ?thesis unfolding r by simp
qed

theorem sole_admin_kept_witness:
  "\<exists>u. isWorkspaceAdmin (access_view (fst (projr (perform (\<lambda>s. s) (ex_staff_env 2 ''s'' ''z'') (Remove_member ''w'' ''bob'') (ex_staff, Map.empty))))) ''w'' u"
proof -
  let ?r = "perform (\<lambda>s. s) (ex_staff_env 2 ''s'' ''z'') (Remove_member ''w'' ''bob'') (ex_staff, Map.empty)"
  have "isl ?r = False" by code_simp
  then obtain db' c' where r: "?r = Inr (db', c')" by (cases ?r) auto
  have "members_unique ex_staff" by code_simp
  moreover have "distinct (map (\<lambda>x. wsm_user (fst x)) (admin_rows ex_staff ''w''))" by code_simp
  moreover have "isWorkspaceAdmin (access_view ex_staff) ''w'' ''ann''" by code_simp
  ultimately show ?thesis unfolding r using sole_admin_kept [OF r, of "''w''" "''ann''"] by simp
qed

text \<open>The only administrator accepts an invitation to the role they hold.\<close>

definition ex_second_invited :: "staff_db \<times> assignment_cache" where
  "ex_second_invited = staff_run (\<lambda>s. s) (take 1 ex_second_role) (ex_staff, Map.empty)"

theorem sole_admin_bypassed_witness:
  "removeMember (ex_staff_env 5 ''s4'' ''i4'') ''w'' ''ann'' ex_second_invited = Inl (PreconditionFailed ''SOLE_ADMIN_VIOLATION'') \<and>
   (\<exists>s1 db2 c2. acceptInvitation (\<lambda>s. s) (\<lambda>d. d) (ex_staff_env 4 ''s3'' ''i3'') ''s2'' ''ann'' ex_second_invited = Inr s1 \<and>
      removeMember (ex_staff_env 5 ''s4'' ''i4'') ''w'' ''ann'' s1 = Inr (db2, c2) \<and> (\<forall>v. \<not> isWorkspaceAdmin (access_view db2) ''w'' v))"
proof -
  let ?db = "fst ex_second_invited" and ?env = "ex_staff_env 4 ''s3'' ''i3''"
  let ?a = "acceptInvitation (\<lambda>s. s) (\<lambda>d. d) ?env ''s2'' ''ann'' (?db, snd ex_second_invited)"
  have "isl ?a = False" by code_simp
  then obtain db1 c1 where a: "?a = Inr (db1, c1)" by (cases ?a) auto
  let ?k = "accept_checks (\<lambda>s. s) ?env ''s2'' ''ann'' ?db"
  have "case ?k of Inl _ \<Rightarrow> False | Inr r \<Rightarrow> inv_role r = Some ''ra'' \<and> inv_workspace r = ''w''" by code_simp
  then obtain r where k: "?k = Inr r" and r: "inv_role r = Some ''ra''" "inv_workspace r = ''w''" by (cases ?k) auto
  have "case find (\<lambda>x. rl_id x = ''ra'') (sd_roles ?db) of None \<Rightarrow> False | Some x \<Rightarrow> rl_slug x = role_slug WORKSPACE_ADMIN" by code_simp
  then obtain role where role: "find (\<lambda>x. rl_id x = ''ra'') (sd_roles ?db) = Some role" "rl_slug role = role_slug WORKSPACE_ADMIN"
    by (auto split: option.splits)
  have "map (\<lambda>x. wsm_user (fst x)) (admin_rows ?db ''w'') = [''ann'']" by code_simp
  from only_admin [OF this] have only: "\<forall>v. isWorkspaceAdmin (access_view ?db) ''w'' v \<longleftrightarrow> v = ''ann''" .
  have fresh: "se_role_id ?env \<notin> ua_id ` set (sd_assignments ?db)" by code_simp
  have "isl (getWorkspace ?db ''w'') = False" by code_simp
  then obtain w where w: "getWorkspace ?db ''w'' = Inr w" by (cases "getWorkspace ?db ''w''") auto
  have one: "countActiveAdmins ?db ''w'' = 1" by code_simp
  from sole_admin_bypassed [OF a k r(2) r(1) role only fresh w, of "ex_staff_env 5 ''s4'' ''i4''"] one a show ?thesis by auto
qed

theorem minted_token_verifies_witness:
  "\<exists>t. tk_user t = ''cat'' \<and> verify (\<lambda>s. s) 5 ''rly_12345678rest''
     (snd (projr (mint (\<lambda>s. s) (ex_staff_env 2 ''12345678rest'' ''t2'') ''w'' ''cat'' None (Some [''work_item:view'']) ex_staff))) = Some t"
proof -
  let ?r = "mint (\<lambda>s. s) (ex_staff_env 2 ''12345678rest'' ''t2'') ''w'' ''cat'' None (Some [''work_item:view'']) ex_staff"
  have "isl ?r = False" by code_simp
  then obtain raw db' where r: "?r = Inr (raw, db')" by (cases ?r) auto
  have "PREFIX_BODY_LENGTH \<le> length (se_secret (ex_staff_env 2 ''12345678rest'' ''t2''))" by code_simp
  from minted_token_verifies [OF r this, where now = 0] obtain t where t: "raw = API_TOKEN_PREFIX @ ''12345678rest''" "tk_user t = ''cat''"
      "2 + MS_PER_DAY \<le> tk_expires t" "\<forall>time. verify (\<lambda>s. s) time raw db' = (if time < tk_expires t then Some t else None)"
    by (auto simp: ex_staff_env_def)
  have "5 < tk_expires t" using t(3) by (simp add: MS_PER_DAY_def)
  with t show ?thesis by (intro exI [of _ t]) (simp add: r API_TOKEN_PREFIX_def)
qed

end
