(* ===== verification/Calendar.thy ===== *)
theory Calendar
  imports Prelude
begin

text \<open>
  Calendar dates as the reports use them (\<^verbatim>\<open>reporting/src/domain/report-scope.ts\<close>): ISO strings
  compared as strings, weekdays, the next day, and the working days of a window. The JavaScript
  \<^verbatim>\<open>Date\<close> behind them is the proleptic Gregorian calendar; a date of year 10000 prints with an
  expanded year, which \<^verbatim>\<open>slice(0, 10)\<close> cuts off. The string order of calendar dates is shown to be
  the order of their day numbers, so that the loop over a window can be counted.
\<close>

section \<open>Days\<close>

type_synonym ymd = "int \<times> int \<times> int"

definition leap :: "int \<Rightarrow> bool" where
  "leap y \<longleftrightarrow> 4 dvd y \<and> (\<not> 100 dvd y \<or> 400 dvd y)"

definition month_length :: "int \<Rightarrow> int \<Rightarrow> int" where
  "month_length y m = (if m = 2 then (if leap y then 29 else 28) else if m \<in> {4, 6, 9, 11} then 30 else 31)"

definition valid_ymd :: "ymd \<Rightarrow> bool" where
  "valid_ymd t = (case t of (y, m, d) \<Rightarrow> 1 \<le> m \<and> m \<le> 12 \<and> 1 \<le> d \<and> d \<le> month_length y m)"

text \<open>Days before the year, days before the month, and the day number, 1 being Monday 1 January 1.\<close>

definition year_start :: "int \<Rightarrow> int" where
  "year_start y = 365 * (y - 1) + (y - 1) div 4 - (y - 1) div 100 + (y - 1) div 400"

definition month_start :: "int \<Rightarrow> int \<Rightarrow> int" where
  "month_start y m =
     [0, 0, 31, 59, 90, 120, 151, 181, 212, 243, 273, 304, 334] ! nat m + (if m > 2 \<and> leap y then 1 else 0)"

definition day_number :: "ymd \<Rightarrow> int" where
  "day_number t = (case t of (y, m, d) \<Rightarrow> year_start y + month_start y m + d)"

definition next_day :: "ymd \<Rightarrow> ymd" where
  "next_day t = (case t of (y, m, d) \<Rightarrow>
     if d < month_length y m then (y, m, d + 1) else if m < 12 then (y, m + 1, 1) else (y + 1, 1, 1))"

definition prev_day :: "ymd \<Rightarrow> ymd" where
  "prev_day t = (case t of (y, m, d) \<Rightarrow>
     if d > 1 then (y, m, d - 1) else if m > 1 then (y, m - 1, month_length y (m - 1)) else (y - 1, 12, 31))"

lemma year_start_Suc: "year_start (y + 1) = year_start y + 365 + (if leap y then 1 else 0)"
proof -
  have div: "z div n - (z - 1) div n = (if n dvd z then 1 else 0)" if "0 < n" for z n :: int
  proof (cases "n dvd z")
    case True
    then obtain k where "z = n * k" by blast
    moreover have "(n * k - 1) div n = k - 1"
      using that by (intro int_div_pos_eq [of _ _ _ "n - 1"]) (auto simp: algebra_simps)
    ultimately show ?thesis using that by simp
  next
    case False
    then have "0 < z mod n" using that by (metis dvd_eq_mod_eq_0 pos_mod_sign order_le_neq_trans)
    moreover have "z = n * (z div n) + z mod n" by simp
    ultimately have "(z - 1) div n = z div n"
      using that pos_mod_bound [OF that, of z]
      by (intro int_div_pos_eq [of _ _ _ "z mod n - 1"]) auto
    with False show ?thesis by simp
  qed
  have up: "400 dvd y \<Longrightarrow> 100 dvd y" "100 dvd y \<Longrightarrow> 4 dvd y"
    using dvd_trans [of 100 400 y] dvd_trans [of 4 100 y] by simp_all
  have e: "y div 4 = (y - 1) div 4 + (if 4 dvd y then 1 else 0)"
    "y div 100 = (y - 1) div 100 + (if 100 dvd y then 1 else 0)"
    "y div 400 = (y - 1) div 400 + (if 400 dvd y then 1 else 0)"
    using div [of 4 y] div [of 100 y] div [of 400 y] by simp_all
  have "year_start (y + 1) = 365 * y + y div 4 - y div 100 + y div 400" by (simp add: year_start_def)
  also have "\<dots> = year_start y + 365 + (if leap y then 1 else 0)"
    unfolding e year_start_def leap_def using up
    by (cases "4 dvd y"; cases "100 dvd y"; cases "400 dvd y") simp_all
  finally show ?thesis .
qed

lemma month_start_Suc:
  "1 \<le> m \<Longrightarrow> m < 12 \<Longrightarrow> month_start y (m + 1) = month_start y m + month_length y m"
proof -
  assume "1 \<le> m" "m < 12"
  then have "m = 1 \<or> m = 2 \<or> m = 3 \<or> m = 4 \<or> m = 5 \<or> m = 6 \<or> m = 7 \<or> m = 8 \<or> m = 9 \<or> m = 10 \<or> m = 11"
    by presburger
  then show ?thesis by (elim disjE) (simp_all add: month_start_def month_length_def)
qed

lemma month_start_ends:
  "month_start y 1 = 0" "month_start y 12 + month_length y 12 = 365 + (if leap y then 1 else 0)"
  by (auto simp: month_start_def month_length_def)

lemma month_length_bounds: "28 \<le> month_length y m" "month_length y m \<le> 31"
  by (auto simp: month_length_def)

lemma day_number_next: "valid_ymd t \<Longrightarrow> day_number (next_day t) = day_number t + 1"
  by (auto simp: valid_ymd_def day_number_def next_day_def month_start_Suc year_start_Suc
      month_start_ends(1) split: prod.splits)
    (use month_start_ends(2) in \<open>force split: if_splits\<close>)+

lemma valid_next: "valid_ymd t \<Longrightarrow> valid_ymd (next_day t)"
  using month_length_bounds(1) by (auto simp: valid_ymd_def next_day_def split: prod.splits)
    (metis order_trans [of 1 28] one_le_numeral)+

text \<open>Before and after, as triples.\<close>

definition earlier :: "ymd \<Rightarrow> ymd \<Rightarrow> bool" where
  "earlier s t = (case (s, t) of ((y, m, d), (y', m', d')) \<Rightarrow>
     y < y' \<or> y = y' \<and> (m < m' \<or> m = m' \<and> d < d'))"

lemma month_start_mono:
  assumes "1 \<le> m" "m < m'" "m' \<le> 12"
  shows "month_start y m + month_length y m \<le> month_start y m'"
proof -
  have "month_start y m + month_length y m \<le> month_start y (m + 1 + int k)" if "m + 1 + int k \<le> 12" for k
    using that
  proof (induction k)
    case (Suc k)
    then have "month_start y (m + 1 + int k + 1) = month_start y (m + 1 + int k) + month_length y (m + 1 + int k)"
      using assms(1) by (intro month_start_Suc) auto
    with Suc month_length_bounds(1) [of y "m + 1 + int k"] show ?case by (simp add: algebra_simps)
  qed (use assms month_start_Suc in simp)
  from this [of "nat (m' - m - 1)"] assms show ?thesis by simp
qed

lemma year_start_mono: "y < y' \<Longrightarrow> year_start (y + 1) \<le> year_start y'"
proof -
  have "year_start (y + 1) \<le> year_start (y + 1 + int k)" for k
    using year_start_Suc [of "y + 1 + int _"] by (induction k) (auto simp: algebra_simps split: if_splits)
  from this [of "nat (y' - y - 1)"] show "y < y' \<Longrightarrow> year_start (y + 1) \<le> year_start y'" by simp
qed

lemma day_number_bounds:
  assumes "valid_ymd (y, m, d)"
  shows "year_start y < day_number (y, m, d)" and "day_number (y, m, d) \<le> year_start (y + 1)"
proof -
  have m: "1 \<le> m" "m \<le> 12" and d: "1 \<le> d" "d \<le> month_length y m" using assms by (auto simp: valid_ymd_def)
  have first: "0 \<le> month_start y m"
    using month_start_mono [of 1 m y] month_start_ends(1) [of y] month_length_bounds(1) [of y 1] m
    by (cases "m = 1") auto
  have "month_start y m + month_length y m \<le> month_start y 12 + month_length y 12"
    using month_start_mono [of m 12 y] month_length_bounds(1) [of y 12] m by (cases "m = 12") auto
  with first d show "year_start y < day_number (y, m, d)" "day_number (y, m, d) \<le> year_start (y + 1)"
    unfolding year_start_Suc month_start_ends(2) by (simp_all add: day_number_def)
qed

lemma earlier_day_number: "valid_ymd s \<Longrightarrow> valid_ymd t \<Longrightarrow> earlier s t \<Longrightarrow> day_number s < day_number t"
proof -
  obtain y m d y' m' d' where st: "s = (y, m, d)" "t = (y', m', d')" by (cases s, cases t) auto
  assume v: "valid_ymd s" "valid_ymd t" and e: "earlier s t"
  consider "y < y'" | "y = y'" "m < m'" | "y = y'" "m = m'" "d < d'"
    using e by (auto simp: earlier_def st)
  then show ?thesis
  proof cases
    case 1
    have "day_number s \<le> year_start (y + 1)" "year_start y' < day_number t"
      using v day_number_bounds unfolding st by blast+
    with year_start_mono [OF 1] show ?thesis by linarith
  next
    case 2
    then have "month_start y m + month_length y m \<le> month_start y m'"
      using v by (intro month_start_mono) (auto simp: valid_ymd_def st)
    with 2 v show ?thesis by (auto simp: day_number_def valid_ymd_def st)
  next
    case 3
    then show ?thesis by (simp add: day_number_def st)
  qed
qed

lemma earlier_cases: "earlier s t \<or> s = t \<or> earlier t s"
  by (cases s, cases t) (auto simp: earlier_def)

lemma day_number_less: "valid_ymd s \<Longrightarrow> valid_ymd t \<Longrightarrow> day_number s < day_number t \<longleftrightarrow> earlier s t"
  using earlier_day_number [of s t] earlier_day_number [of t s] earlier_cases [of s t] by fastforce

lemma day_number_inj: "valid_ymd s \<Longrightarrow> valid_ymd t \<Longrightarrow> day_number s = day_number t \<longleftrightarrow> s = t"
  using earlier_day_number [of s t] earlier_day_number [of t s] earlier_cases [of s t] by fastforce


section \<open>Date strings\<close>

definition iso_date :: "ymd \<Rightarrow> string" where
  "iso_date t = (case t of (y, m, d) \<Rightarrow>
     two (y div 100) @ two (y mod 100) @ ''-'' @ two m @ ''-'' @ two d)"

text \<open>\<^verbatim>\<open>toISOString\<close> up to the day: years outside 0..9999 have a sign and six digits.\<close>

definition to_iso :: "ymd \<Rightarrow> string" where
  "to_iso t = (case t of (y, m, d) \<Rightarrow>
     if 0 \<le> y \<and> y \<le> 9999 then iso_date t
     else (if y < 0 then ''-'' else ''+'') @
       two (\<bar>y\<bar> div 10000) @ two (\<bar>y\<bar> div 100 mod 100) @ two (\<bar>y\<bar> mod 100) @ ''-'' @ two m @ ''-'' @ two d)"

definition parse_date :: "string \<Rightarrow> ymd option" where
  "parse_date s =
     (if length s = 10 \<and> s ! 4 = CHR ''-'' \<and> s ! 7 = CHR ''-'' then
        (case (number_from 0 (take 4 s), number_from 0 (take 2 (drop 5 s)), number_from 0 (drop 8 s)) of
           (Some y, Some m, Some d) \<Rightarrow> Some (y, m, d)
         | _ \<Rightarrow> None)
      else None)"

definition calendar_date :: "string \<Rightarrow> bool" where
  "calendar_date s = (case parse_date s of None \<Rightarrow> False | Some t \<Rightarrow> valid_ymd t)"

text \<open>\<^verbatim>\<open>isCalendarDate\<close>; \<^verbatim>\<open>null\<close> and \<^verbatim>\<open>undefined\<close> are \<open>None\<close>.\<close>

definition isCalendarDate :: "string option \<Rightarrow> bool" where
  "isCalendarDate v = (case v of None \<Rightarrow> False | Some s \<Rightarrow> calendar_date s)"

text \<open>The day \<^verbatim>\<open>new Date(`${s}T00:00:00Z`)\<close> stands for: a calendar date, or the year and month with
  an expanded year that a cut-off ISO string is; \<open>None\<close> is an Invalid Date.\<close>

definition js_date :: "string \<Rightarrow> ymd option" where
  "js_date s =
     (if calendar_date s then parse_date s
      else if length s = 10 \<and> s ! 0 \<in> {CHR ''+'', CHR ''-''} \<and> s ! 7 = CHR ''-'' then
        (case (number_from 0 (take 6 (tl s)), number_from 0 (drop 8 s)) of
           (Some y, Some m) \<Rightarrow>
             if 1 \<le> m \<and> m \<le> 12 then Some (if s ! 0 = CHR ''-'' then - y else y, m, 1) else None
         | _ \<Rightarrow> None)
      else None)"

definition isoDayOfWeek :: "string \<Rightarrow> int option" where
  "isoDayOfWeek localDate =
     (case js_date localDate of
        None \<Rightarrow> None
      | Some t \<Rightarrow> let day = day_number t mod 7 in Some (if day = 0 then 7 else day))"

definition isWorkingDay :: "string \<Rightarrow> int list \<Rightarrow> bool" where
  "isWorkingDay localDate workingDays =
     (case isoDayOfWeek localDate of None \<Rightarrow> False | Some k \<Rightarrow> k \<in> set workingDays)"

definition DEFAULT_WORKING_DAYS :: "int list" where
  "DEFAULT_WORKING_DAYS = [1, 2, 3, 4, 5]"

definition addDays :: "string \<Rightarrow> int \<Rightarrow> api_error + string" where
  "addDays localDate days =
     (case js_date localDate of
        None \<Rightarrow> Inl (Uncaught ''RangeError'')
      | Some t \<Rightarrow> Inr (take 10 (to_iso
          (if days \<ge> 0 then (next_day ^^ nat days) t else (prev_day ^^ nat (- days)) t))))"

text \<open>The loop over a window; \<open>None\<close> is a loop that does not end.\<close>

partial_function (option) days_from ::
  "string \<Rightarrow> string \<Rightarrow> int list \<Rightarrow> (api_error + string list) option" where
  "days_from d end_date workingDays =
     (if d \<le> end_date then
        (case addDays d 1 of
           Inl e \<Rightarrow> Some (Inl e)
         | Inr d' \<Rightarrow>
             Option.bind (days_from d' end_date workingDays) (\<lambda>r.
               Some (bind_sum r (\<lambda>ds. Inr (if isWorkingDay d workingDays then d # ds else ds)))))
      else Some (Inr []))"

definition workingDaysBetween :: "string \<Rightarrow> string \<Rightarrow> int list \<Rightarrow> (api_error + string list) option" where
  "workingDaysBetween start_date end_date workingDays =
     (if \<not> isCalendarDate (Some start_date) \<or> \<not> isCalendarDate (Some end_date) then Some (Inr [])
      else if end_date < start_date then Some (Inr [])
      else days_from start_date end_date workingDays)"

section \<open>Printing and reading dates\<close>

definition plain_year :: "ymd \<Rightarrow> bool" where
  "plain_year t \<longleftrightarrow> 0 \<le> fst t \<and> fst t \<le> 9999"

lemma ymd_bounds:
  assumes "valid_ymd (y, m, d)"
  shows "0 \<le> m" "m < 100" "0 \<le> d" "d < 100"
  using assms month_length_bounds(2) [of y m] by (auto simp: valid_ymd_def)

lemma year_bounds:
  "plain_year (y, m, d) \<Longrightarrow> 0 \<le> y div 100 \<and> y div 100 < 100 \<and> 0 \<le> y mod 100 \<and> y mod 100 < 100"
  by (auto simp: plain_year_def)

lemma parse_iso_date:
  assumes "valid_ymd t" "plain_year t"
  shows "parse_date (iso_date t) = Some t"
proof -
  obtain y m d where t: "t = (y, m, d)" by (cases t) auto
  note b = ymd_bounds [OF assms(1) [unfolded t]] year_bounds [OF assms(2) [unfolded t]]
  have two: "take 2 (two n) = two n" "length (two n) = 2" for n by (simp_all add: two_def)
  let ?s = "iso_date t"
  have s: "?s = two (y div 100) @ two (y mod 100) @ ''-'' @ two m @ ''-'' @ two d"
    by (simp add: iso_date_def t)
  have parts: "take 4 ?s = two (y div 100) @ two (y mod 100) @ []" "take 2 (drop 5 ?s) = two m @ []"
    "drop 8 ?s = two d @ []" "length ?s = 10" "?s ! 4 = CHR ''-''" "?s ! 7 = CHR ''-''"
    unfolding s by (simp_all add: two_def)
  have "number_from 0 (take 4 ?s) = Some (100 * (y div 100) + y mod 100)"
    unfolding parts using b by (simp add: number_from_two del: append_Nil2)
  moreover have "number_from 0 (take 2 (drop 5 ?s)) = Some m" "number_from 0 (drop 8 ?s) = Some d"
    unfolding parts using b by (simp_all add: number_from_two del: append_Nil2)
  ultimately show ?thesis using parts by (simp add: parse_date_def t)
qed

lemma iso_date_less:
  assumes "valid_ymd s" "plain_year s" "valid_ymd t" "plain_year t"
  shows "iso_date s < iso_date t \<longleftrightarrow> earlier s t"
proof -
  obtain y m d y' m' d' where st: "s = (y, m, d)" "t = (y', m', d')" by (cases s, cases t) auto
  note b = ymd_bounds [OF assms(1) [unfolded st]] year_bounds [OF assms(2) [unfolded st]]
    ymd_bounds [OF assms(3) [unfolded st]] year_bounds [OF assms(4) [unfolded st]]
  have "y < y' \<longleftrightarrow> y div 100 < y' div 100 \<or> y div 100 = y' div 100 \<and> y mod 100 < y' mod 100"
    using b div_mult_mod_eq [of y 100] div_mult_mod_eq [of y' 100] by linarith
  moreover have "y = y' \<longleftrightarrow> y div 100 = y' div 100 \<and> y mod 100 = y' mod 100"
    by (metis div_mult_mod_eq)
  ultimately show ?thesis
    using b by (auto simp: iso_date_def st earlier_def append_less_same_length two_less two_eq)
qed


lemma digit_value_Some: "digit_value c = Some v \<Longrightarrow> 0 \<le> v \<and> v < 10 \<and> c = digit_char v"
  by (auto simp: digit_value_def find_index_Some digit_char_def) (simp add: DIGITS_def)

lemma two_digits:
  assumes "0 \<le> a" "a < 10" "0 \<le> b" "b < 10"
  shows "two (10 * a + b) = [digit_char a, digit_char b]"
proof -
  have "(10 * a + b) div 10 = a" "(10 * a + b) mod 10 = b" using assms by auto
  then show ?thesis by (simp add: two_def)
qed

lemma number_from_2: "number_from 0 [c, c'] = Some n \<Longrightarrow> [c, c'] = two n"
  by (auto split: option.splits dest!: digit_value_Some simp: two_digits)

lemma number_from_4:
  assumes "number_from 0 [c1, c2, c3, c4] = Some n"
  shows "[c1, c2, c3, c4] = two (n div 100) @ two (n mod 100) \<and> 0 \<le> n \<and> n \<le> 9999"
proof -
  obtain a b c d where v: "digit_value c1 = Some a" "digit_value c2 = Some b" "digit_value c3 = Some c"
      "digit_value c4 = Some d" and n: "n = 10 * (10 * (10 * a + b) + c) + d"
    using assms by (auto split: option.splits)
  note digits = v [THEN digit_value_Some]
  define q r where qr: "q = 10 * a + b" "r = 10 * c + d"
  have "0 \<le> r" "r < 100" "n = q * 100 + r" using digits n by (auto simp: qr)
  then have "n div 100 = 10 * a + b" "n mod 100 = 10 * c + d" unfolding qr [symmetric] by simp_all
  with digits n show ?thesis by (simp add: two_digits)
qed

lemma parse_date_iso:
  assumes "parse_date s = Some t"
  shows "s = iso_date t \<and> plain_year t"
proof -
  from assms have len: "length s = 10" and dash: "s ! 4 = CHR ''-''" "s ! 7 = CHR ''-''"
    by (auto simp: parse_date_def split: if_splits)
  obtain c1 c2 c3 c4 c5 c6 c7 c8 c9 c10 where s: "s = [c1, c2, c3, c4, c5, c6, c7, c8, c9, c10]"
    using len by (auto simp: length_Suc_conv eval_nat_numeral)
  from assms len dash obtain y m d where t: "t = (y, m, d)" "number_from 0 [c1, c2, c3, c4] = Some y"
      "number_from 0 [c6, c7] = Some m" "number_from 0 [c9, c10] = Some d"
    by (auto simp: parse_date_def s split: option.splits)
  from number_from_4 [OF t(2)] number_from_2 [OF t(3)] number_from_2 [OF t(4)] dash show ?thesis
    by (simp add: s t(1) iso_date_def plain_year_def)
qed

lemma calendar_date_iff: "calendar_date s \<longleftrightarrow> (\<exists>t. valid_ymd t \<and> plain_year t \<and> s = iso_date t)"
proof
  assume "calendar_date s"
  then obtain t where "parse_date s = Some t" "valid_ymd t"
    unfolding calendar_date_def by (cases "parse_date s") simp_all
  then show "\<exists>t. valid_ymd t \<and> plain_year t \<and> s = iso_date t"
    using parse_date_iso by blast
qed (auto simp: calendar_date_def parse_iso_date)

definition day_of :: "string \<Rightarrow> int" where
  "day_of s = day_number (the (parse_date s))"

lemma day_of_iso: "valid_ymd t \<Longrightarrow> plain_year t \<Longrightarrow> day_of (iso_date t) = day_number t"
  by (simp add: day_of_def parse_iso_date)

lemma date_less: "calendar_date s \<Longrightarrow> calendar_date t \<Longrightarrow> s < t \<longleftrightarrow> day_of s < day_of t"
  by (auto simp: calendar_date_iff iso_date_less day_of_iso day_number_less)

lemma date_eq: "calendar_date s \<Longrightarrow> calendar_date t \<Longrightarrow> s = t \<longleftrightarrow> day_of s = day_of t"
  by (auto simp: calendar_date_iff day_of_iso day_number_inj)

lemma date_le: "calendar_date s \<Longrightarrow> calendar_date t \<Longrightarrow> s \<le> t \<longleftrightarrow> day_of s \<le> day_of t"
  using date_less [of t s] by (simp add: linorder_not_less [symmetric])

definition LAST_DATE :: string where
  "LAST_DATE = ''9999-12-31''"

lemma LAST_DATE_iso: "LAST_DATE = iso_date (9999, 12, 31)"
  unfolding LAST_DATE_def by code_simp

lemma last_valid: "valid_ymd (9999, 12, 31)" "plain_year (9999, 12, 31)"
  by (auto simp: valid_ymd_def month_length_def plain_year_def)

lemma calendar_date_last: "calendar_date LAST_DATE"
  using last_valid by (auto simp: LAST_DATE_iso calendar_date_iff)

lemma addDays_1:
  assumes "calendar_date s" "s \<noteq> LAST_DATE"
  obtains s' where "addDays s 1 = Inr s'" "calendar_date s'" "day_of s' = day_of s + 1"
proof -
  obtain t where t: "valid_ymd t" "plain_year t" "s = iso_date t" using assms(1) by (auto simp: calendar_date_iff)
  have "t \<noteq> (9999, 12, 31)" using assms(2) t(3) by (auto simp: LAST_DATE_iso)
  then have plain: "plain_year (next_day t)"
    using t(1,2) by (auto simp: plain_year_def next_day_def valid_ymd_def month_length_def split: prod.splits if_splits)
  then have "to_iso (next_day t) = iso_date (next_day t)"
    by (auto simp: to_iso_def plain_year_def split: prod.splits)
  moreover have "length (iso_date (next_day t)) = 10" by (simp add: iso_date_def split: prod.splits)
  moreover have "js_date s = Some t" using assms(1) t by (simp add: js_date_def parse_iso_date)
  ultimately have "addDays s 1 = Inr (iso_date (next_day t))" by (simp add: addDays_def)
  moreover have "calendar_date (iso_date (next_day t))"
    using plain valid_next [OF t(1)] unfolding calendar_date_iff by blast
  moreover have "day_of (iso_date (next_day t)) = day_of s + 1"
    using t plain valid_next [OF t(1)] by (simp add: day_of_iso day_number_next)
  ultimately show ?thesis using that by blast
qed


section \<open>The working days of a window\<close>

lemma days_from_past: "\<not> d \<le> e \<Longrightarrow> days_from d e w = Some (Inr [])"
  by (subst days_from.simps) simp

lemma days_from_step:
  assumes "d \<le> e" "addDays d 1 = Inr d'" "days_from d' e w = Some (Inr ds)"
  shows "days_from d e w = Some (Inr (if isWorkingDay d w then d # ds else ds))"
  using assms by (subst days_from.simps) simp

lemma days_from_window:
  assumes "calendar_date d" "calendar_date e" "e \<noteq> LAST_DATE"
  shows "\<exists>ds. days_from d e w = Some (Inr ds) \<and> sorted_wrt (<) ds \<and>
    set ds = {x. calendar_date x \<and> d \<le> x \<and> x \<le> e \<and> isWorkingDay x w}"
  using assms(1)
proof (induction "nat (day_of e + 1 - day_of d)" arbitrary: d)
  case 0
  then have "\<not> d \<le> e" using assms(2) by (simp add: date_le)
  then show ?case by (auto simp: days_from_past intro: order_trans)
next
  case (Suc n)
  then have de: "d \<le> e" using assms(2) by (simp add: date_le)
  have "e < LAST_DATE"
  proof -
    have "\<not> LAST_DATE < e"
    proof -
      obtain t where "valid_ymd t" "plain_year t" "e = iso_date t" using assms(2) by (auto simp: calendar_date_iff)
      then show ?thesis
        using iso_date_less [OF last_valid] month_length_bounds(2) [of "fst t"]
        by (auto simp: LAST_DATE_iso earlier_def plain_year_def valid_ymd_def month_length_def split: if_splits)
    qed
    with assms(3) show ?thesis by simp
  qed
  with de have "d \<noteq> LAST_DATE" by auto
  then obtain d' where d': "addDays d 1 = Inr d'" "calendar_date d'" "day_of d' = day_of d + 1"
    using addDays_1 [OF Suc.prems] by blast
  have "n = nat (day_of e + 1 - day_of d')" using Suc.hyps(2) d'(3) by simp
  from Suc.hyps(1) [OF this d'(2)] obtain ds where ds: "days_from d' e w = Some (Inr ds)" "sorted_wrt (<) ds"
    "set ds = {x. calendar_date x \<and> d' \<le> x \<and> x \<le> e \<and> isWorkingDay x w}"
    by blast
  have next_day: "d \<le> x \<longleftrightarrow> x = d \<or> d' \<le> x" if "calendar_date x" for x
    using that Suc.prems d'(2,3) by (auto simp: date_le date_eq)
  have "d < x" if "x \<in> set ds" for x
    using that ds(3) d' Suc.prems by (auto simp: date_le date_less)
  then have "sorted_wrt (<) (if isWorkingDay d w then d # ds else ds)" using ds(2) by simp
  moreover have "set (if isWorkingDay d w then d # ds else ds) =
      {x. calendar_date x \<and> d \<le> x \<and> x \<le> e \<and> isWorkingDay x w}"
    using ds(3) next_day Suc.prems de by auto
  ultimately show ?case using days_from_step [OF de d'(1) ds(1)] by blast
qed

text \<open>C36: for a window that does not reach to the last date of year 9999 the loop ends, and gives exactly
  the working days of the window in strict order; a missing or inverted window is empty.\<close>

theorem workingDaysBetween_exact:
  assumes "e \<noteq> LAST_DATE"
  shows "\<exists>ds. workingDaysBetween s e w = Some (Inr ds) \<and> sorted_wrt (<) ds \<and>
    set ds = {x. calendar_date s \<and> calendar_date e \<and> calendar_date x \<and> s \<le> x \<and> x \<le> e \<and> isWorkingDay x w}"
proof (cases "calendar_date s \<and> calendar_date e \<and> s \<le> e")
  case True
  with days_from_window [of s e w] assms show ?thesis
    by (auto simp: workingDaysBetween_def isCalendarDate_def)
next
  case False
  then have "workingDaysBetween s e w = Some (Inr [])"
    by (auto simp: workingDaysBetween_def isCalendarDate_def)
  moreover have "{x. calendar_date s \<and> calendar_date e \<and> calendar_date x \<and> s \<le> x \<and> x \<le> e \<and> isWorkingDay x w} = {}"
    using False by (auto intro: order_trans)
  ultimately show ?thesis by simp
qed

theorem workingDaysBetween_exact_witness:
  "\<exists>ds. workingDaysBetween ''2026-02-27'' ''2026-03-02'' [1, 2, 3, 4, 5] = Some (Inr ds) \<and>
     ''2026-02-27'' \<in> set ds \<and> ''2026-02-28'' \<notin> set ds"
proof -
  have "''2026-03-02'' \<noteq> LAST_DATE" by (simp add: LAST_DATE_def)
  from workingDaysBetween_exact [OF this, of "''2026-02-27''" "[1, 2, 3, 4, 5]"] obtain ds where
    ds: "workingDaysBetween ''2026-02-27'' ''2026-03-02'' [1, 2, 3, 4, 5] = Some (Inr ds)"
    "set ds = {x. calendar_date ''2026-02-27'' \<and> calendar_date ''2026-03-02'' \<and> calendar_date x \<and>
       ''2026-02-27'' \<le> x \<and> x \<le> ''2026-03-02'' \<and> isWorkingDay x [1, 2, 3, 4, 5]}" by blast
  have "calendar_date ''2026-02-27''" "calendar_date ''2026-03-02''" "''2026-02-27'' \<le> ''2026-03-02''"
    "isWorkingDay ''2026-02-27'' [1, 2, 3, 4, 5]" "\<not> isWorkingDay ''2026-02-28'' [1, 2, 3, 4, 5]"
    by code_simp+
  with ds show ?thesis by auto
qed

lemma addDays_overflow: "addDays LAST_DATE 1 = Inr ''+010000-01''" "addDays ''+010000-01'' 1 = Inr ''+010000-01''"
  unfolding LAST_DATE_def by code_simp+

lemma overflow_loops:
  assumes "days_from d e w = Some r"
  shows "\<not> (d = ''+010000-01'' \<and> e = LAST_DATE)"
proof (rule days_from.raw_induct [where P = "\<lambda>d e w r. \<not> (d = ''+010000-01'' \<and> e = LAST_DATE)", OF _ assms])
  fix f :: "string \<Rightarrow> string \<Rightarrow> int list \<Rightarrow> (api_error + string list) option" and d e w r
  assume ih: "\<And>d e w r. f d e w = Some r \<Longrightarrow> \<not> (d = ''+010000-01'' \<and> e = LAST_DATE)"
  assume body: "(if d \<le> e
      then case addDays d 1 of Inl err \<Rightarrow> Some (Inl err)
           | Inr d' \<Rightarrow> Option.bind (f d' e w) (\<lambda>r. Some (bind_sum r
               (\<lambda>ds. Inr (if isWorkingDay d w then d # ds else ds))))
      else Some (Inr [])) = Some r"
  have "''+010000-01'' \<le> LAST_DATE" unfolding LAST_DATE_def by code_simp
  show "\<not> (d = ''+010000-01'' \<and> e = LAST_DATE)"
  proof
    assume de: "d = ''+010000-01'' \<and> e = LAST_DATE"
    with body \<open>''+010000-01'' \<le> LAST_DATE\<close> obtain x where "f ''+010000-01'' LAST_DATE w = Some x"
      by (auto simp: addDays_overflow bind_eq_Some_conv)
    with ih show False by blast
  qed
qed

lemma days_from_overflow: "days_from ''+010000-01'' LAST_DATE w = None"
  using overflow_loops [of "''+010000-01''" LAST_DATE w] by (cases "days_from ''+010000-01'' LAST_DATE w") auto

lemma days_from_None:
  "d \<le> e \<Longrightarrow> addDays d 1 = Inr d' \<Longrightarrow> days_from d' e w = None \<Longrightarrow> days_from d e w = None"
  by (subst days_from.simps) simp

lemma date_le_last: "calendar_date d \<Longrightarrow> d \<le> LAST_DATE"
proof -
  assume "calendar_date d"
  then obtain t where "valid_ymd t" "plain_year t" "d = iso_date t" by (auto simp: calendar_date_iff)
  then have "\<not> LAST_DATE < d"
    using iso_date_less [OF last_valid]
    by (auto simp: LAST_DATE_iso earlier_def plain_year_def valid_ymd_def month_length_def split: if_splits)
  then show ?thesis by simp
qed

lemma days_from_last:
  assumes "calendar_date d"
  shows "days_from d LAST_DATE w = None"
  using assms
proof (induction "nat (day_of LAST_DATE - day_of d)" arbitrary: d)
  case 0
  then have "d = LAST_DATE"
    using date_le_last [OF 0(2)] calendar_date_last by (simp add: date_le date_eq)
  then show ?case
    using days_from_None [OF _ addDays_overflow(1) days_from_overflow] by simp
next
  case (Suc n)
  then have "d \<noteq> LAST_DATE" by auto
  then obtain d' where d': "addDays d 1 = Inr d'" "calendar_date d'" "day_of d' = day_of d + 1"
    using addDays_1 [OF Suc.prems] by blast
  have "n = nat (day_of LAST_DATE - day_of d')" using Suc.hyps(2) d'(3) by simp
  from days_from_None [OF date_le_last [OF Suc.prems] d'(1) Suc.hyps(1) [OF this d'(2)]] show ?case .
qed

text \<open>A window that ends on the last date of year 9999 is never left: the day after prints as
  \<^verbatim>\<open>+010000-01\<close>, which is still before the end as a string and is its own next day.\<close>

theorem workingDaysBetween_diverges:
  assumes "calendar_date s"
  shows "workingDaysBetween s ''9999-12-31'' w = None"
  using assms days_from_last [OF assms] date_le_last [OF assms] calendar_date_last
  by (simp add: workingDaysBetween_def isCalendarDate_def LAST_DATE_def)

theorem workingDaysBetween_diverges_witness:
  "workingDaysBetween ''2026-08-01'' ''9999-12-31'' [1, 2, 3, 4, 5] = None"
proof -
  have "calendar_date ''2026-08-01''" by code_simp
  then show ?thesis by (rule workingDaysBetween_diverges)
qed

text \<open>Weekdays follow one another, Sunday (7) being followed by Monday (1), across month and
  year ends and leap days.\<close>

theorem isoDayOfWeek_next:
  assumes "calendar_date s" "s \<noteq> LAST_DATE"
  shows "\<exists>s' k. addDays s 1 = Inr s' \<and> s < s' \<and> isoDayOfWeek s = Some k \<and> k \<in> {1..7} \<and>
    isoDayOfWeek s' = Some (if k = 7 then 1 else k + 1)"
proof -
  obtain s' where s': "addDays s 1 = Inr s'" "calendar_date s'" "day_of s' = day_of s + 1"
    using addDays_1 [OF assms] .
  have dow: "isoDayOfWeek x = Some (let k = day_of x mod 7 in if k = 0 then 7 else k)" if "calendar_date x" for x
    using that by (auto simp: isoDayOfWeek_def js_date_def day_of_def calendar_date_def Let_def split: option.splits)
  have "s < s'" using assms(1) s' by (simp add: date_less)
  moreover have "(d + 1) mod 7 = (if d mod 7 = 6 then 0 else d mod 7 + 1)" for d :: int
  proof -
    have "(d + 1) mod 7 = (d mod 7 + 1) mod 7" by (simp add: mod_add_left_eq)
    moreover have "0 \<le> d mod 7" "d mod 7 < 7" by simp_all
    ultimately show ?thesis by (auto intro: mod_pos_pos_trivial)
  qed
  moreover have "0 \<le> day_of s mod 7" "day_of s mod 7 \<le> 6" by auto
  ultimately show ?thesis
    using s' dow [OF assms(1)] dow [OF s'(2)] by (auto simp: Let_def)
qed

theorem isoDayOfWeek_next_witness:
  "isoDayOfWeek ''2024-02-28'' = Some 3 \<and> addDays ''2024-02-28'' 1 = Inr ''2024-02-29'' \<and>
   isoDayOfWeek ''2024-02-29'' = Some 4"
proof -
  have "calendar_date ''2024-02-28''" by code_simp
  moreover have "''2024-02-28'' \<noteq> LAST_DATE" by (simp add: LAST_DATE_def)
  ultimately have "\<exists>s' k. addDays ''2024-02-28'' 1 = Inr s' \<and> isoDayOfWeek ''2024-02-28'' = Some k \<and>
      isoDayOfWeek s' = Some (if k = 7 then 1 else k + 1)"
    using isoDayOfWeek_next by blast
  moreover have "addDays ''2024-02-28'' 1 = Inr ''2024-02-29''" "isoDayOfWeek ''2024-02-28'' = Some 3"
    by code_simp+
  ultimately show ?thesis by auto
qed

end
