(* ===== verification/Burndown.thy ===== *)
theory Burndown
  imports Calendar "HOL-Library.AList"
begin

text \<open>
  Report scopes and the iteration burndown: \<^verbatim>\<open>reporting/src/domain/report-scope.ts\<close> (the Team
  scopes, display rounding, day boundaries) and \<^verbatim>\<open>burndown.ts\<close>. Hours and points are rationals. A
  \<^verbatim>\<open>Map\<close> filled in order is an association list under \<open>AList.update\<close>, which keeps the place of a
  key that is set again. The instants that end a workspace day come from the time zone database
  and are arguments.
\<close>

section \<open>Report scope\<close>

datatype TeamScope = Team uuid | All | Teams "uuid list"

definition ALL_TEAMS :: TeamScope where
  "ALL_TEAMS = All"

definition teamScope :: "uuid option \<Rightarrow> TeamScope" where
  "teamScope teamId = (case teamId of None \<Rightarrow> ALL_TEAMS | Some t \<Rightarrow> if t = [] then ALL_TEAMS else Team t)"

definition restrictedTeamScope :: "uuid list \<Rightarrow> TeamScope" where
  "restrictedTeamScope teamIds = Teams (dedupe_by (\<lambda>t. t) {} teamIds)"

definition isEmptyTeamScope :: "TeamScope \<Rightarrow> bool" where
  "isEmptyTeamScope scope = (case scope of Teams ts \<Rightarrow> length ts = 0 | _ \<Rightarrow> False)"

text \<open>The frozen series a scope may be served: that of all teams, of one team, or none.\<close>

definition frozenSeriesScope :: "TeamScope \<Rightarrow> TeamScope option" where
  "frozenSeriesScope scope =
     (case scope of
        Teams ts \<Rightarrow> if length ts = 1 then Some (Team (ts ! 0)) else None
      | _ \<Rightarrow> Some scope)"

definition roundForDisplay :: "num \<Rightarrow> num" where
  "roundForDisplay v = of_int (math_round (v * 10 ^ 2)) / 10 ^ 2"

text \<open>\<open>closes\<close> is the instant \<^verbatim>\<open>endOfWorkspaceDay\<close> gives for the date in the time zone.\<close>

definition isEndOfDayCapture :: "num \<Rightarrow> num \<Rightarrow> num \<Rightarrow> bool" where
  "isEndOfDayCapture capturedAt closes windowHours \<longleftrightarrow>
     capturedAt \<ge> closes - windowHours * 60 * 60 * 1000 \<and> capturedAt \<le> closes"

text \<open>\<open>today\<close> is \<^verbatim>\<open>workspaceLocalDate(now, timeZone)\<close>.\<close>

definition isDayClosed :: "string \<Rightarrow> string \<Rightarrow> bool" where
  "isDayClosed localDate today \<longleftrightarrow> localDate < today"

lemma roundForDisplay_mono: "x \<le> y \<Longrightarrow> roundForDisplay x \<le> roundForDisplay y"
  by (simp add: roundForDisplay_def divide_right_mono math_round_mono)

lemma roundForDisplay_0 [simp]: "roundForDisplay 0 = 0"
  using math_round_of_int [of 0] by (simp add: roundForDisplay_def)

lemma roundForDisplay_error: "\<bar>roundForDisplay x - x\<bar> \<le> 1 / 200"
  using math_round_bounds [of "x * 10 ^ 2"] unfolding roundForDisplay_def abs_le_iff
  by (simp add: field_simps)

section \<open>The chart\<close>

record BurndownPoint =
  bp_date :: string
  bp_remaining :: "num option"
  bp_accepted :: "num option"
  bp_ideal :: "num option"
  bp_endOfDay :: "bool option"

datatype BurndownHistoryState = Complete | Partial | Missing | No_window

datatype BurndownStatus = On_track | Behind_plan | Unknown

definition idealLine :: "num \<Rightarrow> nat \<Rightarrow> num list" where
  "idealLine totalTaskEstimateAtStart workingDayCount =
     (if workingDayCount = 0 then []
      else
        let baseline = max 0 totalTaskEstimateAtStart in
        if workingDayCount = 1 then [baseline]
        else
          let last = workingDayCount - 1 in
          map (\<lambda>i. roundForDisplay (min baseline (max 0 (baseline * (1 - of_nat i / of_nat last)))))
            [0 ..< workingDayCount])"

record StoredSnapshot =
  ss_date :: string
  ss_remaining :: num
  ss_accepted :: num
  ss_capturedAt :: "num option"
  ss_endOfDay :: bool

record BurndownSeries =
  points :: "BurndownPoint list"
  historyState :: BurndownHistoryState
  bs_status :: BurndownStatus
  totalEstimate :: "num option"
  latestSnapshotDate :: "string option"
  partialCaptureDates :: "string list"

definition burndown_point ::
  "StoredSnapshot list \<Rightarrow> num list option \<Rightarrow> string \<Rightarrow> nat \<Rightarrow> BurndownPoint" where
  "burndown_point snapshots ideal date i =
     (let snap = map_of (rev (map (\<lambda>s. (ss_date s, s)) snapshots)) date in
      \<lparr>bp_date = date,
       bp_remaining = map_option (\<lambda>s. roundForDisplay (ss_remaining s)) snap,
       bp_accepted = map_option (\<lambda>s. roundForDisplay (ss_accepted s)) snap,
       bp_ideal = (case ideal of None \<Rightarrow> None | Some l \<Rightarrow> if i < length l then Some (l ! i) else None),
       bp_endOfDay = map_option ss_endOfDay snap\<rparr>)"

definition or0 :: "num option \<Rightarrow> num" where
  "or0 v = (case v of None \<Rightarrow> 0 | Some x \<Rightarrow> x)"

text \<open>The series over a given axis.\<close>

definition burndown_series :: "string list \<Rightarrow> num option \<Rightarrow> StoredSnapshot list \<Rightarrow> BurndownSeries" where
  "burndown_series axis baseline snapshots =
     (let ideal = map_option (\<lambda>b. idealLine b (length axis)) baseline;
          pts = map (\<lambda>(date, i). burndown_point snapshots ideal date i) (zip axis [0 ..< length axis]);
          onAxis = filter (\<lambda>p. bp_remaining p \<noteq> None) pts;
          latest = (if onAxis = [] then None else Some (last onAxis))
      in \<lparr>points = pts,
          historyState =
            (if length axis = 0 then No_window
             else if length onAxis = 0 then Missing
             else if length onAxis = length axis then Complete
             else Partial),
          bs_status =
            (case (latest, baseline) of
               (Some l, Some b) \<Rightarrow> if or0 (bp_remaining l) > or0 (bp_ideal l) then Behind_plan else On_track
             | _ \<Rightarrow> Unknown),
          totalEstimate = baseline,
          latestSnapshotDate = map_option bp_date latest,
          partialCaptureDates = map bp_date (filter (\<lambda>p. bp_endOfDay p = Some False) pts)\<rparr>)"

definition buildBurndownSeries ::
  "string \<Rightarrow> string \<Rightarrow> int list \<Rightarrow> num option \<Rightarrow> StoredSnapshot list \<Rightarrow> (api_error + BurndownSeries) option" where
  "buildBurndownSeries startDate endDate workingDays baseline snapshots =
     map_option (\<lambda>r. bind_sum r (\<lambda>axis. Inr (burndown_series axis baseline snapshots)))
       (workingDaysBetween startDate endDate workingDays)"

section \<open>Split markers\<close>

datatype SplitMarkerKind = Split_out | Carry_in

record StoredSplitEvent =
  se_splitId :: uuid
  se_sourceIterationId :: uuid
  se_targetIterationId :: uuid
  se_sourceMarkerDate :: string
  se_targetMarkerDate :: string
  se_unfinishedStoryId :: uuid
  se_unfinishedStoryKey :: string
  se_unfinishedPlanEstimate :: "num option"
  se_continuedStoryId :: uuid
  se_continuedStoryKey :: string
  se_continuedPlanEstimate :: "num option"
  se_movedTodoHours :: num
  se_actualHoursAtSplit :: num

record SplitMarker =
  sm_splitId :: uuid
  sm_kind :: SplitMarkerKind
  sm_date :: string
  sm_storyId :: uuid
  sm_storyKey :: string
  sm_points :: "num option"
  sm_todoHours :: num
  sm_actualHours :: num

definition splitOutMarkers :: "StoredSplitEvent list \<Rightarrow> SplitMarker list" where
  "splitOutMarkers events = map (\<lambda>e.
     \<lparr>sm_splitId = se_splitId e, sm_kind = Split_out, sm_date = se_sourceMarkerDate e,
      sm_storyId = se_unfinishedStoryId e, sm_storyKey = se_unfinishedStoryKey e,
      sm_points = se_unfinishedPlanEstimate e, sm_todoHours = se_movedTodoHours e,
      sm_actualHours = se_actualHoursAtSplit e\<rparr>) events"

definition carryInMarkers :: "StoredSplitEvent list \<Rightarrow> SplitMarker list" where
  "carryInMarkers events = map (\<lambda>e.
     \<lparr>sm_splitId = se_splitId e, sm_kind = Carry_in, sm_date = se_targetMarkerDate e,
      sm_storyId = se_continuedStoryId e, sm_storyKey = se_continuedStoryKey e,
      sm_points = se_continuedPlanEstimate e, sm_todoHours = se_movedTodoHours e,
      sm_actualHours = 0\<rparr>) events"

section \<open>Fusing the teams of a timebox\<close>

definition fuse :: "StoredSnapshot \<Rightarrow> StoredSnapshot \<Rightarrow> StoredSnapshot" where
  "fuse existing row =
     \<lparr>ss_date = ss_date row,
      ss_remaining = ss_remaining existing + ss_remaining row,
      ss_accepted = ss_accepted existing + ss_accepted row,
      ss_capturedAt =
        (case (ss_capturedAt existing, ss_capturedAt row) of
           (Some e, Some r) \<Rightarrow> if r > e then Some e else Some r
         | (e, Some r) \<Rightarrow> Some r
         | (e, None) \<Rightarrow> e),
      ss_endOfDay = (ss_endOfDay existing \<and> ss_endOfDay row)\<rparr>"

fun fuse_rows :: "StoredSnapshot list \<Rightarrow> (string \<times> StoredSnapshot) list \<Rightarrow> (string \<times> StoredSnapshot) list" where
  "fuse_rows [] byDate = byDate"
| "fuse_rows (row # rows) byDate =
     fuse_rows rows (AList.update (ss_date row)
       (case map_of byDate (ss_date row) of None \<Rightarrow> row | Some existing \<Rightarrow> fuse existing row) byDate)"

definition by_date :: "StoredSnapshot \<Rightarrow> StoredSnapshot \<Rightarrow> int" where
  "by_date a b = (if ss_date a < ss_date b then - 1 else if ss_date a > ss_date b then 1 else 0)"

definition combineTeamSnapshots :: "StoredSnapshot list \<Rightarrow> StoredSnapshot list" where
  "combineTeamSnapshots rows = js_sort by_date (map snd (fuse_rows rows []))"


section \<open>The Ideal line\<close>

lemma length_idealLine [simp]: "length (idealLine b n) = n"
  by (simp add: idealLine_def Let_def)

lemma idealLine_nth:
  assumes "i < n" "1 < n"
  shows "idealLine b n ! i = roundForDisplay (max 0 b * (1 - of_nat i / of_nat (n - 1)))"
proof -
  have "of_nat i / of_nat (n - 1) \<le> (1 :: rat)" using assms by (simp add: of_nat_diff)
  then have "0 \<le> max 0 b * (1 - of_nat i / of_nat (n - 1))"
      "max 0 b * (1 - of_nat i / of_nat (n - 1)) \<le> max 0 b"
    by (auto intro!: mult_nonneg_nonneg mult_left_le)
  then show ?thesis using assms by (simp add: idealLine_def Let_def min_absorb2 max_absorb2)
qed

text \<open>The Ideal line has one value per working day, starts at the baseline (at zero for a negative
  one), never rises, ends at zero when there are two days or more, and each value is within half a
  hundredth of the straight line between the two.\<close>

theorem idealLine_shape:
  assumes "0 < n"
  shows "length (idealLine b n) = n \<and>
    (n = 1 \<longrightarrow> idealLine b n = [max 0 b]) \<and>
    (1 < n \<longrightarrow> idealLine b n ! 0 = roundForDisplay (max 0 b) \<and> idealLine b n ! (n - 1) = 0 \<and>
       (\<forall>i j. i \<le> j \<longrightarrow> j < n \<longrightarrow> idealLine b n ! j \<le> idealLine b n ! i) \<and>
       (\<forall>i < n. \<bar>idealLine b n ! i - max 0 b * (1 - of_nat i / of_nat (n - 1))\<bar> \<le> 1 / 200))"
proof -
  have "idealLine b n ! j \<le> idealLine b n ! i" if "1 < n" "i \<le> j" "j < n" for i j
  proof -
    have "of_nat i / of_nat (n - 1) \<le> (of_nat j / of_nat (n - 1) :: rat)"
      using that by (intro divide_right_mono) auto
    then have "max 0 b * (1 - of_nat j / of_nat (n - 1)) \<le> max 0 b * (1 - of_nat i / of_nat (n - 1))"
      by (intro mult_left_mono) auto
    with that show ?thesis by (simp add: idealLine_nth roundForDisplay_mono)
  qed
  moreover have "\<bar>idealLine b n ! i - max 0 b * (1 - of_nat i / of_nat (n - 1))\<bar> \<le> 1 / 200" if "1 < n" "i < n" for i
    using that roundForDisplay_error by (simp add: idealLine_nth)
  moreover have "idealLine b n = [max 0 b]" if "n = 1" using that by (simp add: idealLine_def)
  moreover have "idealLine b n ! 0 = roundForDisplay (max 0 b)" "idealLine b n ! (n - 1) = 0" if "1 < n"
    using that by (simp_all add: idealLine_nth)
  ultimately show ?thesis using assms by simp
qed

theorem idealLine_shape_witness: "idealLine 40 5 ! 0 = roundForDisplay 40 \<and> idealLine 40 5 ! 4 = 0"
  using idealLine_shape [of 5 40] by simp

section \<open>The measured series\<close>

definition last_snapshot :: "StoredSnapshot list \<Rightarrow> string \<Rightarrow> StoredSnapshot option" where
  "last_snapshot snapshots d =
     (let l = filter (\<lambda>s. ss_date s = d) snapshots in if l = [] then None else Some (last l))"

lemma map_of_rev_last: "map_of (rev (map (\<lambda>s. (ss_date s, s)) snapshots)) d = last_snapshot snapshots d"
  by (induction snapshots rule: rev_induct) (auto simp: last_snapshot_def Let_def)

text \<open>the series plots exactly the axis; a plotted day has a value iff a snapshot of that date is
  stored (the last one, rounded) and is never interpolated; snapshots off the axis change nothing;
  and the history is complete, partial or missing according to how many days of the axis have one.\<close>

theorem burndown_series_measured:
  "map bp_date (points (burndown_series axis b snaps)) = axis \<and>
   (\<forall>p \<in> set (points (burndown_series axis b snaps)).
      bp_remaining p = map_option (\<lambda>s. roundForDisplay (ss_remaining s)) (last_snapshot snaps (bp_date p)) \<and>
      bp_accepted p = map_option (\<lambda>s. roundForDisplay (ss_accepted s)) (last_snapshot snaps (bp_date p))) \<and>
   burndown_series axis b (filter (\<lambda>s. ss_date s \<in> set axis) snaps) = burndown_series axis b snaps \<and>
   historyState (burndown_series axis b snaps) =
     (if axis = [] then No_window
      else if \<forall>d \<in> set axis. last_snapshot snaps d = None then Missing
      else if \<forall>d \<in> set axis. last_snapshot snaps d \<noteq> None then Complete else Partial)"
proof (intro conjI)
  let ?pt = "\<lambda>snaps. \<lambda>(date, i). burndown_point snaps (map_option (\<lambda>b. idealLine b (length axis)) b) date i"
  have pts: "points (burndown_series axis b s) = map (?pt s) (zip axis [0 ..< length axis])" for s
    by (simp add: burndown_series_def Let_def)
  show "map bp_date (points (burndown_series axis b snaps)) = axis"
    unfolding pts by (simp add: burndown_point_def Let_def comp_def split_def)
  show "\<forall>p \<in> set (points (burndown_series axis b snaps)).
      bp_remaining p = map_option (\<lambda>s. roundForDisplay (ss_remaining s)) (last_snapshot snaps (bp_date p)) \<and>
      bp_accepted p = map_option (\<lambda>s. roundForDisplay (ss_accepted s)) (last_snapshot snaps (bp_date p))"
    unfolding pts by (auto simp: burndown_point_def Let_def map_of_rev_last)
  have same: "last_snapshot (filter (\<lambda>s. ss_date s \<in> set axis) snaps) d = last_snapshot snaps d"
    if "d \<in> set axis" for d
  proof -
    have "filter (\<lambda>s. ss_date s = d) (filter (\<lambda>s. ss_date s \<in> set axis) snaps) = filter (\<lambda>s. ss_date s = d) snaps"
      using that by (simp add: conj_commute cong: conj_cong)
    then show ?thesis by (simp add: last_snapshot_def)
  qed
  have eq: "map (?pt (filter (\<lambda>s. ss_date s \<in> set axis) snaps)) (zip axis [0 ..< length axis]) =
      map (?pt snaps) (zip axis [0 ..< length axis])"
    by (rule map_cong) (auto simp: burndown_point_def map_of_rev_last Let_def same dest: set_zip_leftD)
  show "burndown_series axis b (filter (\<lambda>s. ss_date s \<in> set axis) snaps) = burndown_series axis b snaps"
    unfolding burndown_series_def Let_def by (simp only: eq)
  let ?on = "filter (\<lambda>p. bp_remaining p \<noteq> None) (points (burndown_series axis b snaps))"
  let ?has = "\<lambda>d. last_snapshot snaps d \<noteq> None"
  have "length ?on = length (filter ?has axis)"
  proof -
    have "bp_remaining p \<noteq> None \<longleftrightarrow> ?has (bp_date p)" if "p \<in> set (points (burndown_series axis b snaps))" for p
      using that unfolding pts by (auto simp: burndown_point_def Let_def map_of_rev_last)
    then have "?on = filter (\<lambda>p. ?has (bp_date p)) (points (burndown_series axis b snaps))"
      by (intro filter_cong) simp_all
    then have "map bp_date ?on = filter ?has (map bp_date (points (burndown_series axis b snaps)))"
      by (simp add: filter_map comp_def)
    also have "\<dots> = filter ?has axis"
      by (simp only: \<open>map bp_date (points (burndown_series axis b snaps)) = axis\<close>)
    finally have "map bp_date ?on = filter ?has axis" .
    then show ?thesis by (metis length_map)
  qed
  then have st: "historyState (burndown_series axis b snaps) =
      (if length axis = 0 then No_window else if length (filter ?has axis) = 0 then Missing
       else if length (filter ?has axis) = length axis then Complete else Partial)"
    by (simp add: burndown_series_def Let_def)
  show "historyState (burndown_series axis b snaps) =
     (if axis = [] then No_window
      else if \<forall>d \<in> set axis. last_snapshot snaps d = None then Missing
      else if \<forall>d \<in> set axis. last_snapshot snaps d \<noteq> None then Complete else Partial)"
    unfolding st by (auto simp: filter_empty_conv length_filter_all)
qed


theorem burndown_series_measured_witness:
  "historyState (burndown_series [''2026-03-02'', ''2026-03-03''] (Some 8)
     [\<lparr>ss_date = ''2026-03-02'', ss_remaining = 6, ss_accepted = 0, ss_capturedAt = None, ss_endOfDay = True\<rparr>]) = Partial"
  using burndown_series_measured [of "[''2026-03-02'', ''2026-03-03'']" "Some 8"
      "[\<lparr>ss_date = ''2026-03-02'', ss_remaining = 6, ss_accepted = 0, ss_capturedAt = None, ss_endOfDay = True\<rparr>]"]
  by (simp add: last_snapshot_def)

section \<open>Fused teams\<close>

fun fuse_all :: "StoredSnapshot option \<Rightarrow> StoredSnapshot list \<Rightarrow> StoredSnapshot option" where
  "fuse_all acc [] = acc"
| "fuse_all acc (r # rs) = fuse_all (Some (case acc of None \<Rightarrow> r | Some e \<Rightarrow> fuse e r)) rs"

lemma map_of_fuse_rows:
  "map_of (fuse_rows rows m) d = fuse_all (map_of m d) (filter (\<lambda>r. ss_date r = d) rows)"
  by (induction rows m rule: fuse_rows.induct) (auto simp: update_conv')

lemma distinct_fuse_rows: "distinct (map fst m) \<Longrightarrow> distinct (map fst (fuse_rows rows m))"
  by (induction rows m rule: fuse_rows.induct) (simp_all add: distinct_update)

lemma fuse_all_Some:
  "fuse_all (Some e) rs = Some s \<Longrightarrow>
    ss_remaining s = ss_remaining e + sum_list (map ss_remaining rs) \<and>
    ss_accepted s = ss_accepted e + sum_list (map ss_accepted rs) \<and>
    ss_endOfDay s = (ss_endOfDay e \<and> (\<forall>r \<in> set rs. ss_endOfDay r)) \<and>
    (\<forall>d. ss_date e = d \<longrightarrow> (\<forall>r \<in> set rs. ss_date r = d) \<longrightarrow> ss_date s = d)"
  by (induction rs arbitrary: e) (auto simp: fuse_def)

text \<open>The earliest capture of a list of rows, \<open>None\<close> when none was captured.\<close>

fun captures :: "StoredSnapshot list \<Rightarrow> num list" where
  "captures [] = []"
| "captures (r # rs) = (case ss_capturedAt r of None \<Rightarrow> captures rs | Some c \<Rightarrow> c # captures rs)"

definition earliest :: "StoredSnapshot list \<Rightarrow> num option" where
  "earliest rs = (if captures rs = [] then None else Some (Min (set (captures rs))))"

lemma earliest_fuse: "earliest (fuse e r # rs) = earliest (e # r # rs)"
proof -
  have "Min (insert a (insert b A)) = Min (insert (if b > a then a else b) A)" if "finite A" for a b :: rat and A
    using that by (cases "A = {}") (auto simp: min_def)
  from this [of "set (captures rs)"] show ?thesis
    by (cases "ss_capturedAt e"; cases "ss_capturedAt r") (auto simp: earliest_def fuse_def)
qed

lemma fuse_all_earliest: "fuse_all (Some e) rs = Some s \<Longrightarrow> ss_capturedAt s = earliest (e # rs)"
proof (induction rs arbitrary: e)
  case Nil
  then show ?case by (auto simp: earliest_def split: option.splits)
next
  case (Cons r rs)
  then have "ss_capturedAt s = earliest (fuse e r # rs)" by simp
  then show ?case by (simp only: earliest_fuse)
qed

lemma fuse_all_None: "fuse_all None rs = None \<longleftrightarrow> rs = []"
proof -
  have "fuse_all (Some e) rs \<noteq> None" for e rs by (induction rs arbitrary: e) auto
  then show ?thesis by (cases rs) auto
qed

interpretation dates: js_keyed_order by_date ss_date
proof
  show "by_date x y < 0 \<longleftrightarrow> 0 < by_date y x" for x y by (auto simp: by_date_def)
  show "by_date x y \<le> 0 \<Longrightarrow> by_date y z \<le> 0 \<Longrightarrow> by_date x z \<le> 0" for x y z
    by (auto simp: by_date_def split: if_splits)
  show "by_date x y = 0 \<Longrightarrow> ss_date x = ss_date y" for x y
    by (auto simp: by_date_def split: if_splits)
qed

text \<open>Fusing the teams gives one row per date that some team recorded, in date order; its hours and
  points are the sums over the teams, it is an end-of-day value only if every team's was, and its
  capture is the earliest; no row is lost and none is counted twice.\<close>

theorem combineTeamSnapshots_sums:
  "sorted_wrt (<) (map ss_date (combineTeamSnapshots rows)) \<and>
   set (map ss_date (combineTeamSnapshots rows)) = set (map ss_date rows) \<and>
   (\<forall>s \<in> set (combineTeamSnapshots rows).
      let team_rows = filter (\<lambda>r. ss_date r = ss_date s) rows in
      ss_remaining s = sum_list (map ss_remaining team_rows) \<and>
      ss_accepted s = sum_list (map ss_accepted team_rows) \<and>
      ss_endOfDay s = (\<forall>r \<in> set team_rows. ss_endOfDay r) \<and>
      ss_capturedAt s = earliest team_rows)"
proof -
  let ?m = "fuse_rows rows []"
  let ?on = "\<lambda>d. filter (\<lambda>r. ss_date r = d) rows"
  have mo: "map_of ?m d = fuse_all None (?on d)" for d by (simp add: map_of_fuse_rows)
  have dist: "distinct (map fst ?m)" by (simp add: distinct_fuse_rows)
  have entry: "ss_date s = d \<and> ss_remaining s = sum_list (map ss_remaining (?on d)) \<and>
      ss_accepted s = sum_list (map ss_accepted (?on d)) \<and>
      ss_endOfDay s = (\<forall>r \<in> set (?on d). ss_endOfDay r) \<and> ss_capturedAt s = earliest (?on d)"
    if "(d, s) \<in> set ?m" for d s
  proof -
    have s: "fuse_all None (?on d) = Some s" using that dist mo by (metis map_of_is_SomeI)
    then obtain r rs where rs: "?on d = r # rs" "fuse_all (Some r) rs = Some s" by (cases "?on d") auto
    have "\<forall>x \<in> set (?on d). ss_date x = d" by simp
    then have "ss_date r = d" "\<forall>r \<in> set rs. ss_date r = d" by (simp_all add: rs(1))
    with fuse_all_Some [OF rs(2)] fuse_all_earliest [OF rs(2)] show ?thesis by (simp add: rs(1))
  qed
  have dates: "map ss_date (map snd ?m) = map fst ?m" using entry by auto
  have keys: "set (map fst ?m) = ss_date ` set rows"
  proof -
    have "d \<in> set (map fst ?m) \<longleftrightarrow> ?on d \<noteq> []" for d
      using mo [of d] fuse_all_None [of "?on d"] by (metis (no_types) map_of_eq_None_iff set_map)
    moreover have "?on d \<noteq> [] \<longleftrightarrow> d \<in> ss_date ` set rows" for d
      by (auto simp: filter_empty_conv)
    ultimately show ?thesis by blast
  qed
  have "distinct (map ss_date (combineTeamSnapshots rows))"
    unfolding combineTeamSnapshots_def
    using distinct_map_mset [OF mset_js_sort, of ss_date by_date "map snd ?m"] dates dist by (simp only:)
  moreover have "sorted_wrt (\<lambda>a b. by_date a b \<le> 0) (combineTeamSnapshots rows)"
    unfolding combineTeamSnapshots_def by (rule dates.sorted_js_sort)
  then have "sorted (map ss_date (combineTeamSnapshots rows))"
    by (auto simp: sorted_wrt_map by_date_def elim!: sorted_wrt_mono_rel [rotated] split: if_splits)
  ultimately have "sorted_wrt (<) (map ss_date (combineTeamSnapshots rows))"
    by (simp add: strict_sorted_iff)
  moreover have "set (map ss_date (combineTeamSnapshots rows)) = set (map ss_date rows)"
  proof -
    have "set (map ss_date (combineTeamSnapshots rows)) = set (map ss_date (map snd ?m))"
      unfolding combineTeamSnapshots_def set_map set_js_sort ..
    also have "\<dots> = set (map fst ?m)" by (simp only: dates)
    finally show ?thesis using keys by simp
  qed
  ultimately show ?thesis using entry by (auto simp: combineTeamSnapshots_def Let_def)
qed


theorem combineTeamSnapshots_sums_witness:
  "set (map ss_date (combineTeamSnapshots
     [\<lparr>ss_date = ''2026-03-03'', ss_remaining = 6, ss_accepted = 0, ss_capturedAt = Some 9, ss_endOfDay = True\<rparr>,
      \<lparr>ss_date = ''2026-03-02'', ss_remaining = 8, ss_accepted = 1, ss_capturedAt = None, ss_endOfDay = True\<rparr>,
      \<lparr>ss_date = ''2026-03-03'', ss_remaining = 5, ss_accepted = 2, ss_capturedAt = Some 7, ss_endOfDay = False\<rparr>])) =
   {''2026-03-02'', ''2026-03-03''}"
  using combineTeamSnapshots_sums [of
     "[\<lparr>ss_date = ''2026-03-03'', ss_remaining = 6, ss_accepted = 0, ss_capturedAt = Some 9, ss_endOfDay = True\<rparr>,
      \<lparr>ss_date = ''2026-03-02'', ss_remaining = 8, ss_accepted = 1, ss_capturedAt = None, ss_endOfDay = True\<rparr>,
      \<lparr>ss_date = ''2026-03-03'', ss_remaining = 5, ss_accepted = 2, ss_capturedAt = Some 7, ss_endOfDay = False\<rparr>]"]
  by auto

end
