(* ===== verification/Velocity.thy ===== *)
theory Velocity
  imports Burndown
begin

text \<open>
  The velocity report, \<^verbatim>\<open>reporting/src/domain/velocity.ts\<close>: classification of the items of a
  timebox, the stacked bar with its loop over the items and its \<^verbatim>\<open>seen\<close> set, the averages over
  a window of bars, and the window itself. Instants are numbers of milliseconds.
\<close>

record VelocityItem =
  vi_id :: uuid
  planEstimate :: "num option"
  acceptedEquivalent :: bool
  acceptedDate :: "num option"
  vi_splitCarryover :: bool

datatype VelocitySegment = During | After | Not_accepted | Unclassified | Split_carryover

definition classify :: "VelocityItem \<Rightarrow> num \<Rightarrow> VelocitySegment" where
  "classify item iterationEndBoundary =
     (if vi_splitCarryover item then Split_carryover
      else if \<not> acceptedEquivalent item then Not_accepted
      else case acceptedDate item of
             None \<Rightarrow> Unclassified
           | Some t \<Rightarrow> if t \<le> iterationEndBoundary then During else After)"

record VelocityBar =
  timeboxKey :: string
  vb_name :: string
  vb_startDate :: "string option"
  vb_endDate :: "string option"
  acceptedDuring :: num
  acceptedAfter :: num
  notAccepted :: num
  unclassified :: num
  unclassifiedItems :: nat
  splitCarryover :: num
  splitStoryIds :: "uuid list"
  iterationCount :: nat

text \<open>The running totals of the loop.\<close>

record bar_totals =
  during :: num
  after :: num
  not_accepted :: num
  unclass :: num
  unclass_items :: nat
  split_carry :: num
  split_ids :: "uuid list"

definition no_totals :: bar_totals where
  "no_totals = \<lparr>during = 0, after = 0, not_accepted = 0, unclass = 0, unclass_items = 0,
     split_carry = 0, split_ids = []\<rparr>"

definition add_item :: "num \<Rightarrow> VelocityItem \<Rightarrow> bar_totals \<Rightarrow> bar_totals" where
  "add_item boundary item t =
     (let pts = or0 (planEstimate item) in
      case classify item boundary of
        During \<Rightarrow> t\<lparr>during := during t + pts\<rparr>
      | After \<Rightarrow> t\<lparr>after := after t + pts\<rparr>
      | Not_accepted \<Rightarrow> t\<lparr>not_accepted := not_accepted t + pts\<rparr>
      | Unclassified \<Rightarrow> t\<lparr>unclass := unclass t + pts, unclass_items := unclass_items t + 1\<rparr>
      | Split_carryover \<Rightarrow> t\<lparr>split_carry := split_carry t + pts, split_ids := split_ids t @ [vi_id item]\<rparr>)"

fun bar_loop :: "num \<Rightarrow> uuid set \<Rightarrow> VelocityItem list \<Rightarrow> bar_totals \<Rightarrow> bar_totals" where
  "bar_loop boundary seen [] t = t"
| "bar_loop boundary seen (item # items) t =
     (if vi_id item \<in> seen then bar_loop boundary seen items t
      else bar_loop boundary (insert (vi_id item) seen) items (add_item boundary item t))"

record bar_input =
  bi_timeboxKey :: string
  bi_name :: string
  bi_startDate :: "string option"
  bi_endDate :: "string option"
  endBoundary :: num
  bi_iterationCount :: nat
  bi_items :: "VelocityItem list"

definition buildBar :: "bar_input \<Rightarrow> VelocityBar" where
  "buildBar input =
     (let t = bar_loop (endBoundary input) {} (bi_items input) no_totals in
      \<lparr>timeboxKey = bi_timeboxKey input, vb_name = bi_name input, vb_startDate = bi_startDate input,
       vb_endDate = bi_endDate input, acceptedDuring = roundForDisplay (during t),
       acceptedAfter = roundForDisplay (after t), notAccepted = roundForDisplay (not_accepted t),
       unclassified = roundForDisplay (unclass t), unclassifiedItems = unclass_items t,
       splitCarryover = roundForDisplay (split_carry t), splitStoryIds = split_ids t,
       iterationCount = bi_iterationCount input\<rparr>)"

record VelocityAverages =
  trend :: "num option"
  last3 :: "num option"
  best3 :: "num option"
  worst3 :: "num option"
  sampleSize :: nat

definition avg :: "num list \<Rightarrow> num" where
  "avg xs = roundForDisplay (sum_list xs / of_nat (length xs))"

text \<open>\<^verbatim>\<open>(a, b) => a - b\<close> by its sign, and the array method \<^verbatim>\<open>slice(-n)\<close>.\<close>

definition ascending_cmp :: "num \<Rightarrow> num \<Rightarrow> int" where
  "ascending_cmp a b = (if a < b then - 1 else if a > b then 1 else 0)"

definition descending_cmp :: "num \<Rightarrow> num \<Rightarrow> int" where
  "descending_cmp a b = ascending_cmp b a"

definition slice_last :: "nat \<Rightarrow> 'a list \<Rightarrow> 'a list" where
  "slice_last n xs = (if n = 0 then xs else drop (length xs - n) xs)"

definition computeAverages :: "VelocityBar list \<Rightarrow> VelocityAverages" where
  "computeAverages barsOldestFirst =
     (let ds = map acceptedDuring barsOldestFirst in
      if length ds = 0
      then \<lparr>trend = None, last3 = None, best3 = None, worst3 = None, sampleSize = 0\<rparr>
      else
        let n = min 3 (length ds); descending = js_sort descending_cmp ds; ascending = js_sort ascending_cmp ds
        in \<lparr>trend = Some (avg ds), last3 = Some (avg (slice_last n ds)), best3 = Some (avg (take n descending)),
            worst3 = Some (avg (take n ascending)), sampleSize = length ds\<rparr>)"

definition selectWindow :: "'a list \<Rightarrow> nat \<Rightarrow> 'a list" where
  "selectWindow eligibleOldestFirst window = slice_last window eligibleOldestFirst"

section \<open>The bar\<close>

lemma bar_loop_dedupe:
  "bar_loop b seen items t = foldl (\<lambda>t i. add_item b i t) t (dedupe_by vi_id seen items)"
  by (induction b seen items t rule: bar_loop.induct) simp_all

definition points_of :: "num \<Rightarrow> VelocitySegment \<Rightarrow> VelocityItem list \<Rightarrow> num" where
  "points_of b seg items = sum_list (map (\<lambda>i. or0 (planEstimate i)) (filter (\<lambda>i. classify i b = seg) items))"

lemma foldl_add_item:
  "foldl (\<lambda>t i. add_item b i t) t items =
     \<lparr>during = during t + points_of b During items, after = after t + points_of b After items,
      not_accepted = not_accepted t + points_of b Not_accepted items,
      unclass = unclass t + points_of b Unclassified items,
      unclass_items = unclass_items t + length (filter (\<lambda>i. classify i b = Unclassified) items),
      split_carry = split_carry t + points_of b Split_carryover items,
      split_ids = split_ids t @ map vi_id (filter (\<lambda>i. classify i b = Split_carryover) items)\<rparr>"
proof (induction items arbitrary: t)
  case (Cons i items)
  then show ?case by (cases "classify i b") (auto simp: add_item_def Let_def points_of_def)
qed (simp add: points_of_def)

lemma points_of_partition:
  "points_of b During items + points_of b After items + points_of b Not_accepted items +
   points_of b Unclassified items + points_of b Split_carryover items =
   sum_list (map (\<lambda>i. or0 (planEstimate i)) items)"
proof (induction items)
  case (Cons i items)
  then show ?case by (cases "classify i b") (simp_all add: points_of_def)
qed (simp add: points_of_def)

text \<open>A whole number of hundredths, as the numeric columns store.\<close>

definition hundredths :: "num \<Rightarrow> bool" where
  "hundredths x \<longleftrightarrow> (\<exists>k::int. x * 100 = of_int k)"

lemma roundForDisplay_hundredths: "hundredths x \<Longrightarrow> roundForDisplay x = x"
  by (auto simp: hundredths_def roundForDisplay_def)

lemma hundredths_add: "hundredths x \<Longrightarrow> hundredths y \<Longrightarrow> hundredths (x + y)"
  by (auto simp: hundredths_def distrib_right simp flip: of_int_add)

lemma hundredths_diff: "hundredths x \<Longrightarrow> hundredths y \<Longrightarrow> hundredths (x - y)"
  by (auto simp: hundredths_def left_diff_distrib simp flip: of_int_diff)

lemma hundredths_0 [simp]: "hundredths 0"
  unfolding hundredths_def by (rule exI [of _ 0]) simp

lemma hundredths_sum_list: "\<forall>x\<in>set xs. hundredths x \<Longrightarrow> hundredths (sum_list xs)"
  by (induction xs) (simp_all add: hundredths_add)

lemma hundredths_points_of: "\<forall>i \<in> set items. hundredths (or0 (planEstimate i)) \<Longrightarrow> hundredths (points_of b seg items)"
  by (induction items) (auto simp: points_of_def intro: hundredths_add)


text \<open>C38: a bar counts every distinct item once, in exactly one of its five segments, so that with
  estimates in hundredths the segments add up to the estimates of the distinct items; an item that
  is a split placeholder is never counted as delivered, whatever its acceptance says.\<close>

theorem buildBar_partition:
  assumes "\<forall>i \<in> set (bi_items input). hundredths (or0 (planEstimate i))"
  defines "bar \<equiv> buildBar input" and "items \<equiv> dedupe_by vi_id {} (bi_items input)"
  shows "acceptedDuring bar + acceptedAfter bar + notAccepted bar + unclassified bar + splitCarryover bar =
      sum_list (map (\<lambda>i. or0 (planEstimate i)) items) \<and>
    acceptedDuring bar = sum_list (map (\<lambda>i. or0 (planEstimate i))
      (filter (\<lambda>i. \<not> vi_splitCarryover i \<and> acceptedEquivalent i \<and>
         (\<exists>t. acceptedDate i = Some t \<and> t \<le> endBoundary input)) items)) \<and>
    splitStoryIds bar = map vi_id (filter vi_splitCarryover items) \<and> distinct (splitStoryIds bar)"
proof -
  have sub: "set items \<subseteq> set (bi_items input)" unfolding items_def by (rule set_dedupe_by_subset)
  then have pts: "roundForDisplay (points_of (endBoundary input) seg items) = points_of (endBoundary input) seg items" for seg
    using assms(1) by (intro roundForDisplay_hundredths hundredths_points_of) auto
  let ?b = "endBoundary input"
  have bar: "acceptedDuring bar = points_of ?b During items" "acceptedAfter bar = points_of ?b After items"
    "notAccepted bar = points_of ?b Not_accepted items" "unclassified bar = points_of ?b Unclassified items"
    "splitCarryover bar = points_of ?b Split_carryover items"
    "splitStoryIds bar = map vi_id (filter (\<lambda>i. classify i ?b = Split_carryover) items)"
    by (simp_all add: bar_def buildBar_def Let_def bar_loop_dedupe items_def [symmetric] foldl_add_item
        no_totals_def pts)
  have split: "classify i ?b = Split_carryover \<longleftrightarrow> vi_splitCarryover i" for i
    by (auto simp: classify_def split: option.splits)
  have during: "classify i ?b = During \<longleftrightarrow> \<not> vi_splitCarryover i \<and> acceptedEquivalent i \<and>
      (\<exists>t. acceptedDate i = Some t \<and> t \<le> ?b)" for i
    by (auto simp: classify_def split: option.splits)
  have "distinct (map vi_id items)" unfolding items_def by (rule distinct_dedupe_by)
  then have "distinct (map vi_id (filter vi_splitCarryover items))" by (rule distinct_map_filter)
  then show ?thesis
    using points_of_partition [of ?b items] unfolding bar split by (simp add: points_of_def during)
qed

theorem buildBar_partition_witness:
  "splitStoryIds (buildBar \<lparr>bi_timeboxKey = ''k'', bi_name = ''Sprint 1'', bi_startDate = None, bi_endDate = None,
     endBoundary = 100, bi_iterationCount = 1, bi_items =
      [\<lparr>vi_id = ''a'', planEstimate = Some 5, acceptedEquivalent = True, acceptedDate = Some 90, vi_splitCarryover = True\<rparr>,
       \<lparr>vi_id = ''a'', planEstimate = Some 5, acceptedEquivalent = True, acceptedDate = Some 90, vi_splitCarryover = True\<rparr>]\<rparr>) = [''a'']"
proof -
  let ?i = "\<lparr>vi_id = ''a'', planEstimate = Some 5, acceptedEquivalent = True, acceptedDate = Some 90, vi_splitCarryover = True\<rparr>"
  let ?in = "\<lparr>bi_timeboxKey = ''k'', bi_name = ''Sprint 1'', bi_startDate = None, bi_endDate = None,
     endBoundary = 100, bi_iterationCount = 1, bi_items = [?i, ?i]\<rparr>"
  have "hundredths (or0 (planEstimate ?i))" by (auto simp: hundredths_def or0_def intro: exI [of _ 500])
  then have "\<forall>i \<in> set (bi_items ?in). hundredths (or0 (planEstimate i))" by simp
  from buildBar_partition [OF this] show ?thesis by simp
qed

section \<open>The averages\<close>

interpretation asc: js_keyed_order ascending_cmp "\<lambda>x. x"
  by standard (auto simp: ascending_cmp_def split: if_splits)

lemma js_sort_ascending: "js_sort ascending_cmp xs = sort xs"
proof -
  have "sorted_wrt (\<lambda>a b. ascending_cmp a b \<le> 0) (js_sort ascending_cmp xs)" by (rule asc.sorted_js_sort)
  then have "sorted (js_sort ascending_cmp xs)"
    by (rule sorted_wrt_mono_rel [rotated]) (auto simp: ascending_cmp_def split: if_splits)
  then show ?thesis by (intro properties_for_sort [symmetric]) simp_all
qed

lemma js_insert_neg: "js_insert descending_cmp x xs = map uminus (js_insert ascending_cmp (- x) (map uminus xs))"
  by (induction xs) (auto simp: descending_cmp_def ascending_cmp_def comp_def)

lemma js_sort_descending: "js_sort descending_cmp xs = map uminus (sort (map uminus xs))"
  by (induction xs) (simp_all add: js_insert_neg comp_def js_sort_ascending [symmetric])

text \<open>The sum of the \<open>k\<close> least is at most that of any \<open>k\<close>.\<close>

lemma sum_take_sorted_le:
  fixes ys zs :: "num list"
  assumes "sorted ys" "mset zs \<subseteq># mset ys"
  shows "sum_list (take (length zs) ys) \<le> sum_list zs"
  using assms
proof (induction ys arbitrary: zs)
  case (Cons y ys)
  show ?case
  proof (cases "y \<in> set zs")
    case True
    then have zs: "mset zs = add_mset y (mset (remove1 y zs))" "length zs = Suc (length (remove1 y zs))"
      by (simp_all add: length_remove1) (use length_pos_if_in_set [OF True] in linarith)
    have "mset (remove1 y zs) \<subseteq># mset ys" using Cons.prems(2) by (simp add: subset_eq_diff_conv)
    with Cons have "sum_list (take (length (remove1 y zs)) ys) \<le> sum_list (remove1 y zs)" by simp
    moreover have "sum_list zs = y + sum_list (remove1 y zs)"
      using sum_list_map_remove1 [OF True, of "\<lambda>x. x"] by simp
    ultimately show ?thesis using zs(2) by simp
  next
    case False
    have sub: "mset zs \<subseteq># mset ys"
    proof -
      have "count (mset zs) x \<le> count (mset ys) x" for x
      proof (cases "x = y")
        case True
        with False have "count (mset zs) x = 0" by (simp add: count_eq_zero_iff)
        then show ?thesis by (simp only: le0)
      qed (use mset_subset_eq_count [OF Cons.prems(2), of x] in simp)
      then show ?thesis by (rule mset_subset_eqI)
    qed
    have "sum_list (take n (y # ys)) \<le> sum_list (take n ys)" if "n \<le> length ys" for n
      using that Cons.prems(1)
    proof (induction n)
      case (Suc n)
      have "(y # ys) ! n \<le> (y # ys) ! Suc n"
        using Suc.prems sorted_nth_mono [of "y # ys" n "Suc n"] by simp
      with Suc show ?case by (simp add: take_Suc_conv_app_nth del: take_Suc_Cons)
    qed simp
    moreover have "length zs \<le> length ys" using size_mset_mono [OF sub] by simp
    ultimately show ?thesis using Cons.IH [OF _ sub] Cons.prems(1) by fastforce
  qed
qed simp


lemma sum_take_sorted_avg:
  fixes ys :: "num list"
  assumes "sorted ys" "k \<le> length ys"
  shows "of_nat (length ys) * sum_list (take k ys) \<le> of_nat k * sum_list ys"
proof (cases "k = 0")
  case False
  let ?m = "ys ! (k - 1)" and ?S = "sum_list (take k ys)" and ?R = "sum_list (drop k ys)"
  have split: "sum_list ys = ?S + ?R" by (metis append_take_drop_id sum_list_append)
  have "\<forall>x \<in> set (take k ys). x \<le> ?m"
    using assms False by (auto simp: in_set_conv_nth intro!: sorted_nth_mono) linarith+
  then have "?S \<le> of_nat k * ?m"
    using sum_list_mono [of "take k ys" "\<lambda>x. x" "\<lambda>_. ?m"] assms(2) by (simp add: sum_list_triv)
  moreover have "\<forall>x \<in> set (drop k ys). ?m \<le> x"
    using assms False by (auto simp: in_set_conv_nth intro!: sorted_nth_mono)
  then have "of_nat (length ys - k) * ?m \<le> ?R"
    using sum_list_mono [of "drop k ys" "\<lambda>_. ?m" "\<lambda>x. x"] by (simp add: sum_list_triv)
  ultimately have "of_nat (length ys - k) * ?S \<le> of_nat (length ys - k) * (of_nat k * ?m)"
    "of_nat k * (of_nat (length ys - k) * ?m) \<le> of_nat k * ?R"
    by (auto intro: mult_left_mono)
  then have "of_nat (length ys - k) * ?S \<le> of_nat k * ?R" by (simp add: mult.left_commute)
  with split assms(2) show ?thesis by (simp add: of_nat_diff algebra_simps)
qed simp

lemma avg_mono:
  "length xs = length ys \<Longrightarrow> sum_list xs \<le> sum_list ys \<Longrightarrow> avg xs \<le> avg ys"
  unfolding avg_def by (intro roundForDisplay_mono) (simp add: divide_right_mono)

lemma sum_list_uminus: "sum_list (map uminus xs) = - sum_list (xs :: num list)"
  by (induction xs) simp_all

lemma sum_list_sort: "sum_list (sort xs) = sum_list xs" for xs :: "num list"
  by (metis mset_sort sum_mset_sum_list)

lemma avg_least_le:
  fixes xs :: "num list"
  assumes "0 < k" "k \<le> length xs"
  shows "sum_list (take k (sort xs)) / of_nat k \<le> sum_list xs / of_nat (length xs)"
proof -
  have "(of_nat (length xs) :: rat) > 0" "(of_nat k :: rat) > 0" using assms by auto
  then show ?thesis
    using sum_take_sorted_avg [of "sort xs" k] assms
    by (simp add: pos_divide_le_eq pos_le_divide_eq sum_list_sort mult.commute)
qed

lemma sum_least_le:
  fixes xs zs :: "num list"
  assumes "length zs = k" "mset zs \<subseteq># mset xs"
  shows "sum_list (take k (sort xs)) \<le> sum_list zs"
  using sum_take_sorted_le [of "sort xs" zs] assms by simp

lemma sum_greatest:
  fixes xs :: "num list"
  shows "sum_list (take k (js_sort descending_cmp xs)) = - sum_list (take k (sort (map uminus xs)))"
  by (simp add: js_sort_descending take_map sum_list_uminus)

lemma mset_drop: "mset (drop n xs) \<subseteq># mset xs"
  by (metis append_take_drop_id mset_append mset_subset_eq_add_right)

text \<open>With at least one bar every average exists, the worst three are at most the trend and at most
  the last three, the best three at least, and the sample is every bar of the window.\<close>

theorem computeAverages_order:
  assumes "bars \<noteq> []"
  shows "\<exists>t l b w. computeAverages bars = \<lparr>trend = Some t, last3 = Some l, best3 = Some b, worst3 = Some w,
      sampleSize = length bars\<rparr> \<and> w \<le> t \<and> t \<le> b \<and> w \<le> l \<and> l \<le> b"
proof -
  define ds where "ds = map acceptedDuring bars"
  define k where "k = min 3 (length ds)"
  have k: "0 < k" "k \<le> length ds" using assms by (auto simp: k_def ds_def)
  let ?last = "drop (length ds - k) ds" and ?asc = "take k (sort ds)" and ?desc = "take k (js_sort descending_cmp ds)"
  have len: "length ?last = k" "length ?asc = k" "length ?desc = k" using k by simp_all
  have neg: "map uminus (map uminus ds) = ds" by (simp add: comp_def)
  have "sum_list ?asc \<le> sum_list ?last" by (rule sum_least_le [OF len(1) mset_drop])
  then have 1: "avg ?asc \<le> avg ?last" by (intro avg_mono) (simp_all add: len)
  have "sum_list (take k (sort (map uminus ds))) \<le> sum_list (drop (length ds - k) (map uminus ds))"
    using k by (intro sum_least_le mset_drop) simp
  then have "sum_list ?last \<le> sum_list ?desc" by (simp add: sum_greatest drop_map sum_list_uminus)
  then have 2: "avg ?last \<le> avg ?desc" by (intro avg_mono) (simp_all add: len)
  have 3: "avg ?asc \<le> avg ds"
    unfolding avg_def len using avg_least_le [OF k] by (intro roundForDisplay_mono)
  have "sum_list (take k (sort (map uminus ds))) / of_nat k \<le> sum_list (map uminus ds) / of_nat (length (map uminus ds))"
    using k by (intro avg_least_le) simp_all
  then have 4: "avg ds \<le> avg ?desc"
    unfolding avg_def len by (intro roundForDisplay_mono) (simp add: sum_greatest sum_list_uminus)
  have "computeAverages bars = \<lparr>trend = Some (avg ds), last3 = Some (avg ?last), best3 = Some (avg ?desc),
      worst3 = Some (avg ?asc), sampleSize = length bars\<rparr>"
    using k assms by (simp add: computeAverages_def Let_def ds_def [symmetric] k_def [symmetric]
        slice_last_def js_sort_ascending) (simp add: ds_def)
  with 1 2 3 4 show ?thesis by blast
qed

theorem computeAverages_order_witness:
  "\<exists>t l b w. computeAverages [buildBar \<lparr>bi_timeboxKey = ''k'', bi_name = ''Sprint 1'', bi_startDate = None,
     bi_endDate = None, endBoundary = 100, bi_iterationCount = 1, bi_items = []\<rparr>] =
   \<lparr>trend = Some t, last3 = Some l, best3 = Some b, worst3 = Some w, sampleSize = 1\<rparr> \<and> w \<le> b"
proof -
  let ?bars = "[buildBar \<lparr>bi_timeboxKey = ''k'', bi_name = ''Sprint 1'', bi_startDate = None,
     bi_endDate = None, endBoundary = 100, bi_iterationCount = 1, bi_items = []\<rparr>]"
  from computeAverages_order [of ?bars] show ?thesis by (auto intro: order_trans)
qed

end
