(* ===== verification/Doubles.thy ===== *)
theory Doubles
  imports Prelude "HOL-Library.Log_Nat"
begin

text \<open>
  Rounding to an IEEE double, for the places where the source floors the result of a division:
  \<open>fl x\<close> is the nearest number with a 53-bit significand, ties to even. The exponent range is not
  bounded; the numbers it is used on are percentages and ratios of hours and points.
\<close>

definition pow2 :: "int \<Rightarrow> rat" where
  "pow2 e = (if e \<ge> 0 then 2 ^ nat e else 1 / 2 ^ nat (- e))"

text \<open>The exponent of a positive rational: the greatest \<open>e\<close> with \<open>pow2 e \<le> x\<close>.\<close>

definition exponent :: "rat \<Rightarrow> int" where
  "exponent x = (case quotient_of x of (n, d) \<Rightarrow>
     let e = bitlen n - bitlen d in if pow2 e \<le> x then e else e - 1)"

definition round_half_even :: "rat \<Rightarrow> int" where
  "round_half_even r =
     (let f = \<lfloor>r\<rfloor>; rest = r - of_int f in
      if rest < 1 / 2 then f else if rest > 1 / 2 then f + 1 else if even f then f else f + 1)"

definition fl :: "rat \<Rightarrow> rat" where
  "fl x = (if x = 0 then 0
     else let ulp = pow2 (exponent \<bar>x\<bar> - 52) in sgn x * of_int (round_half_even (\<bar>x\<bar> / ulp)) * ulp)"

lemma pow2_pos [simp]: "0 < pow2 e"
  by (simp add: pow2_def)

lemma pow2_add: "pow2 (a + b) = pow2 a * pow2 b"
proof -
  have nat: "pow2 (int m - int n) = 2 ^ m / 2 ^ n" for m n
  proof (cases "n \<le> m")
    case True
    then have "(2::rat) ^ m = 2 ^ (m - n) * 2 ^ n" by (simp flip: power_add)
    with True show ?thesis by (simp add: pow2_def nat_diff_distrib)
  next
    case False
    then have "(2::rat) ^ n = 2 ^ (n - m) * 2 ^ m" by (simp flip: power_add)
    with False show ?thesis by (simp add: pow2_def nat_diff_distrib)
  qed
  obtain m n m' n' where "a = int m - int n" "b = int m' - int n'"
    using int_diff_cases by metis
  moreover from this have "a + b = int (m + m') - int (n + n')" by simp
  ultimately show ?thesis by (simp only: nat power_add) simp
qed

lemma exponent_le:
  assumes "0 < x"
  shows "pow2 (exponent x) \<le> x"
proof -
  obtain n d where q: "quotient_of x = (n, d)" by (cases "quotient_of x")
  then have x: "x = of_int n / of_int d" "0 < d" using quotient_of_div quotient_of_denom_pos by blast+
  with assms have n: "0 < n" by (simp add: zero_less_divide_iff)
  have bn: "2 ^ nat (bitlen n - 1) \<le> n" "bitlen n > 0" and bd: "d < 2 ^ nat (bitlen d)" "bitlen d > 0"
    using bitlen_bounds [OF n] bitlen_bounds [OF x(2)] bitlen_eq_zero_iff [of n] bitlen_eq_zero_iff [of d]
      bitlen_nonneg [of n] bitlen_nonneg [of d] n x(2) by linarith+
  have "pow2 (bitlen n - bitlen d - 1) \<le> x"
  proof -
    have "pow2 (bitlen n - bitlen d - 1) * pow2 (bitlen d) = pow2 (bitlen n - 1)"
      by (simp flip: pow2_add)
    also have "\<dots> \<le> of_int n"
    proof -
      have "pow2 (bitlen n - 1) = of_int (2 ^ nat (bitlen n - 1))" using bn(2) by (simp add: pow2_def)
      then show ?thesis using bn(1) by (simp only: of_int_le_iff)
    qed
    finally have "pow2 (bitlen n - bitlen d - 1) * pow2 (bitlen d) \<le> of_int n" .
    moreover have "of_int d \<le> pow2 (bitlen d)"
    proof -
      have "pow2 (bitlen d) = of_int (2 ^ nat (bitlen d))" using bd(2) by (simp add: pow2_def)
      then show ?thesis using bd(1) by (simp only: of_int_le_iff)
    qed
    ultimately have "pow2 (bitlen n - bitlen d - 1) * of_int d \<le> of_int n"
      by (meson mult_left_mono order_trans less_imp_le pow2_pos)
    then show ?thesis using x by (simp add: pos_le_divide_eq)
  qed
  then show ?thesis by (simp add: exponent_def q Let_def)
qed

lemma round_half_even_error: "\<bar>of_int (round_half_even r) - r\<bar> \<le> 1 / 2"
  unfolding round_half_even_def Let_def by (auto simp: abs_if) linarith+

text \<open>Rounding changes a number by at most one part in \<open>2 ^ 53\<close>.\<close>

lemma fl_error: "\<bar>fl x - x\<bar> \<le> \<bar>x\<bar> / 2 ^ 53"
proof (cases "x = 0")
  case False
  let ?ulp = "pow2 (exponent \<bar>x\<bar> - 52)"
  let ?r = "of_int (round_half_even (\<bar>x\<bar> / ?ulp)) :: rat"
  have "\<bar>fl x - x\<bar> = \<bar>sgn x * (?r * ?ulp - \<bar>x\<bar>)\<bar>"
    using False by (simp add: fl_def Let_def right_diff_distrib mult.assoc sgn_mult_abs mult_sgn_abs)
  also have "\<dots> = \<bar>?r * ?ulp - \<bar>x\<bar>\<bar>"
    using False by (simp add: abs_mult)
  also have "\<dots> = \<bar>?r - \<bar>x\<bar> / ?ulp\<bar> * ?ulp"
  proof -
    have "?r * ?ulp - \<bar>x\<bar> = (?r - \<bar>x\<bar> / ?ulp) * ?ulp"
      by (simp add: left_diff_distrib pow2_pos [THEN less_imp_neq, symmetric])
    then show ?thesis by (simp only: abs_mult) (simp add: less_imp_le)
  qed
  also have "\<dots> \<le> 1 / 2 * ?ulp"
    using round_half_even_error by (intro mult_right_mono) (auto intro: less_imp_le)
  also have "\<dots> = pow2 (exponent \<bar>x\<bar>) / 2 ^ 53"
  proof -
    have "pow2 (exponent \<bar>x\<bar>) = ?ulp * pow2 52" by (simp flip: pow2_add)
    then show ?thesis by (simp add: pow2_def)
  qed
  also have "\<dots> \<le> \<bar>x\<bar> / 2 ^ 53"
    using exponent_le [of "\<bar>x\<bar>"] False by (simp add: divide_right_mono)
  finally show ?thesis .
qed (simp add: fl_def)

end
