(* ===== verification/ReleaseTracking.thy ===== *)
theory ReleaseTracking
  imports Burndown Doubles
begin

text \<open>
  Release Tracking, \<^verbatim>\<open>reporting/src/domain/release-tracking.ts\<close>: the bucket each Feature and each
  Story or Defect belongs to, search and sort over a bucket, the Status cells, the release totals,
  the mismatch issues and the burnup. The collation of \<^verbatim>\<open>Intl.Collator\<close> is an argument
  (\<open>collate\<close>); of it only consistency as a comparator is used. The Status percentage is computed
  in double precision, as the source does, because it is floored.
\<close>

datatype ChartUnit = Points | Count

datatype ChildType = Story | Defect

record ReleaseChild =
  rc_id :: uuid
  rc_itemKey :: string
  rc_type :: ChildType
  rc_title :: string
  rc_featureId :: "uuid option"
  rc_releaseId :: "uuid option"
  rc_releaseName :: "string option"
  rc_teamId :: "uuid option"
  rc_planEstimate :: "num option"
  rc_accepted :: bool

record ReleaseFeature =
  rf_id :: uuid
  rf_releaseId :: "uuid option"
  rf_teamId :: "uuid option"
  refinedPoints :: num
  refinedCount :: num
  preliminaryPoints :: num
  preliminaryCount :: num

definition inScope :: "uuid option \<Rightarrow> TeamScope \<Rightarrow> bool" where
  "inScope teamId scope =
     (case scope of
        All \<Rightarrow> True
      | Teams ts \<Rightarrow> (case teamId of None \<Rightarrow> False | Some t \<Rightarrow> t \<in> set ts)
      | Team t \<Rightarrow> teamId = None \<or> teamId = Some t)"

section \<open>Buckets\<close>

record FeatureBuckets =
  direct :: "ReleaseFeature list"
  derived :: "ReleaseFeature list"
  derivedCause :: "(uuid \<times> ReleaseChild list) list"

text \<open>The grouping loop: a child is appended to the list of its Feature.\<close>

fun group_children ::
  "uuid \<Rightarrow> TeamScope \<Rightarrow> ReleaseChild list \<Rightarrow> (uuid \<times> ReleaseChild list) list \<Rightarrow> (uuid \<times> ReleaseChild list) list" where
  "group_children releaseId scope [] m = m"
| "group_children releaseId scope (child # children) m =
     group_children releaseId scope children
       (case rc_featureId child of
          None \<Rightarrow> m
        | Some f \<Rightarrow>
            if rc_releaseId child \<noteq> Some releaseId then m
            else if \<not> inScope (rc_teamId child) scope then m
            else AList.update f ((case map_of m f of None \<Rightarrow> [] | Some l \<Rightarrow> l) @ [child]) m)"

definition bucket_feature ::
  "uuid \<Rightarrow> TeamScope \<Rightarrow> (uuid \<times> ReleaseChild list) list \<Rightarrow> ReleaseFeature \<Rightarrow> FeatureBuckets \<Rightarrow> FeatureBuckets" where
  "bucket_feature releaseId scope scoped feature b =
     (if rf_releaseId feature = Some releaseId
      then if inScope (rf_teamId feature) scope then b\<lparr>direct := direct b @ [feature]\<rparr> else b
      else case map_of scoped (rf_id feature) of
             None \<Rightarrow> b
           | Some cause \<Rightarrow>
               if length cause > 0
               then b\<lparr>derived := derived b @ [feature],
                      derivedCause := AList.update (rf_id feature) cause (derivedCause b)\<rparr>
               else b)"

definition bucketFeatures ::
  "ReleaseFeature list \<Rightarrow> ReleaseChild list \<Rightarrow> uuid \<Rightarrow> TeamScope \<Rightarrow> FeatureBuckets" where
  "bucketFeatures features children releaseId scope =
     (let scoped = group_children releaseId scope children []
      in foldl (\<lambda>b f. bucket_feature releaseId scope scoped f b)
           \<lparr>direct = [], derived = [], derivedCause = []\<rparr> features)"

definition dedupe :: "ReleaseChild list \<Rightarrow> ReleaseChild list" where
  "dedupe items = dedupe_by rc_id {} items"

definition unparentedItems :: "ReleaseChild list \<Rightarrow> uuid \<Rightarrow> TeamScope \<Rightarrow> ReleaseChild list" where
  "unparentedItems children releaseId scope =
     dedupe (filter (\<lambda>c. rc_featureId c = None \<and> rc_releaseId c = Some releaseId \<and> inScope (rc_teamId c) scope) children)"

section \<open>Search and sort\<close>

datatype SortField = By_rank | By_id | By_team | By_name

datatype SortDirection = Asc | Desc

record BucketSortKeys =
  bk_rank :: int
  bk_itemKey :: string
  bk_name :: string
  bk_teamLabel :: string

fun str_includes :: "string \<Rightarrow> string \<Rightarrow> bool" where
  "str_includes term s = (take (length term) s = term \<or> (case s of [] \<Rightarrow> False | c # cs \<Rightarrow> str_includes term cs))"

definition bucket_key :: "SortField \<Rightarrow> BucketSortKeys \<Rightarrow> string" where
  "bucket_key f e = (case f of By_id \<Rightarrow> bk_itemKey e | By_name \<Rightarrow> bk_name e | _ \<Rightarrow> bk_teamLabel e)"

definition bucket_cmp ::
  "(string \<Rightarrow> string \<Rightarrow> int) \<Rightarrow> int \<Rightarrow> SortField \<Rightarrow> BucketSortKeys \<Rightarrow> BucketSortKeys \<Rightarrow> int" where
  "bucket_cmp collate direction f a b =
     (let primary = collate (bucket_key f a) (bucket_key f b) * direction
      in if primary \<noteq> 0 then primary else bk_rank a - bk_rank b)"

definition refineBucket ::
  "(string \<Rightarrow> string \<Rightarrow> int) \<Rightarrow> BucketSortKeys list \<Rightarrow> string option \<Rightarrow> (SortField \<times> SortDirection) option
    \<Rightarrow> BucketSortKeys list" where
  "refineBucket collate entries q sort_by =
     (let term = toLowerCase (trim (case q of None \<Rightarrow> [] | Some s \<Rightarrow> s));
          matched = (if term \<noteq> []
            then filter (\<lambda>e. str_includes term (toLowerCase (bk_name e)) \<or> str_includes term (toLowerCase (bk_itemKey e))) entries
            else entries)
      in case sort_by of
           None \<Rightarrow> matched
         | Some (f, d) \<Rightarrow>
             if f = By_rank then (if d = Desc then js_sort (\<lambda>a b. bk_rank b - bk_rank a) matched else matched)
             else js_sort (bucket_cmp collate (if d = Desc then - 1 else 1) f) matched)"

section \<open>Status, totals, issues, burnup\<close>

record StatusValue =
  sv_accepted :: num
  sv_total :: num
  sv_percent :: "int option"

definition measure_of :: "ReleaseChild list \<Rightarrow> ChartUnit \<Rightarrow> num" where
  "measure_of items unit =
     (case unit of
        Points \<Rightarrow> roundForDisplay (sum_list (map (\<lambda>i. or0 (rc_planEstimate i)) items))
      | Count \<Rightarrow> of_nat (length items))"

definition directStatus :: "ReleaseChild list \<Rightarrow> ChartUnit \<Rightarrow> StatusValue" where
  "directStatus children unit =
     (let items = dedupe children; planned = measure_of items unit;
          accepted = measure_of (filter rc_accepted items) unit
      in \<lparr>sv_accepted = accepted, sv_total = planned,
          sv_percent = (if planned > 0 then Some \<lfloor>fl (fl (accepted / planned) * 100)\<rfloor> else None)\<rparr>)"

definition derivedStatus :: "ReleaseChild list \<Rightarrow> ChartUnit \<Rightarrow> StatusValue" where
  "derivedStatus scopedChildren unit =
     (let items = dedupe scopedChildren
      in \<lparr>sv_accepted = measure_of (filter rc_accepted items) unit, sv_total = measure_of items unit,
          sv_percent = None\<rparr>)"

definition trackedLeaves :: "ReleaseChild list \<Rightarrow> uuid \<Rightarrow> TeamScope \<Rightarrow> ReleaseChild list" where
  "trackedLeaves children releaseId scope =
     dedupe (filter (\<lambda>c. rc_releaseId c = Some releaseId \<and> inScope (rc_teamId c) scope) children)"

record ReleaseTotals =
  rt_planned :: num
  rt_accepted :: num
  rt_preliminary :: num

fun preliminary_loop :: "ChartUnit \<Rightarrow> uuid set \<Rightarrow> ReleaseFeature list \<Rightarrow> num \<Rightarrow> num" where
  "preliminary_loop unit seen [] acc = acc"
| "preliminary_loop unit seen (f # fs) acc =
     (if rf_id f \<in> seen then preliminary_loop unit seen fs acc
      else preliminary_loop unit (insert (rf_id f) seen) fs
        (acc + (case unit of
           Points \<Rightarrow> if refinedPoints f > 0 then refinedPoints f else preliminaryPoints f
         | Count \<Rightarrow> if refinedCount f > 0 then refinedCount f else preliminaryCount f)))"

definition preliminaryTotal :: "ReleaseFeature list \<Rightarrow> ChartUnit \<Rightarrow> num" where
  "preliminaryTotal features unit = roundForDisplay (preliminary_loop unit {} features 0)"

definition releaseTotals :: "ReleaseChild list \<Rightarrow> ReleaseFeature list \<Rightarrow> ChartUnit \<Rightarrow> ReleaseTotals" where
  "releaseTotals leaves featuresInRelease unit =
     \<lparr>rt_planned = measure_of leaves unit, rt_accepted = measure_of (filter rc_accepted leaves) unit,
      rt_preliminary = preliminaryTotal featuresInRelease unit\<rparr>"

record ReleaseMismatch =
  childId :: uuid
  childKey :: string
  childTitle :: string
  childType :: ChildType
  itemReleaseId :: uuid
  itemReleaseName :: "string option"

definition releaseMismatches :: "ReleaseChild list \<Rightarrow> uuid \<Rightarrow> ReleaseMismatch list" where
  "releaseMismatches children releaseId =
     map (\<lambda>c. \<lparr>childId = rc_id c, childKey = rc_itemKey c, childTitle = rc_title c, childType = rc_type c,
               itemReleaseId = the (rc_releaseId c), itemReleaseName = rc_releaseName c\<rparr>)
       (filter (\<lambda>c. rc_releaseId c \<noteq> None \<and> rc_releaseId c \<noteq> Some releaseId) (dedupe children))"

definition isFullMismatch :: "ReleaseChild list \<Rightarrow> uuid \<Rightarrow> bool" where
  "isFullMismatch children releaseId =
     (let assigned = filter (\<lambda>c. rc_releaseId c \<noteq> None) (dedupe children)
      in length assigned > 0 \<and> list_all (\<lambda>c. rc_releaseId c \<noteq> Some releaseId) assigned)"

record FeatureProgress =
  fp_points :: StatusValue
  fp_stories :: StatusValue
  fp_defects :: StatusValue

definition featureProgress :: "ReleaseChild list \<Rightarrow> FeatureProgress" where
  "featureProgress children =
     (let items = dedupe children
      in \<lparr>fp_points = directStatus items Points,
          fp_stories = directStatus (filter (\<lambda>c. rc_type c = Story) items) Count,
          fp_defects = directStatus (filter (\<lambda>c. rc_type c = Defect) items) Count\<rparr>)"

record StoredBurnupRow =
  bu_date :: string
  bu_accepted :: num
  bu_planned :: num
  bu_preliminary :: num

record BurnupPoint =
  pt_date :: string
  pt_accepted :: "num option"
  pt_planned :: "num option"
  pt_preliminary :: "num option"
  pt_ideal :: "num option"

record Burnup =
  burnup_points :: "BurnupPoint list"
  burnup_state :: BurndownHistoryState
  burnup_target :: "num option"

definition buildBurnup :: "string list \<Rightarrow> num option \<Rightarrow> StoredBurnupRow list \<Rightarrow> Burnup" where
  "buildBurnup axis idealTarget snapshots =
     (let byDate = map_of (rev (map (\<lambda>s. (bu_date s, s)) snapshots));
          last_index = int (length axis) - 1;
          pts = map (\<lambda>(date, i). let snap = byDate date in
            \<lparr>pt_date = date,
             pt_accepted = map_option (\<lambda>s. roundForDisplay (bu_accepted s)) snap,
             pt_planned = map_option (\<lambda>s. roundForDisplay (bu_planned s)) snap,
             pt_preliminary = map_option (\<lambda>s. roundForDisplay (bu_preliminary s)) snap,
             pt_ideal = (case idealTarget of
                None \<Rightarrow> None
              | Some t \<Rightarrow> Some (roundForDisplay (if last_index \<le> 0 then t else t * of_nat i / of_int last_index)))\<rparr>)
            (zip axis [0 ..< length axis]);
          measured = length (filter (\<lambda>p. pt_accepted p \<noteq> None) pts)
      in \<lparr>burnup_points = pts,
          burnup_state = (if length axis = 0 then No_window else if measured = 0 then Missing
             else if measured = length axis then Complete else Partial),
          burnup_target = idealTarget\<rparr>)"


section \<open>Classification\<close>

definition scoped_child :: "uuid \<Rightarrow> TeamScope \<Rightarrow> ReleaseChild \<Rightarrow> bool" where
  "scoped_child releaseId scope c \<longleftrightarrow> rc_releaseId c = Some releaseId \<and> inScope (rc_teamId c) scope"

lemma map_of_group_children:
  "map_of (group_children r scope children m) f =
     (let more = filter (\<lambda>c. rc_featureId c = Some f \<and> scoped_child r scope c) children
      in if more = [] then map_of m f
         else Some ((case map_of m f of None \<Rightarrow> [] | Some l \<Rightarrow> l) @ more))"
  by (induction r scope children m rule: group_children.induct)
    (auto simp: update_conv' scoped_child_def Let_def split: option.splits)

lemma foldl_bucket_feature:
  "direct (foldl (\<lambda>b f. bucket_feature r scope m f b) b fs) =
     direct b @ filter (\<lambda>f. rf_releaseId f = Some r \<and> inScope (rf_teamId f) scope) fs"
  "derived (foldl (\<lambda>b f. bucket_feature r scope m f b) b fs) =
     derived b @ filter (\<lambda>f. rf_releaseId f \<noteq> Some r \<and> (\<exists>l. map_of m (rf_id f) = Some l \<and> l \<noteq> [])) fs"
  by (induction fs arbitrary: b) (auto simp: bucket_feature_def split: option.splits)

lemma bucketFeatures_filter:
  "direct (bucketFeatures features children r scope) =
     filter (\<lambda>f. rf_releaseId f = Some r \<and> inScope (rf_teamId f) scope) features"
  "derived (bucketFeatures features children r scope) =
     filter (\<lambda>f. rf_releaseId f \<noteq> Some r \<and>
       (\<exists>c \<in> set children. rc_featureId c = Some (rf_id f) \<and> scoped_child r scope c)) features"
proof -
  have eq: "(\<exists>l. map_of (group_children r scope children []) (rf_id f) = Some l \<and> l \<noteq> []) \<longleftrightarrow>
      (\<exists>c \<in> set children. rc_featureId c = Some (rf_id f) \<and> scoped_child r scope c)" for f
    by (auto simp: map_of_group_children Let_def filter_empty_conv)
  show "direct (bucketFeatures features children r scope) =
     filter (\<lambda>f. rf_releaseId f = Some r \<and> inScope (rf_teamId f) scope) features"
    "derived (bucketFeatures features children r scope) =
     filter (\<lambda>f. rf_releaseId f \<noteq> Some r \<and>
       (\<exists>c \<in> set children. rc_featureId c = Some (rf_id f) \<and> scoped_child r scope c)) features"
    by (simp_all add: bucketFeatures_def foldl_bucket_feature eq)
qed

lemma dedupe_key: "x \<in> set xs \<Longrightarrow> \<exists>y \<in> set (dedupe xs). rc_id y = rc_id x"
proof -
  assume "x \<in> set xs"
  then have "rc_id x \<in> rc_id ` set (dedupe xs)"
    unfolding dedupe_def keys_dedupe_by by simp
  then show ?thesis by force
qed

text \<open>No Feature is both direct and derived, and no measured leaf is lost: a leaf of the release in
  scope is listed as unparented, or its Feature is in one of the two buckets, unless that Feature
  carries the release itself under a Team outside the scope (never so for All Teams).\<close>

theorem buckets_cover_leaves:
  assumes "c \<in> set (trackedLeaves children r scope)" and "distinct (map rc_id children)"
  shows "c \<in> set (unparentedItems children r scope) \<or>
      (\<exists>f. rc_featureId c = Some f \<and> (\<forall>feature \<in> set features. rf_id feature = f \<longrightarrow>
         feature \<in> set (direct (bucketFeatures features children r scope)) \<or>
         feature \<in> set (derived (bucketFeatures features children r scope)) \<or>
         rf_releaseId feature = Some r \<and> \<not> inScope (rf_teamId feature) scope)) \<and>
      set (direct (bucketFeatures features children r scope)) \<inter>
        set (derived (bucketFeatures features children r scope)) = {}"
proof -
  have id: "dedupe (filter P children) = filter P children" for P
    unfolding dedupe_def using assms(2) by (intro dedupe_by_id) (auto intro: distinct_map_filter)
  from assms(1) have c: "c \<in> set children" "scoped_child r scope c"
    unfolding trackedLeaves_def id by (auto simp: scoped_child_def)
  show ?thesis
  proof (cases "rc_featureId c")
    case None
    with c show ?thesis unfolding unparentedItems_def id by (auto simp: scoped_child_def)
  next
    case (Some f)
    have "feature \<in> set (direct (bucketFeatures features children r scope)) \<or>
         feature \<in> set (derived (bucketFeatures features children r scope)) \<or>
         rf_releaseId feature = Some r \<and> \<not> inScope (rf_teamId feature) scope"
      if "feature \<in> set features" "rf_id feature = f" for feature
      using that c Some by (auto simp: bucketFeatures_filter)
    moreover have "set (direct (bucketFeatures features children r scope)) \<inter>
        set (derived (bucketFeatures features children r scope)) = {}"
      by (auto simp: bucketFeatures_filter)
    ultimately show ?thesis using Some by (auto simp: inScope_def)
  qed
qed

theorem buckets_cover_leaves_witness:
  "let c = \<lparr>rc_id = ''c'', rc_itemKey = ''US-1'', rc_type = Story, rc_title = ''t'', rc_featureId = Some ''f'',
      rc_releaseId = Some ''r'', rc_releaseName = None, rc_teamId = None, rc_planEstimate = Some 3, rc_accepted = False\<rparr>;
    f = \<lparr>rf_id = ''f'', rf_releaseId = None, rf_teamId = None, refinedPoints = 0, refinedCount = 0,
      preliminaryPoints = 5, preliminaryCount = 1\<rparr>;
    b = bucketFeatures [f] [c] ''r'' All
   in unparentedItems [c] ''r'' All = [] \<and> f \<in> set (direct b) \<union> set (derived b) \<and> set (direct b) \<inter> set (derived b) = {}"
proof -
  define c where "c = \<lparr>rc_id = ''c'', rc_itemKey = ''US-1'', rc_type = Story, rc_title = ''t'', rc_featureId = Some ''f'',
    rc_releaseId = Some ''r'', rc_releaseName = None, rc_teamId = None, rc_planEstimate = Some 3, rc_accepted = False\<rparr>"
  define f where "f = \<lparr>rf_id = ''f'', rf_releaseId = None, rf_teamId = None, refinedPoints = 0, refinedCount = 0,
    preliminaryPoints = 5, preliminaryCount = 1\<rparr>"
  have pre: "c \<in> set (trackedLeaves [c] ''r'' All)" "distinct (map rc_id [c])"
    by (simp_all add: trackedLeaves_def dedupe_def c_def inScope_def)
  have u: "unparentedItems [c] ''r'' All = []" by (simp add: unparentedItems_def dedupe_def c_def)
  have "rc_featureId c = Some (rf_id f)" "rf_releaseId f = None" by (simp_all add: c_def f_def)
  with buckets_cover_leaves [OF pre, of "[f]"] u
  have "f \<in> set (direct (bucketFeatures [f] [c] ''r'' All)) \<union> set (derived (bucketFeatures [f] [c] ''r'' All)) \<and>
      set (direct (bucketFeatures [f] [c] ''r'' All)) \<inter> set (derived (bucketFeatures [f] [c] ''r'' All)) = {}"
    by simp
  with u show ?thesis unfolding Let_def c_def f_def by blast
qed

section \<open>The order of a bucket\<close>

lemma bucket_cmp_order:
  assumes "js_order collate" and "d = 1 \<or> d = - 1"
  shows "js_keyed_order (bucket_cmp collate d f) bk_rank"
proof -
  have ranks: "js_order (\<lambda>a b. bk_rank a - bk_rank b)" by unfold_locales auto
  have "js_order (\<lambda>a b. collate (bucket_key f a) (bucket_key f b) * d)"
    using js_order.js_order_image [OF assms(1), of "bucket_key f"] assms(2)
      js_order.js_order_reverse [OF js_order.js_order_image [OF assms(1), of "bucket_key f"]] by auto
  from js_order.js_order_lex [OF this ranks] have "js_order (bucket_cmp collate d f)"
    by (simp add: bucket_cmp_def [abs_def] Let_def)
  moreover have "bucket_cmp collate d f a b = 0 \<Longrightarrow> bk_rank a = bk_rank b" for a b
    by (auto simp: bucket_cmp_def Let_def split: if_splits)
  ultimately show ?thesis by (intro js_keyed_order.intro js_keyed_order_axioms.intro)
qed

interpretation by_rank: js_keyed_order "\<lambda>a b. bk_rank b - bk_rank a" bk_rank
  by unfold_locales auto

definition bucket_match :: "string option \<Rightarrow> BucketSortKeys \<Rightarrow> bool" where
  "bucket_match q e \<longleftrightarrow>
     (let s = toLowerCase (trim (case q of None \<Rightarrow> [] | Some s \<Rightarrow> s))
      in s = [] \<or> str_includes s (toLowerCase (bk_name e)) \<or> str_includes s (toLowerCase (bk_itemKey e)))"

lemma refineBucket_matched:
  "refineBucket collate es q sort_by =
     (case sort_by of
        None \<Rightarrow> filter (bucket_match q) es
      | Some (f, d) \<Rightarrow>
          if f = By_rank
          then (if d = Desc then js_sort (\<lambda>a b. bk_rank b - bk_rank a) (filter (bucket_match q) es)
                else filter (bucket_match q) es)
          else js_sort (bucket_cmp collate (if d = Desc then - 1 else 1) f) (filter (bucket_match q) es))"
  unfolding refineBucket_def bucket_match_def Let_def by (auto split: option.split)

text \<open>A page is cut from an order that the request fixes: on any column but Rank ascending, two
  readings of the same bucket in any order of arrival give the same list, which holds exactly the
  matching rows, ordered by the column in the asked direction and by rank within a tie.\<close>

theorem refineBucket_order:
  assumes "js_order collate" and "distinct (map bk_rank es)" and "mset es' = mset es"
    and "f \<noteq> By_rank"
  shows "refineBucket collate es' q (Some (f, d)) = refineBucket collate es q (Some (f, d)) \<and>
    mset (refineBucket collate es q (Some (f, d))) = mset (filter (bucket_match q) es) \<and>
    sorted_wrt (\<lambda>a b. let c = collate (bucket_key f a) (bucket_key f b) in
        (if d = Asc then c < 0 else 0 < c) \<or> c = 0 \<and> bk_rank a \<le> bk_rank b)
      (refineBucket collate es q (Some (f, d)))"
proof -
  let ?d = "if d = Desc then - 1 else 1 :: int"
  have ord: "js_keyed_order (bucket_cmp collate ?d f) bk_rank"
    by (rule bucket_cmp_order [OF assms(1)]) simp
  have eq: "refineBucket collate es q (Some (f, d)) = js_sort (bucket_cmp collate ?d f) (filter (bucket_match q) es)" for es
    using assms(4) by (simp add: refineBucket_matched)
  have "js_sort (bucket_cmp collate ?d f) (filter (bucket_match q) es') =
      js_sort (bucket_cmp collate ?d f) (filter (bucket_match q) es)"
    using assms(2,3) distinct_map_mset [OF assms(3), of bk_rank]
    by (intro js_keyed_order.js_sort_perm [OF ord]) (auto intro: distinct_map_filter simp: mset_filter)
  moreover have "sorted_wrt (\<lambda>a b. bucket_cmp collate ?d f a b \<le> 0)
      (js_sort (bucket_cmp collate ?d f) (filter (bucket_match q) es))"
    by (rule js_order.sorted_js_sort [OF js_keyed_order.axioms(1) [OF ord]])
  then have "sorted_wrt (\<lambda>a b. let c = collate (bucket_key f a) (bucket_key f b) in
        (if d = Asc then c < 0 else 0 < c) \<or> c = 0 \<and> bk_rank a \<le> bk_rank b)
      (js_sort (bucket_cmp collate ?d f) (filter (bucket_match q) es))"
    by (rule sorted_wrt_mono_rel [rotated]) (cases d; auto simp: bucket_cmp_def Let_def split: if_splits)
  ultimately show ?thesis by (simp add: eq)
qed

theorem refineBucket_order_witness:
  "let cmp = (\<lambda>a b. of_bool (b < a) - of_bool (a < b)) :: string \<Rightarrow> string \<Rightarrow> int;
       e = (\<lambda>r n t. \<lparr>bk_rank = r, bk_itemKey = ''FE'', bk_name = n, bk_teamLabel = t\<rparr>);
       es = [e 1 ''Pay'' ''T2'', e 2 ''Login'' ''T1'', e 3 ''Payout'' ''T2'']
   in refineBucket cmp (rev es) (Some '' PAY '') (Some (By_team, Desc)) =
        refineBucket cmp es (Some '' PAY '') (Some (By_team, Desc)) \<and>
      map bk_rank (refineBucket cmp es (Some '' PAY '') (Some (By_team, Desc))) = [1, 3]"
proof -
  define cmp where "cmp = ((\<lambda>a b. of_bool (b < a) - of_bool (a < b)) :: string \<Rightarrow> string \<Rightarrow> int)"
  define e where "e = (\<lambda>r n t. \<lparr>bk_rank = r, bk_itemKey = ''FE'', bk_name = n, bk_teamLabel = t\<rparr>)"
  define es where "es = [e 1 ''Pay'' ''T2'', e 2 ''Login'' ''T1'', e 3 ''Payout'' ''T2'']"
  have "js_order cmp" by unfold_locales (auto simp: cmp_def of_bool_def split: if_splits)
  moreover have "distinct (map bk_rank es)" "mset (rev es) = mset es" by (simp_all add: es_def e_def)
  ultimately have "refineBucket cmp (rev es) (Some '' PAY '') (Some (By_team, Desc)) =
      refineBucket cmp es (Some '' PAY '') (Some (By_team, Desc))"
    using refineBucket_order [of cmp es "rev es" By_team "Some '' PAY ''" Desc] by simp
  moreover have "map bk_rank (refineBucket cmp es (Some '' PAY '') (Some (By_team, Desc))) = [1, 3]"
    unfolding es_def e_def cmp_def by code_simp
  ultimately show ?thesis by (simp add: es_def e_def cmp_def Let_def)
qed

section \<open>The percentage of a Direct Feature\<close>

lemma measure_cents: "\<exists>k. measure_of items unit = of_int k / 100"
proof (cases unit)
  case Points
  then show ?thesis by (auto simp: measure_of_def roundForDisplay_def)
next
  case Count
  then show ?thesis by (intro exI [of _ "100 * int (length items)"]) (simp add: measure_of_def)
qed

lemma measure_filter_le:
  assumes "\<forall>i \<in> set items. 0 \<le> or0 (rc_planEstimate i)"
  shows "measure_of (filter P items) unit \<le> measure_of items unit" "0 \<le> measure_of items unit"
proof -
  have "sum_list (map (\<lambda>i. or0 (rc_planEstimate i)) (filter P items)) \<le> sum_list (map (\<lambda>i. or0 (rc_planEstimate i)) items)"
    using assms by (induction items) auto
  then show "measure_of (filter P items) unit \<le> measure_of items unit"
    by (auto simp: measure_of_def roundForDisplay_mono split: ChartUnit.split)
  have "0 \<le> sum_list (map (\<lambda>i. or0 (rc_planEstimate i)) items)" using assms by (induction items) auto
  from roundForDisplay_mono [OF this] show "0 \<le> measure_of items unit"
    by (auto simp: measure_of_def split: ChartUnit.split)
qed

text \<open>Two roundings of \<open>100 * (a / t)\<close>, for \<open>0 \<le> a \<le> t\<close>.\<close>

lemma fl_percent:
  assumes "0 \<le> a" "a \<le> t" "0 < (t :: rat)"
  shows "\<bar>fl (fl (a / t) * 100) - a / t * 100\<bar> \<le> 1 / 2 ^ 40" "0 \<le> fl (fl (a / t) * 100)"
proof -
  define x where "x = a / t"
  have x: "0 \<le> x" "x \<le> 1" using assms by (auto simp: x_def divide_le_eq)
  have e1: "\<bar>fl x - x\<bar> \<le> x / 2 ^ 53" using fl_error [of x] x by simp
  note e1 = abs_le_D1 [OF e1, simplified] abs_le_D2 [OF e1, simplified]
  have y: "0 \<le> fl x" "fl x \<le> 2" using x e1 by linarith+
  have e2: "\<bar>fl (fl x * 100) - fl x * 100\<bar> \<le> fl x * 100 / 2 ^ 53" using fl_error [of "fl x * 100"] y by simp
  note e2 = abs_le_D1 [OF e2, simplified] abs_le_D2 [OF e2, simplified]
  show "\<bar>fl (fl (a / t) * 100) - a / t * 100\<bar> \<le> 1 / 2 ^ 40"
    using e1 e2 x y unfolding x_def [symmetric] abs_le_iff by simp
  show "0 \<le> fl (fl (a / t) * 100)" using e2 y unfolding x_def [symmetric] abs_le_iff by simp
qed

lemma floor_percent:
  assumes "\<bar>y - x\<bar> \<le> 1 / 2 ^ 40" and "x = of_int (100 * a) / of_int t" and "0 < t" and "t \<le> 10 ^ 11"
  shows "\<lfloor>y\<rfloor> \<in> {\<lfloor>x\<rfloor> - 1, \<lfloor>x :: rat\<rfloor>}"
proof -
  have near: "y - x \<le> 1 / 2 ^ 40" "x - y \<le> 1 / 2 ^ 40"
    using abs_le_D1 [OF assms(1)] abs_le_D2 [OF assms(1)] by simp_all
  have "y \<ge> x - 1" using near(2) by simp
  then have "\<lfloor>x\<rfloor> - 1 \<le> \<lfloor>y\<rfloor>" by linarith
  moreover have "y < of_int \<lfloor>x\<rfloor> + 1"
  proof -
    let ?k = "\<lfloor>x\<rfloor> + 1"
    have "of_int (100 * a) < (of_int (?k * t) :: rat)"
      using assms(2,3) floor_correct [of x] by (simp add: divide_less_eq)
    then have "100 * a < ?k * t" by (simp only: of_int_less_iff)
    then have "100 * a + 1 \<le> ?k * t" by simp
    then have "of_int (100 * a + 1) \<le> (of_int (?k * t) :: rat)" by (simp only: of_int_le_iff)
    then have "of_int (100 * a) / of_int t + 1 / of_int t \<le> (of_int ?k :: rat)"
      using assms(3) by (simp add: divide_simps)
    then have "x + 1 / of_int t \<le> of_int ?k" using assms(2) by simp
    moreover have "(of_int t :: rat) \<le> of_int (10 ^ 11)" using assms(4) by (simp only: of_int_le_iff)
    then have "1 / (10 ^ 11 :: rat) \<le> 1 / of_int t"
      using assms(3) by (simp add: frac_le)
    ultimately show ?thesis using near(1) by simp
  qed
  then have "\<lfloor>y\<rfloor> \<le> \<lfloor>x\<rfloor>" by linarith
  ultimately show ?thesis by auto
qed

text \<open>The percentage of a Direct Feature never overstates: for a total of up to \<open>10 ^ 9\<close> points it is
  the floor of the exact percentage or one less, it lies in 0 to 100, and it reads 100 only when
  everything is accepted. (The one less does occur: the division and the product are rounded before
  the floor is taken, so 29 of 100 reads 28.)\<close>

theorem directStatus_percent:
  assumes "\<forall>i \<in> set children. 0 \<le> or0 (rc_planEstimate i)"
    and "0 < sv_total (directStatus children unit)" and "sv_total (directStatus children unit) \<le> 10 ^ 9"
  shows "\<exists>p. sv_percent (directStatus children unit) = Some p \<and>
     p \<in> {\<lfloor>100 * sv_accepted (directStatus children unit) / sv_total (directStatus children unit)\<rfloor> - 1,
          \<lfloor>100 * sv_accepted (directStatus children unit) / sv_total (directStatus children unit)\<rfloor>} \<and>
     0 \<le> p \<and> p \<le> 100 \<and>
     (p = 100 \<longrightarrow> sv_accepted (directStatus children unit) = sv_total (directStatus children unit))"
proof -
  define t where "t = measure_of (dedupe children) unit"
  define a where "a = measure_of (filter rc_accepted (dedupe children)) unit"
  have s: "sv_total (directStatus children unit) = t" "sv_accepted (directStatus children unit) = a"
    by (simp_all add: directStatus_def Let_def t_def a_def)
  have nn: "\<forall>i \<in> set (dedupe children). 0 \<le> or0 (rc_planEstimate i)"
    using assms(1) set_dedupe_by_subset [of rc_id "{}" children] by (auto simp: dedupe_def)
  have nna: "\<forall>i \<in> set (filter rc_accepted (dedupe children)). 0 \<le> or0 (rc_planEstimate i)" using nn by simp
  have le: "0 \<le> a" "a \<le> t" "0 < t" "t \<le> 10 ^ 9"
    using measure_filter_le(1) [OF nn, of rc_accepted unit] measure_filter_le(2) [OF nna, of unit] assms(2,3) s
    by (simp_all add: t_def a_def)
  define p where "p = \<lfloor>fl (fl (a / t) * 100)\<rfloor>"
  define q where "q = \<lfloor>a / t * 100\<rfloor>"
  have p: "sv_percent (directStatus children unit) = Some p"
    using le by (simp add: directStatus_def Let_def p_def flip: t_def a_def)
  obtain A T where AT: "a = of_int A / 100" "t = of_int T / 100"
    using measure_cents a_def t_def by metis
  have T: "0 < T" "T \<le> 10 ^ 11"
  proof -
    show "0 < T" using le AT by simp
    have "(of_int T :: rat) \<le> of_int (10 ^ 11)" using le AT by simp
    then show "T \<le> 10 ^ 11" by (simp only: of_int_le_iff)
  qed
  have x: "a / t * 100 = of_int (100 * A) / of_int T" unfolding AT using T by simp
  have fl: "p \<in> {q - 1, q}"
    unfolding p_def q_def by (rule floor_percent [OF fl_percent(1) [OF le(1,2,3)] x T])
  have "0 \<le> p" using fl_percent(2) [OF le(1,2,3)] by (simp add: p_def)
  moreover have up: "a / t * 100 \<le> 100" using le by (simp add: divide_le_eq)
  then have "q \<le> 100" unfolding q_def by linarith
  then have "p \<le> 100" using fl by auto
  moreover have "a = t" if "p = 100"
  proof -
    have "100 \<le> q" using fl that by auto
    then have "100 \<le> a / t * 100" by (simp add: le_floor_iff q_def)
    then have "100 * t \<le> a * 100" using le by (simp add: le_divide_eq)
    with le show ?thesis by simp
  qed
  moreover have "\<lfloor>100 * a / t\<rfloor> = q" by (simp add: q_def mult.commute)
  ultimately show ?thesis using p fl unfolding s by (metis (no_types))
qed

theorem directStatus_percent_witness:
  "let child = (\<lambda>i n b. \<lparr>rc_id = i, rc_itemKey = i, rc_type = Story, rc_title = i, rc_featureId = None,
         rc_releaseId = None, rc_releaseName = None, rc_teamId = None, rc_planEstimate = Some n, rc_accepted = b\<rparr>);
       s = directStatus [child ''a'' 29 True, child ''b'' 71 False] Points
   in sv_percent s = Some 28 \<and> \<lfloor>100 * sv_accepted s / sv_total s\<rfloor> = 29 \<and> 28 \<in> {\<lfloor>100 * sv_accepted s / sv_total s\<rfloor> - 1, \<lfloor>100 * sv_accepted s / sv_total s\<rfloor>}"
proof -
  define child where "child = (\<lambda>i n b. \<lparr>rc_id = i, rc_itemKey = i, rc_type = Story, rc_title = i, rc_featureId = None,
         rc_releaseId = None, rc_releaseName = None, rc_teamId = None, rc_planEstimate = Some n, rc_accepted = b\<rparr>)"
  define cs where "cs = [child ''a'' 29 True, child ''b'' 71 False]"
  have v: "sv_percent (directStatus cs Points) = Some 28" "sv_accepted (directStatus cs Points) = 29"
    "sv_total (directStatus cs Points) = 100"
    unfolding cs_def child_def by code_simp+
  have "\<forall>i \<in> set cs. 0 \<le> or0 (rc_planEstimate i)" by (simp add: cs_def child_def or0_def)
  from directStatus_percent [OF this, of Points] v show ?thesis
    by (simp add: Let_def flip: cs_def child_def)
qed

end
