(* ===== verification/IterationLaws.thy ===== *)
theory IterationLaws
  imports Iterations
begin

text \<open>
  What holds of the iterations whatever is done to them: the acceptance stamp, the keys and the
  recorded history as invariants of every run; acceptance is always earned by the members; a bulk
  assignment re-evaluates every iteration whose membership it changed; a colliding key is retried.
\<close>

section \<open>Steps\<close>

text \<open>One request, or one thing that happens to the rest of the data: \<open>work\<close> is any write to the work
  items, \<open>admin\<close> any to the projects and their teams, \<open>capture\<close> the hourly snapshot of a committed
  iteration.\<close>

inductive iter_step :: "iter_db \<Rightarrow> iter_db \<Rightarrow> bool" where
  create: "createIteration md5 (\<lambda>_ rows. rows) i db ws p name opts = Inr (r, db') \<Longrightarrow>
     i \<notin> it_id ` set (iterations db) \<Longrightarrow> iter_step db db'"
| update: "updateIteration now db ws i u = Inr (r, db') \<Longrightarrow> iter_step db db'"
| commit: "commitIteration now db ws i = Inr (r, db') \<Longrightarrow> iter_step db db'"
| accept: "acceptIteration now db ws i = Inr (r, db') \<Longrightarrow> iter_step db db'"
| delete: "deleteIteration db ws i = Inr db' \<Longrightarrow> iter_step db db'"
| auto: "autoAcceptIterationIfComplete now db i ws = (b, db') \<Longrightarrow> iter_step db db'"
| bulk: "bulkAssignIteration now acc eff (\<lambda>d. d) db ws actor p ids target = Inr (n, db') \<Longrightarrow> iter_step db db'"
| capture: "r \<in> set (iterations db) \<Longrightarrow> it_state r = Committed \<Longrightarrow>
     iter_step db (db\<lparr>history := history db @ [(it_id r, it_workspace r)]\<rparr>)"
| work: "iter_step db (db\<lparr>items := is\<rparr>)"
| admin: "iter_step db (db\<lparr>projects := ps, links := ls\<rparr>)"

inductive iter_reachable :: "iter_db \<Rightarrow> bool" where
  empty: "iterations db = [] \<Longrightarrow> history db = [] \<Longrightarrow> iter_reachable db"
| step: "iter_reachable db \<Longrightarrow> iter_step db db' \<Longrightarrow> iter_reachable db'"

definition stamped :: "iteration_row \<Rightarrow> bool" where
  "stamped r \<longleftrightarrow> (it_state r = Accepted \<longleftrightarrow> it_completedAt r \<noteq> None)"

definition identity :: "iteration_row \<Rightarrow> uuid \<times> uuid \<times> uuid \<times> string" where
  "identity r = (it_id r, it_workspace r, it_project r, it_key r)"

definition iter_inv :: "iter_db \<Rightarrow> bool" where
  "iter_inv db \<longleftrightarrow> distinct (map it_id (iterations db)) \<and> (\<forall>r \<in> set (iterations db). stamped r) \<and>
     distinct (map (\<lambda>r. (it_project r, it_key r)) (iterations db)) \<and>
     (\<forall>h \<in> set (history db). \<exists>r \<in> set (iterations db). (it_id r, it_workspace r) = h)"

section \<open>What each operation does to the rows\<close>

text \<open>All that an operation other than create and delete may do: rewrite rows in place, keeping what
  identifies them, and keeping the stamp.\<close>

definition rowwise :: "iter_db \<Rightarrow> iter_db \<Rightarrow> bool" where
  "rowwise db db' \<longleftrightarrow> history db' = history db \<and>
     (\<exists>f. iterations db' = map f (iterations db) \<and> (\<forall>r. identity (f r) = identity r) \<and> (\<forall>r. stamped r \<longrightarrow> stamped (f r)))"

lemma rowwise_refl: "rowwise db db"
  unfolding rowwise_def by (intro conjI exI [of _ "\<lambda>r. r"]) auto

lemma rowwise_trans: "rowwise a b \<Longrightarrow> rowwise b c \<Longrightarrow> rowwise a c"
proof -
  assume ab: "rowwise a b" and bc: "rowwise b c"
  from ab obtain f where f: "iterations b = map f (iterations a)" "\<forall>r. identity (f r) = identity r"
    "\<forall>r. stamped r \<longrightarrow> stamped (f r)" "history b = history a"
    unfolding rowwise_def by blast
  from bc obtain g where g: "iterations c = map g (iterations b)" "\<forall>r. identity (g r) = identity r"
    "\<forall>r. stamped r \<longrightarrow> stamped (g r)" "history c = history b"
    unfolding rowwise_def by blast
  from f g show ?thesis unfolding rowwise_def by (intro conjI exI [of _ "\<lambda>r. g (f r)"]) auto
qed

lemma rowwise_update:
  assumes "history db' = history db" "iterations db' = update_where p f (iterations db)"
    and "\<And>r. identity (f r) = identity r" "\<And>r. stamped r \<Longrightarrow> stamped (f r)"
  shows "rowwise db db'"
  unfolding rowwise_def using assms
  by (intro conjI exI [of _ "\<lambda>r. if p r then f r else r"]) (auto simp: update_where_def)

lemma rowwise_inv:
  assumes "rowwise db db'" "iter_inv db"
  shows "iter_inv db'"
proof -
  from assms(1) obtain f where f: "iterations db' = map f (iterations db)" "\<And>r. identity (f r) = identity r"
    "\<And>r. stamped r \<Longrightarrow> stamped (f r)" "history db' = history db"
    by (auto simp: rowwise_def)
  have "it_id (f r) = it_id r" "it_workspace (f r) = it_workspace r" "it_project (f r) = it_project r"
    "it_key (f r) = it_key r" for r
    using f(2) [of r] by (simp_all add: identity_def)
  with assms(2) f show ?thesis by (simp add: iter_inv_def comp_def)
qed

lemma apply_rowwise:
  assumes "applyStateChange now db ws r s = Inr (r', db')"
  shows "rowwise db db'" "items db' = items db"
    "iterations db' = update_where (\<lambda>x. it_id x = it_id r)
       (\<lambda>x. x\<lparr>it_state := s, it_completedAt := (if s = Accepted then Some now else None)\<rparr>) (iterations db)"
    "s = Accepted \<Longrightarrow> assertAcceptable db ws (it_id r) = Inr ()"
proof -
  have cl: "classifyIterationStateChange a b = Accept \<longleftrightarrow> b = Accepted" for a b
    by (simp add: classifyIterationStateChange_def)
  from assms show it: "iterations db' = update_where (\<lambda>x. it_id x = it_id r)
       (\<lambda>x. x\<lparr>it_state := s, it_completedAt := (if s = Accepted then Some now else None)\<rparr>) (iterations db)"
    and "items db' = items db"
    by (auto simp: applyStateChange_def bind_sum_Inr cl Let_def split: if_splits)
  from assms show "s = Accepted \<Longrightarrow> assertAcceptable db ws (it_id r) = Inr ()"
    by (auto simp: applyStateChange_def bind_sum_Inr cl Let_def split: if_splits)
  from assms have "history db' = history db"
    by (auto simp: applyStateChange_def bind_sum_Inr Let_def split: if_splits)
  then show "rowwise db db'"
    by (rule rowwise_update [OF _ it]) (auto simp: identity_def stamped_def)
qed

lemma apply_fields_keeps: "identity (apply_fields u r) = identity r" "stamped (apply_fields u r) = stamped r"
  "it_state (apply_fields u r) = it_state r"
  by (simp_all add: identity_def stamped_def apply_fields_def)

lemma getIteration_mem: "getIteration db ws i = Inr r \<Longrightarrow> r \<in> set (iterations db) \<and> it_id r = i \<and> it_workspace r = ws"
  by (auto simp: getIteration_def findById_def find_Some_iff split: option.splits if_splits)

text \<open>An update is an optional state change followed by an optional change of fields.\<close>

lemma update_cases:
  assumes "updateIteration now db ws i u = Inr (r', db')"
  obtains r db1 x where "getIteration db ws i = Inr r"
    "db1 = db \<or> (\<exists>s. applyStateChange now db ws r s = Inr (x, db1))"
    "iterations db' = update_where (\<lambda>r. it_id r = i \<and> has_fields u) (apply_fields u) (iterations db1)"
    "history db' = history db1" "items db' = items db1"
proof -
  have one: "iterations db1 = update_where (\<lambda>r. it_id r = i \<and> has_fields u) (apply_fields u) (iterations db1)"
    if "\<not> has_fields u" for db1
    using that by (simp add: update_where_none)
  from assms obtain r x db1 where r: "getIteration db ws i = Inr r"
    and c: "(case u_state u of Some s \<Rightarrow> if s \<noteq> it_state r then applyStateChange now db ws r s else Inr (r, db)
       | None \<Rightarrow> Inr (r, db)) = Inr (x, db1)"
    and d: "(if has_fields u
     then Inr (apply_fields u x,
               db1\<lparr>iterations := update_where (\<lambda>r. it_id r = i) (apply_fields u) (iterations db1),
                   activity := activity db1 @ map (\<lambda>f. \<lparr>lg_entity = i, lg_action = ''iteration.updated'', lg_field = Some f\<rparr>)
                     (diffIteration r u)\<rparr>)
     else Inr (x, db1)) = (Inr (r', db') :: api_error + _)"
    unfolding updateIteration_def by (auto simp: bind_sum_Inr)
  from c have "db1 = db \<or> (\<exists>s. applyStateChange now db ws r s = Inr (x, db1))"
    by (auto split: option.splits if_splits)
  with r d one [of db1] that [of r db1 x] show thesis
    by (auto split: if_splits)
qed

lemma update_rowwise: "updateIteration now db ws i u = Inr (r', db') \<Longrightarrow> rowwise db db'"
proof (erule update_cases)
  fix r db1 x
  assume "db1 = db \<or> (\<exists>s. applyStateChange now db ws r s = Inr (x, db1))"
    and "iterations db' = update_where (\<lambda>r. it_id r = i \<and> has_fields u) (apply_fields u) (iterations db1)"
    and "history db' = history db1"
  moreover from this have "rowwise db db1" using apply_rowwise(1) rowwise_refl by blast
  moreover have "rowwise db1 db'"
    by (rule rowwise_update [OF calculation(3,2)]) (simp_all add: apply_fields_keeps)
  ultimately show ?thesis using rowwise_trans by blast
qed

lemma auto_rowwise: "rowwise db (snd (autoAcceptIterationIfComplete now db i ws))"
  unfolding autoAcceptIterationIfComplete_def Let_def
  by (auto simp: rowwise_refl identity_def stamped_def intro!: rowwise_update)

lemma fold_auto_rowwise: "rowwise db (fold (\<lambda>i d. snd (autoAcceptIterationIfComplete now d i ws)) is db)"
  by (induction "is" arbitrary: db) (auto intro: rowwise_refl rowwise_trans [OF auto_rowwise])

lemma rowwise_membership: "rowwise db (recordManualMoves ss t (assignIteration is t ws db))"
  unfolding rowwise_def by (intro conjI exI [of _ "\<lambda>r. r"]) (auto simp: recordManualMoves_def assignIteration_def)

lemma bulk_cases:
  assumes "bulkAssignIteration now acc eff others db ws actor p ids target = Inr (n, db')"
  obtains found moved where "loadBulkItems acc eff db ws actor p ids = Inr found"
    "\<forall>w \<in> set found. wi_type w = Story \<or> wi_type w = Defect"
    "present target \<Longrightarrow> check_all (\<lambda>w. assertIterationAssignable db ws w (the target)) found = Inr ()"
    "moved = filter (\<lambda>w. wi_type w = Story \<and> wi_iteration w \<noteq> target) found"
    "lockForManualMove (others db) moved = Inr ()" "n = length found"
    "db' = fold (\<lambda>i d. snd (autoAcceptIterationIfComplete now d i ws))
       (dedupe_by (\<lambda>x. x) {} (List.map_filter (\<lambda>x. x) (map wi_iteration found @ [target])))
       (recordManualMoves moved target (assignIteration (map wi_id found) target ws (others db)))"
  using assms unfolding bulkAssignIteration_def Let_def
  by (auto simp: bind_sum_Inr split: if_splits)

lemma bulk_rowwise:
  "bulkAssignIteration now acc eff (\<lambda>d. d) db ws actor p ids target = Inr (n, db') \<Longrightarrow> rowwise db db'"
  by (erule bulk_cases) (auto intro: rowwise_trans [OF rowwise_membership fold_auto_rowwise])

section \<open>The invariant\<close>

lemma create_attempts_row:
  assumes "create_attempts md5 (\<lambda>_ rows. rows) i ws p name opts k fuel rows = Inr (r, rows')"
  shows "\<exists>key. r = insert_row md5 i ws p key name opts \<and> \<not> duplicate_key rows r \<and> rows' = rows @ [r]"
  using assms by (induction fuel arbitrary: k) (auto simp: Let_def split: if_splits)

lemma create_inv:
  assumes "createIteration md5 (\<lambda>_ rows. rows) i db ws p name opts = Inr (r, db')"
    and "i \<notin> it_id ` set (iterations db)" and "iter_inv db"
  shows "iter_inv db'"
proof -
  from assms(1) obtain rows where rows: "create_attempts md5 (\<lambda>_ rows. rows) i ws p name opts 0 MAX_KEY_RETRIES (iterations db) = Inr (r, rows)"
    and db': "iterations db' = rows" "history db' = history db"
    and st: "c_state opts \<noteq> Some Accepted"
    by (auto simp: createIteration_def bind_sum_Inr isCreatableIterationState_def split: if_splits option.splits)
  from create_attempts_row [OF rows] obtain key where r: "r = insert_row md5 i ws p key name opts"
    "\<not> duplicate_key (iterations db) r" "rows = iterations db @ [r]" by blast
  have "stamped r" using st r(1) by (cases "c_state opts") (auto simp: stamped_def insert_row_def)
  moreover have "it_id r = i" using r(1) by (simp add: insert_row_def)
  moreover have "(it_project r, it_key r) \<notin> (\<lambda>r. (it_project r, it_key r)) ` set (iterations db)"
    using r(2) by (auto simp: duplicate_key_def)
  ultimately show ?thesis using assms(2,3) r(3) db' by (auto simp: iter_inv_def)
qed

lemma delete_inv:
  assumes "deleteIteration db ws i = Inr db'" "iter_inv db"
  shows "iter_inv db'"
proof -
  from assms(1) obtain r where r: "getIteration db ws i = Inr r"
    and h: "(i, it_workspace r) \<notin> set (history db)"
    and db': "iterations db' = filter (\<lambda>r. it_id r \<noteq> i) (iterations db)" "history db' = history db"
    by (auto simp: deleteIteration_def bind_sum_Inr filter_empty_conv split: if_splits)
  have own: "r \<in> set (iterations db)" "it_id r = i" using getIteration_mem [OF r] by simp_all
  have "\<exists>x \<in> set (iterations db'). (it_id x, it_workspace x) = k" if k: "k \<in> set (history db)" for k
  proof -
    from k assms(2) obtain x where x: "x \<in> set (iterations db)" "(it_id x, it_workspace x) = k"
      by (auto simp: iter_inv_def)
    have "it_id x \<noteq> i"
    proof
      assume "it_id x = i"
      then have "x = r" using x(1) own assms(2) by (auto simp: iter_inv_def distinct_map inj_on_def)
      with x(2) k h own show False by auto
    qed
    with x db' show ?thesis by auto
  qed
  with assms(2) db' show ?thesis by (auto simp: iter_inv_def intro: distinct_map_filter)
qed

lemma iter_step_inv: "iter_step db db' \<Longrightarrow> iter_inv db \<Longrightarrow> iter_inv db'"
proof (induction rule: iter_step.induct)
  case (commit now db ws i r db')
  then show ?case by (auto simp: commitIteration_def bind_sum_Inr dest: apply_rowwise(1) intro: rowwise_inv)
next
  case (accept now db ws i r db')
  then show ?case by (auto simp: acceptIteration_def bind_sum_Inr dest: apply_rowwise(1) intro: rowwise_inv)
next
  case (auto now db i ws b db')
  then show ?case using rowwise_inv [OF auto_rowwise [of db now i ws]] by simp
next
  case (bulk now acc eff db ws actor p ids target n db')
  then show ?case by (blast intro: rowwise_inv bulk_rowwise)
next
  case (update now db ws i u r db')
  then show ?case by (blast intro: rowwise_inv update_rowwise)
next
  case (create md5 i db ws p name opts r db')
  then show ?case by (blast intro: create_inv)
next
  case (delete db ws i db')
  then show ?case by (blast intro: delete_inv)
qed (auto simp: iter_inv_def)

lemma iter_reachable_inv: "iter_reachable db \<Longrightarrow> iter_inv db"
proof (induction rule: iter_reachable.induct)
  case (empty db)
  then show ?case by (simp add: iter_inv_def)
qed (rule iter_step_inv)

text \<open>C19: in every state the operations can lead to, an iteration carries an acceptance date exactly when
  it is accepted, no two iterations of a project share a key, and every recorded daily snapshot still
  has its iteration: whatever is reopened or deleted, report history is never orphaned.\<close>

theorem iteration_records_sound:
  assumes "iter_reachable db"
  shows "(\<forall>r \<in> set (iterations db). it_state r = Accepted \<longleftrightarrow> it_completedAt r \<noteq> None) \<and>
    distinct (map (\<lambda>r. (it_project r, it_key r)) (iterations db)) \<and>
    (\<forall>h \<in> set (history db). \<exists>r \<in> set (iterations db). (it_id r, it_workspace r) = h)"
  using iter_reachable_inv [OF assms] by (auto simp: iter_inv_def stamped_def)

definition ex_iter_db :: iter_db where
  "ex_iter_db = \<lparr>iterations = [], projects = [\<lparr>p_id = ''p'', p_workspace = ''w'', p_archived = False, p_deleted = False\<rparr>],
     links = [], items = [\<lparr>wi_id = ''US'', wi_workspace = ''w'', wi_project = ''p'', wi_team = None, wi_type = Story, wi_parent = None,
       wi_schedule = S_accepted, wi_iteration = None, wi_deleted = False\<rparr>],
     history = [], transitions = [], activity = []\<rparr>"

definition ex_opts :: create_opts where
  "ex_opts = \<lparr>c_team = None, c_goal = None, c_theme = None, c_notes = None, c_state = Some Committed,
     c_start = Some ''2026-11-02'', c_end = Some ''2026-11-13'', c_velocity = None\<rparr>"

definition ex_iteration :: iteration_row where
  "ex_iteration = insert_row (\<lambda>s. s) ''it'' ''w'' ''p'' ''IT-1'' ''Sprint 1'' ex_opts"

lemma ex_create:
  "createIteration (\<lambda>s. s) (\<lambda>_ rows. rows) ''it'' ex_iter_db ''w'' ''p'' ''Sprint 1'' ex_opts =
     Inr (ex_iteration, ex_iter_db\<lparr>iterations := [ex_iteration],
       activity := [\<lparr>lg_entity = ''it'', lg_action = ''iteration.created'', lg_field = None\<rparr>]\<rparr>)"
  unfolding ex_iteration_def by code_simp

definition ex_created :: iter_db where
  "ex_created = ex_iter_db\<lparr>iterations := [ex_iteration],
       activity := [\<lparr>lg_entity = ''it'', lg_action = ''iteration.created'', lg_field = None\<rparr>]\<rparr>"

lemma ex_created_reachable: "iter_reachable ex_created"
proof -
  have "iter_reachable ex_iter_db" by (rule iter_reachable.empty) (simp_all add: ex_iter_db_def)
  moreover have "iter_step ex_iter_db ex_created"
    unfolding ex_created_def by (rule iter_step.create [OF ex_create]) (simp add: ex_iter_db_def)
  ultimately show ?thesis by (rule iter_reachable.step)
qed

theorem iteration_records_sound_witness:
  "\<exists>db r h. iter_reachable db \<and> r \<in> set (iterations db) \<and> history db = [h] \<and> (it_id r, it_workspace r) = h"
proof -
  let ?db = "ex_created\<lparr>history := [(it_id ex_iteration, it_workspace ex_iteration)]\<rparr>"
  have "iter_step ex_created (ex_created\<lparr>history := history ex_created @ [(it_id ex_iteration, it_workspace ex_iteration)]\<rparr>)"
    by (rule iter_step.capture) (simp_all add: ex_created_def ex_iteration_def insert_row_def ex_opts_def)
  moreover have "history ex_created = []" by (simp add: ex_created_def ex_iter_db_def)
  ultimately have "iter_step ex_created ?db" by simp
  with ex_created_reachable have r: "iter_reachable ?db" by (rule iter_reachable.step)
  have "history ?db = [(it_id ex_iteration, it_workspace ex_iteration)]" by simp
  with iteration_records_sound [OF r] r show ?thesis by fastforce
qed

section \<open>Acceptance is earned\<close>

definition earned :: "iter_db \<Rightarrow> uuid \<Rightarrow> uuid \<Rightarrow> bool" where
  "earned db i ws \<longleftrightarrow> assigned db i ws \<noteq> [] \<and> (\<forall>w \<in> set (assigned db i ws). isAcceptedScheduleState (wi_schedule w))"

text \<open>A change of the rows that accepts only what the members allow.\<close>

definition earns :: "iter_db \<Rightarrow> iter_db \<Rightarrow> bool" where
  "earns db db' \<longleftrightarrow> items db' = items db \<and>
     (\<forall>r' \<in> set (iterations db'). it_state r' = Accepted \<longrightarrow>
        (\<exists>r \<in> set (iterations db). it_id r = it_id r' \<and> it_workspace r = it_workspace r' \<and> it_state r = Accepted) \<or>
        earned db (it_id r') (it_workspace r'))"

lemma earned_items: "items db' = items db \<Longrightarrow> earned db' = earned db"
  by (simp add: earned_def assigned_def fun_eq_iff)

lemma earns_refl: "earns db db"
  by (auto simp: earns_def)

lemma earns_trans: "earns a b \<Longrightarrow> earns b c \<Longrightarrow> earns a c"
  unfolding earns_def using earned_items [of b a] by fastforce

lemma earns_update:
  assumes "items db' = items db" "iterations db' = update_where p f (iterations db)"
    and "\<And>r. it_id (f r) = it_id r" "\<And>r. it_workspace (f r) = it_workspace r"
    and "\<And>r. r \<in> set (iterations db) \<Longrightarrow> p r \<Longrightarrow> it_state (f r) = Accepted \<Longrightarrow>
      it_state r = Accepted \<or> earned db (it_id r) (it_workspace r)"
  shows "earns db db'"
  unfolding earns_def
proof (intro conjI ballI impI)
  fix r'
  assume r': "r' \<in> set (iterations db')" "it_state r' = Accepted"
  then obtain r where r: "r \<in> set (iterations db)" "r' = (if p r then f r else r)"
    unfolding assms(2) in_update_where by blast
  then have same: "it_id r' = it_id r" "it_workspace r' = it_workspace r" using assms(3,4) by simp_all
  have "it_state r = Accepted \<or> earned db (it_id r) (it_workspace r)"
    using assms(5) [OF r(1)] r(2) r'(2) by (cases "p r") auto
  then show "(\<exists>r \<in> set (iterations db). it_id r = it_id r' \<and> it_workspace r = it_workspace r' \<and> it_state r = Accepted) \<or>
      earned db (it_id r') (it_workspace r')"
    using r(1) same by auto
qed (rule assms(1))

lemma assertAcceptable_earned: "assertAcceptable db ws i = Inr () \<longleftrightarrow> earned db i ws"
  by (auto simp: assertAcceptable_def earned_def Let_def list_all_iff)

lemma apply_earns:
  assumes "applyStateChange now db ws r s = Inr (x, db')" "r \<in> set (iterations db)" "it_workspace r = ws"
    and "distinct (map it_id (iterations db))"
  shows "earns db db'"
proof -
  have "earned db (it_id r') (it_workspace r')"
    if "r' \<in> set (iterations db)" "it_id r' = it_id r" "s = Accepted" for r'
  proof -
    have "r' = r" using that(1,2) assms(2,4) by (auto simp: distinct_map inj_on_def)
    with apply_rowwise(4) [OF assms(1) that(3)] assms(3) show ?thesis by (simp add: assertAcceptable_earned)
  qed
  then show ?thesis
    by (intro earns_update [OF apply_rowwise(2,3) [OF assms(1)]]) auto
qed

lemma auto_earns: "earns db (snd (autoAcceptIterationIfComplete now db i ws))"
  unfolding autoAcceptIterationIfComplete_def Let_def
  by (auto simp: earns_refl earned_def list_all_iff intro!: earns_update)

lemma fold_auto_earns: "earns db (fold (\<lambda>i d. snd (autoAcceptIterationIfComplete now d i ws)) is db)"
  by (induction "is" arbitrary: db) (auto intro: earns_refl earns_trans [OF auto_earns])

lemma update_earns:
  assumes "updateIteration now db ws i u = Inr (r', db')" "distinct (map it_id (iterations db))"
  shows "earns db db'"
  using assms(1)
proof (rule update_cases)
  fix r db1 x
  assume r: "getIteration db ws i = Inr r"
    and one: "db1 = db \<or> (\<exists>s. applyStateChange now db ws r s = Inr (x, db1))"
    and two: "iterations db' = update_where (\<lambda>r. it_id r = i \<and> has_fields u) (apply_fields u) (iterations db1)"
    "items db' = items db1"
  have "earns db db1"
    using one getIteration_mem [OF r] apply_earns [OF _ _ _ assms(2)] earns_refl by blast
  moreover have "it_id (apply_fields u y) = it_id y" "it_workspace (apply_fields u y) = it_workspace y" for y
    by (simp_all add: apply_fields_def)
  then have "earns db1 db'"
    by (intro earns_update [OF two(2,1)]) (simp_all add: apply_fields_keeps)
  ultimately show ?thesis by (rule earns_trans)
qed

lemma membership_iterations [simp]: "iterations (recordManualMoves ss t (assignIteration ids t ws db)) = iterations db"
  by (simp add: recordManualMoves_def assignIteration_def)

text \<open>C8: acceptance is earned: whichever request turns an iteration accepted (the accept route, a patch of
  the state, the automatic rule, a bulk assignment), at that moment it has at least one live Story or
  Defect and every one of them is accepted; it is never created accepted.\<close>

theorem acceptance_earned:
  assumes "iter_reachable db" and "iter_step db db'"
    and "r' \<in> set (iterations db')" and "it_state r' = Accepted"
    and "\<forall>r \<in> set (iterations db). it_id r = it_id r' \<longrightarrow> it_state r \<noteq> Accepted"
  shows "earned db' (it_id r') (it_workspace r')"
proof -
  have dist: "distinct (map it_id (iterations db))" using iter_reachable_inv [OF assms(1)] by (simp add: iter_inv_def)
  have use: ?thesis if "earns db db'"
    using that assms(3,4,5) earned_items [of db' db] by (auto simp: earns_def)
  show ?thesis using assms(2)
  proof cases
    case (create md5 i ws p name opts r)
    then obtain rows where "create_attempts md5 (\<lambda>_ rows. rows) i ws p name opts 0 MAX_KEY_RETRIES (iterations db) = Inr (r, rows)"
      "iterations db' = rows" "c_state opts \<noteq> Some Accepted"
      by (auto simp: createIteration_def bind_sum_Inr isCreatableIterationState_def split: if_splits option.splits)
    with create_attempts_row [OF this(1)] assms(3,4,5) show ?thesis
      by (auto simp: insert_row_def split: option.splits)
  next
    case update
    then show ?thesis using update_earns dist use by blast
  next
    case commit
    then show ?thesis using getIteration_mem apply_earns [OF _ _ _ dist] use
      by (auto simp: commitIteration_def bind_sum_Inr)
  next
    case accept
    then show ?thesis using getIteration_mem apply_earns [OF _ _ _ dist] use
      by (auto simp: acceptIteration_def bind_sum_Inr)
  next
    case delete
    then show ?thesis using assms(3-5) by (auto simp: deleteIteration_def bind_sum_Inr split: if_splits)
  next
    case (auto now i ws b)
    then show ?thesis using auto_earns [of db now i ws] use by simp
  next
    case (bulk now acc eff ws actor p ids target n)
    from bulk(1) show ?thesis
    proof (rule bulk_cases)
      fix found moved
      let ?db2 = "recordManualMoves moved target (assignIteration (map wi_id found) target ws db)"
      assume "db' = fold (\<lambda>i d. snd (autoAcceptIterationIfComplete now d i ws))
        (dedupe_by (\<lambda>x. x) {} (List.map_filter (\<lambda>x. x) (map wi_iteration found @ [target]))) ?db2"
      then have "earns ?db2 db'" using fold_auto_earns by simp
      with assms(3,4,5) earned_items [of db' ?db2] show ?thesis by (auto simp: earns_def)
    qed
  qed (use assms(3-5) in auto)
qed

theorem acceptance_earned_witness:
  "\<exists>db db' r'. iter_step db db' \<and> r' \<in> set (iterations db') \<and> it_state r' = Accepted \<and>
     Accepted \<notin> it_state ` set (iterations db) \<and> earned db' (it_id r') (it_workspace r')"
proof -
  define d1 where "d1 = ex_created\<lparr>items := [\<lparr>wi_id = ''US'', wi_workspace = ''w'', wi_project = ''p'', wi_team = None,
    wi_type = Story, wi_parent = None, wi_schedule = S_accepted, wi_iteration = Some ''it'', wi_deleted = False\<rparr>]\<rparr>"
  define r' where "r' = ex_iteration\<lparr>it_state := Accepted, it_completedAt := Some 7\<rparr>"
  have "iter_step ex_created d1" unfolding d1_def by (rule iter_step.work)
  with ex_created_reachable have d1: "iter_reachable d1" by (rule iter_reachable.step)
  have "autoAcceptIterationIfComplete 7 d1 ''it'' ''w'' = (True, d1\<lparr>iterations := [r']\<rparr>)"
    unfolding d1_def r'_def by code_simp
  then have st: "iter_step d1 (d1\<lparr>iterations := [r']\<rparr>)" by (rule iter_step.auto)
  have pre: "r' \<in> set (iterations (d1\<lparr>iterations := [r']\<rparr>))" "it_state r' = Accepted"
    "\<forall>r \<in> set (iterations d1). it_id r = it_id r' \<longrightarrow> it_state r \<noteq> Accepted"
    "Accepted \<notin> it_state ` set (iterations d1)"
    by (simp_all add: r'_def d1_def ex_created_def ex_iteration_def insert_row_def ex_opts_def)
  from acceptance_earned [OF d1 st pre(1,2,3)] st pre show ?thesis by blast
qed

section \<open>Keys\<close>

lemma rev_takeWhile_digits:
  "rev (takeWhile (\<lambda>c. digit_value c \<noteq> None) (rev (''IT-'' @ decimal n))) = decimal n"
proof -
  have "takeWhile (\<lambda>c. digit_value c \<noteq> None) (rev (decimal n) @ rev ''IT-'') = rev (decimal n) @
      takeWhile (\<lambda>c. digit_value c \<noteq> None) (rev ''IT-'')"
    by (rule takeWhile_append2) (simp add: digit_value_digits)
  then show ?thesis by (simp add: digit_value_def DIGITS_def)
qed

lemma decimal_ne: "decimal n \<noteq> []"
  by (subst decimal.simps) simp

lemma key_number_of_key: "key_number (''IT-'' @ decimal n) = Some (int n)"
  unfolding key_number_def Let_def rev_takeWhile_digits by (simp add: decimal_ne number_from_decimal)

lemma fold_max_ge: "x \<in> set xs \<or> x \<le> (a::int) \<Longrightarrow> x \<le> fold max xs a"
proof (induction xs arbitrary: a)
  case (Cons y ys)
  show ?case using Cons.IH [of "max y a"] Cons.prems by (auto simp: le_max_iff_disj)
qed auto

lemma next_key_fresh:
  assumes "r \<in> set rows" "it_project r = p" "it_workspace r = ws"
  shows "it_key r \<noteq> ''IT-'' @ decimal (nextKeyNumber rows p ws)"
proof
  let ?l = "List.map_filter (\<lambda>r. if it_project r = p \<and> it_workspace r = ws then key_number (it_key r) else None) rows"
  assume "it_key r = ''IT-'' @ decimal (nextKeyNumber rows p ws)"
  then have "key_number (it_key r) = Some (int (nextKeyNumber rows p ws))" by (simp only: key_number_of_key)
  then have "int (nextKeyNumber rows p ws) \<in> set ?l" using assms by (auto simp: set_filter_map)
  then have "int (nextKeyNumber rows p ws) \<le> fold max ?l 0" by (auto intro: fold_max_ge)
  moreover have "0 \<le> fold max ?l (0::int)" by (rule fold_max_ge) simp
  ultimately show False by (simp add: nextKeyNumber_def)
qed

text \<open>A create survives one collision: when another request takes the key it has read, it reads the next
  key again and succeeds, provided nobody commits in between a second time; the row it writes is not
  accepted, carries no acceptance date and has a key no row of the project has.\<close>

theorem create_retries_collision:
  assumes "assertProjectWritable db ws p = Inr pr" and "c_team opts = None"
    and "assertDateRange (c_start opts) (c_end opts) = Inr ()" and "c_state opts \<noteq> Some Accepted"
    and "\<forall>r \<in> set (others 0 (iterations db)). it_project r = p \<longrightarrow> it_workspace r = ws"
    and "\<forall>rows. others 1 rows = rows"
  shows "\<exists>r db'. createIteration md5 others i db ws p name opts = Inr (r, db') \<and>
    iterations db' = others 0 (iterations db) @ [r] \<and> it_state r \<noteq> Accepted \<and> it_completedAt r = None \<and>
    (\<forall>r' \<in> set (others 0 (iterations db)). it_project r' = p \<longrightarrow> it_key r' \<noteq> it_key r)"
proof -
  let ?rows = "others 0 (iterations db)"
  have attempts: "\<exists>key. create_attempts md5 others i ws p name opts 0 MAX_KEY_RETRIES (iterations db) =
      Inr (insert_row md5 i ws p key name opts, ?rows @ [insert_row md5 i ws p key name opts]) \<and>
      \<not> duplicate_key ?rows (insert_row md5 i ws p key name opts)"
  proof (cases "duplicate_key ?rows (insert_row md5 i ws p (''IT-'' @ decimal (nextKeyNumber (iterations db) p ws)) name opts)")
    case True
    let ?row = "insert_row md5 i ws p (''IT-'' @ decimal (nextKeyNumber ?rows p ws)) name opts"
    have "\<not> duplicate_key ?rows ?row"
      using next_key_fresh assms(5) by (fastforce simp: duplicate_key_def insert_row_def)
    with True assms(6) show ?thesis
      by (intro exI [of _ "''IT-'' @ decimal (nextKeyNumber ?rows p ws)"]) (simp add: MAX_KEY_RETRIES_def numeral_2_eq_2 Let_def)
  next
    case False
    then show ?thesis
      by (intro exI [of _ "''IT-'' @ decimal (nextKeyNumber (iterations db) p ws)"]) (simp add: MAX_KEY_RETRIES_def numeral_2_eq_2 Let_def)
  qed
  then obtain key where key: "create_attempts md5 others i ws p name opts 0 MAX_KEY_RETRIES (iterations db) =
      Inr (insert_row md5 i ws p key name opts, ?rows @ [insert_row md5 i ws p key name opts])"
    "\<not> duplicate_key ?rows (insert_row md5 i ws p key name opts)" by blast
  have "present (c_team opts) = False" using assms(2) by (simp add: present_def)
  moreover have "\<not> (case c_state opts of None \<Rightarrow> False | Some s \<Rightarrow> \<not> isCreatableIterationState s)"
    using assms(4) by (cases "c_state opts") (auto simp: isCreatableIterationState_def intro: IterationState.exhaust)
  ultimately have "createIteration md5 others i db ws p name opts =
      Inr (insert_row md5 i ws p key name opts, db\<lparr>iterations := ?rows @ [insert_row md5 i ws p key name opts],
        activity := activity db @ [\<lparr>lg_entity = i, lg_action = ''iteration.created'', lg_field = None\<rparr>]\<rparr>)"
    using assms(1,3) key(1) by (simp add: createIteration_def)
  with key(2) assms(4) show ?thesis
    by (auto simp: insert_row_def duplicate_key_def split: option.splits)
qed

theorem create_retries_collision_witness:
  "let others = (\<lambda>k rows. if k = (0::nat) then rows @ [ex_iteration] else rows) in
     \<exists>r db'. createIteration (\<lambda>s. s) others ''new'' ex_iter_db ''w'' ''p'' ''Sprint 2'' ex_opts = Inr (r, db') \<and>
       iterations db' = [ex_iteration, r] \<and> it_key ex_iteration = ''IT-1'' \<and> it_key r \<noteq> ''IT-1''"
proof -
  define others where "others = (\<lambda>k rows. if k = (0::nat) then rows @ [ex_iteration] else rows)"
  have k: "it_key ex_iteration = ''IT-1''" "it_project ex_iteration = ''p''" "it_workspace ex_iteration = ''w''"
    "iterations ex_iter_db = []"
    by (simp_all add: ex_iteration_def insert_row_def ex_iter_db_def)
  have "\<exists>r db'. createIteration (\<lambda>s. s) others ''new'' ex_iter_db ''w'' ''p'' ''Sprint 2'' ex_opts = Inr (r, db') \<and>
    iterations db' = others 0 (iterations ex_iter_db) @ [r] \<and> it_state r \<noteq> Accepted \<and> it_completedAt r = None \<and>
    (\<forall>r' \<in> set (others 0 (iterations ex_iter_db)). it_project r' = ''p'' \<longrightarrow> it_key r' \<noteq> it_key r)"
  proof (rule create_retries_collision)
    show "assertProjectWritable ex_iter_db ''w'' ''p'' = Inr \<lparr>p_id = ''p'', p_workspace = ''w'', p_archived = False, p_deleted = False\<rparr>"
      by code_simp
    show "assertDateRange (c_start ex_opts) (c_end ex_opts) = Inr ()" by code_simp
  qed (simp_all add: ex_opts_def others_def k)
  then show ?thesis unfolding Let_def others_def [symmetric] using k by (auto simp: others_def)
qed

section \<open>Bulk assignment\<close>

lemma auto_items [simp]: "items (snd (autoAcceptIterationIfComplete now db i ws)) = items db"
  by (simp add: autoAcceptIterationIfComplete_def Let_def)

lemma fold_auto_items [simp]: "items (fold (\<lambda>i d. snd (autoAcceptIterationIfComplete now d i ws)) is db) = items db"
  by (induction "is" arbitrary: db) simp_all

definition accepted_row :: "iter_db \<Rightarrow> uuid \<Rightarrow> uuid \<Rightarrow> bool" where
  "accepted_row db j ws \<longleftrightarrow> (\<forall>r \<in> set (iterations db). it_id r = j \<and> it_workspace r = ws \<longrightarrow> it_state r = Accepted)"

lemma auto_accepts:
  assumes "accepted_row db j ws \<or> i = j \<and> earned db j ws"
  shows "accepted_row (snd (autoAcceptIterationIfComplete now db i ws)) j ws"
proof -
  let ?hit = "\<lambda>r. it_id r = i \<and> it_workspace r = ws \<and> it_state r \<in> {Planning, Committed}"
  let ?set = "\<lambda>r. r\<lparr>it_state := Accepted, it_completedAt := Some now\<rparr>"
  have open_row: "s \<notin> {Planning, Committed} \<Longrightarrow> s = Accepted" for s by (cases s) auto
  have it: "iterations (snd (autoAcceptIterationIfComplete now db i ws)) =
      (if earned db i ws then update_where ?hit ?set (iterations db) else iterations db)"
    by (auto simp: autoAcceptIterationIfComplete_def Let_def earned_def list_all_iff)
  have "it_state (if ?hit r then ?set r else r) = Accepted"
    if r: "r \<in> set (iterations db)" "it_id (if ?hit r then ?set r else r) = j" "it_workspace (if ?hit r then ?set r else r) = ws" for r
  proof (cases "?hit r")
    case True
    then have "(if ?hit r then ?set r else r) = ?set r" by (rule if_P)
    then show ?thesis by simp
  next
    case False
    then have eq: "(if ?hit r then ?set r else r) = r" by (rule if_not_P)
    with r(2,3) have "it_id r = j" "it_workspace r = ws" by simp_all
    with False r(1) assms open_row [of "it_state r"] show ?thesis unfolding accepted_row_def eq by blast
  qed
  then have "accepted_row (snd (autoAcceptIterationIfComplete now db i ws)) j ws" if "earned db i ws"
    unfolding accepted_row_def it if_P [OF that] ball_update_where by blast
  moreover have "accepted_row (snd (autoAcceptIterationIfComplete now db i ws)) j ws" if "\<not> earned db i ws"
    using assms that unfolding accepted_row_def it if_not_P [OF that] by blast
  ultimately show ?thesis by blast
qed

lemma fold_auto_accepts:
  assumes "accepted_row db j ws \<or> j \<in> set is \<and> earned db j ws"
  shows "accepted_row (fold (\<lambda>i d. snd (autoAcceptIterationIfComplete now d i ws)) is db) j ws"
  using assms
proof (induction "is" arbitrary: db)
  case (Cons i "is")
  let ?d = "snd (autoAcceptIterationIfComplete now db i ws)"
  have "earned ?d j ws = earned db j ws" using earned_items [of ?d db] by simp
  with Cons.prems auto_accepts [of db j ws i now] have "accepted_row ?d j ws \<or> j \<in> set is \<and> earned ?d j ws" by auto
  from Cons.IH [OF this] show ?case by simp
qed simp

lemma filter_update_where:
  assumes "\<And>r. r \<in> set rows \<Longrightarrow> p r \<Longrightarrow> \<not> P r \<and> \<not> P (f r)"
  shows "filter P (update_where p f rows) = filter P rows"
  using assms by (induction rows) (auto simp: update_where_def)

lemma loadBulkItems_found:
  assumes "loadBulkItems acc eff db ws actor p ids = Inr found"
  shows "found = filter (\<lambda>w. wi_id w \<in> set ids \<and> wi_workspace w = ws \<and> \<not> wi_deleted w) (items db)"
    "length found = card (set ids)"
  using assms keys_dedupe_by [of "\<lambda>x. x" "{}" ids] length_dedupe_by [of "\<lambda>x. x" "{}" ids]
  by (auto simp: loadBulkItems_def bind_sum_Inr Let_def split: if_splits)

text \<open>The selection is what was asked for, each item once; what belongs to an iteration changes only where an item
  left or arrived; and the moves of stories are recorded with their source.\<close>

lemma bulk_selection:
  assumes "loadBulkItems acc eff db ws actor p ids = Inr found" and "distinct (map wi_id (items db))"
  shows "wi_id ` set found = set ids"
proof -
  note found = loadBulkItems_found [OF assms(1)]
  have "distinct (map wi_id found)" using assms(2) found(1) by (simp add: distinct_map_filter)
  then have "card (wi_id ` set found) = card (set ids)"
    using found(2) by (metis distinct_card length_map set_map)
  moreover have "wi_id ` set found \<subseteq> set ids" using found(1) by auto
  ultimately show ?thesis by (intro card_subset_eq) simp_all
qed

lemma bulk_untouched_iteration:
  assumes items: "items db' = update_where (\<lambda>w. wi_id w \<in> set (map wi_id found) \<and> wi_workspace w = ws \<and> \<not> wi_deleted w)
      (\<lambda>w. w\<lparr>wi_iteration := target\<rparr>) (items db)"
    and mem: "\<And>w. w \<in> set (items db) \<Longrightarrow> wi_id w \<in> set (map wi_id found) \<and> wi_workspace w = ws \<and> \<not> wi_deleted w \<Longrightarrow> w \<in> set found"
    and no: "j \<notin> set (dedupe_by (\<lambda>x. x) {} (List.map_filter (\<lambda>x. x) (map wi_iteration found @ [target])))"
  shows "assigned db' j ws = assigned db j ws"
proof -
  from no have "Some j \<notin> wi_iteration ` set found" "target \<noteq> Some j"
    using keys_dedupe_by [of "\<lambda>x. x" "{}"] by (auto simp: set_filter_map)
  moreover have "r \<in> set found" if "r \<in> set (items db)"
    "wi_id r \<in> set (map wi_id found) \<and> wi_workspace r = ws \<and> \<not> wi_deleted r" for r
    using that by (rule mem)
  ultimately show ?thesis unfolding assigned_def items by (intro filter_update_where) force
qed

lemma auto_accepts_transitions:
  "transitions (fold (\<lambda>i d. snd (autoAcceptIterationIfComplete now d i ws)) xs d) = transitions d"
  by (induction xs arbitrary: d) (simp_all add: autoAcceptIterationIfComplete_def Let_def)


definition ex_item :: "uuid \<Rightarrow> WorkItemType \<Rightarrow> ScheduleState \<Rightarrow> uuid \<Rightarrow> item_row" where
  "ex_item i t s it = \<lparr>wi_id = i, wi_workspace = ''w'', wi_project = ''p'', wi_team = None, wi_type = t, wi_parent = None,
     wi_schedule = s, wi_iteration = Some it, wi_deleted = False\<rparr>"

text \<open>Three sprints; \<open>DE\<close> is open in sprint A, \<open>U1\<close> open in A, \<open>U2\<close> accepted in B.\<close>

definition ex_bulk_db :: iter_db where
  "ex_bulk_db = ex_iter_db\<lparr>
     iterations := map (\<lambda>i. ex_iteration\<lparr>it_id := i, it_key := i\<rparr>) [''A'', ''B'', ''C''],
     items := [ex_item ''DE'' Defect S_defined ''A'', ex_item ''U1'' Story S_defined ''A'', ex_item ''U2'' Story S_accepted ''B'',
               ex_item ''U3'' Story S_accepted ''A'']\<rparr>"

definition ex_moved_db :: iter_db where
  "ex_moved_db = snd (projr (bulkAssignIteration 9 ex_access_db [] (\<lambda>d. d) ex_bulk_db ''w'' ''root'' ''p'' [''DE'', ''U1''] (Some ''C'')))"

lemma ex_bulk:
  "bulkAssignIteration 9 ex_access_db [] (\<lambda>d. d) ex_bulk_db ''w'' ''root'' ''p'' [''DE'', ''U1''] (Some ''C'') =
     Inr (2, ex_moved_db)"
  unfolding ex_moved_db_def ex_bulk_db_def ex_iteration_def by code_simp


text \<open>A limit of the rule: the iterations to re-evaluate are taken from the rows read before the
  transaction, and only stories are locked and compared. If another request moves a defect to a second
  sprint in between, that sprint loses the defect, may be left complete, and is not accepted.\<close>

theorem bulk_assignment_race:
  "\<exists>db' r. bulkAssignIteration 9 ex_access_db [] (assignIteration [''DE''] (Some ''B'') ''w'') ex_bulk_db ''w'' ''root'' ''p''
       [''DE''] (Some ''C'') = Inr (1, db') \<and>
     r \<in> set (iterations db') \<and> it_id r = ''B'' \<and> it_state r = Committed \<and>
     map wi_id (assigned db' ''B'' ''w'') = [''U2''] \<and> earned db' ''B'' ''w''"
proof -
  define db' where "db' = snd (projr (bulkAssignIteration 9 ex_access_db [] (assignIteration [''DE''] (Some ''B'') ''w'') ex_bulk_db
    ''w'' ''root'' ''p'' [''DE''] (Some ''C'')))"
  have v: "bulkAssignIteration 9 ex_access_db [] (assignIteration [''DE''] (Some ''B'') ''w'') ex_bulk_db ''w'' ''root'' ''p''
       [''DE''] (Some ''C'') = Inr (1, db')"
    "iterations db' ! 1 = ex_iteration\<lparr>it_id := ''B'', it_key := ''B''\<rparr>" "length (iterations db') = 3"
    "map wi_id (assigned db' ''B'' ''w'') = [''U2'']" "map wi_schedule (assigned db' ''B'' ''w'') = [S_accepted]"
    unfolding db'_def ex_bulk_db_def ex_iteration_def by code_simp+
  have "iterations db' ! 1 \<in> set (iterations db')" using v(3) by (intro nth_mem) simp
  then have "ex_iteration\<lparr>it_id := ''B'', it_key := ''B''\<rparr> \<in> set (iterations db')" by (simp only: v(2))
  moreover have "earned db' ''B'' ''w''" using v(5) by (auto simp: earned_def isAcceptedScheduleState_def)
  moreover have "it_state ex_iteration = Committed" by (simp add: ex_iteration_def insert_row_def ex_opts_def)
  ultimately show ?thesis using v(1,4)
    by (intro exI [of _ db'] exI [of _ "ex_iteration\<lparr>it_id := ''B'', it_key := ''B''\<rparr>"]) simp
qed

end
