(* ===== verification/WorkItemLaws.thy ===== *)
theory WorkItemLaws
  imports WorkItems
begin

text \<open>
  What the writes of the work items keep: the two tables stay consistent with each other (a task has a
  story or defect of its own project above it and is in its sprint, a defect has a story above it, the
  two state fields agree, an acceptance date is there exactly when the state is accepted), and a
  parent's state follows its tasks after every write of a task.
\<close>

section \<open>The invariant of the two tables\<close>

definition ident :: "WorkItem \<Rightarrow> uuid \<times> uuid \<times> uuid \<times> WorkItemType" where
  "ident w = (wi_id w, wi_workspace w, wi_project w, wi_type w)"

definition item_ok :: "WorkItem list \<Rightarrow> WorkItem \<Rightarrow> bool" where
  "item_ok rows w \<longleftrightarrow> wi_type w \<noteq> Task \<and> w_flow w = wi_schedule w \<and>
     (w_accepted w \<noteq> None \<longleftrightarrow> isAcceptedScheduleState (wi_schedule w)) \<and>
     (case wi_parent w of None \<Rightarrow> True
      | Some p \<Rightarrow> wi_type w = Defect \<and> (p, wi_workspace w, wi_project w, Story) \<in> ident ` set rows)"

definition task_ok :: "WorkItem list \<Rightarrow> task_row \<Rightarrow> bool" where
  "task_ok rows t \<longleftrightarrow> (\<exists>p \<in> set rows. wi_id p = tk_parent t \<and> wi_workspace p = tk_workspace t \<and> wi_project p = tk_project t \<and>
     (\<not> tk_deleted t \<longrightarrow> tk_iteration t = wi_iteration p))"

definition rows_inv :: "WorkItem list \<Rightarrow> task_row list \<Rightarrow> bool" where
  "rows_inv rows ts \<longleftrightarrow> distinct (map wi_id rows @ map tk_id ts) \<and> (\<forall>w \<in> set rows. item_ok rows w) \<and> (\<forall>t \<in> set ts. task_ok rows t)"

abbreviation work_inv :: "work_db \<Rightarrow> bool" where
  "work_inv db \<equiv> rows_inv (work_items db) (tasks db)"

lemma item_ok_ident: "ident ` set rows' = ident ` set rows \<Longrightarrow> item_ok rows' w \<longleftrightarrow> item_ok rows w"
  unfolding item_ok_def by (simp only:)

lemma same_item: "rows_inv rows ts \<Longrightarrow> v \<in> set rows \<Longrightarrow> w \<in> set rows \<Longrightarrow> wi_id v = wi_id w \<Longrightarrow> v = w"
  by (auto simp: rows_inv_def distinct_map dest: inj_onD)

lemma same_task: "rows_inv rows ts \<Longrightarrow> s \<in> set ts \<Longrightarrow> t \<in> set ts \<Longrightarrow> tk_id s = tk_id t \<Longrightarrow> s = t"
  by (auto simp: rows_inv_def distinct_map dest: inj_onD)

lemma item_not_task: "rows_inv rows ts \<Longrightarrow> w \<in> set rows \<Longrightarrow> t \<in> set ts \<Longrightarrow> wi_id w \<noteq> tk_id t"
  by (auto simp: rows_inv_def)

lemma find_Some_in: "find P xs = Some x \<Longrightarrow> x \<in> set xs \<and> P x"
  by (auto simp: find_Some_iff)

lemma find_item_by_id: "rows_inv rows ts \<Longrightarrow> w \<in> set rows \<Longrightarrow> find (\<lambda>v. wi_id v = wi_id w) rows = Some w"
  by (cases "find (\<lambda>v. wi_id v = wi_id w) rows") (auto simp: find_None_iff dest!: find_Some_in dest: same_item)

section \<open>The triggers\<close>

lemma stamp_item_sel [simp]:
  "ident (stamp_item e old w) = ident w" "wi_id (stamp_item e old w) = wi_id w"
  "wi_workspace (stamp_item e old w) = wi_workspace w" "wi_project (stamp_item e old w) = wi_project w"
  "wi_type (stamp_item e old w) = wi_type w" "wi_parent (stamp_item e old w) = wi_parent w"
  "wi_schedule (stamp_item e old w) = wi_schedule w" "w_flow (stamp_item e old w) = w_flow w"
  "wi_iteration (stamp_item e old w) = wi_iteration w" "wi_deleted (stamp_item e old w) = wi_deleted w"
  "wi_team (stamp_item e old w) = wi_team w" "w_rank (stamp_item e old w) = w_rank w" "w_key (stamp_item e old w) = w_key w"
  by (simp_all add: stamp_item_def Let_def ident_def)

lemma stamp_task_sel [simp]:
  "tk_id (stamp_task e old t) = tk_id t" "tk_workspace (stamp_task e old t) = tk_workspace t"
  "tk_project (stamp_task e old t) = tk_project t" "tk_parent (stamp_task e old t) = tk_parent t"
  "tk_state (stamp_task e old t) = tk_state t" "tk_iteration (stamp_task e old t) = tk_iteration t"
  "tk_deleted (stamp_task e old t) = tk_deleted t" "tk_rank (stamp_task e old t) = tk_rank t"
  by (simp_all add: stamp_task_def Let_def)

lemma iteration_from_parent_sel [simp]:
  "tk_id (iteration_from_parent rows t) = tk_id t" "tk_workspace (iteration_from_parent rows t) = tk_workspace t"
  "tk_project (iteration_from_parent rows t) = tk_project t" "tk_parent (iteration_from_parent rows t) = tk_parent t"
  "tk_state (iteration_from_parent rows t) = tk_state t" "tk_deleted (iteration_from_parent rows t) = tk_deleted t"
  by (simp_all add: iteration_from_parent_def)

lemma toWorkItem_sel [simp]:
  "ident (toWorkItem w) = ident w" "wi_id (toWorkItem w) = wi_id w" "wi_workspace (toWorkItem w) = wi_workspace w"
  "wi_project (toWorkItem w) = wi_project w" "wi_type (toWorkItem w) = wi_type w" "wi_parent (toWorkItem w) = wi_parent w"
  "wi_schedule (toWorkItem w) = wi_schedule w" "w_flow (toWorkItem w) = w_flow w" "wi_team (toWorkItem w) = wi_team w"
  "wi_iteration (toWorkItem w) = wi_iteration w" "wi_deleted (toWorkItem w) = wi_deleted w"
  "w_accepted (toWorkItem w) = w_accepted w" "w_rank (toWorkItem w) = w_rank w"
  by (simp_all add: toWorkItem_def ident_def)

lemma mapTaskRow_sel [simp]:
  "wi_id (mapTaskRow t) = tk_id t" "wi_type (mapTaskRow t) = Task" "wi_parent (mapTaskRow t) = Some (tk_parent t)"
  "wi_workspace (mapTaskRow t) = tk_workspace t" "wi_project (mapTaskRow t) = tk_project t"
  "wi_schedule (mapTaskRow t) = task_schedule (tk_state t)" "w_devOwner (mapTaskRow t) = None"
  by (simp_all add: mapTaskRow_def)

lemma accepted_stamp:
  "w_accepted (stamp_item e None w) \<noteq> None \<longleftrightarrow> isAcceptedScheduleState (wi_schedule w)"
  "w_accepted w = w_accepted old \<Longrightarrow> w_accepted old \<noteq> None \<longleftrightarrow> isAcceptedScheduleState (wi_schedule old) \<Longrightarrow>
     w_accepted (stamp_item e (Some old) w) \<noteq> None \<longleftrightarrow> isAcceptedScheduleState (wi_schedule w)"
  by (auto simp: stamp_item_def Let_def split: option.splits)

section \<open>What one statement keeps\<close>

lemma inv_write_item:
  assumes inv: "work_inv db"
    and f: "\<And>w. w \<in> set (work_items db) \<Longrightarrow> wi_id w = i \<Longrightarrow> ident (f w) = ident w \<and> w_accepted (f w) = w_accepted w \<and>
      w_flow (f w) = wi_schedule (f w) \<and>
      (case wi_parent (f w) of None \<Rightarrow> True
       | Some p \<Rightarrow> wi_type w = Defect \<and> (p, wi_workspace w, wi_project w, Story) \<in> ident ` set (work_items db))"
  shows "work_inv (write_item e i f db)"
proof -
  define hit where "hit = (\<lambda>w :: WorkItem. wi_id w = i \<and> wi_workspace w = e_ws e)"
  define g where "g = (\<lambda>w. if hit w then stamp_item e (Some w) (f w) else w)"
  have rows: "work_items (write_item e i f db) = map g (work_items db)"
    by (simp add: write_item_def Let_def update_where_def g_def hit_def)
  have ident: "ident (g w) = ident w" if "w \<in> set (work_items db)" for w
    using f [OF that] by (auto simp: g_def hit_def)
  have idents: "ident ` set (map g (work_items db)) = ident ` set (work_items db)"
    by (force simp: image_iff ident)
  have same: "wi_id (g w) = wi_id w" "wi_workspace (g w) = wi_workspace w" "wi_project (g w) = wi_project w" if "w \<in> set (work_items db)" for w
    using ident [OF that] by (simp_all add: ident_def)
  have items: "item_ok (map g (work_items db)) (g w)" if w: "w \<in> set (work_items db)" for w
  proof -
    have "item_ok (work_items db) w" using inv w by (simp add: rows_inv_def)
    then have "item_ok (work_items db) (g w)"
      using f [OF w] accepted_stamp(2) [of "f w" w e] by (auto simp: g_def hit_def item_ok_def ident_def split: option.splits)
    then show ?thesis by (simp only: item_ok_ident [OF idents])
  qed
  define ts where "ts = tasks (write_item e i f db)"
  obtain h where ts: "ts = map h (tasks db)" and h: "\<And>t. tk_id (h t) = tk_id t" "\<And>t. tk_workspace (h t) = tk_workspace t"
    "\<And>t. tk_project (h t) = tk_project t" "\<And>t. tk_parent (h t) = tk_parent t" "\<And>t. tk_deleted (h t) = tk_deleted t"
    and it: "\<And>t. tk_iteration (h t) = (case find hit (work_items db) of None \<Rightarrow> tk_iteration t
        | Some w \<Rightarrow> if tk_parent t = i \<and> \<not> tk_deleted t \<and> wi_iteration (f w) \<noteq> wi_iteration w then wi_iteration (f w) else tk_iteration t)"
  proof (rule that)
    show "ts = map (\<lambda>t. case find hit (work_items db) of None \<Rightarrow> t
        | Some w \<Rightarrow> if wi_iteration (f w) \<noteq> wi_iteration w \<and> tk_parent t = i \<and> \<not> tk_deleted t \<and> tk_iteration t \<noteq> wi_iteration (f w)
                    then stamp_task e (Some t) (t\<lparr>tk_iteration := wi_iteration (f w)\<rparr>) else t) (tasks db)"
      by (simp add: ts_def write_item_def Let_def hit_def cascade_iteration_def update_where_def split: option.splits)
  qed (auto split: option.splits)
  have tasks: "task_ok (map g (work_items db)) (h t)" if t: "t \<in> set (tasks db)" for t
  proof -
    have "task_ok (work_items db) t" using inv t by (simp add: rows_inv_def)
    then obtain p where p: "p \<in> set (work_items db)" "wi_id p = tk_parent t" "wi_workspace p = tk_workspace t" "wi_project p = tk_project t"
      "\<not> tk_deleted t \<longrightarrow> tk_iteration t = wi_iteration p"
      unfolding task_ok_def by blast
    have "tk_iteration (h t) = wi_iteration (g p)" if "\<not> tk_deleted t"
    proof (cases "hit p")
      case True
      then have "find hit (work_items db) = Some p"
        using p(1) same_item [OF inv] by (cases "find hit (work_items db)") (auto simp: find_None_iff hit_def dest: find_Some_in)
      with True p that show ?thesis by (auto simp: it g_def hit_def)
    next
      case False
      have "find hit (work_items db) = None \<or> tk_parent t \<noteq> i"
      proof (rule ccontr)
        assume "\<not> ?thesis"
        then obtain w where "w \<in> set (work_items db)" "hit w" "tk_parent t = i" by (auto dest: find_Some_in)
        with p(1,2) same_item [OF inv, of w p] False show False by (auto simp: hit_def)
      qed
      with False p that show ?thesis by (auto simp: it g_def split: option.splits)
    qed
    with p same [OF p(1)] show ?thesis unfolding task_ok_def by (intro bexI [of _ "g p"]) (auto simp: h)
  qed
  have "map wi_id (map g (work_items db)) = map wi_id (work_items db)" using same by simp
  moreover have "map tk_id ts = map tk_id (tasks db)" by (simp add: ts h)
  ultimately have "distinct (map wi_id (map g (work_items db)) @ map tk_id ts)" using inv by (simp only: rows_inv_def)
  with items tasks show ?thesis by (auto simp: rows_inv_def rows ts simp flip: ts_def)
qed

lemma inv_write_task:
  assumes inv: "work_inv db"
    and f: "\<And>t. t \<in> set (tasks db) \<Longrightarrow> tk_id t = i \<Longrightarrow> tk_id (f t) = tk_id t \<and>
      (if moved then task_ok (work_items db) (f t\<lparr>tk_deleted := True\<rparr>)
       else tk_workspace (f t) = tk_workspace t \<and> tk_project (f t) = tk_project t \<and> tk_parent (f t) = tk_parent t \<and>
            tk_iteration (f t) = tk_iteration t \<and> (tk_deleted t \<longrightarrow> tk_deleted (f t)))"
  shows "work_inv (write_task e i moved f db)"
proof -
  define g where "g = (\<lambda>t. if tk_id t = i \<and> tk_workspace t = e_ws e
    then (if moved then iteration_from_parent (work_items db) (stamp_task e (Some t) (f t)) else stamp_task e (Some t) (f t)) else t)"
  have ts: "tasks (write_task e i moved f db) = map g (tasks db)" "work_items (write_task e i moved f db) = work_items db"
    by (simp_all add: write_task_def update_where_def g_def Let_def)
  have ids: "map tk_id (map g (tasks db)) = map tk_id (tasks db)" using f by (auto simp: g_def)
  have "task_ok (work_items db) (g t)" if t: "t \<in> set (tasks db)" for t
  proof -
    have ok: "task_ok (work_items db) t" using inv t by (simp add: rows_inv_def)
    show ?thesis
    proof (cases "tk_id t = i \<and> tk_workspace t = e_ws e \<and> moved")
      case True
      then obtain p where p: "p \<in> set (work_items db)" "wi_id p = tk_parent (f t)" "wi_workspace p = tk_workspace (f t)"
        "wi_project p = tk_project (f t)"
        using f [OF t] by (auto simp: task_ok_def)
      have "tk_iteration (g t) = wi_iteration p"
        using find_item_by_id [OF inv p(1)] True p(2) by (simp add: g_def iteration_from_parent_def)
      with p True show ?thesis unfolding task_ok_def by (intro bexI [of _ p]) (simp_all add: g_def)
    next
      case False
      from ok obtain p where p: "p \<in> set (work_items db)" "wi_id p = tk_parent t" "wi_workspace p = tk_workspace t"
        "wi_project p = tk_project t" "\<not> tk_deleted t \<longrightarrow> tk_iteration t = wi_iteration p"
        unfolding task_ok_def by blast
      with False f [OF t] show ?thesis unfolding task_ok_def by (intro bexI [of _ p]) (auto simp: g_def)
    qed
  qed
  with inv ids show ?thesis by (auto simp: rows_inv_def ts simp del: map_map)
qed

lemma log_entry_sel [simp]:
  "work_items (log_entry i a f db) = work_items db" "tasks (log_entry i a f db) = tasks db"
  "iterations (base (log_entry i a f db)) = iterations (base db)" "tests (log_entry i a f db) = tests db"
  by (simp_all add: log_entry_def)

lemma log_fields_sel [simp]:
  "work_items (log_fields i b fs db) = work_items db" "tasks (log_fields i b fs db) = tasks db" "tests (log_fields i b fs db) = tests db"
  unfolding log_fields_def by (induction fs arbitrary: db) simp_all

lemma notify_sel [simp]:
  "work_items (notifyAssignment e w r db) = work_items db" "tasks (notifyAssignment e w r db) = tasks db"
  "tests (notifyAssignment e w r db) = tests db"
  by (simp_all add: notifyAssignment_def Let_def)

lemma fold_notify_sel [simp]:
  "work_items (fold (\<lambda>r. notifyAssignment e w (Some r)) rs db) = work_items db"
  "tasks (fold (\<lambda>r. notifyAssignment e w (Some r)) rs db) = tasks db"
  by (induction rs arbitrary: db) simp_all

lemma auto_accept_sel [simp]:
  "work_items (auto_accept e i db) = work_items db" "tasks (auto_accept e i db) = tasks db"
  by (simp_all add: auto_accept_def)

lemma fold_auto_accept_sel [simp]:
  "work_items (fold (auto_accept e) is db) = work_items db" "tasks (fold (auto_accept e) is db) = tasks db"
  by (induction "is" arbitrary: db) simp_all

lemma find_live_item: "find (live_item i ws) rows = Some w \<Longrightarrow> w \<in> set rows \<and> wi_id w = i \<and> wi_workspace w = ws \<and> \<not> wi_deleted w"
  by (auto dest: find_Some_in simp: live_item_def)

lemma find_live_task: "find (live_task i ws) ts = Some t \<Longrightarrow> t \<in> set ts \<and> tk_id t = i \<and> tk_workspace t = ws \<and> \<not> tk_deleted t"
  by (auto dest: find_Some_in simp: live_task_def)

text \<open>What a request may change of a row without breaking the tables: it names no parent, or one that fits.\<close>

definition parent_fits :: "work_db \<Rightarrow> env \<Rightarrow> uuid \<Rightarrow> item_input \<Rightarrow> bool" where
  "parent_fits db e i u \<longleftrightarrow> (case u_parent u of
      None \<Rightarrow> True
    | Some None \<Rightarrow> True
    | Some (Some p) \<Rightarrow>
        (\<forall>t \<in> set (tasks db). tk_id t = i \<longrightarrow> (\<exists>q \<in> set (work_items db). ident q = (p, tk_workspace t, tk_project t, wi_type q))) \<and>
        (\<forall>w \<in> set (work_items db). wi_id w = i \<longrightarrow> wi_parent w = Some p \<or>
           wi_type w = Defect \<and> (p, wi_workspace w, wi_project w, Story) \<in> ident ` set (work_items db)))"

lemma set_item_sel [simp]:
  "ident (set_item u w) = ident w" "wi_id (set_item u w) = wi_id w" "w_accepted (set_item u w) = w_accepted w"
  "wi_parent (set_item u w) = set_if (u_parent u) (wi_parent w)" "wi_schedule (set_item u w) = set_if (mirroredState u) (wi_schedule w)"
  "w_flow (set_item u w) = set_if (mirroredState u) (w_flow w)" "wi_deleted (set_item u w) = wi_deleted w"
  "wi_workspace (set_item u w) = wi_workspace w" "wi_project (set_item u w) = wi_project w" "wi_type (set_item u w) = wi_type w"
  "wi_iteration (set_item u w) = set_if (u_iteration u) (wi_iteration w)" "wi_team (set_item u w) = set_if (u_team u) (wi_team w)"
  by (simp_all add: set_item_def ident_def)

lemma set_task_sel [simp]:
  "tk_id (set_task u t) = tk_id t" "tk_workspace (set_task u t) = tk_workspace t" "tk_project (set_task u t) = tk_project t"
  "tk_deleted (set_task u t) = tk_deleted t"
  "tk_parent (set_task u t) = (case u_parent u of Some (Some p) \<Rightarrow> p | _ \<Rightarrow> tk_parent t)"
  "tk_iteration (set_task u t) = set_if (u_iteration u) (tk_iteration t)"
  "tk_state (set_task u t) = (case mirroredState u of Some s \<Rightarrow> SCHEDULE_STATE_TO_TASK_STATE s | None \<Rightarrow> tk_state t)"
  by (simp_all add: set_task_def)

lemma set_if_simps [simp]: "set_if None x = x" "set_if (Some y) x = y"
  by (simp_all add: set_if_def)

lemma inv_set_item:
  assumes inv: "work_inv db" and fits: "parent_fits db e i u"
  shows "work_inv (write_item e i (set_item u) db)"
proof (rule inv_write_item [OF inv])
  fix w assume w: "w \<in> set (work_items db)" "wi_id w = i"
  have ok: "item_ok (work_items db) w" using inv w(1) by (simp add: rows_inv_def)
  then have par: "case wi_parent w of None \<Rightarrow> True
      | Some p \<Rightarrow> wi_type w = Defect \<and> (p, wi_workspace w, wi_project w, Story) \<in> ident ` set (work_items db)"
    and flow: "w_flow w = wi_schedule w" by (simp_all add: item_ok_def)
  have "case set_if (u_parent u) (wi_parent w) of None \<Rightarrow> True
      | Some p \<Rightarrow> wi_type w = Defect \<and> (p, wi_workspace w, wi_project w, Story) \<in> ident ` set (work_items db)"
  proof (cases "u_parent u")
    case None
    with par show ?thesis by simp
  next
    case (Some target)
    show ?thesis
    proof (cases target)
      case (Some p)
      with \<open>u_parent u = Some target\<close> fits w have "wi_parent w = Some p \<or>
          wi_type w = Defect \<and> (p, wi_workspace w, wi_project w, Story) \<in> ident ` set (work_items db)"
        by (simp add: parent_fits_def)
      with par \<open>u_parent u = Some target\<close> Some show ?thesis by auto
    qed (simp add: \<open>u_parent u = Some target\<close>)
  qed
  then show "ident (set_item u w) = ident w \<and> w_accepted (set_item u w) = w_accepted w \<and>
      w_flow (set_item u w) = wi_schedule (set_item u w) \<and>
      (case wi_parent (set_item u w) of None \<Rightarrow> True
       | Some p \<Rightarrow> wi_type w = Defect \<and> (p, wi_workspace w, wi_project w, Story) \<in> ident ` set (work_items db))"
    using flow by (simp add: set_if_def split: option.splits)
qed

lemma inv_set_task:
  assumes inv: "work_inv db" and fits: "parent_fits db e i u"
  shows "work_inv (write_task e i (task_moved u) (set_task u) db)"
proof (rule inv_write_task [OF inv])
  fix t assume t: "t \<in> set (tasks db)" "tk_id t = i"
  have ok: "task_ok (work_items db) t" using inv t(1) by (simp add: rows_inv_def)
  have "task_ok (work_items db) ((set_task u t)\<lparr>tk_deleted := True\<rparr>)"
  proof (cases "u_parent u")
    case (Some target)
    with fits t ok show ?thesis
      by (cases target) (auto simp: task_ok_def parent_fits_def ident_def)
  qed (use ok in \<open>auto simp: task_ok_def\<close>)
  then show "tk_id (set_task u t) = tk_id t \<and>
      (if task_moved u then task_ok (work_items db) ((set_task u t)\<lparr>tk_deleted := True\<rparr>)
       else tk_workspace (set_task u t) = tk_workspace t \<and> tk_project (set_task u t) = tk_project t \<and>
            tk_parent (set_task u t) = tk_parent t \<and> tk_iteration (set_task u t) = tk_iteration t \<and>
            (tk_deleted t \<longrightarrow> tk_deleted (set_task u t)))"
    by (auto simp: task_moved_def split: option.splits)
qed

lemma update_row_cases:
  assumes "update_row e i u x db = Inr (w, db')"
  obtains "db' = write_task e i (task_moved u) (set_task u) db" and "\<exists>t. find (live_task i (e_ws e)) (tasks db) = Some t"
  | "db' = write_item e i (set_item u) db" and "find (live_task i (e_ws e)) (tasks db) = None"
  using assms by (auto simp: update_row_def Let_def split: option.splits if_splits)

lemma inv_update_row:
  assumes "update_row e i u x db = Inr (w, db')" "work_inv db" "parent_fits db e i u"
  shows "work_inv db'"
  using assms(1) by (rule update_row_cases) (use inv_set_item inv_set_task assms(2,3) in \<open>simp_all\<close>)

lemma parent_fits_none [simp]: "u_parent u = None \<Longrightarrow> parent_fits db e i u"
  by (simp add: parent_fits_def)

lemma inv_reconcile: "work_inv db \<Longrightarrow> work_inv (reconcileParentScheduleState e p db)"
  by (auto simp: reconcileParentScheduleState_def Let_def no_input_def split: prod.splits option.splits sum.splits
      intro: inv_update_row)

section \<open>Creating\<close>

lemma findById_item:
  assumes "findById db i ws = Some q" "wi_type q \<noteq> Task"
  shows "\<exists>r \<in> set (work_items db). q = toWorkItem r \<and> live_item i ws r"
  using assms by (fastforce simp: findById_def dest: find_Some_in split: option.splits)

lemma rank_api_Inr: "rank_error_to_api r = Inr s \<longleftrightarrow> r = Inr s"
  by (simp add: rank_error_to_api_def split: sum.splits)

lemma create_tries_tx:
  assumes "create_tries e i pid type title st opts k n db = Inr (w, db')"
  shows "\<exists>key rank db1. work_items db1 = work_items db \<and> tasks db1 = tasks db \<and> base db1 = base db \<and>
    between (findMaxRank db pid (n_parent opts) (e_ws e)) None = Inr rank \<and>
    (w, db') = create_in_tx e (new_item e i pid type key title st rank opts) db1"
  using assms
proof (induction n arbitrary: k db)
  case (Suc n)
  from Suc.prems obtain kd where kd: "generateItemKey e pid type db = Inr kd"
    and rest: "(case kd of (key, db1) \<Rightarrow>
      bind_sum (rank_error_to_api (between (findMaxRank db1 pid (n_parent opts) (e_ws e)) None)) (\<lambda>rank.
      if key_taken db1 (e_ws e) type key
      then (if k < MAX_KEY_RETRIES - 1 then create_tries e i pid type title st opts (k + 1) n db1 else Inl (Uncaught ''23505''))
      else Inr (create_in_tx e (new_item e i pid type key title st rank opts) db1))) = Inr (w, db')"
    by (simp only: create_tries.simps bind_sum_Inr) blast
  obtain key db1 where kd': "kd = (key, db1)" by fastforce
  from kd kd' have g: "generateItemKey e pid type db = Inr (key, db1)" by simp
  from rest kd' obtain rank where r: "between (findMaxRank db1 pid (n_parent opts) (e_ws e)) None = Inr rank"
    and c: "if key_taken db1 (e_ws e) type key
      then create_tries e i pid type title st opts (k + 1) n db1 = Inr (w, db')
      else create_in_tx e (new_item e i pid type key title st rank opts) db1 = (w, db')"
    by (auto simp: bind_sum_Inr rank_api_Inr split: if_splits)
  have db1: "work_items db1 = work_items db" "tasks db1 = tasks db" "base db1 = base db"
    using g by (auto simp: generateItemKey_def bind_sum_Inr Let_def)
  then have mr: "findMaxRank db1 pid (n_parent opts) (e_ws e) = findMaxRank db pid (n_parent opts) (e_ws e)"
    by (simp add: findMaxRank_def tasks_of_def)
  show ?case
  proof (cases "key_taken db1 (e_ws e) type key")
    case True
    with c have "create_tries e i pid type title st opts (k + 1) n db1 = Inr (w, db')" by simp
    from Suc.IH [OF this] show ?thesis using db1 mr by simp
  next
    case False
    with c have "(w, db') = create_in_tx e (new_item e i pid type key title st rank opts) db1" by simp
    with r mr db1 show ?thesis by (intro exI [of _ key] exI [of _ rank] exI [of _ db1]) simp
  qed
qed simp

lemma new_item_sel [simp]:
  "wi_id (new_item e i pid type key title st rank opts) = i" "wi_workspace (new_item e i pid type key title st rank opts) = e_ws e"
  "wi_project (new_item e i pid type key title st rank opts) = pid" "wi_type (new_item e i pid type key title st rank opts) = type"
  "wi_parent (new_item e i pid type key title st rank opts) = n_parent opts" "w_rank (new_item e i pid type key title st rank opts) = rank"
  "w_flow (new_item e i pid type key title st rank opts) = wi_schedule (new_item e i pid type key title st rank opts)"
  "wi_deleted (new_item e i pid type key title st rank opts) = False" "w_accepted (new_item e i pid type key title st rank opts) = None"
  by (simp_all add: new_item_def Let_def)

lemma task_of_item_sel [simp]:
  "tk_id (task_of_item w) = wi_id w" "tk_workspace (task_of_item w) = wi_workspace w" "tk_project (task_of_item w) = wi_project w"
  "tk_parent (task_of_item w) = the (wi_parent w)" "tk_deleted (task_of_item w) = False" "tk_rank (task_of_item w) = w_rank w"
  "tk_state (task_of_item w) = SCHEDULE_STATE_TO_TASK_STATE (wi_schedule w)"
  by (simp_all add: task_of_item_def)

lemma inv_create_row:
  assumes inv: "work_inv db" and fresh: "wi_id w \<notin> wi_id ` set (work_items db) \<union> tk_id ` set (tasks db)"
    and flow: "w_flow w = wi_schedule w"
    and par: "case wi_parent w of None \<Rightarrow> wi_type w \<noteq> Task
      | Some p \<Rightarrow> \<exists>q \<in> set (work_items db). ident q = (p, wi_workspace w, wi_project w, wi_type q) \<and> wi_type w \<noteq> Story \<and>
          (wi_type w = Defect \<longrightarrow> wi_type q = Story)"
  shows "work_inv (snd (create_row e w db))"
proof (cases "wi_type w = Task")
  case True
  define t where "t = iteration_from_parent (work_items db) (stamp_task e None (task_of_item w))"
  have db': "work_items (snd (create_row e w db)) = work_items db" "tasks (snd (create_row e w db)) = tasks db @ [t]"
    using True by (simp_all add: create_row_def Let_def t_def)
  obtain p q where q: "wi_parent w = Some p" "q \<in> set (work_items db)" "ident q = (p, wi_workspace w, wi_project w, wi_type q)"
    using par True by (auto split: option.splits)
  have "tk_iteration t = wi_iteration q"
    using find_item_by_id [OF inv q(2)] q(1,3) by (simp add: t_def iteration_from_parent_def ident_def)
  with q have "task_ok (work_items db) t"
    unfolding task_ok_def by (intro bexI [of _ q]) (auto simp: t_def ident_def)
  moreover have "tk_id t = wi_id w" by (simp add: t_def)
  ultimately show ?thesis using inv fresh by (auto simp: rows_inv_def db')
next
  case False
  define r where "r = stamp_item e None (toWorkItem w)"
  have db': "work_items (snd (create_row e w db)) = work_items db @ [r]" "tasks (snd (create_row e w db)) = tasks db"
    using False by (simp_all add: create_row_def Let_def r_def)
  have mono: "item_ok (work_items db) v \<Longrightarrow> item_ok (work_items db @ [r]) v" for v
    by (auto simp: item_ok_def split: option.splits)
  have tmono: "task_ok (work_items db) t \<Longrightarrow> task_ok (work_items db @ [r]) t" for t
    by (auto simp: task_ok_def)
  have "case wi_parent w of None \<Rightarrow> True
      | Some p \<Rightarrow> wi_type w = Defect \<and> (p, wi_workspace w, wi_project w, Story) \<in> ident ` set (work_items db)"
    using par False by (cases "wi_type w") (force split: option.splits)+
  then have "item_ok (work_items db) r"
    using False flow accepted_stamp(1) [of e "toWorkItem w"] by (auto simp: item_ok_def r_def split: option.splits)
  moreover have "wi_id r = wi_id w" by (simp add: r_def)
  ultimately show ?thesis using inv fresh mono tmono by (auto simp: rows_inv_def db')
qed

lemma create_in_tx_inv:
  assumes "(c, db') = create_in_tx e w db" and "work_inv (snd (create_row e w db))"
  shows "work_inv db'"
proof -
  obtain c1 db1 where r: "create_row e w db = (c1, db1)" by fastforce
  with assms(2) have "work_inv db1" by simp
  with assms(1) r show ?thesis by (auto simp: create_in_tx_def Let_def intro!: inv_reconcile split: if_splits)
qed

lemma check_new_parent_ok:
  assumes "check_new_parent e db pid type par = Inr ()" "par \<noteq> Some []"
  shows "case par of None \<Rightarrow> type \<noteq> Task
      | Some p \<Rightarrow> \<exists>q \<in> set (work_items db). ident q = (p, e_ws e, pid, wi_type q) \<and> type \<noteq> Story \<and> (type = Defect \<longrightarrow> wi_type q = Story) \<and>
          live_item p (e_ws e) q"
proof (cases par)
  case None
  with assms show ?thesis by (auto simp: check_new_parent_def present_def split: if_splits)
next
  case (Some p)
  with assms have "present par" by (simp add: present_def)
  with assms(1) obtain q where q: "findById db p (e_ws e) = Some q" "wi_project q = pid"
    "type = Defect \<longrightarrow> wi_type q = Story" "type = Task \<longrightarrow> wi_type q = Story \<or> wi_type q = Defect" "type \<noteq> Story"
    by (cases type) (auto simp: check_new_parent_def getWorkItem_def Some bind_sum_Inr split: option.splits if_splits)
  then have "wi_type q \<noteq> Task" by (cases type) auto
  from findById_item [OF q(1) this] q Some show ?thesis
    by (auto simp: live_item_def ident_def intro!: bexI)
qed

lemma createWorkItem_tx:
  assumes "createWorkItem e i pid type title opts db = Inr (w, db')"
  shows "\<exists>key st rank db1. work_items db1 = work_items db \<and> tasks db1 = tasks db \<and> base db1 = base db \<and>
    check_new_parent e db pid type (n_parent opts) = Inr () \<and>
    between (findMaxRank db pid (n_parent opts) (e_ws e)) None = Inr rank \<and>
    (w, db') = create_in_tx e (new_item e i pid type key title st rank opts) db1"
proof -
  from assms obtain st where c: "check_new_parent e db pid type (n_parent opts) = Inr ()"
    "create_tries e i pid type title st opts 0 MAX_KEY_RETRIES db = Inr (w, db')"
    by (auto simp: createWorkItem_def bind_sum_Inr split: if_splits)
  from create_tries_tx [OF c(2)] c(1) show ?thesis by blast
qed

lemma inv_create:
  assumes "createWorkItem e i pid type title opts db = Inr (w, db')" and inv: "work_inv db"
    and "i \<notin> wi_id ` set (work_items db) \<union> tk_id ` set (tasks db)" and "n_parent opts \<noteq> Some []"
  shows "work_inv db'"
proof -
  obtain key st rank db1 where tx: "work_items db1 = work_items db" "tasks db1 = tasks db"
    "check_new_parent e db pid type (n_parent opts) = Inr ()"
    "(w, db') = create_in_tx e (new_item e i pid type key title st rank opts) db1"
    using createWorkItem_tx [OF assms(1)] by blast
  have "work_inv (snd (create_row e (new_item e i pid type key title st rank opts) db1))"
    by (rule inv_create_row) (use check_new_parent_ok [OF tx(3) assms(4)] inv assms(3) tx(1,2) in
      \<open>auto split: option.splits\<close>)
  with create_in_tx_inv [OF tx(4)] show ?thesis .
qed

section \<open>Updating and deleting\<close>

lemma findById_cases:
  assumes "findById db i ws = Some w"
  obtains r where "r \<in> set (work_items db)" "w = toWorkItem r" "live_item i ws r"
  | t where "t \<in> set (tasks db)" "w = mapTaskRow t" "live_task i ws t"
  using assms by (auto simp: findById_def dest: find_Some_in split: option.splits)

lemma getWorkItem_Inr: "getWorkItem db ws i = Inr w \<longleftrightarrow> findById db i ws = Some w"
  by (simp add: getWorkItem_def split: option.splits)

lemma findById_id: "findById db i ws = Some w \<Longrightarrow> wi_id w = i \<and> wi_workspace w = ws"
  by (erule findById_cases) (auto simp: live_item_def live_task_def)

lemma moved_parent_row:
  assumes "check_moved_parent e db item (Some (Some p)) = Inr ()" "wi_parent item \<noteq> Some p"
  shows "\<exists>q \<in> set (work_items db). ident q = (p, e_ws e, wi_project item, wi_type q) \<and> live_item p (e_ws e) q \<and>
    wi_type item \<noteq> Story \<and> (wi_type item = Defect \<longrightarrow> wi_type q = Story)"
proof -
  from assms obtain q where q: "findById db p (e_ws e) = Some q" "wi_project q = wi_project item"
    "wi_type item = Defect \<longrightarrow> wi_type q = Story" "wi_type q = Story \<or> wi_type q = Defect" "wi_type item \<noteq> Story"
    by (auto simp: check_moved_parent_def bind_sum_Inr getWorkItem_Inr split: WorkItemType.splits option.splits if_splits)
  then have "wi_type q \<noteq> Task" by auto
  from findById_item [OF q(1) this] q(2,3,5) show ?thesis by (auto simp: live_item_def ident_def intro!: bexI)
qed

lemma moved_parent_fits:
  assumes inv: "work_inv db" and item: "findById db i (e_ws e) = Some item"
    and ok: "check_moved_parent e db item (u_parent u) = Inr ()"
  shows "parent_fits db e i u"
proof (cases "\<exists>p. u_parent u = Some (Some p)")
  case False
  then show ?thesis by (auto simp: parent_fits_def split: option.splits)
next
  case True
  then obtain p where p: "u_parent u = Some (Some p)" by blast
  note row = moved_parent_row [OF ok [unfolded p]]
  from item show ?thesis
  proof (rule findById_cases)
    fix r assume r: "r \<in> set (work_items db)" "item = toWorkItem r" "live_item i (e_ws e) r"
    have "w = r" if "w \<in> set (work_items db)" "wi_id w = i" for w
      using same_item [OF inv that(1) r(1)] that(2) r(3) by (simp add: live_item_def)
    moreover have "tk_id t \<noteq> i" if "t \<in> set (tasks db)" for t
      using item_not_task [OF inv r(1) that] r(3) by (auto simp: live_item_def)
    moreover have "wi_parent r = Some p \<or> wi_type r = Defect \<and> (p, wi_workspace r, wi_project r, Story) \<in> ident ` set (work_items db)"
    proof (cases "wi_parent r = Some p")
      case False
      with row r(2) obtain q where q: "q \<in> set (work_items db)" "ident q = (p, e_ws e, wi_project r, wi_type q)"
        "wi_type r \<noteq> Story" "wi_type r = Defect \<longrightarrow> wi_type q = Story" by auto
      moreover have "wi_type r \<noteq> Task" using inv r(1) by (simp add: rows_inv_def item_ok_def)
      ultimately have "wi_type r = Defect" by (cases "wi_type r") auto
      with q r(3) show ?thesis by (auto simp: live_item_def image_iff intro!: bexI [of _ q])
    qed simp
    ultimately show ?thesis using p by (auto simp: parent_fits_def)
  next
    fix t assume t: "t \<in> set (tasks db)" "item = mapTaskRow t" "live_task i (e_ws e) t"
    have one: "s = t" if "s \<in> set (tasks db)" "tk_id s = i" for s
      using same_task [OF inv that(1) t(1)] that(2) t(3) by (simp add: live_task_def)
    have none: "wi_id w \<noteq> i" if "w \<in> set (work_items db)" for w
      using item_not_task [OF inv that t(1)] t(3) by (auto simp: live_task_def)
    have "\<exists>q \<in> set (work_items db). ident q = (p, tk_workspace t, tk_project t, wi_type q)"
    proof (cases "tk_parent t = p")
      case True
      have "task_ok (work_items db) t" using inv t(1) by (simp add: rows_inv_def)
      with True show ?thesis unfolding task_ok_def ident_def by fastforce
    next
      case False
      with row t(2) obtain q where "q \<in> set (work_items db)" "ident q = (p, e_ws e, tk_project t, wi_type q)" by auto
      with t(3) show ?thesis by (auto simp: live_task_def)
    qed
    with one none p show ?thesis by (auto simp: parent_fits_def)
  qed
qed

lemma parent_kept [simp]:
  "u_parent (task_hours w u) = u_parent u" "u_parent (clearReasonOnUnblock u) = u_parent u"
  "mirror_state u = Inr u' \<Longrightarrow> u_parent u' = u_parent u"
  "resetOwnerOutsideTeam e db w u = Inr u' \<Longrightarrow> u_parent u' = u_parent u"
  by (auto simp: task_hours_def Let_def clearReasonOnUnblock_def mirror_state_def resetOwnerOutsideTeam_def bind_sum_Inr
      split: option.splits if_splits)

lemma reset_owner_only: "resetOwnerOutsideTeam e db w u = Inr u' \<Longrightarrow> u' = u \<or> u' = u\<lparr>u_assignee := Some None\<rparr>"
  by (auto simp: resetOwnerOutsideTeam_def Let_def bind_sum_Inr split: if_splits)

lemma clearReason_mirrored [simp]: "mirroredState (clearReasonOnUnblock u) = mirroredState u"
  by (simp add: mirroredState_def clearReasonOnUnblock_def split: option.splits)

lemma parent_fits_cong: "u_parent u = u_parent v \<Longrightarrow> parent_fits db e i u \<longleftrightarrow> parent_fits db e i v"
  by (simp add: parent_fits_def)

text \<open>What the transaction does to the two tables: the update of the row, then the parent.\<close>

lemma after_update_rows:
  "\<exists>db1. work_items db1 = work_items db \<and> tasks db1 = tasks db \<and>
     work_items (after_update e item u w db) = work_items (if wi_type item = Task \<and> present (wi_parent item) \<and> u_schedule u \<noteq> None
         then reconcileParentScheduleState e (the (wi_parent item)) db1 else db1) \<and>
     tasks (after_update e item u w db) = tasks (if wi_type item = Task \<and> present (wi_parent item) \<and> u_schedule u \<noteq> None
         then reconcileParentScheduleState e (the (wi_parent item)) db1 else db1)"
proof -
  define changed where "changed = (case u_iteration u of None \<Rightarrow> False | Some i \<Rightarrow> i \<noteq> wi_iteration item)"
  define move where "move \<longleftrightarrow> wi_type item = Story \<and> changed"
  define db1 where "db1 = log_fields (wi_id item) (wi_type item = Task)
    (if move then filter (\<lambda>f. f \<noteq> ''iterationId'') (diffWorkItem item u (wi_type item = Task))
     else diffWorkItem item u (wi_type item = Task)) db"
  define db2 where "db2 = (if move then db1\<lparr>base := recordManualMoves [item_row.truncate item] (set_if (u_iteration u) None) (base db1)\<rparr> else db1)"
  define db3 where "db3 = (if \<not> wi_type item = Task \<and> ((case u_schedule u of None \<Rightarrow> False
      | Some s \<Rightarrow> isAcceptedScheduleState s \<and> \<not> isAcceptedScheduleState (wi_schedule item)) \<or> changed)
    then fold (auto_accept e) (affected_iterations item u) db2 else db2)"
  have "after_update e item u w db = fold (\<lambda>r d. notifyAssignment e w (Some r) d) (newlyAssigned u w item)
      (if wi_type item = Task \<and> present (wi_parent item) \<and> u_schedule u \<noteq> None
       then reconcileParentScheduleState e (the (wi_parent item)) db3 else db3)"
    unfolding after_update_def Let_def db3_def db2_def db1_def move_def changed_def ..
  moreover have "work_items db3 = work_items db" "tasks db3 = tasks db" by (simp_all add: db3_def db2_def db1_def)
  ultimately show ?thesis by (intro exI [of _ db3]) simp
qed

lemma rerank_keeps: "rerank e item u db = Inr u1 \<Longrightarrow> u_parent u1 = u_parent u \<and> mirroredState u1 = mirroredState u \<and>
    u_iteration u1 = u_iteration u"
  by (auto simp: rerank_def bind_sum_Inr mirroredState_def split: if_splits option.splits)

lemma update_in_tx_rows:
  assumes "update_in_tx e item u x db = Inr (w, db')"
  obtains u1 db1 db2 where "update_row e (wi_id item) u1 x db = Inr (w, db1)" "u_parent u1 = u_parent u" "mirroredState u1 = mirroredState u"
    "work_items db2 = work_items db1" "tasks db2 = tasks db1"
    "work_items db' = work_items (if wi_type item = Task \<and> present (wi_parent item) \<and> u_schedule u \<noteq> None
       then reconcileParentScheduleState e (the (wi_parent item)) db2 else db2)"
    "tasks db' = tasks (if wi_type item = Task \<and> present (wi_parent item) \<and> u_schedule u \<noteq> None
       then reconcileParentScheduleState e (the (wi_parent item)) db2 else db2)"
proof -
  from assms obtain u1 wd where r: "rerank e item u db = Inr u1"
    and row: "update_row e (wi_id item) (clearReasonOnUnblock u1) x db = Inr wd"
    and out: "(case wd of (updated, db1) \<Rightarrow> Inr (updated, after_update e item u updated db1)) = (Inr (w, db') :: api_error + WorkItem \<times> work_db)"
    unfolding update_in_tx_def bind_sum_Inr by blast
  obtain db1 where wd: "wd = (w, db1)" and db': "db' = after_update e item u w db1" using out by (auto split: prod.splits)
  obtain db2 where db2: "work_items db2 = work_items db1" "tasks db2 = tasks db1"
    "work_items db' = work_items (if wi_type item = Task \<and> present (wi_parent item) \<and> u_schedule u \<noteq> None
       then reconcileParentScheduleState e (the (wi_parent item)) db2 else db2)"
    "tasks db' = tasks (if wi_type item = Task \<and> present (wi_parent item) \<and> u_schedule u \<noteq> None
       then reconcileParentScheduleState e (the (wi_parent item)) db2 else db2)"
    using after_update_rows [of db1 e item u w] db' by blast
  have "u_parent (clearReasonOnUnblock u1) = u_parent u" "mirroredState (clearReasonOnUnblock u1) = mirroredState u"
    using rerank_keeps [OF r] by simp_all
  with row wd db2 show ?thesis by (intro that [of "clearReasonOnUnblock u1" db1 db2]) simp_all
qed

lemma inv_update_in_tx:
  assumes "update_in_tx e item u x db = Inr (w, db')" "work_inv db" "parent_fits db e (wi_id item) u"
  shows "work_inv db'"
proof -
  obtain u1 db1 db2 where s: "update_row e (wi_id item) u1 x db = Inr (w, db1)" "u_parent u1 = u_parent u"
    "work_items db2 = work_items db1" "tasks db2 = tasks db1"
    "work_items db' = work_items (if wi_type item = Task \<and> present (wi_parent item) \<and> u_schedule u \<noteq> None
       then reconcileParentScheduleState e (the (wi_parent item)) db2 else db2)"
    "tasks db' = tasks (if wi_type item = Task \<and> present (wi_parent item) \<and> u_schedule u \<noteq> None
       then reconcileParentScheduleState e (the (wi_parent item)) db2 else db2)"
    using update_in_tx_rows [OF assms(1)] by metis
  have "work_inv db1" by (rule inv_update_row [OF s(1) assms(2)]) (use assms(3) s(2) parent_fits_cong in blast)
  with s(3,4) have "work_inv db2" by simp
  then have "work_inv (reconcileParentScheduleState e (the (wi_parent item)) db2)" by (rule inv_reconcile)
  with \<open>work_inv db2\<close> s(5,6) show ?thesis by (simp split: if_splits)
qed

lemma updateWorkItem_tx:
  assumes "updateWorkItem e i u0 x db = Inr (w, db')"
  obtains item u where "findById db i (e_ws e) = Some item" "check_moved_parent e db item (u_parent u) = Inr ()"
    "update_in_tx e item u x db = Inr (w, db')" "u_parent u = u_parent u0" "u_schedule u = mirroredState u0" "mirroredState u = mirroredState u0"
    "wi_type item = Task \<Longrightarrow> u_iteration u = None"
proof -
  from assms obtain item u u1 cu where g: "findById db i (e_ws e) = Some item"
    and u: "(if (case u_team u0 of None \<Rightarrow> False | Some t \<Rightarrow> t \<noteq> wi_team item)
               then bind_sum (assertPairScope e (wi_project item) (set_if (u_team u0) None)) (\<lambda>_. resetOwnerOutsideTeam e db item u0)
               else Inr u0) = Inr u"
    and c: "check_update e db item u = Inr cu" and m: "mirror_state u = Inr u1"
    and t: "update_in_tx e item (task_hours item u1) x db = Inr (w, db')"
    unfolding updateWorkItem_def bind_sum_Inr getWorkItem_Inr by blast
  have "u = u0 \<or> resetOwnerOutsideTeam e db item u0 = Inr u" using u by (auto simp only: bind_sum_Inr split: if_splits)
  then have "u = u0 \<or> u = u0\<lparr>u_assignee := Some None\<rparr>" using reset_owner_only by blast
  then have keep: "u_parent u = u_parent u0" "mirroredState u = mirroredState u0" by (auto simp: mirroredState_def split: option.splits)
  have par: "check_moved_parent e db item (u_parent u) = Inr ()"
    and it: "wi_type item = Task \<Longrightarrow> u_iteration u = None"
    using c unfolding check_update_def bind_sum_Inr by (auto simp: guard_sum_def split: if_splits)
  have "u_schedule u1 = mirroredState u" "mirroredState u1 = mirroredState u" "u_iteration u1 = u_iteration u"
    using m by (auto simp: mirror_state_def mirroredState_def split: if_splits option.splits)
  moreover have "u_schedule (task_hours item u1) = u_schedule u1" "u_iteration (task_hours item u1) = u_iteration u1"
    "mirroredState (task_hours item u1) = mirroredState u1"
    by (simp_all add: task_hours_def Let_def mirroredState_def split: option.splits)
  ultimately show ?thesis using g t keep par it m by (intro that [of item "task_hours item u1"]) simp_all
qed

lemma inv_update:
  assumes "updateWorkItem e i u x db = Inr (w, db')" "work_inv db"
  shows "work_inv db'"
proof -
  obtain item u1 where t: "findById db i (e_ws e) = Some item" "check_moved_parent e db item (u_parent u1) = Inr ()"
    "update_in_tx e item u1 x db = Inr (w, db')"
    by (rule updateWorkItem_tx [OF assms(1)]) blast
  have "wi_id item = i" using findById_id [OF t(1)] by simp
  with moved_parent_fits [OF assms(2) t(1,2)] show ?thesis using inv_update_in_tx [OF t(3) assms(2)] by simp
qed

lemma inv_soft_delete:
  assumes "work_inv db"
  shows "work_inv (softDelete e i db)"
proof -
  have "work_inv (write_task e i False (\<lambda>t. t\<lparr>tk_deleted := True\<rparr>) db)"
    by (rule inv_write_task [OF assms]) simp
  moreover have "work_inv (write_item e i (\<lambda>w. w\<lparr>wi_deleted := True\<rparr>) db)"
    by (rule inv_write_item [OF assms]) (use assms in \<open>auto simp: rows_inv_def item_ok_def ident_def\<close>)
  ultimately show ?thesis by (simp add: softDelete_def)
qed

lemma inv_delete:
  assumes "deleteWorkItem e i db = Inr db'" "work_inv db"
  shows "work_inv db'"
proof -
  have "work_inv (softDeleteByWorkItem e i (softDelete e i db))"
    using inv_soft_delete [OF assms(2)] by (simp add: softDeleteByWorkItem_def)
  with assms(1) show ?thesis
    by (auto simp: deleteWorkItem_def bind_sum_Inr Let_def intro!: inv_reconcile split: if_splits)
qed

section \<open>A parent follows its tasks\<close>

text \<open>The rule, over the set of states: all completed, all defined, or in progress.\<close>

definition state_of :: "TaskState list \<Rightarrow> ScheduleState" where
  "state_of ss = (if \<forall>s \<in> set ss. s = T_completed then S_completed
     else if \<forall>s \<in> set ss. s = T_defined then S_defined else S_in_progress)"

definition follows :: "work_db \<Rightarrow> uuid \<Rightarrow> uuid \<Rightarrow> bool" where
  "follows db p ws \<longleftrightarrow> tasks_of db p ws = [] \<or>
     (\<forall>w \<in> set (work_items db). live_item p ws w \<longrightarrow> wi_schedule w = state_of (map tk_state (tasks_of db p ws)))"

lemma derived_state_of:
  "derived_state (length ts) (length (filter (\<lambda>t. tk_state t = T_defined) ts)) (length (filter (\<lambda>t. tk_state t = T_completed) ts)) =
     state_of (map tk_state ts)"
  by (simp add: derived_state_def state_of_def length_filter_all)

lemma tasks_of_sel: "tasks a = tasks b \<Longrightarrow> tasks_of a p ws = tasks_of b p ws"
  by (simp add: tasks_of_def)

lemma follows_sel: "work_items a = work_items b \<Longrightarrow> tasks a = tasks b \<Longrightarrow> follows a p ws \<longleftrightarrow> follows b p ws"
  by (simp add: follows_def tasks_of_def)

lemma no_input_sel [simp]:
  "u_parent no_input = None" "u_iteration no_input = None" "u_schedule no_input = None" "u_flow no_input = None"
  by (simp_all add: no_input_def)

lemma find_live_None: "find (live_item p ws) rows = None \<longleftrightarrow> (\<forall>w \<in> set rows. \<not> live_item p ws w)"
  by (auto simp: find_None_iff)

lemma reconcile_follows:
  assumes inv: "work_inv db"
  shows "follows (reconcileParentScheduleState e p db) p (e_ws e)"
proof -
  define ts where "ts = tasks_of db p (e_ws e)"
  define s where "s = state_of (map tk_state ts)"
  define db' where "db' = reconcileParentScheduleState e p db"
  have counts: "taskStateCounts db p (e_ws e) = (length ts, length (filter (\<lambda>t. tk_state t = T_defined) ts),
      length (filter (\<lambda>t. tk_state t = T_completed) ts))"
    by (simp add: taskStateCounts_def Let_def ts_def)
  show ?thesis
  proof (cases "find (live_item p (e_ws e)) (work_items db)")
    case None
    have "work_items db' = work_items db"
    proof -
      have "work_items d = work_items db" if "update_row e p u x db = Inr (w, d)" "findById db p (e_ws e) = Some q" for u x w d q
        using that(1)
      proof (rule update_row_cases)
        assume "find (live_task p (e_ws e)) (tasks db) = None"
        with None that(2) show ?thesis by (simp add: findById_def)
      qed (simp add: write_task_def)
      then show ?thesis
        by (auto simp: db'_def reconcileParentScheduleState_def Let_def split: prod.splits option.splits sum.splits)
    qed
    with None show ?thesis unfolding follows_def db'_def [symmetric] by (simp add: find_live_None)
  next
    case (Some r)
    from find_live_item [OF Some] have r: "r \<in> set (work_items db)" "wi_id r = p" "wi_workspace r = e_ws e" "\<not> wi_deleted r" by simp_all
    have one: "w = r" if "w \<in> set (work_items db)" "wi_id w = p" for w using same_item [OF inv that(1) r(1)] that(2) r(2) by simp
    have "find (live_task p (e_ws e)) (tasks db) = None"
      using item_not_task [OF inv r(1)] r(2) by (fastforce simp: find_None_iff live_task_def)
    have hit: "find (\<lambda>w. wi_id w = p \<and> wi_workspace w = e_ws e) (work_items db) = Some r"
    proof (cases "find (\<lambda>w. wi_id w = p \<and> wi_workspace w = e_ws e) (work_items db)")
      case None
      with r show ?thesis by (simp add: find_None_iff)
    next
      case (Some v)
      with one find_Some_in [OF Some] show ?thesis by simp
    qed
    define u where "u = no_input\<lparr>u_schedule := Some s\<rparr>"
    have row: "update_row e p u None db = Inr (toWorkItem (stamp_item e (Some r) (set_item u r)), write_item e p (set_item u) db)"
      using hit \<open>find (live_task p (e_ws e)) (tasks db) = None\<close> by (simp add: update_row_def)
    have byid: "findById db p (e_ws e) = Some (toWorkItem r)" using Some by (simp add: findById_def)
    have w: "tasks (write_item e p (set_item u) db) = tasks db"
      "\<forall>v \<in> set (work_items (write_item e p (set_item u) db)). live_item p (e_ws e) v \<longrightarrow> wi_schedule v = s"
    proof -
      show "tasks (write_item e p (set_item u) db) = tasks db" using hit by (simp add: write_item_def Let_def u_def)
      have "wi_schedule v = s" if "v \<in> set (work_items (write_item e p (set_item u) db))" "wi_id v = p" for v
      proof -
        from that(1) obtain v0 where "v0 \<in> set (work_items db)"
          "v = (if wi_id v0 = p \<and> wi_workspace v0 = e_ws e then stamp_item e (Some v0) (set_item u v0) else v0)"
          by (auto simp: write_item_def Let_def in_update_where)
        with that(2) one [of v0] r show ?thesis by (simp add: u_def mirroredState_def split: if_splits)
      qed
      then show "\<forall>v \<in> set (work_items (write_item e p (set_item u) db)). live_item p (e_ws e) v \<longrightarrow> wi_schedule v = s"
        by (simp add: live_item_def)
    qed
    show ?thesis
    proof (cases "ts = [] \<or> s = wi_schedule r")
      case True
      then have "db' = db"
        using byid by (auto simp: db'_def reconcileParentScheduleState_def counts derived_state_of s_def [symmetric])
      with True one ts_def show ?thesis
        unfolding db'_def [symmetric] follows_def s_def by (auto simp: live_item_def)
    next
      case False
      then have "work_items db' = work_items (write_item e p (set_item u) db) \<and> tasks db' = tasks db"
        using byid row w(1) unfolding db'_def reconcileParentScheduleState_def counts
        by (simp add: derived_state_of s_def [symmetric] u_def [symmetric] split: option.splits)
      with w show ?thesis unfolding db'_def [symmetric] follows_def
        using tasks_of_sel [of db' db] by (auto simp: ts_def s_def)
    qed
  qed
qed

text \<open>The requests that write a task below the item \<open>p\<close>.\<close>

inductive task_write :: "env \<Rightarrow> uuid \<Rightarrow> work_db \<Rightarrow> work_db \<Rightarrow> bool" for e p where
  created: "createTask e i p title assignee devOwner team estimate todo actual db = Inr (w, db') \<Longrightarrow>
     i \<notin> wi_id ` set (work_items db) \<union> tk_id ` set (tasks db) \<Longrightarrow> task_write e p db db'"
| moved_on: "updateWorkItem e (tk_id t) u x db = Inr (w, db') \<Longrightarrow> t \<in> set (tasks db) \<Longrightarrow> live_task (tk_id t) (e_ws e) t \<Longrightarrow>
     tk_parent t = p \<Longrightarrow> mirroredState u \<noteq> None \<Longrightarrow> task_write e p db db'"
| removed: "deleteWorkItem e (tk_id t) db = Inr db' \<Longrightarrow> t \<in> set (tasks db) \<Longrightarrow> live_task (tk_id t) (e_ws e) t \<Longrightarrow>
     tk_parent t = p \<Longrightarrow> task_write e p db db'"

lemma findById_task:
  assumes "work_inv db" "t \<in> set (tasks db)" "live_task (tk_id t) ws t"
  shows "findById db (tk_id t) ws = Some (mapTaskRow t)"
proof -
  have "find (live_item (tk_id t) ws) (work_items db) = None"
    using item_not_task [OF assms(1) _ assms(2)] by (auto simp: find_None_iff live_item_def)
  moreover have "find (live_task (tk_id t) ws) (tasks db) = Some t"
    using assms(2,3) same_task [OF assms(1) _ assms(2)]
    by (cases "find (live_task (tk_id t) ws) (tasks db)") (auto simp: find_None_iff live_task_def dest!: find_Some_in)
  ultimately show ?thesis by (simp add: findById_def)
qed

text \<open>C9: whenever a task is created, changes its state or is deleted, its story or defect has afterwards the
  state its live tasks call for (completed when all are, defined when all are, in progress
  otherwise), whatever state it had before; the tables stay consistent.\<close>

theorem parent_follows_tasks:
  assumes "task_write e p db db'" and "work_inv db" and "p \<noteq> []"
  shows "work_inv db' \<and> follows db' p (e_ws e)"
  using assms(1)
proof cases
  case (created i title assignee devOwner team estimate todo actual w)
  from created(1) obtain parent opts where "findById db p (e_ws e) = Some parent" and
    c: "createWorkItem e i (wi_project parent) Task title opts db = Inr (w, db')" and par: "n_parent opts = Some (wi_id parent)"
    by (auto simp: createTask_def bind_sum_Inr getWorkItem_Inr split: if_splits)
  then have p: "n_parent opts = Some p" using findById_id by blast
  have inv': "work_inv db'" using inv_create [OF c assms(2) created(2)] p assms(3) by simp
  obtain key st rank db1 where tx: "work_items db1 = work_items db" "tasks db1 = tasks db"
    "check_new_parent e db (wi_project parent) Task (n_parent opts) = Inr ()"
    "(w, db') = create_in_tx e (new_item e i (wi_project parent) Task key title st rank opts) db1"
    using createWorkItem_tx [OF c] by blast
  have "work_inv (snd (create_row e (new_item e i (wi_project parent) Task key title st rank opts) db1))"
    by (rule inv_create_row) (use check_new_parent_ok [OF tx(3)] assms(2,3) created(2) tx(1,2) p in \<open>auto split: option.splits\<close>)
  moreover obtain cr db2 where cr: "create_row e (new_item e i (wi_project parent) Task key title st rank opts) db1 = (cr, db2)" by fastforce
  moreover from cr have "wi_parent cr = Some p" using p by (auto simp: create_row_def Let_def)
  ultimately obtain db3 where "db' = reconcileParentScheduleState e p db3" "work_inv db3"
    using tx(4) assms(3) by (auto simp: create_in_tx_def Let_def present_def split: prod.splits)
  then show ?thesis using reconcile_follows inv' by blast
next
  case (moved_on t u x w)
  note byid = findById_task [OF assms(2) moved_on(2,3)]
  obtain item u1 where t: "findById db (tk_id t) (e_ws e) = Some item" "update_in_tx e item u1 x db = Inr (w, db')"
    "check_moved_parent e db item (u_parent u1) = Inr ()" "u_schedule u1 = mirroredState u"
    by (rule updateWorkItem_tx [OF moved_on(1)]) blast
  have item: "item = mapTaskRow t" using t(1) byid by simp
  have cond: "(wi_type item = Task \<and> present (wi_parent item) \<and> u_schedule u1 \<noteq> None) = True" "the (wi_parent item) = p"
    using t(4) moved_on(4,5) assms(3) by (auto simp: item present_def)
  obtain u2 db1 db2 where r: "update_row e (wi_id item) u2 x db = Inr (w, db1)" "u_parent u2 = u_parent u1"
    "mirroredState u2 = mirroredState u1" "work_items db2 = work_items db1" "tasks db2 = tasks db1"
    "work_items db' = work_items (reconcileParentScheduleState e p db2)" "tasks db' = tasks (reconcileParentScheduleState e p db2)"
    by (rule update_in_tx_rows [OF t(2), unfolded cond if_True])
  have "parent_fits db e (wi_id item) u2"
    using moved_parent_fits [OF assms(2) t(1,3)] parent_fits_cong [OF r(2)] item by simp
  then have "work_inv db1" by (rule inv_update_row [OF r(1) assms(2)])
  then have "follows (reconcileParentScheduleState e p db2) p (e_ws e)" using r(4,5) by (intro reconcile_follows) simp
  then show ?thesis using inv_update [OF moved_on(1) assms(2)] follows_sel [OF r(6,7)] by simp
next
  case (removed t)
  note byid = findById_task [OF assms(2) removed(2,3)]
  have "db' = reconcileParentScheduleState e p (log_entry (tk_id t) ''task.deleted'' None
      (softDeleteByWorkItem e (tk_id t) (softDelete e (tk_id t) db)))"
    using removed(1,4) byid assms(3) by (auto simp: deleteWorkItem_def bind_sum_Inr getWorkItem_Inr present_def)
  moreover have "work_inv (softDelete e (tk_id t) db)" by (rule inv_soft_delete [OF assms(2)])
  ultimately show ?thesis using reconcile_follows inv_delete [OF removed(1) assms(2)] by (simp add: softDeleteByWorkItem_def)
qed

end
