(* ===== verification/StoryMoves.thy ===== *)
theory StoryMoves
  imports WorkItemLaws
begin

text \<open>
  The two story moves as transactions of \<^verbatim>\<open>work-items.service.ts\<close>: \<open>splitWorkItem\<close> (the finished part stays
  in the sprint as an accepted placeholder, the rest goes on) and \<open>carryOverWorkItem\<close> (the story goes
  on as it is), with what they show on the way. \<open>others\<close> is what other requests commit between
  the checks and the transaction; the rows appended to the append-only tables of splits and transitions
  are part of the result.
\<close>

section \<open>What a split reads\<close>

definition SPLIT_PREVIEW_COLLECTION_LIMIT :: nat where
  "SPLIT_PREVIEW_COLLECTION_LIMIT = 100"

text \<open>The caller's team scope as a filter on a row's resolved team; \<open>None\<close>: no filter.\<close>

definition teamScopeFor :: "env \<Rightarrow> uuid \<Rightarrow> uuid list option" where
  "teamScopeFor e projectId = resolveTeamScope (e_acc e) (e_eff e) (e_ws e) (e_actor e) projectId"

definition teamScopeAdmits :: "uuid list option \<Rightarrow> uuid option \<Rightarrow> bool" where
  "teamScopeAdmits scope team = (case scope of None \<Rightarrow> True | Some ids \<Rightarrow> (case team of None \<Rightarrow> False | Some t \<Rightarrow> t \<in> set ids))"

text \<open>\<^verbatim>\<open>coalesce(task.team, parent.team, iteration.team)\<close>.\<close>

definition task_team :: "work_db \<Rightarrow> task_row \<Rightarrow> uuid option" where
  "task_team db t =
     (case tk_team t of Some x \<Rightarrow> Some x
      | None \<Rightarrow> (case find (\<lambda>w. wi_id w = tk_parent t) (work_items db) of
          Some p \<Rightarrow> (case wi_team p of Some x \<Rightarrow> Some x
             | None \<Rightarrow> (case find (\<lambda>r. Some (it_id r) = tk_iteration t) (iterations (base db)) of None \<Rightarrow> None | Some r \<Rightarrow> it_team r))
        | None \<Rightarrow> (case find (\<lambda>r. Some (it_id r) = tk_iteration t) (iterations (base db)) of None \<Rightarrow> None | Some r \<Rightarrow> it_team r)))"

definition by_rank_id :: "('r \<Rightarrow> string) \<Rightarrow> ('r \<Rightarrow> uuid) \<Rightarrow> 'r \<Rightarrow> 'r \<Rightarrow> int" where
  "by_rank_id rank i a b =
     (if rank a \<noteq> rank b then (if rank a < rank b then -1 else 1) else if i a < i b then -1 else if i b < i a then 1 else 0)"

definition listTasksByParent :: "work_db \<Rightarrow> uuid \<Rightarrow> uuid \<Rightarrow> uuid list option \<Rightarrow> task_row list" where
  "listTasksByParent db parentId ws scope =
     js_sort (by_rank_id tk_rank tk_id) (filter (\<lambda>t. teamScopeAdmits scope (task_team db t)) (tasks_of db parentId ws))"

text \<open>The newest first (rows are kept in the order of their creation), one page.\<close>

definition listChildDefects :: "work_db \<Rightarrow> uuid \<Rightarrow> uuid \<Rightarrow> uuid \<Rightarrow> uuid list option \<Rightarrow> WorkItem list" where
  "listChildDefects db projectId parentId ws scope =
     take SPLIT_PREVIEW_COLLECTION_LIMIT (rev (filter (\<lambda>w. wi_project w = projectId \<and> wi_workspace w = ws \<and> \<not> wi_deleted w \<and>
       wi_parent w = Some parentId \<and> wi_type w = Defect \<and> teamScopeAdmits scope (wi_team w)) (work_items db)))"

definition listByWorkItem :: "work_db \<Rightarrow> uuid \<Rightarrow> uuid \<Rightarrow> test_row list" where
  "listByWorkItem db i ws =
     take SPLIT_PREVIEW_COLLECTION_LIMIT (js_sort (by_rank_id tc_rank tc_id)
       (filter (\<lambda>t. tc_item t = i \<and> tc_workspace t = ws \<and> \<not> tc_deleted t) (tests db)))"

definition sumHours :: "num option list \<Rightarrow> num" where
  "sumHours values = of_int (math_round (sum_list (map (\<lambda>v. case v of None \<Rightarrow> 0 | Some n \<Rightarrow> n) values) * 100)) / 100"

definition assertSubmittedIdsBelong :: "uuid list \<Rightarrow> uuid list \<Rightarrow> api_error + uuid list" where
  "assertSubmittedIdsBelong submitted live =
     (if \<exists>i \<in> set submitted. i \<notin> set live then Inl (PreconditionFailed ''SPLIT_ITEM_NOT_IN_STORY'')
      else Inr (dedupe_by (\<lambda>x. x) {} submitted))"

section \<open>Split\<close>

record split_input =
  si_expectedSource :: uuid
  si_target :: uuid
  si_unfinishedTitle :: string
  si_unfinishedPoints :: "num option"
  si_continuedTitle :: string
  si_continuedPoints :: "num option"
  si_continuedRelease :: "uuid option"
  si_continuedState :: ScheduleState
  si_tasks :: "uuid list"
  si_defects :: "uuid list"
  si_tests :: "uuid list"

datatype split_kind = K_task | K_defect | K_test_case

record split_item =
  sx_kind :: split_kind
  sx_id :: uuid
  sx_side :: SplitSide
  sx_estimate :: "num option"
  sx_todo :: "num option"
  sx_actual :: "num option"
  sx_explicit :: "uuid option"

record split_row =
  sp_id :: uuid
  sp_project :: uuid
  sp_team :: "uuid option"
  sp_continued :: uuid
  sp_unfinished :: uuid
  sp_source :: uuid
  sp_target :: uuid
  sp_at :: nat
  sp_sourceDate :: iso_date
  sp_targetDate :: iso_date
  sp_originalPoints :: "num option"
  sp_unfinishedPoints :: "num option"
  sp_continuedPoints :: "num option"
  sp_movedTodo :: num
  sp_actual :: num

record split_result =
  sr_split :: split_row
  sr_items :: "split_item list"
  sr_unfinished :: WorkItem
  sr_continued :: WorkItem
  sr_db :: work_db

text \<open>Everything the transaction needs from the checks before it.\<close>

record split_plan =
  pl_story :: WorkItem
  pl_input :: split_input
  pl_source :: iteration_row
  pl_target :: iteration_row
  pl_tasks :: "task_row list"
  pl_defects :: "WorkItem list"
  pl_tests :: "test_row list"
  pl_taskIds :: "uuid list"
  pl_defectIds :: "uuid list"
  pl_testIds :: "uuid list"

definition split_checks :: "env \<Rightarrow> uuid \<Rightarrow> split_input \<Rightarrow> work_db \<Rightarrow> api_error + split_plan" where
  "split_checks e i input db =
     bind_sum (getWorkItem db (e_ws e) i) (\<lambda>story.
     bind_sum (assertTeamScope e db story) (\<lambda>_.
     bind_sum (assertProjectWritable (view db) (e_ws e) (wi_project story)) (\<lambda>_.
     bind_sum (guard_sum (splitIneligibleReason story = None) (PreconditionFailed ''SPLIT_NOT_ELIGIBLE'')) (\<lambda>_.
     bind_sum (guard_sum (wi_iteration story = Some (si_expectedSource input)) (PreconditionFailed ''SPLIT_SOURCE_ITERATION_CHANGED'')) (\<lambda>_.
     bind_sum (assertIterationAssignable (view db) (e_ws e) (item_row.truncate story) (si_target input)) (\<lambda>_.
     let its = listProjectIterations db (wi_project story) (e_ws e) in
     case find (\<lambda>r. Some (it_id r) = wi_iteration story) its of
       None \<Rightarrow> Inl (PreconditionFailed ''SPLIT_NOT_ELIGIBLE'')
     | Some source \<Rightarrow>
         (case find (\<lambda>c. it_id c = si_target input)
                 (filterSplitTargets (it_id source) (it_end source) its (wi_project story) (wi_team story)) of
            None \<Rightarrow> Inl (PreconditionFailed ''SPLIT_TARGET_INVALID'')
          | Some target \<Rightarrow>
              let scope = teamScopeFor e (wi_project story);
                  ts = listTasksByParent db i (e_ws e) scope;
                  ds = listChildDefects db (wi_project story) i (e_ws e) scope;
                  tcs = listByWorkItem db i (e_ws e)
              in bind_sum (assertSubmittedIdsBelong (si_tasks input) (map tk_id ts)) (\<lambda>taskIds.
                 bind_sum (assertSubmittedIdsBelong (si_defects input) (map wi_id ds)) (\<lambda>defectIds.
                 bind_sum (assertSubmittedIdsBelong (si_tests input) (map tc_id tcs)) (\<lambda>testIds.
                 Inr \<lparr>pl_story = story, pl_input = input, pl_source = source, pl_target = target, pl_tasks = ts, pl_defects = ds,
                      pl_tests = tcs, pl_taskIds = taskIds, pl_defectIds = defectIds, pl_testIds = testIds\<rparr>))))))))))"

text \<open>The placeholder for what was finished.\<close>

definition placeholder :: "env \<Rightarrow> uuid \<Rightarrow> string \<Rightarrow> string \<Rightarrow> split_plan \<Rightarrow> WorkItem" where
  "placeholder e j key rank p =
     (let story = pl_story p; input = pl_input p in
      \<lparr>wi_id = j, wi_workspace = e_ws e, wi_project = wi_project story, wi_team = wi_team story, wi_type = Story, wi_parent = None,
       wi_schedule = S_accepted, wi_iteration = wi_iteration story, wi_deleted = False,
       w_key = key, w_title = si_unfinishedTitle input, w_status = w_status story, w_flow = S_accepted, w_priority = w_priority story,
       w_assignee = w_assignee story, w_reporter = w_reporter story, w_devOwner = w_devOwner story, w_release = None,
       w_feature = None, w_foundIn = None, w_points = si_unfinishedPoints input, w_estimate = None, w_todo = None, w_actual = None,
       w_blocked = False, w_blockedReason = None, w_defectState = None, w_rank = rank, w_accepted = Some (e_now e),
       w_start = None, w_end = None, w_target = None, w_split = None, w_version = 0\<rparr>)"

definition continued_changes :: "split_plan \<Rightarrow> item_input" where
  "continued_changes p =
     (let input = pl_input p in
      no_input\<lparr>u_title := Some (si_continuedTitle input), u_iteration := Some (Some (si_target input)),
        u_release := Some (si_continuedRelease input), u_schedule := Some (si_continuedState input),
        u_flow := Some (si_continuedState input), u_points := Some (si_continuedPoints input)\<rparr>)"

text \<open>The same change to each of the rows, one after another; the first failure is the answer.\<close>

fun update_each :: "env \<Rightarrow> item_input \<Rightarrow> uuid list \<Rightarrow> work_db \<Rightarrow> api_error + work_db" where
  "update_each e u [] db = Inr db"
| "update_each e u (i # is) db = bind_sum (update_row e i u None db) (\<lambda>(_, db'). update_each e u is db')"

definition reparentToWorkItem :: "uuid list \<Rightarrow> uuid \<Rightarrow> uuid \<Rightarrow> work_db \<Rightarrow> work_db" where
  "reparentToWorkItem ids i ws db =
     db\<lparr>tests := update_where (\<lambda>t. tc_id t \<in> set ids \<and> tc_workspace t = ws \<and> \<not> tc_deleted t) (\<lambda>t. t\<lparr>tc_item := i\<rparr>) (tests db)\<rparr>"

definition side_of :: "uuid list \<Rightarrow> uuid \<Rightarrow> SplitSide" where
  "side_of unfinished i = (if i \<in> set unfinished then Unfinished else Continued)"

definition split_items_of :: "split_plan \<Rightarrow> split_item list" where
  "split_items_of p =
     map (\<lambda>t. \<lparr>sx_kind = K_task, sx_id = tk_id t, sx_side = side_of (pl_taskIds p) (tk_id t), sx_estimate = tk_estimate t,
                sx_todo = tk_todo t, sx_actual = tk_actual t, sx_explicit = None\<rparr>) (pl_tasks p) @
     map (\<lambda>d. \<lparr>sx_kind = K_defect, sx_id = wi_id d, sx_side = side_of (pl_defectIds p) (wi_id d), sx_estimate = None,
                sx_todo = None, sx_actual = None, sx_explicit = wi_iteration d\<rparr>) (pl_defects p) @
     map (\<lambda>t. \<lparr>sx_kind = K_test_case, sx_id = tc_id t, sx_side = side_of (pl_testIds p) (tc_id t), sx_estimate = None,
                sx_todo = None, sx_actual = None, sx_explicit = None\<rparr>) (pl_tests p)"

definition split_row_of :: "env \<Rightarrow> uuid \<Rightarrow> uuid \<Rightarrow> split_plan \<Rightarrow> split_row" where
  "split_row_of e splitId j p =
     (let story = pl_story p; input = pl_input p in
      \<lparr>sp_id = splitId, sp_project = wi_project story, sp_team = wi_team story, sp_continued = wi_id story, sp_unfinished = j,
       sp_source = it_id (pl_source p), sp_target = it_id (pl_target p), sp_at = e_now e,
       sp_sourceDate = clampMarkerDate (e_today e) (it_start (pl_source p)) (it_end (pl_source p)),
       sp_targetDate = clampMarkerDate (e_today e) (it_start (pl_target p)) (it_end (pl_target p)),
       sp_originalPoints = w_points story, sp_unfinishedPoints = si_unfinishedPoints input,
       sp_continuedPoints = si_continuedPoints input,
       sp_movedTodo = sumHours (map tk_todo (filter (\<lambda>t. tk_id t \<notin> set (pl_taskIds p)) (pl_tasks p))),
       sp_actual = sumHours (map tk_actual (pl_tasks p))\<rparr>)"

definition split_log :: "split_plan \<Rightarrow> uuid \<Rightarrow> work_db \<Rightarrow> work_db" where
  "split_log p j db =
     (let story = pl_story p;
          moved = (\<lambda>what ids d. fold (\<lambda>i d. log_entry i what (Some ''parentId'') d) ids d)
      in moved ''test_case.work_product_changed'' (filter (\<lambda>i. i \<in> set (pl_testIds p)) (map tc_id (pl_tests p)))
         (moved ''work_item.parent_changed'' (filter (\<lambda>i. i \<in> set (pl_defectIds p)) (map wi_id (pl_defects p)))
         (moved ''task.parent_changed'' (filter (\<lambda>i. i \<in> set (pl_taskIds p)) (map tk_id (pl_tasks p)))
         (log_fields (wi_id story) False (diffWorkItem story (continued_changes p) False)
         (log_entry (wi_id story) ''work_item.split_in'' None (log_entry j ''work_item.split_out'' None db))))))"

definition split_in_tx :: "env \<Rightarrow> uuid \<Rightarrow> uuid \<Rightarrow> string \<Rightarrow> split_plan \<Rightarrow> work_db \<Rightarrow> api_error + split_result" where
  "split_in_tx e j splitId key p db =
     (let i = wi_id (pl_story p) in
      if (case find (live_item i (e_ws e)) (work_items db) of
            None \<Rightarrow> True | Some locked \<Rightarrow> wi_iteration locked \<noteq> Some (si_expectedSource (pl_input p)))
      then Inl (PreconditionFailed ''SPLIT_SOURCE_ITERATION_CHANGED'')
      else
      bind_sum (rank_error_to_api (between (findMaxRank db (wi_project (pl_story p)) None (e_ws e)) None)) (\<lambda>rank.
      if key_taken db (e_ws e) Story key then Inl (Uncaught ''23505'')
      else case create_row e (placeholder e j key rank p) db of (unfinished, db1) \<Rightarrow>
      bind_sum (update_row e i (continued_changes p) None db1) (\<lambda>(continued, db2).
      bind_sum (update_each e (no_input\<lparr>u_parent := Some (Some j)\<rparr>) (pl_taskIds p) db2) (\<lambda>db3.
      bind_sum (update_each e (no_input\<lparr>u_parent := Some (Some j)\<rparr>) (pl_defectIds p) db3) (\<lambda>db4.
      let db5 = reparentToWorkItem (pl_testIds p) j (e_ws e) db4;
          db6 = write_item e j (\<lambda>w. w\<lparr>w_split := Some splitId\<rparr>) db5;
          db7 = reconcileParentScheduleState e i (split_log p j db6)
      in Inr \<lparr>sr_split = split_row_of e splitId j p, sr_items = split_items_of p, sr_unfinished = unfinished,
              sr_continued = (case findById db7 i (e_ws e) of Some w \<Rightarrow> w | None \<Rightarrow> continued), sr_db = db7\<rparr>)))))"

fun split_tries :: "env \<Rightarrow> uuid \<Rightarrow> uuid \<Rightarrow> split_plan \<Rightarrow> nat \<Rightarrow> nat \<Rightarrow> work_db \<Rightarrow> api_error + split_result" where
  "split_tries e j splitId p attempt 0 db = Inl (Uncaught ''undefined'')"
| "split_tries e j splitId p attempt (Suc fuel) db =
     bind_sum (generateItemKey e (wi_project (pl_story p)) Story db) (\<lambda>(key, db1).
     case split_in_tx e j splitId key p db1 of
       Inr r \<Rightarrow> Inr r
     | Inl err \<Rightarrow> if err = Uncaught ''23505'' \<and> attempt < MAX_KEY_RETRIES - 1
                  then split_tries e j splitId p (attempt + 1) fuel db1 else Inl err)"

definition splitWorkItem ::
  "env \<Rightarrow> uuid \<Rightarrow> uuid \<Rightarrow> (work_db \<Rightarrow> work_db) \<Rightarrow> uuid \<Rightarrow> split_input \<Rightarrow> work_db \<Rightarrow> api_error + split_result" where
  "splitWorkItem e j splitId others i input db =
     bind_sum (split_checks e i input db) (\<lambda>p. split_tries e j splitId p 0 MAX_KEY_RETRIES (others db))"

section \<open>Carryover\<close>

record carry_input =
  ci_expectedSource :: uuid
  ci_target :: uuid
  ci_targetEndDate :: iso_date

record carry_snapshot =
  cs_task :: uuid
  cs_state :: TaskState
  cs_estimate :: "num option"
  cs_todo :: "num option"
  cs_actual :: "num option"

record carry_result =
  cr_source :: uuid
  cr_target :: uuid
  cr_project :: uuid
  cr_team :: "uuid option"
  cr_snapshots :: "carry_snapshot list"
  cr_item :: WorkItem
  cr_db :: work_db

definition lockIteration :: "work_db \<Rightarrow> uuid \<Rightarrow> uuid \<Rightarrow> iteration_row option" where
  "lockIteration db i ws = find (\<lambda>r. it_id r = i \<and> it_workspace r = ws) (iterations (base db))"

definition listTaskSnapshots :: "work_db \<Rightarrow> uuid \<Rightarrow> uuid \<Rightarrow> carry_snapshot list" where
  "listTaskSnapshots db parentId ws =
     map (\<lambda>t. \<lparr>cs_task = tk_id t, cs_state = tk_state t, cs_estimate = tk_estimate t, cs_todo = tk_todo t, cs_actual = tk_actual t\<rparr>)
       (js_sort (by_rank_id (\<lambda>_. []) tk_id) (tasks_of db parentId ws))"

definition carry_in_tx ::
  "env \<Rightarrow> uuid \<Rightarrow> WorkItem \<Rightarrow> iteration_row \<Rightarrow> iteration_row \<Rightarrow> carry_input \<Rightarrow> work_db \<Rightarrow> api_error + carry_result" where
  "carry_in_tx e i story current target input db =
     (case find (live_item i (e_ws e)) (work_items db) of
        None \<Rightarrow> Inl (PreconditionFailed ''CARRYOVER_SOURCE_ITERATION_CHANGED'')
      | Some locked \<Rightarrow>
          if wi_iteration locked \<noteq> Some (ci_expectedSource input) then Inl (PreconditionFailed ''CARRYOVER_SOURCE_ITERATION_CHANGED'')
          else
          (case (lockIteration db (it_id current) (e_ws e), lockIteration db (it_id target) (e_ws e)) of
             (Some lockedSource, Some lockedTarget) \<Rightarrow>
               if \<not> isEligibleIteration (wi_project locked) (wi_team locked) lockedTarget lockedSource \<or>
                  \<not> containsDate lockedTarget (ci_targetEndDate input) \<or>
                  (case it_end lockedSource of None \<Rightarrow> True | Some d \<Rightarrow> ci_targetEndDate input \<le> d)
               then Inl (PreconditionFailed ''CARRYOVER_TARGET_INVALID'')
               else
                 bind_sum (update_row e i (no_input\<lparr>u_iteration := Some (Some (it_id target)),
                                                    u_target := Some (Some (ci_targetEndDate input))\<rparr>) None db) (\<lambda>(w, db1).
                 Inr \<lparr>cr_source = it_id current, cr_target = it_id target, cr_project = wi_project locked, cr_team = wi_team locked,
                      cr_snapshots = listTaskSnapshots db i (e_ws e), cr_item = w,
                      cr_db = log_entry i ''work_item.carried_over'' (Some ''iterationId'') db1\<rparr>)
           | _ \<Rightarrow> Inl (PreconditionFailed ''CARRYOVER_TARGET_INVALID'')))"

definition carryOverWorkItem ::
  "env \<Rightarrow> (work_db \<Rightarrow> work_db) \<Rightarrow> uuid \<Rightarrow> carry_input \<Rightarrow> work_db \<Rightarrow> api_error + carry_result" where
  "carryOverWorkItem e others i input db =
     bind_sum (getWorkItem db (e_ws e) i) (\<lambda>story.
     bind_sum (assertTeamScope e db story) (\<lambda>_.
     bind_sum (assertProjectWritable (view db) (e_ws e) (wi_project story)) (\<lambda>_.
     if wi_type story \<noteq> Story \<or> wi_iteration story = None then Inl (PreconditionFailed ''CARRYOVER_NOT_ELIGIBLE'')
     else if wi_iteration story \<noteq> Some (ci_expectedSource input) then Inl (PreconditionFailed ''CARRYOVER_SOURCE_ITERATION_CHANGED'')
     else
     case carryoverContext db story of (current, eligible) \<Rightarrow>
       (case current of
          None \<Rightarrow> Inl (PreconditionFailed ''CARRYOVER_NOT_ELIGIBLE'')
        | Some c \<Rightarrow>
            (case (if isEnabledDate (ci_targetEndDate input) (w_start story) c eligible
                   then find (\<lambda>r. it_id r = ci_target input) (resolveTargets (ci_targetEndDate input) c eligible) else None) of
               None \<Rightarrow> Inl (PreconditionFailed ''CARRYOVER_TARGET_INVALID'')
             | Some target \<Rightarrow> carry_in_tx e i story c target input (others db))))))"

end
