(* ===== verification/StoryMoveLaws.thy ===== *)
theory StoryMoveLaws
  imports StoryMoves
begin

text \<open>
  What the two story moves of \<^verbatim>\<open>work-items.service.ts\<close> guarantee: a split hands every task, defect and
  test case to exactly one of the two stories and changes nothing else, a carryover lands the
  story, with its tasks, in a sprint that is open for it.
\<close>

section \<open>What moving the children changes\<close>

text \<open>What a move never changes: everything of a task but its parent, sprint and version; everything of an
  item but its parent, its states, the dates the triggers keep, its mark as a split and its version.\<close>

definition task_core :: "task_row \<Rightarrow> (uuid \<times> uuid \<times> uuid \<times> string \<times> string \<times> TaskState) \<times> (num option \<times> num option \<times> num option \<times> bool) \<times>
    (uuid option \<times> uuid option \<times> uuid option \<times> string \<times> iso_date option \<times> iso_date option)" where
  "task_core t = ((tk_id t, tk_workspace t, tk_project t, tk_key t, tk_title t, tk_state t),
     (tk_estimate t, tk_todo t, tk_actual t, tk_deleted t),
     (tk_assignee t, tk_devOwner t, tk_team t, tk_rank t, tk_start t, tk_end t))"

definition item_owner :: "WorkItem \<Rightarrow> (uuid \<times> string \<times> uuid option \<times> uuid option \<times> uuid option) \<times> (uuid option \<times> uuid option) \<times>
    (num option \<times> num option \<times> num option) \<times> (bool \<times> string option \<times> DefectState option \<times> string)" where
  "item_owner w = ((w_status w, w_priority w, w_assignee w, w_reporter w, w_devOwner w), (w_feature w, w_foundIn w),
     (w_estimate w, w_todo w, w_actual w), (w_blocked w, w_blockedReason w, w_defectState w, w_rank w))"

definition item_core :: "WorkItem \<Rightarrow> (uuid \<times> uuid \<times> uuid \<times> WorkItemType \<times> bool) \<times> (uuid option \<times> uuid option \<times> string \<times> string \<times> num option \<times> uuid option) \<times>
    ((uuid \<times> string \<times> uuid option \<times> uuid option \<times> uuid option) \<times> (uuid option \<times> uuid option) \<times>
    (num option \<times> num option \<times> num option) \<times> (bool \<times> string option \<times> DefectState option \<times> string))" where
  "item_core w = ((wi_id w, wi_workspace w, wi_project w, wi_type w, wi_deleted w),
     (wi_team w, wi_iteration w, w_key w, w_title w, w_points w, w_release w), item_owner w)"

text \<open>From \<open>a\<close> to \<open>b\<close> the tasks and items of \<open>S\<close> got the parent \<open>j\<close>; but for the states of the item \<open>i\<close> and
  the mark on \<open>j\<close> no other content changed, and the rows outside \<open>S\<close>, \<open>i\<close> and \<open>j\<close> are untouched.\<close>

definition item_moved :: "uuid \<Rightarrow> uuid set \<Rightarrow> uuid \<Rightarrow> WorkItem \<Rightarrow> WorkItem \<Rightarrow> bool" where
  "item_moved i S j w v \<longleftrightarrow>
     item_core v = item_core w \<and> wi_parent v = (if wi_id w \<in> S then Some j else wi_parent w) \<and>
     (wi_id w \<noteq> i \<longrightarrow> wi_schedule v = wi_schedule w \<and> w_flow v = w_flow w) \<and>
     (wi_id w \<noteq> j \<longrightarrow> w_split v = w_split w) \<and> (wi_id w \<notin> S \<and> wi_id w \<noteq> i \<and> wi_id w \<noteq> j \<longrightarrow> v = w)"

definition task_moved_to :: "uuid set \<Rightarrow> uuid \<Rightarrow> task_row \<Rightarrow> task_row \<Rightarrow> bool" where
  "task_moved_to S j t u \<longleftrightarrow>
     task_core u = task_core t \<and> tk_parent u = (if tk_id t \<in> S then j else tk_parent t) \<and> (tk_id t \<notin> S \<longrightarrow> u = t)"

definition moved_to :: "uuid \<Rightarrow> uuid set \<Rightarrow> uuid \<Rightarrow> work_db \<Rightarrow> work_db \<Rightarrow> bool" where
  "moved_to i S j a b \<longleftrightarrow>
     (\<exists>h. tasks b = map h (tasks a) \<and> (\<forall>t \<in> set (tasks a). task_moved_to S j t (h t))) \<and>
     (\<exists>h. work_items b = map h (work_items a) \<and> (\<forall>w \<in> set (work_items a). item_moved i S j w (h w))) \<and>
     iterations (base b) = iterations (base a)"

lemma moved_to_same: "tasks b = tasks a \<Longrightarrow> work_items b = work_items a \<Longrightarrow> iterations (base b) = iterations (base a) \<Longrightarrow> moved_to i {} j a b"
  unfolding moved_to_def item_moved_def task_moved_to_def by (intro conjI exI [of _ "\<lambda>x. x"]) auto

lemma task_core_id: "task_core s = task_core t \<Longrightarrow> tk_id s = tk_id t"
  and item_core_id: "item_core v = item_core w \<Longrightarrow> wi_id v = wi_id w"
  by (simp_all add: task_core_def item_core_def)

lemma item_moved_trans: "item_moved i S j w v \<Longrightarrow> item_moved i T j v u \<Longrightarrow> item_moved i (S \<union> T) j w u"
  using item_core_id [of v w] by (auto simp: item_moved_def)

lemma task_moved_trans: "task_moved_to S j t s \<Longrightarrow> task_moved_to T j s u \<Longrightarrow> task_moved_to (S \<union> T) j t u"
  using task_core_id [of s t] by (auto simp: task_moved_to_def)

lemma moved_to_trans: "moved_to i S j a b \<Longrightarrow> moved_to i T j b c \<Longrightarrow> moved_to i (S \<union> T) j a c"
proof -
  assume ab: "moved_to i S j a b" and bc: "moved_to i T j b c"
  from ab obtain f g where f: "tasks b = map f (tasks a)" "\<forall>t \<in> set (tasks a). task_moved_to S j t (f t)"
    and g: "work_items b = map g (work_items a)" "\<forall>w \<in> set (work_items a). item_moved i S j w (g w)"
    and ib: "iterations (base b) = iterations (base a)"
    unfolding moved_to_def by blast
  from bc obtain f' g' where f': "tasks c = map f' (tasks b)" "\<forall>t \<in> set (tasks b). task_moved_to T j t (f' t)"
    and g': "work_items c = map g' (work_items b)" "\<forall>w \<in> set (work_items b). item_moved i T j w (g' w)"
    and ic: "iterations (base c) = iterations (base b)"
    unfolding moved_to_def by blast
  have "task_moved_to (S \<union> T) j t (f' (f t))" if "t \<in> set (tasks a)" for t
    using f f' that by (auto intro: task_moved_trans)
  moreover have "item_moved i (S \<union> T) j w (g' (g w))" if "w \<in> set (work_items a)" for w
    using g g' that by (auto intro: item_moved_trans)
  ultimately show ?thesis unfolding moved_to_def
    by (intro conjI exI [of _ "\<lambda>t. f' (f t)"] exI [of _ "\<lambda>w. g' (g w)"]) (auto simp: f(1) f'(1) g(1) g'(1) ib ic)
qed

lemma stamp_cores [simp]:
  "task_core (iteration_from_parent rows t) = task_core t" "item_core (stamp_item e old' w) = item_core w"
  "w_split (stamp_item e old' w) = w_split w" "w_flow (stamp_item e old' w) = w_flow w"
  by (simp_all add: task_core_def item_core_def item_owner_def iteration_from_parent_def stamp_item_def Let_def)

lemma stamp_task_core:
  "tk_state r = tk_state q \<Longrightarrow> tk_start r = tk_start q \<Longrightarrow> tk_end r = tk_end q \<Longrightarrow> task_core (stamp_task e (Some q) r) = task_core r"
  by (simp add: task_core_def stamp_task_def Let_def)

lemma stamp_task_same: "task_core r = task_core q \<Longrightarrow> task_core (stamp_task e (Some q) r) = task_core q"
  using stamp_task_core [of r q e] by (simp add: task_core_def)

lemma core_upd [simp]: "task_core (t\<lparr>tk_iteration := x\<rparr>) = task_core t"
  by (simp add: task_core_def)

lemma write_item_sel [simp]: "base (write_item e i f db) = base db" "tests (write_item e i f db) = tests db"
  by (simp_all add: write_item_def Let_def)

lemma write_task_sel [simp]: "base (write_task e i m f db) = base db" "tests (write_task e i m f db) = tests db"
    "work_items (write_task e i m f db) = work_items db"
  by (simp_all add: write_task_def Let_def)

lemma cascade_tasks:
  "\<exists>h. tasks (write_item e k f db) = map h (tasks db) \<and>
     (\<forall>t. task_core (h t) = task_core t \<and> tk_parent (h t) = tk_parent t \<and> (tk_parent t \<noteq> k \<longrightarrow> h t = t) \<and>
       ((\<forall>w \<in> set (work_items db). wi_id w = k \<longrightarrow> wi_iteration (f w) = wi_iteration w) \<longrightarrow> h t = t))"
proof -
  define hit where "hit = (\<lambda>w :: WorkItem. wi_id w = k \<and> wi_workspace w = e_ws e)"
  define h where "h = (\<lambda>t. case find hit (work_items db) of None \<Rightarrow> t
        | Some w \<Rightarrow> if wi_iteration (f w) \<noteq> wi_iteration w \<and> tk_parent t = k \<and> \<not> tk_deleted t \<and> tk_iteration t \<noteq> wi_iteration (f w)
                    then stamp_task e (Some t) (t\<lparr>tk_iteration := wi_iteration (f w)\<rparr>) else t)"
  have "tasks (write_item e k f db) = map h (tasks db)"
    by (simp add: h_def write_item_def Let_def hit_def cascade_iteration_def update_where_def split: option.splits)
  moreover have "task_core (h t) = task_core t \<and> tk_parent (h t) = tk_parent t \<and> (tk_parent t \<noteq> k \<longrightarrow> h t = t)" for t
    by (simp add: h_def stamp_task_same split: option.splits)
  moreover have "h t = t" if "\<forall>w \<in> set (work_items db). wi_id w = k \<longrightarrow> wi_iteration (f w) = wi_iteration w" for t
    using that by (auto simp: h_def hit_def dest!: find_Some_in split: option.splits)
  ultimately show ?thesis by blast
qed

lemma moved_write_item:
  assumes f: "\<And>w. w \<in> set (work_items db) \<Longrightarrow> wi_id w = k \<Longrightarrow> item_core (f w) = item_core w \<and>
      wi_parent (f w) = (if k \<in> S then Some j else wi_parent w) \<and>
      (k \<noteq> i \<longrightarrow> wi_schedule (f w) = wi_schedule w \<and> w_flow (f w) = w_flow w) \<and> (k \<noteq> j \<longrightarrow> w_split (f w) = w_split w)"
    and hit: "\<And>w. w \<in> set (work_items db) \<Longrightarrow> wi_id w \<in> S \<Longrightarrow> wi_id w = k \<and> wi_workspace w = e_ws e"
    and no: "\<And>t. t \<in> set (tasks db) \<Longrightarrow> tk_id t \<notin> S" and k: "k \<in> S \<union> {i, j}"
  shows "moved_to i S j db (write_item e k f db)"
proof -
  define h where "h = (\<lambda>w. if wi_id w = k \<and> wi_workspace w = e_ws e then stamp_item e (Some w) (f w) else w)"
  have "work_items (write_item e k f db) = map h (work_items db)"
    by (simp add: write_item_def Let_def update_where_def h_def)
  moreover have "item_moved i S j w (h w)" if "w \<in> set (work_items db)" for w
    using f [OF that] hit [OF that] k by (auto simp: h_def item_moved_def)
  moreover have "wi_iteration (f w) = wi_iteration w" if "w \<in> set (work_items db)" "wi_id w = k" for w
    using f [OF that] by (simp add: item_core_def)
  moreover obtain h' where "tasks (write_item e k f db) = map h' (tasks db)"
    "\<forall>t. (\<forall>w \<in> set (work_items db). wi_id w = k \<longrightarrow> wi_iteration (f w) = wi_iteration w) \<longrightarrow> h' t = t"
    using cascade_tasks [of e k f db] by blast
  ultimately have "tasks (write_item e k f db) = tasks db" "work_items (write_item e k f db) = map h (work_items db)"
    "\<forall>w \<in> set (work_items db). item_moved i S j w (h w)" by (simp_all add: map_idI)
  then show ?thesis using no unfolding moved_to_def task_moved_to_def
    by (intro conjI exI [of _ h] exI [of _ "\<lambda>t. t"]) auto
qed

lemma moved_write_task:
  assumes "\<And>t. t \<in> set (tasks db) \<Longrightarrow> tk_id t = k \<Longrightarrow> tk_workspace t = e_ws e \<and> task_core (f t) = task_core t \<and> tk_parent (f t) = j"
    and "\<And>w. w \<in> set (work_items db) \<Longrightarrow> wi_id w \<noteq> k"
  shows "moved_to i {k} j db (write_task e k m f db)"
proof -
  define h where "h = (\<lambda>t. if tk_id t = k \<and> tk_workspace t = e_ws e
    then (if m then iteration_from_parent (work_items db) (stamp_task e (Some t) (f t)) else stamp_task e (Some t) (f t)) else t)"
  have "tasks (write_task e k m f db) = map h (tasks db)"
    by (simp add: write_task_def update_where_def h_def Let_def)
  moreover have "task_moved_to {k} j t (h t)" if "t \<in> set (tasks db)" for t
    using assms(1) [OF that] by (auto simp: h_def task_moved_to_def stamp_task_same)
  moreover have "item_moved i {k} j w w" if "w \<in> set (work_items db)" for w
    using assms(2) [OF that] by (simp add: item_moved_def)
  ultimately show ?thesis unfolding moved_to_def
    by (intro conjI exI [of _ h] exI [of _ "\<lambda>w. w"]) auto
qed

lemma moved_parent_update:
  assumes "update_row e k (no_input\<lparr>u_parent := Some (Some j)\<rparr>) None db = Inr (w, db')" and inv: "work_inv db" and "k \<noteq> i"
  shows "moved_to i {k} j db db'"
  using assms(1)
proof (rule update_row_cases)
  assume db': "db' = write_task e k (task_moved (no_input\<lparr>u_parent := Some (Some j)\<rparr>)) (set_task (no_input\<lparr>u_parent := Some (Some j)\<rparr>)) db"
    and "\<exists>t. find (live_task k (e_ws e)) (tasks db) = Some t"
  then obtain t where t: "t \<in> set (tasks db)" "tk_id t = k" "tk_workspace t = e_ws e" by (auto dest: find_live_task)
  have ws: "tk_workspace s = e_ws e" if "s \<in> set (tasks db)" "tk_id s = k" for s
    using same_task [OF inv that(1) t(1)] that(2) t(2,3) by simp
  have "wi_id w \<noteq> k" if "w \<in> set (work_items db)" for w using item_not_task [OF inv that t(1)] t(2) by simp
  with ws show ?thesis unfolding db'
    by (intro moved_write_task) (simp_all add: task_core_def set_task_def no_input_def mirroredState_def)
next
  assume db': "db' = write_item e k (set_item (no_input\<lparr>u_parent := Some (Some j)\<rparr>)) db"
    and none: "find (live_task k (e_ws e)) (tasks db) = None"
  from assms(1) none obtain r where "find (\<lambda>w. wi_id w = k \<and> wi_workspace w = e_ws e) (work_items db) = Some r"
    by (auto simp: update_row_def split: option.splits)
  then have r: "r \<in> set (work_items db)" "wi_id r = k" "wi_workspace r = e_ws e" by (auto dest: find_Some_in)
  have ws: "wi_workspace w = e_ws e" if "w \<in> set (work_items db)" "wi_id w = k" for w
    using same_item [OF inv that(1) r(1)] that(2) r(2,3) by simp
  have "tk_id t \<noteq> k" if "t \<in> set (tasks db)" for t using item_not_task [OF inv r(1) that] r(2) by simp
  with ws show ?thesis unfolding db'
    by (intro moved_write_item) (simp_all add: item_core_def item_owner_def set_item_def no_input_def mirroredState_def)
qed

text \<open>The children that may be put under \<open>j\<close>.\<close>

definition child_fits :: "work_db \<Rightarrow> uuid \<Rightarrow> uuid \<Rightarrow> bool" where
  "child_fits db j k \<longleftrightarrow> (\<exists>ws pr. (j, ws, pr, Story) \<in> ident ` set (work_items db) \<and>
     (\<forall>t \<in> set (tasks db). tk_id t = k \<longrightarrow> tk_workspace t = ws \<and> tk_project t = pr) \<and>
     (\<forall>w \<in> set (work_items db). wi_id w = k \<longrightarrow> wi_type w = Defect \<and> wi_workspace w = ws \<and> wi_project w = pr))"

lemma child_fits_parent:
  assumes "child_fits db j k"
  shows "parent_fits db e k (no_input\<lparr>u_parent := Some (Some j)\<rparr>)"
proof -
  from assms obtain ws pr where j: "(j, ws, pr, Story) \<in> ident ` set (work_items db)"
    and t: "\<forall>t \<in> set (tasks db). tk_id t = k \<longrightarrow> tk_workspace t = ws \<and> tk_project t = pr"
    and w: "\<forall>w \<in> set (work_items db). wi_id w = k \<longrightarrow> wi_type w = Defect \<and> wi_workspace w = ws \<and> wi_project w = pr"
    unfolding child_fits_def by blast
  from j obtain q where "q \<in> set (work_items db)" "ident q = (j, ws, pr, Story)" by force
  then have "\<exists>q \<in> set (work_items db). ident q = (j, ws, pr, wi_type q)" by (intro bexI [of _ q]) (simp_all add: ident_def)
  then show ?thesis using j t w by (simp add: parent_fits_def)
qed

lemma item_core_ident: "item_core v = item_core w \<Longrightarrow> ident v = ident w"
  by (simp add: item_core_def ident_def)

lemma child_fits_map:
  assumes "child_fits db j k"
    and h: "tasks db' = map h (tasks db)" "\<forall>t \<in> set (tasks db). task_core (h t) = task_core t"
    and g: "work_items db' = map g (work_items db)" "\<forall>w \<in> set (work_items db). ident (g w) = ident w"
  shows "child_fits db' j k"
proof -
  have tt: "tk_id (h t) = tk_id t \<and> tk_workspace (h t) = tk_workspace t \<and> tk_project (h t) = tk_project t" if "t \<in> set (tasks db)" for t
    using h(2) that by (auto simp: task_core_def)
  have wi: "wi_id (g w) = wi_id w \<and> wi_type (g w) = wi_type w \<and> wi_workspace (g w) = wi_workspace w \<and> wi_project (g w) = wi_project w"
    if "w \<in> set (work_items db)" for w using g(2) that by (auto simp: ident_def)
  have img: "ident ` set (work_items db') = ident ` set (work_items db)"
    using g(2) by (auto simp: g(1) image_iff)
  from assms(1) show ?thesis unfolding child_fits_def img by (auto simp: h(1) g(1) tt wi)
qed

lemma child_fits_moved:
  assumes "child_fits db j k" "moved_to i S j' db db'"
  shows "child_fits db' j k"
proof -
  from assms(2) obtain h g where h: "tasks db' = map h (tasks db)" "\<forall>t \<in> set (tasks db). task_core (h t) = task_core t"
    and g: "work_items db' = map g (work_items db)" "\<forall>w \<in> set (work_items db). item_core (g w) = item_core w"
    unfolding moved_to_def item_moved_def task_moved_to_def by blast
  from g(2) have "\<forall>w \<in> set (work_items db). ident (g w) = ident w" using item_core_ident by blast
  from child_fits_map [OF assms(1) h g(1) this] show ?thesis .
qed

lemma update_each_moves:
  assumes "update_each e (no_input\<lparr>u_parent := Some (Some j)\<rparr>) ks db = Inr db'" "work_inv db" "i \<notin> set ks"
    and "\<forall>k \<in> set ks. child_fits db j k"
  shows "work_inv db' \<and> moved_to i (set ks) j db db'"
  using assms
proof (induction ks arbitrary: db)
  case Nil
  then show ?case using moved_to_same [of db' db i j] by simp
next
  case (Cons k ks)
  from Cons.prems(1) obtain w db1 where r: "update_row e k (no_input\<lparr>u_parent := Some (Some j)\<rparr>) None db = Inr (w, db1)"
    and rest: "update_each e (no_input\<lparr>u_parent := Some (Some j)\<rparr>) ks db1 = Inr db'"
    by (auto simp: bind_sum_Inr)
  have inv: "work_inv db1" using inv_update_row [OF r Cons.prems(2)] Cons.prems(4) child_fits_parent by simp
  have "k \<noteq> i" using Cons.prems(3) by auto
  have m: "moved_to i {k} j db db1" by (rule moved_parent_update [OF r Cons.prems(2) \<open>k \<noteq> i\<close>])
  have "\<forall>k \<in> set ks. child_fits db1 j k" using child_fits_moved [OF _ m] Cons.prems(4) by simp
  from Cons.IH [OF rest inv _ this] Cons.prems(3) moved_to_trans [OF m] show ?case by simp
qed

lemma moved_reconcile:
  assumes inv: "work_inv db" and item: "\<exists>w \<in> set (work_items db). wi_id w = i"
  shows "moved_to i {} j db (reconcileParentScheduleState e i db)"
proof -
  have upd: "moved_to i {} j db db'" if u: "update_row e i (no_input\<lparr>u_schedule := Some s\<rparr>) None db = Inr (w, db')" for s w db'
    using u
  proof (rule update_row_cases)
    assume "\<exists>t. find (live_task i (e_ws e)) (tasks db) = Some t"
    then obtain t where "t \<in> set (tasks db)" "tk_id t = i" by (auto dest!: find_live_task)
    moreover from item obtain w where "w \<in> set (work_items db)" "wi_id w = i" by blast
    ultimately have False using item_not_task [OF inv, of w t] by simp
    then show ?thesis ..
  next
    assume "db' = write_item e i (set_item (no_input\<lparr>u_schedule := Some s\<rparr>)) db"
    then show ?thesis by (auto intro!: moved_write_item simp: item_core_def item_owner_def set_item_def no_input_def)
  qed
  have log: "moved_to i {} j db (log_entry k a f db')" if "moved_to i {} j db db'" for k a f db'
    using that by (simp add: moved_to_def)
  show ?thesis
    by (auto simp: reconcileParentScheduleState_def Let_def intro: moved_to_same upd log split: prod.splits option.splits sum.splits)
qed


section \<open>The steps of a split\<close>

text \<open>What the checks before the transaction have established.\<close>

lemma assertSubmitted_Inr:
  "assertSubmittedIdsBelong ids live = Inr r \<Longrightarrow> set r = set ids \<and> set ids \<subseteq> set live"
  by (auto simp: assertSubmittedIdsBelong_def split: if_splits)

lemma split_checks_plan:
  assumes "split_checks e i input db = Inr p"
  obtains "findById db i (e_ws e) = Some (pl_story p)" and "pl_input p = input"
    and "wi_type (pl_story p) = Story" and "wi_iteration (pl_story p) = Some (si_expectedSource input)"
    and "it_id (pl_source p) = si_expectedSource input" and "it_id (pl_target p) = si_target input"
    and "pl_target p \<in> set (filterSplitTargets (it_id (pl_source p)) (it_end (pl_source p))
           (listProjectIterations db (wi_project (pl_story p)) (e_ws e)) (wi_project (pl_story p)) (wi_team (pl_story p)))"
    and "set (pl_taskIds p) = set (si_tasks input)" and "set (si_tasks input) \<subseteq> tk_id ` set (tasks_of db i (e_ws e))"
    and "set (pl_defectIds p) = set (si_defects input)"
    and "set (si_defects input) \<subseteq> wi_id ` set (filter (\<lambda>w. wi_project w = wi_project (pl_story p) \<and> wi_workspace w = e_ws e \<and>
           wi_parent w = Some i \<and> wi_type w = Defect) (work_items db))"
    and "set (pl_testIds p) = set (si_tests input)"
    and "\<not> isCompletedScheduleState (wi_schedule (pl_story p))"
proof -
  from assms obtain story its source target where
    st: "getWorkItem db (e_ws e) i = Inr story" and el: "splitIneligibleReason story = None"
    and it: "wi_iteration story = Some (si_expectedSource input)"
    and so: "find (\<lambda>r. Some (it_id r) = wi_iteration story) (listProjectIterations db (wi_project story) (e_ws e)) = Some source"
    and ta: "find (\<lambda>c. it_id c = si_target input) (filterSplitTargets (it_id source) (it_end source)
        (listProjectIterations db (wi_project story) (e_ws e)) (wi_project story) (wi_team story)) = Some target"
    and ids: "assertSubmittedIdsBelong (si_tasks input) (map tk_id (listTasksByParent db i (e_ws e) (teamScopeFor e (wi_project story)))) = Inr (pl_taskIds p)"
      "assertSubmittedIdsBelong (si_defects input) (map wi_id (listChildDefects db (wi_project story) i (e_ws e) (teamScopeFor e (wi_project story)))) = Inr (pl_defectIds p)"
      "assertSubmittedIdsBelong (si_tests input) (map tc_id (listByWorkItem db i (e_ws e))) = Inr (pl_testIds p)"
    and p: "pl_story p = story" "pl_input p = input" "pl_source p = source" "pl_target p = target"
    by (fastforce simp: split_checks_def bind_sum_Inr Let_def split: option.splits)
  show ?thesis
  proof (rule that)
    show "set (si_tasks input) \<subseteq> tk_id ` set (tasks_of db i (e_ws e))"
      using assertSubmitted_Inr [OF ids(1)] by (auto simp: listTasksByParent_def)
    show "set (si_defects input) \<subseteq> wi_id ` set (filter (\<lambda>w. wi_project w = wi_project (pl_story p) \<and> wi_workspace w = e_ws e \<and>
           wi_parent w = Some i \<and> wi_type w = Defect) (work_items db))"
      using assertSubmitted_Inr [OF ids(2)] unfolding listChildDefects_def p
      by (auto dest!: subsetD dest: in_set_takeD)
  qed (use st el it find_Some_in [OF so] find_Some_in [OF ta] assertSubmitted_Inr [OF ids(1)] assertSubmitted_Inr [OF ids(2)]
      assertSubmitted_Inr [OF ids(3)] p getWorkItem_Inr in \<open>auto simp: splitIneligibleReason_def split: if_splits\<close>)
qed

lemma split_tries_tx:
  assumes "split_tries e j sid p k n db = Inr r"
  shows "\<exists>key db1. work_items db1 = work_items db \<and> tasks db1 = tasks db \<and> tests db1 = tests db \<and> base db1 = base db \<and>
    split_in_tx e j sid key p db1 = Inr r"
  using assms
proof (induction n arbitrary: k db)
  case (Suc n)
  from Suc.prems obtain key db1 where g: "generateItemKey e (wi_project (pl_story p)) Story db = Inr (key, db1)"
    and c0: "(case split_in_tx e j sid key p db1 of Inr r \<Rightarrow> Inr r
      | Inl err \<Rightarrow> if err = Uncaught ''23505'' \<and> k < MAX_KEY_RETRIES - 1 then split_tries e j sid p (k + 1) n db1 else Inl err) = Inr r"
    by (auto simp: bind_sum_Inr)
  from c0 have c: "split_in_tx e j sid key p db1 = Inr r \<or> split_tries e j sid p (k + 1) n db1 = Inr r"
    by (cases "split_in_tx e j sid key p db1") (auto split: if_splits)
  have db1: "work_items db1 = work_items db" "tasks db1 = tasks db" "tests db1 = tests db" "base db1 = base db"
    using g by (auto simp: generateItemKey_def bind_sum_Inr Let_def)
  from c show ?case
  proof
    assume "split_in_tx e j sid key p db1 = Inr r"
    with db1 show ?thesis by blast
  next
    assume "split_tries e j sid p (k + 1) n db1 = Inr r"
    from Suc.IH [OF this] db1 show ?thesis by simp
  qed
qed simp

lemma update_row_tests: "update_row e i u x db = Inr (w, db') \<Longrightarrow> tests db' = tests db"
  by (erule update_row_cases) simp_all

lemma update_each_tests: "update_each e u is db = Inr db' \<Longrightarrow> tests db' = tests db"
  by (induction "is" arbitrary: db) (fastforce simp: bind_sum_Inr dest: update_row_tests)+

lemma reconcile_tests [simp]: "tests (reconcileParentScheduleState e i db) = tests db"
  by (auto simp: reconcileParentScheduleState_def Let_def dest: update_row_tests split: prod.splits option.splits sum.splits)

lemma fold_log_sel [simp]:
  "work_items (fold (\<lambda>i. log_entry i a f) is db) = work_items db" "tasks (fold (\<lambda>i. log_entry i a f) is db) = tasks db"
  "tests (fold (\<lambda>i. log_entry i a f) is db) = tests db"
  "iterations (base (fold (\<lambda>i. log_entry i a f) is db)) = iterations (base db)"
  by (induction "is" arbitrary: db) simp_all

lemma log_fields_iterations [simp]: "iterations (base (log_fields i b fs db)) = iterations (base db)"
  unfolding log_fields_def by (induction fs arbitrary: db) simp_all

lemma split_log_sel [simp]:
  "work_items (split_log p j db) = work_items db" "tasks (split_log p j db) = tasks db" "tests (split_log p j db) = tests db"
  "iterations (base (split_log p j db)) = iterations (base db)"
  by (simp_all add: split_log_def Let_def)

text \<open>The rows after the placeholder is written and the story is moved on, before any child is.\<close>

definition split_changes :: "split_input \<Rightarrow> WorkItem \<Rightarrow> WorkItem" where
  "split_changes input w = w\<lparr>wi_iteration := Some (si_target input), w_title := si_continuedTitle input,
     w_points := si_continuedPoints input, w_release := si_continuedRelease input\<rparr>"

lemma split_row_moved:
  assumes u: "update_row e i (continued_changes p) None db = Inr (w, db2)" and inv: "work_inv db"
    and i: "findById db i (e_ws e) = Some s" "wi_type s = Story"
  shows "work_inv db2 \<and> iterations (base db2) = iterations (base db) \<and> tests db2 = tests db \<and>
    (\<exists>h. tasks db2 = map h (tasks db) \<and>
       (\<forall>t. task_core (h t) = task_core t \<and> tk_parent (h t) = tk_parent t \<and> (tk_parent t \<noteq> i \<longrightarrow> h t = t))) \<and>
    (\<exists>g. work_items db2 = map g (work_items db) \<and>
       (\<forall>v \<in> set (work_items db). wi_parent (g v) = wi_parent v \<and> w_split (g v) = w_split v \<and>
          (if wi_id v = i then item_core (g v) = item_core (split_changes (pl_input p) v) else g v = v)))"
proof -
  obtain r where r: "r \<in> set (work_items db)" "live_item i (e_ws e) r"
    using findById_item [OF i(1)] i(2) by auto
  have one: "v = r" if "v \<in> set (work_items db)" "wi_id v = i" for v
    using same_item [OF inv that(1) r(1)] that(2) r(2) by (simp add: live_item_def)
  have "t \<in> set (tasks db) \<Longrightarrow> tk_id t \<noteq> i" for t
    using item_not_task [OF inv r(1), of t] r(2) by (auto simp: live_item_def)
  then have no: "find (live_task i (e_ws e)) (tasks db) = None" by (auto simp: find_None_iff live_task_def)
  from u have db2: "db2 = write_item e i (set_item (continued_changes p)) db"
    by (rule update_row_cases) (use no in auto)
  define g where "g = (\<lambda>v. if wi_id v = i \<and> wi_workspace v = e_ws e then stamp_item e (Some v) (set_item (continued_changes p) v) else v)"
  have ch: "u_parent (continued_changes p) = None" by (simp add: continued_changes_def Let_def)
  have rows: "work_items db2 = map g (work_items db)"
    by (simp add: db2 write_item_def Let_def update_where_def g_def)
  have "wi_parent (g v) = wi_parent v \<and> w_split (g v) = w_split v \<and>
      (if wi_id v = i then item_core (g v) = item_core (split_changes (pl_input p) v) else g v = v)"
    if v: "v \<in> set (work_items db)" for v
  proof (cases "wi_id v = i")
    case True
    then have "wi_workspace v = e_ws e" using one [OF v] r(2) by (simp add: live_item_def)
    with True have g: "g v = stamp_item e (Some v) (set_item (continued_changes p) v)" by (simp add: g_def)
    have "item_core (set_item (continued_changes p) v) = item_core (split_changes (pl_input p) v)"
      by (simp add: item_core_def item_owner_def split_changes_def continued_changes_def Let_def set_item_def no_input_def)
    moreover have "w_split (set_item (continued_changes p) v) = w_split v" by (simp add: set_item_def)
    ultimately show ?thesis using g True ch by simp
  qed (simp add: g_def)
  moreover have "work_inv db2" using inv_update_row [OF u inv] ch by simp
  ultimately show ?thesis using rows cascade_tasks [of e i "set_item (continued_changes p)" db] unfolding db2 by auto
qed

text \<open>The mark on the placeholder, and that nothing takes it away.\<close>

lemma marked_rows:
  assumes own: "\<forall>w \<in> set (work_items db). wi_id w = j \<longrightarrow> wi_workspace w = e_ws e"
  shows "\<forall>w \<in> set (work_items (write_item e j (\<lambda>w. w\<lparr>w_split := Some sid\<rparr>) db)). wi_id w = j \<longrightarrow> w_split w = Some sid"
proof -
  have one: "w_split (if wi_id v = j \<and> wi_workspace v = e_ws e then stamp_item e (Some v) (v\<lparr>w_split := Some sid\<rparr>) else v) = Some sid"
    if "v \<in> set (work_items db)" "wi_id (if wi_id v = j \<and> wi_workspace v = e_ws e then stamp_item e (Some v) (v\<lparr>w_split := Some sid\<rparr>) else v) = j" for v
  proof (cases "wi_id v = j")
    case True
    with own that(1) have "wi_workspace v = e_ws e" by blast
    with True show ?thesis by simp
  qed (use that(2) in simp)
  have rows: "work_items (write_item e j (\<lambda>w. w\<lparr>w_split := Some sid\<rparr>) db) = update_where (\<lambda>w. wi_id w = j \<and> wi_workspace w = e_ws e)
      (\<lambda>w. stamp_item e (Some w) (w\<lparr>w_split := Some sid\<rparr>)) (work_items db)"
    by (simp add: write_item_def Let_def)
  show ?thesis unfolding rows update_where_def set_map
    by (simp only: ball_simps) (intro ballI impI, rule one, assumption+)
qed

lemma moved_keeps_mark:
  assumes m: "moved_to i {} i a b" and "i \<noteq> j" and marked: "\<forall>w \<in> set (work_items a). wi_id w = j \<longrightarrow> w_split w = x"
  shows "\<forall>w \<in> set (work_items b). wi_id w = j \<longrightarrow> w_split w = x"
proof (intro ballI impI)
  fix w assume w: "w \<in> set (work_items b)" "wi_id w = j"
  from m obtain h where h: "work_items b = map h (work_items a)" "\<forall>v \<in> set (work_items a). item_moved i {} i v (h v)"
    unfolding moved_to_def by blast
  with w(1) obtain v where v: "v \<in> set (work_items a)" "w = h v" by auto
  with h(2) have m: "item_moved i {} i v w" by blast
  then have "item_core w = item_core v" by (simp add: item_moved_def)
  from item_core_id [OF this] w(2) have "wi_id v = j" by simp
  with m \<open>i \<noteq> j\<close> have "w = v" by (simp add: item_moved_def)
  with marked v(1) w(2) show "w_split w = x" by blast
qed

text \<open>The children move, the placeholder is marked, the story is reconciled.\<close>

lemma split_children_moved:
  fixes ts :: "uuid list" and sid :: uuid and p :: split_plan
  assumes each: "update_each e (no_input\<lparr>u_parent := Some (Some j)\<rparr>) ks db = Inr db3"
      "update_each e (no_input\<lparr>u_parent := Some (Some j)\<rparr>) ds db3 = Inr db4"
    and inv: "work_inv db" and out: "i \<notin> set ks \<union> set ds"
    and fits: "\<forall>k \<in> set ks \<union> set ds. child_fits db j k"
    and i: "\<exists>w \<in> set (work_items db). wi_id w = i" and nj: "i \<noteq> j"
    and ws: "\<forall>w \<in> set (work_items db). wi_id w = j \<longrightarrow> wi_workspace w = e_ws e"
  defines "db6 \<equiv> write_item e j (\<lambda>w. w\<lparr>w_split := Some sid\<rparr>) (reparentToWorkItem ts j (e_ws e) db4)"
  defines "db7 \<equiv> reconcileParentScheduleState e i (split_log p j db6)"
  shows "work_inv db7 \<and> moved_to i (set ks \<union> set ds) j db db7 \<and> follows db7 i (e_ws e) \<and>
    tests db7 = tests (reparentToWorkItem ts j (e_ws e) db) \<and>
    (\<forall>w \<in> set (work_items db7). wi_id w = j \<longrightarrow> w_split w = Some sid)"
proof -
  have 3: "work_inv db3" "moved_to i (set ks) j db db3" using update_each_moves [OF each(1) inv] out fits by auto
  have "\<forall>k \<in> set ds. child_fits db3 j k" using fits child_fits_moved [OF _ 3(2)] by blast
  then have 4: "work_inv db4" "moved_to i (set ds) j db3 db4" using update_each_moves [OF each(2) 3(1)] out by auto
  define db5 where "db5 = reparentToWorkItem ts j (e_ws e) db4"
  have 5: "work_inv db5" "moved_to i {} j db4 db5" using 4(1) by (auto simp: db5_def reparentToWorkItem_def intro: moved_to_same)
  have ok: "item_ok (work_items db5) w" if "w \<in> set (work_items db5)" for w using 5(1) that by (simp add: rows_inv_def)
  have 6: "work_inv db6" unfolding db6_def db5_def [symmetric]
    by (rule inv_write_item [OF 5(1)]) (use ok in \<open>simp add: item_ok_def ident_def\<close>)
  have m6: "moved_to i {} j db5 db6" unfolding db6_def db5_def [symmetric]
    by (rule moved_write_item) (simp_all add: item_core_def item_owner_def)
  have 7: "work_inv (split_log p j db6)" "moved_to i {} j db6 (split_log p j db6)" using 6 by (auto intro: moved_to_same)
  have m: "moved_to i (set ks \<union> set ds) j db (split_log p j db6)"
    using moved_to_trans [OF moved_to_trans [OF moved_to_trans [OF moved_to_trans [OF 3(2) 4(2)] 5(2)] m6] 7(2)] by simp
  obtain h where "work_items (split_log p j db6) = map h (work_items db)" "\<forall>w \<in> set (work_items db). item_core (h w) = item_core w"
    using m unfolding moved_to_def item_moved_def by blast
  then have has: "\<exists>w \<in> set (work_items (split_log p j db6)). wi_id w = i" using i by (auto dest: item_core_id)
  from moved_to_trans [OF m moved_reconcile [OF 7(1) has]] have "moved_to i (set ks \<union> set ds) j db db7" by (simp add: db7_def)
  moreover have "tests db7 = tests (reparentToWorkItem ts j (e_ws e) db)"
    using update_each_tests [OF each(1)] update_each_tests [OF each(2)] by (simp add: db7_def db6_def reparentToWorkItem_def)
  moreover have "\<forall>w \<in> set (work_items db7). wi_id w = j \<longrightarrow> w_split w = Some sid"
  proof -
    have "moved_to i (set ks \<union> set ds) j db db5" using moved_to_trans [OF moved_to_trans [OF 3(2) 4(2)] 5(2)] by simp
    then obtain g where "work_items db5 = map g (work_items db)" "\<forall>w \<in> set (work_items db). item_core (g w) = item_core w"
      unfolding moved_to_def item_moved_def by blast
    with ws have "\<forall>w \<in> set (work_items db5). wi_id w = j \<longrightarrow> wi_workspace w = e_ws e" by (auto simp: item_core_def)
    from marked_rows [OF this] have "\<forall>w \<in> set (work_items (split_log p j db6)). wi_id w = j \<longrightarrow> w_split w = Some sid"
      by (simp only: split_log_sel db6_def db5_def)
    from moved_keeps_mark [OF moved_reconcile [OF 7(1) has, of i] nj this] show ?thesis by (simp only: db7_def)
  qed
  ultimately show ?thesis using inv_reconcile [OF 7(1)] reconcile_follows [OF 7(1)] by (simp add: db7_def)
qed

lemma split_in_tx_steps:
  assumes "split_in_tx e j sid key p db = Inr r"
  obtains rank u db1 w db2 db3 db4 where
    "create_row e (placeholder e j key rank p) db = (u, db1)"
    "update_row e (wi_id (pl_story p)) (continued_changes p) None db1 = Inr (w, db2)"
    "update_each e (no_input\<lparr>u_parent := Some (Some j)\<rparr>) (pl_taskIds p) db2 = Inr db3"
    "update_each e (no_input\<lparr>u_parent := Some (Some j)\<rparr>) (pl_defectIds p) db3 = Inr db4"
    "sr_db r = reconcileParentScheduleState e (wi_id (pl_story p)) (split_log p j
       (write_item e j (\<lambda>w. w\<lparr>w_split := Some sid\<rparr>) (reparentToWorkItem (pl_testIds p) j (e_ws e) db4)))"
    "sr_items r = split_items_of p" "sr_split r = split_row_of e sid j p"
proof -
  from assms obtain rank u db1 where cr: "create_row e (placeholder e j key rank p) db = (u, db1)"
    and rest: "bind_sum (update_row e (wi_id (pl_story p)) (continued_changes p) None db1) (\<lambda>(continued, db2).
      bind_sum (update_each e (no_input\<lparr>u_parent := Some (Some j)\<rparr>) (pl_taskIds p) db2) (\<lambda>db3.
      bind_sum (update_each e (no_input\<lparr>u_parent := Some (Some j)\<rparr>) (pl_defectIds p) db3) (\<lambda>db4.
      let db5 = reparentToWorkItem (pl_testIds p) j (e_ws e) db4;
          db6 = write_item e j (\<lambda>w. w\<lparr>w_split := Some sid\<rparr>) db5;
          db7 = reconcileParentScheduleState e (wi_id (pl_story p)) (split_log p j db6)
      in Inr \<lparr>sr_split = split_row_of e sid j p, sr_items = split_items_of p, sr_unfinished = u,
              sr_continued = (case findById db7 (wi_id (pl_story p)) (e_ws e) of Some w \<Rightarrow> w | None \<Rightarrow> continued), sr_db = db7\<rparr>))) = Inr r"
    unfolding split_in_tx_def Let_def by (auto simp: bind_sum_Inr [of "rank_error_to_api _"] split: if_splits prod.splits)
  from rest obtain w db2 db3 db4 where steps:
      "update_row e (wi_id (pl_story p)) (continued_changes p) None db1 = Inr (w, db2)"
      "update_each e (no_input\<lparr>u_parent := Some (Some j)\<rparr>) (pl_taskIds p) db2 = Inr db3"
      "update_each e (no_input\<lparr>u_parent := Some (Some j)\<rparr>) (pl_defectIds p) db3 = Inr db4"
    and r: "sr_db r = reconcileParentScheduleState e (wi_id (pl_story p)) (split_log p j
       (write_item e j (\<lambda>w. w\<lparr>w_split := Some sid\<rparr>) (reparentToWorkItem (pl_testIds p) j (e_ws e) db4)))"
    "sr_items r = split_items_of p" "sr_split r = split_row_of e sid j p"
    by (auto simp: bind_sum_Inr Let_def)
  show ?thesis by (rule that [OF cr steps r])
qed

text \<open>The children that were submitted fit under the placeholder.\<close>

lemma split_child_fits:
  assumes inv: "work_inv db" and story: "findById db i (e_ws e) = Some s" "wi_type s = Story"
    and k: "k \<in> tk_id ` set (tasks_of db i (e_ws e)) \<or>
      k \<in> wi_id ` set (filter (\<lambda>w. wi_project w = wi_project s \<and> wi_workspace w = e_ws e \<and> wi_parent w = Some i \<and> wi_type w = Defect) (work_items db))"
    and new: "(j, e_ws e, wi_project s, Story) \<in> ident ` set (work_items db)"
  shows "k \<noteq> i \<and> child_fits db j k"
proof -
  obtain r where r: "r \<in> set (work_items db)" "s = toWorkItem r" "live_item i (e_ws e) r"
    using findById_item [OF story(1)] story(2) by auto
  have i: "wi_id r = i" "wi_type r = Story" using r(2,3) story(2) by (simp_all add: live_item_def)
  from k show ?thesis
  proof
    assume "k \<in> tk_id ` set (tasks_of db i (e_ws e))"
    then obtain t where t: "t \<in> set (tasks db)" "tk_id t = k" "tk_parent t = i" "tk_workspace t = e_ws e" by (auto simp: tasks_of_def)
    then obtain q where "q \<in> set (work_items db)" "wi_id q = i" "wi_project q = tk_project t"
      using inv by (fastforce simp: rows_inv_def task_ok_def)
    then have pr: "tk_project t = wi_project s" using same_item [OF inv _ r(1)] i(1) r(2) by fastforce
    have "u = t" if "u \<in> set (tasks db)" "tk_id u = k" for u using same_task [OF inv that(1) t(1)] that(2) t(2) by simp
    moreover have "wi_id w \<noteq> k" if "w \<in> set (work_items db)" for w using item_not_task [OF inv that t(1)] t(2) by simp
    ultimately show ?thesis using new pr t(4) r(1) i(1) unfolding child_fits_def
      by (intro conjI exI [of _ "e_ws e"] exI [of _ "wi_project s"]) fastforce+
  next
    assume "k \<in> wi_id ` set (filter (\<lambda>w. wi_project w = wi_project s \<and> wi_workspace w = e_ws e \<and> wi_parent w = Some i \<and> wi_type w = Defect) (work_items db))"
    then obtain d where d: "d \<in> set (work_items db)" "wi_id d = k" "wi_project d = wi_project s" "wi_workspace d = e_ws e" "wi_type d = Defect" by auto
    have "u = d" if "u \<in> set (work_items db)" "wi_id u = k" for u using same_item [OF inv that(1) d(1)] that(2) d(2) by simp
    moreover have "tk_id t \<noteq> k" if "t \<in> set (tasks db)" for t using item_not_task [OF inv d(1) that] d(2) by simp
    moreover have "k \<noteq> i" using same_item [OF inv d(1) r(1)] d(2,5) i by auto
    ultimately show ?thesis using new d(3-5) unfolding child_fits_def
      by (intro conjI exI [of _ "e_ws e"] exI [of _ "wi_project s"]) fastforce+
  qed
qed

lemma find_Some_append: "find P xs = Some x \<Longrightarrow> find P (xs @ ys) = Some x"
  by (induction xs) auto

lemma findById_append:
  assumes "findById db i ws = Some s" "wi_type s \<noteq> Task" "work_items db' = work_items db @ xs"
  shows "findById db' i ws = Some s"
proof -
  have "find (live_item i ws) (work_items db) = None \<Longrightarrow> wi_type s = Task" using assms(1) by (auto simp: findById_def)
  then obtain r where "find (live_item i ws) (work_items db) = Some r" using assms(2) by auto
  moreover from find_Some_append [OF this, of xs] have "find (live_item i ws) (work_items db') = Some r" by (simp only: assms(3))
  ultimately show ?thesis using assms(1) by (simp add: findById_def)
qed

text \<open>The effect of a split on the rows of the four tables.\<close>

definition tasks_split :: "split_input \<Rightarrow> uuid \<Rightarrow> uuid \<Rightarrow> task_row list \<Rightarrow> task_row list \<Rightarrow> bool" where
  "tasks_split input i j before after \<longleftrightarrow>
     (\<exists>h. after = map h before \<and> (\<forall>t \<in> set before. task_core (h t) = task_core t \<and>
        tk_parent (h t) = (if tk_id t \<in> set (si_tasks input) then j else tk_parent t) \<and>
        (tk_id t \<notin> set (si_tasks input) \<and> tk_parent t \<noteq> i \<longrightarrow> h t = t)))"

text \<open>The placeholder \<open>p\<close>, with the fields it takes from the story \<open>w\<close>.\<close>

definition placeholder_of :: "WorkItem \<Rightarrow> WorkItem \<Rightarrow> bool" where
  "placeholder_of w p \<longleftrightarrow> wi_project p = wi_project w \<and> wi_team p = wi_team w \<and> w_status p = w_status w \<and> w_priority p = w_priority w \<and>
     w_assignee p = w_assignee w \<and> w_reporter p = w_reporter w \<and> w_devOwner p = w_devOwner w"

definition items_split :: "split_input \<Rightarrow> uuid \<Rightarrow> uuid \<Rightarrow> uuid \<Rightarrow> WorkItem list \<Rightarrow> WorkItem list \<Rightarrow> bool" where
  "items_split input i j splitId before after \<longleftrightarrow>
     (\<exists>g p. after = map g before @ [p] \<and>
        wi_id p = j \<and> wi_type p = Story \<and> wi_schedule p = S_accepted \<and> wi_iteration p = Some (si_expectedSource input) \<and>
        w_title p = si_unfinishedTitle input \<and> w_points p = si_unfinishedPoints input \<and> w_split p = Some splitId \<and>
        (\<forall>w \<in> set before. wi_parent (g w) = (if wi_id w \<in> set (si_defects input) then Some j else wi_parent w) \<and>
           w_split (g w) = w_split w \<and>
           (if wi_id w = i then item_core (g w) = item_core (split_changes input w) \<and> placeholder_of w p
            else item_core (g w) = item_core w \<and> wi_schedule (g w) = wi_schedule w \<and> w_flow (g w) = w_flow w) \<and>
           (wi_id w \<noteq> i \<and> wi_id w \<notin> set (si_defects input) \<longrightarrow> g w = w)))"

lemma split_in_tx_effect:
  assumes tx: "split_in_tx e j sid key p db = Inr r" and inv: "work_inv db"
    and fresh: "j \<notin> wi_id ` set (work_items db) \<union> tk_id ` set (tasks db)"
    and story: "findById db i (e_ws e) = Some (pl_story p)" "wi_type (pl_story p) = Story"
      "wi_iteration (pl_story p) = Some (si_expectedSource (pl_input p))"
    and ts: "set (pl_taskIds p) = set (si_tasks (pl_input p))" "set (si_tasks (pl_input p)) \<subseteq> tk_id ` set (tasks_of db i (e_ws e))"
    and ds: "set (pl_defectIds p) = set (si_defects (pl_input p))"
      "set (si_defects (pl_input p)) \<subseteq> wi_id ` set (filter (\<lambda>w. wi_project w = wi_project (pl_story p) \<and> wi_workspace w = e_ws e \<and>
           wi_parent w = Some i \<and> wi_type w = Defect) (work_items db))"
  shows "work_inv (sr_db r) \<and> follows (sr_db r) i (e_ws e) \<and> iterations (base (sr_db r)) = iterations (base db) \<and>
    tasks_split (pl_input p) i j (tasks db) (tasks (sr_db r)) \<and>
    items_split (pl_input p) i j sid (work_items db) (work_items (sr_db r)) \<and>
    tests (sr_db r) = tests (reparentToWorkItem (pl_testIds p) j (e_ws e) db)"
proof -
  let ?in = "pl_input p" and ?s = "pl_story p"
  obtain rank u db1 w db2 db3 db4 where st: "create_row e (placeholder e j key rank p) db = (u, db1)"
    "update_row e (wi_id ?s) (continued_changes p) None db1 = Inr (w, db2)"
    "update_each e (no_input\<lparr>u_parent := Some (Some j)\<rparr>) (pl_taskIds p) db2 = Inr db3"
    "update_each e (no_input\<lparr>u_parent := Some (Some j)\<rparr>) (pl_defectIds p) db3 = Inr db4"
    and r: "sr_db r = reconcileParentScheduleState e (wi_id ?s) (split_log p j
       (write_item e j (\<lambda>w. w\<lparr>w_split := Some sid\<rparr>) (reparentToWorkItem (pl_testIds p) j (e_ws e) db4)))"
    by (rule split_in_tx_steps [OF tx]) blast
  have si: "wi_id ?s = i" using findById_id [OF story(1)] by simp
  define P where "P = stamp_item e None (toWorkItem (placeholder e j key rank p))"
  have P: "wi_id P = j" "wi_type P = Story" "wi_schedule P = S_accepted" "wi_parent P = None" "wi_iteration P = Some (si_expectedSource ?in)"
    "w_title P = si_unfinishedTitle ?in" "w_points P = si_unfinishedPoints ?in" "wi_workspace P = e_ws e" "wi_project P = wi_project ?s"
    using story(3) by (simp_all add: P_def placeholder_def Let_def stamp_item_def toWorkItem_def)
  have db1: "work_items db1 = work_items db @ [P]" "tasks db1 = tasks db" "tests db1 = tests db" "base db1 = base db"
    using st(1) by (auto simp: create_row_def placeholder_def Let_def P_def)
  have "work_inv (snd (create_row e (placeholder e j key rank p) db))"
    by (rule inv_create_row [OF inv]) (use fresh in \<open>simp_all add: placeholder_def Let_def\<close>)
  with st(1) have inv1: "work_inv db1" by simp
  have nj: "i \<noteq> j" using story fresh findById_item [OF story(1)] by (auto simp: live_item_def)
  have story1: "findById db1 i (e_ws e) = Some ?s" using findById_append [OF story(1) _ db1(1)] story(2) by simp
  obtain g h where
    2: "work_inv db2" "iterations (base db2) = iterations (base db)" "tests db2 = tests db" and
    h: "tasks db2 = map h (tasks db)" "\<forall>t. task_core (h t) = task_core t \<and> tk_parent (h t) = tk_parent t \<and> (tk_parent t \<noteq> i \<longrightarrow> h t = t)" and
    g: "work_items db2 = map g (work_items db) @ [g P]"
      "\<forall>v \<in> set (work_items db). wi_parent (g v) = wi_parent v \<and> w_split (g v) = w_split v \<and>
          (if wi_id v = i then item_core (g v) = item_core (split_changes ?in v) else g v = v)" "g P = P"
    using split_row_moved [OF st(2) [unfolded si] inv1 story1 story(2)] db1 P(1) nj by auto
  have new: "(j, e_ws e, wi_project ?s, Story) \<in> ident ` set (work_items db1)"
    using P by (auto simp: db1(1) ident_def)
  have sub: "set (filter Q (work_items db)) \<subseteq> set (filter Q (work_items db1))" for Q by (auto simp: db1(1))
  have kids: "k \<noteq> i \<and> child_fits db1 j k" if "k \<in> set (pl_taskIds p) \<union> set (pl_defectIds p)" for k
  proof (rule split_child_fits [OF inv1 story1 story(2) _ new])
    show "k \<in> tk_id ` set (tasks_of db1 i (e_ws e)) \<or> k \<in> wi_id ` set (filter (\<lambda>w. wi_project w = wi_project ?s \<and>
        wi_workspace w = e_ws e \<and> wi_parent w = Some i \<and> wi_type w = Defect) (work_items db1))"
      using that ts ds tasks_of_sel [OF db1(2)] by (auto simp: db1(1))
  qed
  have id2: "ident (g v) = ident v" if "v \<in> set (work_items db1)" for v
    using g(2,3) that db1(1) item_core_ident [of "g v" "split_changes ?in v"]
    by (auto simp: split_changes_def ident_def split: if_splits)
  have "\<forall>k \<in> set (pl_taskIds p) \<union> set (pl_defectIds p). child_fits db2 j k"
    using child_fits_map [of db1 j _ db2 h g] kids h g(1) db1 id2 by auto
  moreover have "\<exists>w \<in> set (work_items db2). wi_id w = i"
    using findById_item [OF story1] story(2) id2 g(1) db1(1) by (auto simp: live_item_def ident_def)
  moreover have jws: "\<forall>w \<in> set (work_items db2). wi_id w = j \<longrightarrow> wi_workspace w = e_ws e"
  proof (intro ballI impI)
    fix w assume w: "w \<in> set (work_items db2)" "wi_id w = j"
    then obtain v where v: "v \<in> set (work_items db1)" "w = g v" using g(1) db1(1) by auto
    then have "wi_id v = j" using id2 [OF v(1)] w(2) by (simp add: ident_def)
    then have "v \<notin> set (work_items db)" using fresh by blast
    with v(1) have "v = P" by (simp add: db1(1))
    with v(2) g(3) P show "wi_workspace w = e_ws e" by simp
  qed
  ultimately have end_: "work_inv (sr_db r) \<and> moved_to i (set (pl_taskIds p) \<union> set (pl_defectIds p)) j db2 (sr_db r) \<and>
      follows (sr_db r) i (e_ws e) \<and> tests (sr_db r) = tests (reparentToWorkItem (pl_testIds p) j (e_ws e) db2) \<and>
      (\<forall>w \<in> set (work_items (sr_db r)). wi_id w = j \<longrightarrow> w_split w = Some sid)"
    using split_children_moved [where sid = sid and p = p and ts = "pl_testIds p", OF st(3,4) 2(1) _ _ _ nj] kids r si jws by auto
  from end_ obtain h' g' where
    h': "tasks (sr_db r) = map h' (tasks db2)" "\<forall>t \<in> set (tasks db2). task_moved_to (set (pl_taskIds p) \<union> set (pl_defectIds p)) j t (h' t)" and
    g': "work_items (sr_db r) = map g' (work_items db2)"
      "\<forall>w \<in> set (work_items db2). item_moved i (set (pl_taskIds p) \<union> set (pl_defectIds p)) j w (g' w)" and
    its: "iterations (base (sr_db r)) = iterations (base db2)"
    unfolding moved_to_def by blast
  have nt: "tk_id t \<notin> set (pl_defectIds p)" if "t \<in> set (tasks db)" for t
    using item_not_task [OF inv _ that] ds by fastforce
  have nw: "wi_id w \<notin> set (pl_taskIds p)" if "w \<in> set (work_items db)" for w
    using item_not_task [OF inv that] ts by (fastforce simp: tasks_of_def)
  have "tasks_split ?in i j (tasks db) (tasks (sr_db r))"
    unfolding tasks_split_def
  proof (intro exI [of _ "\<lambda>t. h' (h t)"] conjI ballI)
    fix t assume t: "t \<in> set (tasks db)"
    then have "h t \<in> set (tasks db2)" by (simp add: h(1))
    then show "task_core (h' (h t)) = task_core t" "tk_parent (h' (h t)) = (if tk_id t \<in> set (si_tasks ?in) then j else tk_parent t)"
      "tk_id t \<notin> set (si_tasks ?in) \<and> tk_parent t \<noteq> i \<longrightarrow> h' (h t) = t"
      using h'(2) h(2) nt [OF t] ts(1) task_core_id [of "h t" t] by (auto simp: task_moved_to_def)
  qed (simp add: h'(1) h(1))
  moreover have "items_split ?in i j sid (work_items db) (work_items (sr_db r))"
    unfolding items_split_def
  proof (intro exI [of _ "\<lambda>w. g' (g w)"] exI [of _ "g' P"] conjI ballI)
    have "P \<in> set (work_items db2)" by (simp add: g(1,3))
    then have c: "item_core (g' P) = item_core P" "wi_schedule (g' P) = wi_schedule P" using g'(2) P(1) nj by (auto simp: item_moved_def)
    then show end_P: "wi_id (g' P) = j" "wi_type (g' P) = Story" "wi_schedule (g' P) = S_accepted" "wi_iteration (g' P) = Some (si_expectedSource ?in)"
      "w_title (g' P) = si_unfinishedTitle ?in" "w_points (g' P) = si_unfinishedPoints ?in"
      using P by (auto simp: item_core_def)
    have "g' P \<in> set (work_items (sr_db r))" by (simp add: g'(1) g(1,3))
    then show "w_split (g' P) = Some sid" using end_ end_P(1) by blast
  next
    fix w assume w: "w \<in> set (work_items db)"
    then have in2: "g w \<in> set (work_items db2)" by (simp add: g(1))
    have id: "wi_id (g w) = wi_id w" using id2 [of w] w by (simp add: db1(1) ident_def)
    have wj: "wi_id w \<noteq> j" using w fresh by auto
    note moved = g'(2) [rule_format, OF in2, unfolded item_moved_def id] and first = g(2) [rule_format, OF w]
    show "wi_parent (g' (g w)) = (if wi_id w \<in> set (si_defects ?in) then Some j else wi_parent w)"
      using moved first nw [OF w] ds(1) by auto
    show "w_split (g' (g w)) = w_split w" using moved first wj by simp
    show "wi_id w \<noteq> i \<and> wi_id w \<notin> set (si_defects ?in) \<longrightarrow> g' (g w) = w"
      using moved first nw [OF w] ds(1) wj by (auto split: if_splits)
    have "placeholder_of w (g' P)" if "wi_id w = i"
    proof -
      obtain q where q: "q \<in> set (work_items db)" "?s = toWorkItem q" "live_item i (e_ws e) q"
        using findById_item [OF story(1)] story(2) by auto
      have "q = w" using same_item [OF inv q(1) w] q(3) that by (simp add: live_item_def)
      have "item_core (g' P) = item_core P" using g'(2) by (simp add: g(1,3) item_moved_def)
      moreover have "placeholder_of w P"
        using q(2) \<open>q = w\<close> by (simp add: P_def placeholder_of_def placeholder_def Let_def stamp_item_def toWorkItem_def)
      ultimately show ?thesis by (simp add: placeholder_of_def item_core_def item_owner_def)
    qed
    with moved first show "if wi_id w = i then item_core (g' (g w)) = item_core (split_changes ?in w) \<and> placeholder_of w (g' P)
        else item_core (g' (g w)) = item_core w \<and> wi_schedule (g' (g w)) = wi_schedule w \<and> w_flow (g' (g w)) = w_flow w"
      by (auto split: if_splits)
  qed (simp add: g'(1) g(1,3))
  ultimately show ?thesis using end_ its 2(2,3) by (simp add: reparentToWorkItem_def)
qed

lemma split_effect:
  assumes "splitWorkItem e j splitId (\<lambda>d. d) i input db = Inr r" and "work_inv db"
    and "j \<notin> wi_id ` set (work_items db) \<union> tk_id ` set (tasks db)"
  shows "work_inv (sr_db r) \<and> follows (sr_db r) i (e_ws e) \<and> iterations (base (sr_db r)) = iterations (base db) \<and>
    tasks_split input i j (tasks db) (tasks (sr_db r)) \<and>
    items_split input i j splitId (work_items db) (work_items (sr_db r)) \<and>
    tests (sr_db r) = map (\<lambda>t. if tc_id t \<in> set (si_tests input) \<and> tc_workspace t = e_ws e \<and> \<not> tc_deleted t
      then t\<lparr>tc_item := j\<rparr> else t) (tests db) \<and>
    (\<exists>target \<in> set (iterations (base db)). it_id target = si_target input \<and> it_state target \<noteq> Accepted)"
proof -
  from assms(1) obtain p where p: "split_checks e i input db = Inr p" and "split_tries e j splitId p 0 MAX_KEY_RETRIES db = Inr r"
    by (auto simp: splitWorkItem_def bind_sum_Inr)
  from split_tries_tx [OF this(2)] obtain key db1 where same: "work_items db1 = work_items db" "tasks db1 = tasks db" "tests db1 = tests db"
      "base db1 = base db" and tx: "split_in_tx e j splitId key p db1 = Inr r" by blast
  from same have find: "findById db1 i (e_ws e) = findById db i (e_ws e)" "tasks_of db1 i (e_ws e) = tasks_of db i (e_ws e)"
    by (simp_all only: findById_def tasks_of_def same)
  show ?thesis
  proof (rule split_checks_plan [OF p])
    assume c: "findById db i (e_ws e) = Some (pl_story p)" "pl_input p = input" "wi_type (pl_story p) = Story"
      "wi_iteration (pl_story p) = Some (si_expectedSource input)" "it_id (pl_target p) = si_target input"
      "set (pl_taskIds p) = set (si_tasks input)" "set (si_tasks input) \<subseteq> tk_id ` set (tasks_of db i (e_ws e))"
      "set (pl_defectIds p) = set (si_defects input)"
      "set (si_defects input) \<subseteq> wi_id ` set (filter (\<lambda>w. wi_project w = wi_project (pl_story p) \<and> wi_workspace w = e_ws e \<and>
           wi_parent w = Some i \<and> wi_type w = Defect) (work_items db))"
      and tests: "set (pl_testIds p) = set (si_tests input)"
      and target: "pl_target p \<in> set (filterSplitTargets (it_id (pl_source p)) (it_end (pl_source p))
           (listProjectIterations db (wi_project (pl_story p)) (e_ws e)) (wi_project (pl_story p)) (wi_team (pl_story p)))"
    from target have "pl_target p \<in> set (iterations (base db)) \<and> it_state (pl_target p) \<noteq> Accepted"
      by (auto simp: filterSplitTargets_def listProjectIterations_def)
    moreover have "tests (reparentToWorkItem (pl_testIds p) j (e_ws e) db1) =
        map (\<lambda>t. if tc_id t \<in> set (si_tests input) \<and> tc_workspace t = e_ws e \<and> \<not> tc_deleted t then t\<lparr>tc_item := j\<rparr> else t) (tests db)"
      by (simp add: reparentToWorkItem_def update_where_def tests same)
    ultimately show ?thesis
      using split_in_tx_effect [OF tx, of i] assms(2,3) c find same by auto
  qed
qed


section \<open>Where a carryover lands\<close>

text \<open>The effect of a carryover of the item \<open>i\<close>: only its sprint and its target date change, and the sprint of its tasks.\<close>

definition carried :: "uuid \<Rightarrow> carry_input \<Rightarrow> work_db \<Rightarrow> work_db \<Rightarrow> bool" where
  "carried i input before after \<longleftrightarrow>
     (\<exists>g. work_items after = map g (work_items before) \<and>
        (\<forall>w \<in> set (work_items before). if wi_id w \<noteq> i then g w = w
           else item_core (g w) = item_core (w\<lparr>wi_iteration := Some (ci_target input)\<rparr>) \<and> wi_parent (g w) = wi_parent w \<and>
             wi_schedule (g w) = wi_schedule w \<and> (wi_type w = Story \<longrightarrow> w_target (g w) = Some (ci_targetEndDate input)))) \<and>
     (\<exists>h. tasks after = map h (tasks before) \<and>
        (\<forall>t \<in> set (tasks before). task_core (h t) = task_core t \<and> tk_parent (h t) = tk_parent t \<and>
           (tk_parent t = i \<and> \<not> tk_deleted t \<longrightarrow> tk_iteration (h t) = Some (ci_target input)))) \<and>
     tests after = tests before \<and> iterations (base after) = iterations (base before)"

lemma carry_write:
  assumes u: "update_row e i (no_input\<lparr>u_iteration := Some (Some (ci_target input)), u_target := Some (Some (ci_targetEndDate input))\<rparr>) None db = Inr (w, db')"
    (is "update_row e i ?u None db = _")
    and inv: "work_inv db" and r: "r \<in> set (work_items db)" "live_item i (e_ws e) r"
  shows "work_inv db' \<and> carried i input db db'"
proof -
  have one: "v = r" if "v \<in> set (work_items db)" "wi_id v = i" for v
    using same_item [OF inv that(1) r(1)] that(2) r(2) by (simp add: live_item_def)
  have "t \<in> set (tasks db) \<Longrightarrow> tk_id t \<noteq> i" for t
    using item_not_task [OF inv r(1), of t] r(2) by (auto simp: live_item_def)
  then have no: "find (live_task i (e_ws e)) (tasks db) = None" by (auto simp: find_None_iff live_task_def)
  from u have db': "db' = write_item e i (set_item ?u) db"
    by (rule update_row_cases) (use no in auto)
  have inv': "work_inv db'" by (rule inv_update_row [OF u inv]) simp
  define g where "g = (\<lambda>v. if wi_id v = i \<and> wi_workspace v = e_ws e then stamp_item e (Some v) (set_item ?u v) else v)"
  have rows: "work_items db' = map g (work_items db)" by (simp add: db' write_item_def Let_def update_where_def g_def)
  have g: "if wi_id v \<noteq> i then g v = v else item_core (g v) = item_core (v\<lparr>wi_iteration := Some (ci_target input)\<rparr>) \<and>
      wi_parent (g v) = wi_parent v \<and> wi_schedule (g v) = wi_schedule v \<and> (wi_type v = Story \<longrightarrow> w_target (g v) = Some (ci_targetEndDate input))"
    if v: "v \<in> set (work_items db)" for v
  proof (cases "wi_id v = i")
    case True
    then have "wi_workspace v = e_ws e" using one [OF v] r(2) by (simp add: live_item_def)
    with True have "g v = stamp_item e (Some v) (set_item ?u v)" by (simp add: g_def)
    moreover have "item_core (set_item ?u v) = item_core (v\<lparr>wi_iteration := Some (ci_target input)\<rparr>)"
      by (simp add: item_core_def item_owner_def set_item_def no_input_def mirroredState_def)
    moreover have "w_target (stamp_item e (Some v) (set_item ?u v)) = (if wi_type v \<noteq> Story then None else Some (ci_targetEndDate input))"
      by (simp add: stamp_item_def Let_def set_item_def)
    ultimately show ?thesis using True by (simp add: no_input_def mirroredState_def)
  qed (simp add: g_def)
  obtain h where h: "tasks db' = map h (tasks db)" "\<forall>t. task_core (h t) = task_core t \<and> tk_parent (h t) = tk_parent t"
    using cascade_tasks [of e i "set_item ?u" db] db' by blast
  have "tk_iteration (h t) = Some (ci_target input)" if t: "t \<in> set (tasks db)" "tk_parent t = i" "\<not> tk_deleted t" for t
  proof -
    have "h t \<in> set (tasks db')" using t(1) h(1) by simp
    with inv' obtain q where q: "q \<in> set (work_items db')" "wi_id q = tk_parent (h t)" "\<not> tk_deleted (h t) \<longrightarrow> tk_iteration (h t) = wi_iteration q"
      by (fastforce simp: rows_inv_def task_ok_def)
    have "\<not> tk_deleted (h t)" "tk_parent (h t) = i" using h(2) t(2,3) by (auto simp: task_core_def)
    moreover from q(1) rows obtain v where v: "v \<in> set (work_items db)" "q = g v" by auto
    moreover have "wi_id v = i" using calculation(2) q(2) v g [OF v(1)] by (auto simp: item_core_def split: if_splits)
    ultimately show ?thesis using q(3) g [OF v(1)] by (auto simp: item_core_def)
  qed
  with inv' rows g h show ?thesis unfolding carried_def db' by auto
qed

lemma carry_effect:
  assumes "carryOverWorkItem e others i input db = Inr c" and "work_inv (others db)"
  shows "(\<exists>story \<in> set (work_items (others db)). \<exists>source \<in> set (iterations (base (others db))). \<exists>target \<in> set (iterations (base (others db))).
      live_item i (e_ws e) story \<and> wi_iteration story = Some (ci_expectedSource input) \<and>
      it_id source = ci_expectedSource input \<and> it_id target = ci_target input \<and>
      it_project target = wi_project story \<and> it_team target = wi_team story \<and> it_state target \<noteq> Accepted \<and>
      containsDate target (ci_targetEndDate input) \<and> isAfterCurrent (ci_targetEndDate input) source \<and>
      the (it_start source) < the (it_start target)) \<and>
    work_inv (cr_db c) \<and> carried i input (others db) (cr_db c) \<and>
    mset (map cs_task (cr_snapshots c)) = mset (map tk_id (tasks_of (others db) i (e_ws e)))"
proof -
  let ?db = "others db"
  from assms(1) obtain story cur target where chk: "getWorkItem db (e_ws e) i = Inr story"
      "wi_iteration story = Some (ci_expectedSource input)" "fst (carryoverContext db story) = Some cur" "it_id target = ci_target input"
    and tx: "carry_in_tx e i story cur target input ?db = Inr c"
    by (auto simp: carryOverWorkItem_def bind_sum_Inr split: if_splits prod.splits option.splits dest!: find_Some_in)
  have cur: "it_id cur = ci_expectedSource input"
    using chk(2,3) by (auto simp: carryoverContext_def Let_def dest: find_Some_in split: option.splits)
  from tx obtain locked src tgt w db1 where
    l: "find (live_item i (e_ws e)) (work_items ?db) = Some locked" "wi_iteration locked = Some (ci_expectedSource input)" and
    s: "lockIteration ?db (it_id cur) (e_ws e) = Some src" and t: "lockIteration ?db (it_id target) (e_ws e) = Some tgt" and
    ok: "isEligibleIteration (wi_project locked) (wi_team locked) tgt src" "containsDate tgt (ci_targetEndDate input)"
      "isAfterCurrent (ci_targetEndDate input) src" and
    u: "update_row e i (no_input\<lparr>u_iteration := Some (Some (ci_target input)), u_target := Some (Some (ci_targetEndDate input))\<rparr>) None ?db = Inr (w, db1)" and
    c: "cr_snapshots c = listTaskSnapshots ?db i (e_ws e)" "cr_db c = log_entry i ''work_item.carried_over'' (Some ''iterationId'') db1"
    using chk(4) by (auto simp: carry_in_tx_def bind_sum_Inr isAfterCurrent_def not_le split: option.splits if_splits)
  note locked = find_live_item [OF l(1)]
  have "live_item i (e_ws e) locked" using find_Some_in [OF l(1)] by simp
  from carry_write [OF u assms(2) _ this] locked have "work_inv db1 \<and> carried i input ?db db1" by simp
  then have end_: "work_inv (cr_db c) \<and> carried i input ?db (cr_db c)" by (simp add: c(2) carried_def)
  have rows: "src \<in> set (iterations (base ?db)) \<and> it_id src = it_id cur" "tgt \<in> set (iterations (base ?db)) \<and> it_id tgt = it_id target"
    using s t by (auto simp: lockIteration_def dest: find_Some_in)
  have "mset (map cs_task (cr_snapshots c)) = mset (map tk_id (tasks_of ?db i (e_ws e)))"
    by (simp add: c(1) listTaskSnapshots_def comp_def)
  moreover have "it_id tgt \<noteq> it_id src"
  proof
    assume "it_id tgt = it_id src"
    with s t rows have "tgt = src" by simp
    with ok(2,3) show False by (auto simp: containsDate_def isAfterCurrent_def split: option.splits)
  qed
  moreover from this have "it_state tgt \<noteq> Accepted" "it_project tgt = wi_project locked" "it_team tgt = wi_team locked"
    "the (it_start src) < the (it_start tgt)"
    using ok(1) by (auto simp: isEligibleIteration_def isOpenState_def CARRYOVER_TARGET_STATES_def isSameProject_def isSameTeam_def
        isCurrentOrLater_def split: if_splits)
  ultimately show ?thesis using end_ rows locked l(2) ok cur chk(4) \<open>live_item i (e_ws e) locked\<close>
    by (intro conjI bexI [of _ locked] bexI [of _ src] bexI [of _ tgt]) simp_all
qed

text \<open>C11: whatever other requests commit between the checks of a carryover and its transaction, a carryover
  that succeeds moves a story that is still in the sprint the caller saw into an open sprint of its own project and
  team that contains the target date and starts later, the date lying after the end of the sprint
  it leaves; only its sprint and target date change, its live tasks are in the new sprint, and the
  snapshot has one entry per live task.\<close>

theorem carryover_lands:
  assumes "carryOverWorkItem e others i input db = Inr c" and "work_inv (others db)"
  shows "(\<exists>story \<in> set (work_items (others db)). \<exists>source \<in> set (iterations (base (others db))). \<exists>target \<in> set (iterations (base (others db))).
      live_item i (e_ws e) story \<and> wi_iteration story = Some (ci_expectedSource input) \<and>
      it_id source = ci_expectedSource input \<and> it_id target = ci_target input \<and>
      it_project target = wi_project story \<and> it_team target = wi_team story \<and> it_state target \<noteq> Accepted \<and>
      containsDate target (ci_targetEndDate input) \<and> isAfterCurrent (ci_targetEndDate input) source \<and>
      the (it_start source) < the (it_start target)) \<and>
    work_inv (cr_db c) \<and> carried i input (others db) (cr_db c) \<and>
    mset (map cs_task (cr_snapshots c)) = mset (map tk_id (tasks_of (others db) i (e_ws e)))"
  by (rule carry_effect [OF assms])

end
