(* ===== verification/WorkItemRuns.thy ===== *)
theory WorkItemRuns
  imports StoryMoveLaws
begin

text \<open>
  Runs of the work item service: any sequence of its requests, from the empty tables. What every
  reachable database satisfies, and what the version column guarantees to a caller that sends the
  version it has read.
\<close>

section \<open>Requests and runs\<close>

text \<open>A request of any caller; ids of new rows are fresh (they are drawn at random by the repository). The
  checks of a carryover may have been made against any earlier state.\<close>

inductive item_step :: "work_db \<Rightarrow> work_db \<Rightarrow> bool" where
  created: "createWorkItem e i pid type title opts db = Inr (w, db') \<Longrightarrow>
     i \<notin> wi_id ` set (work_items db) \<union> tk_id ` set (tasks db) \<Longrightarrow> n_parent opts \<noteq> Some [] \<Longrightarrow> item_step db db'"
| task_created: "createTask e i p title assignee devOwner team estimate todo actual db = Inr (w, db') \<Longrightarrow>
     i \<notin> wi_id ` set (work_items db) \<union> tk_id ` set (tasks db) \<Longrightarrow> p \<noteq> [] \<Longrightarrow> item_step db db'"
| updated: "updateWorkItem e i u expected db = Inr (w, db') \<Longrightarrow> item_step db db'"
| deleted: "deleteWorkItem e i db = Inr db' \<Longrightarrow> item_step db db'"
| split: "splitWorkItem e j splitId (\<lambda>d. d) i input db = Inr r \<Longrightarrow>
     j \<notin> wi_id ` set (work_items db) \<union> tk_id ` set (tasks db) \<Longrightarrow> item_step db (sr_db r)"
| carried_over: "carryOverWorkItem e (\<lambda>_. db) i carry old = Inr c \<Longrightarrow> item_step db (cr_db c)"
| elsewhere: "work_items db' = work_items db \<Longrightarrow> tasks db' = tasks db \<Longrightarrow> item_step db db'"

inductive item_run :: "work_db \<Rightarrow> work_db \<Rightarrow> bool" where
  none: "item_run db db"
| more: "item_run db db' \<Longrightarrow> item_step db' db'' \<Longrightarrow> item_run db db''"

lemma createTask_create:
  assumes "createTask e i p title assignee devOwner team estimate todo actual db = Inr (w, db')" "p \<noteq> []"
  shows "\<exists>pid opts. createWorkItem e i pid Task title opts db = Inr (w, db') \<and> n_parent opts \<noteq> Some []"
proof -
  from assms(1) obtain parent opts where "findById db p (e_ws e) = Some parent" and
    c: "createWorkItem e i (wi_project parent) Task title opts db = Inr (w, db')" and "n_parent opts = Some (wi_id parent)"
    by (auto simp: createTask_def bind_sum_Inr getWorkItem_Inr split: if_splits)
  moreover from this have "n_parent opts \<noteq> Some []" using findById_id assms(2) by fastforce
  ultimately show ?thesis by blast
qed

lemma inv_item_step: "item_step db db' \<Longrightarrow> work_inv db \<Longrightarrow> work_inv db'"
proof (induction rule: item_step.induct)
  case (task_created e i p title assignee devOwner team estimate todo actual db w db')
  with createTask_create [OF task_created(1,3)] inv_create show ?case by blast
next
  case (split e j splitId i input db r)
  then show ?case using split_effect by blast
next
  case (carried_over e db i carry old c)
  then show ?case using carry_effect [of e "\<lambda>_. db"] by simp
qed (use inv_create inv_update inv_delete in \<open>blast | simp\<close>)+

lemma inv_item_run: "item_run db db' \<Longrightarrow> work_inv db \<Longrightarrow> work_inv db'"
  by (induction rule: item_run.induct) (blast intro: inv_item_step)+

section \<open>Versions grow\<close>

definition grows :: "work_db \<Rightarrow> work_db \<Rightarrow> bool" where
  "grows a b \<longleftrightarrow>
     (\<forall>w \<in> set (work_items a). \<exists>w' \<in> set (work_items b). wi_id w' = wi_id w \<and> w_version w \<le> w_version w') \<and>
     (\<forall>t \<in> set (tasks a). \<exists>t' \<in> set (tasks b). tk_id t' = tk_id t \<and> tk_version t \<le> tk_version t')"

lemma grows_same: "work_items b = work_items a \<Longrightarrow> tasks b = tasks a \<Longrightarrow> grows a b"
  by (auto simp: grows_def)

lemma grows_trans [trans]: "grows a b \<Longrightarrow> grows b c \<Longrightarrow> grows a c"
  unfolding grows_def by (intro conjI ballI) (metis order_trans)+

lemma grows_more: "set (work_items a) \<subseteq> set (work_items b) \<Longrightarrow> set (tasks a) \<subseteq> set (tasks b) \<Longrightarrow> grows a b"
  by (auto simp: grows_def)

lemma grows_map:
  assumes "work_items b = map g (work_items a)" "\<And>w. wi_id (g w) = wi_id w \<and> w_version w \<le> w_version (g w)"
    and "tasks b = map h (tasks a)" "\<And>t. tk_id (h t) = tk_id t \<and> tk_version t \<le> tk_version (h t)"
  shows "grows a b"
  using assms by (auto simp: grows_def)

lemma stamp_version [simp]:
  "w_version (stamp_item e (Some q) w) = w_version q + 1" "tk_version (stamp_task e (Some r) t) = tk_version r + 1"
  "tk_version (iteration_from_parent rows t) = tk_version t"
  by (simp_all add: stamp_item_def stamp_task_def iteration_from_parent_def Let_def)

lemma grows_write_item:
  assumes "\<And>w. wi_id (f w) = wi_id w"
  shows "grows db (write_item e i f db)"
proof (rule grows_map)
  show "work_items (write_item e i f db) =
      map (\<lambda>w. if wi_id w = i \<and> wi_workspace w = e_ws e then stamp_item e (Some w) (f w) else w) (work_items db)"
    by (simp add: write_item_def Let_def update_where_def)
  show "tasks (write_item e i f db) = map (\<lambda>t. case find (\<lambda>w. wi_id w = i \<and> wi_workspace w = e_ws e) (work_items db) of None \<Rightarrow> t
        | Some w \<Rightarrow> if wi_iteration (f w) \<noteq> wi_iteration w \<and> tk_parent t = i \<and> \<not> tk_deleted t \<and> tk_iteration t \<noteq> wi_iteration (f w)
                    then stamp_task e (Some t) (t\<lparr>tk_iteration := wi_iteration (f w)\<rparr>) else t) (tasks db)"
    by (simp add: write_item_def Let_def cascade_iteration_def update_where_def split: option.splits)
qed (simp_all add: assms split: option.splits)

lemma grows_write_task:
  assumes "\<And>t. tk_id (f t) = tk_id t"
  shows "grows db (write_task e i m f db)"
proof (rule grows_map)
  show "work_items (write_task e i m f db) = map (\<lambda>w. w) (work_items db)" by simp
  show "tasks (write_task e i m f db) = map (\<lambda>t. if tk_id t = i \<and> tk_workspace t = e_ws e
      then (if m then iteration_from_parent (work_items db) (stamp_task e (Some t) (f t)) else stamp_task e (Some t) (f t)) else t) (tasks db)"
    by (simp add: write_task_def update_where_def Let_def)
qed (simp_all add: assms)

lemma grows_update_row: "update_row e i u x db = Inr (w, db') \<Longrightarrow> grows db db'"
  by (erule update_row_cases) (simp_all add: grows_write_item grows_write_task)

lemma grows_log: "grows a b \<Longrightarrow> grows a (log_entry i what f b)"
  by (simp add: grows_def)

lemma grows_reconcile: "grows db (reconcileParentScheduleState e p db)"
  by (auto simp: reconcileParentScheduleState_def Let_def intro!: grows_log intro: grows_same grows_update_row
      split: prod.splits option.splits sum.splits)

lemma grows_update_each: "update_each e u is db = Inr db' \<Longrightarrow> grows db db'"
proof (induction "is" arbitrary: db)
  case (Cons i "is")
  then show ?case by (auto simp: bind_sum_Inr intro: grows_trans grows_update_row)
qed (simp add: grows_same)

lemma grows_create_row: "create_row e w db = (r, db') \<Longrightarrow> grows db db'"
  by (auto simp: create_row_def Let_def intro!: grows_more split: if_splits)

lemma grows_create:
  assumes "createWorkItem e i pid type title opts db = Inr (w, db')"
  shows "grows db db'"
proof -
  obtain key st rank db1 where tx: "work_items db1 = work_items db" "tasks db1 = tasks db"
    "(w, db') = create_in_tx e (new_item e i pid type key title st rank opts) db1"
    using createWorkItem_tx [OF assms] by blast
  obtain c db2 where cr: "create_row e (new_item e i pid type key title st rank opts) db1 = (c, db2)" by fastforce
  have 1: "grows db db2" using grows_trans [OF grows_same [OF tx(1,2)] grows_create_row [OF cr]] .
  define db3 where "db3 = notifyAssignment e c (w_devOwner c) (notifyAssignment e c (w_assignee c)
      (log_entry i (if type = Task then ''task.created'' else ''work_item.created'') None db2))"
  have db': "db' = (if type = Task \<and> present (wi_parent c) then reconcileParentScheduleState e (the (wi_parent c)) db3 else db3)"
    using tx(3) cr by (simp add: create_in_tx_def Let_def db3_def)
  have "grows db2 db3" by (simp add: db3_def grows_same)
  also have "grows db3 db'" by (simp add: db' grows_reconcile grows_same)
  finally show ?thesis by (rule grows_trans [OF 1])
qed

lemma grows_update_in_tx:
  assumes "update_in_tx e item u x db = Inr (w, db')"
  obtains u1 db1 where "update_row e (wi_id item) u1 x db = Inr (w, db1)" "grows db1 db'"
proof (rule update_in_tx_rows [OF assms])
  fix u1 db1 db2
  assume r: "update_row e (wi_id item) u1 x db = Inr (w, db1)" "work_items db2 = work_items db1" "tasks db2 = tasks db1"
    "work_items db' = work_items (if wi_type item = Task \<and> present (wi_parent item) \<and> u_schedule u \<noteq> None
       then reconcileParentScheduleState e (the (wi_parent item)) db2 else db2)" (is "_ = work_items ?end")
    "tasks db' = tasks (if wi_type item = Task \<and> present (wi_parent item) \<and> u_schedule u \<noteq> None
       then reconcileParentScheduleState e (the (wi_parent item)) db2 else db2)"
  have "grows db2 ?end" by (simp add: grows_reconcile grows_same)
  from grows_trans [OF grows_trans [OF grows_same [OF r(2,3)] this] grows_same [OF r(4,5)]] show thesis by (rule that [OF r(1)])
qed

lemma grows_delete:
  assumes "deleteWorkItem e i db = Inr db'"
  shows "grows db db'"
proof -
  have "grows db (softDelete e i db)" by (simp add: softDelete_def grows_write_item grows_write_task)
  then have 1: "grows db (log_entry i a f (softDeleteByWorkItem e i (softDelete e i db)))" for a f
    by (simp add: softDeleteByWorkItem_def grows_def)
  from assms show ?thesis
    by (auto simp: deleteWorkItem_def bind_sum_Inr Let_def intro: 1 grows_trans [OF 1 grows_reconcile] split: if_splits)
qed

lemma grows_split:
  assumes "splitWorkItem e j sid (\<lambda>d. d) i input db = Inr r"
  shows "grows db (sr_db r)"
proof -
  from assms obtain p where "split_tries e j sid p 0 MAX_KEY_RETRIES db = Inr r" by (auto simp: splitWorkItem_def bind_sum_Inr)
  from split_tries_tx [OF this] obtain key db0 where same: "work_items db0 = work_items db" "tasks db0 = tasks db"
    and tx: "split_in_tx e j sid key p db0 = Inr r" by blast
  show ?thesis
  proof (rule split_in_tx_steps [OF tx])
    fix rank u db1 w db2 db3 db4
    assume st: "create_row e (placeholder e j key rank p) db0 = (u, db1)" "update_row e (wi_id (pl_story p)) (continued_changes p) None db1 = Inr (w, db2)"
      "update_each e (no_input\<lparr>u_parent := Some (Some j)\<rparr>) (pl_taskIds p) db2 = Inr db3"
      "update_each e (no_input\<lparr>u_parent := Some (Some j)\<rparr>) (pl_defectIds p) db3 = Inr db4"
    note 4 = grows_trans [OF grows_trans [OF grows_trans [OF grows_trans [OF grows_same [OF same] grows_create_row [OF st(1)]]
      grows_update_row [OF st(2)]] grows_update_each [OF st(3)]] grows_update_each [OF st(4)]]
    assume r: "sr_db r = reconcileParentScheduleState e (wi_id (pl_story p)) (split_log p j
       (write_item e j (\<lambda>w. w\<lparr>w_split := Some sid\<rparr>) (reparentToWorkItem (pl_testIds p) j (e_ws e) db4)))"
    have "grows db4 (reparentToWorkItem (pl_testIds p) j (e_ws e) db4)" by (simp add: reparentToWorkItem_def grows_same)
    also have "grows \<dots> (write_item e j (\<lambda>w. w\<lparr>w_split := Some sid\<rparr>) (reparentToWorkItem (pl_testIds p) j (e_ws e) db4))"
      by (rule grows_write_item) simp
    also have "grows \<dots> (split_log p j (write_item e j (\<lambda>w. w\<lparr>w_split := Some sid\<rparr>) (reparentToWorkItem (pl_testIds p) j (e_ws e) db4)))"
      by (simp add: grows_same)
    also have "grows \<dots> (sr_db r)" unfolding r by (rule grows_reconcile)
    finally show ?thesis by (rule grows_trans [OF 4])
  qed
qed

lemma grows_carry: "carryOverWorkItem e (\<lambda>_. db) i input old = Inr c \<Longrightarrow> grows db (cr_db c)"
  by (auto simp: carryOverWorkItem_def carry_in_tx_def bind_sum_Inr grows_log dest!: grows_update_row split: option.splits if_splits prod.splits)

lemma grows_step: "item_step db db' \<Longrightarrow> grows db db'"
proof (induction rule: item_step.induct)
  case (task_created e i p title assignee devOwner team estimate todo actual db w db')
  with createTask_create [OF task_created(1,3)] grows_create show ?case by blast
next
  case (updated e i u expected db w db')
  show ?case by (rule updateWorkItem_tx [OF updated], rule grows_update_in_tx, assumption) (blast intro: grows_trans grows_update_row)
qed (blast intro: grows_create grows_delete grows_split grows_carry grows_same)+

lemma grows_run: "item_run db db' \<Longrightarrow> grows db db'"
  by (induction rule: item_run.induct) (blast intro: grows_same grows_trans grows_step)+

text \<open>A row with the id has been written at least \<open>n\<close> times.\<close>

definition written :: "uuid \<Rightarrow> nat \<Rightarrow> work_db \<Rightarrow> bool" where
  "written i n db \<longleftrightarrow> (\<exists>w \<in> set (work_items db). wi_id w = i \<and> n \<le> w_version w) \<or> (\<exists>t \<in> set (tasks db). tk_id t = i \<and> n \<le> tk_version t)"

lemma written_grows: "written i n a \<Longrightarrow> grows a b \<Longrightarrow> written i n b"
  unfolding written_def grows_def by (metis order_trans)

lemma update_row_version:
  assumes "update_row e i u (Some n) db = Inr (w, db')"
  shows "written i (Suc n) db' \<and> (work_inv db \<longrightarrow> \<not> written i (Suc n) db)"
proof (cases "find (live_task i (e_ws e)) (tasks db)")
  case (Some t)
  then have v: "tk_version t = n" and db': "db' = write_task e i (task_moved u) (set_task u) db"
    using assms by (auto simp: update_row_def Let_def split: if_splits option.splits)
  note t = find_live_task [OF Some]
  have "(if task_moved u then iteration_from_parent (work_items db) (stamp_task e (Some t) (set_task u t))
      else stamp_task e (Some t) (set_task u t)) \<in> set (tasks db')" (is "?t \<in> _")
    using t by (force simp: db' write_task_def update_where_def Let_def)
  moreover have "tk_id ?t = i \<and> tk_version ?t = Suc n" using t v by simp
  ultimately have "\<exists>t' \<in> set (tasks db'). tk_id t' = i \<and> tk_version t' = Suc n" by blast
  moreover have "\<not> written i (Suc n) db" if "work_inv db"
    using t v same_task [OF that, of _ t] item_not_task [OF that, of _ t] unfolding written_def by (metis Suc_n_not_le_n)
  ultimately show ?thesis by (auto simp: written_def)
next
  case None
  then obtain r where r: "find (\<lambda>w. wi_id w = i \<and> wi_workspace w = e_ws e) (work_items db) = Some r"
    and v: "w_version r = n" and db': "db' = write_item e i (set_item u) db"
    using assms by (auto simp: update_row_def Let_def split: if_splits option.splits)
  note r' = find_Some_in [OF r]
  have "stamp_item e (Some r) (set_item u r) \<in> set (work_items db')"
    using r' by (force simp: db' write_item_def update_where_def Let_def)
  moreover have "wi_id (stamp_item e (Some r) (set_item u r)) = i \<and> w_version (stamp_item e (Some r) (set_item u r)) = Suc n"
    using r' v by simp
  ultimately have "\<exists>w' \<in> set (work_items db'). wi_id w' = i \<and> w_version w' = Suc n" by blast
  moreover have "\<not> written i (Suc n) db" if "work_inv db"
    using r' v same_item [OF that, of _ r] item_not_task [OF that, of r] unfolding written_def by (metis Suc_n_not_le_n)
  ultimately show ?thesis by (auto simp: written_def)
qed

lemma update_version:
  assumes "updateWorkItem e i u (Some n) db = Inr (w, db')"
  shows "written i (Suc n) db' \<and> (work_inv db \<longrightarrow> \<not> written i (Suc n) db)"
proof (rule updateWorkItem_tx [OF assms])
  fix item u'
  assume "WorkItems.findById db i (e_ws e) = Some item" and tx: "update_in_tx e item u' (Some n) db = Inr (w, db')"
  then have i: "wi_id item = i" using findById_id by blast
  show ?thesis
  proof (rule grows_update_in_tx [OF tx])
    fix u1 db1
    assume "update_row e (wi_id item) u1 (Some n) db = Inr (w, db1)" "grows db1 db'"
    with update_row_version [of e i u1 n db w db1] i written_grows show ?thesis by blast
  qed
qed

section \<open>What holds of every run\<close>

text \<open>C3: from the empty tables no sequence of requests can bring the tables out of step: ids are unique over both
  tables, every live task is in the sprint, the project and the workspace of its story or defect,
  only defects have a parent and it is a story of their project, the two state columns agree and an
  acceptance date is there exactly for accepted work.\<close>

theorem work_tables_sound:
  assumes "item_run db0 db" and "work_items db0 = []" and "tasks db0 = []"
  shows "distinct (map wi_id (work_items db) @ map tk_id (tasks db)) \<and>
    (\<forall>t \<in> set (tasks db). \<exists>p \<in> set (work_items db). wi_id p = tk_parent t \<and> wi_workspace p = tk_workspace t \<and>
       wi_project p = tk_project t \<and> (\<not> tk_deleted t \<longrightarrow> tk_iteration t = wi_iteration p)) \<and>
    (\<forall>w \<in> set (work_items db). w_flow w = wi_schedule w \<and> (w_accepted w \<noteq> None \<longleftrightarrow> isAcceptedScheduleState (wi_schedule w)) \<and>
       (\<forall>p. wi_parent w = Some p \<longrightarrow> wi_type w = Defect \<and>
          (\<exists>s \<in> set (work_items db). wi_id s = p \<and> wi_type s = Story \<and> wi_project s = wi_project w \<and> wi_workspace s = wi_workspace w)))"
proof -
  have inv: "work_inv db" using inv_item_run [OF assms(1)] assms(2,3) by (simp add: rows_inv_def)
  have "\<exists>s \<in> set (work_items db). wi_id s = p \<and> wi_type s = Story \<and> wi_project s = wi_project w \<and> wi_workspace s = wi_workspace w"
    if "(p, wi_workspace w, wi_project w, Story) \<in> ident ` set (work_items db)" for p w
    using that by (auto simp: ident_def)
  with inv show ?thesis by (fastforce simp: rows_inv_def item_ok_def task_ok_def)
qed

text \<open>C12: no lost update: once an update that named the version it had read has gone through, no later
  update of the same item that names that version goes through, whatever happens in between; in
  particular of two such updates one is refused.\<close>

theorem stale_update_refused:
  assumes "updateWorkItem e i u (Some n) db = Inr (w, db1)" and "item_run db1 db2" and "work_inv db"
  shows "updateWorkItem e' i u' (Some n) db2 \<noteq> Inr r"
proof
  assume r: "updateWorkItem e' i u' (Some n) db2 = Inr r"
  obtain w' db3 where "r = (w', db3)" by fastforce
  have "work_inv db1" by (rule inv_update [OF assms(1,3)])
  then have "work_inv db2" by (rule inv_item_run [OF assms(2)])
  moreover have "written i (Suc n) db2" using update_version [OF assms(1)] grows_run [OF assms(2)] written_grows by blast
  ultimately show False using update_version [of e' i u' n db2 w' db3] r \<open>r = (w', db3)\<close> by simp
qed

end
