(* ===== verification/WorkItemCases.thy ===== *)
theory WorkItemCases
  imports WorkItemRuns
begin

text \<open>
  The laws of the work items on a concrete database: one project with three sprints, a story in the
  first of them with a completed task, an open one, a defect and a test case; and the
  behaviours that are surprising enough to be stated on their own.
\<close>

section \<open>A concrete database\<close>

definition ex_env :: env where
  "ex_env = \<lparr>e_ws = ''w'', e_actor = ''u'',
     e_acc = \<lparr>roleRows = [], members = [\<lparr>wm_workspace = ''w'', wm_user = ''v'', wm_active = True\<rparr>],
        projectMembers = [\<lparr>pm_id = ''m'', pm_workspace = ''w'', pm_project = ''p'', pm_user = ''v'', pm_level = Some ''admin'', pm_active = True\<rparr>],
        projectTeams = [], teamMembers = []\<rparr>,
     e_eff = [], e_now = 7, e_today = ''2026-03-13''\<rparr>"

definition ex_item_row :: "uuid \<Rightarrow> WorkItemType \<Rightarrow> uuid option \<Rightarrow> ScheduleState \<Rightarrow> uuid option \<Rightarrow> WorkItem" where
  "ex_item_row i type parent s sprint =
     \<lparr>wi_id = i, wi_workspace = ''w'', wi_project = ''p'', wi_team = None, wi_type = type, wi_parent = parent, wi_schedule = s,
      wi_iteration = sprint, wi_deleted = False, w_key = i, w_title = ''Work'', w_status = ''st'', w_flow = s, w_priority = ''none'',
      w_assignee = None, w_reporter = None, w_devOwner = None, w_release = None, w_feature = None, w_foundIn = None,
      w_points = Some 8, w_estimate = None, w_todo = None, w_actual = None, w_blocked = False, w_blockedReason = None,
      w_defectState = None, w_rank = ''i'', w_accepted = None, w_start = Some ''2026-03-03'', w_end = None, w_target = None,
      w_split = None, w_version = 0\<rparr>"

definition ex_task :: "uuid \<Rightarrow> TaskState \<Rightarrow> task_row" where
  "ex_task i s =
     \<lparr>tk_id = i, tk_workspace = ''w'', tk_project = ''p'', tk_parent = ''S'', tk_key = i, tk_title = ''Do'', tk_state = s,
      tk_assignee = None, tk_devOwner = None, tk_team = None, tk_iteration = Some ''1'', tk_estimate = Some 3, tk_todo = Some 1,
      tk_actual = Some 2, tk_rank = ''i'', tk_start = None, tk_end = None, tk_version = 0, tk_deleted = False\<rparr>"

definition ex_db :: work_db where
  "ex_db =
     \<lparr>base = \<lparr>iterations = ex_sprints, projects = [\<lparr>p_id = ''p'', p_workspace = ''w'', p_archived = False, p_deleted = False\<rparr>],
        links = [], items = [], history = [], transitions = [], activity = []\<rparr>,
      work_items = [ex_item_row ''S'' Story None S_in_progress (Some ''1''), ex_item_row ''D'' Defect (Some ''S'') S_idea None],
      tasks = [ex_task ''T1'' T_completed, ex_task ''T2'' T_in_progress],
      tests = [\<lparr>tc_id = ''C'', tc_workspace = ''w'', tc_item = ''S'', tc_rank = ''i'', tc_deleted = False\<rparr>],
      statuses = [\<lparr>st_id = ''st'', st_project = ''p'', st_default = True\<rparr>], flows = [], releases = [], features = [],
      counters = (\<lambda>_ _. 0), notices = []\<rparr>"

lemma ex_db_inv: "work_inv ex_db"
  unfolding rows_inv_def ex_db_def by (simp add: ex_item_row_def ex_task_def item_ok_def task_ok_def ident_def isAcceptedScheduleState_def)

definition ex_split :: split_input where
  "ex_split = \<lparr>si_expectedSource = ''1'', si_target = ''2'', si_unfinishedTitle = ''[Unfinished] Work'', si_unfinishedPoints = Some 5,
     si_continuedTitle = ''[Continued] Work'', si_continuedPoints = Some 3, si_continuedRelease = None,
     si_continuedState = S_defined, si_tasks = [''T1''], si_defects = [''D''], si_tests = [''C'']\<rparr>"

section \<open>Requests on it\<close>

definition ex_carry :: carry_input where
  "ex_carry = \<lparr>ci_expectedSource = ''1'', ci_target = ''2'', ci_targetEndDate = ''2026-03-20''\<rparr>"

lemma ex_fresh: "''P'' \<notin> wi_id ` set (work_items ex_db) \<union> tk_id ` set (tasks ex_db)"
  by (simp add: ex_db_def ex_item_row_def ex_task_def)

text \<open>A request that names neither a team nor a state nor hours is written as it is.\<close>

lemma plain_update:
  assumes "updateWorkItem e i u x db = Inr r" "u_team u = None" "mirroredState u = None" "u_estimate u = None"
  obtains item where "WorkItems.findById db i (e_ws e) = Some item" "update_in_tx e item u x db = Inr r"
proof -
  have u: "u_schedule u = None" "u_flow u = None" using assms(3) by (auto simp: mirroredState_def split: option.splits)
  then have "mirror_state u = Inr u" using assms(3) by (simp add: mirror_state_def)
  moreover have "task_hours item u = u" for item using u assms(4) by (simp add: task_hours_def Let_def)
  ultimately show ?thesis using assms(1,2) that by (auto simp: updateWorkItem_def bind_sum_Inr getWorkItem_Inr)
qed

text \<open>Such an update of a task changes no work item and, with no new owner, tells nobody.\<close>

lemma newlyAssigned_task:
  assumes "u_assignee u = None" "w_devOwner w = None"
  shows "newlyAssigned u w item = []"
  using assms by (simp add: newlyAssigned_def List.map_filter_def present_def)

lemma log_fields_notices [simp]: "notices (log_fields i b fs db) = notices db"
  unfolding log_fields_def by (induction fs arbitrary: db) (simp_all add: log_entry_def)

lemma task_update:
  assumes up: "updateWorkItem e (tk_id t) u x db = Inr (w, db')" "u_team u = None" "mirroredState u = None" "u_estimate u = None"
      "u_assignee u = None"
    and inv: "work_inv db" and t: "t \<in> set (tasks db)" "live_task (tk_id t) (e_ws e) t"
  shows "work_items db' = work_items db \<and> notices db' = notices db \<and>
    (\<exists>t' \<in> set (tasks db'). tk_id t' = tk_id t \<and> tk_devOwner t' = set_if (u_devOwner u) (tk_devOwner t) \<and>
       tk_parent t' = (case u_parent u of Some (Some p) \<Rightarrow> p | _ \<Rightarrow> tk_parent t))"
proof -
  obtain item where "WorkItems.findById db (tk_id t) (e_ws e) = Some item" and tx: "update_in_tx e item u x db = Inr (w, db')"
    by (rule plain_update [OF up(1-4)])
  then have item: "item = mapTaskRow t" using findById_task [OF inv t] by simp
  from tx obtain u1 db1 where r: "rerank e item u db = Inr u1" "update_row e (tk_id t) (clearReasonOnUnblock u1) x db = Inr (w, db1)"
    and db': "db' = after_update e item u w db1"
    by (auto simp: update_in_tx_def bind_sum_Inr item)
  have u1: "u_devOwner u1 = u_devOwner u" "u_parent u1 = u_parent u"
    using r(1) by (auto simp: rerank_def bind_sum_Inr split: if_splits)
  have row: "find (live_task (tk_id t) (e_ws e)) (tasks db) = Some t"
    using t same_task [OF inv _ t(1)]
    by (cases "find (live_task (tk_id t) (e_ws e)) (tasks db)") (auto simp: find_None_iff live_task_def dest!: find_Some_in)
  let ?u = "clearReasonOnUnblock u1"
  have db1: "db1 = write_task e (tk_id t) (task_moved ?u) (set_task ?u) db" and w: "WorkItems.findById db1 (tk_id t) (e_ws e) = Some w"
    using r(2) row by (auto simp: update_row_def Let_def split: if_splits option.splits)
  have "find (live_item (tk_id t) (e_ws e)) (work_items db1) = None"
    using item_not_task [OF inv _ t(1)] by (auto simp: db1 find_None_iff live_item_def)
  with w have "w_devOwner w = None" by (auto simp: WorkItems.findById_def)
  then have quiet: "newlyAssigned u w other = []" for other using newlyAssigned_task up(5) by blast
  have "u_schedule u = None" using up(3) by (auto simp: mirroredState_def split: option.splits)
  then have db'1: "work_items db' = work_items db" "tasks db' = tasks db1" "notices db' = notices db"
    unfolding db' db1 after_update_def Let_def item quiet by (simp_all add: write_task_def)
  have "(if task_moved ?u then iteration_from_parent (work_items db) (stamp_task e (Some t) (set_task ?u t))
      else stamp_task e (Some t) (set_task ?u t)) \<in> set (tasks db')" (is "?t \<in> _")
    using t by (force simp: db'1 db1 write_task_def update_where_def Let_def live_task_def)
  moreover have "tk_id ?t = tk_id t \<and> tk_devOwner ?t = set_if (u_devOwner u) (tk_devOwner t) \<and>
      tk_parent ?t = (case u_parent u of Some (Some p) \<Rightarrow> p | _ \<Rightarrow> tk_parent t)"
    using u1 by (simp add: clearReasonOnUnblock_def stamp_task_def iteration_from_parent_def set_task_def Let_def)
  ultimately show ?thesis using db'1 by blast
qed

section \<open>What may surprise\<close>

text \<open>naming a dev owner on an existing task stores the person and tells nobody: the row the service
  compares has lost the field.\<close>

theorem task_dev_owner_unnotified:
  assumes "updateWorkItem e (tk_id t) (no_input\<lparr>u_devOwner := Some (Some v)\<rparr>) x db = Inr (w, db')" and "work_inv db"
    and "t \<in> set (tasks db)" and "live_task (tk_id t) (e_ws e) t"
  shows "(\<exists>t' \<in> set (tasks db'). tk_id t' = tk_id t \<and> tk_devOwner t' = Some v) \<and> notices db' = notices db"
  using task_update [OF assms(1) _ _ _ _ assms(2-4)] by (auto simp: no_input_def mirroredState_def)

text \<open>moving a task under another story or defect changes the state of neither: both keep the state their
  tasks called for before the move.\<close>

theorem moved_task_reconciles_nothing:
  assumes "updateWorkItem e (tk_id t) (no_input\<lparr>u_parent := Some (Some q)\<rparr>) x db = Inr (w, db')" and "work_inv db"
    and "t \<in> set (tasks db)" and "live_task (tk_id t) (e_ws e) t"
  shows "(\<exists>t' \<in> set (tasks db'). tk_id t' = tk_id t \<and> tk_parent t' = q) \<and> work_items db' = work_items db"
  using task_update [OF assms(1) _ _ _ _ assms(2-4)] by (auto simp: no_input_def mirroredState_def)

text \<open>Two defects created one after the other below the same story get the same rank (the rank is taken after the
  story's tasks, not after its defects), and nothing can be placed between them.\<close>

theorem sibling_defects_tie:
  assumes "createWorkItem e i pid Defect title opts db = Inr (w, db1)" and "createWorkItem e i' pid Defect title' opts' db1 = Inr (w', db2)"
    and "n_parent opts = Some p" and "n_parent opts' = Some p" and "p \<noteq> []"
  shows "w_rank w' = w_rank w \<and>
    between (Some (w_rank w)) (Some (w_rank w')) = Inl (Neighbours_Out_Of_Order (w_rank w) (w_rank w'))"
proof -
  have pr: "present (Some p)" using assms(5) by (simp add: present_def)
  obtain key st rank d where 1: "tasks d = tasks db" "between (findMaxRank db pid (n_parent opts) (e_ws e)) None = Inr rank"
    "(w, db1) = create_in_tx e (new_item e i pid Defect key title st rank opts) d" using createWorkItem_tx [OF assms(1)] by blast
  obtain key' st' rank' d' where 2: "between (findMaxRank db1 pid (n_parent opts') (e_ws e)) None = Inr rank'"
    "(w', db2) = create_in_tx e (new_item e i' pid Defect key' title' st' rank' opts') d'" using createWorkItem_tx [OF assms(2)] by blast
  have w: "w_rank w = rank" "w_rank w' = rank'" using 1(3) 2(2) by (simp_all add: create_in_tx_def create_row_def Let_def)
  have "tasks db1 = tasks db" using 1(1,3) by (simp add: create_in_tx_def create_row_def Let_def)
  then have "findMaxRank db1 pid (Some p) (e_ws e) = findMaxRank db pid (Some p) (e_ws e)"
    using pr by (simp add: findMaxRank_def tasks_of_def)
  with 1(2) 2(1) assms(3,4) have "rank' = rank" by simp
  with w show ?thesis by (simp add: between_out_of_order)
qed

section \<open>The laws on the concrete database\<close>

lemma case_Inr: "(case m of Inl _ \<Rightarrow> False | Inr r \<Rightarrow> Q r) \<Longrightarrow> \<exists>r. m = Inr r \<and> Q r"
  by (cases m) auto


theorem carryover_lands_witness:
  "\<exists>c. carryOverWorkItem ex_env (\<lambda>d. d) ''S'' ex_carry ex_db = Inr c \<and> work_inv (cr_db c) \<and>
     map tk_iteration (tasks (cr_db c)) = [Some ''2'', Some ''2''] \<and> mset (map cs_task (cr_snapshots c)) = {#''T1'', ''T2''#}"
proof -
  have "case carryOverWorkItem ex_env (\<lambda>d. d) ''S'' ex_carry ex_db of Inl _ \<Rightarrow> False
      | Inr c \<Rightarrow> map tk_iteration (tasks (cr_db c)) = [Some ''2'', Some ''2'']" by code_simp
  from case_Inr [OF this] obtain c where c: "carryOverWorkItem ex_env (\<lambda>d. d) ''S'' ex_carry ex_db = Inr c"
    "map tk_iteration (tasks (cr_db c)) = [Some ''2'', Some ''2'']" by (elim exE conjE) (rule that)
  have "tasks_of ex_db ''S'' ''w'' = [ex_task ''T1'' T_completed, ex_task ''T2'' T_in_progress]"
    by (simp add: tasks_of_def ex_db_def ex_task_def)
  then have "mset (map tk_id (tasks_of ex_db ''S'' (e_ws ex_env))) = {#''T1'', ''T2''#}" by (simp add: ex_env_def ex_task_def)
  with carryover_lands [OF c(1) ex_db_inv] c show ?thesis by auto
qed

theorem parent_follows_tasks_witness:
  "\<exists>w d. updateWorkItem ex_env ''T2'' (no_input\<lparr>u_schedule := Some S_completed\<rparr>) (Some 0) ex_db = Inr (w, d) \<and>
     follows d ''S'' ''w'' \<and> map wi_schedule (work_items d) = [S_completed, S_idea]"
proof -
  have "case updateWorkItem ex_env ''T2'' (no_input\<lparr>u_schedule := Some S_completed\<rparr>) (Some 0) ex_db of Inl _ \<Rightarrow> False
      | Inr (w, d) \<Rightarrow> map wi_schedule (work_items d) = [S_completed, S_idea]" by code_simp
  from case_Inr [OF this] obtain w d where u: "updateWorkItem ex_env ''T2'' (no_input\<lparr>u_schedule := Some S_completed\<rparr>) (Some 0) ex_db = Inr (w, d)"
    "map wi_schedule (work_items d) = [S_completed, S_idea]" by auto
  have "task_write ex_env ''S'' ex_db d"
  proof (rule task_write.moved_on)
    show "updateWorkItem ex_env (tk_id (ex_task ''T2'' T_in_progress)) (no_input\<lparr>u_schedule := Some S_completed\<rparr>) (Some 0) ex_db = Inr (w, d)"
      using u(1) by (simp add: ex_task_def)
  qed (simp_all add: ex_db_def ex_task_def ex_env_def live_task_def mirroredState_def)
  from parent_follows_tasks [OF this ex_db_inv] u show ?thesis by (simp add: ex_env_def)
qed

theorem stale_update_refused_witness:
  "\<exists>w d. updateWorkItem ex_env ''T2'' (no_input\<lparr>u_todo := Some (Some 2)\<rparr>) (Some 0) ex_db = Inr (w, d) \<and>
     updateWorkItem ex_env ''T2'' (no_input\<lparr>u_actual := Some (Some 3)\<rparr>) (Some 0) d = Inl (PreconditionFailed ''WORK_ITEM_STALE'')"
proof -
  have "case updateWorkItem ex_env ''T2'' (no_input\<lparr>u_todo := Some (Some 2)\<rparr>) (Some 0) ex_db of Inl _ \<Rightarrow> False
      | Inr (w, d) \<Rightarrow> case updateWorkItem ex_env ''T2'' (no_input\<lparr>u_actual := Some (Some 3)\<rparr>) (Some 0) d of
          Inl err \<Rightarrow> err = PreconditionFailed ''WORK_ITEM_STALE'' | Inr _ \<Rightarrow> True" by code_simp
  from case_Inr [OF this] obtain w d where u: "updateWorkItem ex_env ''T2'' (no_input\<lparr>u_todo := Some (Some 2)\<rparr>) (Some 0) ex_db = Inr (w, d)"
    and v: "case updateWorkItem ex_env ''T2'' (no_input\<lparr>u_actual := Some (Some 3)\<rparr>) (Some 0) d of
          Inl err \<Rightarrow> err = PreconditionFailed ''WORK_ITEM_STALE'' | Inr _ \<Rightarrow> True" by auto
  from stale_update_refused [OF u item_run.none ex_db_inv] u v show ?thesis
    by (cases "updateWorkItem ex_env ''T2'' (no_input\<lparr>u_actual := Some (Some 3)\<rparr>) (Some 0) d") auto
qed

theorem task_dev_owner_unnotified_witness:
  "\<exists>w d. updateWorkItem ex_env ''T2'' (no_input\<lparr>u_devOwner := Some (Some ''v'')\<rparr>) None ex_db = Inr (w, d) \<and> notices d = []"
proof -
  have "case updateWorkItem ex_env ''T2'' (no_input\<lparr>u_devOwner := Some (Some ''v'')\<rparr>) None ex_db of Inl _ \<Rightarrow> False | Inr _ \<Rightarrow> True"
    by code_simp
  then obtain w d where u: "updateWorkItem ex_env (tk_id (ex_task ''T2'' T_in_progress)) (no_input\<lparr>u_devOwner := Some (Some ''v'')\<rparr>) None ex_db = Inr (w, d)"
    by (auto simp: ex_task_def dest!: case_Inr)
  have "notices d = notices ex_db"
    using task_dev_owner_unnotified [OF u ex_db_inv] by (simp add: ex_db_def ex_task_def ex_env_def live_task_def)
  then show ?thesis using u by (auto simp: ex_task_def ex_db_def)
qed

text \<open>For a story the same request does notify.\<close>

lemma story_dev_owner_notified:
  "\<exists>w d. updateWorkItem ex_env ''S'' (no_input\<lparr>u_devOwner := Some (Some ''v'')\<rparr>) None ex_db = Inr (w, d) \<and> notices d = [(''S'', ''v'')]"
proof -
  have "case updateWorkItem ex_env ''S'' (no_input\<lparr>u_devOwner := Some (Some ''v'')\<rparr>) None ex_db of Inl _ \<Rightarrow> False
      | Inr (_, d) \<Rightarrow> notices d = [(''S'', ''v'')]" by code_simp
  from case_Inr [OF this] show ?thesis by auto
qed

theorem moved_task_reconciles_nothing_witness:
  "\<exists>w d. updateWorkItem ex_env ''T2'' (no_input\<lparr>u_parent := Some (Some ''D'')\<rparr>) None ex_db = Inr (w, d) \<and>
     work_items d = work_items ex_db \<and> \<not> follows d ''S'' ''w'' \<and> \<not> follows d ''D'' ''w''"
proof -
  have "case updateWorkItem ex_env ''T2'' (no_input\<lparr>u_parent := Some (Some ''D'')\<rparr>) None ex_db of Inl _ \<Rightarrow> False
      | Inr (w, d) \<Rightarrow> \<not> follows d ''S'' ''w'' \<and> \<not> follows d ''D'' ''w''"
    by code_simp
  then obtain w d where u: "updateWorkItem ex_env (tk_id (ex_task ''T2'' T_in_progress)) (no_input\<lparr>u_parent := Some (Some ''D'')\<rparr>) None ex_db = Inr (w, d)"
    "\<not> follows d ''S'' ''w'' \<and> \<not> follows d ''D'' ''w''"
    by (auto simp: ex_task_def dest!: case_Inr)
  have "work_items d = work_items ex_db"
    using moved_task_reconciles_nothing [OF u(1) ex_db_inv] by (simp add: ex_db_def ex_task_def ex_env_def live_task_def)
  then show ?thesis using u by (auto simp: ex_task_def)
qed

definition ex_under :: item_opts where
  "ex_under = (task_opts None None None None None None)\<lparr>n_parent := Some ''S''\<rparr>"

theorem sibling_defects_tie_witness:
  "\<exists>w w' d d'. createWorkItem ex_env ''D2'' ''p'' Defect ''One'' ex_under ex_db = Inr (w, d) \<and>
     createWorkItem ex_env ''D3'' ''p'' Defect ''Two'' ex_under d = Inr (w', d') \<and> w_rank w = ''r'' \<and> w_rank w' = ''r''"
proof -
  have "case createWorkItem ex_env ''D2'' ''p'' Defect ''One'' ex_under ex_db of Inl _ \<Rightarrow> False
      | Inr (w, d) \<Rightarrow> w_rank w = ''r'' \<and> (case createWorkItem ex_env ''D3'' ''p'' Defect ''Two'' ex_under d of Inl _ \<Rightarrow> False | Inr _ \<Rightarrow> True)"
    by code_simp
  then obtain w d w' d' where c: "createWorkItem ex_env ''D2'' ''p'' Defect ''One'' ex_under ex_db = Inr (w, d)" "w_rank w = ''r''"
    "createWorkItem ex_env ''D3'' ''p'' Defect ''Two'' ex_under d = Inr (w', d')"
    by (auto dest!: case_Inr)
  from sibling_defects_tie [OF c(1,3), of "''S''"] c show ?thesis by (auto simp: ex_under_def)
qed

definition ex_empty :: work_db where
  "ex_empty = ex_db\<lparr>work_items := [], tasks := []\<rparr>"

theorem work_tables_sound_witness:
  "\<exists>db. item_run ex_empty db \<and> map wi_schedule (work_items db) = [S_defined] \<and> map tk_id (tasks db) = [''T''] \<and>
     distinct (map wi_id (work_items db) @ map tk_id (tasks db))"
proof -
  have "case createWorkItem ex_env ''S'' ''p'' Story ''Work'' (ex_under\<lparr>n_parent := None\<rparr>) ex_empty of Inl _ \<Rightarrow> False
      | Inr (w, d) \<Rightarrow> map wi_id (work_items d) = [''S''] \<and> tasks d = [] \<and> (case createTask ex_env ''T'' ''S'' ''Do'' None None None None None None d of Inl _ \<Rightarrow> False
          | Inr (w', d') \<Rightarrow> map wi_schedule (work_items d') = [S_defined] \<and> map tk_id (tasks d') = [''T''])"
    by code_simp
  then obtain w d w' d' where c: "createWorkItem ex_env ''S'' ''p'' Story ''Work'' (ex_under\<lparr>n_parent := None\<rparr>) ex_empty = Inr (w, d)"
    "map wi_id (work_items d) = [''S'']" "tasks d = []"
    "createTask ex_env ''T'' ''S'' ''Do'' None None None None None None d = Inr (w', d')"
    "map wi_schedule (work_items d') = [S_defined]" "map tk_id (tasks d') = [''T'']"
    by (auto dest!: case_Inr)
  have e: "work_items ex_empty = []" "tasks ex_empty = []" by (simp_all add: ex_empty_def)
  have "item_run ex_empty d"
    by (rule item_run.more [OF item_run.none item_step.created [OF c(1)]]) (simp_all add: e)
  moreover have "''T'' \<notin> wi_id ` set (work_items d) \<union> tk_id ` set (tasks d)"
    using c(2,3) by (auto simp: map_eq_Cons_conv)
  ultimately have "item_run ex_empty d'" by (rule item_run.more [OF _ item_step.task_created [OF c(4)]]) simp
  from this c(5,6) work_tables_sound [OF this e, THEN conjunct1] show ?thesis by (intro exI [of _ d'] conjI)
qed

end
