(* ===== verification/CapacityLaws.thy ===== *)
theory CapacityLaws
  imports CapacityPlans
begin

text \<open>
  What the allocation tables keep. \<open>rows_sound\<close> is what the schema enforces; \<open>owned\<close> (a Feature with
  team rows on a plan has a primary one) and \<open>on_plan\<close> (a row's team is a team of the plan) are kept by the
  handlers alone.
\<close>

section \<open>Sound rows\<close>

definition al_key :: "allocation_row \<Rightarrow> uuid \<times> uuid" where
  "al_key a = (al_plan a, al_item a)"

definition money :: "num \<Rightarrow> bool" where
  "money v \<longleftrightarrow> 0 \<le> v \<and> v < 10 ^ 8 \<and> of_int (math_round (v * 100)) = v * 100"

definition row_ok :: "allocation_row \<Rightarrow> bool" where
  "row_ok a \<longleftrightarrow> (al_primary a \<longrightarrow> al_team a \<noteq> None) \<and> money (al_value a)"

definition rows_sound :: "allocation_row list \<Rightarrow> bool" where
  "rows_sound rows \<longleftrightarrow>
     distinct (map al_id rows) \<and> (\<forall>a\<in>set rows. row_ok a) \<and>
     (\<forall>a\<in>set rows. \<forall>b\<in>set rows. al_id a \<noteq> al_id b \<longrightarrow> \<not> allocation_clash a b)"

definition owned_key :: "allocation_row list \<Rightarrow> uuid \<times> uuid \<Rightarrow> bool" where
  "owned_key rows k \<longleftrightarrow>
     ((\<exists>a\<in>set rows. al_key a = k \<and> al_team a \<noteq> None) \<longrightarrow> (\<exists>b\<in>set rows. al_key b = k \<and> al_primary b))"

definition owned :: "allocation_row list \<Rightarrow> bool" where
  "owned rows \<longleftrightarrow> (\<forall>k. owned_key rows k)"

definition on_plan :: "plan_team_row list \<Rightarrow> allocation_row \<Rightarrow> bool" where
  "on_plan teams a \<longleftrightarrow> (\<forall>t. al_team a = Some t \<longrightarrow> (\<exists>c\<in>set teams. ct_plan c = al_plan a \<and> ct_team c = t))"

definition plans_sound :: "plan_row list \<Rightarrow> bool" where
  "plans_sound plans \<longleftrightarrow>
     distinct (map cp_id plans) \<and> distinct (map (\<lambda>p. (cp_project p, cp_release p)) plans) \<and>
     distinct (map (\<lambda>p. (cp_project p, cp_key p)) plans)"

definition cap_inv :: "cap_db \<Rightarrow> bool" where
  "cap_inv db \<longleftrightarrow>
     plans_sound (cd_plans db) \<and> distinct (map (\<lambda>t. (ct_plan t, ct_team t)) (cd_planTeams db)) \<and>
     rows_sound (cd_allocations db) \<and> owned (cd_allocations db) \<and>
     (\<forall>a\<in>set (cd_allocations db). on_plan (cd_planTeams db) a)"

text \<open>The rows of one Feature on one plan.\<close>

definition rows_of :: "uuid \<times> uuid \<Rightarrow> allocation_row list \<Rightarrow> allocation_row list" where
  "rows_of k rows = filter (\<lambda>a. al_key a = k) rows"

definition demand :: "uuid \<times> uuid \<Rightarrow> allocation_row list \<Rightarrow> num" where
  "demand k rows = sum_list (map al_value (rows_of k rows))"

lemma set_rows_of: "a \<in> set (rows_of k rows) \<longleftrightarrow> a \<in> set rows \<and> al_key a = k"
  by (auto simp: rows_of_def)

lemma al_key_eq: "al_key a = al_key b \<longleftrightarrow> al_plan a = al_plan b \<and> al_item a = al_item b"
  by (auto simp: al_key_def)

lemma clash_key: "allocation_clash a b \<longleftrightarrow> al_key a = al_key b \<and> (al_team a = al_team b \<or> al_primary a \<and> al_primary b)"
  by (auto simp: allocation_clash_def al_key_def)

lemma clash_sym: "allocation_clash a b \<longleftrightarrow> allocation_clash b a"
  by (auto simp: allocation_clash_def)

lemma rows_soundI:
  assumes "distinct (map al_id rows)" "\<And>a. a \<in> set rows \<Longrightarrow> row_ok a"
    and "\<And>a b. a \<in> set rows \<Longrightarrow> b \<in> set rows \<Longrightarrow> al_id a \<noteq> al_id b \<Longrightarrow> \<not> allocation_clash a b"
  shows "rows_sound rows"
  using assms unfolding rows_sound_def by blast

lemma sound_ids: "rows_sound rows \<Longrightarrow> distinct (map al_id rows)"
  by (simp add: rows_sound_def)

lemma sound_row: "rows_sound rows \<Longrightarrow> a \<in> set rows \<Longrightarrow> row_ok a"
  by (simp add: rows_sound_def)

lemma sound_clash: "rows_sound rows \<Longrightarrow> a \<in> set rows \<Longrightarrow> b \<in> set rows \<Longrightarrow> al_id a \<noteq> al_id b \<Longrightarrow> \<not> allocation_clash a b"
  by (simp add: rows_sound_def)

lemma sound_id: "rows_sound rows \<Longrightarrow> a \<in> set rows \<Longrightarrow> b \<in> set rows \<Longrightarrow> al_id a = al_id b \<Longrightarrow> a = b"
  by (auto simp: rows_sound_def distinct_map dest: inj_onD)

text \<open>One row per team, one parked row and one primary row per Feature and plan.\<close>

lemma sound_team:
  "rows_sound rows \<Longrightarrow> a \<in> set rows \<Longrightarrow> b \<in> set rows \<Longrightarrow> al_key a = al_key b \<Longrightarrow> al_team a = al_team b \<Longrightarrow> a = b"
  by (metis clash_key rows_sound_def sound_id)

lemma sound_primary:
  "rows_sound rows \<Longrightarrow> a \<in> set rows \<Longrightarrow> b \<in> set rows \<Longrightarrow> al_key a = al_key b \<Longrightarrow> al_primary a \<Longrightarrow> al_primary b \<Longrightarrow> a = b"
  by (metis clash_key rows_sound_def sound_id)

section \<open>Statements\<close>

lemma numeric_10_2_money: "numeric_10_2 x = Inr v \<Longrightarrow> 0 \<le> v \<Longrightarrow> money v"
proof -
  assume v: "numeric_10_2 x = Inr v" "0 \<le> v"
  then have "v * 100 = of_int (math_round (x * 100))" by (auto simp: numeric_10_2_def Let_def split: if_splits)
  then have "of_int (math_round (v * 100)) = v * 100" by (metis math_round_of_int)
  with v show ?thesis by (auto simp: numeric_10_2_def money_def Let_def split: if_splits)
qed

lemma numeric_money: "money v \<Longrightarrow> numeric_10_2 v = Inr v"
  by (auto simp: numeric_10_2_def money_def Let_def)

lemma stored_row_Inr:
  assumes "stored_row r others = Inr r'"
  obtains v where "r' = r\<lparr>al_value := v\<rparr>" "row_ok r'" "numeric_10_2 (al_value r) = Inr v" "\<forall>b\<in>set others. \<not> allocation_clash r' b"
proof -
  from assms obtain v where v: "numeric_10_2 (al_value r) = Inr v" "\<not> (v < 0 \<or> al_primary r \<and> al_team r = None)"
    "\<not> (\<exists>b \<in> set others. allocation_clash r b)" "r' = r\<lparr>al_value := v\<rparr>"
    by (auto simp: stored_row_def bind_sum_Inr split: if_splits)
  moreover have "row_ok r'" using v numeric_10_2_money [OF v(1)] by (auto simp: row_ok_def)
  ultimately show ?thesis by (intro that [of v]) (auto simp: allocation_clash_def)
qed

lemma stored_row_same: "stored_row r others = Inr r' \<Longrightarrow> money (al_value r) \<Longrightarrow> r' = r"
  by (auto elim!: stored_row_Inr simp: numeric_money)

lemma createAllocation_Inr:
  assumes "createAllocation r rows = Inr rows'" "rows_sound rows"
  obtains r' v where "rows' = rows @ [r']" "r' = r\<lparr>al_value := v\<rparr>" "rows_sound rows'" "row_ok r'" "numeric_10_2 (al_value r) = Inr v"
proof -
  from assms obtain r' where r': "al_id r \<notin> al_id ` set rows" "stored_row r rows = Inr r'" "rows' = rows @ [r']"
    by (auto simp: createAllocation_def bind_sum_Inr split: if_splits)
  from r'(2) obtain v where v: "r' = r\<lparr>al_value := v\<rparr>" "row_ok r'" "numeric_10_2 (al_value r) = Inr v"
    "\<forall>b\<in>set rows. \<not> allocation_clash r' b" by (rule stored_row_Inr)
  have "rows_sound rows'" using assms(2) r' v clash_sym by (auto simp: rows_sound_def)
  show ?thesis by (rule that [OF r'(3) v(1) \<open>rows_sound rows'\<close> v(2,3)])
qed

lemma updateAllocation_Inr:
  assumes "updateAllocation i f rows = Inr rows'" "rows_sound rows" "\<And>a. al_id (f a) = al_id a"
  obtains a a' v where "a \<in> set rows" "al_id a = i" "a' = (f a)\<lparr>al_value := v\<rparr>" "numeric_10_2 (al_value (f a)) = Inr v"
    "rows' = map (\<lambda>b. if b = a then a' else b) rows" "rows_sound rows'" "row_ok a'"
proof -
  from assms(1) obtain a a' where a: "find (\<lambda>a. al_id a = i) rows = Some a"
    "stored_row (f a) (filter (\<lambda>b. al_id b \<noteq> i) rows) = Inr a'"
    "rows' = update_where (\<lambda>b. al_id b = i) (\<lambda>_. a') rows"
    unfolding updateAllocation_def by (auto simp: bind_sum_Inr split: option.splits)
  then have in_rows: "a \<in> set rows" "al_id a = i" by (auto simp: find_Some_iff)
  from a(2) obtain v where v: "a' = (f a)\<lparr>al_value := v\<rparr>" "row_ok a'" "numeric_10_2 (al_value (f a)) = Inr v"
    "\<forall>b\<in>set (filter (\<lambda>b. al_id b \<noteq> i) rows). \<not> allocation_clash a' b" by (rule stored_row_Inr)
  have rows': "rows' = map (\<lambda>b. if b = a then a' else b) rows"
  proof -
    have "al_id b = i \<longleftrightarrow> b = a" if "b \<in> set rows" for b using sound_id [OF assms(2) that in_rows(1)] in_rows(2) by auto
    then show ?thesis unfolding a(3) update_where_def by (intro map_cong) simp_all
  qed
  have id': "al_id a' = i" using v(1) in_rows assms(3) by simp
  have ids: "map al_id rows' = map al_id rows" using rows' id' in_rows by simp
  have free: "\<not> allocation_clash a' b" if "b \<in> set rows" "b \<noteq> a" for b
    using v(4) that sound_id [OF assms(2) _ in_rows(1)] in_rows(2) by auto
  have "rows_sound rows'"
  proof (rule rows_soundI)
    show "distinct (map al_id rows')" using ids sound_ids [OF assms(2)] by simp
    show "row_ok x" if "x \<in> set rows'" for x using that rows' v(2) sound_row [OF assms(2)] by (auto split: if_splits)
    show "\<not> allocation_clash x y" if xy: "x \<in> set rows'" "y \<in> set rows'" "al_id x \<noteq> al_id y" for x y
    proof -
      from xy(1,2) rows' consider "x = a'" "y = a'" | "x = a'" "y \<in> set rows" "y \<noteq> a" | "y = a'" "x \<in> set rows" "x \<noteq> a"
        | "x \<in> set rows" "y \<in> set rows" by (auto split: if_splits)
      then show ?thesis using free clash_sym [of x y] sound_clash [OF assms(2)] xy(3) by cases auto
    qed
  qed
  then show ?thesis by (rule that [OF in_rows v(1,3) rows' _ v(2)])
qed

lemma deleteAllocation_sound: "rows_sound rows \<Longrightarrow> rows_sound (deleteAllocation i rows)"
  by (auto simp: rows_sound_def deleteAllocation_def intro: distinct_map_filter)

text \<open>A rewriting of the rows that takes flags away keeps them sound.\<close>

lemma rows_sound_weaken:
  assumes "rows_sound rows" "\<And>a. al_id (g a) = al_id a" "\<And>a. al_key (g a) = al_key a" "\<And>a. al_team (g a) = al_team a"
    "\<And>a. al_value (g a) = al_value a" "\<And>a. al_primary (g a) \<Longrightarrow> al_primary a"
  shows "rows_sound (map g rows)"
proof -
  have "map al_id (map g rows) = map al_id rows" using assms(2) by simp
  then have "distinct (map al_id (map g rows))" using sound_ids [OF assms(1)] by (simp only:)
  moreover have "row_ok (g a)" if "a \<in> set rows" for a using assms that by (auto simp: rows_sound_def row_ok_def)
  moreover have "\<not> allocation_clash (g a) (g b)" if "a \<in> set rows" "b \<in> set rows" "al_id (g a) \<noteq> al_id (g b)" for a b
    using that assms unfolding rows_sound_def clash_key by metis
  ultimately show ?thesis by (intro rows_soundI) auto
qed

lemma clearPrimary_sound: "rows_sound rows \<Longrightarrow> rows_sound (clearPrimaryAllocations p i rows)"
  unfolding clearPrimaryAllocations_def update_where_def
  by (rule rows_sound_weaken) (auto simp: al_key_def split: if_splits)

section \<open>Feature by Feature\<close>

lemma owned_key_cong: "rows_of k rows = rows_of k rows' \<Longrightarrow> owned_key rows k \<longleftrightarrow> owned_key rows' k"
proof -
  assume "rows_of k rows = rows_of k rows'"
  then have "(a \<in> set rows \<and> al_key a = k) = (a \<in> set rows' \<and> al_key a = k)" for a by (metis set_rows_of)
  then show ?thesis unfolding owned_key_def by blast
qed

text \<open>What a change of the flags cannot touch.\<close>

definition shape :: "allocation_row \<Rightarrow> uuid \<times> (uuid \<times> uuid) \<times> uuid option \<times> num \<times> CapacityAllocationSource" where
  "shape a = (al_id a, al_key a, al_team a, al_value a, al_source a)"

lemma shape_simps: "shape a = shape b \<longleftrightarrow> al_id a = al_id b \<and> al_key a = al_key b \<and> al_team a = al_team b \<and> al_value a = al_value b \<and> al_source a = al_source b"
  by (auto simp: shape_def)

lemma demand_shape: "map shape rows = map shape rows' \<Longrightarrow> demand k rows = demand k rows'"
proof -
  have "demand k xs = sum_list (map (\<lambda>x. fst (snd (snd (snd x)))) (filter (\<lambda>x. fst (snd x) = k) (map shape xs)))" for xs
    by (induction xs) (simp_all add: demand_def rows_of_def shape_def)
  then show "map shape rows = map shape rows' \<Longrightarrow> demand k rows = demand k rows'" by simp
qed

lemma shape_image: "map shape rows = map shape rows' \<Longrightarrow> a \<in> set rows \<Longrightarrow> \<exists>b\<in>set rows'. shape b = shape a"
proof -
  assume eq: "map shape rows = map shape rows'" and "a \<in> set rows"
  then have "shape a \<in> set (map shape rows')" unfolding eq [symmetric] by simp
  then show ?thesis by force
qed

lemma set_replace: "a \<in> set rows \<Longrightarrow> set (map (\<lambda>b. if b = a then a' else b) rows) = insert a' (set rows - {a})"
  by auto

lemma rows_of_replace:
  assumes "al_key a' = al_key a" "k \<noteq> al_key a"
  shows "rows_of k (map (\<lambda>b. if b = a then a' else b) rows) = rows_of k rows"
  using assms by (induction rows) (auto simp: rows_of_def)

lemma rows_of_append: "rows_of k (xs @ ys) = rows_of k xs @ rows_of k ys"
  by (simp add: rows_of_def)

lemma rows_of_delete:
  assumes "rows_sound rows" "a \<in> set rows" "al_id a = i" "k \<noteq> al_key a"
  shows "rows_of k (deleteAllocation i rows) = rows_of k rows"
proof -
  have "al_id b \<noteq> i" if "b \<in> set rows" "al_key b = k" for b using sound_id [OF assms(1) that(1) assms(2)] assms(3,4) that(2) by auto
  then show ?thesis unfolding rows_of_def deleteAllocation_def filter_filter by (intro filter_cong) auto
qed

lemma set_delete: "rows_sound rows \<Longrightarrow> a \<in> set rows \<Longrightarrow> al_id a = i \<Longrightarrow> set (deleteAllocation i rows) = set rows - {a}"
proof -
  assume s: "rows_sound rows" "a \<in> set rows" "al_id a = i"
  have "al_id b = i \<longleftrightarrow> b = a" if "b \<in> set rows" for b using sound_id [OF s(1) that s(2)] s(3) by auto
  then show ?thesis by (auto simp: deleteAllocation_def)
qed

lemma js_sort_Nil: "js_sort c xs = [] \<longleftrightarrow> xs = []"
  by (metis length_js_sort length_0_conv)

lemma oldestTeam_None: "oldestTeamAllocation p i rows = None \<Longrightarrow> a \<in> set rows \<Longrightarrow> al_key a = (p, i) \<Longrightarrow> al_team a = None"
proof -
  assume none: "oldestTeamAllocation p i rows = None" and a: "a \<in> set rows" "al_key a = (p, i)"
  from none have "js_sort oldest_first (filter (\<lambda>a. al_plan a = p \<and> al_item a = i \<and> al_team a \<noteq> None) rows) = []"
    unfolding oldestTeamAllocation_def by (simp split: list.splits)
  then have "filter (\<lambda>a. al_plan a = p \<and> al_item a = i \<and> al_team a \<noteq> None) rows = []" unfolding js_sort_Nil .
  with a show ?thesis unfolding filter_empty_conv al_key_def by blast
qed

lemma oldestTeam_Some:
  assumes "oldestTeamAllocation p i rows = Some x"
  obtains a where "a \<in> set rows" "al_key a = (p, i)" "al_team a \<noteq> None" "al_id a = x"
proof -
  from assms obtain a as where s: "js_sort oldest_first (filter (\<lambda>a. al_plan a = p \<and> al_item a = i \<and> al_team a \<noteq> None) rows) = a # as"
    "al_id a = x" unfolding oldestTeamAllocation_def by (simp split: list.splits)
  then have "a \<in> set (js_sort oldest_first (filter (\<lambda>a. al_plan a = p \<and> al_item a = i \<and> al_team a \<noteq> None) rows))" by simp
  with s(2) show ?thesis by (intro that [of a]) (auto simp: al_key_def)
qed

lemma promote_Inr:
  assumes "promote p i rows = Inr rows'" and sound: "rows_sound rows"
  shows "rows_sound rows' \<and> map shape rows' = map shape rows \<and> owned_key rows' (p, i) \<and>
    (\<forall>k. k \<noteq> (p, i) \<longrightarrow> rows_of k rows' = rows_of k rows)"
proof (cases "oldestTeamAllocation p i rows")
  case None
  with assms have "rows' = rows" by (simp add: promote_def)
  with sound oldestTeam_None [OF None] show ?thesis by (auto simp: owned_key_def)
next
  case (Some x)
  then obtain c where c: "c \<in> set rows" "al_key c = (p, i)" "al_id c = x" by (rule oldestTeam_Some)
  from assms Some have upd: "updateAllocation x (\<lambda>a. a\<lparr>al_primary := True\<rparr>) rows = Inr rows'" by (simp add: promote_def)
  obtain a a' v where a: "a \<in> set rows" "al_id a = x"
    "a' = a\<lparr>al_primary := True, al_value := v\<rparr>" "numeric_10_2 (al_value a) = Inr v"
    "rows' = map (\<lambda>b. if b = a then a' else b) rows" "rows_sound rows'"
    by (rule updateAllocation_Inr [OF upd sound]) auto
  have "c = a" using sound_id [OF sound c(1) a(1)] a(2) c(3) by simp
  have "v = al_value a" using a(4) numeric_money sound_row [OF sound a(1)] by (simp add: row_ok_def)
  then have "shape a' = shape a" "al_key a' = al_key a" "al_primary a'" using a(3) by (auto simp: shape_def al_key_def)
  moreover have "a' \<in> set rows'" using a by (simp add: set_replace)
  ultimately show ?thesis using a c(2) \<open>c = a\<close> rows_of_replace [of a' a] by (auto simp: owned_key_def)
qed

lemma owned_by_key: "owned rows \<Longrightarrow> (\<And>k. k \<noteq> k0 \<Longrightarrow> rows_of k rows' = rows_of k rows) \<Longrightarrow> owned_key rows' k0 \<Longrightarrow> owned rows'"
  unfolding owned_def by (metis owned_key_cong)

end
