(* ===== verification/CapacityRuns.thy ===== *)
theory CapacityRuns
  imports CapacityLaws
begin

text \<open>
  What each handler of the allocations does to the rows: every one keeps them sound, owned and on the teams of
  their plan; removing a team or moving a Feature keeps its demand.
\<close>

section \<open>The handlers of the allocations\<close>

text \<open>What a change of the rows of one plan keeps.\<close>

definition alloc_ok :: "plan_team_row list \<Rightarrow> allocation_row list \<Rightarrow> bool" where
  "alloc_ok teams rows \<longleftrightarrow> rows_sound rows \<and> owned rows \<and> (\<forall>a\<in>set rows. on_plan teams a)"

lemma planning_Inr:
  "planning e i db f = Inr x \<Longrightarrow> \<exists>plan. requireDraft e db i = Inr plan \<and> hasProjectPermission (e_eff e) (cp_project plan) ''capacity:manage'' \<and> f plan = Inr x"
  by (auto simp: planning_def bind_sum_Inr assertProjectPermission_def split: if_splits)

lemma requireDraft_Inr:
  "requireDraft e db i = Inr plan \<Longrightarrow> plan \<in> set (cd_plans db) \<and> cp_id plan = i \<and> cp_workspace plan = e_ws e \<and> cp_status plan = Draft"
  by (auto simp: requireDraft_def bind_sum_Inr findPlan_def find_Some_iff split: option.splits if_splits)

lemma find_rows_for:
  "findAllocationFor p i t rows = Some a \<Longrightarrow> a \<in> set rows \<and> al_key a = (p, i) \<and> al_team a = t"
  by (auto simp: findAllocationFor_def find_Some_iff al_key_def)

lemma find_rows_for_None: "findAllocationFor p i t rows = None \<longleftrightarrow> (\<forall>a\<in>set rows. al_key a = (p, i) \<longrightarrow> al_team a \<noteq> t)"
  by (auto simp: findAllocationFor_def find_None_iff al_key_def)

lemma hasPrimary_key: "hasPrimaryAllocation p i rows \<longleftrightarrow> (\<exists>a\<in>set rows. al_key a = (p, i) \<and> al_primary a)"
  by (auto simp: hasPrimaryAllocation_def al_key_def)

text \<open>An update of one row of a Feature that keeps its key.\<close>

lemma update_keyed:
  assumes "updateAllocation i f rows = Inr rows'" "rows_sound rows" "\<And>a. al_id (f a) = al_id a" "\<And>a. al_key (f a) = al_key a"
    and "a \<in> set rows" "al_id a = i"
  obtains a' v where "a' = (f a)\<lparr>al_value := v\<rparr>" "numeric_10_2 (al_value (f a)) = Inr v" "row_ok a'" "al_key a' = al_key a"
    "set rows' = insert a' (set rows - {a})" "rows_sound rows'" "\<And>k. k \<noteq> al_key a \<Longrightarrow> rows_of k rows' = rows_of k rows"
    "rows' = map (\<lambda>b. if b = a then a' else b) rows"
proof -
  obtain b b' v where b: "b \<in> set rows" "al_id b = i" "b' = (f b)\<lparr>al_value := v\<rparr>" "numeric_10_2 (al_value (f b)) = Inr v"
    "rows' = map (\<lambda>c. if c = b then b' else c) rows" "rows_sound rows'" "row_ok b'"
    by (rule updateAllocation_Inr [OF assms(1-3)])
  have ba: "b = a" using sound_id [OF assms(2) b(1) assms(5)] b(2) assms(6) by simp
  have key: "al_key b' = al_key a" using b(3) ba assms(4) by (simp add: al_key_def)
  show ?thesis
    by (rule that [of b' v]) (use b ba key rows_of_replace [of b' a] set_replace [OF assms(5)] in simp_all)
qed

lemma owned_update:
  assumes "owned rows" "a \<in> set rows" "set rows' = insert a' (set rows - {a})" "al_key a' = al_key a"
    and "al_team a' \<noteq> None \<or> (\<exists>b\<in>set rows. b \<noteq> a \<and> al_key b = al_key a \<and> al_team b \<noteq> None) \<Longrightarrow>
      \<exists>b\<in>set rows'. al_key b = al_key a \<and> al_primary b"
  shows "owned_key rows' (al_key a)"
  unfolding owned_key_def
proof
  assume "\<exists>c\<in>set rows'. al_key c = al_key a \<and> al_team c \<noteq> None"
  then obtain c where "c = a' \<or> c \<in> set rows - {a}" "al_key c = al_key a" "al_team c \<noteq> None" using assms(3) by auto
  then show "\<exists>b\<in>set rows'. al_key b = al_key a \<and> al_primary b" using assms(5) by blast
qed

lemma alloc_ok_create:
  assumes ok: "alloc_ok teams rows" and new: "createAllocation r rows = Inr rows'" and "on_plan teams r"
    and "al_team r \<noteq> None \<Longrightarrow> al_primary r \<or> (\<exists>b\<in>set rows. al_key b = al_key r \<and> al_primary b)"
  shows "alloc_ok teams rows'"
proof -
  have sound: "rows_sound rows" using ok by (simp add: alloc_ok_def)
  obtain r' v where r': "rows' = rows @ [r']" "r' = r\<lparr>al_value := v\<rparr>" "rows_sound rows'"
    by (rule createAllocation_Inr [OF new sound])
  have key: "al_key r' = al_key r" "al_team r' = al_team r" "al_primary r' = al_primary r" using r'(2) by (simp_all add: al_key_def)
  have "rows_of k rows' = rows_of k rows" if "k \<noteq> al_key r" for k using that key r'(1) by (simp add: rows_of_def)
  moreover have "owned_key rows (al_key r)" using ok unfolding alloc_ok_def owned_def by blast
  then have "owned_key rows' (al_key r)" using assms(4) r'(1) key by (auto simp: owned_key_def)
  moreover have "owned rows" using ok by (simp add: alloc_ok_def)
  ultimately have "owned rows'" using owned_by_key [of rows "al_key r" rows'] by blast
  moreover have "on_plan teams r'" using assms(3) r'(2) by (simp add: on_plan_def)
  ultimately show ?thesis using ok r' by (simp add: alloc_ok_def)
qed

lemma owned_keyD: "owned rows \<Longrightarrow> a \<in> set rows \<Longrightarrow> al_team a \<noteq> None \<Longrightarrow> \<exists>b\<in>set rows. al_key b = al_key a \<and> al_primary b"
  unfolding owned_def owned_key_def by blast

lemma alloc_ok_update:
  assumes ok: "alloc_ok teams rows" and upd: "updateAllocation i f rows = Inr rows'"
    and keep: "\<And>a. al_id (f a) = al_id a" "\<And>a. al_key (f a) = al_key a"
    and a: "a \<in> set rows" "al_id a = i" and on: "on_plan teams (f a)"
    and owner: "al_team (f a) \<noteq> None \<or> (\<exists>b\<in>set rows. b \<noteq> a \<and> al_key b = al_key a \<and> al_team b \<noteq> None) \<Longrightarrow>
      al_primary (f a) \<or> (\<exists>b\<in>set rows. b \<noteq> a \<and> al_key b = al_key a \<and> al_primary b)"
  shows "alloc_ok teams rows'"
proof -
  have sound: "rows_sound rows" and own: "owned rows" using ok by (simp_all add: alloc_ok_def)
  obtain a' v where a': "a' = (f a)\<lparr>al_value := v\<rparr>" "al_key a' = al_key a" "set rows' = insert a' (set rows - {a})" "rows_sound rows'"
    and others: "\<And>k. k \<noteq> al_key a \<Longrightarrow> rows_of k rows' = rows_of k rows"
    by (rule update_keyed [OF upd sound keep a]) blast
  have flags: "al_team a' = al_team (f a)" "al_primary a' = al_primary (f a)" "al_plan a' = al_plan (f a)" using a'(1) by simp_all
  have "owned_key rows' (al_key a)"
  proof (rule owned_update [OF own a(1) a'(3,2)])
    assume "al_team a' \<noteq> None \<or> (\<exists>b\<in>set rows. b \<noteq> a \<and> al_key b = al_key a \<and> al_team b \<noteq> None)"
    then show "\<exists>b\<in>set rows'. al_key b = al_key a \<and> al_primary b" using owner flags a' by auto
  qed
  then have "owned rows'" using owned_by_key [OF own others] by blast
  moreover have "on_plan teams a'" using on flags by (simp add: on_plan_def)
  ultimately show ?thesis using ok a'(3,4) by (auto simp: alloc_ok_def)
qed

lemma alloc_ok_delete_promote:
  assumes ok: "alloc_ok teams rows" and a: "a \<in> set rows" "al_id a = i" "al_key a = (p, j)"
    and after: "(if al_primary a then promote p j (deleteAllocation i rows) else Inr (deleteAllocation i rows)) = Inr rows'"
  shows "alloc_ok teams rows'"
proof -
  have sound: "rows_sound rows" and own: "owned rows" using ok by (simp_all add: alloc_ok_def)
  let ?d = "deleteAllocation i rows"
  have d: "rows_sound ?d" "set ?d = set rows - {a}" using deleteAllocation_sound sound set_delete [OF sound a(1,2)] by blast+
  have others: "rows_of k ?d = rows_of k rows" if "k \<noteq> (p, j)" for k using rows_of_delete [OF sound a(1,2)] that a(3) by simp
  show ?thesis
  proof (cases "al_primary a")
    case True
    with after have "promote p j ?d = Inr rows'" by simp
    from promote_Inr [OF this d(1)] have r: "rows_sound rows'" "map shape rows' = map shape ?d" "owned_key rows' (p, j)"
      "\<And>k. k \<noteq> (p, j) \<Longrightarrow> rows_of k rows' = rows_of k ?d" by blast+
    have "owned rows'" using owned_by_key [OF own _ r(3)] r(4) others by simp
    moreover have "on_plan teams b" if "b \<in> set rows'" for b
    proof -
      from shape_image [OF r(2) that] obtain c where "c \<in> set ?d" "shape c = shape b" by blast
      then show ?thesis using ok d(2) by (auto simp: alloc_ok_def on_plan_def shape_simps al_key_eq)
    qed
    ultimately show ?thesis using r(1) by (simp add: alloc_ok_def)
  next
    case False
    with after have "rows' = ?d" by simp
    moreover have "owned_key ?d (p, j)"
      unfolding owned_key_def
    proof
      assume "\<exists>b\<in>set ?d. al_key b = (p, j) \<and> al_team b \<noteq> None"
      then obtain b where b: "b \<in> set rows" "al_key b = (p, j)" "al_team b \<noteq> None" using d(2) by blast
      from owned_keyD [OF own b(1,3)] obtain c where "c \<in> set rows" "al_key c = (p, j)" "al_primary c" using b(2) by auto
      with False d(2) show "\<exists>b\<in>set ?d. al_key b = (p, j) \<and> al_primary b" by blast
    qed
    then have "owned ?d" using owned_by_key [OF own] others by blast
    ultimately show ?thesis using ok d by (auto simp: alloc_ok_def)
  qed
qed

lemma requirePlanTeam_Inr: "requirePlanTeam db p t = Inr c \<Longrightarrow> c \<in> set (cd_planTeams db) \<and> ct_plan c = p \<and> ct_team c = t"
  by (auto simp: requirePlanTeam_def findTeam_def find_Some_iff split: option.splits)

lemma primary_has_team: "alloc_ok teams rows \<Longrightarrow> a \<in> set rows \<Longrightarrow> al_primary a \<Longrightarrow> al_team a \<noteq> None"
  by (auto simp: alloc_ok_def rows_sound_def row_ok_def)

lemma set_value_simps [simp]:
  "al_id (set_value v a) = al_id a" "al_key (set_value v a) = al_key a" "al_team (set_value v a) = al_team a"
  "al_primary (set_value v a) = al_primary a" "al_plan (set_value v a) = al_plan a" "al_item (set_value v a) = al_item a"
  by (simp_all add: set_value_def al_key_def)

lemma al_key_simps [simp]:
  "al_key (a\<lparr>al_team := t\<rparr>) = al_key a" "al_key (a\<lparr>al_primary := q\<rparr>) = al_key a" "al_key (a\<lparr>al_value := v\<rparr>) = al_key a"
  by (simp_all add: al_key_def)

text \<open>An update that keeps the flags of a row.\<close>

lemma alloc_ok_value:
  assumes "alloc_ok teams rows" "updateAllocation i (set_value v) rows = Inr rows'" "a \<in> set rows" "al_id a = i"
  shows "alloc_ok teams rows'"
proof (rule alloc_ok_update [OF assms(1,2) _ _ assms(3,4)])
  show "on_plan teams (set_value v a)" using assms(1,3) by (simp add: alloc_ok_def on_plan_def)
  show "al_primary (set_value v a) \<or> (\<exists>b\<in>set rows. b \<noteq> a \<and> al_key b = al_key a \<and> al_primary b)"
    if "al_team (set_value v a) \<noteq> None \<or> (\<exists>b\<in>set rows. b \<noteq> a \<and> al_key b = al_key a \<and> al_team b \<noteq> None)"
  proof -
    from that assms(3) obtain b where "b \<in> set rows" "al_key b = al_key a" "al_team b \<noteq> None" by auto
    with assms(1) owned_keyD [of rows b] obtain c where "c \<in> set rows" "al_key c = al_key a" "al_primary c" by (auto simp: alloc_ok_def)
    then show ?thesis by auto
  qed
qed simp_all

text \<open>A parked row that takes a team.\<close>

lemma alloc_ok_assign:
  assumes ok: "alloc_ok teams rows" and upd: "updateAllocation i f rows = Inr rows'" and keep: "\<And>a. al_id (f a) = al_id a" "\<And>a. al_key (f a) = al_key a"
    and a: "a \<in> set rows" "al_id a = i" "al_team a = None" "al_key a = (p, j)"
    and f: "al_team (f a) = Some t" "al_primary (f a) \<longleftrightarrow> \<not> hasPrimaryAllocation p j rows" and t: "\<exists>c\<in>set teams. ct_plan c = p \<and> ct_team c = t"
  shows "alloc_ok teams rows'"
proof (rule alloc_ok_update [OF ok upd keep a(1,2)])
  have "al_plan (f a) = p" using keep(2) [of a] a(4) by (simp add: al_key_def)
  then show "on_plan teams (f a)" using f(1) t by (simp add: on_plan_def)
  have "b \<noteq> a" if "al_primary b" "b \<in> set rows" for b using primary_has_team [OF ok that(2,1)] a(3) by auto
  then show "al_primary (f a) \<or> (\<exists>b\<in>set rows. b \<noteq> a \<and> al_key b = al_key a \<and> al_primary b)"
    using f(2) a(4) by (auto simp: hasPrimary_key)
qed

lemma alloc_ok_allocate_rows:
  assumes ok: "alloc_ok teams rows" and step: "allocate_rows e i planId itemId teamId value estimate rows = Inr rows'"
    and on: "\<And>t. teamId = Some t \<Longrightarrow> \<exists>c\<in>set teams. ct_plan c = planId \<and> ct_team c = t"
  shows "alloc_ok teams rows'"
proof -
  define supplied where "supplied = (\<lambda>a. case value of Some x \<Rightarrow> set_value (x, Manual) a | None \<Rightarrow> a)"
  have keep: "al_id (supplied a) = al_id a" "al_key (supplied a) = al_key a" for a by (simp_all add: supplied_def split: option.split)
  show ?thesis
  proof (cases "if teamId \<noteq> None then findAllocationFor planId itemId None rows else None")
    case (Some parked)
    then obtain t where t: "teamId = Some t" "findAllocationFor planId itemId None rows = Some parked" by (auto split: if_splits)
    from Some have upd: "updateAllocation (al_id parked)
       (\<lambda>a. (supplied a)\<lparr>al_team := teamId, al_primary := \<not> hasPrimaryAllocation planId itemId rows\<rparr>) rows = Inr rows'"
      using step by (simp add: allocate_rows_def supplied_def)
    show ?thesis
      using find_rows_for [OF t(2)] on [OF t(1)] keep t(1)
      by (intro alloc_ok_assign [OF ok upd, where a = parked and p = planId and j = itemId and t = t]) simp_all
  next
    case None
    show ?thesis
    proof (cases "findAllocationFor planId itemId teamId rows")
      case (Some a)
      with None have "(if value \<noteq> None then updateAllocation (al_id a) supplied rows else Inr rows) = Inr rows'"
        using step by (simp add: allocate_rows_def supplied_def split: if_splits)
      then show ?thesis using ok find_rows_for [OF Some] alloc_ok_value [OF ok, of "al_id a" _ rows' a]
        by (auto simp: supplied_def split: if_splits)
    next
      case None': None
      from None None' have create: "createAllocation
                 \<lparr>al_id = i, al_plan = planId, al_item = itemId, al_team = teamId,
                  al_primary = (teamId \<noteq> None \<and> \<not> hasPrimaryAllocation planId itemId rows),
                  al_value = (case value of Some x \<Rightarrow> x | None \<Rightarrow> estimate),
                  al_source = (case value of Some _ \<Rightarrow> Manual | None \<Rightarrow> Feature_estimate), al_created = e_now e\<rparr> rows = Inr rows'"
        using step by (simp add: allocate_rows_def)
      show ?thesis by (rule alloc_ok_create [OF ok create]) (use on in \<open>auto simp: on_plan_def hasPrimary_key al_key_def\<close>)
    qed
  qed
qed

lemma alloc_ok_allocate:
  assumes "alloc_ok (cd_planTeams db) (cd_allocations db)" "allocate e i planId itemId teamId value db = Inr db'"
  shows "\<exists>rows. db' = db\<lparr>cd_allocations := rows\<rparr> \<and> alloc_ok (cd_planTeams db) rows"
proof -
  from planning_Inr [OF assms(2) [unfolded allocate_def]]
  obtain v rows where
    "case teamId of None \<Rightarrow> True | Some t \<Rightarrow> \<exists>c. requirePlanTeam db planId t = Inr c"
    "allocate_rows e i planId itemId teamId value v (cd_allocations db) = Inr rows" "db' = db\<lparr>cd_allocations := rows\<rparr>"
    unfolding bind_sum_Inr by (fastforce split: option.splits simp: bind_sum_Inr)
  then show ?thesis using alloc_ok_allocate_rows [OF assms(1), of e i planId itemId teamId "value" v rows] requirePlanTeam_Inr [of db planId]
    by (fastforce split: option.splits)
qed

lemma allocation_change_simps [simp]:
  "al_id (allocation_change r v t l q a) = al_id a" "al_key (allocation_change r v t l q a) = al_key a"
  "al_plan (allocation_change r v t l q a) = al_plan a"
  "al_team (allocation_change r v t l q a) = set_if t (al_team a)"
  "al_primary (allocation_change r v t l q a) \<longleftrightarrow> q \<or> \<not> l \<and> al_primary a"
  by (auto simp: allocation_change_def Let_def al_key_def split: option.split)

lemma promote_alloc_ok:
  assumes "promote p j rows = Inr rows'" "rows_sound rows" "\<forall>a\<in>set rows. on_plan teams a" "\<And>k. k \<noteq> (p, j) \<Longrightarrow> owned_key rows k"
  shows "alloc_ok teams rows'"
proof -
  from promote_Inr [OF assms(1,2)] have r: "rows_sound rows'" "map shape rows' = map shape rows" "owned_key rows' (p, j)"
    "\<And>k. k \<noteq> (p, j) \<Longrightarrow> rows_of k rows' = rows_of k rows" by blast+
  have "owned rows'" unfolding owned_def using r(3) assms(4) owned_key_cong [OF r(4)] by metis
  moreover have "on_plan teams b" if "b \<in> set rows'" for b
  proof -
    from shape_image [OF r(2) that] obtain c where "c \<in> set rows" "shape c = shape b" by blast
    then show ?thesis using assms(3) by (auto simp: on_plan_def shape_simps al_key_eq)
  qed
  ultimately show ?thesis using r(1) by (simp add: alloc_ok_def)
qed

lemma alloc_ok_change_rows:
  assumes ok: "alloc_ok teams rows" and step: "change_rows planId a recopied value teamId rows = Inr rows'" and a: "a \<in> set rows" "al_plan a = planId"
    and on: "\<And>t. teamId = Some (Some t) \<Longrightarrow> \<exists>c\<in>set teams. ct_plan c = planId \<and> ct_team c = t"
  shows "alloc_ok teams rows'"
proof -
  define gains where "gains \<longleftrightarrow> (case teamId of Some (Some _) \<Rightarrow> al_team a = None \<and> \<not> al_primary a | _ \<Rightarrow> False) \<and>
    \<not> hasPrimaryAllocation planId (al_item a) rows"
  define loses where "loses \<longleftrightarrow> teamId = Some None \<and> al_primary a"
  let ?f = "allocation_change recopied value teamId loses gains"
  from step obtain rows1 where upd: "updateAllocation (al_id a) ?f rows = Inr rows1"
    and next': "(if loses then promote planId (al_item a) rows1 else Inr rows1) = Inr rows'"
    unfolding change_rows_def Let_def gains_def loses_def by (auto simp: bind_sum_Inr)
  have sound: "rows_sound rows" and own: "owned rows" using ok by (simp_all add: alloc_ok_def)
  have key: "al_key a = (planId, al_item a)" using a(2) by (simp add: al_key_def)
  have on_a: "on_plan teams (?f a)"
    using on a ok by (auto simp: on_plan_def set_if_def alloc_ok_def split: option.splits)
  show ?thesis
  proof (cases loses)
    case True
    obtain a' v where a': "a' = (?f a)\<lparr>al_value := v\<rparr>" "al_key a' = al_key a" "set rows1 = insert a' (set rows - {a})" "rows_sound rows1"
      and others: "\<And>k. k \<noteq> al_key a \<Longrightarrow> rows_of k rows1 = rows_of k rows"
      by (rule update_keyed [OF upd sound allocation_change_simps(1,2) a(1) refl]) blast
    have "on_plan teams a'" using on_a a'(1) by (simp add: on_plan_def)
    then have "\<forall>b\<in>set rows1. on_plan teams b" using a'(3) ok by (auto simp: alloc_ok_def)
    moreover have "owned_key rows1 k" if "k \<noteq> (planId, al_item a)" for k
      using owned_key_cong [OF others, of k] that own key unfolding owned_def by simp
    ultimately show ?thesis using promote_alloc_ok [OF _ a'(4)] next' True by simp
  next
    case stays: False
    with next' have "rows' = rows1" by simp
    have "alloc_ok teams rows1"
    proof (rule alloc_ok_update [OF ok upd _ _ a(1) _ on_a])
      assume t: "al_team (?f a) \<noteq> None \<or> (\<exists>b\<in>set rows. b \<noteq> a \<and> al_key b = al_key a \<and> al_team b \<noteq> None)"
      show "al_primary (?f a) \<or> (\<exists>b\<in>set rows. b \<noteq> a \<and> al_key b = al_key a \<and> al_primary b)"
      proof (cases "hasPrimaryAllocation planId (al_item a) rows")
        case True
        then obtain b where "b \<in> set rows" "al_key b = al_key a" "al_primary b" using key by (auto simp: hasPrimary_key)
        then show ?thesis using stays by auto
      next
        case nop: False
        have none: "al_team b = None" if "b \<in> set rows" "al_key b = al_key a" for b
          using owned_keyD [OF own that(1)] that(2) nop key unfolding hasPrimary_key by metis
        then have "al_team (?f a) \<noteq> None" using t by auto
        moreover have "al_team a = None" "\<not> al_primary a" using none a(1) nop key by (auto simp: hasPrimary_key)
        ultimately have gains using nop by (auto simp: gains_def set_if_def split: option.splits)
        then show ?thesis by simp
      qed
    qed simp_all
    then show ?thesis using \<open>rows' = rows1\<close> by simp
  qed
qed

lemma findAllocation_Some: "findAllocation i p rows = Some a \<Longrightarrow> a \<in> set rows \<and> al_id a = i \<and> al_plan a = p"
  by (auto simp: findAllocation_def find_Some_iff)

lemma alloc_ok_updateAllocationOf:
  assumes "alloc_ok (cd_planTeams db) (cd_allocations db)" "updateAllocationOf e planId i value teamId db = Inr db'"
  shows "\<exists>rows. db' = db\<lparr>cd_allocations := rows\<rparr> \<and> alloc_ok (cd_planTeams db) rows"
proof -
  from planning_Inr [OF assms(2) [unfolded updateAllocationOf_def Let_def]] obtain a recopied rows where
    a: "findAllocation i planId (cd_allocations db) = Some a"
    "case teamId of Some (Some t) \<Rightarrow> \<exists>c. requirePlanTeam db planId t = Inr c | _ \<Rightarrow> True"
    "change_rows planId a recopied value teamId (cd_allocations db) = Inr rows" "db' = db\<lparr>cd_allocations := rows\<rparr>"
    unfolding bind_sum_Inr by (fastforce split: option.splits if_splits simp: bind_sum_Inr)
  have "alloc_ok (cd_planTeams db) rows"
    using findAllocation_Some [OF a(1)] a(2) requirePlanTeam_Inr [of db planId]
    by (intro alloc_ok_change_rows [OF assms(1) a(3)]) (fastforce split: option.splits)+
  with a(4) show ?thesis by blast
qed

lemma alloc_ok_setPrimary:
  assumes ok: "alloc_ok (cd_planTeams db) (cd_allocations db)" and step: "setPrimaryAllocation e planId i db = Inr db'"
  shows "\<exists>rows. db' = db\<lparr>cd_allocations := rows\<rparr> \<and> alloc_ok (cd_planTeams db) rows"
proof -
  let ?rows = "cd_allocations db" and ?teams = "cd_planTeams db"
  from planning_Inr [OF step [unfolded setPrimaryAllocation_def]] obtain a rows where
    a: "findAllocation i planId ?rows = Some a" "al_team a \<noteq> None" and
    upd: "updateAllocation i (\<lambda>b. b\<lparr>al_primary := True\<rparr>) (clearPrimaryAllocations planId (al_item a) ?rows) = Inr rows"
    and db': "db' = db\<lparr>cd_allocations := rows\<rparr>"
    by (auto simp: bind_sum_Inr split: option.splits if_splits)
  define g where "g = (\<lambda>b :: allocation_row. if al_plan b = planId \<and> al_item b = al_item a \<and> al_primary b then b\<lparr>al_primary := False\<rparr> else b)"
  have cleared: "clearPrimaryAllocations planId (al_item a) ?rows = map g ?rows"
    by (simp add: clearPrimaryAllocations_def update_where_def g_def)
  have in_rows: "a \<in> set ?rows" "al_id a = i" "al_plan a = planId" using findAllocation_Some [OF a(1)] by auto
  have key: "al_key a = (planId, al_item a)" using in_rows(3) by (simp add: al_key_def)
  have sound: "rows_sound (map g ?rows)" using clearPrimary_sound [of ?rows] ok cleared by (metis alloc_ok_def)
  have g: "al_id (g b) = al_id b" "al_key (g b) = al_key b" "al_team (g b) = al_team b" "al_plan (g b) = al_plan b" for b
    by (simp_all add: g_def)
  have ga: "g a \<in> set (map g ?rows)" "al_id (g a) = i" using in_rows g by auto
  obtain c v where c: "c = (g a)\<lparr>al_primary := True, al_value := v\<rparr>" "set rows = insert c (set (map g ?rows) - {g a})" "rows_sound rows"
    and others: "\<And>k. k \<noteq> al_key (g a) \<Longrightarrow> rows_of k rows = rows_of k (map g ?rows)"
    by (rule update_keyed [OF upd [unfolded cleared] sound _ _ ga]) auto
  have same: "rows_of k (map g xs) = rows_of k xs" if "k \<noteq> al_key a" for k xs
    using that key by (induction xs) (auto simp: rows_of_def g_def al_key_def)
  have "owned_key rows (al_key a)"
    using c(1,2) g by (auto simp: owned_key_def al_key_def)
  moreover have "owned ?rows" using ok by (simp add: alloc_ok_def)
  ultimately have "owned rows" using owned_by_key [of ?rows "al_key a" rows] others same g by metis
  moreover have "on_plan ?teams b" if "b \<in> set rows" for b
    using that c(1,2) g ok in_rows(1) by (auto simp: alloc_ok_def on_plan_def)
  ultimately show ?thesis using c(3) db' by (auto simp: alloc_ok_def)
qed

lemma alloc_ok_removeAllocation:
  assumes ok: "alloc_ok (cd_planTeams db) (cd_allocations db)" and step: "removeAllocation e planId i db = Inr db'"
  shows "\<exists>rows. db' = db\<lparr>cd_allocations := rows\<rparr> \<and> alloc_ok (cd_planTeams db) rows"
proof -
  from planning_Inr [OF step [unfolded removeAllocation_def Let_def]] obtain a rows where
    a: "findAllocation i planId (cd_allocations db) = Some a" and
    rows: "(if al_primary a then promote planId (al_item a) (deleteAllocation i (cd_allocations db)) else Inr (deleteAllocation i (cd_allocations db))) = Inr rows"
    and db': "db' = db\<lparr>cd_allocations := rows\<rparr>"
    by (auto simp: bind_sum_Inr split: option.splits)
  with alloc_ok_delete_promote [OF ok _ _ _ rows] findAllocation_Some [OF a] show ?thesis by (auto simp: al_key_def)
qed

section \<open>Demand\<close>

lemma sound_distinct: "rows_sound rows \<Longrightarrow> distinct rows"
  using sound_ids [of rows] by (simp add: distinct_map)

lemma demand_sum: "rows_sound rows \<Longrightarrow> demand k rows = sum al_value {a \<in> set rows. al_key a = k}"
  using sum_list_distinct_conv_sum_set [of "rows_of k rows" al_value] sound_distinct [of rows]
  by (simp add: demand_def rows_of_def)

lemma demand_other: "rows_of k rows = rows_of k rows' \<Longrightarrow> demand k rows = demand k rows'"
  by (simp add: demand_def)

lemma money_int: "money x \<Longrightarrow> \<exists>n. x * 100 = of_int n"
  by (metis money_def)

lemma numeric_sum:
  assumes "money x" "money y" "numeric_10_2 (x + y) = Inr v"
  shows "v = x + y"
proof -
  obtain m n where "x * 100 = of_int m" "y * 100 = of_int n" using assms money_int by blast
  then have "(x + y) * 100 = of_int (m + n)" by (simp add: distrib_right)
  then have "of_int (math_round ((x + y) * 100)) = (x + y) * 100" by (metis math_round_of_int)
  with assms(3) show ?thesis by (auto simp: numeric_10_2_def Let_def split: if_splits)
qed

lemma findFor_rows_of: "findAllocationFor p i t rows = find (\<lambda>a. al_team a = t) (rows_of (p, i) rows)"
  by (induction rows) (auto simp: findAllocationFor_def rows_of_def al_key_def)

definition park_one :: "uuid \<Rightarrow> allocation_row list \<Rightarrow> allocation_row \<Rightarrow> allocation_row list \<Rightarrow> api_error + allocation_row list" where
  "park_one planId rows0 r rows =
     (case findAllocationFor planId (al_item r) None rows0 of
          Some parked \<Rightarrow>
            bind_sum (updateAllocation (al_id parked) (set_value (mergeParked [parked, r])) rows) (\<lambda>rows'.
            Inr (deleteAllocation (al_id r) rows'))
        | None \<Rightarrow> updateAllocation (al_id r) (\<lambda>a. a\<lparr>al_team := None, al_primary := False\<rparr>) rows)"

lemma park_rows_one: "park_rows p rows0 (r # rs) rows = bind_sum (park_one p rows0 r rows) (park_rows p rows0 rs)"
  by (simp add: park_one_def)

text \<open>Parking one row: its demand stays, its team row goes, the other team rows stay.\<close>

lemma park_one_Inr:
  assumes park: "park_one p rows0 r rows = Inr rows'" and sound: "rows_sound rows"
    and r: "r \<in> set rows" "al_plan r = p" "al_team r = Some t" and same: "rows_of (al_key r) rows = rows_of (al_key r) rows0"
  shows "rows_sound rows' \<and> (\<forall>k. demand k rows' = demand k rows) \<and> (\<forall>k. k \<noteq> al_key r \<longrightarrow> rows_of k rows' = rows_of k rows) \<and>
    (\<forall>b. al_key b = al_key r \<and> al_team b \<noteq> None \<longrightarrow> (b \<in> set rows' \<longleftrightarrow> b \<in> set rows \<and> b \<noteq> r))"
proof -
  have key: "al_key r = (p, al_item r)" using r(2) by (simp add: al_key_def)
  have find: "findAllocationFor p (al_item r) None rows0 = findAllocationFor p (al_item r) None rows"
    using same key by (simp add: findFor_rows_of)
  have "rows_sound rows' \<and> demand (al_key r) rows' = demand (al_key r) rows \<and> (\<forall>k. k \<noteq> al_key r \<longrightarrow> rows_of k rows' = rows_of k rows) \<and>
    (\<forall>b. al_key b = al_key r \<and> al_team b \<noteq> None \<longrightarrow> (b \<in> set rows' \<longleftrightarrow> b \<in> set rows \<and> b \<noteq> r))"
  proof (cases "findAllocationFor p (al_item r) None rows")
    case None
    then have upd: "updateAllocation (al_id r) (\<lambda>a. a\<lparr>al_team := None, al_primary := False\<rparr>) rows = Inr rows'"
      using park find by (simp add: park_one_def)
    obtain a v where a: "a = r\<lparr>al_team := None, al_primary := False, al_value := v\<rparr>" "numeric_10_2 (al_value r) = Inr v"
      "set rows' = insert a (set rows - {r})" "rows_sound rows'" "al_key a = al_key r"
      and others: "\<And>k. k \<noteq> al_key r \<Longrightarrow> rows_of k rows' = rows_of k rows"
      by (rule update_keyed [OF upd sound _ _ r(1) refl]) auto
    have v: "al_value a = al_value r" using a(1,2) numeric_money sound_row [OF sound r(1)] by (simp add: row_ok_def)
    let ?S = "{b \<in> set rows. al_key b = al_key r}"
    have "{b \<in> set rows'. al_key b = al_key r} = insert a (?S - {r})" using a(3,5) by auto
    moreover have "a \<notin> ?S - {r}"
      using None key a(1,5) by (auto simp: find_rows_for_None)
    ultimately have "demand (al_key r) rows' = al_value a + sum al_value (?S - {r})" using a(4) by (simp add: demand_sum)
    also have "\<dots> = demand (al_key r) rows" using v r(1) sound by (simp add: demand_sum sum.remove [of ?S r])
    finally have "demand (al_key r) rows' = demand (al_key r) rows" .
    moreover have "al_team a = None" using a(1) by simp
    then have "b \<in> set rows' \<longleftrightarrow> b \<in> set rows \<and> b \<noteq> r" if "al_team b \<noteq> None" for b using a(3) that r(3) by auto
    ultimately show ?thesis using a(4) others by blast
  next
    case (Some q)
    then have q: "q \<in> set rows" "al_key q = al_key r" "al_team q = None" using find_rows_for [OF Some] key by auto
    from park find Some obtain rows1 where upd: "updateAllocation (al_id q) (set_value (mergeParked [q, r])) rows = Inr rows1"
      and rows': "rows' = deleteAllocation (al_id r) rows1" by (auto simp: park_one_def bind_sum_Inr)
    obtain a v where a: "a = (set_value (mergeParked [q, r]) q)\<lparr>al_value := v\<rparr>" "numeric_10_2 (al_value (set_value (mergeParked [q, r]) q)) = Inr v"
      "set rows1 = insert a (set rows - {q})" "rows_sound rows1" "al_key a = al_key q"
      and others: "\<And>k. k \<noteq> al_key q \<Longrightarrow> rows_of k rows1 = rows_of k rows"
      by (rule update_keyed [OF upd sound set_value_simps(1,2) q(1) refl]) blast
    have "money (al_value q)" "money (al_value r)" using sound_row [OF sound] q(1) r(1) by (auto simp: row_ok_def)
    moreover have "numeric_10_2 (al_value q + al_value r) = Inr v" using a(2) by (simp add: set_value_def mergeParked_def)
    ultimately have v: "al_value a = al_value q + al_value r" using numeric_sum a(1) by simp
    have team: "al_team a = None" using a(1) q(3) by simp
    have rq: "r \<noteq> q" using r(3) q(3) by auto
    have r1: "r \<in> set rows1" using a(3) r(1) rq by simp
    have d: "rows_sound rows'" "set rows' = set rows1 - {r}" using rows' deleteAllocation_sound a(4) set_delete [OF a(4) r1 refl] by auto
    let ?S = "{b \<in> set rows. al_key b = al_key r}"
    have ar: "a \<noteq> r" using team r(3) by auto
    have "{b \<in> set rows'. al_key b = al_key r} = insert a (?S - {q} - {r})" using d(2) a(3,5) q(2) ar by auto
    moreover have "a \<notin> ?S - {q} - {r}" using sound_team [OF sound _ q(1)] team q(2,3) a(5) by auto
    ultimately have "demand (al_key r) rows' = al_value a + sum al_value (?S - {q} - {r})" using d(1) by (simp add: demand_sum)
    also have "\<dots> = demand (al_key r) rows"
      using v r(1) q(1,2) rq sound by (simp add: demand_sum sum.remove [of ?S q] sum.remove [of "?S - {q}" r])
    finally have "demand (al_key r) rows' = demand (al_key r) rows" .
    moreover have "rows_of k rows' = rows_of k rows" if "k \<noteq> al_key r" for k
      using rows_of_delete [OF a(4) r1 refl that] others rows' that q(2) by simp
    ultimately show ?thesis using d a(3) team q(3) by auto
  qed
  note facts = this
  have "demand k rows' = demand k rows" for k
  proof (cases "k = al_key r")
    case False
    with facts have "rows_of k rows' = rows_of k rows" by blast
    then show ?thesis by (rule demand_other)
  qed (use facts in simp)
  with facts show ?thesis by blast
qed

lemma park_rows_Inr:
  assumes "park_rows p rows0 rs rows = Inr rows'" "rows_sound rows" "distinct (map al_key rs)"
    and "\<And>r. r \<in> set rs \<Longrightarrow> r \<in> set rows \<and> al_plan r = p \<and> al_team r = Some t"
    and "\<And>r. r \<in> set rs \<Longrightarrow> rows_of (al_key r) rows = rows_of (al_key r) rows0"
  shows "rows_sound rows' \<and> (\<forall>k. demand k rows' = demand k rows) \<and> (\<forall>k. k \<notin> al_key ` set rs \<longrightarrow> rows_of k rows' = rows_of k rows) \<and>
    (\<forall>b. al_key b \<in> al_key ` set rs \<and> al_team b \<noteq> None \<longrightarrow> (b \<in> set rows' \<longleftrightarrow> b \<in> set rows \<and> b \<notin> set rs))"
  using assms
proof (induction rs arbitrary: rows)
  case (Cons r rs)
  from Cons.prems(1) obtain rows1 where one: "park_one p rows0 r rows = Inr rows1" and rest: "park_rows p rows0 rs rows1 = Inr rows'"
    unfolding park_rows_one bind_sum_Inr by blast
  have r: "r \<in> set rows" "al_plan r = p" "al_team r = Some t" "rows_of (al_key r) rows = rows_of (al_key r) rows0"
    using Cons.prems(4,5) by auto
  from park_one_Inr [OF one Cons.prems(2) r] have s1: "rows_sound rows1" "\<And>k. demand k rows1 = demand k rows"
    "\<And>k. k \<noteq> al_key r \<Longrightarrow> rows_of k rows1 = rows_of k rows"
    "\<And>b. al_key b = al_key r \<Longrightarrow> al_team b \<noteq> None \<Longrightarrow> (b \<in> set rows1 \<longleftrightarrow> b \<in> set rows \<and> b \<noteq> r)" by blast+
  have apart: "al_key q \<noteq> al_key r" if "q \<in> set rs" for q using Cons.prems(3) that by (simp add: image_iff) metis
  have kept: "b \<in> set rows1 \<longleftrightarrow> b \<in> set rows" if "al_key b \<noteq> al_key r" for b
    using s1(3) [OF that] set_rows_of [of b "al_key b"] by metis
  have "q \<in> set rows1 \<and> al_plan q = p \<and> al_team q = Some t" if "q \<in> set rs" for q
    using Cons.prems(4) [of q] kept [OF apart [OF that]] that by simp
  moreover have "rows_of (al_key q) rows1 = rows_of (al_key q) rows0" if "q \<in> set rs" for q
    using Cons.prems(5) [of q] s1(3) [OF apart [OF that]] that by simp
  ultimately have s2: "rows_sound rows'" "\<And>k. demand k rows' = demand k rows1"
    "\<And>k. k \<notin> al_key ` set rs \<Longrightarrow> rows_of k rows' = rows_of k rows1"
    "\<And>b. al_key b \<in> al_key ` set rs \<Longrightarrow> al_team b \<noteq> None \<Longrightarrow> (b \<in> set rows' \<longleftrightarrow> b \<in> set rows1 \<and> b \<notin> set rs)"
    using Cons.IH [OF rest s1(1)] Cons.prems(3) by auto
  have "b \<in> set rows' \<longleftrightarrow> b \<in> set rows \<and> b \<notin> set (r # rs)" if b: "al_key b \<in> al_key ` set (r # rs)" "al_team b \<noteq> None" for b
  proof (cases "al_key b = al_key r")
    case True
    then have "al_key b \<notin> al_key ` set rs" using Cons.prems(3) by auto
    then have "rows_of (al_key b) rows' = rows_of (al_key b) rows1" "b \<notin> set rs" using s2(3) by auto
    moreover from this have "b \<in> set rows' \<longleftrightarrow> b \<in> set rows1" using set_rows_of [of b "al_key b"] by metis
    moreover note s1(4) [OF True b(2)]
    ultimately show ?thesis by auto
  next
    case False
    with b have "al_key b \<in> al_key ` set rs" "b \<noteq> r" by auto
    with s2(4) [OF _ b(2)] kept [OF False] show ?thesis by auto
  qed
  moreover have "rows_of k rows' = rows_of k rows" if "k \<notin> al_key ` set (r # rs)" for k
    using that s1(3) s2(3) by auto
  ultimately show ?case using s1(2) s2(1,2) by simp
qed simp

lemma promote_each_Inr:
  assumes "promote_each p rs rows = Inr rows'" "rows_sound rows" "\<forall>r\<in>set rs. al_plan r = p"
  shows "rows_sound rows' \<and> map shape rows' = map shape rows \<and> (\<forall>k\<in>al_key ` set rs. owned_key rows' k) \<and>
    (\<forall>k. k \<notin> al_key ` set rs \<longrightarrow> rows_of k rows' = rows_of k rows)"
  using assms
proof (induction rs arbitrary: rows)
  case (Cons r rs)
  from Cons.prems(1) obtain rows1 where one: "promote p (al_item r) rows = Inr rows1" and rest: "promote_each p rs rows1 = Inr rows'"
    by (auto simp: bind_sum_Inr)
  have key: "al_key r = (p, al_item r)" using Cons.prems(3) by (simp add: al_key_def)
  from promote_Inr [OF one Cons.prems(2)] have s1: "rows_sound rows1" "map shape rows1 = map shape rows" "owned_key rows1 (al_key r)"
    "\<And>k. k \<noteq> al_key r \<Longrightarrow> rows_of k rows1 = rows_of k rows" unfolding key by blast+
  have "\<forall>r\<in>set rs. al_plan r = p" using Cons.prems(3) by simp
  from Cons.IH [OF rest s1(1) this] have s2: "rows_sound rows'" "map shape rows' = map shape rows1"
    "\<And>k. k \<in> al_key ` set rs \<Longrightarrow> owned_key rows' k" "\<And>k. k \<notin> al_key ` set rs \<Longrightarrow> rows_of k rows' = rows_of k rows1" by blast+
  have "owned_key rows' (al_key r)"
    using s1(3) s2(3,4) owned_key_cong [of "al_key r" rows' rows1] by blast
  with s1 s2 show ?case by auto
qed simp

section \<open>A team leaves\<close>

lemma team_rows:
  assumes "rows_sound rows"
  shows "r \<in> set (listAllocationsForTeam p t rows) \<longleftrightarrow> r \<in> set rows \<and> al_plan r = p \<and> al_team r = Some t"
    and "distinct (map al_key (listAllocationsForTeam p t rows))"
proof -
  show mem: "r \<in> set (listAllocationsForTeam p t rows) \<longleftrightarrow> r \<in> set rows \<and> al_plan r = p \<and> al_team r = Some t" for r
    by (auto simp: listAllocationsForTeam_def)
  have "distinct (listAllocationsForTeam p t rows)"
    unfolding listAllocationsForTeam_def
    by (rule mset_eq_imp_distinct_iff [OF mset_js_sort, THEN iffD2]) (simp add: sound_distinct [OF assms])
  then show "distinct (map al_key (listAllocationsForTeam p t rows))"
    using sound_team [OF assms] mem by (auto simp: distinct_map inj_on_def)
qed

lemma remove_team_rows:
  fixes rows :: "allocation_row list" and p t :: uuid
  defines "mine \<equiv> listAllocationsForTeam p t rows"
  assumes ok: "alloc_ok teams rows" and park: "park_rows p rows mine rows = Inr rows1"
    and promote: "promote_each p (filter al_primary mine) rows1 = Inr rows2"
  shows "alloc_ok (filter (\<lambda>c. \<not> (ct_plan c = p \<and> ct_team c = t)) teams) rows2 \<and> (\<forall>k. demand k rows2 = demand k rows) \<and>
    (\<forall>b\<in>set rows2. \<not> (al_plan b = p \<and> al_team b = Some t))"
proof -
  have sound: "rows_sound rows" and own: "owned rows" using ok by (simp_all add: alloc_ok_def)
  have mine: "r \<in> set mine \<longleftrightarrow> r \<in> set rows \<and> al_plan r = p \<and> al_team r = Some t" for r
    unfolding mine_def by (rule team_rows(1) [OF sound])
  have dist: "distinct (map al_key mine)" unfolding mine_def by (rule team_rows(2) [OF sound])
  from park_rows_Inr [OF park sound dist, of t] mine
  have s1: "rows_sound rows1" "\<And>k. demand k rows1 = demand k rows" "\<And>k. k \<notin> al_key ` set mine \<Longrightarrow> rows_of k rows1 = rows_of k rows"
    "\<And>b. al_key b \<in> al_key ` set mine \<Longrightarrow> al_team b \<noteq> None \<Longrightarrow> (b \<in> set rows1 \<longleftrightarrow> b \<in> set rows \<and> b \<notin> set mine)" by blast+
  have plan: "\<forall>r\<in>set (filter al_primary mine). al_plan r = p" using mine by simp
  from promote_each_Inr [OF promote s1(1) plan] have s2: "rows_sound rows2" "map shape rows2 = map shape rows1"
    "\<And>k. k \<in> al_key ` set (filter al_primary mine) \<Longrightarrow> owned_key rows2 k"
    "\<And>k. k \<notin> al_key ` set (filter al_primary mine) \<Longrightarrow> rows_of k rows2 = rows_of k rows1" by blast+
  have stay: "b \<in> set rows \<and> b \<notin> set mine" if "b \<in> set rows1" "al_team b \<noteq> None" for b
  proof (cases "al_key b \<in> al_key ` set mine")
    case False
    then have "b \<in> set rows" using s1(3) [OF False] set_rows_of [of b "al_key b"] that(1) by metis
    with False show ?thesis by blast
  qed (use s1(4) that in blast)
  have "owned_key rows2 k" for k
  proof (cases "k \<in> al_key ` set (filter al_primary mine)")
    case False
    then have same: "rows_of k rows2 = rows_of k rows1" by (rule s2(4))
    have "owned_key rows1 k"
    proof (cases "k \<in> al_key ` set mine")
      case True
      show ?thesis
        unfolding owned_key_def
      proof
        assume "\<exists>a\<in>set rows1. al_key a = k \<and> al_team a \<noteq> None"
        then obtain a where a: "a \<in> set rows1" "al_key a = k" "al_team a \<noteq> None" by blast
        with stay have "a \<in> set rows" by blast
        from owned_keyD [OF own this a(3)] obtain b where b: "b \<in> set rows" "al_key b = k" "al_primary b" using a(2) by auto
        have "b \<notin> set mine" using False b by auto
        moreover have "al_team b \<noteq> None" by (rule primary_has_team [OF ok b(1,3)])
        ultimately have "b \<in> set rows1" using s1(4) [of b] True b by blast
        with b show "\<exists>b\<in>set rows1. al_key b = k \<and> al_primary b" by blast
      qed
    next
      case False
      with s1(3) own show ?thesis using owned_key_cong unfolding owned_def by blast
    qed
    with same show ?thesis using owned_key_cong by blast
  qed (rule s2(3))
  then have "owned rows2" unfolding owned_def by blast
  moreover have left: "on_plan (filter (\<lambda>c. \<not> (ct_plan c = p \<and> ct_team c = t)) teams) b \<and> \<not> (al_plan b = p \<and> al_team b = Some t)"
    if b: "b \<in> set rows2" for b
  proof (cases "al_team b")
    case (Some u)
    from shape_image [OF s2(2) b] obtain c where c: "c \<in> set rows1" "shape c = shape b" by blast
    then have "c \<in> set rows" "c \<notin> set mine" "al_team c = Some u" "al_plan c = al_plan b"
      using stay [OF c(1)] Some by (auto simp: shape_simps al_key_eq)
    with mine ok Some show ?thesis by (fastforce simp: alloc_ok_def on_plan_def)
  qed (simp add: on_plan_def)
  moreover have "demand k rows2 = demand k rows" for k using demand_shape [OF s2(2)] s1(2) by simp
  ultimately show ?thesis using s2(1) by (simp add: alloc_ok_def)
qed

lemma removeTeam_Inr:
  assumes ok: "alloc_ok (cd_planTeams db) (cd_allocations db)" and step: "removeTeam e p t db = Inr db'"
  shows "\<exists>rows teams. db' = db\<lparr>cd_allocations := rows, cd_planTeams := teams\<rparr> \<and>
    teams = filter (\<lambda>c. \<not> (ct_plan c = p \<and> ct_team c = t)) (cd_planTeams db) \<and> alloc_ok teams rows \<and>
    (\<forall>k. demand k rows = demand k (cd_allocations db)) \<and> (\<forall>b\<in>set rows. \<not> (al_plan b = p \<and> al_team b = Some t))"
proof -
  from planning_Inr [OF step [unfolded removeTeam_def Let_def]] obtain rows1 rows2 where
    "park_rows p (cd_allocations db) (listAllocationsForTeam p t (cd_allocations db)) (cd_allocations db) = Inr rows1"
    "promote_each p (filter al_primary (listAllocationsForTeam p t (cd_allocations db))) rows1 = Inr rows2"
    "db' = db\<lparr>cd_allocations := rows2, cd_planTeams := filter (\<lambda>c. \<not> (ct_plan c = p \<and> ct_team c = t)) (cd_planTeams db)\<rparr>"
    by (auto simp: bind_sum_Inr)
  with remove_team_rows [OF ok] show ?thesis by blast
qed

section \<open>A Feature moves\<close>

lemma rows_sound_filter: "rows_sound rows \<Longrightarrow> rows_sound (filter P rows)"
  by (auto simp: rows_sound_def intro: distinct_map_filter)

definition carried :: "env \<Rightarrow> (nat \<Rightarrow> uuid) \<Rightarrow> uuid \<Rightarrow> bool \<Rightarrow> nat \<Rightarrow> allocation_row \<Rightarrow> allocation_row" where
  "carried e ids q own n r =
     r\<lparr>al_id := ids n, al_plan := q, al_primary := (if own then al_primary r else n = 0), al_created := e_now e\<rparr>"

lemma carried_simps [simp]:
  "al_item (carried e ids q own n r) = al_item r" "al_plan (carried e ids q own n r) = q" "al_team (carried e ids q own n r) = al_team r"
  "al_value (carried e ids q own n r) = al_value r" "al_source (carried e ids q own n r) = al_source r"
  "al_primary (carried e ids q own n r) = (if own then al_primary r else n = 0)"
  by (simp_all add: carried_def)

lemma createAllocation_same:
  assumes "createAllocation r rows = Inr rows'" "rows_sound rows" "money (al_value r)"
  shows "rows' = rows @ [r] \<and> rows_sound rows'"
proof -
  obtain r' v where r': "rows' = rows @ [r']" "r' = r\<lparr>al_value := v\<rparr>" "rows_sound rows'" "numeric_10_2 (al_value r) = Inr v"
    by (rule createAllocation_Inr [OF assms(1,2)]) blast
  then have "v = al_value r" using numeric_money [OF assms(3)] by simp
  with r' show ?thesis by simp
qed

lemma carry_rows_Inr:
  assumes "carry_rows e ids q own n rs rows = Inr rows'" "rows_sound rows" "\<forall>r\<in>set rs. money (al_value r)"
  shows "rows' = rows @ map (\<lambda>(i, r). carried e ids q own i r) (enumerate n rs) \<and> rows_sound rows'"
  using assms
proof (induction rs arbitrary: n rows)
  case (Cons r rs)
  from Cons.prems(1) obtain rows1 where one: "createAllocation (carried e ids q own n r) rows = Inr rows1"
    and rest: "carry_rows e ids q own (n + 1) rs rows1 = Inr rows'"
    by (auto simp: bind_sum_Inr carried_def)
  have "money (al_value (carried e ids q own n r))" using Cons.prems(3) by simp
  from createAllocation_same [OF one Cons.prems(2) this] have "rows1 = rows @ [carried e ids q own n r]" "rows_sound rows1" by blast+
  moreover have "\<forall>r\<in>set rs. money (al_value r)" using Cons.prems(3) by simp
  from Cons.IH [OF rest \<open>rows_sound rows1\<close> this]
  have "rows' = rows1 @ map (\<lambda>(i, r). carried e ids q own i r) (enumerate (n + 1) rs)" "rows_sound rows'" by blast+
  ultimately show ?case by auto
qed simp

lemma delete_all: "fold (\<lambda>r. deleteAllocation (al_id r)) rs rows = filter (\<lambda>a. al_id a \<notin> al_id ` set rs) rows"
  by (induction rs arbitrary: rows) (auto simp: deleteAllocation_def intro: filter_cong)

lemma delete_key:
  assumes sound: "rows_sound rows" and rs: "\<And>r. r \<in> set rs \<longleftrightarrow> r \<in> set rows \<and> al_key r = k"
  shows "fold (\<lambda>r. deleteAllocation (al_id r)) rs rows = filter (\<lambda>a. al_key a \<noteq> k) rows"
proof -
  have "al_id a \<in> al_id ` set rs \<longleftrightarrow> al_key a = k" if "a \<in> set rows" for a
    using sound_id [OF sound that] rs that by auto
  then show ?thesis unfolding delete_all by (intro filter_cong) auto
qed

lemma sum_hundredths: "\<forall>r\<in>set rs. money (al_value r) \<Longrightarrow> \<exists>n. sum_list (map al_value rs) * 100 = of_int n"
proof (induction rs)
  case (Cons r rs)
  then obtain m n where "sum_list (map al_value rs) * 100 = of_int m" "al_value r * 100 = of_int n"
    using money_int by fastforce
  then have "sum_list (map al_value (r # rs)) * 100 = of_int (n + m)" by (simp add: distrib_right)
  then show ?case by blast
qed (auto intro: exI [of _ 0])

lemma numeric_total:
  assumes "\<forall>r\<in>set rs. money (al_value r)" "numeric_10_2 (sum_list (map al_value rs)) = Inr v"
  shows "v = sum_list (map al_value rs)"
proof -
  obtain n where "sum_list (map al_value rs) * 100 = of_int n" using sum_hundredths [OF assms(1)] by blast
  then have "of_int (math_round (sum_list (map al_value rs) * 100)) = sum_list (map al_value rs) * 100" by (metis math_round_of_int)
  with assms(2) show ?thesis by (auto simp: numeric_10_2_def Let_def split: if_splits)
qed

text \<open>What a move leaves: the rows of the Feature on the target are the carried ones and one parked row
  with the value of those that lost their team.\<close>

definition parked_rest :: "env \<Rightarrow> (nat \<Rightarrow> uuid) \<Rightarrow> uuid \<Rightarrow> uuid \<Rightarrow> nat \<Rightarrow> allocation_row list \<Rightarrow> allocation_row list" where
  "parked_rest e ids q item n lost =
     (if lost = [] then []
      else [\<lparr>al_id = ids n, al_plan = q, al_item = item, al_team = None, al_primary = False,
             al_value = sum_list (map al_value lost), al_source = snd (mergeParked lost), al_created = e_now e\<rparr>])"

lemma move_rows_Inr:
  fixes db :: cap_db and m :: move_request and rows :: "allocation_row list" and e :: env and ids :: "nat \<Rightarrow> uuid"
  defines "kept \<equiv> filter (carriable db (mv_target m)) rows" and "lost \<equiv> filter (\<lambda>r. \<not> carriable db (mv_target m) r) rows"
  defines "news \<equiv> map (\<lambda>(i, r). carried e ids (mv_target m) (list_ex al_primary kept) i r) (enumerate 0 kept)
                  @ parked_rest e ids (mv_target m) (mv_item m) (length kept) lost"
  assumes sound: "rows_sound (cd_allocations db)" and step: "move_rows e ids p m rows db = Inr rows'"
    and rows: "\<And>r. r \<in> set rows \<longleftrightarrow> r \<in> set (cd_allocations db) \<and> al_key r = (p, mv_item m)"
    and apart: "mv_target m \<noteq> p"
  shows "rows' = filter (\<lambda>a. al_key a \<noteq> (p, mv_item m)) (cd_allocations db) @ news \<and> rows_sound rows' \<and>
    (\<forall>a\<in>set news. al_key a = (mv_target m, mv_item m))"
proof -
  let ?q = "mv_target m" and ?own = "list_ex al_primary kept"
  from step obtain rows1 rows2 where
    carry: "carry_rows e ids ?q ?own 0 kept (cd_allocations db) = Inr rows1" and
    rest: "(if lost = [] then Inr rows1
            else createAllocation
                     \<lparr>al_id = ids (length kept), al_plan = ?q, al_item = mv_item m, al_team = None, al_primary = False,
                      al_value = fst (mergeParked lost), al_source = snd (mergeParked lost), al_created = e_now e\<rparr> rows1) = Inr rows2" and
    rows': "rows' = fold (\<lambda>r. deleteAllocation (al_id r)) rows rows2"
    unfolding move_rows_def Let_def kept_def lost_def by (auto simp: bind_sum_Inr)
  have money: "\<forall>r\<in>set kept. money (al_value r)" "\<forall>r\<in>set lost. money (al_value r)"
    using rows sound_row [OF sound] by (auto simp: kept_def lost_def row_ok_def)
  from carry_rows_Inr [OF carry sound money(1)]
  have r1: "rows1 = cd_allocations db @ map (\<lambda>(i, r). carried e ids ?q ?own i r) (enumerate 0 kept)" "rows_sound rows1" by blast+
  have r2: "rows2 = rows1 @ parked_rest e ids ?q (mv_item m) (length kept) lost \<and> rows_sound rows2"
  proof (cases "lost = []")
    case True
    with rest r1(2) show ?thesis by (simp add: parked_rest_def)
  next
    case False
    with rest have new: "createAllocation
                     \<lparr>al_id = ids (length kept), al_plan = ?q, al_item = mv_item m, al_team = None, al_primary = False,
                      al_value = fst (mergeParked lost), al_source = snd (mergeParked lost), al_created = e_now e\<rparr> rows1 = Inr rows2" (is "createAllocation ?r _ = _")
      by simp
    obtain r v where r: "rows2 = rows1 @ [r]" "r = ?r\<lparr>al_value := v\<rparr>" "rows_sound rows2" "numeric_10_2 (al_value ?r) = Inr v"
      by (rule createAllocation_Inr [OF new r1(2)]) blast
    have "v = sum_list (map al_value lost)" using numeric_total [OF money(2)] r(4) by (simp add: mergeParked_def)
    with r False show ?thesis by (simp add: parked_rest_def)
  qed
  have rows2: "rows2 = cd_allocations db @ news" using r1 r2 by (simp add: news_def)
  have key_news: "\<forall>a\<in>set news. al_key a = (?q, mv_item m)"
  proof
    fix a assume "a \<in> set news"
    then consider i r where "(i, r) \<in> set (enumerate 0 kept)" "a = carried e ids ?q ?own i r"
      | "a \<in> set (parked_rest e ids ?q (mv_item m) (length kept) lost)" by (auto simp: news_def)
    then show "al_key a = (?q, mv_item m)"
    proof cases
      case 1
      then have "r \<in> set rows" by (auto simp: kept_def dest!: set_zip_rightD simp: enumerate_eq_zip)
      with 1(2) rows show ?thesis by (simp add: al_key_def)
    next
      case 2
      then show ?thesis by (auto simp: parked_rest_def al_key_def split: if_splits)
    qed
  qed
  have "rows' = filter (\<lambda>a. al_key a \<noteq> (p, mv_item m)) rows2"
    unfolding rows'
  proof (rule delete_key)
    show "rows_sound rows2" using r2 by blast
    show "r \<in> set rows \<longleftrightarrow> r \<in> set rows2 \<and> al_key r = (p, mv_item m)" for r
      unfolding rows2 using rows [of r] key_news apart by auto
  qed
  also have "\<dots> = filter (\<lambda>a. al_key a \<noteq> (p, mv_item m)) (cd_allocations db) @ news"
    using key_news apart by (simp add: rows2 filter_id_conv)
  finally have eq: "rows' = \<dots>" .
  have "rows_sound (filter P rows2)" for P using rows_sound_filter r2 by blast
  with \<open>rows' = filter _ rows2\<close> eq key_news show ?thesis by simp
qed

lemma listForItem: "mset (listAllocationsForItem p j rows) = mset (rows_of (p, j) rows)"
  "r \<in> set (listAllocationsForItem p j rows) \<longleftrightarrow> r \<in> set rows \<and> al_key r = (p, j)"
  by (simp_all add: listAllocationsForItem_def rows_of_def al_key_def)

lemma check_move_Inr:
  assumes "check_move e p m db = Inr (target, rows, releaseMoves)"
  shows "mv_target m \<noteq> p \<and> target \<in> set (cd_plans db) \<and> cp_id target = mv_target m \<and> cp_workspace target = e_ws e \<and>
    rows = listAllocationsForItem p (mv_item m) (cd_allocations db) \<and> rows \<noteq> [] \<and>
    (\<forall>a\<in>set (cd_allocations db). al_key a \<noteq> (mv_target m, mv_item m)) \<and>
    (\<exists>plan. requireDraft e db p = Inr plan \<and> cp_project target = cp_project plan \<and>
      hasProjectPermission (e_eff e) (cp_project plan) ''capacity:manage'') \<and>
    (mv_republish m \<or> cp_status target = Published \<longrightarrow> hasProjectPermission (e_eff e) (cp_project target) ''capacity:publish'') \<and>
    findPlan db (mv_target m) (e_ws e) = Some target \<and> (\<exists>item. getItem e db (mv_item m) = Inr item)"
proof -
  from planning_Inr [OF assms [unfolded check_move_def]] obtain source where
    s: "requireDraft e db p = Inr source" "hasProjectPermission (e_eff e) (cp_project source) ''capacity:manage''" and
    t: "mv_target m \<noteq> p" "findPlan db (mv_target m) (e_ws e) = Some target" "cp_project target = cp_project source"
    "mv_republish m \<or> cp_status target = Published \<longrightarrow> hasProjectPermission (e_eff e) (cp_project target) ''capacity:publish''"
    "rows = listAllocationsForItem p (mv_item m) (cd_allocations db)" "rows \<noteq> []"
    "listAllocationsForItem (mv_target m) (mv_item m) (cd_allocations db) = []" "\<exists>item. getItem e db (mv_item m) = Inr item"
    by (fastforce simp: bind_sum_Inr Let_def assertProjectPermission_def split: if_splits option.splits)
  have "a \<notin> set (listAllocationsForItem (mv_target m) (mv_item m) (cd_allocations db))" for a using t(7) by simp
  then have "\<forall>a\<in>set (cd_allocations db). al_key a \<noteq> (mv_target m, mv_item m)" using listForItem(2) by blast
  with s t show ?thesis by (auto simp: findPlan_def find_Some_iff)
qed

lemma sum_split: "sum_list (map f (filter P xs)) + sum_list (map f (filter (\<lambda>x. \<not> P x) xs)) = sum_list (map f xs)" for f :: "'a \<Rightarrow> num"
  by (induction xs) (simp_all add: ac_simps)

lemma carried_total: "sum_list (map al_value (map (\<lambda>(i, r). carried e ids q own i r) (enumerate n rs))) = sum_list (map al_value rs)"
  by (induction rs arbitrary: n) simp_all

lemma rest_total: "sum_list (map al_value (parked_rest e ids q item n lost)) = sum_list (map al_value lost)"
  by (simp add: parked_rest_def)

lemma move_rows_ok:
  assumes ok: "alloc_ok (cd_planTeams db) (cd_allocations db)"
    and check: "check_move e p m db = Inr (target, rows, releaseMoves)" and step: "move_rows e ids p m rows db = Inr rows'"
  shows "alloc_ok (cd_planTeams db) rows' \<and> demand (mv_target m, mv_item m) rows' = demand (p, mv_item m) (cd_allocations db) \<and>
    rows_of (p, mv_item m) rows' = [] \<and>
    (\<forall>k. k \<noteq> (p, mv_item m) \<and> k \<noteq> (mv_target m, mv_item m) \<longrightarrow> rows_of k rows' = rows_of k (cd_allocations db)) \<and>
    (\<forall>a\<in>set rows'. al_plan a = mv_target m \<or> a \<in> set (cd_allocations db)) \<and>
    (\<exists>a\<in>set rows'. al_key a = (mv_target m, mv_item m))"
proof -
  let ?q = "mv_target m" and ?j = "mv_item m" and ?rows = "cd_allocations db"
  let ?kept = "filter (carriable db ?q) rows" and ?lost = "filter (\<lambda>r. \<not> carriable db ?q r) rows"
  let ?own = "list_ex al_primary ?kept"
  let ?carried = "map (\<lambda>(i, r). carried e ids ?q ?own i r) (enumerate 0 ?kept)"
  let ?news = "?carried @ parked_rest e ids ?q ?j (length ?kept) ?lost"
  from check_move_Inr [OF check] have apart: "?q \<noteq> p" and rows: "rows = listAllocationsForItem p ?j ?rows"
    and free: "\<forall>a\<in>set ?rows. al_key a \<noteq> (?q, ?j)" and ne: "rows \<noteq> []" by blast+
  have sound: "rows_sound ?rows" and own: "owned ?rows" using ok by (simp_all add: alloc_ok_def)
  have mem: "r \<in> set rows \<longleftrightarrow> r \<in> set ?rows \<and> al_key r = (p, ?j)" for r unfolding rows by (rule listForItem(2))
  from move_rows_Inr [OF sound step mem apart]
  have rows': "rows' = filter (\<lambda>a. al_key a \<noteq> (p, ?j)) ?rows @ ?news" and sound': "rows_sound rows'"
    and key: "\<forall>a\<in>set ?news. al_key a = (?q, ?j)" by blast+
  have other: "rows_of k rows' = rows_of k ?rows" if "k \<noteq> (p, ?j)" "k \<noteq> (?q, ?j)" for k
  proof -
    have "rows_of k ?news = []" using key that unfolding rows_of_def filter_empty_conv by blast
    moreover have "rows_of k (filter (\<lambda>a. al_key a \<noteq> (p, ?j)) ?rows) = rows_of k ?rows"
      using that unfolding rows_of_def filter_filter by (intro filter_cong) auto
    ultimately show ?thesis unfolding rows' rows_of_append by simp
  qed
  have gone: "rows_of (p, ?j) rows' = []"
  proof -
    have "\<forall>a\<in>set ?news. al_key a \<noteq> (p, ?j)" using key apart by (metis prod.inject)
    then have "rows_of (p, ?j) ?news = []" unfolding rows_of_def filter_empty_conv .
    then show ?thesis unfolding rows' rows_of_append by (simp add: rows_of_def)
  qed
  have "rows_of (?q, ?j) rows' = ?news"
  proof -
    have "rows_of (?q, ?j) ?news = ?news" using key unfolding rows_of_def filter_id_conv by blast
    moreover have "rows_of (?q, ?j) (filter (\<lambda>a. al_key a \<noteq> (p, ?j)) ?rows) = []"
      using free unfolding rows_of_def filter_empty_conv by simp
    ultimately show ?thesis unfolding rows' rows_of_append by simp
  qed
  then have "demand (?q, ?j) rows' = sum_list (map al_value ?carried) + sum_list (map al_value (parked_rest e ids ?q ?j (length ?kept) ?lost))"
    by (simp add: demand_def)
  also have "\<dots> = sum_list (map al_value rows)" unfolding carried_total rest_total by (rule sum_split)
  also have "\<dots> = demand (p, ?j) ?rows"
    unfolding demand_def rows by (metis listForItem(1) mset_map sum_mset_sum_list)
  finally have total: "demand (?q, ?j) rows' = demand (p, ?j) ?rows" .
  have "owned_key rows' (?q, ?j)"
    unfolding owned_key_def
  proof
    assume "\<exists>a\<in>set rows'. al_key a = (?q, ?j) \<and> al_team a \<noteq> None"
    then obtain a where "a \<in> set ?news" "al_team a \<noteq> None" using free rows' by auto
    then have "a \<in> set ?carried" by (auto simp: parked_rest_def split: if_splits)
    then have kept_ne: "?kept \<noteq> []" by auto
    have at: "carried e ids ?q ?own i (?kept ! i) \<in> set ?carried" if "i < length ?kept" for i
      using that unfolding set_map by (intro image_eqI [where x = "(i, ?kept ! i)"]) (simp_all add: in_set_enumerate_eq)
    have "\<exists>i < length ?kept. al_primary (carried e ids ?q ?own i (?kept ! i))"
    proof (cases ?own)
      case True
      then obtain i where "i < length ?kept" "al_primary (?kept ! i)" by (auto simp: list_ex_length)
      with True show ?thesis by auto
    next
      case False
      with kept_ne show ?thesis by (intro exI [of _ 0]) simp
    qed
    with at obtain i where "carried e ids ?q ?own i (?kept ! i) \<in> set ?carried" "al_primary (carried e ids ?q ?own i (?kept ! i))" by blast
    then show "\<exists>b\<in>set rows'. al_key b = (?q, ?j) \<and> al_primary b" using key rows' by (metis Un_iff set_append)
  qed
  moreover have "owned_key rows' (p, ?j)" using gone owned_key_cong [of "(p, ?j)" rows' "[]"] by (simp add: rows_of_def owned_key_def)
  moreover have "owned_key rows' k" if "k \<noteq> (p, ?j)" "k \<noteq> (?q, ?j)" for k
    using owned_key_cong [OF other [OF that]] own unfolding owned_def by blast
  ultimately have "owned rows'" unfolding owned_def by metis
  moreover have "on_plan (cd_planTeams db) a" if "a \<in> set rows'" for a
  proof -
    from that rows' consider "a \<in> set ?rows" | "a \<in> set ?carried" | "al_team a = None"
      by (auto simp: parked_rest_def split: if_splits)
    then show ?thesis
    proof cases
      case 2
      then obtain i r where "r \<in> set ?kept" "a = carried e ids ?q ?own i r"
        by (auto dest!: set_zip_rightD simp: enumerate_eq_zip)
      then show ?thesis by (auto simp: on_plan_def carriable_def findTeam_def find_None_iff)
    qed (use ok in \<open>auto simp: alloc_ok_def on_plan_def\<close>)
  qed
  moreover have "\<forall>a\<in>set rows'. al_plan a = ?q \<or> a \<in> set ?rows" using rows' key by (auto simp: al_key_def)
  moreover have "?news \<noteq> []"
  proof
    assume "?news = []"
    then have "length ?carried = 0" "?lost = []" by (simp_all add: parked_rest_def split: if_splits)
    then have "?kept = []" "?lost = []" by (simp_all only: length_map length_enumerate length_0_conv)
    then have "\<not> carriable db ?q (hd rows) \<and> carriable db ?q (hd rows)"
      using hd_in_set [OF ne] by (metis (mono_tags, lifting) filter_empty_conv)
    then show False by simp
  qed
  then have hd: "hd ?news \<in> set ?news" by (rule hd_in_set)
  then have "hd ?news \<in> set rows'" unfolding rows' set_append by blast
  then have "\<exists>a\<in>set rows'. al_key a = (?q, ?j)" using key hd by blast
  ultimately show ?thesis using sound' total gone other by (simp add: alloc_ok_def)
qed

end
