(* ===== verification/CapacityProtocol.thy ===== *)
theory CapacityProtocol
  imports CapacityRuns
begin

text \<open>
  Sequences of capacity requests: every one keeps the invariant of the tables, leaves a published plan as it
  is (unless it is reverted, deleted, or takes a Feature from another plan), and changes something only for a
  caller with the permission. What publishing writes.
\<close>

section \<open>Requests\<close>

datatype cap_call =
    Create_plan uuid uuid uuid string CapacityPlanUnit "iso_date option" "iso_date option"
  | Delete_plan uuid
  | Update_plan uuid "string option" "iso_date option option" "iso_date option option"
  | Add_team uuid uuid
  | Set_capacity uuid uuid "num option"
  | Remove_team uuid uuid
  | Allocate uuid uuid uuid "uuid option" "num option"
  | Change_allocation uuid uuid "num option option" "uuid option option"
  | Set_primary uuid uuid
  | Remove_item uuid uuid
  | Remove_allocation uuid uuid
  | Publish_plan uuid bool
  | Revert_plan uuid
  | Move_item "nat \<Rightarrow> uuid" uuid move_request

definition settle :: "api_error + cap_db \<Rightarrow> cap_db \<Rightarrow> (api_error + unit) \<times> cap_db" where
  "settle r db = (case r of Inl x \<Rightarrow> (Inl x, db) | Inr db' \<Rightarrow> (Inr (), db'))"

text \<open>One request at a time: the outcome and the tables after it.\<close>

fun cap_exec :: "env \<Rightarrow> cap_call \<Rightarrow> cap_db \<Rightarrow> (api_error + unit) \<times> cap_db" where
  "cap_exec e (Create_plan i projectId releaseId name unit start finish) db =
     settle (createPlan e (\<lambda>_ plans. plans) i projectId releaseId name unit start finish db) db"
| "cap_exec e (Delete_plan p) db = settle (deletePlan e p db) db"
| "cap_exec e (Update_plan p name start finish) db = settle (updatePlan e p name start finish db) db"
| "cap_exec e (Add_team p t) db = settle (addTeam e p t db) db"
| "cap_exec e (Set_capacity p t c) db = settle (setTeamCapacity e p t c db) db"
| "cap_exec e (Remove_team p t) db = settle (removeTeam e p t db) db"
| "cap_exec e (Allocate i p j t v) db = settle (allocate e i p j t v db) db"
| "cap_exec e (Change_allocation p i v t) db = settle (updateAllocationOf e p i v t db) db"
| "cap_exec e (Set_primary p i) db = settle (setPrimaryAllocation e p i db) db"
| "cap_exec e (Remove_item p j) db = settle (removeItemFromPlan e p j db) db"
| "cap_exec e (Remove_allocation p i) db = settle (removeAllocation e p i db) db"
| "cap_exec e (Publish_plan p b) db = settle (map_sum id fst (publishPlan e p b db)) db"
| "cap_exec e (Revert_plan p) db = settle (revertPlan e p db) db"
| "cap_exec e (Move_item ids p m) db = moveItemToPlan e (\<lambda>d. d) ids p m db"

fun cap_run :: "(env \<times> cap_call) list \<Rightarrow> cap_db \<Rightarrow> cap_db" where
  "cap_run [] db = db"
| "cap_run ((e, c) # cs) db = cap_run cs (snd (cap_exec e c db))"

section \<open>The invariant\<close>

lemma cap_inv_alloc: "cap_inv db \<longleftrightarrow> plans_sound (cd_plans db) \<and> distinct (map (\<lambda>t. (ct_plan t, ct_team t)) (cd_planTeams db)) \<and>
    alloc_ok (cd_planTeams db) (cd_allocations db)"
  by (auto simp: cap_inv_def alloc_ok_def)

lemma cap_inv_rows: "cap_inv db \<Longrightarrow> alloc_ok (cd_planTeams db) rows \<Longrightarrow> cap_inv (db\<lparr>cd_allocations := rows\<rparr>)"
  by (simp add: cap_inv_alloc)

lemma plans_sound_update:
  assumes "plans_sound plans" "\<And>p. cp_id (f p) = cp_id p" "\<And>p. cp_project (f p) = cp_project p" "\<And>p. cp_release (f p) = cp_release p"
    "\<And>p. cp_key (f p) = cp_key p"
  shows "plans_sound (update_where P f plans)"
proof -
  have "map cp_id (update_where P f plans) = map cp_id plans"
    "map (\<lambda>p. (cp_project p, cp_release p)) (update_where P f plans) = map (\<lambda>p. (cp_project p, cp_release p)) plans"
    "map (\<lambda>p. (cp_project p, cp_key p)) (update_where P f plans) = map (\<lambda>p. (cp_project p, cp_key p)) plans"
    using assms(2-5) by (simp_all add: map_update_where)
  with assms(1) show ?thesis unfolding plans_sound_def by simp
qed

lemma plan_tries_sound:
  assumes "plan_tries (\<lambda>_ plans. plans) row n fuel plans = Inr plans'" "plans_sound plans"
  shows "plans_sound plans' \<and> (\<exists>row'. plans' = plans @ [row'] \<and> row' = row\<lparr>cp_key := cp_key row'\<rparr>)"
  using assms
proof (induction fuel arbitrary: n)
  case (Suc fuel)
  let ?row = "row\<lparr>cp_key := ''CP-'' @ decimal (nextPlanNumber plans (cp_project row) (cp_workspace row))\<rparr>"
  show ?case
  proof (cases "plan_clash plans ?row")
    case True
    with Suc show ?thesis by (auto simp: Let_def split: if_splits)
  next
    case False
    then have "plans' = plans @ [?row]" using Suc.prems(1) by (simp add: Let_def)
    moreover have "plans_sound (plans @ [?row])" using Suc.prems(2) False by (auto simp: plans_sound_def plan_clash_def)
    ultimately show ?thesis by auto
  qed
qed simp

lemma cap_inv_create:
  assumes "cap_inv db" "createPlan e (\<lambda>_ plans. plans) i projectId releaseId name unit start finish db = Inr db'"
  shows "cap_inv db' \<and> (\<exists>row. db' = db\<lparr>cd_plans := cd_plans db @ [row]\<rparr> \<and> cp_id row = i \<and> cp_status row = Draft \<and> cp_project row = projectId)"
proof -
  from assms(2) obtain row plans where tries: "plan_tries (\<lambda>_ plans. plans) row 0 PLAN_KEY_RETRIES (cd_plans db) = Inr plans"
    and row: "cp_id row = i" "cp_status row = Draft" "cp_project row = projectId" and db': "db' = db\<lparr>cd_plans := plans\<rparr>"
    by (auto simp: createPlan_def bind_sum_Inr split: if_splits)
  have "plans_sound (cd_plans db)" using assms(1) by (simp add: cap_inv_def)
  from plan_tries_sound [OF tries this] obtain row' where "plans_sound plans" "plans = cd_plans db @ [row']" "row' = row\<lparr>cp_key := cp_key row'\<rparr>"
    by blast
  moreover from this(3) row have "cp_id row' = i" "cp_status row' = Draft" "cp_project row' = projectId"
    by (metis plan_row.select_convs plan_row.simps plan_row.surjective plan_row.update_convs(5))+
  ultimately show ?thesis using assms(1) db' by (auto simp: cap_inv_alloc)
qed

lemma cap_inv_delete:
  assumes "cap_inv db" "deletePlan e p db = Inr db'"
  shows "cap_inv db'"
proof -
  from assms(2) have db': "db' = db\<lparr>cd_plans := filter (\<lambda>q. \<not> (cp_id q = p \<and> cp_workspace q = e_ws e)) (cd_plans db),
                  cd_planTeams := filter (\<lambda>t. ct_plan t \<noteq> p) (cd_planTeams db),
                  cd_allocations := filter (\<lambda>a. al_plan a \<noteq> p) (cd_allocations db)\<rparr>"
    by (auto simp: deletePlan_def bind_sum_Inr split: option.splits)
  have "plans_sound (filter P (cd_plans db))" for P
    using assms(1) by (auto simp: cap_inv_def plans_sound_def intro: distinct_map_filter)
  moreover have "distinct (map (\<lambda>t. (ct_plan t, ct_team t)) (filter P (cd_planTeams db)))" for P
    using assms(1) by (auto simp: cap_inv_def intro: distinct_map_filter)
  moreover have "rows_sound (filter (\<lambda>a. al_plan a \<noteq> p) (cd_allocations db))"
    using assms(1) rows_sound_filter by (auto simp: cap_inv_def)
  moreover have "owned (filter (\<lambda>a. al_plan a \<noteq> p) (cd_allocations db))"
    unfolding owned_def owned_key_def
  proof (intro allI impI)
    fix k assume "\<exists>a\<in>set (filter (\<lambda>a. al_plan a \<noteq> p) (cd_allocations db)). al_key a = k \<and> al_team a \<noteq> None"
    then obtain a where a: "a \<in> set (cd_allocations db)" "al_plan a \<noteq> p" "al_key a = k" "al_team a \<noteq> None" by auto
    with assms(1) owned_keyD [OF _ a(1,4)] obtain b where "b \<in> set (cd_allocations db)" "al_key b = al_key a" "al_primary b"
      by (auto simp: cap_inv_def)
    with a show "\<exists>b\<in>set (filter (\<lambda>a. al_plan a \<noteq> p) (cd_allocations db)). al_key b = k \<and> al_primary b"
      by (auto simp: al_key_eq)
  qed
  moreover have "on_plan (filter (\<lambda>t. ct_plan t \<noteq> p) (cd_planTeams db)) a" if "a \<in> set (filter (\<lambda>a. al_plan a \<noteq> p) (cd_allocations db))" for a
    using that assms(1) by (fastforce simp: cap_inv_def on_plan_def)
  ultimately show ?thesis using db' by (simp add: cap_inv_def)
qed

lemma cap_inv_plan_row:
  assumes "cap_inv db" "\<And>p. cp_id (f p) = cp_id p" "\<And>p. cp_project (f p) = cp_project p" "\<And>p. cp_release (f p) = cp_release p"
    "\<And>p. cp_key (f p) = cp_key p"
  shows "cap_inv (update_plan_row e i f db)"
  using assms plans_sound_update [OF _ assms(2-5)] by (simp add: cap_inv_def update_plan_row_def)

lemma cap_inv_status: "cap_inv db \<Longrightarrow> cap_inv (setStatus e i s u db)"
  unfolding setStatus_def by (rule cap_inv_plan_row) simp_all

lemma cap_inv_items: "cap_inv (db\<lparr>cd_items := x\<rparr>) \<longleftrightarrow> cap_inv db"
  by (simp add: cap_inv_def)

lemma on_plan_cong: "(\<lambda>t. (ct_plan t, ct_team t)) ` set ts = (\<lambda>t. (ct_plan t, ct_team t)) ` set us \<Longrightarrow> on_plan ts a \<Longrightarrow> on_plan us a"
  unfolding on_plan_def by (smt (verit, best) Pair_inject image_iff)

lemma cap_inv_addTeam: "cap_inv db \<Longrightarrow> addTeam e p t db = Inr db' \<Longrightarrow> cap_inv db'"
  by (auto simp: addTeam_def planning_def bind_sum_Inr findTeam_def find_None_iff cap_inv_def on_plan_def split: if_splits)

lemma cap_inv_capacity:
  assumes "cap_inv db" "setTeamCapacity e p t c db = Inr db'"
  shows "cap_inv db'"
proof -
  from assms(2) obtain c' where db': "db' = db\<lparr>cd_planTeams := update_where (\<lambda>x. ct_plan x = p \<and> ct_team x = t) (\<lambda>x. x\<lparr>ct_capacity := c'\<rparr>) (cd_planTeams db)\<rparr>"
    by (auto simp: setTeamCapacity_def planning_def bind_sum_Inr)
  have same: "map (\<lambda>x. (ct_plan x, ct_team x)) (cd_planTeams db') = map (\<lambda>x. (ct_plan x, ct_team x)) (cd_planTeams db)"
    using db' by (simp add: map_update_where)
  then have "(\<lambda>x. (ct_plan x, ct_team x)) ` set (cd_planTeams db) = (\<lambda>x. (ct_plan x, ct_team x)) ` set (cd_planTeams db')"
    by (metis list.set_map)
  from on_plan_cong [OF this] same assms(1) db' show ?thesis by (simp add: cap_inv_def)
qed

lemma cap_inv_removeItem:
  assumes inv: "cap_inv db" and step: "removeItemFromPlan e p j db = Inr db'"
  shows "cap_inv db' \<and> db' = db\<lparr>cd_allocations := filter (\<lambda>a. al_key a \<noteq> (p, j)) (cd_allocations db)\<rparr>"
proof -
  have sound: "rows_sound (cd_allocations db)" using inv by (simp add: cap_inv_def)
  let ?left = "filter (\<lambda>a. al_key a \<noteq> (p, j)) (cd_allocations db)"
  have "fold (\<lambda>r. deleteAllocation (al_id r)) (listAllocationsForItem p j (cd_allocations db)) (cd_allocations db) = ?left"
    by (rule delete_key [OF sound listForItem(2)])
  with step have db': "db' = db\<lparr>cd_allocations := ?left\<rparr>"
    by (auto simp: removeItemFromPlan_def planning_def bind_sum_Inr Let_def split: if_splits)
  have "rows_of k ?left = rows_of k (cd_allocations db)" if "k \<noteq> (p, j)" for k
    using that unfolding rows_of_def filter_filter by (intro filter_cong) auto
  moreover have "owned_key ?left (p, j)" by (simp add: owned_key_def)
  ultimately have "owned ?left" using inv owned_by_key [of "cd_allocations db" "(p, j)" ?left] by (simp add: cap_inv_def)
  then have "alloc_ok (cd_planTeams db) ?left" using inv rows_sound_filter by (auto simp: cap_inv_def alloc_ok_def)
  with db' cap_inv_rows [OF inv] show ?thesis by blast
qed

lemma publish_Inr:
  assumes "publishPlan e p b db = Inr (db', n, skips)"
  shows "\<exists>items. db' = setStatus e p Published (Some (e_actor e)) (db\<lparr>cd_items := items\<rparr>)"
proof -
  from assms have "\<exists>its. db' = setStatus e p Published (Some (e_actor e)) (db\<lparr>cd_items := its\<rparr>) \<or>
      db' = setStatus e p Published (Some (e_actor e)) db"
    by (auto simp: publishPlan_def bind_sum_Inr Let_def split: if_splits prod.splits)
  moreover have "db = db\<lparr>cd_items := cd_items db\<rparr>" by simp
  ultimately show ?thesis by metis
qed

lemma cap_inv_publish: "cap_inv db \<Longrightarrow> publishPlan e p b db = Inr (db', n, skips) \<Longrightarrow> cap_inv db'"
  using publish_Inr [of e p b db db' n skips] cap_inv_status cap_inv_items by metis

lemma cap_inv_move_tx: "cap_inv db \<Longrightarrow> move_tx e ids p m db = Inr db' \<Longrightarrow> cap_inv db'"
proof -
  assume inv: "cap_inv db" and "move_tx e ids p m db = Inr db'"
  then obtain target rows releaseMoves rows' where
    check: "check_move e p m db = Inr (target, rows, releaseMoves)" and step: "move_rows e ids p m rows db = Inr rows'" and
    db': "db' = (let db1 = db\<lparr>cd_allocations := rows'\<rparr>;
         db2 = (if releaseMoves then db1\<lparr>cd_items := setFeatureRelease e (mv_item m) (cp_release target) (cd_items db1)\<rparr> else db1)
     in if cp_status target = Published then setStatus e (mv_target m) Draft None db2 else db2)"
    by (auto simp: move_tx_def bind_sum_Inr Let_def)
  from move_rows_ok [OF _ check step] inv have "cap_inv (db\<lparr>cd_allocations := rows'\<rparr>)" by (simp add: cap_inv_alloc)
  then show ?thesis unfolding db' Let_def by (auto intro!: cap_inv_status simp: cap_inv_items)
qed

lemma cap_inv_alloc_handlers:
  "cap_inv db \<Longrightarrow> allocate e i p j t v db = Inr db' \<Longrightarrow> cap_inv db'"
  "cap_inv db \<Longrightarrow> updateAllocationOf e p i w u db = Inr db' \<Longrightarrow> cap_inv db'"
  "cap_inv db \<Longrightarrow> setPrimaryAllocation e p i db = Inr db' \<Longrightarrow> cap_inv db'"
  "cap_inv db \<Longrightarrow> removeAllocation e p i db = Inr db' \<Longrightarrow> cap_inv db'"
  using alloc_ok_allocate [of db e i p j t v db'] alloc_ok_updateAllocationOf [of db e p i w u db'] alloc_ok_setPrimary [of db e p i db']
    alloc_ok_removeAllocation [of db e p i db'] by (auto simp: cap_inv_alloc)

lemma cap_inv_exec: "cap_inv db \<Longrightarrow> cap_inv (snd (cap_exec e c db))"
proof (cases c)
  case (Move_item ids p m)
  assume "cap_inv db"
  then show ?thesis unfolding Move_item
    by (auto simp: moveItemToPlan_def split: sum.splits prod.splits dest: cap_inv_move_tx cap_inv_publish)
next
  case (Publish_plan p b)
  assume "cap_inv db"
  then show ?thesis unfolding Publish_plan
    by (auto simp: settle_def map_sum_def split: sum.splits dest: cap_inv_publish)
next
  case (Remove_team p t)
  assume inv: "cap_inv db"
  have "cap_inv db'" if "removeTeam e p t db = Inr db'" for db'
    using removeTeam_Inr [OF _ that] inv by (auto simp: cap_inv_alloc distinct_map_filter)
  with inv show ?thesis unfolding Remove_team by (auto simp: settle_def split: sum.splits)
next
  case (Update_plan p name start finish)
  assume inv: "cap_inv db"
  have "cap_inv db'" if "updatePlan e p name start finish db = Inr db'" for db'
    using that inv by (auto simp: updatePlan_def planning_def bind_sum_Inr intro!: cap_inv_plan_row)
  with inv show ?thesis unfolding Update_plan by (auto simp: settle_def split: sum.splits)
next
  case (Revert_plan p)
  assume inv: "cap_inv db"
  have "cap_inv db'" if "revertPlan e p db = Inr db'" for db'
    using that inv by (auto simp: revertPlan_def bind_sum_Inr split: option.splits if_splits intro!: cap_inv_status)
  with inv show ?thesis unfolding Revert_plan by (auto simp: settle_def split: sum.splits)
qed (auto simp: settle_def cap_inv_alloc [symmetric] split: sum.splits
     dest: cap_inv_create cap_inv_delete cap_inv_addTeam cap_inv_capacity cap_inv_removeItem cap_inv_alloc_handlers)

lemma cap_inv_run: "cap_inv db \<Longrightarrow> cap_inv (cap_run cs db)"
  by (induction cs db rule: cap_run.induct) (auto intro: cap_inv_exec)

text \<open>C17: After any sequence of capacity requests, on tables that were sound: every Feature has at most one
  row per team of a plan and one parked row, at most one primary row, and a primary row as soon as it has a team row; a row's team is a
  team of its plan; every committed value is a non-negative amount of whole hundredths below 10^8; each release has at most one plan.\<close>

theorem allocations_sound:
  assumes "cap_inv db" and after: "db' = cap_run cs db"
  shows "(\<forall>a\<in>set (cd_allocations db'). \<forall>b\<in>set (cd_allocations db').
      al_key a = al_key b \<and> (al_team a = al_team b \<or> al_primary a \<and> al_primary b) \<longrightarrow> a = b) \<and>
    (\<forall>a\<in>set (cd_allocations db'). al_team a \<noteq> None \<longrightarrow> (\<exists>b\<in>set (cd_allocations db'). al_key b = al_key a \<and> al_primary b \<and> al_team b \<noteq> None)) \<and>
    (\<forall>a\<in>set (cd_allocations db'). \<forall>t. al_team a = Some t \<longrightarrow> (\<exists>c\<in>set (cd_planTeams db'). ct_plan c = al_plan a \<and> ct_team c = t)) \<and>
    (\<forall>a\<in>set (cd_allocations db'). 0 \<le> al_value a \<and> al_value a < 10 ^ 8 \<and> (\<exists>n. al_value a * 100 = of_int n)) \<and>
    distinct (map (\<lambda>p. (cp_project p, cp_release p)) (cd_plans db'))"
proof -
  have inv: "cap_inv db'" unfolding after by (rule cap_inv_run [OF assms(1)])
  then have ok: "alloc_ok (cd_planTeams db') (cd_allocations db')" and sound: "rows_sound (cd_allocations db')"
    and own: "owned (cd_allocations db')" by (simp_all add: cap_inv_alloc alloc_ok_def)
  have "\<exists>b\<in>set (cd_allocations db'). al_key b = al_key a \<and> al_primary b \<and> al_team b \<noteq> None"
    if "a \<in> set (cd_allocations db')" "al_team a \<noteq> None" for a
    using owned_keyD [OF own that] primary_has_team [OF ok] by blast
  moreover have "\<exists>n. al_value a * 100 = of_int n" if "a \<in> set (cd_allocations db')" for a
    using sound_row [OF sound that] money_int by (simp add: row_ok_def)
  moreover have "0 \<le> al_value a \<and> al_value a < 10 ^ 8" if "a \<in> set (cd_allocations db')" for a
    using sound_row [OF sound that] by (simp add: row_ok_def money_def)
  ultimately show ?thesis
    using inv sound_team [OF sound] sound_primary [OF sound] by (auto simp: cap_inv_def on_plan_def plans_sound_def)
qed

section \<open>What a request leaves alone\<close>

text \<open>The rows of every other plan stay.\<close>

definition local_to :: "uuid \<Rightarrow> allocation_row list \<Rightarrow> allocation_row list \<Rightarrow> bool" where
  "local_to p rows rows' \<longleftrightarrow> (\<forall>k. fst k \<noteq> p \<longrightarrow> rows_of k rows' = rows_of k rows)"

lemma local_refl [simp]: "local_to p rows rows"
  by (simp add: local_to_def)

lemma local_trans: "local_to p rows rows1 \<Longrightarrow> local_to p rows1 rows2 \<Longrightarrow> local_to p rows rows2"
  by (simp add: local_to_def)

lemma local_update:
  assumes "updateAllocation i f rows = Inr rows'" "rows_sound rows" "\<And>a. al_id (f a) = al_id a" "\<And>a. al_key (f a) = al_key a"
    and "a \<in> set rows" "al_id a = i" "al_plan a = p"
  shows "local_to p rows rows'"
proof -
  have "fst (al_key a) = p" using assms(7) by (simp add: al_key_def)
  moreover obtain a' where "al_key a' = al_key a" "\<And>k. k \<noteq> al_key a \<Longrightarrow> rows_of k rows' = rows_of k rows"
    by (rule update_keyed [OF assms(1-6)]) blast
  ultimately show ?thesis unfolding local_to_def by metis
qed

lemma local_promote:
  assumes "promote p j rows = Inr rows'" "rows_sound rows"
  shows "local_to p rows rows'"
proof -
  have "\<forall>k. k \<noteq> (p, j) \<longrightarrow> rows_of k rows' = rows_of k rows" using promote_Inr [OF assms] by blast
  then show ?thesis unfolding local_to_def by (metis fst_conv)
qed

lemma local_delete: "rows_sound rows \<Longrightarrow> a \<in> set rows \<Longrightarrow> al_id a = i \<Longrightarrow> al_plan a = p \<Longrightarrow> local_to p rows (deleteAllocation i rows)"
  unfolding local_to_def by (metis al_key_def fst_conv rows_of_delete)

lemma local_create: "createAllocation r rows = Inr rows' \<Longrightarrow> al_plan r = p \<Longrightarrow> local_to p rows rows'"
  by (auto simp: createAllocation_def stored_row_def bind_sum_Inr local_to_def rows_of_def al_key_def split: if_splits)

lemma local_allocate_rows:
  assumes "rows_sound rows" "allocate_rows e i p j t v w rows = Inr rows'"
  shows "local_to p rows rows'"
proof -
  define supplied where "supplied = (\<lambda>a. case v of Some x \<Rightarrow> set_value (x, Manual) a | None \<Rightarrow> a)"
  have keep: "al_id (supplied a) = al_id a" "al_key (supplied a) = al_key a" for a by (simp_all add: supplied_def split: option.split)
  have plan: "a \<in> set rows \<and> al_plan a = p" if "findAllocationFor p j u rows = Some a" for u a
    using find_rows_for [OF that] by (simp add: al_key_def)
  show ?thesis
  proof (cases "if t \<noteq> None then findAllocationFor p j None rows else None")
    case (Some q)
    then have q: "findAllocationFor p j None rows = Some q" by (auto split: if_splits)
    have upd: "updateAllocation (al_id q) (\<lambda>a. (supplied a)\<lparr>al_team := t, al_primary := \<not> hasPrimaryAllocation p j rows\<rparr>) rows = Inr rows'"
      using assms(2) Some by (simp add: allocate_rows_def supplied_def)
    show ?thesis using keep plan [OF q] by (intro local_update [OF upd assms(1), where a = q]) simp_all
  next
    case None
    show ?thesis
    proof (cases "findAllocationFor p j t rows")
      case (Some a)
      with None assms(2) have "(if v \<noteq> None then updateAllocation (al_id a) supplied rows else Inr rows) = Inr rows'"
        by (simp add: allocate_rows_def supplied_def split: if_splits)
      then have "rows' = rows \<or> updateAllocation (al_id a) supplied rows = Inr rows'" by (cases v) simp_all
      then show ?thesis
      proof
        assume "updateAllocation (al_id a) supplied rows = Inr rows'"
        from local_update [OF this assms(1) keep] plan [OF Some] show ?thesis by blast
      qed simp
    next
      case None': None
      with None assms(2) show ?thesis by (auto simp: allocate_rows_def intro: local_create)
    qed
  qed
qed

lemma local_change_rows:
  assumes "rows_sound rows" "change_rows p a r v t rows = Inr rows'" "a \<in> set rows" "al_plan a = p"
  shows "local_to p rows rows'"
proof -
  obtain l q rows1 where upd: "updateAllocation (al_id a) (allocation_change r v t l q) rows = Inr rows1"
    and next': "(if l then promote p (al_item a) rows1 else Inr rows1) = Inr rows'"
    using assms(2) unfolding change_rows_def Let_def bind_sum_Inr by blast
  have "rows_sound rows1"
    by (rule updateAllocation_Inr [OF upd assms(1) allocation_change_simps(1)]) blast
  moreover have "local_to p rows rows1"
    by (rule local_update [OF upd assms(1) allocation_change_simps(1,2) assms(3) refl assms(4)])
  ultimately show ?thesis using next' by (auto split: if_splits intro: local_trans local_promote)
qed

lemma local_park_rows:
  assumes ok: "alloc_ok teams rows" and park: "park_rows p rows (listAllocationsForTeam p t rows) rows = Inr rows1"
    and promote: "promote_each p (filter al_primary (listAllocationsForTeam p t rows)) rows1 = Inr rows2"
  shows "local_to p rows rows2"
proof -
  let ?mine = "listAllocationsForTeam p t rows"
  have sound: "rows_sound rows" using ok by (simp add: alloc_ok_def)
  note mine = team_rows(1) [OF sound]
  from park_rows_Inr [OF park sound team_rows(2) [OF sound], of t] mine
  have s1: "rows_sound rows1" "\<And>k. k \<notin> al_key ` set ?mine \<Longrightarrow> rows_of k rows1 = rows_of k rows" by blast+
  have "\<forall>r\<in>set (filter al_primary ?mine). al_plan r = p" using mine by simp
  from promote_each_Inr [OF promote s1(1) this]
  have s2: "\<And>k. k \<notin> al_key ` set (filter al_primary ?mine) \<Longrightarrow> rows_of k rows2 = rows_of k rows1" by blast
  have "k \<notin> al_key ` set ?mine" if "fst k \<noteq> p" for k using that mine by (auto simp: al_key_def)
  with s1(2) s2 show ?thesis unfolding local_to_def by (metis filter_is_subset image_mono subsetD)
qed

text \<open>The plan a request works on, and the plan it moves a Feature to.\<close>

fun call_plan :: "cap_call \<Rightarrow> uuid" where
  "call_plan (Create_plan i projectId releaseId name unit start finish) = i"
| "call_plan (Delete_plan p) = p"
| "call_plan (Update_plan p name start finish) = p"
| "call_plan (Add_team p t) = p"
| "call_plan (Set_capacity p t c) = p"
| "call_plan (Remove_team p t) = p"
| "call_plan (Allocate i p j t v) = p"
| "call_plan (Change_allocation p i v t) = p"
| "call_plan (Set_primary p i) = p"
| "call_plan (Remove_item p j) = p"
| "call_plan (Remove_allocation p i) = p"
| "call_plan (Publish_plan p b) = p"
| "call_plan (Revert_plan p) = p"
| "call_plan (Move_item ids p m) = p"

fun call_target :: "cap_call \<Rightarrow> uuid option" where
  "call_target (Move_item ids p m) = Some (mv_target m)"
| "call_target _ = None"

definition teams_of :: "uuid \<Rightarrow> cap_db \<Rightarrow> plan_team_row list" where
  "teams_of p db = filter (\<lambda>t. ct_plan t = p) (cd_planTeams db)"

definition allocations_of :: "uuid \<Rightarrow> cap_db \<Rightarrow> allocation_row list" where
  "allocations_of p db = filter (\<lambda>a. al_plan a = p) (cd_allocations db)"

definition untouched :: "uuid \<Rightarrow> cap_db \<Rightarrow> cap_db \<Rightarrow> bool" where
  "untouched q db db' \<longleftrightarrow>
     filter (\<lambda>p. cp_id p = q) (cd_plans db') = filter (\<lambda>p. cp_id p = q) (cd_plans db) \<and>
     teams_of q db' = teams_of q db \<and> (\<forall>j. rows_of (q, j) (cd_allocations db') = rows_of (q, j) (cd_allocations db))"

lemma untouched_refl [simp]: "untouched q db db"
  by (simp add: untouched_def)

lemma untouched_rows: "local_to p (cd_allocations db) rows \<Longrightarrow> q \<noteq> p \<Longrightarrow> untouched q db (db\<lparr>cd_allocations := rows\<rparr>)"
  by (simp add: untouched_def local_to_def teams_of_def)

lemma filter_plan_update:
  "(\<And>x. P x \<Longrightarrow> \<not> R x) \<Longrightarrow> (\<And>x. P x \<Longrightarrow> \<not> R (f x)) \<Longrightarrow> filter R (update_where P f xs) = filter R xs"
  by (induction xs) (auto simp: update_where_def)

lemma untouched_plan_row: "q \<noteq> p \<Longrightarrow> (\<And>x. cp_id (f x) = cp_id x) \<Longrightarrow> untouched q db (update_plan_row e p f db)"
  unfolding untouched_def update_plan_row_def by (auto simp: teams_of_def intro!: filter_plan_update)

lemma untouched_status: "q \<noteq> p \<Longrightarrow> untouched q db (setStatus e p s u db)"
  unfolding setStatus_def by (rule untouched_plan_row) simp_all

lemma untouched_items [simp]: "untouched q db (db'\<lparr>cd_items := x\<rparr>) \<longleftrightarrow> untouched q db db'" "untouched q (db\<lparr>cd_items := x\<rparr>) db' \<longleftrightarrow> untouched q db db'"
  by (simp_all add: untouched_def teams_of_def)

lemma untouched_trans: "untouched q db db1 \<Longrightarrow> untouched q db1 db2 \<Longrightarrow> untouched q db db2"
  by (simp add: untouched_def)

lemma untouched_move_tx:
  assumes inv: "cap_inv db" and step: "move_tx e ids p m db = Inr db'" and q: "q \<noteq> p" "q \<noteq> mv_target m"
  shows "untouched q db db'"
proof -
  from step obtain target rows releaseMoves rows' where
    check: "check_move e p m db = Inr (target, rows, releaseMoves)" and rows: "move_rows e ids p m rows db = Inr rows'" and
    db': "db' = (let db1 = db\<lparr>cd_allocations := rows'\<rparr>;
         db2 = (if releaseMoves then db1\<lparr>cd_items := setFeatureRelease e (mv_item m) (cp_release target) (cd_items db1)\<rparr> else db1)
     in if cp_status target = Published then setStatus e (mv_target m) Draft None db2 else db2)"
    by (auto simp: move_tx_def bind_sum_Inr Let_def)
  from move_rows_ok [OF _ check rows] inv
  have "\<forall>k. k \<noteq> (p, mv_item m) \<and> k \<noteq> (mv_target m, mv_item m) \<longrightarrow> rows_of k rows' = rows_of k (cd_allocations db)"
    by (simp add: cap_inv_alloc)
  then have "untouched q db (db\<lparr>cd_allocations := rows'\<rparr>)" using q by (simp add: untouched_def teams_of_def)
  then show ?thesis unfolding db' Let_def by (auto intro!: untouched_trans [OF _ untouched_status [OF q(2)]])
qed

lemma untouched_publish:
  assumes "publishPlan e p b db = Inr (db', n, skips)" "q \<noteq> p"
  shows "untouched q db db'"
proof -
  from publish_Inr [OF assms(1)] obtain its where "db' = setStatus e p Published (Some (e_actor e)) (db\<lparr>cd_items := its\<rparr>)" by blast
  with untouched_status [OF assms(2), of "db\<lparr>cd_items := its\<rparr>" e Published] show ?thesis by simp
qed

lemma untouched_alloc_handlers:
  assumes inv: "cap_inv db" and q: "q \<noteq> p"
  shows "allocate e i p j t v db = Inr db' \<Longrightarrow> untouched q db db'"
    and "updateAllocationOf e p i w u db = Inr db' \<Longrightarrow> untouched q db db'"
    and "setPrimaryAllocation e p i db = Inr db' \<Longrightarrow> untouched q db db'"
    and "removeAllocation e p i db = Inr db' \<Longrightarrow> untouched q db db'"
    and "removeTeam e p x db = Inr db' \<Longrightarrow> untouched q db db'"
proof -
  have sound: "rows_sound (cd_allocations db)" and ok: "alloc_ok (cd_planTeams db) (cd_allocations db)"
    using inv by (simp_all add: cap_inv_alloc alloc_ok_def)
  note rows = untouched_rows [OF _ q]
  show "untouched q db db'" if "allocate e i p j t v db = Inr db'"
    using that by (auto simp: allocate_def planning_def bind_sum_Inr intro!: rows local_allocate_rows [OF sound])
  show "untouched q db db'" if "updateAllocationOf e p i w u db = Inr db'"
    using that findAllocation_Some [of i p "cd_allocations db"]
    by (auto simp: updateAllocationOf_def planning_def bind_sum_Inr Let_def split: option.splits if_splits intro!: rows local_change_rows [OF sound])
  show "untouched q db db'" if step: "setPrimaryAllocation e p i db = Inr db'"
  proof -
    from step obtain a rows where a: "findAllocation i p (cd_allocations db) = Some a"
      and upd: "updateAllocation i (\<lambda>b. b\<lparr>al_primary := True\<rparr>) (clearPrimaryAllocations p (al_item a) (cd_allocations db)) = Inr rows"
      and db': "db' = db\<lparr>cd_allocations := rows\<rparr>"
      by (auto simp: setPrimaryAllocation_def planning_def bind_sum_Inr split: option.splits if_splits)
    let ?c = "clearPrimaryAllocations p (al_item a) (cd_allocations db)"
    have "rows_of k ?c = rows_of k (cd_allocations db)" if "fst k \<noteq> p" for k
      unfolding rows_of_def clearPrimaryAllocations_def using that by (intro filter_plan_update) (auto simp: al_key_def)
    then have cleared: "local_to p (cd_allocations db) ?c" by (simp add: local_to_def)
    define c where "c = (if al_primary a then a\<lparr>al_primary := False\<rparr> else a)"
    have "c \<in> set ?c"
      unfolding clearPrimaryAllocations_def in_update_where
      using findAllocation_Some [OF a] by (intro bexI [of _ a]) (simp_all add: c_def)
    moreover have "al_id c = i" "al_plan c = p" using findAllocation_Some [OF a] by (simp_all add: c_def)
    ultimately have "local_to p ?c rows" by (intro local_update [OF upd clearPrimary_sound [OF sound]]) simp_all
    then show ?thesis unfolding db' using cleared by (intro rows) (rule local_trans)
  qed
  show "untouched q db db'" if step: "removeAllocation e p i db = Inr db'"
  proof -
    from step obtain a rows where a: "findAllocation i p (cd_allocations db) = Some a"
      and rows': "(if al_primary a then promote p (al_item a) (deleteAllocation i (cd_allocations db)) else Inr (deleteAllocation i (cd_allocations db))) = Inr rows"
      and db': "db' = db\<lparr>cd_allocations := rows\<rparr>"
      by (auto simp: removeAllocation_def planning_def bind_sum_Inr Let_def split: option.splits)
    have "local_to p (cd_allocations db) (deleteAllocation i (cd_allocations db))"
      using findAllocation_Some [OF a] by (intro local_delete [OF sound]) auto
    then have "local_to p (cd_allocations db) rows"
      using rows' local_promote deleteAllocation_sound [OF sound] by (auto split: if_splits intro: local_trans)
    then show ?thesis unfolding db' by (rule rows)
  qed
  show "untouched q db db'" if step: "removeTeam e p x db = Inr db'"
  proof -
    from step obtain rows1 rows2 where
      park: "park_rows p (cd_allocations db) (listAllocationsForTeam p x (cd_allocations db)) (cd_allocations db) = Inr rows1"
      and promote: "promote_each p (filter al_primary (listAllocationsForTeam p x (cd_allocations db))) rows1 = Inr rows2"
      and db': "db' = db\<lparr>cd_allocations := rows2, cd_planTeams := filter (\<lambda>c. \<not> (ct_plan c = p \<and> ct_team c = x)) (cd_planTeams db)\<rparr>"
      by (auto simp: removeTeam_def planning_def bind_sum_Inr Let_def)
    have "filter (\<lambda>t. ct_plan t = q) (filter (\<lambda>c. \<not> (ct_plan c = p \<and> ct_team c = x)) (cd_planTeams db)) = filter (\<lambda>t. ct_plan t = q) (cd_planTeams db)"
      unfolding filter_filter using q by (intro filter_cong) auto
    with local_park_rows [OF ok park promote] q show ?thesis unfolding db' untouched_def local_to_def teams_of_def by simp
  qed
qed

lemma untouched_exec:
  assumes inv: "cap_inv db" and q: "q \<noteq> call_plan c" "call_target c \<noteq> Some q"
  shows "untouched q db (snd (cap_exec e c db))"
proof (cases c)
  case (Move_item ids p m)
  have t: "q \<noteq> p" "q \<noteq> mv_target m" using q Move_item by auto
  show ?thesis
  proof (cases "move_tx e ids p m db")
    case (Inr db1)
    note moved = untouched_move_tx [OF inv Inr t]
    show ?thesis
    proof (cases "publishPlan e (mv_target m) True db1")
      case published: (Inr r)
      obtain db2 n skips where r: "r = (db2, n, skips)" by (cases r)
      from untouched_trans [OF moved untouched_publish [OF published [unfolded r] t(2)]] moved Inr published r
      show ?thesis unfolding Move_item by (simp add: moveItemToPlan_def)
    qed (use Inr moved in \<open>simp add: Move_item moveItemToPlan_def\<close>)
  qed (simp add: Move_item moveItemToPlan_def)
next
  case (Publish_plan p b)
  with q show ?thesis by (auto simp: settle_def map_sum_def split: sum.splits intro: untouched_publish)
next
  case (Create_plan i projectId releaseId name unit start finish)
  have "untouched q db db'" if "createPlan e (\<lambda>_ plans. plans) i projectId releaseId name unit start finish db = Inr db'" for db'
    using cap_inv_create [OF inv that] q Create_plan by (auto simp: untouched_def teams_of_def)
  then show ?thesis unfolding Create_plan by (auto simp: settle_def split: sum.splits)
next
  case (Delete_plan p)
  have "untouched q db db'" if "deletePlan e p db = Inr db'" for db'
  proof -
    have "filter (\<lambda>x. cp_id x = q) (filter (\<lambda>x. \<not> (cp_id x = p \<and> cp_workspace x = e_ws e)) (cd_plans db)) = filter (\<lambda>x. cp_id x = q) (cd_plans db)"
      "filter (\<lambda>t. ct_plan t = q) (filter (\<lambda>t. ct_plan t \<noteq> p) (cd_planTeams db)) = filter (\<lambda>t. ct_plan t = q) (cd_planTeams db)"
      "rows_of (q, j) (filter (\<lambda>a. al_plan a \<noteq> p) (cd_allocations db)) = rows_of (q, j) (cd_allocations db)" for j
      unfolding rows_of_def filter_filter using q Delete_plan by (auto intro!: filter_cong simp: al_key_def)
    with that show ?thesis by (auto simp: deletePlan_def bind_sum_Inr untouched_def teams_of_def split: option.splits)
  qed
  then show ?thesis unfolding Delete_plan by (auto simp: settle_def split: sum.splits)
next
  case (Update_plan p name start finish)
  with q show ?thesis
    by (auto simp: settle_def updatePlan_def planning_def bind_sum_Inr split: sum.splits intro!: untouched_plan_row)
next
  case (Revert_plan p)
  with q show ?thesis
    by (auto simp: settle_def revertPlan_def bind_sum_Inr split: sum.splits option.splits if_splits intro!: untouched_status)
next
  case (Add_team p t)
  with q show ?thesis
    by (auto simp: settle_def addTeam_def planning_def bind_sum_Inr untouched_def teams_of_def split: sum.splits if_splits)
next
  case (Set_capacity p t x)
  with q show ?thesis
    by (auto simp: settle_def setTeamCapacity_def planning_def bind_sum_Inr untouched_def teams_of_def split: sum.splits intro!: filter_plan_update)
next
  case (Remove_item p j)
  have "untouched q db db'" if "removeItemFromPlan e p j db = Inr db'" for db'
  proof -
    have "rows_of (q, i) (filter (\<lambda>a. al_key a \<noteq> (p, j)) (cd_allocations db)) = rows_of (q, i) (cd_allocations db)" for i
      unfolding rows_of_def filter_filter using q Remove_item by (auto intro!: filter_cong)
    with cap_inv_removeItem [OF inv that] show ?thesis by (auto simp: untouched_def teams_of_def)
  qed
  then show ?thesis unfolding Remove_item by (auto simp: settle_def split: sum.splits)
qed (use q untouched_alloc_handlers [OF inv] in \<open>auto simp: settle_def split: sum.splits\<close>)

section \<open>A published plan\<close>

lemma findPlan_unique:
  assumes "plans_sound (cd_plans db)" "plan \<in> set (cd_plans db)" "findPlan db (cp_id plan) ws = Some r"
  shows "r = plan"
proof -
  have "r \<in> set (cd_plans db)" "cp_id r = cp_id plan" using assms(3) by (auto simp: findPlan_def find_Some_iff)
  with assms(1,2) show ?thesis by (auto simp: plans_sound_def distinct_map inj_on_def)
qed

lemma published_not_planned:
  assumes "plans_sound (cd_plans db)" "plan \<in> set (cd_plans db)" "cp_status plan = Published"
  shows "requireDraft e db (cp_id plan) \<noteq> Inr r"
proof
  assume "requireDraft e db (cp_id plan) = Inr r"
  then have "findPlan db (cp_id plan) (e_ws e) = Some r" "cp_status r = Draft"
    by (auto simp: requireDraft_def bind_sum_Inr split: option.splits if_splits)
  from findPlan_unique [OF assms(1,2) this(1)] this(2) assms(3) show False by simp
qed

lemma plan_tries_taken: "\<exists>r\<in>set plans. cp_id r = cp_id row \<Longrightarrow> plan_tries (\<lambda>_ plans. plans) row n fuel plans \<noteq> Inr plans'"
  by (induction fuel arbitrary: n) (auto simp: Let_def plan_clash_def)

lemma created_taken:
  assumes "plan \<in> set (cd_plans db)"
  shows "createPlan e (\<lambda>_ plans. plans) (cp_id plan) projectId releaseId name unit start finish db \<noteq> Inr db'"
proof
  assume "createPlan e (\<lambda>_ plans. plans) (cp_id plan) projectId releaseId name unit start finish db = Inr db'"
  then obtain row plans where "plan_tries (\<lambda>_ plans. plans) row 0 PLAN_KEY_RETRIES (cd_plans db) = Inr plans" "cp_id row = cp_id plan"
    by (auto simp: createPlan_def bind_sum_Inr split: if_splits)
  with plan_tries_taken [of "cd_plans db" row] assms show False by metis
qed

text \<open>The requests that work on a draft.\<close>

lemma planning_refused: "requireDraft e db p = Inl x \<Longrightarrow> planning e p db f = Inl x"
  by (simp add: planning_def)

lemma draft_calls:
  assumes "\<And>r. requireDraft e db (call_plan c) \<noteq> Inr r" "c \<noteq> Delete_plan (call_plan c)" "c \<noteq> Revert_plan (call_plan c)"
    and "case c of Create_plan i j r n u s f \<Rightarrow> False | _ \<Rightarrow> True"
  shows "snd (cap_exec e c db) = db"
proof -
  from assms(1) obtain x where x: "requireDraft e db (call_plan c) = Inl x" by (cases "requireDraft e db (call_plan c)") auto
  show ?thesis
    using x assms(2-4)
    by (cases c) (simp_all add: planning_refused settle_def updatePlan_def addTeam_def setTeamCapacity_def removeTeam_def allocate_def updateAllocationOf_def
        setPrimaryAllocation_def removeItemFromPlan_def removeAllocation_def publishPlan_def moveItemToPlan_def move_tx_def check_move_def)
qed

text \<open>C34: A published plan keeps its row, its teams and its allocations through any request but its own deletion
  or reversion, and a move of a Feature onto it.\<close>

theorem published_frozen:
  assumes "cap_inv db" and "plan \<in> set (cd_plans db)" "cp_status plan = Published"
    and "c \<noteq> Delete_plan (cp_id plan)" "c \<noteq> Revert_plan (cp_id plan)" "call_target c \<noteq> Some (cp_id plan)"
  shows "plan \<in> set (cd_plans (snd (cap_exec e c db))) \<and> teams_of (cp_id plan) (snd (cap_exec e c db)) = teams_of (cp_id plan) db \<and>
    (\<forall>a. al_plan a = cp_id plan \<longrightarrow> (a \<in> set (cd_allocations (snd (cap_exec e c db))) \<longleftrightarrow> a \<in> set (cd_allocations db)))"
proof -
  have "untouched (cp_id plan) db (snd (cap_exec e c db))"
  proof (cases "call_plan c = cp_id plan")
    case True
    have sound: "plans_sound (cd_plans db)" using assms(1) by (simp add: cap_inv_def)
    have "snd (cap_exec e c db) = db"
    proof (cases "\<exists>j r n u s f. c = Create_plan (cp_id plan) j r n u s f")
      case create: True
      with created_taken [OF assms(2)] show ?thesis by (auto simp: settle_def split: sum.splits)
    next
      case False
      with True published_not_planned [OF sound assms(2,3)] assms(4,5) show ?thesis by (intro draft_calls) (auto split: cap_call.split)
    qed
    then show ?thesis by simp
  next
    case False
    with untouched_exec [OF assms(1)] assms(6) show ?thesis by metis
  qed
  then have u: "filter (\<lambda>p. cp_id p = cp_id plan) (cd_plans (snd (cap_exec e c db))) = filter (\<lambda>p. cp_id p = cp_id plan) (cd_plans db)"
    "teams_of (cp_id plan) (snd (cap_exec e c db)) = teams_of (cp_id plan) db"
    "\<And>j. rows_of (cp_id plan, j) (cd_allocations (snd (cap_exec e c db))) = rows_of (cp_id plan, j) (cd_allocations db)"
    by (simp_all add: untouched_def)
  have "plan \<in> set (filter (\<lambda>p. cp_id p = cp_id plan) (cd_plans db))" using assms(2) by simp
  then have "plan \<in> set (cd_plans (snd (cap_exec e c db)))" unfolding u(1) [symmetric] by simp
  moreover have "a \<in> set (cd_allocations (snd (cap_exec e c db))) \<longleftrightarrow> a \<in> set (cd_allocations db)" if "al_plan a = cp_id plan" for a
    using u(3) [of "al_item a"] set_rows_of [of a "(cp_id plan, al_item a)"] that by (metis al_key_def)
  ultimately show ?thesis using u(2) by blast
qed

section \<open>Who may\<close>

text \<open>The project of the plan a request works on.\<close>

definition call_project :: "env \<Rightarrow> cap_call \<Rightarrow> cap_db \<Rightarrow> uuid option" where
  "call_project e c db =
     (case c of Create_plan i projectId releaseId name unit start finish \<Rightarrow> Some projectId
      | _ \<Rightarrow> map_option cp_project (findPlan db (call_plan c) (e_ws e)))"

definition call_permission :: "cap_call \<Rightarrow> string" where
  "call_permission c = (case c of Publish_plan p b \<Rightarrow> ''capacity:publish'' | Revert_plan p \<Rightarrow> ''capacity:publish'' | _ \<Rightarrow> ''capacity:manage'')"

definition call_granted :: "env \<Rightarrow> cap_call \<Rightarrow> cap_db \<Rightarrow> bool" where
  "call_granted e c db \<longleftrightarrow>
     (\<exists>pr. call_project e c db = Some pr \<and> hasProjectPermission (e_eff e) pr (call_permission c) \<and>
       (\<exists>row. assertProjectWritable (cd_base db) (e_ws e) pr = Inr row))"

lemma planning_granted:
  "planning e p db f = Inr x \<Longrightarrow> \<exists>plan. findPlan db p (e_ws e) = Some plan \<and> hasProjectPermission (e_eff e) (cp_project plan) ''capacity:manage'' \<and>
    (\<exists>row. assertProjectWritable (cd_base db) (e_ws e) (cp_project plan) = Inr row)"
  by (auto simp: planning_def requireDraft_def bind_sum_Inr assertProjectPermission_def split: option.splits if_splits)

lemma not_planned: "(\<And>x. planning e p db f \<noteq> Inr x) \<Longrightarrow> \<exists>x. planning e p db f = Inl x"
  by (cases "planning e p db f") auto

lemma settle_changed: "snd (settle r db) \<noteq> db \<or> fst (settle r db) = Inr () \<Longrightarrow> \<exists>db'. r = Inr db'"
  by (auto simp: settle_def split: sum.splits)

lemma granted_planning:
  assumes "planning e (call_plan c) db f = Inr x" "call_permission c = ''capacity:manage''" "case c of Create_plan i j r n u s f \<Rightarrow> False | _ \<Rightarrow> True"
  shows "call_granted e c db"
proof -
  from planning_granted [OF assms(1)] obtain plan row where "findPlan db (call_plan c) (e_ws e) = Some plan"
    "hasProjectPermission (e_eff e) (cp_project plan) ''capacity:manage''" "assertProjectWritable (cd_base db) (e_ws e) (cp_project plan) = Inr row" by blast
  moreover from this(1) assms(3) have "call_project e c db = Some (cp_project plan)" by (cases c) (simp_all add: call_project_def)
  ultimately show ?thesis using assms(2) by (auto simp: call_granted_def)
qed

lemma granted_planned:
  "planning e p db f = Inr x \<Longrightarrow> call_plan c = p \<Longrightarrow> call_permission c = ''capacity:manage'' \<Longrightarrow>
    (case c of Create_plan i j r n u s f \<Rightarrow> False | _ \<Rightarrow> True) \<Longrightarrow> call_granted e c db"
  using granted_planning [of e c db f x] by simp

lemma granted_exec:
  assumes "snd (cap_exec e c db) \<noteq> db \<or> fst (cap_exec e c db) = Inr ()"
  shows "call_granted e c db"
proof (cases c)
  case (Create_plan i projectId releaseId name unit start finish)
  with settle_changed assms obtain db' where "createPlan e (\<lambda>_ plans. plans) i projectId releaseId name unit start finish db = Inr db'" by fastforce
  with Create_plan show ?thesis
    by (auto simp: call_granted_def call_project_def call_permission_def createPlan_def bind_sum_Inr assertProjectPermission_def split: if_splits)
next
  case (Delete_plan p)
  with settle_changed assms obtain db' where "deletePlan e p db = Inr db'" by fastforce
  with Delete_plan show ?thesis
    by (auto simp: call_granted_def call_project_def call_permission_def deletePlan_def bind_sum_Inr assertProjectPermission_def split: if_splits option.splits)
next
  case (Revert_plan p)
  with settle_changed assms obtain db' where "revertPlan e p db = Inr db'" by fastforce
  with Revert_plan show ?thesis
    by (auto simp: call_granted_def call_project_def call_permission_def revertPlan_def bind_sum_Inr assertProjectPermission_def split: if_splits option.splits)
next
  case (Publish_plan p b)
  with settle_changed assms obtain db' where "map_sum id fst (publishPlan e p b db) = Inr db'" by fastforce
  then obtain r where "publishPlan e p b db = Inr r" by (cases "publishPlan e p b db") auto
  then obtain plan where "requireDraft e db p = Inr plan" "hasProjectPermission (e_eff e) (cp_project plan) ''capacity:publish''"
    by (auto simp: publishPlan_def bind_sum_Inr assertProjectPermission_def split: if_splits)
  with Publish_plan show ?thesis
    by (auto simp: call_granted_def call_project_def call_permission_def requireDraft_def bind_sum_Inr split: if_splits option.splits)
next
  case (Move_item ids p m)
  with assms have "move_tx e ids p m db \<noteq> Inl x" for x by (auto simp: moveItemToPlan_def)
  then obtain db1 where "move_tx e ids p m db = Inr db1" by (cases "move_tx e ids p m db") auto
  then obtain x where "check_move e p m db = Inr x" by (auto simp: move_tx_def bind_sum_Inr)
  from granted_planned [OF this [unfolded check_move_def]] Move_item show ?thesis by (simp add: call_permission_def)
next
  case (Update_plan p name start finish)
  with settle_changed assms obtain db' where step: "updatePlan e p name start finish db = Inr db'" by fastforce
  show ?thesis by (rule granted_planned [OF step [unfolded updatePlan_def]]) (simp_all add: Update_plan call_permission_def)
next
  case (Add_team p t)
  with settle_changed assms obtain db' where step: "addTeam e p t db = Inr db'" by fastforce
  show ?thesis by (rule granted_planned [OF step [unfolded addTeam_def]]) (simp_all add: Add_team call_permission_def)
next
  case (Set_capacity p t x)
  with settle_changed assms obtain db' where step: "setTeamCapacity e p t x db = Inr db'" by fastforce
  show ?thesis by (rule granted_planned [OF step [unfolded setTeamCapacity_def]]) (simp_all add: Set_capacity call_permission_def)
next
  case (Remove_team p t)
  with settle_changed assms obtain db' where step: "removeTeam e p t db = Inr db'" by fastforce
  show ?thesis by (rule granted_planned [OF step [unfolded removeTeam_def]]) (simp_all add: Remove_team call_permission_def)
next
  case (Allocate i p j t v)
  with settle_changed assms obtain db' where step: "allocate e i p j t v db = Inr db'" by fastforce
  show ?thesis by (rule granted_planned [OF step [unfolded allocate_def]]) (simp_all add: Allocate call_permission_def)
next
  case (Change_allocation p i v t)
  with settle_changed assms obtain db' where step: "updateAllocationOf e p i v t db = Inr db'" by fastforce
  show ?thesis by (rule granted_planned [OF step [unfolded updateAllocationOf_def]]) (simp_all add: Change_allocation call_permission_def)
next
  case (Set_primary p i)
  with settle_changed assms obtain db' where step: "setPrimaryAllocation e p i db = Inr db'" by fastforce
  show ?thesis by (rule granted_planned [OF step [unfolded setPrimaryAllocation_def]]) (simp_all add: Set_primary call_permission_def)
next
  case (Remove_item p j)
  with settle_changed assms obtain db' where step: "removeItemFromPlan e p j db = Inr db'" by fastforce
  show ?thesis by (rule granted_planned [OF step [unfolded removeItemFromPlan_def]]) (simp_all add: Remove_item call_permission_def)
next
  case (Remove_allocation p i)
  with settle_changed assms obtain db' where step: "removeAllocation e p i db = Inr db'" by fastforce
  show ?thesis by (rule granted_planned [OF step [unfolded removeAllocation_def]]) (simp_all add: Remove_allocation call_permission_def)
qed

text \<open>C28: A request that succeeds, or changes anything, comes from a caller who holds the permission it needs on
  the project of the plan, and that project is not archived; onto a published plan, or with a republication, a Feature
  is moved only by a caller who may publish.\<close>

theorem capacity_authorised:
  assumes "snd (cap_exec e c db) \<noteq> db \<or> fst (cap_exec e c db) = Inr ()"
  shows "(\<exists>pr. call_project e c db = Some pr \<and> hasProjectPermission (e_eff e) pr (call_permission c) \<and>
      (\<exists>row. assertProjectWritable (cd_base db) (e_ws e) pr = Inr row)) \<and>
    (\<forall>ids p m. c = Move_item ids p m \<longrightarrow>
      (\<exists>plan. findPlan db (mv_target m) (e_ws e) = Some plan \<and>
        (mv_republish m \<or> cp_status plan = Published \<longrightarrow> hasProjectPermission (e_eff e) (cp_project plan) ''capacity:publish'')))"
proof -
  have "\<exists>plan. findPlan db (mv_target m) (e_ws e) = Some plan \<and>
        (mv_republish m \<or> cp_status plan = Published \<longrightarrow> hasProjectPermission (e_eff e) (cp_project plan) ''capacity:publish'')"
    if c: "c = Move_item ids p m" for ids p m
  proof -
    from assms c have "move_tx e ids p m db \<noteq> Inl x" for x by (auto simp: moveItemToPlan_def)
    then obtain db1 where "move_tx e ids p m db = Inr db1" by (cases "move_tx e ids p m db") auto
    then obtain target x where check: "check_move e p m db = Inr (target, x)" by (auto simp: move_tx_def bind_sum_Inr)
    with check_move_Inr [of e p m db target "fst x" "snd x"] show ?thesis by auto
  qed
  with granted_exec [OF assms] show ?thesis unfolding call_granted_def by blast
qed

section \<open>Moves\<close>

lemma find_update_where: "(\<And>x. P x \<Longrightarrow> P (f x)) \<Longrightarrow> find P (update_where P f xs) = map_option f (find P xs)"
  by (induction xs) (auto simp: update_where_def)

lemma findPlan_status:
  "findPlan (setStatus e i s u db) i (e_ws e) =
    map_option (\<lambda>p. if s = Published then p\<lparr>cp_status := s, cp_publishedAt := Some (e_now e), cp_publishedBy := u\<rparr> else p\<lparr>cp_status := s\<rparr>)
      (findPlan db i (e_ws e))"
  unfolding findPlan_def setStatus_def update_plan_row_def by (simp add: find_update_where)

lemma setStatus_rest [simp]:
  "cd_base (setStatus e i s u db) = cd_base db" "cd_items (setStatus e i s u db) = cd_items db"
  "cd_allocations (setStatus e i s u db) = cd_allocations db" "cd_planTeams (setStatus e i s u db) = cd_planTeams db"
  "cd_releases (setStatus e i s u db) = cd_releases db" "cd_children (setStatus e i s u db) = cd_children db"
  by (simp_all add: setStatus_def update_plan_row_def)

lemma listAllocations_set:
  "(a, q) \<in> set (listAllocations db p) \<longleftrightarrow> a \<in> set (cd_allocations db) \<and> al_plan a = p \<and> find (\<lambda>x. pf_id x = al_item a) (cd_items db) = Some q"
  by (auto simp: listAllocations_def set_filter_map with_item_def)

text \<open>What the second transaction of a move relies on: the plan as the first one left it, its project, and
  that it still holds a Feature.\<close>

definition target_kept :: "env \<Rightarrow> uuid \<Rightarrow> cap_db \<Rightarrow> cap_db \<Rightarrow> bool" where
  "target_kept e q d d' \<longleftrightarrow>
     findPlan d' q (e_ws e) = findPlan d q (e_ws e) \<and> cd_base d' = cd_base d \<and>
     (listAllocations d q \<noteq> [] \<longrightarrow> listAllocations d' q \<noteq> [])"

lemma republish_succeeds:
  assumes inv: "cap_inv db" and step: "move_tx e ids p m db = Inr db1" and again: "mv_republish m"
    and kept: "target_kept e (mv_target m) db1 d"
  shows "\<exists>r. publishPlan e (mv_target m) True d = Inr r"
proof -
  from step obtain target rows releaseMoves rows' where
    check: "check_move e p m db = Inr (target, rows, releaseMoves)" and rows: "move_rows e ids p m rows db = Inr rows'" and
    db1: "db1 = (let db1 = db\<lparr>cd_allocations := rows'\<rparr>;
         db2 = (if releaseMoves then db1\<lparr>cd_items := setFeatureRelease e (mv_item m) (cp_release target) (cd_items db1)\<rparr> else db1)
     in if cp_status target = Published then setStatus e (mv_target m) Draft None db2 else db2)"
    by (auto simp: move_tx_def bind_sum_Inr Let_def)
  from check_move_Inr [OF check] obtain item plan where item: "getItem e db (mv_item m) = Inr item" and
    target: "findPlan db (mv_target m) (e_ws e) = Some target" "cp_project target = cp_project plan" and
    plan: "requireDraft e db p = Inr plan" by blast
  from plan obtain row where row: "assertProjectWritable (cd_base db) (e_ws e) (cp_project plan) = Inr row"
    by (auto simp: requireDraft_def bind_sum_Inr split: if_splits option.splits)
  have pub: "hasProjectPermission (e_eff e) (cp_project target) ''capacity:publish''"
    using check_move_Inr [OF check] again by blast
  have base: "cd_base db1 = cd_base db" and alloc: "cd_allocations db1 = rows'" by (simp_all add: db1 Let_def)
  have found: "findPlan db1 (mv_target m) (e_ws e) = Some (target\<lparr>cp_status := Draft\<rparr>)"
  proof (cases "cp_status target = Published")
    case True
    then show ?thesis using target(1) by (auto simp: db1 Let_def findPlan_status) (simp_all add: findPlan_def)
  next
    case False
    then have "target = target\<lparr>cp_status := Draft\<rparr>" by (cases "cp_status target") auto
    with False target(1) show ?thesis by (simp add: db1 Let_def findPlan_def)
  qed
  obtain a where a: "a \<in> set rows'" "al_key a = (mv_target m, mv_item m)" using move_rows_ok [OF _ check rows] inv by (auto simp: cap_inv_alloc)
  have ids: "map pf_id (cd_items db1) = map pf_id (cd_items db)"
    by (auto simp: db1 Let_def setFeatureRelease_def map_update_where)
  have "item \<in> set (cd_items db)" "pf_id item = mv_item m"
    using item by (auto simp: getItem_def find_Some_iff split: option.splits)
  then have "mv_item m \<in> set (map pf_id (cd_items db))" by force
  then have "mv_item m \<in> set (map pf_id (cd_items db1))" unfolding ids .
  then have "find (\<lambda>x. pf_id x = mv_item m) (cd_items db1) \<noteq> None" by (auto simp: find_None_iff)
  then obtain q where "find (\<lambda>x. pf_id x = mv_item m) (cd_items db1) = Some q" by blast
  with a alloc have "(a, q) \<in> set (listAllocations db1 (mv_target m))" by (simp add: listAllocations_set al_key_def)
  then have "listAllocations db1 (mv_target m) \<noteq> []" by auto
  with kept found base have "findPlan d (mv_target m) (e_ws e) = Some (target\<lparr>cp_status := Draft\<rparr>)"
    "cd_base d = cd_base db" "listAllocations d (mv_target m) \<noteq> []" by (simp_all add: target_kept_def)
  with row target(2) pub show ?thesis
    by (auto simp: publishPlan_def requireDraft_def bind_sum_Inr assertProjectPermission_def Let_def split: prod.splits)
qed


text \<open>Demand is kept: when a team leaves a plan every Feature keeps its demand on it, no row naming the team; when a
  Feature moves its whole demand arrives on the target, and the source has none of it left.\<close>

lemma demand_conserved:
  assumes inv: "cap_inv db"
  shows "removeTeam e p t db = Inr db' \<Longrightarrow>
      (\<forall>k. demand k (cd_allocations db') = demand k (cd_allocations db)) \<and>
      (\<forall>a\<in>set (cd_allocations db'). \<not> (al_plan a = p \<and> al_team a = Some t))"
    and "moveItemToPlan e (\<lambda>d. d) ids p m db = (Inr (), db') \<Longrightarrow>
      demand (mv_target m, mv_item m) (cd_allocations db') = demand (p, mv_item m) (cd_allocations db) \<and>
      (\<forall>a\<in>set (cd_allocations db'). al_key a \<noteq> (p, mv_item m)) \<and>
      (\<forall>k. k \<noteq> (p, mv_item m) \<and> k \<noteq> (mv_target m, mv_item m) \<longrightarrow> demand k (cd_allocations db') = demand k (cd_allocations db))"
proof -
  have ok: "alloc_ok (cd_planTeams db) (cd_allocations db)" using inv by (simp add: cap_inv_alloc)
  show "(\<forall>k. demand k (cd_allocations db') = demand k (cd_allocations db)) \<and>
      (\<forall>a\<in>set (cd_allocations db'). \<not> (al_plan a = p \<and> al_team a = Some t))" if "removeTeam e p t db = Inr db'"
    using removeTeam_Inr [OF ok that] by auto
  assume move: "moveItemToPlan e (\<lambda>d. d) ids p m db = (Inr (), db')"
  then obtain db1 where tx: "move_tx e ids p m db = Inr db1" and same: "cd_allocations db' = cd_allocations db1"
    using publish_Inr [of e "mv_target m" True db1]
    by (auto simp: moveItemToPlan_def split: sum.splits prod.splits if_splits dest!: publish_Inr)
  from tx obtain target rows releaseMoves where check: "check_move e p m db = Inr (target, rows, releaseMoves)"
    and rows: "move_rows e ids p m rows db = Inr (cd_allocations db')"
    using same by (auto simp: move_tx_def bind_sum_Inr Let_def)
  from move_rows_ok [OF ok check rows] have r: "demand (mv_target m, mv_item m) (cd_allocations db') = demand (p, mv_item m) (cd_allocations db)"
    "rows_of (p, mv_item m) (cd_allocations db') = []"
    "\<And>k. k \<noteq> (p, mv_item m) \<Longrightarrow> k \<noteq> (mv_target m, mv_item m) \<Longrightarrow> rows_of k (cd_allocations db') = rows_of k (cd_allocations db)" by blast+
  from r(2) have "\<forall>a\<in>set (cd_allocations db'). al_key a \<noteq> (p, mv_item m)" by (simp add: rows_of_def filter_empty_conv)
  moreover have "\<forall>k. k \<noteq> (p, mv_item m) \<and> k \<noteq> (mv_target m, mv_item m) \<longrightarrow> demand k (cd_allocations db') = demand k (cd_allocations db)"
    using demand_other [OF r(3)] by blast
  ultimately show "demand (mv_target m, mv_item m) (cd_allocations db') = demand (p, mv_item m) (cd_allocations db) \<and>
      (\<forall>a\<in>set (cd_allocations db'). al_key a \<noteq> (p, mv_item m)) \<and>
      (\<forall>k. k \<noteq> (p, mv_item m) \<and> k \<noteq> (mv_target m, mv_item m) \<longrightarrow> demand k (cd_allocations db') = demand k (cd_allocations db))"
    using r(1) by blast
qed

end
