(* ===== verification/CapacityCases.thy ===== *)
theory CapacityCases
  imports CapacityProtocol
begin

text \<open>
  Capacity plans, continued: where demand goes, what publishing writes on the Features, and the laws of the plans
  on concrete tables (two plans of a project, a Feature shared by two teams).
\<close>

section \<open>Demand\<close>

fun edits_demand :: "cap_call \<Rightarrow> bool" where
  "edits_demand (Delete_plan p) = True"
| "edits_demand (Allocate i p j t v) = True"
| "edits_demand (Change_allocation p i v t) = True"
| "edits_demand (Remove_item p j) = True"
| "edits_demand (Remove_allocation p i) = True"
| "edits_demand _ = False"

definition demand_after :: "cap_call \<Rightarrow> cap_db \<Rightarrow> uuid \<times> uuid \<Rightarrow> num" where
  "demand_after c db k =
     (case c of
        Move_item ids p m \<Rightarrow>
          if k = (p, mv_item m) then 0
          else if k = (mv_target m, mv_item m) then demand (p, mv_item m) (cd_allocations db)
          else demand k (cd_allocations db)
      | _ \<Rightarrow> demand k (cd_allocations db))"

lemma demand_none: "(\<forall>a\<in>set rows. al_key a \<noteq> k) \<Longrightarrow> demand k rows = 0"
proof -
  assume "\<forall>a\<in>set rows. al_key a \<noteq> k"
  then have "rows_of k rows = []" by (simp add: rows_of_def filter_empty_conv)
  then show ?thesis by (simp add: demand_def)
qed

lemma shape_update:
  assumes "updateAllocation i f rows = Inr rows'" "rows_sound rows" "\<And>a. shape (f a) = shape a"
  shows "map shape rows' = map shape rows"
proof -
  have id_f: "al_id (f a) = al_id a" for a using assms(3) [of a] by (simp add: shape_def)
  obtain a a' v where a: "a \<in> set rows" "a' = (f a)\<lparr>al_value := v\<rparr>" "numeric_10_2 (al_value (f a)) = Inr v"
    "rows' = map (\<lambda>b. if b = a then a' else b) rows"
    by (rule updateAllocation_Inr [OF assms(1,2) id_f])
  have "al_value (f a) = al_value a" using assms(3) [of a] by (simp add: shape_def)
  then have "v = al_value (f a)" using a(3) numeric_money sound_row [OF assms(2) a(1)] by (simp add: row_ok_def)
  then have "shape a' = shape a" using a(2) assms(3) [of a] by (simp add: shape_def al_key_def)
  with a(4) show ?thesis by simp
qed

lemma shape_clear: "map shape (clearPrimaryAllocations p i rows) = map shape rows"
  by (simp add: clearPrimaryAllocations_def update_where_def shape_def al_key_def)

lemma demand_setPrimary:
  assumes inv: "cap_inv db" and step: "setPrimaryAllocation e p i db = Inr db'"
  shows "demand k (cd_allocations db') = demand k (cd_allocations db)"
proof -
  from planning_Inr [OF step [unfolded setPrimaryAllocation_def]] obtain a rows where
    "findAllocation i p (cd_allocations db) = Some a" "al_team a \<noteq> None" and
    upd: "updateAllocation i (\<lambda>b. b\<lparr>al_primary := True\<rparr>) (clearPrimaryAllocations p (al_item a) (cd_allocations db)) = Inr rows"
    and db': "db' = db\<lparr>cd_allocations := rows\<rparr>"
    by (auto simp: bind_sum_Inr split: option.splits if_splits)
  have "rows_sound (clearPrimaryAllocations p (al_item a) (cd_allocations db))" using inv clearPrimary_sound by (simp add: cap_inv_def)
  from shape_update [OF upd this] have "map shape rows = map shape (cd_allocations db)"
    by (simp add: shape_clear) (simp add: shape_def al_key_def)
  from demand_shape [OF this] db' show ?thesis by simp
qed

text \<open>The requests that write no allocation.\<close>

lemma plan_row_rows [simp]: "cd_allocations (update_plan_row e p f db) = cd_allocations db"
  by (simp add: update_plan_row_def)

lemma no_rows_written:
  "createPlan e others i projectId releaseId name unit start finish db = Inr db' \<Longrightarrow> cd_allocations db' = cd_allocations db"
  "updatePlan e p nm sd fd db = Inr db' \<Longrightarrow> cd_allocations db' = cd_allocations db"
  "addTeam e p t db = Inr db' \<Longrightarrow> cd_allocations db' = cd_allocations db"
  "setTeamCapacity e p t cap db = Inr db' \<Longrightarrow> cd_allocations db' = cd_allocations db"
  "publishPlan e p b db = Inr (db', n, skips) \<Longrightarrow> cd_allocations db' = cd_allocations db"
  "revertPlan e p db = Inr db' \<Longrightarrow> cd_allocations db' = cd_allocations db"
proof -
  show "createPlan e others i projectId releaseId name unit start finish db = Inr db' \<Longrightarrow> cd_allocations db' = cd_allocations db"
    by (auto simp: createPlan_def bind_sum_Inr split: if_splits)
  show "updatePlan e p nm sd fd db = Inr db' \<Longrightarrow> cd_allocations db' = cd_allocations db"
    by (auto simp: updatePlan_def planning_def bind_sum_Inr)
  show "addTeam e p t db = Inr db' \<Longrightarrow> cd_allocations db' = cd_allocations db"
    by (auto simp: addTeam_def planning_def bind_sum_Inr split: if_splits)
  show "setTeamCapacity e p t cap db = Inr db' \<Longrightarrow> cd_allocations db' = cd_allocations db"
    by (auto simp: setTeamCapacity_def planning_def bind_sum_Inr)
  show "publishPlan e p b db = Inr (db', n, skips) \<Longrightarrow> cd_allocations db' = cd_allocations db"
    by (auto dest!: publish_Inr simp: setStatus_def)
  show "revertPlan e p db = Inr db' \<Longrightarrow> cd_allocations db' = cd_allocations db"
    by (auto simp: revertPlan_def bind_sum_Inr setStatus_def split: option.splits if_splits)
qed

lemma same_allocations:
  assumes "\<not> edits_demand c" "\<forall>p t. c \<noteq> Remove_team p t" "\<forall>p i. c \<noteq> Set_primary p i" "\<forall>ids p m. c \<noteq> Move_item ids p m"
  shows "cd_allocations (snd (cap_exec e c db)) = cd_allocations db"
  using assms by (cases c) (auto simp: settle_def map_sum_def dest: no_rows_written split: sum.splits)

text \<open>C26: A request that does not edit demand (every one but deleting a plan and allocating, changing or removing
  rows) keeps, on every plan, the demand of every Feature: a team that leaves has its rows parked or
  merged and nothing is lost, and a Feature that moves takes its whole demand to the target, leaving none.\<close>

theorem demand_kept:
  assumes "cap_inv db" and "\<not> edits_demand c" and "cap_exec e c db = (Inr (), db')"
  shows "demand k (cd_allocations db') = demand_after c db k"
proof (cases c)
  case (Remove_team p t)
  with assms(3) have "removeTeam e p t db = Inr db'" by (simp add: settle_def split: sum.splits)
  from demand_conserved(1) [OF assms(1) this] Remove_team show ?thesis by (cases k) (simp add: demand_after_def)
next
  case (Set_primary p i)
  with assms(3) have "setPrimaryAllocation e p i db = Inr db'" by (simp add: settle_def split: sum.splits)
  with demand_setPrimary [OF assms(1)] Set_primary show ?thesis by (simp add: demand_after_def)
next
  case (Move_item ids p m)
  with assms(3) have "moveItemToPlan e (\<lambda>d. d) ids p m db = (Inr (), db')" by simp
  from demand_conserved(2) [OF assms(1) this] Move_item show ?thesis
    unfolding demand_after_def by (simp add: demand_none del: split_paired_All)
qed (use assms same_allocations [of c e db] in \<open>simp_all add: demand_after_def\<close>)

section \<open>What publishing writes\<close>

text \<open>The rows of a plan, and whether one of them gives the item to a team.\<close>

definition on_plan_with_team :: "cap_db \<Rightarrow> uuid \<Rightarrow> uuid \<Rightarrow> bool" where
  "on_plan_with_team db p j \<longleftrightarrow> (\<exists>a\<in>set (cd_allocations db). al_key a = (p, j) \<and> al_team a \<noteq> None)"

definition has_team :: "uuid \<Rightarrow> (allocation_row \<times> portfolio_item_row) list \<Rightarrow> bool" where
  "has_team j xs \<longleftrightarrow> (\<exists>x\<in>set xs. al_item (fst x) = j \<and> al_team (fst x) \<noteq> None)"

lemma has_team_iff: "has_team j xs \<longleftrightarrow> (\<exists>a q. (a, q) \<in> set xs \<and> al_item a = j \<and> al_team a \<noteq> None)"
  by (force simp: has_team_def)

text \<open>The target of an item: that of its first row, with a team as soon as one of its rows has one.\<close>

lemma publish_targets_map:
  "map_of (publish_targets xs m) j =
     (case map_of m j of
        Some t \<Rightarrow> Some (t\<lparr>tg_hasTeam := tg_hasTeam t \<or> has_team j xs\<rparr>)
      | None \<Rightarrow> map_option (\<lambda>x. (target_of x)\<lparr>tg_hasTeam := has_team j xs\<rparr>) (find (\<lambda>x. al_item (fst x) = j) xs))"
proof (induction xs arbitrary: m)
  case Nil
  then show ?case by (simp add: has_team_def split: option.splits)
next
  case (Cons x xs)
  show ?case
    by (cases "al_item (fst x) = j"; cases "map_of m (al_item (fst x))"; cases "al_team (fst x)")
       (simp_all add: Cons update_conv' has_team_def target_of_def split: option.splits)
qed

lemma update_keyed_entries: "\<forall>(k, t)\<in>set m. tg_item t = k \<Longrightarrow> tg_item u = j \<Longrightarrow> \<forall>(k, t)\<in>set (AList.update j u m). tg_item t = k"
  by (induction m) auto

lemma publish_targets_keys:
  assumes "distinct (map fst m)" "\<forall>(k, t)\<in>set m. tg_item t = k"
  shows "distinct (map fst (publish_targets xs m)) \<and> (\<forall>(k, t)\<in>set (publish_targets xs m). tg_item t = k)"
  using assms
proof (induction xs arbitrary: m)
  case (Cons x xs)
  have keep: "distinct (map fst (AList.update k t m)) \<and> (\<forall>(k, t)\<in>set (AList.update k t m). tg_item t = k)" if "tg_item t = k" for k t
    using distinct_update [OF Cons.prems(1)] update_keyed_entries [OF Cons.prems(2) that] by blast
  show ?case
  proof (cases "map_of m (al_item (fst x))")
    case None
    have "tg_item (target_of x) = al_item (fst x)" by (simp add: target_of_def)
    from keep [OF this] have "distinct (map fst (AList.update (al_item (fst x)) (target_of x) m))"
      "\<forall>(k, t)\<in>set (AList.update (al_item (fst x)) (target_of x) m). tg_item t = k" by blast+
    from Cons.IH [OF this] None show ?thesis by simp
  next
    case (Some t)
    then have "(al_item (fst x), t) \<in> set m" by (rule map_of_SomeD)
    with Cons.prems have "tg_item (t\<lparr>tg_hasTeam := True\<rparr>) = al_item (fst x)" by auto
    from keep [OF this] have "distinct (map fst (AList.update (al_item (fst x)) (t\<lparr>tg_hasTeam := True\<rparr>) m))"
      "\<forall>(k, t)\<in>set (AList.update (al_item (fst x)) (t\<lparr>tg_hasTeam := True\<rparr>) m). tg_item t = k" by blast+
    from Cons.IH [OF this] Cons.IH [OF Cons.prems] Some show ?thesis by simp
  qed
qed simp

lemma publishTargets_facts:
  shows "distinct (map tg_item (publishTargets xs))"
    and "t \<in> set (publishTargets xs) \<Longrightarrow>
      tg_hasTeam t = has_team (tg_item t) xs \<and> (\<exists>x\<in>set xs. al_item (fst x) = tg_item t \<and> tg_release t = pf_release (snd x))"
    and "x \<in> set xs \<Longrightarrow> \<exists>t\<in>set (publishTargets xs). tg_item t = al_item (fst x)"
proof -
  let ?m = "publish_targets xs []"
  have keys: "distinct (map fst ?m)" "\<And>k t. (k, t) \<in> set ?m \<Longrightarrow> tg_item t = k" using publish_targets_keys [of "[]" xs] by auto
  have "map tg_item (publishTargets xs) = map fst ?m"
    unfolding publishTargets_def map_map by (intro map_cong) (auto simp: keys(2))
  with keys show "distinct (map tg_item (publishTargets xs))" by simp
  have look: "map_of ?m j = map_option (\<lambda>x. (target_of x)\<lparr>tg_hasTeam := has_team j xs\<rparr>) (find (\<lambda>x. al_item (fst x) = j) xs)" for j
    by (simp add: publish_targets_map)
  show "tg_hasTeam t = has_team (tg_item t) xs \<and> (\<exists>x\<in>set xs. al_item (fst x) = tg_item t \<and> tg_release t = pf_release (snd x))"
    if "t \<in> set (publishTargets xs)" for t
  proof -
    from that obtain k where "(k, t) \<in> set ?m" by (auto simp: publishTargets_def)
    with keys have "map_of ?m k = Some t" "tg_item t = k" by auto
    then obtain x where "find (\<lambda>x. al_item (fst x) = k) xs = Some x" "t = (target_of x)\<lparr>tg_hasTeam := has_team k xs\<rparr>"
      unfolding look by auto
    with \<open>tg_item t = k\<close> show ?thesis by (auto simp: find_Some_iff target_of_def)
  qed
  show "\<exists>t\<in>set (publishTargets xs). tg_item t = al_item (fst x)" if "x \<in> set xs" for x
  proof -
    have "find (\<lambda>y. al_item (fst y) = al_item (fst x)) xs \<noteq> None" using that unfolding find_None_iff by blast
    then have "map_of ?m (al_item (fst x)) \<noteq> None" unfolding look by simp
    then obtain t where "(al_item (fst x), t) \<in> set ?m" by (auto dest: map_of_SomeD)
    with keys(2) show ?thesis by (force simp: publishTargets_def)
  qed
qed

text \<open>One target on the items, and all of them.\<close>

definition target_effect :: "env \<Rightarrow> plan_row \<Rightarrow> (iso_date \<times> iso_date) option \<Rightarrow> bool \<Rightarrow> PublishTarget \<Rightarrow> portfolio_item_row \<Rightarrow> portfolio_item_row" where
  "target_effect e plan window spans t p =
     (case window of
        None \<Rightarrow> p
      | Some w \<Rightarrow>
          if tg_hasTeam t \<and> feature_writable e (tg_item t) (cp_project plan) p
          then p\<lparr>pf_start := Some (fst w), pf_end := Some (snd w),
                 pf_release := (if spans \<or> (tg_release t \<noteq> None \<and> tg_release t \<noteq> Some (cp_release plan)) then pf_release p
                                else Some (cp_release plan))\<rparr>
          else p)"

definition target_skips :: "env \<Rightarrow> plan_row \<Rightarrow> (iso_date \<times> iso_date) option \<Rightarrow> bool \<Rightarrow> portfolio_item_row list \<Rightarrow> PublishTarget \<Rightarrow> (uuid \<times> skip_reason) list" where
  "target_skips e plan window spans pitems t =
     (if \<not> tg_hasTeam t then [(tg_item t, Skip_unallocated)]
      else if window = None then [(tg_item t, Skip_no_window)]
      else if \<not> list_ex (feature_writable e (tg_item t) (cp_project plan)) pitems then [(tg_item t, Skip_archived)]
      else if tg_release t \<noteq> None \<and> tg_release t \<noteq> Some (cp_release plan) then [(tg_item t, Skip_other_release)]
      else if spans then [(tg_item t, Skip_release_span_mismatch)] else [])"

lemma target_effect_id [simp]:
  "pf_id (target_effect e plan w s t p) = pf_id p" "pf_workspace (target_effect e plan w s t p) = pf_workspace p"
  "pf_project (target_effect e plan w s t p) = pf_project p" "pf_archived (target_effect e plan w s t p) = pf_archived p"
  by (simp_all add: target_effect_def split: option.splits)

lemma feature_writable_effect [simp]: "feature_writable e j q (target_effect e' plan w s t p) = feature_writable e j q p"
  by (simp add: feature_writable_def)

lemma list_ex_effect [simp]: "list_ex (feature_writable e j q) (map (target_effect e' plan w s t) ps) = list_ex (feature_writable e j q) ps"
  by (induction ps) simp_all

lemma target_skips_effect [simp]: "target_skips e plan w s (map (target_effect e' plan' w' s' t') ps) = target_skips e plan w s ps"
  by (rule ext) (simp add: target_skips_def)

lemma effect_off:
  assumes "\<not> (tg_hasTeam t \<and> w \<noteq> None \<and> list_ex (feature_writable e (tg_item t) (cp_project plan)) ps)"
  shows "map (target_effect e plan w s t) ps = ps"
  using assms by (cases w) (auto simp: target_effect_def list_ex_iff intro!: map_idI)

lemma publish_features_step:
  "publish_features e plan w s (t # ts) (ps, n, sk) =
     publish_features e plan w s ts
       (map (target_effect e plan w s t) ps,
        (if tg_hasTeam t \<and> w \<noteq> None \<and> list_ex (feature_writable e (tg_item t) (cp_project plan)) ps then n + 1 else n),
        sk @ target_skips e plan w s ps t)"
proof (cases "tg_hasTeam t \<and> w \<noteq> None \<and> list_ex (feature_writable e (tg_item t) (cp_project plan)) ps")
  case True
  then obtain win where win: "w = Some win" by blast
  have "map (target_effect e plan w s t) ps =
      snd (applyPlanToFeature e (tg_item t) (cp_project plan) win
            (if s \<or> (tg_release t \<noteq> None \<and> tg_release t \<noteq> Some (cp_release plan)) then None else Some (cp_release plan)) ps)"
    using True unfolding applyPlanToFeature_def update_where_def snd_conv
    by (intro map_cong) (auto simp: target_effect_def win)
  with True win show ?thesis by (auto simp: applyPlanToFeature_def target_skips_def Let_def)
next
  case False
  then show ?thesis unfolding effect_off [OF False]
    by (cases w) (auto simp: applyPlanToFeature_def target_skips_def Let_def)
qed

lemma publish_features_all:
  "publish_features e plan w s ts (ps, n, sk) =
     (map (\<lambda>p. fold (target_effect e plan w s) ts p) ps,
      n + length (filter (\<lambda>t. tg_hasTeam t \<and> w \<noteq> None \<and> list_ex (feature_writable e (tg_item t) (cp_project plan)) ps) ts),
      sk @ concat (map (target_skips e plan w s ps) ts))"
proof (induction ts arbitrary: ps n sk)
  case (Cons t ts)
  show ?case unfolding publish_features_step Cons by (simp add: comp_def)
qed simp

lemma effect_elsewhere: "tg_item t \<noteq> pf_id p \<Longrightarrow> target_effect e plan w s t p = p"
  by (simp add: target_effect_def feature_writable_def split: option.split)

lemma fold_effect_other: "\<forall>t\<in>set ts. tg_item t \<noteq> pf_id p \<Longrightarrow> fold (target_effect e plan w s) ts p = p"
  by (induction ts) (simp_all add: effect_elsewhere)

lemma fold_effect_one:
  "distinct (map tg_item ts) \<Longrightarrow> t \<in> set ts \<Longrightarrow> tg_item t = pf_id p \<Longrightarrow>
     fold (target_effect e plan w s) ts p = target_effect e plan w s t p"
proof (induction ts arbitrary: p)
  case (Cons u ts)
  show ?case
  proof (cases "u = t")
    case True
    have "\<forall>v\<in>set ts. tg_item v \<noteq> pf_id (target_effect e plan w s t p)" using Cons.prems True by force
    from fold_effect_other [OF this] True show ?thesis by simp
  next
    case False
    then have t: "t \<in> set ts" using Cons.prems(2) by simp
    with Cons.prems(1,3) have "tg_item u \<noteq> pf_id p" by force
    with Cons.IH [OF _ t Cons.prems(3)] Cons.prems(1) show ?thesis by (simp add: effect_elsewhere)
  qed
qed simp

text \<open>What a published plan makes of an item, stated on the tables alone.\<close>

definition published_item :: "env \<Rightarrow> cap_db \<Rightarrow> plan_row \<Rightarrow> portfolio_item_row \<Rightarrow> portfolio_item_row" where
  "published_item e db plan p =
     (if on_plan_with_team db (cp_id plan) (pf_id p) \<and> pf_workspace p = e_ws e \<and> pf_project p = cp_project plan \<and> \<not> pf_archived p
      then case planWindow plan of
          None \<Rightarrow> p
        | Some (s, f) \<Rightarrow>
            p\<lparr>pf_start := Some s, pf_end := Some f,
              pf_release := (if windowsMatch (Some (s, f)) (releaseWindow e (cp_release plan) db) \<and>
                                (pf_release p = None \<or> pf_release p = Some (cp_release plan))
                             then Some (cp_release plan) else pf_release p)\<rparr>
      else p)"

lemma find_distinct: "distinct (map pf_id ps) \<Longrightarrow> p \<in> set ps \<Longrightarrow> find (\<lambda>q. pf_id q = pf_id p) ps = Some p"
  by (induction ps) auto

lemma listAllocations_items:
  assumes "distinct (map pf_id (cd_items db))" "p \<in> set (cd_items db)"
  shows "(a, q) \<in> set (listAllocations db i) \<and> al_item a = pf_id p \<longleftrightarrow> a \<in> set (cd_allocations db) \<and> al_key a = (i, pf_id p) \<and> q = p"
  using find_distinct [OF assms] by (auto simp: listAllocations_set al_key_def)

lemma publish_Inr_items:
  assumes "publishPlan e i True db = Inr (db', n, skips)" "requireDraft e db i = Inr plan"
  shows "publish_features e plan (planWindow plan) (\<not> windowsMatch (planWindow plan) (releaseWindow e (cp_release plan) db))
       (publishTargets (listAllocations db i)) (cd_items db, 0, []) = (cd_items db', n, skips)"
  using assms by (auto simp: publishPlan_def bind_sum_Inr Let_def setStatus_def update_plan_row_def split: if_splits prod.splits)

text \<open>The item of a target is that of the rows it stands for.\<close>

lemma publish_item:
  assumes ids: "distinct (map pf_id (cd_items db))" and p: "p \<in> set (cd_items db)" and i: "cp_id plan = i"
  shows "fold (target_effect e plan (planWindow plan) (\<not> windowsMatch (planWindow plan) (releaseWindow e (cp_release plan) db)))
      (publishTargets (listAllocations db i)) p = published_item e db plan p"
    (is "fold (target_effect e plan ?w ?s) ?ts p = _")
proof (cases "\<exists>t\<in>set ?ts. tg_item t = pf_id p")
  case True
  then obtain t where t: "t \<in> set ?ts" "tg_item t = pf_id p" by blast
  from publishTargets_facts(2) [OF t(1)] t(2) obtain a q where
    team: "tg_hasTeam t = has_team (pf_id p) (listAllocations db i)" and
    aq: "(a, q) \<in> set (listAllocations db i)" "al_item a = pf_id p" "tg_release t = pf_release q" by auto
  with listAllocations_items [OF ids p] have "q = p" by blast
  have has: "has_team (pf_id p) (listAllocations db i) \<longleftrightarrow> on_plan_with_team db i (pf_id p)"
    unfolding has_team_iff on_plan_with_team_def using listAllocations_items [OF ids p, of _ _ i] by blast
  have "fold (target_effect e plan ?w ?s) ?ts p = target_effect e plan ?w ?s t p"
    by (rule fold_effect_one [OF publishTargets_facts(1) t])
  also have "\<dots> = published_item e db plan p"
    using team aq(3) t(2) i unfolding \<open>q = p\<close> has
    by (cases "planWindow plan") (auto simp: target_effect_def published_item_def feature_writable_def)
  finally show ?thesis .
next
  case False
  then have "\<not> on_plan_with_team db i (pf_id p)"
    using publishTargets_facts(3) listAllocations_items [OF ids p, of _ _ i] unfolding on_plan_with_team_def by force
  then have "published_item e db plan p = p" by (simp add: published_item_def i)
  with fold_effect_other [of ?ts p e plan ?w ?s] False show ?thesis by simp
qed

text \<open>C30: Publishing a draft marks its row published, with the time and the publisher. When the request asks
  for the fields to be updated it also writes the window of the plan on every live Feature of its project
  that the plan gives to a team, and the release of the plan on those of them with no release or that one,
  provided the window is the release's own; a plan without a window writes no Feature, and without that
  request no Feature is written. No other row of any table changes: not another plan, team, capacity,
  allocation, release or work item.\<close>

theorem publish_writes:
  assumes "publishPlan e i updateFields db = Inr (db', n, skips)" and "distinct (map pf_id (cd_items db))"
  shows "\<exists>plan. findPlan db i (e_ws e) = Some plan \<and> cp_status plan = Draft \<and>
    db' = db\<lparr>cd_items := (if updateFields then map (published_item e db plan) (cd_items db) else cd_items db),
             cd_plans := map (\<lambda>p. if cp_id p = i \<and> cp_workspace p = e_ws e
                then p\<lparr>cp_status := Published, cp_publishedAt := Some (e_now e), cp_publishedBy := Some (e_actor e)\<rparr>
                else p) (cd_plans db)\<rparr>"
proof -
  from assms(1) obtain plan where plan: "requireDraft e db i = Inr plan" by (auto simp: publishPlan_def bind_sum_Inr)
  then have found: "findPlan db i (e_ws e) = Some plan" "cp_status plan = Draft"
    by (auto simp: requireDraft_def bind_sum_Inr split: option.splits if_splits)
  then have id: "cp_id plan = i" by (auto simp: findPlan_def find_Some_iff)
  obtain its where db': "db' = setStatus e i Published (Some (e_actor e)) (db\<lparr>cd_items := its\<rparr>)" and
    off: "\<not> updateFields \<longrightarrow> its = cd_items db"
    using assms(1) by (cases updateFields) (auto simp: publishPlan_def bind_sum_Inr Let_def split: if_splits prod.splits)
  have "its = map (published_item e db plan) (cd_items db)" if updateFields
  proof -
    from that plan assms(1) db' have "publish_features e plan (planWindow plan)
       (\<not> windowsMatch (planWindow plan) (releaseWindow e (cp_release plan) db))
       (publishTargets (listAllocations db i)) (cd_items db, 0, []) = (its, n, skips)"
      using publish_Inr_items [of e i db db' n skips plan] by simp
    then have "its = map (fold (target_effect e plan (planWindow plan)
      (\<not> windowsMatch (planWindow plan) (releaseWindow e (cp_release plan) db))) (publishTargets (listAllocations db i))) (cd_items db)"
      by (simp add: publish_features_all)
    also have "\<dots> = map (published_item e db plan) (cd_items db)"
      using publish_item [OF assms(2) _ id] by (intro map_cong) auto
    finally show ?thesis .
  qed
  with off db' found show ?thesis by (auto simp: setStatus_def update_plan_row_def update_where_def)
qed

section \<open>A parked row and a row of the team\<close>

lemma find_parked:
  assumes "rows_sound rows" "a \<in> set rows" "al_key a = (p, j)" "al_team a = u"
  shows "findAllocationFor p j u rows = Some a"
proof (cases "findAllocationFor p j u rows")
  case None
  with assms show ?thesis unfolding find_rows_for_None by blast
next
  case (Some b)
  from find_rows_for [OF this] assms have "b = a" by (intro sound_team [OF assms(1)]) auto
  with Some show ?thesis by simp
qed

lemma find_id: "rows_sound rows \<Longrightarrow> a \<in> set rows \<Longrightarrow> find (\<lambda>b. al_id b = al_id a) rows = Some a"
  using find_Some_iff [of "\<lambda>b. al_id b = al_id a" rows] sound_id [of rows _ a]
  by (metis (mono_tags, lifting) find_None_iff not_Some_eq nth_mem)

lemma update_collides:
  assumes "rows_sound rows" "a \<in> set rows" "b \<in> set rows" "al_id b \<noteq> al_id a" "al_value (f a) = al_value a"
    and "al_key (f a) = al_key b" "al_team (f a) = al_team b" "al_team b \<noteq> None"
  shows "updateAllocation (al_id a) f rows = Inl (Uncaught ''23505'')"
proof -
  have money: "money (al_value (f a))" using sound_row [OF assms(1,2)] assms(5) by (simp add: row_ok_def)
  then have "\<not> al_value (f a) < 0" by (simp add: money_def)
  moreover have "allocation_clash (f a) b" using assms(6,7) by (simp add: clash_key)
  ultimately have "stored_row (f a) (filter (\<lambda>b. al_id b \<noteq> al_id a) rows) = Inl (Uncaught ''23505'')"
    using money assms(3,4,7,8) by (auto simp: stored_row_def numeric_money)
  with find_id [OF assms(1,2)] show ?thesis by (simp add: updateAllocation_def)
qed

text \<open>When a Feature has both a parked row and a row of a team on a draft plan, assigning that team again without
  a value never succeeds: the parked row is moved onto the taken slot, and the unique violation is not
  caught; moving the parked row by its own id answers a conflict.\<close>

theorem reassigning_collides:
  assumes "cap_inv db" and "parked \<in> set (cd_allocations db)" "al_key parked = (p, j)" "al_team parked = None"
    and "row \<in> set (cd_allocations db)" "al_key row = (p, j)" "al_team row = Some t"
    and "requireDraft e db p = Inr plan" "hasProjectPermission (e_eff e) (cp_project plan) ''capacity:manage''"
    and "requireAllocatableFeature e db plan j True = Inr item"
  shows "allocate e i p j (Some t) None db = Inl (Uncaught ''23505'') \<and>
    updateAllocationOf e p (al_id parked) None (Some (Some t)) db = Inl (Conflict ''CAPACITY_ALLOCATION_TEAM_TAKEN'')"
proof -
  let ?rows = "cd_allocations db"
  have sound: "rows_sound ?rows" using assms(1) by (simp add: cap_inv_def)
  have "on_plan (cd_planTeams db) row" using assms(1,5) by (auto simp: cap_inv_def)
  then have "findTeam db p t \<noteq> None"
    using assms(6,7) by (auto simp: on_plan_def findTeam_def find_None_iff al_key_def)
  then obtain c where team: "requirePlanTeam db p t = Inr c" by (auto simp: requirePlanTeam_def)
  have planning: "planning e p db f = f plan" for f :: "plan_row \<Rightarrow> api_error + cap_db"
    using assms(8,9) by (simp add: planning_def assertProjectPermission_def)
  have parked: "findAllocationFor p j None ?rows = Some parked" using find_parked [OF sound assms(2-4)] .
  have taken: "findAllocationFor p j (Some t) ?rows = Some row" using find_parked [OF sound assms(5-7)] .
  have "al_id row \<noteq> al_id parked" using sound_id [OF sound assms(5,2)] assms(4,7) by auto
  then have "updateAllocation (al_id parked) (\<lambda>a. a\<lparr>al_team := Some t, al_primary := b\<rparr>) ?rows = Inl (Uncaught ''23505'')" for b
    using assms(3,6,7) by (intro update_collides [OF sound assms(2,5)]) (auto simp: al_key_def)
  with planning team parked assms(10) have "allocate e i p j (Some t) None db = Inl (Uncaught ''23505'')"
    by (simp add: allocate_def allocate_rows_def)
  moreover have "findAllocation (al_id parked) p ?rows = Some parked"
    using find_id [OF sound assms(2)] sound_id [OF sound _ assms(2)] assms(2,3)
    by (auto simp: findAllocation_def find_Some_iff al_key_def)
  with planning team taken assms(3,4) have "updateAllocationOf e p (al_id parked) None (Some (Some t)) db = Inl (Conflict ''CAPACITY_ALLOCATION_TEAM_TAKEN'')"
    by (simp add: updateAllocationOf_def al_key_def)
  ultimately show ?thesis ..
qed

section \<open>On concrete tables\<close>

definition ex_planner :: env where
  "ex_planner = \<lparr>e_ws = ''w'', e_actor = ''u'',
     e_acc = \<lparr>roleRows = [], members = [], projectMembers = [], projectTeams = [], teamMembers = []\<rparr>,
     e_eff = [\<lparr>scopeType = Global, scopeId = None, roleSlug = None, permissions = [''workspace:*'']\<rparr>],
     e_now = 7, e_today = ''2026-03-13''\<rparr>"

definition ex_plan :: "uuid \<Rightarrow> uuid \<Rightarrow> CapacityPlanStatus \<Rightarrow> plan_row" where
  "ex_plan i r s = \<lparr>cp_id = i, cp_workspace = ''w'', cp_project = ''p'', cp_release = r, cp_key = ''CP-'' @ i, cp_name = ''Plan'',
     cp_status = s, cp_unit = In_points, cp_start = Some ''2026-03-01'', cp_end = Some ''2026-03-31'', cp_publishedAt = None, cp_publishedBy = None\<rparr>"

definition ex_alloc :: "uuid \<Rightarrow> uuid \<Rightarrow> uuid option \<Rightarrow> bool \<Rightarrow> num \<Rightarrow> allocation_row" where
  "ex_alloc i j t b v = \<lparr>al_id = i, al_plan = ''1'', al_item = j, al_team = t, al_primary = b, al_value = v, al_source = Manual, al_created = 1\<rparr>"

definition ex_feature :: "uuid \<Rightarrow> portfolio_item_row" where
  "ex_feature i = \<lparr>pf_id = i, pf_workspace = ''w'', pf_project = ''p'', pf_key = i, pf_type = Feature, pf_state = ''st'', pf_size = Size_no_entry,
     pf_refined = 0, pf_refinedCount = 0, pf_release = None, pf_team = None, pf_rank = i, pf_start = None, pf_end = None, pf_archived = False\<rparr>"

text \<open>The Feature \<open>F\<close> is shared by the teams \<open>A\<close> (which holds it) and \<open>B\<close>, with a parked remainder; \<open>G\<close> belongs
  to \<open>A\<close> alone. Plan \<open>2\<close> has the team \<open>B\<close>; plan \<open>3\<close> is published.\<close>

definition ex_cap :: cap_db where
  "ex_cap =
     \<lparr>cd_base = \<lparr>iterations = [], projects = [\<lparr>p_id = ''p'', p_workspace = ''w'', p_archived = False, p_deleted = False\<rparr>],
        links = [\<lparr>pt_project = ''p'', pt_team = ''A'', pt_active = True\<rparr>, \<lparr>pt_project = ''p'', pt_team = ''B'', pt_active = True\<rparr>],
        items = [], history = [], transitions = [], activity = []\<rparr>,
      cd_plans = [ex_plan ''1'' ''R1'' Draft, ex_plan ''2'' ''R2'' Draft, ex_plan ''3'' ''R3'' Published],
      cd_planTeams = [\<lparr>ct_plan = ''1'', ct_team = ''A'', ct_capacity = Some 20\<rparr>, \<lparr>ct_plan = ''1'', ct_team = ''B'', ct_capacity = None\<rparr>,
                      \<lparr>ct_plan = ''2'', ct_team = ''B'', ct_capacity = None\<rparr>],
      cd_allocations = [ex_alloc ''a'' ''F'' (Some ''A'') True 8, ex_alloc ''b'' ''F'' (Some ''B'') False 5, ex_alloc ''c'' ''F'' None False (3/2),
                        ex_alloc ''d'' ''G'' (Some ''A'') True 4],
      cd_items = [ex_feature ''F'', ex_feature ''G'', (ex_feature ''H'')\<lparr>pf_release := Some ''R3''\<rparr>],
      cd_releases = [\<lparr>rl_id = ''R1'', rl_workspace = ''w'', rl_project = ''p'', rl_start = Some ''2026-03-01'', rl_end = Some ''2026-03-31''\<rparr>],
      cd_teams = [\<lparr>te_id = ''A'', te_workspace = ''w'', te_active = True\<rparr>, \<lparr>te_id = ''B'', te_workspace = ''w'', te_active = True\<rparr>],
      cd_settings = [], cd_children = []\<rparr>"

lemma ex_cap_inv: "cap_inv ex_cap"
proof -
  have "rows_sound (cd_allocations ex_cap)"
    by (rule rows_soundI) (auto simp: ex_cap_def ex_alloc_def row_ok_def money_def math_round_def floor_eq_iff allocation_clash_def)
  moreover have "owned (cd_allocations ex_cap)"
    unfolding owned_def owned_key_def by (auto simp: ex_cap_def ex_alloc_def al_key_def)
  moreover have "\<forall>a\<in>set (cd_allocations ex_cap). on_plan (cd_planTeams ex_cap) a"
    by (simp add: ex_cap_def ex_alloc_def on_plan_def)
  ultimately show ?thesis by (simp add: cap_inv_def plans_sound_def ex_cap_def ex_plan_def)
qed

definition ex_move :: cap_call where
  "ex_move = Move_item (\<lambda>n. ''n'' @ decimal n) ''1'' \<lparr>mv_item = ''F'', mv_target = ''2'', mv_updateRelease = True, mv_republish = True\<rparr>"

definition ex_moved :: "(api_error + unit) \<times> cap_db" where
  "ex_moved = cap_exec ex_planner ex_move ex_cap"

lemma ex_moved_Inr: "ex_moved = (Inr (), snd ex_moved)"
proof -
  have "fst ex_moved = Inr ()" unfolding ex_moved_def ex_move_def by code_simp
  then show ?thesis by (metis prod.collapse)
qed

theorem demand_kept_witness: "demand (''2'', ''F'') (cd_allocations (snd ex_moved)) = 29 / 2"
proof -
  have "\<not> edits_demand ex_move" by (simp add: ex_move_def)
  from demand_kept [OF ex_cap_inv this ex_moved_Inr [unfolded ex_moved_def], of "(''2'', ''F'')"]
  show ?thesis unfolding ex_moved_def by (simp add: ex_move_def demand_after_def demand_def rows_of_def ex_cap_def ex_alloc_def al_key_def)
qed

text \<open>Both teams leave, then the plan is published.\<close>

definition ex_calls :: "(env \<times> cap_call) list" where
  "ex_calls = [(ex_planner, Remove_team ''1'' ''A''), (ex_planner, Allocate ''n'' ''1'' ''G'' (Some ''B'') None), (ex_planner, Publish_plan ''1'' True)]"

lemma ex_calls_row: "\<exists>a\<in>set (cd_allocations (cap_run ex_calls ex_cap)). al_key a = (''1'', ''G'') \<and> al_team a \<noteq> None"
  unfolding ex_calls_def by code_simp

theorem allocations_sound_witness:
  "\<exists>b\<in>set (cd_allocations (cap_run ex_calls ex_cap)). al_key b = (''1'', ''G'') \<and> al_primary b \<and> al_team b \<noteq> None"
  using allocations_sound [OF ex_cap_inv refl, of ex_calls] ex_calls_row by metis

theorem published_frozen_witness:
  "ex_plan ''3'' ''R3'' Published \<in> set (cd_plans (snd (cap_exec ex_planner (Update_plan ''3'' (Some ''Other'') None None) ex_cap)))"
proof -
  have "ex_plan ''3'' ''R3'' Published \<in> set (cd_plans ex_cap)" by (simp add: ex_cap_def)
  from published_frozen [OF ex_cap_inv this, of "Update_plan ''3'' (Some ''Other'') None None" ex_planner]
  show ?thesis by (simp add: ex_plan_def)
qed

theorem capacity_authorised_witness: "\<exists>pr. call_project ex_planner ex_move ex_cap = Some pr"
  using capacity_authorised [of ex_planner ex_move ex_cap] ex_moved_Inr [unfolded ex_moved_def] by (metis fst_conv)

text \<open>Another planner publishes the target between the two transactions of a move.\<close>

definition ex_between :: "cap_db \<Rightarrow> cap_db" where
  "ex_between db = snd (cap_exec ex_planner (Publish_plan ''2'' True) db)"

definition ex_half_moved :: "(api_error + unit) \<times> cap_db" where
  "ex_half_moved = moveItemToPlan ex_planner ex_between (\<lambda>n. ''n'' @ decimal n) ''1''
     \<lparr>mv_item = ''F'', mv_target = ''2'', mv_updateRelease = True, mv_republish = True\<rparr> ex_cap"


definition ex_published :: cap_db where
  "ex_published = snd (cap_exec ex_planner (Publish_plan ''1'' True) ex_cap)"

lemma ex_publish: "\<exists>n skips. publishPlan ex_planner ''1'' True ex_cap = Inr (ex_published, n, skips)"
proof -
  have "\<not> (case publishPlan ex_planner ''1'' True ex_cap of Inl _ \<Rightarrow> True | Inr _ \<Rightarrow> False)" by code_simp
  then show ?thesis by (auto simp: ex_published_def settle_def split: sum.splits)
qed

theorem publish_writes_witness: "map pf_start (cd_items ex_published) = [Some ''2026-03-01'', Some ''2026-03-01'', None]"
proof -
  obtain n skips where pub: "publishPlan ex_planner ''1'' True ex_cap = Inr (ex_published, n, skips)" using ex_publish by blast
  have "distinct (map pf_id (cd_items ex_cap))" by (simp add: ex_cap_def ex_feature_def)
  from publish_writes [OF pub this, unfolded if_True] obtain plan where plan: "findPlan ex_cap ''1'' (e_ws ex_planner) = Some plan"
    and db': "ex_published = ex_cap\<lparr>cd_items := map (published_item ex_planner ex_cap plan) (cd_items ex_cap),
       cd_plans := map (\<lambda>p. if cp_id p = ''1'' \<and> cp_workspace p = e_ws ex_planner
          then p\<lparr>cp_status := Published, cp_publishedAt := Some (e_now ex_planner), cp_publishedBy := Some (e_actor ex_planner)\<rparr>
          else p) (cd_plans ex_cap)\<rparr>" by (elim exE conjE)
  from arg_cong [OF db', of cd_items]
  have written: "cd_items ex_published = map (published_item ex_planner ex_cap plan) (cd_items ex_cap)" by simp
  have "findPlan ex_cap ''1'' (e_ws ex_planner) = Some (ex_plan ''1'' ''R1'' Draft)" by code_simp
  moreover have "map pf_start (map (published_item ex_planner ex_cap (ex_plan ''1'' ''R1'' Draft)) (cd_items ex_cap)) =
    [Some ''2026-03-01'', Some ''2026-03-01'', None]" by code_simp
  ultimately show ?thesis using plan written by simp
qed

theorem reassigning_collides_witness: "allocate ex_planner ''n'' ''1'' ''F'' (Some ''B'') None ex_cap = Inl (Uncaught ''23505'')"
proof -
  have draft: "requireDraft ex_planner ex_cap ''1'' = Inr (ex_plan ''1'' ''R1'' Draft)" by code_simp
  have may: "hasProjectPermission (e_eff ex_planner) (cp_project (ex_plan ''1'' ''R1'' Draft)) ''capacity:manage''" by code_simp
  have item: "requireAllocatableFeature ex_planner ex_cap (ex_plan ''1'' ''R1'' Draft) ''F'' True = Inr (ex_feature ''F'')" by code_simp
  have "ex_alloc ''c'' ''F'' None False (3/2) \<in> set (cd_allocations ex_cap)" "ex_alloc ''b'' ''F'' (Some ''B'') False 5 \<in> set (cd_allocations ex_cap)"
    by (simp_all add: ex_cap_def)
  from reassigning_collides [OF ex_cap_inv this(1) _ _ this(2) _ _ draft may item, of "''B''" "''n''"]
  show ?thesis by (simp add: ex_alloc_def al_key_def)
qed

end
