(* ===== verification/CapacityForecast.thy ===== *)
theory CapacityForecast
  imports CapacityPlans Calendar "HOL-Library.Word"
begin

unbundle bit_operations_syntax

text \<open>
  The capacity forecast of a team (\<^verbatim>\<open>capacity-forecast.ts\<close> and \<^verbatim>\<open>forecastTeamCapacity\<close> of the service): a seeded
  32-bit generator, the sampled totals of a team's finished iterations, and the percentiles shown. The
  generator and the seed are kept at their width; velocities, days and percentages are exact rationals.
\<close>

section \<open>The generator\<close>

text \<open>One draw of \<^verbatim>\<open>mulberry32\<close>: the next state, and the word that is divided by 2^32.\<close>

definition mulberry_next :: "32 word \<Rightarrow> 32 word" where
  "mulberry_next a = a + 0x6d2b79f5"

definition mulberry_mix :: "32 word \<Rightarrow> 32 word" where
  "mulberry_mix a =
     (let t = (a XOR drop_bit 15 a) * (1 OR a);
          u = (t + (t XOR drop_bit 7 t) * (61 OR t)) XOR t
      in u XOR drop_bit 14 u)"

definition mulberry32 :: "32 word \<Rightarrow> num \<times> 32 word" where
  "mulberry32 a = (let a' = mulberry_next a in (of_nat (unat (mulberry_mix a')) / 4294967296, a'))"

text \<open>FNV-1a over the two ids.\<close>

definition fnv_step :: "char \<Rightarrow> 32 word \<Rightarrow> 32 word" where
  "fnv_step c hash = (hash XOR of_nat (of_char c)) * 0x01000193"

definition forecastSeed :: "uuid \<Rightarrow> uuid \<Rightarrow> 32 word" where
  "forecastSeed planId teamId =
     (let hash = fold fnv_step (planId @ '':'' @ teamId) 0x811c9dc5 in if hash = 0 then 1 else hash)"

section \<open>The forecast\<close>

datatype ForecastComplexity = Well_understood | Typical | Minor_concerns | Major_concerns | Many_unknowns

fun FORECAST_COMPLEXITY :: "ForecastComplexity \<Rightarrow> num" where
  "FORECAST_COMPLEXITY Well_understood = 10"
| "FORECAST_COMPLEXITY Typical = 0"
| "FORECAST_COMPLEXITY Minor_concerns = -10"
| "FORECAST_COMPLEXITY Major_concerns = -25"
| "FORECAST_COMPLEXITY Many_unknowns = -50"

definition FORECAST_HISTORY_DAYS :: int where
  "FORECAST_HISTORY_DAYS = 364"

definition FORECAST_TRIALS :: nat where
  "FORECAST_TRIALS = 20000"

definition FORECAST_MIN_HISTORY_DAYS :: num where
  "FORECAST_MIN_HISTORY_DAYS = 14"

record VelocitySample =
  vs_iteration :: uuid
  vs_points :: num
  vs_count :: num
  vs_days :: num

datatype insufficient = No_history | Too_little_history | No_window | No_cadence

datatype forecast_basis = From_history | Supplied

record ForecastInput =
  fi_samples :: "VelocitySample list"
  fi_velocity :: "num option"
  fi_fallbackDays :: "num option"
  fi_unit :: CapacityPlanUnit
  fi_windowDays :: num
  fi_availability :: num
  fi_complexity :: ForecastComplexity
  fi_seed :: "32 word"
  fi_trials :: "nat option"

record ForecastResult =
  fr_min :: num
  fr_median :: num
  fr_max :: num
  fr_iterations :: int
  fr_samples :: nat
  fr_historyDays :: num
  fr_basis :: forecast_basis
  fr_insufficient :: "insufficient option"

definition round1 :: "num \<Rightarrow> num" where
  "round1 n = of_int (math_round (n * 10)) / 10"

definition percentile :: "num list \<Rightarrow> num \<Rightarrow> num" where
  "percentile xs p =
     (if xs = [] then 0
      else let rank = \<lceil>(p / 100) * of_nat (length xs)\<rceil> - 1 in
        xs ! nat (min (int (length xs) - 1) (max 0 rank)))"

text \<open>The draws of one trial, and the totals of all of them.\<close>

fun trial_sum :: "num list \<Rightarrow> nat \<Rightarrow> num \<Rightarrow> 32 word \<Rightarrow> num \<times> 32 word" where
  "trial_sum values 0 s a = (s, a)"
| "trial_sum values (Suc n) s a =
     (let (r, a') = mulberry32 a in trial_sum values n (s + values ! nat \<lfloor>r * of_nat (length values)\<rfloor>) a')"

fun trial_totals :: "num list \<Rightarrow> nat \<Rightarrow> nat \<Rightarrow> 32 word \<Rightarrow> num list" where
  "trial_totals values iterations_modelled 0 a = []"
| "trial_totals values iterations_modelled (Suc n) a =
     (let (s, a') = trial_sum values iterations_modelled 0 a in s # trial_totals values iterations_modelled n a')"

definition ascending :: "num \<Rightarrow> num \<Rightarrow> int" where
  "ascending a b = (if a < b then -1 else if b < a then 1 else 0)"

definition historyDays :: "VelocitySample list \<Rightarrow> num" where
  "historyDays samples = sum_list (map (\<lambda>s. max 0 (vs_days s)) samples)"

definition supplied_velocity :: "ForecastInput \<Rightarrow> num option" where
  "supplied_velocity input = (case fi_velocity input of Some v \<Rightarrow> if 0 < v then Some v else None | None \<Rightarrow> None)"

definition cadenceDays :: "ForecastInput \<Rightarrow> num" where
  "cadenceDays input =
     (if fi_samples input \<noteq> [] then historyDays (fi_samples input) / of_nat (length (fi_samples input))
      else case fi_fallbackDays input of Some d \<Rightarrow> if 0 < d then d else 0 | None \<Rightarrow> 0)"

definition forecast_refusal :: "ForecastInput \<Rightarrow> insufficient option" where
  "forecast_refusal input =
     (if supplied_velocity input = None \<and> fi_samples input = [] then Some No_history
      else if supplied_velocity input = None \<and> historyDays (fi_samples input) < FORECAST_MIN_HISTORY_DAYS then Some Too_little_history
      else if \<not> 0 < fi_windowDays input then Some No_window
      else if \<not> 0 < cadenceDays input then Some No_cadence
      else None)"

definition iterationsModelled :: "ForecastInput \<Rightarrow> int" where
  "iterationsModelled input = max 1 (math_round (fi_windowDays input / cadenceDays input))"

definition sampled_values :: "ForecastInput \<Rightarrow> num list" where
  "sampled_values input =
     (case supplied_velocity input of
        Some v \<Rightarrow> [v]
      | None \<Rightarrow> map (\<lambda>s. if fi_unit input = In_points then vs_points s else vs_count s) (fi_samples input))"

definition forecast_scale :: "ForecastInput \<Rightarrow> num" where
  "forecast_scale input = (fi_availability input / 100) * (1 + FORECAST_COMPLEXITY (fi_complexity input) / 100)"

definition forecastCapacity :: "ForecastInput \<Rightarrow> ForecastResult" where
  "forecastCapacity input =
     (let basis = (if supplied_velocity input = None then From_history else Supplied);
          result = (\<lambda>low mid high n why. \<lparr>fr_min = low, fr_median = mid, fr_max = high, fr_iterations = n, fr_samples = length (fi_samples input),
                      fr_historyDays = historyDays (fi_samples input), fr_basis = basis, fr_insufficient = why\<rparr>)
      in case forecast_refusal input of
           Some why \<Rightarrow> result 0 0 0 0 (Some why)
         | None \<Rightarrow>
             let trials = (case fi_trials input of Some n \<Rightarrow> n | None \<Rightarrow> FORECAST_TRIALS);
                 totals = js_sort ascending (trial_totals (sampled_values input) (nat (iterationsModelled input)) trials (fi_seed input));
                 at' = (\<lambda>p. round1 (max 0 (percentile totals p * forecast_scale input)))
             in result (at' 15) (at' 50) (at' 85) (iterationsModelled input) None)"

section \<open>The history of a team\<close>

definition epoch_day :: "iso_date \<Rightarrow> int option" where
  "epoch_day s = map_option day_number (js_date s)"

text \<open>\<^verbatim>\<open>windowDays\<close> of the service and \<^verbatim>\<open>daysInclusive\<close> of the repository.\<close>

definition days_between :: "iso_date option \<Rightarrow> iso_date option \<Rightarrow> num" where
  "days_between start finish =
     (case (start, finish) of
        (Some s, Some f) \<Rightarrow> (case (epoch_day s, epoch_day f) of (Some m, Some n) \<Rightarrow> of_int (max 0 (n - m + 1)) | _ \<Rightarrow> 0)
      | _ \<Rightarrow> 0)"

text \<open>The work a team had accepted in one iteration.\<close>

definition delivered :: "uuid \<Rightarrow> uuid \<Rightarrow> WorkItem list \<Rightarrow> WorkItem list" where
  "delivered teamId iteration rows =
     filter (\<lambda>w. wi_iteration w = Some iteration \<and> wi_team w = Some teamId \<and> \<not> wi_deleted w \<and>
                 isAcceptedScheduleState (wi_schedule w) \<and> w_split w = None) rows"

definition newest_first :: "iteration_row \<Rightarrow> iteration_row \<Rightarrow> int" where
  "newest_first a b =
     (if the (it_end b) < the (it_end a) then -1 else if the (it_end a) < the (it_end b) then 1
      else if it_id a < it_id b then -1 else if it_id b < it_id a then 1 else 0)"

definition in_history :: "iso_date \<Rightarrow> int \<Rightarrow> iteration_row \<Rightarrow> bool" where
  "in_history today days r \<longleftrightarrow>
     (case (it_start r, it_end r) of
        (Some s, Some f) \<Rightarrow>
          (case (epoch_day f, epoch_day today) of (Some m, Some n) \<Rightarrow> m < n \<and> n - days \<le> m | _ \<Rightarrow> False)
      | _ \<Rightarrow> False)"

definition teamVelocitySamples :: "env \<Rightarrow> cap_db \<Rightarrow> uuid \<Rightarrow> uuid \<Rightarrow> int \<Rightarrow> VelocitySample list" where
  "teamVelocitySamples e db projectId teamId days =
     map (\<lambda>r. let done' = delivered teamId (it_id r) (cd_children db) in
            \<lparr>vs_iteration = it_id r, vs_points = sum_list (List.map_filter w_points done'), vs_count = of_nat (length done'),
             vs_days = days_between (it_start r) (it_end r)\<rparr>)
       (js_sort newest_first
         (filter (\<lambda>r. it_workspace r = e_ws e \<and> it_project r = projectId \<and> in_history (e_today e) days r \<and>
                      delivered teamId (it_id r) (cd_children db) \<noteq> []) (iterations (cd_base db))))"

definition projectIterationCadenceDays :: "env \<Rightarrow> cap_db \<Rightarrow> uuid \<Rightarrow> num option" where
  "projectIterationCadenceDays e db projectId =
     (let lengths = List.map_filter (\<lambda>r. case (it_start r, it_end r) of
              (Some s, Some f) \<Rightarrow>
                if it_workspace r = e_ws e \<and> it_project r = projectId
                then (case (epoch_day s, epoch_day f) of (Some m, Some n) \<Rightarrow> Some (n - m + 1) | _ \<Rightarrow> None) else None
            | _ \<Rightarrow> None) (iterations (cd_base db))
      in if lengths = [] then None
         else let avg = of_int (sum_list lengths) / of_nat (length lengths) in if 0 < avg then Some avg else None)"

text \<open>A draft is not found by a reader who may not see drafts.\<close>

definition canSeeDrafts :: "env \<Rightarrow> uuid \<Rightarrow> bool" where
  "canSeeDrafts e projectId \<longleftrightarrow>
     hasProjectPermission (e_eff e) projectId ''capacity:view_draft'' \<or> hasProjectPermission (e_eff e) projectId ''capacity:manage'' \<or>
     hasProjectPermission (e_eff e) projectId ''capacity:publish''"

definition getPlan :: "env \<Rightarrow> uuid \<Rightarrow> cap_db \<Rightarrow> api_error + plan_row" where
  "getPlan e i db =
     (case findPlan db i (e_ws e) of
        None \<Rightarrow> Inl (NotFound ''CAPACITY_PLAN_NOT_FOUND'')
      | Some plan \<Rightarrow>
          if cp_status plan \<noteq> Published \<and> \<not> canSeeDrafts e (cp_project plan) then Inl (NotFound ''CAPACITY_PLAN_NOT_FOUND'') else Inr plan)"

definition forecastTeamCapacity :: "env \<Rightarrow> uuid \<Rightarrow> uuid \<Rightarrow> num \<Rightarrow> ForecastComplexity \<Rightarrow> num option \<Rightarrow> cap_db \<Rightarrow> api_error + ForecastResult" where
  "forecastTeamCapacity e i teamId availability complexity velocity db =
     bind_sum (getPlan e i db) (\<lambda>plan.
     bind_sum (assertProjectPermission (e_eff e) (cp_project plan) ''capacity:view'') (\<lambda>_.
     bind_sum (requirePlanTeam db i teamId) (\<lambda>_.
     let samples = teamVelocitySamples e db (cp_project plan) teamId FORECAST_HISTORY_DAYS;
         supplied = (case velocity of Some v \<Rightarrow> 0 < v | None \<Rightarrow> False);
         fallback = (if supplied \<and> samples = [] then projectIterationCadenceDays e db (cp_project plan) else None)
     in Inr (forecastCapacity
          \<lparr>fi_samples = samples, fi_velocity = velocity, fi_fallbackDays = fallback, fi_unit = cp_unit plan,
           fi_windowDays = (case planWindow plan of None \<Rightarrow> 0 | Some (s, f) \<Rightarrow> days_between (Some s) (Some f)),
           fi_availability = availability, fi_complexity = complexity, fi_seed = forecastSeed i teamId, fi_trials = None\<rparr>))))"

section \<open>The generator\<close>

lemma mulberry32_range: "mulberry32 a = (r, a') \<Longrightarrow> 0 \<le> r \<and> r < 1"
proof -
  assume "mulberry32 a = (r, a')"
  then have r: "r = of_nat (unat w) / 4294967296" if "w = mulberry_mix (mulberry_next a)" for w
    using that by (auto simp: mulberry32_def Let_def)
  define w where "w = mulberry_mix (mulberry_next a)"
  have "unat w < 2 ^ 32" using unsigned_less [of w] by simp
  then have "of_nat (unat w) < (of_nat (2 ^ 32) :: num)" by (simp only: of_nat_less_iff)
  moreover have "0 \<le> (of_nat (unat w) :: num)" by (rule of_nat_0_le_iff)
  ultimately show ?thesis unfolding r [OF w_def] by simp
qed

lemma draw_in_range:
  assumes "mulberry32 a = (r, a')" "n \<noteq> 0"
  shows "nat \<lfloor>r * of_nat n\<rfloor> < n"
proof -
  from mulberry32_range [OF assms(1)] have r: "0 \<le> r" "r < 1" by simp_all
  then have "r * of_nat n < of_nat n" using assms(2) by simp
  then have "\<lfloor>r * of_nat n\<rfloor> < int n" by (simp add: floor_less_iff)
  then show ?thesis using assms(2) by simp
qed

text \<open>The state runs through the multiples of an odd constant: it does not repeat within 2^32 draws.\<close>

fun state_after :: "nat \<Rightarrow> 32 word \<Rightarrow> 32 word" where
  "state_after 0 a = a"
| "state_after (Suc n) a = state_after n (snd (mulberry32 a))"

lemma state_after_add: "state_after n a = a + of_nat n * 0x6d2b79f5"
  by (induction n arbitrary: a) (simp_all add: mulberry32_def mulberry_next_def Let_def algebra_simps)

lemma odd_factor_inj:
  assumes "k * i = (1 :: 32 word)" "x * k = y * k"
  shows "x = y"
proof -
  from assms(2) have "x * (k * i) = y * (k * i)" by (metis mult.assoc)
  with assms(1) show ?thesis by simp
qed

lemma state_inverse: "(0x6d2b79f5 :: 32 word) * 3696798301 = 1"
  by simp

lemma states_distinct:
  assumes "m < 2 ^ 32" "n < 2 ^ 32" "state_after m a = state_after n a"
  shows "m = n"
proof -
  from assms(3) have "of_nat m * (0x6d2b79f5 :: 32 word) = of_nat n * 0x6d2b79f5" by (simp add: state_after_add)
  from odd_factor_inj [OF state_inverse this] have "(of_nat m :: 32 word) = of_nat n" .
  with assms(1,2) show ?thesis by (simp add: word_of_nat_eq_iff take_bit_nat_eq_self)
qed

section \<open>The seed\<close>

lemma fnv_inverse: "(0x01000193 :: 32 word) * 899433627 = 1"
  by simp

lemma fnv_step_eq: "fnv_step c x = fnv_step d y \<Longrightarrow> x XOR of_nat (of_char c) = y XOR of_nat (of_char d)"
  unfolding fnv_step_def by (rule odd_factor_inj [OF fnv_inverse])

lemma xor_cancel: "(x :: 32 word) XOR a = y XOR a \<longleftrightarrow> x = y" "a XOR (x :: 32 word) = a XOR y \<longleftrightarrow> x = y"
  by (metis xor.assoc xor_self_eq xor.right_neutral)+

lemma fold_fnv_inj: "fold fnv_step cs x = fold fnv_step cs y \<Longrightarrow> x = y"
proof (induction cs arbitrary: x y)
  case (Cons c cs)
  then have "fnv_step c x = fnv_step c y" by simp
  from fnv_step_eq [OF this] show ?case by (simp add: xor_cancel)
qed simp

lemma of_char_word_inj: "(of_nat (of_char c) :: 32 word) = of_nat (of_char d) \<Longrightarrow> c = d"
proof -
  assume eq: "(of_nat (of_char c) :: 32 word) = of_nat (of_char d)"
  have "(of_char c :: nat) < 256" "(of_char d :: nat) < 256" by simp_all
  with eq have "(of_char c :: nat) = of_char d" by (simp add: word_of_nat_eq_iff take_bit_nat_eq_self)
  then show ?thesis by simp
qed

text \<open>Two keys that differ in one character have different hashes.\<close>

lemma fnv_one_char: "fold fnv_step (xs @ c # ys) h = fold fnv_step (xs @ d # ys) h \<Longrightarrow> c = d"
proof -
  assume "fold fnv_step (xs @ c # ys) h = fold fnv_step (xs @ d # ys) h"
  then have "fnv_step c (fold fnv_step xs h) = fnv_step d (fold fnv_step xs h)" by (simp add: fold_fnv_inj)
  from fnv_step_eq [OF this] show ?thesis by (simp add: xor_cancel of_char_word_inj)
qed

section \<open>The totals\<close>

lemma trial_sum_bounds:
  assumes "values \<noteq> []" "\<forall>v\<in>set values. low \<le> v \<and> v \<le> high" "trial_sum values n s a = (s', a')"
  shows "s + of_nat n * low \<le> s' \<and> s' \<le> s + of_nat n * high"
  using assms(3)
proof (induction n arbitrary: s a)
  case (Suc n)
  obtain r b where r: "mulberry32 a = (r, b)" by fastforce
  let ?v = "values ! nat \<lfloor>r * of_nat (length values)\<rfloor>"
  have "?v \<in> set values" using draw_in_range [OF r, of "length values"] assms(1) by simp
  with assms(2) have "low \<le> ?v" "?v \<le> high" by auto
  moreover have "s + ?v + of_nat n * low \<le> s' \<and> s' \<le> s + ?v + of_nat n * high"
    using Suc.IH [of "s + ?v" b] Suc.prems r by simp
  ultimately show ?case by (simp add: algebra_simps)
qed simp

lemma trial_totals_bounds:
  assumes "values \<noteq> []" "\<forall>v\<in>set values. low \<le> v \<and> v \<le> high"
  shows "x \<in> set (trial_totals values n trials a) \<Longrightarrow> of_nat n * low \<le> x \<and> x \<le> of_nat n * high"
proof (induction trials arbitrary: a)
  case (Suc trials)
  obtain s b where "trial_sum values n 0 a = (s, b)" by fastforce
  with Suc trial_sum_bounds [OF assms, of n 0 a s b] show ?case by auto
qed simp

lemma length_trial_totals [simp]: "length (trial_totals values n trials a) = trials"
  by (induction trials arbitrary: a) (simp_all split: prod.splits)

lemma round1_mono: "x \<le> y \<Longrightarrow> round1 x \<le> round1 y"
  using math_round_mono [of "x * 10" "y * 10"] by (simp add: round1_def)

lemma round1_0 [simp]: "round1 0 = 0"
  using math_round_of_int [of 0] by (simp add: round1_def)

interpretation by_total: js_order ascending
  by unfold_locales (auto simp: ascending_def split: if_splits)

lemma sorted_ascending: "sorted_wrt (\<le>) (js_sort ascending xs)"
  by (rule sorted_wrt_mono_rel [OF _ by_total.sorted_js_sort]) (auto simp: ascending_def split: if_splits)

definition percentile_index :: "nat \<Rightarrow> num \<Rightarrow> nat" where
  "percentile_index n p = nat (min (int n - 1) (max 0 (\<lceil>(p / 100) * of_nat n\<rceil> - 1)))"

lemma percentile_index: "xs \<noteq> [] \<Longrightarrow> percentile xs p = xs ! percentile_index (length xs) p"
  by (simp add: percentile_def percentile_index_def Let_def)

lemma percentile_index_less: "0 < n \<Longrightarrow> percentile_index n p < n"
proof -
  assume "0 < n"
  moreover have "min (int n - 1) x < int n" for x by linarith
  ultimately show ?thesis unfolding percentile_index_def by (simp add: nat_less_iff)
qed

lemma percentile_index_mono: "p \<le> q \<Longrightarrow> percentile_index n p \<le> percentile_index n q"
proof -
  assume "p \<le> q"
  then have "p / 100 * of_nat n \<le> q / 100 * of_nat n" by (intro mult_right_mono divide_right_mono) simp_all
  then have "\<lceil>p / 100 * of_nat n\<rceil> \<le> \<lceil>q / 100 * of_nat n\<rceil>" by (rule ceiling_mono)
  then show ?thesis unfolding percentile_index_def by (intro nat_mono min.mono max.mono) linarith+
qed

lemma percentile_mem: "xs \<noteq> [] \<Longrightarrow> percentile xs p \<in> set xs"
  by (simp add: percentile_index percentile_index_less)

lemma percentile_mono: "sorted_wrt (\<le>) xs \<Longrightarrow> p \<le> q \<Longrightarrow> percentile xs p \<le> percentile xs q"
proof (cases "xs = []")
  case False
  assume s: "sorted_wrt (\<le>) xs" and pq: "p \<le> q"
  then have "sorted xs" by simp
  from sorted_nth_mono [OF this percentile_index_mono [OF pq]] False show ?thesis
    by (simp add: percentile_index percentile_index_less)
qed (simp add: percentile_def)

section \<open>What a forecast says\<close>

lemma scale_nonneg: "0 \<le> fi_availability input \<Longrightarrow> 0 \<le> forecast_scale input"
  unfolding forecast_scale_def by (cases "fi_complexity input") simp_all

text \<open>The figure shown for a percentile.\<close>

definition shown :: "ForecastInput \<Rightarrow> num \<Rightarrow> num" where
  "shown input p =
     round1 (max 0 (percentile (js_sort ascending (trial_totals (sampled_values input) (nat (iterationsModelled input))
        (case fi_trials input of Some n \<Rightarrow> n | None \<Rightarrow> FORECAST_TRIALS) (fi_seed input))) p * forecast_scale input))"

lemma forecast_shown:
  "forecast_refusal input = None \<Longrightarrow>
     fr_min (forecastCapacity input) = shown input 15 \<and> fr_median (forecastCapacity input) = shown input 50 \<and>
     fr_max (forecastCapacity input) = shown input 85 \<and> fr_iterations (forecastCapacity input) = iterationsModelled input \<and>
     fr_insufficient (forecastCapacity input) = None"
  by (simp add: forecastCapacity_def shown_def Let_def)

lemma shown_mono: "0 \<le> fi_availability input \<Longrightarrow> p \<le> q \<Longrightarrow> shown input p \<le> shown input q"
  unfolding shown_def
  by (intro round1_mono max.mono order.refl mult_right_mono percentile_mono sorted_ascending scale_nonneg)

lemma shown_nonneg: "0 \<le> shown input p"
  using round1_mono [of 0] unfolding shown_def by simp

text \<open>The values drawn from are not empty.\<close>

lemma sampled_nonempty: "forecast_refusal input = None \<Longrightarrow> sampled_values input \<noteq> []"
  by (auto simp: forecast_refusal_def sampled_values_def split: option.splits if_splits)

lemma shown_between:
  assumes "forecast_refusal input = None" "0 \<le> fi_availability input" "fi_trials input \<noteq> Some 0"
    and "\<forall>v\<in>set (sampled_values input). low \<le> v \<and> v \<le> high"
  shows "round1 (max 0 (of_int (iterationsModelled input) * low * forecast_scale input)) \<le> shown input p \<and>
    shown input p \<le> round1 (max 0 (of_int (iterationsModelled input) * high * forecast_scale input))"
proof -
  define n where "n = nat (iterationsModelled input)"
  define t where "t = (case fi_trials input of Some n \<Rightarrow> n | None \<Rightarrow> FORECAST_TRIALS)"
  let ?totals = "trial_totals (sampled_values input) n t (fi_seed input)"
  have "1 \<le> iterationsModelled input" by (simp add: iterationsModelled_def)
  then have n: "of_int (iterationsModelled input) = (of_nat n :: num)" by (simp add: n_def)
  have "t \<noteq> 0" using assms(3) by (auto simp: t_def FORECAST_TRIALS_def split: option.splits)
  then have "js_sort ascending ?totals \<noteq> []" by (metis length_js_sort length_trial_totals list.size(3))
  from percentile_mem [OF this] have "percentile (js_sort ascending ?totals) p \<in> set ?totals" by simp
  from trial_totals_bounds [OF sampled_nonempty [OF assms(1)] assms(4) this]
  have "of_nat n * low * forecast_scale input \<le> percentile (js_sort ascending ?totals) p * forecast_scale input"
    "percentile (js_sort ascending ?totals) p * forecast_scale input \<le> of_nat n * high * forecast_scale input"
    using scale_nonneg [OF assms(2)] by (simp_all add: mult_right_mono)
  then show ?thesis unfolding shown_def n n_def [symmetric] t_def [symmetric] by (intro conjI round1_mono max.mono order.refl)
qed

text \<open>C32: A forecast that refuses shows zeros; one that does not models at least one iteration, shows three non-negative
  figures with one decimal in ascending order, and each of them lies between what the least and the greatest
  sampled value would give in every iteration, however the generator draws.\<close>

theorem forecast_well_formed:
  assumes "0 \<le> fi_availability input" and "fi_trials input \<noteq> Some 0"
    and sampled: "\<forall>v\<in>set (sampled_values input). low \<le> v \<and> v \<le> high"
    and f: "f = forecastCapacity input"
  shows "0 \<le> fr_min f \<and> fr_min f \<le> fr_median f \<and> fr_median f \<le> fr_max f \<and>
    (\<exists>a b c. fr_min f = of_int a / 10 \<and> fr_median f = of_int b / 10 \<and> fr_max f = of_int c / 10) \<and>
    fr_insufficient f = forecast_refusal input \<and>
    (if forecast_refusal input = None
     then 1 \<le> fr_iterations f \<and>
       round1 (max 0 (of_int (fr_iterations f) * low * forecast_scale input)) \<le> fr_min f \<and>
       fr_max f \<le> round1 (max 0 (of_int (fr_iterations f) * high * forecast_scale input))
     else fr_max f = 0 \<and> fr_iterations f = 0)"
proof (cases "forecast_refusal input")
  case None
  from forecast_shown [OF this] have shown: "fr_min f = shown input 15" "fr_median f = shown input 50" "fr_max f = shown input 85"
    "fr_iterations f = iterationsModelled input" "fr_insufficient f = None" by (simp_all add: f)
  have "\<exists>n. shown input p = of_int n / 10" for p by (auto simp: shown_def round1_def)
  moreover have "1 \<le> iterationsModelled input" by (simp add: iterationsModelled_def)
  ultimately show ?thesis
    using shown shown_mono [OF assms(1)] shown_nonneg shown_between [OF None assms(1,2) sampled] None by auto
next
  case (Some why)
  then show ?thesis by (auto simp: f forecastCapacity_def Let_def intro!: exI [of _ 0])
qed

definition ex_forecast :: ForecastInput where
  "ex_forecast = \<lparr>fi_samples = [\<lparr>vs_iteration = ''1'', vs_points = 20, vs_count = 4, vs_days = 14\<rparr>, \<lparr>vs_iteration = ''2'', vs_points = 30, vs_count = 6, vs_days = 14\<rparr>],
     fi_velocity = None, fi_fallbackDays = None, fi_unit = In_points, fi_windowDays = 28, fi_availability = 100, fi_complexity = Typical,
     fi_seed = forecastSeed ''P'' ''T'', fi_trials = Some 20\<rparr>"

theorem forecast_well_formed_witness:
  "40 \<le> fr_min (forecastCapacity ex_forecast) \<and> fr_max (forecastCapacity ex_forecast) \<le> 60"
proof -
  have "sampled_values ex_forecast = [20, 30]" "forecast_refusal ex_forecast = None" "forecast_scale ex_forecast = 1"
    "iterationsModelled ex_forecast = 2" by code_simp+
  with forecast_well_formed [OF _ _ _ refl, of ex_forecast 20 30] forecast_shown [of ex_forecast]
  have "round1 40 \<le> fr_min (forecastCapacity ex_forecast) \<and> fr_max (forecastCapacity ex_forecast) \<le> round1 60"
    by (simp add: ex_forecast_def)
  moreover have "round1 40 = 40" "round1 60 = 60" by code_simp+
  ultimately show ?thesis by simp
qed

text \<open>With a supplied velocity the forecast is that velocity over the window: its three figures coincide.\<close>

corollary supplied_forecast:
  assumes "forecast_refusal input = None" "0 \<le> fi_availability input" "fi_trials input \<noteq> Some 0" "supplied_velocity input = Some v"
  shows "fr_min (forecastCapacity input) = round1 (max 0 (of_int (iterationsModelled input) * v * forecast_scale input)) \<and>
    fr_max (forecastCapacity input) = fr_min (forecastCapacity input)"
proof -
  have "\<forall>x\<in>set (sampled_values input). v \<le> x \<and> x \<le> v" using assms(4) by (simp add: sampled_values_def)
  from shown_between [OF assms(1-3) this] forecast_shown [OF assms(1)] show ?thesis by (metis antisym)
qed

text \<open>Two teams of a plan whose ids differ in one character are forecast from different seeds, except where one seed is
  the 1 that stands for 0; and within 2^32 draws the generator never comes back to a state it has been in.\<close>

theorem forecast_seeds_differ:
  assumes "c \<noteq> d" and "m < 2 ^ 32" "n < 2 ^ 32" "m \<noteq> n"
  shows "(forecastSeed planId (xs @ c # ys) = forecastSeed planId (xs @ d # ys) \<longrightarrow> forecastSeed planId (xs @ c # ys) = 1) \<and>
    state_after m a \<noteq> state_after n a"
proof -
  have "fold fnv_step (planId @ '':'' @ xs @ c # ys) h \<noteq> fold fnv_step (planId @ '':'' @ xs @ d # ys) h" for h
    using fnv_one_char [of "planId @ '':'' @ xs" c ys h d] assms(1) by (metis append.assoc)
  then have "forecastSeed planId (xs @ c # ys) = forecastSeed planId (xs @ d # ys) \<longrightarrow> forecastSeed planId (xs @ c # ys) = 1"
    by (auto simp: forecastSeed_def Let_def split: if_splits)
  with states_distinct [OF assms(2,3)] assms(4) show ?thesis by blast
qed

theorem forecast_seeds_differ_witness: "forecastSeed ''p'' ''t1'' \<noteq> forecastSeed ''p'' ''t2''"
proof -
  have "forecastSeed ''p'' ''t1'' \<noteq> 1" by code_simp
  with forecast_seeds_differ [of "CHR ''1''" "CHR ''2''" 0 1 "''p''" "''t''" "[]" 0] show ?thesis by auto
qed

end
