(* ===== verification/PlanDetail.thy ===== *)
theory PlanDetail
  imports CapacityCases CapacityForecast
begin

text \<open>
  The plan list and the plan detail: \<^verbatim>\<open>listPlans\<close>, \<^verbatim>\<open>getPlan\<close> and \<^verbatim>\<open>getPlanDetail\<close> of
  \<^verbatim>\<open>capacity-plans.service.ts\<close> over the queries of the repository and the child scopes of
  \<^verbatim>\<open>capacity-metrics.sql.ts\<close>. Each allocation row is measured on its slice of the Feature's child work, the
  rows add up to teams, to Features and to the plan, and the reader sees what their permissions and teams allow.
  The laws: slices partition the child work, and the figures of the three levels agree.
\<close>

section \<open>Child work\<close>

definition featureChildScope :: "allocation_row \<Rightarrow> WorkItem \<Rightarrow> bool" where
  "featureChildScope a w \<longleftrightarrow> w_feature w = Some (al_item a) \<and> \<not> wi_deleted w"

text \<open>In SQL an equality with a null is never true: a child without a team equals no team.\<close>

definition teamSliceChildScope :: "allocation_row list \<Rightarrow> allocation_row \<Rightarrow> WorkItem \<Rightarrow> bool" where
  "teamSliceChildScope peers a w \<longleftrightarrow>
     featureChildScope a w \<and>
     (al_team a = None \<or>
      (wi_team w \<noteq> None \<and> wi_team w = al_team a) \<or>
      (al_primary a \<and>
       \<not> (\<exists>b\<in>set peers. al_plan b = al_plan a \<and> al_item b = al_item a \<and> wi_team w \<noteq> None \<and> al_team b = wi_team w)))"

definition measureSql :: "CapacityPlanUnit \<Rightarrow> WorkItem list \<Rightarrow> num" where
  "measureSql unit ws =
     (if unit = In_count then of_nat (length ws)
      else sum_list (map (\<lambda>w. case w_points w of None \<Rightarrow> 0 | Some p \<Rightarrow> p) ws))"

definition completedMeasureSql :: "CapacityPlanUnit \<Rightarrow> WorkItem list \<Rightarrow> num" where
  "completedMeasureSql unit ws = measureSql unit (filter (\<lambda>w. isCompletedScheduleState (wi_schedule w)) ws)"

text \<open>
  A row of the list with its figures. \<open>refined\<close> is the points column of the Feature, whatever the unit of
  the plan.
\<close>

record CapacityAllocationRow =
  ar_row :: allocation_row
  ar_feature :: portfolio_item_row
  ar_refined :: "num option"
  ar_rollup :: num
  ar_complete :: num
  ar_itemRollup :: num
  ar_itemComplete :: num

definition measured_row :: "cap_db \<Rightarrow> plan_row \<Rightarrow> allocation_row \<times> portfolio_item_row \<Rightarrow> CapacityAllocationRow" where
  "measured_row db plan x =
     (let slice = filter (teamSliceChildScope (cd_allocations db) (fst x)) (cd_children db);
          whole = filter (featureChildScope (fst x)) (cd_children db) in
      \<lparr>ar_row = fst x, ar_feature = snd x, ar_refined = Some (pf_refined (snd x)),
       ar_rollup = measureSql (cp_unit plan) slice, ar_complete = completedMeasureSql (cp_unit plan) slice,
       ar_itemRollup = measureSql (cp_unit plan) whole, ar_itemComplete = completedMeasureSql (cp_unit plan) whole\<rparr>)"

definition measured_rows :: "cap_db \<Rightarrow> plan_row \<Rightarrow> CapacityAllocationRow list" where
  "measured_rows db plan = map (measured_row db plan) (listAllocations db (cp_id plan))"

section \<open>The figures of a row, a team and a Feature\<close>

record CapacityMetrics =
  mt_complete :: num
  mt_rollup :: num
  mt_estimated :: num
  mt_capacity :: "num option"
  mt_warnings :: "CapacityWarning list"

record CapacityAllocationView =
  av_row :: allocation_row
  av_tier :: EstimateTier
  av_feature :: portfolio_item_row
  av_archived :: bool
  av_refined :: "num option"
  av_preliminary :: "num option"
  av_metrics :: CapacityMetrics

text \<open>\<^verbatim>\<open>inUnit(size) || null\<close>: zero reads as no estimate.\<close>

definition or_null :: "num \<Rightarrow> num option" where
  "or_null v = (if v = 0 then None else Some v)"

definition inUnit :: "cap_db \<Rightarrow> plan_row \<Rightarrow> PreliminaryEstimateSize \<Rightarrow> num" where
  "inUnit db plan s = in_unit (cp_unit plan) (forProject (cd_settings db) (cp_project plan) s)"

definition allocation_view :: "(PreliminaryEstimateSize \<Rightarrow> num) \<Rightarrow> CapacityAllocationRow \<Rightarrow> CapacityAllocationView" where
  "allocation_view sized row =
     (let committed = al_value (ar_row row);
          archived = pf_archived (ar_feature row);
          preliminary = sized (pf_size (ar_feature row)) in
      \<lparr>av_row = ar_row row,
       av_tier = snd (resolveEstimate committed (ar_refined row) preliminary),
       av_feature = ar_feature row, av_archived = archived,
       av_refined = ar_refined row, av_preliminary = or_null preliminary,
       av_metrics =
         \<lparr>mt_complete = (if archived then 0 else ar_complete row),
          mt_rollup = (if archived then 0 else ar_rollup row),
          mt_estimated = (if archived then 0 else committed),
          mt_capacity = None,
          mt_warnings = computeCapacityWarnings Warned_feature (ar_rollup row) committed None
            (Some (if committed > 0 then Tier_allocated else Tier_none))\<rparr>\<rparr>)"

definition metric_sum :: "(CapacityMetrics \<Rightarrow> num) \<Rightarrow> CapacityAllocationView list \<Rightarrow> num" where
  "metric_sum f views = sum_list (map (\<lambda>a. f (av_metrics a)) views)"

definition team_metrics :: "CapacityAllocationView list \<Rightarrow> plan_team_row \<Rightarrow> CapacityMetrics" where
  "team_metrics views team =
     (let mine = filter (\<lambda>a. al_team (av_row a) = Some (ct_team team)) views;
          rollup = metric_sum mt_rollup mine;
          estimated = metric_sum mt_estimated mine in
      \<lparr>mt_complete = metric_sum mt_complete mine, mt_rollup = rollup, mt_estimated = estimated, mt_capacity = ct_capacity team,
       mt_warnings = computeCapacityWarnings Warned_team rollup estimated (ct_capacity team) None\<rparr>)"

record CapacityPlanItem =
  ci_item :: uuid
  ci_feature :: portfolio_item_row
  ci_estimated :: num
  ci_rollup :: num
  ci_complete :: num
  ci_archived :: bool
  ci_tier :: EstimateTier
  ci_warnings :: "CapacityWarning list"
  ci_allocated :: "num option"
  ci_refined :: "num option"
  ci_preliminary :: "num option"
  ci_teamIds :: "uuid list"
  ci_primary :: "uuid option"
  ci_unallocated :: bool

definition new_plan_item :: "(PreliminaryEstimateSize \<Rightarrow> num) \<Rightarrow> CapacityAllocationRow \<Rightarrow> CapacityAllocationView \<Rightarrow> CapacityPlanItem" where
  "new_plan_item sized row aview =
     (let team = al_team (ar_row row);
          archived = pf_archived (ar_feature row);
          estimated = mt_estimated (av_metrics aview) in
      \<lparr>ci_item = al_item (ar_row row), ci_feature = ar_feature row,
       ci_estimated = (if team = None then 0 else estimated),
       ci_rollup = (if archived then 0 else ar_itemRollup row),
       ci_complete = (if archived then 0 else ar_itemComplete row),
       ci_archived = archived, ci_tier = Tier_none, ci_warnings = [],
       ci_allocated = (if team = None then None else Some estimated),
       ci_refined = ar_refined row, ci_preliminary = or_null (sized (pf_size (ar_feature row))),
       ci_teamIds = (case team of None \<Rightarrow> [] | Some t \<Rightarrow> [t]),
       ci_primary = (if al_primary (ar_row row) then team else None),
       ci_unallocated = (team = None)\<rparr>)"

definition another_row :: "CapacityAllocationRow \<Rightarrow> CapacityAllocationView \<Rightarrow> CapacityPlanItem \<Rightarrow> CapacityPlanItem" where
  "another_row row aview it =
     (let estimated = mt_estimated (av_metrics aview);
          it1 = (case al_team (ar_row row) of
                   None \<Rightarrow> it\<lparr>ci_unallocated := True\<rparr>
                 | Some t \<Rightarrow> it\<lparr>ci_estimated := ci_estimated it + estimated,
                              ci_allocated := Some ((case ci_allocated it of None \<Rightarrow> 0 | Some v \<Rightarrow> v) + estimated),
                              ci_teamIds := ci_teamIds it @ [t]\<rparr>) in
      if al_primary (ar_row row) then it1\<lparr>ci_primary := al_team (ar_row row)\<rparr> else it1)"

text \<open>The list \<open>items\<close> and the map \<open>seen\<close> from a Feature to its place in it, as one association list.\<close>

fun plan_items ::
  "(PreliminaryEstimateSize \<Rightarrow> num) \<Rightarrow> CapacityAllocationRow list \<Rightarrow> (uuid \<times> CapacityPlanItem) list \<Rightarrow>
   (uuid \<times> CapacityPlanItem) list" where
  "plan_items sized [] seen = seen"
| "plan_items sized (row # rows) seen =
     (let k = al_item (ar_row row); aview = allocation_view sized row in
      plan_items sized rows
        (case map_of seen k of
           None \<Rightarrow> AList.update k (new_plan_item sized row aview) seen
         | Some it \<Rightarrow> AList.update k (another_row row aview it) seen))"

definition resolved_item :: "CapacityPlanItem \<Rightarrow> CapacityPlanItem" where
  "resolved_item it =
     (let r = resolveEstimate (ci_estimated it) (ci_refined it) (case ci_preliminary it of None \<Rightarrow> 0 | Some v \<Rightarrow> v);
          estimated = (if ci_archived it then 0 else fst r) in
      it\<lparr>ci_tier := snd r, ci_estimated := estimated,
        ci_warnings := computeCapacityWarnings Warned_feature (ci_rollup it) estimated None (Some (snd r))\<rparr>)"

definition by_item_rank :: "CapacityPlanItem \<Rightarrow> CapacityPlanItem \<Rightarrow> int" where
  "by_item_rank x y =
     (if pf_rank (ci_feature x) < pf_rank (ci_feature y) then -1
      else if pf_rank (ci_feature y) < pf_rank (ci_feature x) then 1 else 0)"

definition totalEnteredCapacity :: "num option list \<Rightarrow> num option" where
  "totalEnteredCapacity =
     foldl (\<lambda>acc c. case c of None \<Rightarrow> acc | Some v \<Rightarrow> Some ((case acc of None \<Rightarrow> 0 | Some t \<Rightarrow> t) + v)) None"

section \<open>Plans as a reader sees them\<close>

text \<open>
  The creation times of plans and of their team rows (with the row id as tie-breaker) are columns read by the
  two queries only, and arguments here.
\<close>

record born =
  bo_plan :: "plan_row \<Rightarrow> nat"
  bo_team :: "plan_team_row \<Rightarrow> nat"
  bo_teamId :: "plan_team_row \<Rightarrow> uuid"

definition newest_plan_first :: "born \<Rightarrow> plan_row \<Rightarrow> plan_row \<Rightarrow> int" where
  "newest_plan_first b x y =
     (if bo_plan b y < bo_plan b x then -1 else if bo_plan b x < bo_plan b y then 1
      else if cp_id x < cp_id y then -1 else if cp_id y < cp_id x then 1 else 0)"

definition oldest_team_first :: "born \<Rightarrow> plan_team_row \<Rightarrow> plan_team_row \<Rightarrow> int" where
  "oldest_team_first b x y =
     (if bo_team b x < bo_team b y then -1 else if bo_team b y < bo_team b x then 1
      else if bo_teamId b x < bo_teamId b y then -1 else if bo_teamId b y < bo_teamId b x then 1 else 0)"

record CapacityPlanView =
  pv_plan :: plan_row
  pv_teams :: "plan_team_row list"
  pv_capacity :: "num option"

definition sumCapacity :: "plan_team_row list \<Rightarrow> num option" where
  "sumCapacity teams =
     (let entered = filter (\<lambda>t. ct_capacity t \<noteq> None) teams in
      if entered = [] then None else Some (sum_list (map (\<lambda>t. the (ct_capacity t)) entered)))"

definition plan_view :: "born \<Rightarrow> cap_db \<Rightarrow> plan_row \<Rightarrow> CapacityPlanView" where
  "plan_view b db p =
     (let teams = js_sort (oldest_team_first b) (filter (\<lambda>t. ct_plan t = cp_id p) (cd_planTeams db)) in
      \<lparr>pv_plan = p, pv_teams = teams, pv_capacity = sumCapacity teams\<rparr>)"

definition selectViews :: "born \<Rightarrow> cap_db \<Rightarrow> (plan_row \<Rightarrow> bool) \<Rightarrow> CapacityPlanView list" where
  "selectViews b db cond =
     map (plan_view b db) (js_sort (newest_plan_first b) (filter cond (cd_plans db)))"

definition listPlans :: "env \<Rightarrow> born \<Rightarrow> cap_db \<Rightarrow> uuid \<Rightarrow> CapacityPlanView list" where
  "listPlans e b db projectId =
     (let plans = selectViews b db (\<lambda>p. cp_project p = projectId \<and> cp_workspace p = e_ws e) in
      if canSeeDrafts e projectId then plans else filter (\<lambda>v. cp_status (pv_plan v) = Published) plans)"

definition getPlanView :: "env \<Rightarrow> born \<Rightarrow> cap_db \<Rightarrow> uuid \<Rightarrow> api_error + CapacityPlanView" where
  "getPlanView e b db i =
     (case selectViews b db (\<lambda>p. cp_id p = i \<and> cp_workspace p = e_ws e) of
        [] \<Rightarrow> Inl (NotFound ''CAPACITY_PLAN_NOT_FOUND'')
      | v # _ \<Rightarrow>
          if cp_status (pv_plan v) \<noteq> Published \<and> \<not> canSeeDrafts e (cp_project (pv_plan v))
          then Inl (NotFound ''CAPACITY_PLAN_NOT_FOUND'') else Inr v)"

definition teamIdsFor :: "env \<Rightarrow> uuid set" where
  "teamIdsFor e =
     set (map tm_team (filter (\<lambda>m. tm_workspace m = e_ws e \<and> tm_user m = e_actor e \<and> tm_active m) (teamMembers (e_acc e))))"

record CapacityPlanDetail =
  pd_view :: CapacityPlanView
  pd_teams :: "(plan_team_row \<times> CapacityMetrics) list"
  pd_items :: "CapacityPlanItem list"
  pd_cutline :: "int option"
  pd_warnings :: "CapacityWarning list"
  pd_allocations :: "CapacityAllocationView list"
  pd_unallocated :: num

definition plan_detail :: "cap_db \<Rightarrow> CapacityPlanView \<Rightarrow> CapacityPlanDetail" where
  "plan_detail db v =
     (let sized = inUnit db (pv_plan v);
          rows = measured_rows db (pv_plan v);
          allocations = map (allocation_view sized) rows;
          teams = map (\<lambda>t. (t, team_metrics allocations t)) (pv_teams v);
          its = js_sort by_item_rank (map resolved_item (map snd (plan_items sized rows [])));
          capacity = totalEnteredCapacity (map (\<lambda>t. mt_capacity (snd t)) teams) in
      \<lparr>pd_view = v, pd_teams = teams, pd_items = its,
       pd_cutline = computeCutlineIndex (map ci_estimated its) capacity,
       pd_warnings = computeCapacityWarnings Warned_team (sum_list (map (\<lambda>t. mt_rollup (snd t)) teams))
         (sum_list (map (\<lambda>t. mt_estimated (snd t)) teams)) capacity None,
       pd_allocations = allocations,
       pd_unallocated = metric_sum mt_estimated (filter (\<lambda>a. al_team (av_row a) = None) allocations)\<rparr>)"

definition narrowed :: "env \<Rightarrow> CapacityPlanDetail \<Rightarrow> CapacityPlanDetail" where
  "narrowed e d =
     (let mine = teamIdsFor e in
      d\<lparr>pd_teams := filter (\<lambda>t. ct_team (fst t) \<in> mine) (pd_teams d),
        pd_allocations := filter (\<lambda>a. \<exists>t\<in>mine. al_team (av_row a) = Some t) (pd_allocations d)\<rparr>)"

definition getPlanDetail :: "env \<Rightarrow> born \<Rightarrow> cap_db \<Rightarrow> uuid \<Rightarrow> api_error + CapacityPlanDetail" where
  "getPlanDetail e b db i =
     bind_sum (getPlanView e b db i) (\<lambda>v.
     let d = plan_detail db v in
     Inr (if canSeeDrafts e (cp_project (pv_plan v)) then d else narrowed e d))"

section \<open>Slices partition the child work\<close>

text \<open>A sum over the members of a partition is the sum over the whole.\<close>

lemma sum_vanishes: "(\<And>x. x \<in> set T \<Longrightarrow> g x = (0 :: 'n :: comm_monoid_add)) \<Longrightarrow> sum_list (map g T) = 0"
  by (induction T) auto

lemma sum_singleton:
  "distinct T \<Longrightarrow> a \<in> set T \<Longrightarrow> g a = (v :: 'n :: comm_monoid_add) \<Longrightarrow> (\<And>x. x \<in> set T \<Longrightarrow> x \<noteq> a \<Longrightarrow> g x = 0) \<Longrightarrow> sum_list (map g T) = v"
proof (induction T)
  case (Cons b T)
  show ?case
  proof (cases "b = a")
    case True
    with Cons.prems have "sum_list (map g T) = 0" by (intro sum_vanishes) auto
    with True Cons.prems(3) show ?thesis by simp
  next
    case False
    with Cons show ?thesis by simp
  qed
qed simp

lemma partition_sum:
  fixes f :: "'b \<Rightarrow> 'n :: comm_monoid_add"
  assumes "distinct T" and one: "\<And>w. w \<in> set ws \<Longrightarrow> P w \<Longrightarrow> \<exists>!a. a \<in> set T \<and> Q a w"
    and sub: "\<And>a w. a \<in> set T \<Longrightarrow> w \<in> set ws \<Longrightarrow> Q a w \<Longrightarrow> P w"
  shows "sum_list (map (\<lambda>a. sum_list (map f (filter (Q a) ws))) T) = sum_list (map f (filter P ws))"
  using one sub
proof (induction ws)
  case Nil
  show ?case by (simp add: sum_vanishes)
next
  case (Cons w ws)
  have "sum_list (map (\<lambda>a. if Q a w then f w else 0) T) = (if P w then f w else 0)"
  proof (cases "P w")
    case True
    have "\<exists>!a. a \<in> set T \<and> Q a w" using Cons.prems(1) [OF _ True] by simp
    then obtain a where "a \<in> set T \<and> Q a w" "\<forall>b. b \<in> set T \<and> Q b w \<longrightarrow> b = a" by (rule ex1E)
    then have a: "a \<in> set T" "Q a w" "\<And>b. b \<in> set T \<Longrightarrow> Q b w \<Longrightarrow> b = a" by blast+
    have "sum_list (map (\<lambda>a. if Q a w then f w else 0) T) = f w"
    proof (rule sum_singleton [OF assms(1) a(1)])
      show "(if Q a w then f w else 0) = f w" using a(2) by simp
      show "(if Q x w then f w else 0) = 0" if "x \<in> set T" "x \<noteq> a" for x using a(3) [OF that(1)] that(2) by auto
    qed
    with True show ?thesis by simp
  next
    case False
    have "sum_list (map (\<lambda>a. if Q a w then f w else 0) T) = 0" by (rule sum_vanishes) (use False Cons.prems(2) [of _ w] in auto)
    with False show ?thesis by simp
  qed
  moreover have "sum_list (map (\<lambda>a. sum_list (map f (filter (Q a) (w # ws)))) T) =
      sum_list (map (\<lambda>a. (if Q a w then f w else 0) + sum_list (map f (filter (Q a) ws))) T)"
    by (rule arg_cong [where f = sum_list], rule map_cong) auto
  moreover have "sum_list (map (\<lambda>a. sum_list (map f (filter (Q a) ws))) T) = sum_list (map f (filter P ws))"
    by (rule Cons.IH) (use Cons.prems in auto)
  ultimately show ?case by (simp add: sum_list_addf)
qed

definition weight :: "CapacityPlanUnit \<Rightarrow> WorkItem \<Rightarrow> num" where
  "weight unit w = (if unit = In_count then 1 else case w_points w of None \<Rightarrow> 0 | Some p \<Rightarrow> p)"

lemma measureSql_weight: "measureSql unit ws = sum_list (map (weight unit) ws)"
  by (induction ws) (auto simp: measureSql_def weight_def)

definition finished :: "CapacityPlanUnit \<Rightarrow> WorkItem \<Rightarrow> num" where
  "finished unit w = (if isCompletedScheduleState (wi_schedule w) then weight unit w else 0)"

lemma completedMeasureSql_weight: "completedMeasureSql unit ws = sum_list (map (finished unit) ws)"
  by (induction ws) (auto simp: completedMeasureSql_def measureSql_weight finished_def)

text \<open>A child belongs to the slice of its own team, or of the primary team when its team holds no row.\<close>

lemma slice_team_row:
  "al_team a = Some t \<Longrightarrow> teamSliceChildScope peers a w \<longleftrightarrow> featureChildScope a w \<and>
     (wi_team w = Some t \<or> al_primary a \<and> \<not> (\<exists>b\<in>set peers. al_key b = al_key a \<and> wi_team w \<noteq> None \<and> al_team b = wi_team w))"
  by (auto simp: teamSliceChildScope_def al_key_def)

lemma one_slice:
  assumes sound: "rows_sound rows" and own: "owned rows"
    and T: "set T = {a \<in> set rows. al_key a = (p, j) \<and> al_team a \<noteq> None}" "T \<noteq> []"
    and w: "w_feature w = Some j" "\<not> wi_deleted w"
  shows "\<exists>!a. a \<in> set T \<and> teamSliceChildScope rows a w"
proof -
  have uniq: "a = b" if "a \<in> set T" "b \<in> set T" "al_team a = al_team b \<or> al_primary a \<and> al_primary b" for a b
    using sound_clash [OF sound, of a b] sound_id [OF sound, of a b] that T(1) by (auto simp: clash_key)
  have scope: "featureChildScope a w" if "a \<in> set T" for a
    using that T(1) w by (auto simp: featureChildScope_def al_key_def)
  have in_slice: "teamSliceChildScope rows a w \<longleftrightarrow>
      al_team a = wi_team w \<or> al_primary a \<and> (\<forall>b\<in>set T. al_team b \<noteq> wi_team w)" if a: "a \<in> set T" for a
  proof -
    from a T(1) obtain t where t: "al_team a = Some t" by auto
    from a T(1) have k: "al_key a = (p, j)" by auto
    have "(\<exists>b\<in>set rows. al_key b = al_key a \<and> wi_team w \<noteq> None \<and> al_team b = wi_team w) \<longleftrightarrow> (\<exists>b\<in>set T. al_team b = wi_team w)"
      unfolding T(1) using k by (metis (mono_tags, lifting) mem_Collect_eq)
    with slice_team_row [OF t, of rows w] scope [OF a] t show ?thesis by auto
  qed
  show ?thesis
  proof (cases "\<exists>b\<in>set T. al_team b = wi_team w")
    case True
    then obtain b where b: "b \<in> set T" "al_team b = wi_team w" by blast
    show ?thesis
    proof (rule ex1I [of _ b])
      show "b \<in> set T \<and> teamSliceChildScope rows b w" using b in_slice [of b] by simp
      show "a = b" if "a \<in> set T \<and> teamSliceChildScope rows a w" for a
        using that in_slice [of a] b uniq [of a b] by (metis (no_types))
    qed
  next
    case False
    from T obtain c where "c \<in> set rows" "al_key c = (p, j)" "al_team c \<noteq> None" by (metis (mono_tags, lifting) list.set_intros(1) mem_Collect_eq neq_Nil_conv)
    with owned_keyD [OF own] obtain b where b: "b \<in> set rows" "al_key b = (p, j)" "al_primary b" by metis
    with sound_row [OF sound b(1)] T(1) have bT: "b \<in> set T" by (auto simp: row_ok_def)
    show ?thesis
    proof (rule ex1I [of _ b])
      show "b \<in> set T \<and> teamSliceChildScope rows b w" using b bT in_slice [of b] False by simp
      show "a = b" if "a \<in> set T \<and> teamSliceChildScope rows a w" for a
        using that in_slice [of a] b bT uniq [of a b] False by metis
    qed
  qed
qed

lemma slices_partition:
  fixes f :: "WorkItem \<Rightarrow> num"
  assumes sound: "rows_sound rows" and own: "owned rows"
    and T: "set T = {a \<in> set rows. al_key a = (p, j) \<and> al_team a \<noteq> None}" "T \<noteq> []" "distinct T"
  shows "sum_list (map (\<lambda>a. sum_list (map f (filter (teamSliceChildScope rows a) ws))) T) =
      sum_list (map f (filter (\<lambda>w. w_feature w = Some j \<and> \<not> wi_deleted w) ws))"
proof (rule partition_sum [where P = "\<lambda>w. w_feature w = Some j \<and> \<not> wi_deleted w", OF T(3)])
  show "\<exists>!a. a \<in> set T \<and> teamSliceChildScope rows a w" if "w_feature w = Some j \<and> \<not> wi_deleted w" for w
    using one_slice [OF sound own T(1,2)] that by blast
  show "w_feature w = Some j \<and> \<not> wi_deleted w" if "a \<in> set T" "teamSliceChildScope rows a w" for a w
    using that T(1) by (auto simp: teamSliceChildScope_def featureChildScope_def al_key_def)
qed

section \<open>The loop over the rows\<close>

text \<open>What a Feature is after the loop depends on its own rows, in their order.\<close>

definition item_step ::
  "(PreliminaryEstimateSize \<Rightarrow> num) \<Rightarrow> CapacityAllocationRow \<Rightarrow> CapacityPlanItem option \<Rightarrow> CapacityPlanItem option" where
  "item_step sized row acc =
     Some (case acc of None \<Rightarrow> new_plan_item sized row (allocation_view sized row)
                     | Some it \<Rightarrow> another_row row (allocation_view sized row) it)"

lemma map_of_plan_items:
  "map_of (plan_items sized rows seen) k = fold (item_step sized) (filter (\<lambda>r. al_item (ar_row r) = k) rows) (map_of seen k)"
  by (induction rows arbitrary: seen) (auto simp: item_step_def Let_def update_conv' split: option.splits)

lemma plan_items_keys:
  "distinct (map fst seen) \<Longrightarrow> distinct (map fst (plan_items sized rows seen)) \<and>
     fst ` set (plan_items sized rows seen) = fst ` set seen \<union> (\<lambda>r. al_item (ar_row r)) ` set rows"
proof (induction rows arbitrary: seen)
  case (Cons r rows)
  have "fst ` set (AList.update (al_item (ar_row r)) it seen) = insert (al_item (ar_row r)) (fst ` set seen)" for it
    using dom_update [of "al_item (ar_row r)" it seen] by (auto simp: dom_map_of_conv_image_fst)
  with Cons show ?case by (auto simp: Let_def distinct_update split: option.splits)
qed simp

text \<open>The fields a row adds to.\<close>

lemma another_row_fields [simp]:
  "ci_item (another_row r v it) = ci_item it" "ci_feature (another_row r v it) = ci_feature it"
  "ci_rollup (another_row r v it) = ci_rollup it" "ci_complete (another_row r v it) = ci_complete it"
  "ci_archived (another_row r v it) = ci_archived it"
  "ci_teamIds (another_row r v it) = [] \<longleftrightarrow> ci_teamIds it = [] \<and> al_team (ar_row r) = None"
  by (auto simp: another_row_def Let_def split: option.splits)

lemma item_fold:
  "fold (item_step sized) rs (Some it) = Some it' \<Longrightarrow>
     ci_item it' = ci_item it \<and> ci_feature it' = ci_feature it \<and> ci_rollup it' = ci_rollup it \<and> ci_complete it' = ci_complete it \<and>
     ci_archived it' = ci_archived it \<and>
     (ci_teamIds it' = [] \<longleftrightarrow> ci_teamIds it = [] \<and> (\<forall>r\<in>set rs. al_team (ar_row r) = None))"
  by (induction rs arbitrary: it) (auto simp: item_step_def)

lemma item_fold_Some: "fold (item_step sized) rs acc = None \<longleftrightarrow> rs = [] \<and> acc = None"
  by (induction rs arbitrary: acc) (auto simp: item_step_def)

lemma item_of_rows:
  assumes "map_of (plan_items sized rows []) k = Some it"
  obtains r where "r \<in> set rows" "al_item (ar_row r) = k" "ci_item it = k" "ci_feature it = ar_feature r"
    "ci_rollup it = (if pf_archived (ar_feature r) then 0 else ar_itemRollup r)"
    "ci_complete it = (if pf_archived (ar_feature r) then 0 else ar_itemComplete r)"
    "ci_archived it = pf_archived (ar_feature r)"
    "ci_teamIds it = [] \<longleftrightarrow> (\<forall>r\<in>set rows. al_item (ar_row r) = k \<longrightarrow> al_team (ar_row r) = None)"
proof -
  from assms have f: "fold (item_step sized) (filter (\<lambda>r. al_item (ar_row r) = k) rows) None = Some it" by (simp add: map_of_plan_items)
  then obtain r rs where rs: "filter (\<lambda>r. al_item (ar_row r) = k) rows = r # rs" by (cases "filter (\<lambda>r. al_item (ar_row r) = k) rows") auto
  with f have "fold (item_step sized) rs (Some (new_plan_item sized r (allocation_view sized r))) = Some it" by (simp add: item_step_def)
  note facts = item_fold [OF this]
  from rs have mem: "set (r # rs) = {r \<in> set rows. al_item (ar_row r) = k}" by (metis set_filter)
  then have "r \<in> set rows" "al_item (ar_row r) = k" by auto
  moreover have "ci_teamIds it = [] \<longleftrightarrow> (\<forall>r\<in>set (r # rs). al_team (ar_row r) = None)"
    using facts by (auto simp: new_plan_item_def Let_def split: option.splits)
  ultimately show ?thesis using facts mem by (intro that [of r]) (auto simp: new_plan_item_def Let_def)
qed

lemma resolved_item_fields [simp]:
  "ci_item (resolved_item it) = ci_item it" "ci_feature (resolved_item it) = ci_feature it"
  "ci_rollup (resolved_item it) = ci_rollup it" "ci_complete (resolved_item it) = ci_complete it"
  "ci_teamIds (resolved_item it) = ci_teamIds it" "ci_archived (resolved_item it) = ci_archived it"
  by (simp_all add: resolved_item_def Let_def)

interpretation item_rank: js_order by_item_rank
  by unfold_locales (auto simp: by_item_rank_def split: if_splits)

interpretation plan_age: js_order "newest_plan_first b"
  by unfold_locales (auto simp: newest_plan_first_def split: if_splits)

interpretation team_age: js_order "oldest_team_first b"
  by unfold_locales (auto simp: oldest_team_first_def split: if_splits)

section \<open>The figures agree\<close>

lemma same_feature:
  "x \<in> set (listAllocations db p) \<Longrightarrow> y \<in> set (listAllocations db p) \<Longrightarrow> al_item (fst x) = al_item (fst y) \<Longrightarrow> snd x = snd y"
  by (cases x, cases y) (auto simp: listAllocations_set)

lemma distinct_with_item: "distinct as \<Longrightarrow> distinct (map fst (List.map_filter (with_item its) as))"
  by (induction as) (auto simp: map_filter_simps with_item_def set_filter_map split: option.splits)

lemma distinct_listed: "rows_sound (cd_allocations db) \<Longrightarrow> distinct (map fst (filter P (listAllocations db p)))"
proof -
  assume "rows_sound (cd_allocations db)"
  then have "distinct (filter (\<lambda>a. al_plan a = p) (cd_allocations db))" by (simp add: sound_distinct)
  then have "distinct (map fst (List.map_filter (with_item (cd_items db)) (filter (\<lambda>a. al_plan a = p) (cd_allocations db))))"
    by (rule distinct_with_item)
  then have "distinct (map fst (listAllocations db p))"
    unfolding listAllocations_def by (metis mset_js_sort mset_map mset_eq_imp_distinct_iff)
  then show ?thesis by (metis distinct_map_filter)
qed

definition team_rows_of :: "CapacityPlanDetail \<Rightarrow> CapacityPlanItem \<Rightarrow> CapacityAllocationView list" where
  "team_rows_of d it = filter (\<lambda>a. al_item (av_row a) = ci_item it \<and> al_team (av_row a) \<noteq> None) (pd_allocations d)"

lemma view_row [simp]: "av_row (allocation_view sized r) = ar_row r" "av_feature (allocation_view sized r) = ar_feature r"
  by (simp_all add: allocation_view_def Let_def)

lemma measured_row_fields [simp]: "ar_row (measured_row db pl x) = fst x" "ar_feature (measured_row db pl x) = snd x"
  by (simp_all add: measured_row_def Let_def)

lemma plan_detail_allocations:
  "pd_allocations (plan_detail db v) =
     map (\<lambda>x. allocation_view (inUnit db (pv_plan v)) (measured_row db (pv_plan v) x)) (listAllocations db (cp_id (pv_plan v)))"
  by (simp add: plan_detail_def Let_def measured_rows_def)

lemma plan_detail_item:
  assumes "it \<in> set (pd_items (plan_detail db v))"
  obtains x where "x \<in> set (listAllocations db (cp_id (pv_plan v)))" "ci_item it = al_item (fst x)" "ci_feature it = snd x"
    "ci_rollup it = (if pf_archived (snd x) then 0 else ar_itemRollup (measured_row db (pv_plan v) x))"
    "ci_complete it = (if pf_archived (snd x) then 0 else ar_itemComplete (measured_row db (pv_plan v) x))"
    "ci_teamIds it = [] \<longleftrightarrow> (\<forall>y\<in>set (listAllocations db (cp_id (pv_plan v))). al_item (fst y) = ci_item it \<longrightarrow> al_team (fst y) = None)"
proof -
  let ?s = "inUnit db (pv_plan v)" and ?rows = "measured_rows db (pv_plan v)"
  from assms obtain k it0 where k: "(k, it0) \<in> set (plan_items ?s ?rows [])" "it = resolved_item it0"
    by (auto simp: plan_detail_def Let_def)
  then have "map_of (plan_items ?s ?rows []) k = Some it0" using plan_items_keys [of "[]" ?s ?rows] by simp
  then obtain r where r: "r \<in> set ?rows" "al_item (ar_row r) = k" "ci_item it0 = k" "ci_feature it0 = ar_feature r"
    "ci_rollup it0 = (if pf_archived (ar_feature r) then 0 else ar_itemRollup r)"
    "ci_complete it0 = (if pf_archived (ar_feature r) then 0 else ar_itemComplete r)"
    "ci_archived it0 = pf_archived (ar_feature r)"
    "ci_teamIds it0 = [] \<longleftrightarrow> (\<forall>r\<in>set ?rows. al_item (ar_row r) = k \<longrightarrow> al_team (ar_row r) = None)" by (rule item_of_rows)
  from r(1) obtain x where "x \<in> set (listAllocations db (cp_id (pv_plan v)))" "r = measured_row db (pv_plan v) x" by (auto simp: measured_rows_def)
  with r k(2) show ?thesis by (intro that [of x]) (auto simp: measured_rows_def)
qed

lemma view_slice:
  "mt_rollup (av_metrics (allocation_view s (measured_row db pl x))) =
     (if pf_archived (snd x) then 0
      else sum_list (map (weight (cp_unit pl)) (filter (teamSliceChildScope (cd_allocations db) (fst x)) (cd_children db))))"
  "mt_complete (av_metrics (allocation_view s (measured_row db pl x))) =
     (if pf_archived (snd x) then 0
      else sum_list (map (finished (cp_unit pl)) (filter (teamSliceChildScope (cd_allocations db) (fst x)) (cd_children db))))"
  by (simp_all add: allocation_view_def measured_row_def Let_def measureSql_weight completedMeasureSql_weight)

lemma total_map: "metric_sum f (map g xs) = sum_list (map (\<lambda>x. f (av_metrics (g x))) xs)"
  by (simp add: metric_sum_def comp_def)

lemma item_slices:
  assumes inv: "cap_inv db" and it: "it \<in> set (pd_items (plan_detail db v))" and some: "ci_teamIds it \<noteq> []"
  shows "metric_sum mt_rollup (team_rows_of (plan_detail db v) it) = ci_rollup it"
    and "metric_sum mt_complete (team_rows_of (plan_detail db v) it) = ci_complete it"
proof -
  let ?p = "cp_id (pv_plan v)" and ?rows = "cd_allocations db" and ?ws = "cd_children db" and ?u = "cp_unit (pv_plan v)"
  let ?L = "listAllocations db ?p"
  let ?mine = "filter (\<lambda>y. al_item (fst y) = ci_item it \<and> al_team (fst y) \<noteq> None) ?L"
  let ?g = "\<lambda>x. allocation_view (inUnit db (pv_plan v)) (measured_row db (pv_plan v) x)"
  from inv have sound: "rows_sound ?rows" and own: "owned ?rows" by (simp_all add: cap_inv_def)
  from it obtain x where x: "x \<in> set ?L" "ci_item it = al_item (fst x)" "ci_feature it = snd x"
    "ci_rollup it = (if pf_archived (snd x) then 0 else ar_itemRollup (measured_row db (pv_plan v) x))"
    "ci_complete it = (if pf_archived (snd x) then 0 else ar_itemComplete (measured_row db (pv_plan v) x))"
    "ci_teamIds it = [] \<longleftrightarrow> (\<forall>y\<in>set ?L. al_item (fst y) = ci_item it \<longrightarrow> al_team (fst y) = None)" by (rule plan_detail_item)
  have rows: "team_rows_of (plan_detail db v) it = map ?g ?mine"
    by (simp add: team_rows_of_def plan_detail_allocations filter_map comp_def)
  have same: "snd y = snd x" if "y \<in> set ?mine" for y using same_feature [OF _ x(1), of y] that x(2) by auto
  have T: "set (map fst ?mine) = {a \<in> set ?rows. al_key a = (?p, ci_item it) \<and> al_team a \<noteq> None}"
  proof -
    from x(1,2) have f: "find (\<lambda>q. pf_id q = ci_item it) (cd_items db) = Some (snd x)"
      by (metis listAllocations_set prod.collapse)
    have "set (map fst ?mine) = {a. al_item a = ci_item it \<and> al_team a \<noteq> None \<and> (\<exists>q. (a, q) \<in> set ?L)}" by force
    with f show ?thesis by (auto simp: listAllocations_set al_key_def)
  qed
  have nonempty: "map fst ?mine \<noteq> []" using some x(6) by (auto simp: filter_empty_conv)
  have part: "sum_list (map (\<lambda>a. sum_list (map f (filter (teamSliceChildScope ?rows a) ?ws))) (map fst ?mine)) =
      sum_list (map f (filter (featureChildScope (fst x)) ?ws))" for f :: "WorkItem \<Rightarrow> num"
    using slices_partition [OF sound own T nonempty distinct_listed [OF sound], of f ?ws] x(2)
    by (simp add: featureChildScope_def [abs_def])
  have tot: "sum_list (map (\<lambda>y. if pf_archived (snd y) then 0 else sum_list (map f (filter (teamSliceChildScope ?rows (fst y)) ?ws))) ?mine) =
      (if pf_archived (snd x) then 0 else sum_list (map f (filter (featureChildScope (fst x)) ?ws)))" for f :: "WorkItem \<Rightarrow> num"
  proof (cases "pf_archived (snd x)")
    case True
    with same show ?thesis by (simp, intro sum_vanishes) simp
  next
    case False
    with same have "map (\<lambda>y. if pf_archived (snd y) then 0 else sum_list (map f (filter (teamSliceChildScope ?rows (fst y)) ?ws))) ?mine =
        map (\<lambda>a. sum_list (map f (filter (teamSliceChildScope ?rows a) ?ws))) (map fst ?mine)"
      unfolding map_map by (intro map_cong) simp_all
    then show ?thesis unfolding part [of f, symmetric] using False by (simp only: if_False)
  qed
  show "metric_sum mt_rollup (team_rows_of (plan_detail db v) it) = ci_rollup it"
    using tot [of "weight ?u"] x(4) unfolding rows total_map view_slice by (simp add: measured_row_def Let_def measureSql_weight)
  show "metric_sum mt_complete (team_rows_of (plan_detail db v) it) = ci_complete it"
    using tot [of "finished ?u"] x(5) unfolding rows total_map view_slice by (simp add: measured_row_def Let_def completedMeasureSql_weight)
qed

lemma plan_items_named: "x \<in> set (plan_items sized rows []) \<Longrightarrow> ci_item (snd x) = fst x"
proof -
  assume x: "x \<in> set (plan_items sized rows [])"
  have "distinct (map fst (plan_items sized rows []))" using plan_items_keys [of "[]"] by simp
  with x have "map_of (plan_items sized rows []) (fst x) = Some (snd x)" by (metis map_of_eq_Some_iff prod.collapse)
  then show ?thesis by (rule item_of_rows) simp
qed

lemma detail_items_distinct: "distinct (map ci_item (pd_items (plan_detail db v)))"
proof -
  let ?m = "plan_items (inUnit db (pv_plan v)) (measured_rows db (pv_plan v)) []"
  have keys: "distinct (map fst ?m)" using plan_items_keys [of "[]"] by simp
  have "map ci_item (map resolved_item (map snd ?m)) = map fst ?m" by (simp add: plan_items_named)
  with keys have "distinct (map ci_item (map resolved_item (map snd ?m)))" by (simp del: map_map)
  then have "distinct (map ci_item (js_sort by_item_rank (map resolved_item (map snd ?m))))"
    by (metis mset_js_sort mset_map mset_eq_imp_distinct_iff)
  then show ?thesis by (simp add: plan_detail_def Let_def)
qed

lemma detail_items_set: "ci_item ` set (pd_items (plan_detail db v)) = (\<lambda>a. al_item (av_row a)) ` set (pd_allocations (plan_detail db v))"
proof -
  let ?s = "inUnit db (pv_plan v)" and ?rows = "measured_rows db (pv_plan v)"
  let ?m = "plan_items ?s ?rows []"
  have keys: "distinct (map fst ?m)" "fst ` set ?m = (\<lambda>r. al_item (ar_row r)) ` set ?rows" using plan_items_keys [of "[]"] by simp_all
  from plan_items_named have "ci_item ` resolved_item ` snd ` set ?m = fst ` set ?m" by (simp add: image_image)
  with keys(2) show ?thesis by (simp add: plan_detail_def Let_def image_image)
qed

lemma distinct_teams:
  "distinct (map (\<lambda>t. (ct_plan t, ct_team t)) ts) \<Longrightarrow> distinct (map ct_team (filter (\<lambda>t. ct_plan t = p) ts))"
  by (induction ts) (auto simp: image_iff)

text \<open>The rows of the plan's teams are the rows with a team.\<close>

lemma team_totals:
  assumes inv: "cap_inv db" and v: "v = plan_view b db p"
  shows "sum_list (map (\<lambda>t. metric_sum f (filter (\<lambda>a. al_team (av_row a) = Some (ct_team t)) (pd_allocations (plan_detail db v)))) (pv_teams v)) =
     metric_sum f (filter (\<lambda>a. al_team (av_row a) \<noteq> None) (pd_allocations (plan_detail db v)))"
  unfolding metric_sum_def
proof (rule partition_sum)
  have "distinct (map (\<lambda>t. (ct_plan t, ct_team t)) (cd_planTeams db))" using inv by (simp add: cap_inv_def)
  then have "distinct (map ct_team (filter (\<lambda>t. ct_plan t = cp_id p) (cd_planTeams db)))" by (rule distinct_teams)
  then have d: "distinct (map ct_team (pv_teams v))" unfolding v plan_view_def Let_def
    by (simp, metis mset_js_sort mset_map mset_eq_imp_distinct_iff)
  then show "distinct (pv_teams v)" by (simp add: distinct_map)
  show "\<exists>!t. t \<in> set (pv_teams v) \<and> al_team (av_row a) = Some (ct_team t)"
    if a: "a \<in> set (pd_allocations (plan_detail db v))" "al_team (av_row a) \<noteq> None" for a
  proof -
    from a(1) have "av_row a \<in> set (cd_allocations db)" "al_plan (av_row a) = cp_id p"
      by (auto simp: plan_detail_allocations listAllocations_set v plan_view_def Let_def)
    moreover from a(2) obtain x where x: "al_team (av_row a) = Some x" by auto
    moreover have "\<forall>r\<in>set (cd_allocations db). on_plan (cd_planTeams db) r" using inv by (simp add: cap_inv_def)
    ultimately obtain t where "t \<in> set (cd_planTeams db)" "ct_plan t = cp_id p" "ct_team t = x"
      unfolding on_plan_def by metis
    then have t: "t \<in> set (pv_teams v)" "ct_team t = x" by (simp_all add: v plan_view_def Let_def)
    show ?thesis by (rule ex1I [of _ t]) (use t x d in \<open>auto simp: distinct_map inj_on_def\<close>)
  qed
qed auto

lemma total_split: "metric_sum f (filter P as) + metric_sum f (filter (\<lambda>a. \<not> P a) as) = metric_sum f as"
  by (induction as) (auto simp: metric_sum_def)

text \<open>Summing over the Features counts each row with a team once.\<close>

lemma item_totals:
  "sum_list (map (\<lambda>it. metric_sum f (team_rows_of (plan_detail db v) it)) (filter (\<lambda>it. ci_teamIds it \<noteq> []) (pd_items (plan_detail db v)))) =
     metric_sum f (filter (\<lambda>a. al_team (av_row a) \<noteq> None) (pd_allocations (plan_detail db v)))"
  unfolding metric_sum_def team_rows_of_def
proof (rule partition_sum)
  let ?d = "plan_detail db v"
  have d: "distinct (map ci_item (pd_items ?d))" by (rule detail_items_distinct)
  then show "distinct (filter (\<lambda>it. ci_teamIds it \<noteq> []) (pd_items ?d))" by (simp add: distinct_map)
  fix a assume a: "a \<in> set (pd_allocations ?d)" "al_team (av_row a) \<noteq> None"
  with detail_items_set [of db v] obtain it where it: "it \<in> set (pd_items ?d)" "ci_item it = al_item (av_row a)" by force
  have "ci_teamIds it \<noteq> []"
  proof -
    from a(1) obtain x where "x \<in> set (listAllocations db (cp_id (pv_plan v)))" "av_row a = fst x" by (auto simp: plan_detail_allocations)
    moreover from it(1) have "ci_teamIds it = [] \<longleftrightarrow>
        (\<forall>y\<in>set (listAllocations db (cp_id (pv_plan v))). al_item (fst y) = ci_item it \<longrightarrow> al_team (fst y) = None)" by (rule plan_detail_item) simp
    ultimately show ?thesis using a(2) it(2) by auto
  qed
  with it a(2) d show "\<exists>!it. it \<in> set (filter (\<lambda>it. ci_teamIds it \<noteq> []) (pd_items ?d)) \<and>
      (al_item (av_row a) = ci_item it \<and> al_team (av_row a) \<noteq> None)"
    by (intro ex1I [of _ it]) (auto simp: distinct_map inj_on_def)
qed auto

text \<open>What a call answers.\<close>

lemma getPlanView_Inr:
  assumes "getPlanView e b db i = Inr v"
  obtains p where "v = plan_view b db p" "p \<in> set (cd_plans db)" "cp_id p = i" "cp_workspace p = e_ws e"
    "cp_status p = Published \<or> canSeeDrafts e (cp_project p)" "pv_plan v = p"
proof -
  let ?ps = "js_sort (newest_plan_first b) (filter (\<lambda>p. cp_id p = i \<and> cp_workspace p = e_ws e) (cd_plans db))"
  from assms obtain p ps where "?ps = p # ps" "v = plan_view b db p" "cp_status p = Published \<or> canSeeDrafts e (cp_project p)"
    by (cases ?ps) (auto simp: getPlanView_def selectViews_def plan_view_def Let_def split: if_splits)
  moreover from this(1) have "p \<in> set ?ps" by (metis list.set_intros(1))
  then have "p \<in> set (cd_plans db)" "cp_id p = i" "cp_workspace p = e_ws e" by simp_all
  ultimately show ?thesis by (intro that [of p]) (simp_all add: plan_view_def Let_def)
qed

lemma getPlanDetail_Inr:
  assumes "getPlanDetail e b db i = Inr d"
  obtains p where "p \<in> set (cd_plans db)" "cp_id p = i" "cp_workspace p = e_ws e" "pv_plan (pd_view d) = p"
    "pd_view d = plan_view b db p"
    "cp_status p = Published \<or> canSeeDrafts e (cp_project p)"
    "d = (if canSeeDrafts e (cp_project p) then plan_detail db (plan_view b db p) else narrowed e (plan_detail db (plan_view b db p)))"
proof -
  from assms obtain v where v: "getPlanView e b db i = Inr v" by (auto simp: getPlanDetail_def bind_sum_Inr)
  from v obtain p where p: "v = plan_view b db p" "p \<in> set (cd_plans db)" "cp_id p = i" "cp_workspace p = e_ws e"
    "cp_status p = Published \<or> canSeeDrafts e (cp_project p)" "pv_plan v = p" by (rule getPlanView_Inr)
  from assms v p(1,6) show ?thesis
    by (intro that [of p] p(2-5)) (auto simp: getPlanDetail_def narrowed_def Let_def plan_detail_def split: if_splits)
qed

section \<open>The detail of a plan\<close>

text \<open>C18: In the detail of a plan as it is given to those who may see drafts, over tables the capacity requests keep
  sound: each Feature of the plan is listed once, in rank order. Where a Feature has teams, the slices of those teams
  add up to its own child work and completed work, with none counted twice or left out. The teams have the same total
  child work and the same total completed work as the Features that have a team. What the teams are committed to and
  the parked remainder together are all that is committed.\<close>

theorem plan_detail_reconciles:
  assumes "cap_inv db" "getPlanDetail e b db i = Inr d" "canSeeDrafts e (cp_project (pv_plan (pd_view d)))"
  shows "distinct (map ci_item (pd_items d)) \<and>
    sorted_wrt (\<lambda>x y. pf_rank (ci_feature x) \<le> pf_rank (ci_feature y)) (pd_items d) \<and>
    ci_item ` set (pd_items d) = (\<lambda>a. al_item (av_row a)) ` set (pd_allocations d) \<and>
    (\<forall>it\<in>set (pd_items d). ci_teamIds it \<noteq> [] \<longrightarrow>
       metric_sum mt_rollup (team_rows_of d it) = ci_rollup it \<and> metric_sum mt_complete (team_rows_of d it) = ci_complete it) \<and>
    sum_list (map (\<lambda>t. mt_rollup (snd t)) (pd_teams d)) =
      sum_list (map ci_rollup (filter (\<lambda>it. ci_teamIds it \<noteq> []) (pd_items d))) \<and>
    sum_list (map (\<lambda>t. mt_complete (snd t)) (pd_teams d)) =
      sum_list (map ci_complete (filter (\<lambda>it. ci_teamIds it \<noteq> []) (pd_items d))) \<and>
    sum_list (map (\<lambda>t. mt_estimated (snd t)) (pd_teams d)) + pd_unallocated d = metric_sum mt_estimated (pd_allocations d)"
proof -
  from assms(2) obtain p where "pv_plan (pd_view d) = p" and
    d: "d = (if canSeeDrafts e (cp_project p) then plan_detail db (plan_view b db p) else narrowed e (plan_detail db (plan_view b db p)))" by (rule getPlanDetail_Inr)
  with assms(3) have d: "d = plan_detail db (plan_view b db p)" by simp
  let ?v = "plan_view b db p"
  note teams = team_totals [OF assms(1) refl, of _ b p]
  have slices: "metric_sum mt_rollup (team_rows_of d it) = ci_rollup it \<and> metric_sum mt_complete (team_rows_of d it) = ci_complete it"
    if "it \<in> set (pd_items d)" "ci_teamIds it \<noteq> []" for it
    using item_slices [OF assms(1)] that unfolding d by blast
  have items: "sum_list (map g (filter (\<lambda>it. ci_teamIds it \<noteq> []) (pd_items d))) =
      metric_sum f (filter (\<lambda>a. al_team (av_row a) \<noteq> None) (pd_allocations d))"
    if "\<And>it. it \<in> set (pd_items d) \<Longrightarrow> ci_teamIds it \<noteq> [] \<Longrightarrow> metric_sum f (team_rows_of d it) = g it" for f g
  proof -
    have "map g (filter (\<lambda>it. ci_teamIds it \<noteq> []) (pd_items d)) =
        map (\<lambda>it. metric_sum f (team_rows_of d it)) (filter (\<lambda>it. ci_teamIds it \<noteq> []) (pd_items d))"
      by (rule map_cong) (use that in auto)
    then show ?thesis using item_totals [of f db ?v, folded d] by (simp only:)
  qed
  have team_field: "map (\<lambda>t. f (snd t)) (pd_teams d) =
      map (\<lambda>t. f (team_metrics (pd_allocations d) t)) (pv_teams ?v)" for f :: "CapacityMetrics \<Rightarrow> num"
    by (simp add: d plan_detail_def Let_def)
  have "sum_list (map (\<lambda>t. mt_rollup (snd t)) (pd_teams d)) = metric_sum mt_rollup (filter (\<lambda>a. al_team (av_row a) \<noteq> None) (pd_allocations d))"
    "sum_list (map (\<lambda>t. mt_complete (snd t)) (pd_teams d)) = metric_sum mt_complete (filter (\<lambda>a. al_team (av_row a) \<noteq> None) (pd_allocations d))"
    "sum_list (map (\<lambda>t. mt_estimated (snd t)) (pd_teams d)) = metric_sum mt_estimated (filter (\<lambda>a. al_team (av_row a) \<noteq> None) (pd_allocations d))"
    unfolding team_field using teams [of mt_rollup] teams [of mt_complete] teams [of mt_estimated] by (simp_all add: team_metrics_def Let_def d)
  moreover have "pd_unallocated d = metric_sum mt_estimated (filter (\<lambda>a. \<not> al_team (av_row a) \<noteq> None) (pd_allocations d))"
    by (simp add: d plan_detail_def Let_def)
  moreover have "sorted_wrt (\<lambda>x y. pf_rank (ci_feature x) \<le> pf_rank (ci_feature y)) (pd_items d)"
    unfolding d plan_detail_def Let_def
    by (simp, rule sorted_wrt_mono_rel [OF _ item_rank.sorted_js_sort]) (auto simp: by_item_rank_def not_less split: if_splits)
  ultimately show ?thesis
    using slices items [of mt_rollup ci_rollup] items [of mt_complete ci_complete] total_split [of mt_estimated "\<lambda>a. al_team (av_row a) \<noteq> None" "pd_allocations d"]
      detail_items_distinct [of db ?v] detail_items_set [of db ?v] by (simp add: d)
qed

text \<open>C29: A reader who may not see drafts opens published plans only, and of those sees the rows of the teams they
  are an active member of; what concerns the whole plan is what everyone sees.\<close>

theorem reader_sees_own_teams:
  assumes "cap_inv db" "getPlanDetail e b db i = Inr d" "\<not> canSeeDrafts e (cp_project (pv_plan (pd_view d)))"
    "getPlanDetail planner b db i = Inr full" "canSeeDrafts planner (cp_project (pv_plan (pd_view full)))"
  shows "cp_status (pv_plan (pd_view d)) = Published \<and>
    pd_view d = pd_view full \<and> pd_items d = pd_items full \<and> pd_cutline d = pd_cutline full \<and> pd_warnings d = pd_warnings full \<and>
    pd_unallocated d = pd_unallocated full \<and>
    pd_teams d = filter (\<lambda>t. \<exists>m\<in>set (teamMembers (e_acc e)). tm_user m = e_actor e \<and> tm_workspace m = e_ws e \<and> tm_active m \<and>
       tm_team m = ct_team (fst t)) (pd_teams full) \<and>
    pd_allocations d = filter (\<lambda>a. \<exists>m\<in>set (teamMembers (e_acc e)). tm_user m = e_actor e \<and> tm_workspace m = e_ws e \<and> tm_active m \<and>
       al_team (av_row a) = Some (tm_team m)) (pd_allocations full)"
proof -
  from assms(2) obtain p where p: "p \<in> set (cd_plans db)" "cp_id p = i" "pv_plan (pd_view d) = p" "pd_view d = plan_view b db p"
    "cp_status p = Published \<or> canSeeDrafts e (cp_project p)" and
    d: "d = (if canSeeDrafts e (cp_project p) then plan_detail db (plan_view b db p) else narrowed e (plan_detail db (plan_view b db p)))" by (rule getPlanDetail_Inr)
  from assms(4) obtain q where q: "q \<in> set (cd_plans db)" "cp_id q = i" "pv_plan (pd_view full) = q" "pd_view full = plan_view b db q" and
    full: "full = (if canSeeDrafts planner (cp_project q) then plan_detail db (plan_view b db q) else narrowed planner (plan_detail db (plan_view b db q)))"
    by (rule getPlanDetail_Inr)
  from assms(1) have "distinct (map cp_id (cd_plans db))" by (simp add: cap_inv_def plans_sound_def)
  with p(1,2) q(1,2) have "q = p" by (auto simp: distinct_map inj_on_def)
  with full q(3) assms(5) have full: "full = plan_detail db (plan_view b db p)" by simp
  from d p(3) assms(3) have d: "d = narrowed e full" by (simp add: full)
  have "t \<in> teamIdsFor e \<longleftrightarrow> (\<exists>m\<in>set (teamMembers (e_acc e)). tm_user m = e_actor e \<and> tm_workspace m = e_ws e \<and> tm_active m \<and> tm_team m = t)"
    "(\<exists>t\<in>teamIdsFor e. x = Some t) \<longleftrightarrow> (\<exists>m\<in>set (teamMembers (e_acc e)). tm_user m = e_actor e \<and> tm_workspace m = e_ws e \<and> tm_active m \<and>
       x = Some (tm_team m))" for t x
    by (auto simp: teamIdsFor_def)
  then have "pd_teams d = filter (\<lambda>t. \<exists>m\<in>set (teamMembers (e_acc e)). tm_user m = e_actor e \<and> tm_workspace m = e_ws e \<and> tm_active m \<and>
       tm_team m = ct_team (fst t)) (pd_teams full)"
    "pd_allocations d = filter (\<lambda>a. \<exists>m\<in>set (teamMembers (e_acc e)). tm_user m = e_actor e \<and> tm_workspace m = e_ws e \<and> tm_active m \<and>
       al_team (av_row a) = Some (tm_team m)) (pd_allocations full)"
    unfolding d narrowed_def Let_def by simp_all
  moreover have "cp_status p = Published" using p(3,5) assms(3) by simp
  ultimately show ?thesis using p(3) by (simp add: d narrowed_def Let_def)
qed

section \<open>Examples\<close>

definition ex_child :: "uuid \<Rightarrow> uuid option \<Rightarrow> ScheduleState \<Rightarrow> num \<Rightarrow> WorkItem" where
  "ex_child i t s n =
     \<lparr>wi_id = i, wi_workspace = ''w'', wi_project = ''p'', wi_team = t, wi_type = Story, wi_parent = None, wi_schedule = s,
      wi_iteration = None, wi_deleted = False,
      w_key = i, w_title = i, w_status = [], w_flow = s, w_priority = ''normal'', w_assignee = None, w_reporter = None, w_devOwner = None,
      w_release = None, w_feature = Some ''F'', w_foundIn = None, w_points = Some n, w_estimate = None, w_todo = None, w_actual = None,
      w_blocked = False, w_blockedReason = None, w_defectState = None, w_rank = i, w_accepted = None, w_start = None, w_end = None,
      w_target = None, w_split = None, w_version = 1\<rparr>"

text \<open>Plan \<open>1\<close> of \<open>ex_cap\<close>, with three children of the Feature \<open>F\<close>: one of its team \<open>B\<close>, one of a team
  that is not planned, one of none. The last two go to the primary team \<open>A\<close>.\<close>

definition ex_work :: "CapacityPlanStatus \<Rightarrow> cap_db" where
  "ex_work s = ex_cap\<lparr>cd_plans := [ex_plan ''1'' ''R1'' s],
     cd_children := [ex_child ''s1'' (Some ''B'') S_accepted 5, ex_child ''s2'' (Some ''C'') S_completed 3, ex_child ''s3'' None S_defined 2]\<rparr>"

definition ex_born :: born where
  "ex_born = \<lparr>bo_plan = (\<lambda>p. 0), bo_team = (\<lambda>t. 0), bo_teamId = ct_team\<rparr>"

definition ex_reader :: env where
  "ex_reader = ex_planner\<lparr>e_actor := ''r'', e_eff := [],
     e_acc := (e_acc ex_planner)\<lparr>teamMembers := [\<lparr>tm_workspace = ''w'', tm_team = ''B'', tm_user = ''r'', tm_active = True\<rparr>]\<rparr>\<rparr>"

lemma ex_work_inv: "cap_inv (ex_work s)"
  using ex_cap_inv by (simp add: cap_inv_def plans_sound_def ex_work_def)

definition ex_detail :: CapacityPlanDetail where
  "ex_detail = plan_detail (ex_work Draft) (plan_view ex_born (ex_work Draft) (ex_plan ''1'' ''R1'' Draft))"

lemma ex_detail_Inr: "getPlanDetail ex_planner ex_born (ex_work Draft) ''1'' = Inr ex_detail"
  "canSeeDrafts ex_planner (cp_project (pv_plan (pd_view ex_detail)))"
  unfolding ex_detail_def by code_simp+

lemma ex_figures: "map (\<lambda>t. mt_rollup (snd t)) (pd_teams ex_detail) = [5, 5]"
  "map (\<lambda>it. (ci_item it, ci_rollup it, ci_complete it, ci_estimated it)) (pd_items ex_detail) = [(''F'', 10, 8, 13), (''G'', 0, 0, 4)]"
  by code_simp+

theorem plan_detail_reconciles_witness:
  "sum_list (map (\<lambda>t. mt_rollup (snd t)) (pd_teams ex_detail)) =
     sum_list (map ci_rollup (filter (\<lambda>it. ci_teamIds it \<noteq> []) (pd_items ex_detail))) \<and>
   sum_list (map (\<lambda>t. mt_rollup (snd t)) (pd_teams ex_detail)) = 10"
  using plan_detail_reconciles [OF ex_work_inv ex_detail_Inr] by (simp add: ex_figures)

text \<open>The same plan, published, as the reader of team \<open>B\<close> sees it.\<close>

definition ex_seen :: "env \<Rightarrow> CapacityPlanDetail" where
  "ex_seen e = (let d = plan_detail (ex_work Published) (plan_view ex_born (ex_work Published) (ex_plan ''1'' ''R1'' Published)) in
     if e_actor e = ''r'' then narrowed e d else d)"

lemma ex_seen_Inr:
  "getPlanDetail ex_reader ex_born (ex_work Published) ''1'' = Inr (ex_seen ex_reader)"
  "\<not> canSeeDrafts ex_reader (cp_project (pv_plan (pd_view (ex_seen ex_reader))))"
  "getPlanDetail ex_planner ex_born (ex_work Published) ''1'' = Inr (ex_seen ex_planner)"
  "canSeeDrafts ex_planner (cp_project (pv_plan (pd_view (ex_seen ex_planner))))"
  unfolding ex_seen_def by code_simp+

theorem reader_sees_own_teams_witness:
  "pd_items (ex_seen ex_reader) = pd_items (ex_seen ex_planner) \<and> cp_status (pv_plan (pd_view (ex_seen ex_reader))) = Published"
  using reader_sees_own_teams [OF ex_work_inv ex_seen_Inr] by blast

lemma draft_hidden: "getPlanDetail ex_reader ex_born (ex_work Draft) ''1'' = Inl (NotFound ''CAPACITY_PLAN_NOT_FOUND'')"
  by code_simp

lemma filter_one:
  "distinct (map cp_id ps) \<Longrightarrow> p \<in> set ps \<Longrightarrow> Q p \<Longrightarrow> filter (\<lambda>q. cp_id q = cp_id p \<and> Q q) ps = [p]"
  by (induction ps) (auto simp: filter_empty_conv image_iff)

text \<open>A reader can open exactly the plans of the list.\<close>

lemma listed_opens:
  assumes "distinct (map cp_id (cd_plans db))"
  shows "v \<in> set (listPlans e b db pr) \<longleftrightarrow> getPlanView e b db (cp_id (pv_plan v)) = Inr v \<and> cp_project (pv_plan v) = pr"
proof
  assume "v \<in> set (listPlans e b db pr)"
  then obtain p where p: "p \<in> set (cd_plans db)" "v = plan_view b db p" "cp_project p = pr" "cp_workspace p = e_ws e"
    "cp_status p = Published \<or> canSeeDrafts e pr"
    by (auto simp: listPlans_def selectViews_def plan_view_def Let_def split: if_splits)
  have "filter (\<lambda>q. cp_id q = cp_id p \<and> cp_workspace q = e_ws e) (cd_plans db) = [p]"
    using filter_one [OF assms p(1), of "\<lambda>q. cp_workspace q = e_ws e"] p(4) by simp
  with p show "getPlanView e b db (cp_id (pv_plan v)) = Inr v \<and> cp_project (pv_plan v) = pr"
    by (simp add: getPlanView_def selectViews_def plan_view_def Let_def)
next
  assume a: "getPlanView e b db (cp_id (pv_plan v)) = Inr v \<and> cp_project (pv_plan v) = pr"
  then obtain p where p: "v = plan_view b db p" "p \<in> set (cd_plans db)" "cp_workspace p = e_ws e"
    "cp_status p = Published \<or> canSeeDrafts e (cp_project p)" "pv_plan v = p" using getPlanView_Inr by metis
  from p(2-4) have "plan_view b db p \<in> set (listPlans e b db (cp_project p))"
    by (auto simp: listPlans_def selectViews_def plan_view_def Let_def)
  with a show "v \<in> set (listPlans e b db pr)" using p(1,5) by metis
qed

text \<open>The forecast opens a plan without its teams: the same answer.\<close>

lemma getPlanView_getPlan:
  assumes "distinct (map cp_id (cd_plans db))"
  shows "getPlan e i db = (case getPlanView e b db i of Inl x \<Rightarrow> Inl x | Inr v \<Rightarrow> Inr (pv_plan v))"
proof (cases "findPlan db i (e_ws e)")
  case None
  then have "filter (\<lambda>p. cp_id p = i \<and> cp_workspace p = e_ws e) (cd_plans db) = []" by (auto simp: findPlan_def find_None_iff filter_empty_conv)
  with None show ?thesis by (simp add: getPlan_def getPlanView_def selectViews_def)
next
  case (Some p)
  then have p: "p \<in> set (cd_plans db)" "cp_id p = i" "cp_workspace p = e_ws e" by (auto simp: findPlan_def find_Some_iff)
  then have "filter (\<lambda>q. cp_id q = i \<and> cp_workspace q = e_ws e) (cd_plans db) = [p]"
    using filter_one [OF assms, of p "\<lambda>q. cp_workspace q = e_ws e"] by simp
  with Some show ?thesis by (simp add: getPlan_def getPlanView_def selectViews_def plan_view_def Let_def)
qed

section \<open>Where the figures part\<close>

text \<open>A Feature whose team row commits nothing counts its refined estimate for the cutline and nothing for the
  warnings: every Feature may be below the line of a plan that reports no overload.\<close>

definition ex_unsized :: "CapacityPlanUnit \<Rightarrow> cap_db" where
  "ex_unsized u = ex_cap\<lparr>cd_plans := [(ex_plan ''1'' ''R1'' Draft)\<lparr>cp_unit := u\<rparr>],
     cd_planTeams := [\<lparr>ct_plan = ''1'', ct_team = ''A'', ct_capacity = Some 20\<rparr>],
     cd_allocations := [ex_alloc ''a'' ''F'' (Some ''A'') True 0],
     cd_items := [(ex_feature ''F'')\<lparr>pf_refined := 30, pf_refinedCount := 4\<rparr>]\<rparr>"

definition ex_unsized_detail :: "CapacityPlanUnit \<Rightarrow> CapacityPlanDetail" where
  "ex_unsized_detail u = plan_detail (ex_unsized u) (plan_view ex_born (ex_unsized u) (hd (cd_plans (ex_unsized u))))"

lemma cutline_without_warning:
  "cap_inv (ex_unsized In_points) \<and> getPlanDetail ex_planner ex_born (ex_unsized In_points) ''1'' = Inr (ex_unsized_detail In_points) \<and>
   map ci_estimated (pd_items (ex_unsized_detail In_points)) = [30] \<and> pd_cutline (ex_unsized_detail In_points) = Some (-1) \<and>
   pd_warnings (ex_unsized_detail In_points) = []"
proof -
  have "rows_sound (cd_allocations (ex_unsized In_points))"
    by (rule rows_soundI) (auto simp: ex_unsized_def ex_alloc_def row_ok_def money_def math_round_def floor_eq_iff allocation_clash_def)
  moreover have "owned (cd_allocations (ex_unsized In_points))"
    unfolding owned_def owned_key_def by (auto simp: ex_unsized_def ex_alloc_def al_key_def)
  ultimately have "cap_inv (ex_unsized In_points)" by (simp add: cap_inv_def plans_sound_def on_plan_def ex_unsized_def ex_alloc_def)
  moreover have "getPlanDetail ex_planner ex_born (ex_unsized In_points) ''1'' = Inr (ex_unsized_detail In_points)"
    unfolding ex_unsized_detail_def by code_simp
  moreover have "map ci_estimated (pd_items (ex_unsized_detail In_points)) = [30]" "pd_cutline (ex_unsized_detail In_points) = Some (-1)"
    "pd_warnings (ex_unsized_detail In_points) = []" by code_simp+
  ultimately show ?thesis by blast
qed

text \<open>A plan that counts items copies the refined count into a new row, and shows the refined points.\<close>

lemma count_plan_shows_points:
  "featureEstimate (ex_unsized In_count) (hd (cd_plans (ex_unsized In_count))) (hd (cd_items (ex_unsized In_count))) = 4 \<and>
   map ci_estimated (pd_items (ex_unsized_detail In_count)) = [30]"
  by code_simp

text \<open>The row of an archived Feature shows zeros, and the warnings of the figures it no longer shows.\<close>

lemma archived_row_warns:
  assumes "pf_archived (ar_feature r)" "al_value (ar_row r) < ar_rollup r"
  shows "mt_rollup (av_metrics (allocation_view s r)) = 0 \<and> mt_estimated (av_metrics (allocation_view s r)) = 0 \<and>
    Rollup_exceeds_estimated \<in> set (mt_warnings (av_metrics (allocation_view s r)))"
  using assms by (simp add: allocation_view_def Let_def computeCapacityWarnings_def)

end
