(* ===== verification/Idempotency.thy ===== *)
theory Idempotency
  imports Prelude
begin

text \<open>
  The idempotency interceptor \<^verbatim>\<open>libs/platform/src/http/idempotency.interceptor.ts\<close>: which requests it takes
  and under which key, the canonical text of a body, and the protocol of one key between any number of
  concurrent requests, the shared cache and its clock. A request stops between any two cache
  operations. \<open>reliable\<close>: no cache operation fails and no process dies; \<open>bounded\<close>: time does not pass the
  expiry of the marker of a request that is at work, nor of a stored answer. The digest is an argument.
\<close>

section \<open>Which requests, under which key\<close>

definition IDEMPOTENCY_TTL_SECONDS :: nat where
  "IDEMPOTENCY_TTL_SECONDS = 24 * 60 * 60"

definition IN_FLIGHT_TTL_SECONDS :: nat where
  "IN_FLIGHT_TTL_SECONDS = 60"

definition IDEMPOTENCY_METHODS :: "string list" where
  "IDEMPOTENCY_METHODS = [''POST'', ''PUT'']"

text \<open>What the interceptor reads of a request; \<open>hr_keys\<close>: the values of the key header.\<close>

record http_request =
  hr_http :: bool
  hr_method :: string
  hr_keys :: "string list"
  hr_contextUser :: "string option"
  hr_user :: "string option"
  hr_public :: bool
  hr_ip :: string
  hr_agent :: "string option"
  hr_url :: string

definition idem_user :: "(string \<Rightarrow> string) \<Rightarrow> http_request \<Rightarrow> string option" where
  "idem_user sha256 rq =
     (case (case hr_contextUser rq of Some u \<Rightarrow> Some u | None \<Rightarrow> hr_user rq) of
        Some u \<Rightarrow> if u \<noteq> [] then Some u
                 else if hr_public rq then Some (take 16 (sha256 (hr_ip rq @ '':'' @ (case hr_agent rq of None \<Rightarrow> [] | Some a \<Rightarrow> a)))) else None
      | None \<Rightarrow> if hr_public rq then Some (take 16 (sha256 (hr_ip rq @ '':'' @ (case hr_agent rq of None \<Rightarrow> [] | Some a \<Rightarrow> a)))) else None)"

text \<open>\<open>None\<close>: the request passes through.\<close>

definition redis_key :: "(string \<Rightarrow> string) \<Rightarrow> http_request \<Rightarrow> string option" where
  "redis_key sha256 rq =
     (if \<not> hr_http rq \<or> hr_method rq \<notin> set IDEMPOTENCY_METHODS then None
      else case hr_keys rq of
        [] \<Rightarrow> None
      | key # _ \<Rightarrow>
          if key = [] then None
          else map_option (\<lambda>u. ''idem:'' @ u @ '':'' @ hr_method rq @ '':'' @ hr_url rq @ '':'' @ key) (idem_user sha256 rq))"

section \<open>The text of a body\<close>

text \<open>A number is the text \<^verbatim>\<open>JSON.stringify\<close> gives it.\<close>

datatype json = J_undefined | J_null | J_bool bool | J_number string | J_string string | J_array "json list" | J_object "(string \<times> json) list"

definition hex_digit :: "nat \<Rightarrow> char" where
  "hex_digit n = ''0123456789abcdef'' ! n"

definition escape_char :: "char \<Rightarrow> string" where
  "escape_char c =
     (if c = CHR 0x22 then [CHR 0x5C, CHR 0x22]
      else if c = CHR 0x5C then [CHR 0x5C, CHR 0x5C]
      else if c = CHR 0x08 then [CHR 0x5C, CHR ''b'']
      else if c = CHR 0x0C then [CHR 0x5C, CHR ''f'']
      else if c = CHR 0x0A then [CHR 0x5C, CHR ''n'']
      else if c = CHR 0x0D then [CHR 0x5C, CHR ''r'']
      else if c = CHR 0x09 then [CHR 0x5C, CHR ''t'']
      else if of_char c < (32 :: nat)
        then [CHR 0x5C, CHR ''u'', CHR ''0'', CHR ''0'', hex_digit (of_char c div 16), hex_digit (of_char c mod 16)]
      else [c])"

definition quoted :: "string \<Rightarrow> string" where
  "quoted s = [CHR 0x22] @ concat (map escape_char s) @ [CHR 0x22]"

fun joined :: "string list \<Rightarrow> string" where
  "joined [] = []"
| "joined [x] = x"
| "joined (x # y # ys) = x @ '','' @ joined (y # ys)"

definition by_key :: "string \<times> 'v \<Rightarrow> string \<times> 'v \<Rightarrow> int" where
  "by_key a b = (if fst a < fst b then -1 else if fst b < fst a then 1 else 0)"

fun stableJson :: "json \<Rightarrow> string" where
  "stableJson (J_array xs) = ''['' @ joined (map stableJson xs) @ '']''"
| "stableJson (J_object fs) =
     ''{'' @ joined (map (\<lambda>(k, t). quoted k @ '':'' @ t) (js_sort by_key (map (\<lambda>(k, v). (k, stableJson v)) fs))) @ ''}''"
| "stableJson J_undefined = ''null''"
| "stableJson J_null = ''null''"
| "stableJson (J_bool b) = (if b then ''true'' else ''false'')"
| "stableJson (J_number n) = n"
| "stableJson (J_string s) = quoted s"

definition hashBody :: "(string \<Rightarrow> string) \<Rightarrow> json \<Rightarrow> string" where
  "hashBody sha256 body = sha256 (stableJson body)"

section \<open>The protocol of one key\<close>

text \<open>An entry of the cache: one this code has written, one of an earlier format, one that does not parse.\<close>

datatype cached =
    Entry string nat "string option" json
  | Legacy json
  | Garbled

datatype answer =
    Ran "json option" nat "string option"
  | Replayed json "nat option" "string option"
  | Key_reused
  | In_flight
  | Failed

text \<open>Where a request stands: before the first read, before the lock, before the second read (with the lock or
  without), in its handler (with the lock or passed through), before storing its answer, before the
  release, answered.\<close>

datatype idem_pc =
    Idle
  | Reading
  | Locking
  | Rechecking bool
  | Running bool
  | Storing json nat "string option"
  | Releasing answer
  | Answered answer

record idem_world =
  iw_now :: nat
  iw_entry :: "(cached \<times> nat) option"
  iw_marker :: "nat option"
  iw_hash :: "nat \<Rightarrow> string"
  iw_pc :: "nat \<Rightarrow> idem_pc"
  iw_done :: "(nat \<times> json \<times> nat \<times> string option) list"

definition entry_now :: "idem_world \<Rightarrow> cached option" where
  "entry_now w = (case iw_entry w of None \<Rightarrow> None | Some (c, x) \<Rightarrow> if iw_now w < x then Some c else None)"

definition marked :: "idem_world \<Rightarrow> bool" where
  "marked w \<longleftrightarrow> (case iw_marker w of None \<Rightarrow> False | Some x \<Rightarrow> iw_now w < x)"

definition replay :: "string \<Rightarrow> cached \<Rightarrow> answer" where
  "replay requestHash c =
     (case c of
        Entry h status etag r \<Rightarrow> if h \<noteq> requestHash then Key_reused else Replayed r (Some status) etag
      | Legacy r \<Rightarrow> Replayed r None None
      | Garbled \<Rightarrow> Failed)"

abbreviation goto :: "nat \<Rightarrow> idem_pc \<Rightarrow> idem_world \<Rightarrow> idem_world" where
  "goto i p w \<equiv> w\<lparr>iw_pc := (iw_pc w)(i := p)\<rparr>"

text \<open>The first read; \<open>ok\<close>: it reaches the cache.\<close>

definition read_first :: "bool \<Rightarrow> nat \<Rightarrow> idem_world \<Rightarrow> idem_world" where
  "read_first ok i w =
     (if \<not> ok then goto i (Running False) w
      else case entry_now w of
        None \<Rightarrow> goto i Locking w
      | Some Garbled \<Rightarrow> goto i (Running False) w
      | Some c \<Rightarrow> goto i (Answered (replay (iw_hash w i) c)) w)"

text \<open>\<^verbatim>\<open>SET inFlightKey requestHash EX 60 NX\<close>; a cache that cannot be reached lets the request on.\<close>

definition take_marker :: "bool \<Rightarrow> nat \<Rightarrow> idem_world \<Rightarrow> idem_world" where
  "take_marker ok i w =
     (if \<not> ok then goto i (Rechecking True) w
      else if marked w then goto i (Rechecking False) w
      else goto i (Rechecking True) (w\<lparr>iw_marker := Some (iw_now w + IN_FLIGHT_TTL_SECONDS)\<rparr>))"

definition read_again :: "bool \<Rightarrow> bool \<Rightarrow> nat \<Rightarrow> idem_world \<Rightarrow> idem_world" where
  "read_again ok acquired i w =
     (let raced = (if ok then (case entry_now w of Some Garbled \<Rightarrow> None | e \<Rightarrow> e) else None) in
      if \<not> acquired
      then (case raced of Some c \<Rightarrow> goto i (Answered (replay (iw_hash w i) c)) w | None \<Rightarrow> goto i (Answered In_flight) w)
      else (case raced of Some c \<Rightarrow> goto i (Releasing (replay (iw_hash w i) c)) w | None \<Rightarrow> goto i (Running True) w))"

text \<open>The handler completes with a response, a status and an ETag; a void response is not stored.\<close>

definition complete_handler :: "json option \<Rightarrow> nat \<Rightarrow> string option \<Rightarrow> bool \<Rightarrow> nat \<Rightarrow> idem_world \<Rightarrow> idem_world" where
  "complete_handler response status etag guarded i w =
     (let w' = (case response of None \<Rightarrow> w | Some r \<Rightarrow> w\<lparr>iw_done := iw_done w @ [(i, r, status, etag)]\<rparr>) in
      if \<not> guarded then goto i (Answered (Ran response status etag)) w'
      else case response of None \<Rightarrow> goto i (Releasing (Ran None status etag)) w' | Some r \<Rightarrow> goto i (Storing r status etag) w')"

definition store_answer :: "bool \<Rightarrow> json \<Rightarrow> nat \<Rightarrow> string option \<Rightarrow> nat \<Rightarrow> idem_world \<Rightarrow> idem_world" where
  "store_answer ok r status etag i w =
     goto i (Releasing (Ran (Some r) status etag))
       (if ok then w\<lparr>iw_entry := Some (Entry (iw_hash w i) status etag r, iw_now w + IDEMPOTENCY_TTL_SECONDS)\<rparr> else w)"

definition release_marker :: "bool \<Rightarrow> answer \<Rightarrow> nat \<Rightarrow> idem_world \<Rightarrow> idem_world" where
  "release_marker ok a i w = goto i (Answered a) (if ok then w\<lparr>iw_marker := None\<rparr> else w)"

text \<open>The request \<open>i\<close> holds the marker, or believes it does.\<close>

definition at_work :: "idem_pc \<Rightarrow> bool" where
  "at_work p \<longleftrightarrow> (case p of Rechecking b \<Rightarrow> b | Running b \<Rightarrow> b | Storing _ _ _ \<Rightarrow> True | Releasing _ \<Rightarrow> True | _ \<Rightarrow> False)"

definition in_time :: "nat \<Rightarrow> idem_world \<Rightarrow> bool" where
  "in_time now w \<longleftrightarrow>
     (case iw_entry w of None \<Rightarrow> True | Some (_, x) \<Rightarrow> now < x) \<and>
     ((\<exists>i. at_work (iw_pc w i)) \<longrightarrow> (case iw_marker w of None \<Rightarrow> True | Some x \<Rightarrow> now < x))"

inductive idem_step :: "bool \<Rightarrow> bool \<Rightarrow> idem_world \<Rightarrow> idem_world \<Rightarrow> bool" for reliable bounded where
  arrive: "iw_pc w i = Idle \<Longrightarrow> idem_step reliable bounded w (goto i Reading (w\<lparr>iw_hash := (iw_hash w)(i := h)\<rparr>))"
| first_read: "iw_pc w i = Reading \<Longrightarrow> (reliable \<longrightarrow> ok) \<Longrightarrow> idem_step reliable bounded w (read_first ok i w)"
| lock: "iw_pc w i = Locking \<Longrightarrow> (reliable \<longrightarrow> ok) \<Longrightarrow> idem_step reliable bounded w (take_marker ok i w)"
| second_read: "iw_pc w i = Rechecking b \<Longrightarrow> (reliable \<longrightarrow> ok) \<Longrightarrow> idem_step reliable bounded w (read_again ok b i w)"
| completes: "iw_pc w i = Running b \<Longrightarrow> idem_step reliable bounded w (complete_handler response status etag b i w)"
| fails: "iw_pc w i = Running b \<Longrightarrow> idem_step reliable bounded w (goto i (if b then Releasing Failed else Answered Failed) w)"
| store: "iw_pc w i = Storing r status etag \<Longrightarrow> (reliable \<longrightarrow> ok) \<Longrightarrow> idem_step reliable bounded w (store_answer ok r status etag i w)"
| release: "iw_pc w i = Releasing a \<Longrightarrow> (reliable \<longrightarrow> ok) \<Longrightarrow> idem_step reliable bounded w (release_marker ok a i w)"
| dies: "\<not> reliable \<Longrightarrow> idem_step reliable bounded w (goto i (Answered Failed) w)"
| time: "iw_now w \<le> t \<Longrightarrow> (bounded \<longrightarrow> in_time t w) \<Longrightarrow> idem_step reliable bounded w (w\<lparr>iw_now := t\<rparr>)"

inductive idem_run :: "bool \<Rightarrow> bool \<Rightarrow> idem_world \<Rightarrow> idem_world \<Rightarrow> bool" for reliable bounded where
  refl: "idem_run reliable bounded w w"
| step: "idem_run reliable bounded w w' \<Longrightarrow> idem_step reliable bounded w' w'' \<Longrightarrow> idem_run reliable bounded w w''"

text \<open>Nothing is cached and nobody is at work.\<close>

definition idem_start :: "idem_world \<Rightarrow> bool" where
  "idem_start w \<longleftrightarrow> iw_entry w = None \<and> iw_marker w = None \<and> (\<forall>i. iw_pc w i = Idle) \<and> iw_done w = []"

section \<open>One request at work at a time\<close>

text \<open>The replies that the stored answer \<open>d\<close> allows to a request with the body hash \<open>h\<close>.\<close>

definition reply_ok :: "(nat \<Rightarrow> string) \<Rightarrow> (nat \<times> json \<times> nat \<times> string option) list \<Rightarrow> nat \<Rightarrow> answer \<Rightarrow> bool" where
  "reply_ok hash ds i a \<longleftrightarrow>
     (case a of
        Ran (Some r) status etag \<Rightarrow> ds = [(i, r, status, etag)]
      | Replayed r status etag \<Rightarrow> (\<exists>j s. ds = [(j, r, s, etag)] \<and> status = Some s \<and> hash j = hash i)
      | Key_reused \<Rightarrow> (\<exists>j r s e. ds = [(j, r, s, e)] \<and> hash j \<noteq> hash i)
      | _ \<Rightarrow> True)"

definition pc_ok :: "(nat \<Rightarrow> string) \<Rightarrow> (nat \<times> json \<times> nat \<times> string option) list \<Rightarrow> nat \<Rightarrow> idem_pc \<Rightarrow> bool" where
  "pc_ok hash ds i p \<longleftrightarrow>
     (case p of
        Running b \<Rightarrow> b \<and> ds = []
      | Storing r s e \<Rightarrow> ds = [(i, r, s, e)]
      | Releasing a \<Rightarrow> reply_ok hash ds i a
      | Answered a \<Rightarrow> reply_ok hash ds i a
      | _ \<Rightarrow> True)"

definition stored_ok :: "(nat \<Rightarrow> string) \<Rightarrow> (nat \<Rightarrow> idem_pc) \<Rightarrow> (nat \<times> json \<times> nat \<times> string option) list \<Rightarrow> cached option \<Rightarrow> bool" where
  "stored_ok hash pc ds entry \<longleftrightarrow>
     (case ds of
        [] \<Rightarrow> entry = None
      | [(i, r, s, e)] \<Rightarrow> entry = Some (Entry (hash i) s e r) \<or> entry = None \<and> pc i = Storing r s e
      | _ \<Rightarrow> False)"

definition idem_inv :: "idem_world \<Rightarrow> bool" where
  "idem_inv w \<longleftrightarrow>
     (\<forall>i j. at_work (iw_pc w i) \<and> at_work (iw_pc w j) \<longrightarrow> i = j) \<and>
     ((\<exists>i. at_work (iw_pc w i)) \<longleftrightarrow> marked w) \<and>
     (iw_marker w \<noteq> None \<longrightarrow> marked w) \<and>
     (\<forall>c x. iw_entry w = Some (c, x) \<longrightarrow> iw_now w < x) \<and>
     (\<forall>i. pc_ok (iw_hash w) (iw_done w) i (iw_pc w i)) \<and>
     stored_ok (iw_hash w) (iw_pc w) (iw_done w) (entry_now w) \<and>
     (\<forall>i. iw_pc w i = Idle \<longrightarrow> i \<notin> fst ` set (iw_done w))"

lemmas idem_defs = read_first_def take_marker_def read_again_def complete_handler_def store_answer_def release_marker_def

lemma at_work_simps [simp]:
  "\<not> at_work Idle" "\<not> at_work Reading" "\<not> at_work Locking" "at_work (Rechecking b) \<longleftrightarrow> b" "at_work (Running b) \<longleftrightarrow> b"
  "at_work (Storing r s e)" "at_work (Releasing a)" "\<not> at_work (Answered a)"
  by (simp_all add: at_work_def)

lemma marked_goto [simp]: "marked (goto i p w) = marked w" "entry_now (goto i p w) = entry_now w"
  by (simp_all add: marked_def entry_now_def split: option.splits)

lemma idem_inv_start: "idem_start w \<Longrightarrow> idem_inv w"
  by (auto simp: idem_start_def idem_inv_def marked_def pc_ok_def stored_ok_def entry_now_def)

text \<open>A move of the request \<open>i\<close> that leaves the shared state alone.\<close>

lemma idem_inv_goto:
  assumes "idem_inv w" "at_work p = at_work (iw_pc w i)" "pc_ok (iw_hash w) (iw_done w) i p" "p \<noteq> Idle"
    and "\<And>r s e. iw_pc w i \<noteq> Storing r s e"
  shows "idem_inv (goto i p w)"
proof -
  have "stored_ok (iw_hash w) ((iw_pc w)(i := p)) (iw_done w) (entry_now w)"
    using assms(1,5) by (auto simp: idem_inv_def stored_ok_def split: list.splits)
  then show ?thesis using assms(1-4) unfolding idem_inv_def by (simp del: split_paired_All) (metis fun_upd_apply)
qed

lemma pc_ok_hash:
  assumes "pc_ok hash ds j p" "i \<notin> fst ` set ds" "i \<noteq> j"
  shows "pc_ok (hash(i := h)) ds j p"
  using assms by (auto simp: pc_ok_def reply_ok_def split: idem_pc.splits answer.splits option.splits)

lemma stored_ok_hash: "stored_ok hash pc ds c \<Longrightarrow> i \<notin> fst ` set ds \<Longrightarrow> stored_ok (hash(i := h)) pc ds c"
  by (auto simp: stored_ok_def split: list.splits)

lemma marked_hash: "marked (w\<lparr>iw_hash := h\<rparr>) = marked w" "entry_now (w\<lparr>iw_hash := h\<rparr>) = entry_now w"
  by (simp_all add: marked_def entry_now_def split: option.splits)

lemma marked_done: "marked (w\<lparr>iw_done := d, iw_pc := q\<rparr>) = marked w" "entry_now (w\<lparr>iw_done := d, iw_pc := q\<rparr>) = entry_now w"
  by (simp_all add: marked_def entry_now_def split: option.splits)

lemma marked_entry: "marked (w\<lparr>iw_entry := c, iw_pc := q\<rparr>) = marked w"
  by (simp add: marked_def split: option.splits)

lemma marked_none: "\<not> marked (w\<lparr>iw_marker := None, iw_pc := q\<rparr>)" "entry_now (w\<lparr>iw_marker := None, iw_pc := q\<rparr>) = entry_now w"
  by (simp_all add: marked_def entry_now_def split: option.splits)

lemma at_work_marked: "idem_inv w \<Longrightarrow> iw_pc w i = p \<Longrightarrow> at_work p \<Longrightarrow> marked w"
  unfolding idem_inv_def by metis

lemma idem_inv_hash:
  assumes inv: "idem_inv w" and pc: "iw_pc w i = Idle"
  shows "idem_inv (w\<lparr>iw_hash := (iw_hash w)(i := h)\<rparr>)"
proof -
  have i: "i \<notin> fst ` set (iw_done w)" using assms by (simp add: idem_inv_def)
  have "pc_ok ((iw_hash w)(i := h)) (iw_done w) j (iw_pc w j)" for j
  proof (cases "j = i")
    case True
    with pc show ?thesis by (simp add: pc_ok_def)
  next
    case False
    with inv i show ?thesis by (intro pc_ok_hash) (auto simp: idem_inv_def)
  qed
  moreover have "stored_ok ((iw_hash w)(i := h)) (iw_pc w) (iw_done w) (entry_now w)"
    using inv i by (intro stored_ok_hash) (auto simp: idem_inv_def)
  ultimately show ?thesis using inv by (simp add: idem_inv_def marked_hash)
qed

lemma idem_inv_arrive:
  assumes "idem_inv w" "iw_pc w i = Idle"
  shows "idem_inv (goto i Reading (w\<lparr>iw_hash := (iw_hash w)(i := h)\<rparr>))"
  using assms by (intro idem_inv_goto idem_inv_hash) (simp_all add: pc_ok_def)

lemma stored_ok_cases:
  assumes "stored_ok hash pc ds c"
  obtains "ds = []" "c = None"
  | i r s e where "ds = [(i, r, s, e)]" "c = Some (Entry (hash i) s e r)"
  | i r s e where "ds = [(i, r, s, e)]" "c = None" "pc i = Storing r s e"
  using assms by (cases ds; cases "tl ds") (auto simp: stored_ok_def)

lemma idem_inv_stored: "idem_inv w \<Longrightarrow> stored_ok (iw_hash w) (iw_pc w) (iw_done w) (entry_now w)"
  by (simp add: idem_inv_def)

lemma entry_stored:
  assumes "idem_inv w" "entry_now w = Some c"
  shows "\<exists>j r s e. iw_done w = [(j, r, s, e)] \<and> c = Entry (iw_hash w j) s e r"
  using idem_inv_stored [OF assms(1)] by (cases rule: stored_ok_cases) (use assms(2) in auto)

lemma replay_ok:
  assumes "idem_inv w" "entry_now w = Some c"
  shows "reply_ok (iw_hash w) (iw_done w) i (replay (iw_hash w i) c)"
proof -
  obtain j r s e where "iw_done w = [(j, r, s, e)]" "c = Entry (iw_hash w j) s e r" using entry_stored [OF assms] by blast
  then show ?thesis by (simp add: replay_def reply_ok_def)
qed

lemma not_garbled: "idem_inv w \<Longrightarrow> entry_now w \<noteq> Some Garbled"
  using entry_stored by blast

lemma idem_inv_first_read: "idem_inv w \<Longrightarrow> iw_pc w i = Reading \<Longrightarrow> idem_inv (read_first True i w)"
  using not_garbled [of w] replay_ok [of w _ i]
  by (auto simp: read_first_def pc_ok_def split: option.splits cached.splits intro!: idem_inv_goto)

lemma idem_inv_second_read: "idem_inv w \<Longrightarrow> iw_pc w i = Rechecking b \<Longrightarrow> idem_inv (read_again True b i w)"
proof -
  assume inv: "idem_inv w" and pc: "iw_pc w i = Rechecking b"
  show ?thesis
  proof (cases "entry_now w")
    case None
    have "iw_done w = []" if b
    proof (rule ccontr)
      assume "iw_done w \<noteq> []"
      with None obtain j r s e where "iw_done w = [(j, r, s, e)]" "iw_pc w j = Storing r s e"
        by (rule_tac stored_ok_cases [OF idem_inv_stored [OF inv]]) auto
      moreover from this have "i = j" using inv pc that by (auto simp: idem_inv_def)
      ultimately show False using pc by simp
    qed
    with inv pc None show ?thesis
      by (auto simp: read_again_def pc_ok_def reply_ok_def intro!: idem_inv_goto)
  next
    case (Some c)
    with inv pc replay_ok [OF inv Some, of i] not_garbled [OF inv] show ?thesis
      by (auto simp: read_again_def Let_def pc_ok_def split: cached.splits intro!: idem_inv_goto)
  qed
qed

lemma idem_inv_lock: "idem_inv w \<Longrightarrow> iw_pc w i = Locking \<Longrightarrow> idem_inv (take_marker True i w)"
proof -
  assume inv: "idem_inv w" and pc: "iw_pc w i = Locking"
  show ?thesis
  proof (cases "marked w")
    case True
    with inv pc show ?thesis by (auto simp: take_marker_def pc_ok_def intro!: idem_inv_goto)
  next
    case False
    then have "\<not> at_work (iw_pc w j)" for j using inv by (auto simp: idem_inv_def)
    then have st: "iw_pc w j \<noteq> Storing r s e" for j r s e by (metis at_work_simps(6))
    with inv have "stored_ok (iw_hash w) ((iw_pc w)(i := Rechecking True)) (iw_done w) (entry_now w)"
      by (auto simp: idem_inv_def stored_ok_def split: list.splits)
    with inv False \<open>\<And>j. \<not> at_work (iw_pc w j)\<close> show ?thesis
      by (auto simp: take_marker_def idem_inv_def marked_def entry_now_def pc_ok_def IN_FLIGHT_TTL_SECONDS_def cong: option.case_cong)
  qed
qed

lemma others_idle:
  assumes "idem_inv w" "at_work (iw_pc w i)" "j \<noteq> i"
  shows "\<not> at_work (iw_pc w j)"
  using assms by (auto simp: idem_inv_def)

lemma idem_inv_completes: "idem_inv w \<Longrightarrow> iw_pc w i = Running b \<Longrightarrow> idem_inv (complete_handler response status etag b i w)"
proof -
  assume inv: "idem_inv w" and pc: "iw_pc w i = Running b"
  have b: b and ds: "iw_done w = []" using inv pc by (auto simp: idem_inv_def pc_ok_def dest: spec [of _ i])
  have "marked w" using at_work_marked [OF inv pc] b by simp
  show ?thesis
  proof (cases response)
    case None
    with inv pc b show ?thesis by (auto simp: complete_handler_def pc_ok_def reply_ok_def intro!: idem_inv_goto)
  next
    case (Some r)
    have en: "entry_now w = None" using inv ds by (simp add: idem_inv_def stored_ok_def)
    have "pc_ok (iw_hash w) [(i, r, status, etag)] j (iw_pc w j)" if "j \<noteq> i" for j
    proof -
      have "\<not> at_work (iw_pc w j)" using others_idle [OF inv _ that] pc b by simp
      moreover have "pc_ok (iw_hash w) [] j (iw_pc w j)" using inv ds by (simp add: idem_inv_def)
      ultimately show ?thesis
        by (auto simp: pc_ok_def reply_ok_def split: idem_pc.splits answer.splits option.splits)
    qed
    with \<open>marked w\<close> inv pc b ds en Some show ?thesis
      unfolding complete_handler_def Let_def idem_inv_def
      by (auto simp: marked_done pc_ok_def [of _ _ i] stored_ok_def)
  qed
qed

lemma idem_inv_fails: "idem_inv w \<Longrightarrow> iw_pc w i = Running b \<Longrightarrow> idem_inv (goto i (if b then Releasing Failed else Answered Failed) w)"
  by (rule idem_inv_goto) (auto simp: pc_ok_def reply_ok_def)

lemma idem_inv_store: "idem_inv w \<Longrightarrow> iw_pc w i = Storing r s e \<Longrightarrow> idem_inv (store_answer True r s e i w)"
proof -
  assume inv: "idem_inv w" and pc: "iw_pc w i = Storing r s e"
  have ds: "iw_done w = [(i, r, s, e)]" using inv pc by (auto simp: idem_inv_def pc_ok_def dest: spec [of _ i])
  have "marked w" using at_work_marked [OF inv pc] by simp
  moreover have "stored_ok (iw_hash w) q (iw_done w) (entry_now (store_answer True r s e i w))" for q
    by (simp add: ds stored_ok_def entry_now_def store_answer_def IDEMPOTENCY_TTL_SECONDS_def)
  ultimately show ?thesis using inv pc ds
    unfolding idem_inv_def
    by (auto simp: store_answer_def marked_entry pc_ok_def [of _ _ i] reply_ok_def [of _ _ i] IDEMPOTENCY_TTL_SECONDS_def)
qed

lemma idem_inv_release: "idem_inv w \<Longrightarrow> iw_pc w i = Releasing a \<Longrightarrow> idem_inv (release_marker True a i w)"
proof -
  assume inv: "idem_inv w" and pc: "iw_pc w i = Releasing a"
  have others: "\<not> at_work (iw_pc w j)" if "j \<noteq> i" for j using others_idle [OF inv _ that] pc by simp
  have "reply_ok (iw_hash w) (iw_done w) i a" using inv pc by (auto simp: idem_inv_def pc_ok_def dest: spec [of _ i])
  moreover have "stored_ok (iw_hash w) ((iw_pc w)(i := Answered a)) (iw_done w) (entry_now w)"
    using idem_inv_stored [OF inv] by (cases rule: stored_ok_cases) (use pc in \<open>auto simp: stored_ok_def\<close>)
  ultimately show ?thesis using inv others
    unfolding idem_inv_def
    by (auto simp: release_marker_def marked_none pc_ok_def [of _ _ i])
qed

lemma idem_inv_time:
  assumes "idem_inv w" "iw_now w \<le> t" "in_time t w"
  shows "idem_inv (w\<lparr>iw_now := t\<rparr>)"
proof -
  have "entry_now (w\<lparr>iw_now := t\<rparr>) = entry_now w"
    using assms by (auto simp: idem_inv_def entry_now_def in_time_def split: option.splits)
  with assms show ?thesis by (auto simp: idem_inv_def marked_def in_time_def split: option.splits)
qed

lemma idem_inv_step: "idem_step True True w w' \<Longrightarrow> idem_inv w \<Longrightarrow> idem_inv w'"
  by (induction rule: idem_step.induct)
    (simp_all add: idem_inv_arrive [simplified] idem_inv_first_read idem_inv_lock idem_inv_second_read idem_inv_completes idem_inv_fails
      idem_inv_store idem_inv_release idem_inv_time)

lemma idem_inv_run: "idem_run True True w w' \<Longrightarrow> idem_inv w \<Longrightarrow> idem_inv w'"
  by (induction rule: idem_run.induct) (blast intro: idem_inv_step)+

section \<open>Replies under failures\<close>

text \<open>Whatever fails, dies or expires, a reply is backed by a run that completed.\<close>

definition reply_backed :: "(nat \<Rightarrow> string) \<Rightarrow> (nat \<times> json \<times> nat \<times> string option) list \<Rightarrow> nat \<Rightarrow> answer \<Rightarrow> bool" where
  "reply_backed hash ds i a \<longleftrightarrow>
     (case a of
        Ran (Some r) status etag \<Rightarrow> (i, r, status, etag) \<in> set ds
      | Replayed r status etag \<Rightarrow> (\<exists>j s. (j, r, s, etag) \<in> set ds \<and> status = Some s \<and> hash j = hash i)
      | Key_reused \<Rightarrow> (\<exists>j d. (j, d) \<in> set ds \<and> hash j \<noteq> hash i)
      | _ \<Rightarrow> True)"

definition pc_backed :: "(nat \<Rightarrow> string) \<Rightarrow> (nat \<times> json \<times> nat \<times> string option) list \<Rightarrow> nat \<Rightarrow> idem_pc \<Rightarrow> bool" where
  "pc_backed hash ds i p \<longleftrightarrow>
     (case p of
        Idle \<Rightarrow> i \<notin> fst ` set ds
      | Storing r s e \<Rightarrow> (i, r, s, e) \<in> set ds
      | Releasing a \<Rightarrow> reply_backed hash ds i a
      | Answered a \<Rightarrow> reply_backed hash ds i a
      | _ \<Rightarrow> True)"

definition entry_backed :: "(nat \<Rightarrow> string) \<Rightarrow> (nat \<times> json \<times> nat \<times> string option) list \<Rightarrow> (cached \<times> nat) option \<Rightarrow> bool" where
  "entry_backed hash ds entry \<longleftrightarrow>
     (\<forall>c x. entry = Some (c, x) \<longrightarrow> (\<exists>j r s e. (j, r, s, e) \<in> set ds \<and> c = Entry (hash j) s e r))"

definition idem_backed :: "idem_world \<Rightarrow> bool" where
  "idem_backed w \<longleftrightarrow> entry_backed (iw_hash w) (iw_done w) (iw_entry w) \<and>
     (\<forall>i. pc_backed (iw_hash w) (iw_done w) i (iw_pc w i))"

lemma pc_backed_simps [simp]:
  "pc_backed hash ds i Reading" "pc_backed hash ds i Locking" "pc_backed hash ds i (Rechecking b)" "pc_backed hash ds i (Running b)"
  "pc_backed hash ds i Idle \<longleftrightarrow> i \<notin> fst ` set ds"
  "pc_backed hash ds i (Storing r s e) \<longleftrightarrow> (i, r, s, e) \<in> set ds"
  "pc_backed hash ds i (Releasing a) \<longleftrightarrow> reply_backed hash ds i a" "pc_backed hash ds i (Answered a) \<longleftrightarrow> reply_backed hash ds i a"
  "reply_backed hash ds i Failed" "reply_backed hash ds i In_flight" "reply_backed hash ds i (Ran None status etag)"
  "reply_backed hash ds i (Ran (Some r) status etag) \<longleftrightarrow> (i, r, status, etag) \<in> set ds"
  by (simp_all add: pc_backed_def reply_backed_def)

lemma idem_backed_goto:
  "idem_backed w \<Longrightarrow> pc_backed (iw_hash w) (iw_done w) i p \<Longrightarrow> idem_backed (goto i p w)"
  by (simp add: idem_backed_def)

lemma idem_backed_replay:
  assumes "idem_backed w" "entry_now w = Some c"
  shows "reply_backed (iw_hash w) (iw_done w) i (replay (iw_hash w i) c)" "c \<noteq> Garbled"
proof -
  obtain j r s e where d: "(j, r, s, e) \<in> set (iw_done w)" and c: "c = Entry (iw_hash w j) s e r"
    using assms by (auto simp: idem_backed_def entry_backed_def entry_now_def split: option.splits if_splits)
  show "c \<noteq> Garbled" using c by simp
  show "reply_backed (iw_hash w) (iw_done w) i (replay (iw_hash w i) c)"
  proof (cases "iw_hash w j = iw_hash w i")
    case True
    with d have "\<exists>k. (k, r, s, e) \<in> set (iw_done w) \<and> iw_hash w k = iw_hash w i" by blast
    with True show ?thesis unfolding c replay_def reply_backed_def by simp
  next
    case False
    with d have "\<exists>k. (\<exists>d. (k, d) \<in> set (iw_done w)) \<and> iw_hash w k \<noteq> iw_hash w i" by blast
    with False show ?thesis unfolding c replay_def reply_backed_def by simp
  qed
qed

lemma pc_backed_hash:
  assumes "pc_backed hash ds j p" "i \<notin> fst ` set ds" "i \<noteq> j"
  shows "pc_backed (hash(i := h)) ds j p"
proof -
  have "k \<noteq> i" if "(k, d) \<in> set ds" for k d using that assms(2) by force
  then have "reply_backed (hash(i := h)) ds j a" if "reply_backed hash ds j a" for a
    using that assms(3) unfolding reply_backed_def
    by (cases a) (simp_all split: option.splits, (metis fun_upd_apply)+)
  with assms(1) show ?thesis by (cases p) simp_all
qed

lemma pc_backed_done:
  assumes "pc_backed hash ds j p" "i \<noteq> j"
  shows "pc_backed hash (ds @ [(i, d)]) j p"
proof -
  have "reply_backed hash (ds @ [(i, d)]) j a" if "reply_backed hash ds j a" for a
    using that by (auto simp: reply_backed_def split: answer.splits option.splits)
  with assms show ?thesis by (cases p) auto
qed

lemma idem_backed_arrive:
  assumes w: "idem_backed w" and i: "iw_pc w i = Idle"
  shows "idem_backed (goto i Reading (w\<lparr>iw_hash := (iw_hash w)(i := h)\<rparr>))"
proof -
  from assms have new: "i \<notin> fst ` set (iw_done w)" unfolding idem_backed_def by (metis pc_backed_simps(5))
  then have "k \<noteq> i" if "(k, d) \<in> set (iw_done w)" for k d using that by force
  with w have "entry_backed ((iw_hash w)(i := h)) (iw_done w) (iw_entry w)"
    unfolding idem_backed_def entry_backed_def by (metis fun_upd_other)
  with w pc_backed_hash [OF _ new] show ?thesis by (auto simp: idem_backed_def)
qed

lemma idem_backed_completes:
  assumes w: "idem_backed w" and i: "iw_pc w i = Running b"
  shows "idem_backed (complete_handler response status etag b i w)"
proof (cases response)
  case None
  with w show ?thesis by (auto simp: complete_handler_def intro!: idem_backed_goto)
next
  case (Some r)
  with w have "entry_backed (iw_hash w) (iw_done w @ [(i, r, status, etag)]) (iw_entry w)"
    by (fastforce simp: idem_backed_def entry_backed_def)
  with w Some show ?thesis by (auto simp: complete_handler_def Let_def idem_backed_def pc_backed_done)
qed

lemma idem_backed_store:
  assumes w: "idem_backed w" and i: "iw_pc w i = Storing r s e"
  shows "idem_backed (store_answer ok r s e i w)"
proof -
  from assms have "(i, r, s, e) \<in> set (iw_done w)" unfolding idem_backed_def by (metis pc_backed_simps(6))
  with w show ?thesis by (auto simp: store_answer_def idem_backed_def entry_backed_def)
qed

lemma idem_backed_step: "idem_step reliable bounded w w' \<Longrightarrow> idem_backed w \<Longrightarrow> idem_backed w'"
proof (induction rule: idem_step.induct)
  case (arrive w i h)
  from idem_backed_arrive [OF arrive(2,1)] show ?case .
next
  case (first_read w i ok)
  with idem_backed_replay [of w] show ?case
    by (auto simp: read_first_def split: option.splits cached.splits intro!: idem_backed_goto)
next
  case (second_read w i b ok)
  with idem_backed_replay [of w] show ?case
    by (auto simp: read_again_def Let_def split: option.splits cached.splits if_splits intro!: idem_backed_goto)
next
  case (release w i a ok)
  then have "reply_backed (iw_hash w) (iw_done w) i a" unfolding idem_backed_def by (metis pc_backed_simps(7))
  with release show ?case by (auto simp: release_marker_def idem_backed_def)
next
  case (time w t)
  then show ?case by (simp add: idem_backed_def)
qed (auto simp: take_marker_def idem_backed_completes idem_backed_store intro!: idem_backed_goto, simp_all add: idem_backed_def)

lemma idem_backed_run: "idem_run reliable bounded w w' \<Longrightarrow> idem_backed w \<Longrightarrow> idem_backed w'"
  by (induction rule: idem_run.induct) (blast intro: idem_backed_step)+

lemma idem_once_run:
  assumes "idem_start w" "idem_run True True w w'"
  shows "(\<forall>i j a b. iw_pc w' i = Running a \<and> iw_pc w' j = Running b \<longrightarrow> i = j \<and> iw_done w' = []) \<and> length (iw_done w') \<le> 1"
proof -
  have inv: "idem_inv w'" using idem_inv_run [OF assms(2)] idem_inv_start [OF assms(1)] by blast
  have run: "at_work (iw_pc w' i) \<and> iw_done w' = []" if "iw_pc w' i = Running b" for i b
    using inv that by (auto simp: idem_inv_def pc_ok_def dest: spec [of _ i])
  have "i = j \<and> iw_done w' = []" if "iw_pc w' i = Running a" "iw_pc w' j = Running b" for i j a b
    using others_idle [OF inv, of i j] run that by blast
  moreover have "length (iw_done w') \<le> 1" using idem_inv_stored [OF inv] by (cases rule: stored_ok_cases) simp_all
  ultimately show ?thesis by blast
qed


text \<open>Two requests arrive together; the first runs and its answer is replayed to the second.\<close>

definition idem_blank :: idem_world where
  "idem_blank = \<lparr>iw_now = 0, iw_entry = None, iw_marker = None, iw_hash = (\<lambda>_. []), iw_pc = (\<lambda>_. Idle), iw_done = []\<rparr>"

definition idem_twice :: idem_world where
  "idem_twice = \<lparr>iw_now = 3, iw_entry = Some (Entry ''h'' 201 (Some ''1'') J_null, 3 + 86400), iw_marker = None,
    iw_hash = (\<lambda>_. [])(0 := ''h'', 1 := ''h''),
    iw_pc = (\<lambda>_. Idle)(0 := Answered (Ran (Some J_null) 201 (Some ''1'')), 1 := Answered (Replayed J_null (Some 201) (Some ''1''))),
    iw_done = [(0, J_null, 201, Some ''1'')]\<rparr>"

lemma idem_run_trans: "idem_run r b w' w'' \<Longrightarrow> idem_run r b w w' \<Longrightarrow> idem_run r b w w''"
  by (induction rule: idem_run.induct) (auto intro: idem_run.intros)

lemma idem_run_ahead: "idem_step r b w w' \<Longrightarrow> idem_run r b w' w'' \<Longrightarrow> idem_run r b w w''"
  by (rule idem_run_trans) (auto intro: idem_run.intros)

lemmas idem_eval = idem_blank_def idem_twice_def idem_defs entry_now_def marked_def replay_def IN_FLIGHT_TTL_SECONDS_def
  IDEMPOTENCY_TTL_SECONDS_def

lemma idem_run_eq: "w = w' \<Longrightarrow> idem_run r b w w'"
  by (simp add: idem_run.refl)

lemma idem_twice_reached: "idem_run True True idem_blank idem_twice"
  apply (rule idem_run_ahead [OF idem_step.arrive [where i = 0 and h = "''h''"]], simp add: idem_eval)
  apply (rule idem_run_ahead [OF idem_step.arrive [where i = 1 and h = "''h''"]], simp add: idem_eval)
  apply (rule idem_run_ahead [OF idem_step.first_read [where i = 0 and ok = True]], simp add: idem_eval, simp)
  apply (rule idem_run_ahead [OF idem_step.first_read [where i = 1 and ok = True]], simp add: idem_eval, simp)
  apply (rule idem_run_ahead [OF idem_step.lock [where i = 0 and ok = True]], simp add: idem_eval, simp)
  apply (rule idem_run_ahead [OF idem_step.second_read [where i = 0 and b = True and ok = True]], simp add: idem_eval, simp)
  apply (rule idem_run_ahead [OF idem_step.time [where t = 3]], simp add: idem_eval, simp add: idem_eval in_time_def)
  apply (rule idem_run_ahead [OF idem_step.completes [where i = 0 and b = True and response = "Some J_null" and status = 201
    and etag = "Some ''1''"]], simp add: idem_eval)
  apply (rule idem_run_ahead [OF idem_step.store [where i = 0 and ok = True]], simp add: idem_eval, simp)
  apply (rule idem_run_ahead [OF idem_step.release [where i = 0 and ok = True]], simp add: idem_eval, simp)
  apply (rule idem_run_ahead [OF idem_step.lock [where i = 1 and ok = True]], simp add: idem_eval, simp)
  apply (rule idem_run_ahead [OF idem_step.second_read [where i = 1 and b = True and ok = True]], simp add: idem_eval, simp)
  apply (rule idem_run_ahead [OF idem_step.release [where i = 1 and ok = True]], simp add: idem_eval, simp)
  apply (rule idem_run_eq)
  apply (simp add: idem_eval fun_eq_iff)
  done


end
