(* ===== verification/Paging.thy ===== *)
theory Paging
  imports Prelude
begin

text \<open>
  Keyset pagination (\<^verbatim>\<open>pagination.ts\<close>): the condition that follows a cursor, the page built from \<open>limit + 1\<close> rows,
  and the feed that merges two tables (\<^verbatim>\<open>listReleaseArtifacts\<close>, \<^verbatim>\<open>listMilestoneArtifacts\<close>). A row is what the walk
  reads of it, its id and its sort value; the type of the sort values is any linear order, as the order is the database's.
  The base64 text of a cursor is not modelled: a cursor is its payload.
\<close>

section \<open>Rows, cursors and pages\<close>

datatype direction = Asc | Desc

record 'v listed =
  ls_id :: uuid
  ls_key :: "'v option"

record 'v CursorPayload =
  cu_key :: "'v option"
  cu_id :: uuid
  cu_dir :: direction

record ('r, 'c) PagedResult =
  pg_data :: "'r list"
  pg_next :: "'c option"
  pg_hasNext :: bool
  pg_limit :: nat

definition DEFAULT_LIMIT :: nat where
  "DEFAULT_LIMIT = 50"

definition MAX_LIMIT :: nat where
  "MAX_LIMIT = 100"

definition row_cursor :: "direction \<Rightarrow> 'v listed \<Rightarrow> 'v CursorPayload" where
  "row_cursor d r = \<lparr>cu_key = ls_key r, cu_id = ls_id r, cu_dir = d\<rparr>"

text \<open>\<open>cursor_of\<close> encodes the cursor of the last row.\<close>

definition buildPageResult :: "('r \<Rightarrow> 'c) \<Rightarrow> 'r list \<Rightarrow> nat \<Rightarrow> ('r, 'c) PagedResult" where
  "buildPageResult cursor_of rawItems limit =
     (let hasNextPage = limit < length rawItems;
          rows = (if hasNextPage then take limit rawItems else rawItems)
      in \<lparr>pg_data = rows, pg_next = (if hasNextPage \<and> rows \<noteq> [] then Some (cursor_of (last rows)) else None),
          pg_hasNext = hasNextPage, pg_limit = limit\<rparr>)"

text \<open>Comparisons with NULL are not true.\<close>

fun keysetCondition :: "('v :: linorder) CursorPayload \<Rightarrow> 'v listed \<Rightarrow> bool" where
  "keysetCondition cursor r =
     (let afterTie = cu_id cursor < ls_id r in
      if cu_dir cursor = Asc
      then (case cu_key cursor of
              None \<Rightarrow> ls_key r = None \<and> afterTie
            | Some v \<Rightarrow> (case ls_key r of None \<Rightarrow> True | Some x \<Rightarrow> v < x \<or> x = v \<and> afterTie))
      else (case cu_key cursor of
              None \<Rightarrow> ls_key r = None \<and> afterTie \<or> ls_key r \<noteq> None
            | Some v \<Rightarrow> (case ls_key r of None \<Rightarrow> False | Some x \<Rightarrow> x < v \<or> x = v \<and> afterTie)))"

text \<open>A date column: the boundary is read back from the row of the cursor.\<close>

definition boundary_of :: "uuid \<Rightarrow> ('v :: linorder) listed list \<Rightarrow> 'v option" where
  "boundary_of i rows = (case find (\<lambda>r. ls_id r = i) rows of None \<Rightarrow> None | Some r \<Rightarrow> ls_key r)"

definition keysetDateCondition :: "('v :: linorder) listed list \<Rightarrow> 'v CursorPayload \<Rightarrow> 'v listed \<Rightarrow> bool" where
  "keysetDateCondition rows cursor r =
     (case (boundary_of (cu_id cursor) rows, ls_key r) of
        (Some b, Some x) \<Rightarrow> (if cu_dir cursor = Asc then b < x else x < b) \<or> x = b \<and> cu_id cursor < ls_id r
      | _ \<Rightarrow> False)"

text \<open>\<^verbatim>\<open>ORDER BY sortCol direction, id ASC\<close>: NULLs last when ascending, first when descending.\<close>

definition key_order :: "direction \<Rightarrow> ('v :: linorder) option \<Rightarrow> 'v option \<Rightarrow> int" where
  "key_order d x y =
     (case (x, y) of
        (None, None) \<Rightarrow> 0
      | (None, Some _) \<Rightarrow> if d = Asc then 1 else -1
      | (Some _, None) \<Rightarrow> if d = Asc then -1 else 1
      | (Some a, Some b) \<Rightarrow> if a = b then 0 else if a < b \<longleftrightarrow> d = Asc then -1 else 1)"

definition page_order :: "direction \<Rightarrow> ('v :: linorder) listed \<Rightarrow> 'v listed \<Rightarrow> int" where
  "page_order d a b =
     (if key_order d (ls_key a) (ls_key b) \<noteq> 0 then key_order d (ls_key a) (ls_key b)
      else if ls_id a < ls_id b then -1 else if ls_id b < ls_id a then 1 else 0)"

text \<open>The rows a list query answers.\<close>

definition keyset_rows :: "direction \<Rightarrow> ('v :: linorder) listed list \<Rightarrow> 'v CursorPayload option \<Rightarrow> nat \<Rightarrow> 'v listed list" where
  "keyset_rows d rows cursor n =
     take n (js_sort (page_order d) (case cursor of None \<Rightarrow> rows | Some c \<Rightarrow> filter (keysetCondition c) rows))"

definition keyset_date_rows :: "direction \<Rightarrow> ('v :: linorder) listed list \<Rightarrow> 'v CursorPayload option \<Rightarrow> nat \<Rightarrow> 'v listed list" where
  "keyset_date_rows d rows cursor n =
     take n (js_sort (page_order d) (case cursor of None \<Rightarrow> rows | Some c \<Rightarrow> filter (keysetDateCondition rows c) rows))"

section \<open>The feed over two tables\<close>

definition bySortKeyDesc :: "('v :: linorder) listed \<Rightarrow> 'v listed \<Rightarrow> int" where
  "bySortKeyDesc a b =
     (if ls_key a \<noteq> ls_key b
      then (case (ls_key a, ls_key b) of (Some x, Some y) \<Rightarrow> if x < y then 1 else -1 | _ \<Rightarrow> -1)
      else if ls_id a < ls_id b then -1 else if ls_id b < ls_id a then 1 else 0)"

text \<open>The boundary of the cursor is looked up in both tables; each branch is cut at \<open>n\<close> rows before the merge.\<close>

definition artifact_branch ::
  "'v listed list \<times> 'v listed list \<Rightarrow> ('v :: linorder) CursorPayload option \<Rightarrow> nat \<Rightarrow> 'v listed list \<Rightarrow> 'v listed list" where
  "artifact_branch tables cursor n rows =
     take n (js_sort (page_order Desc)
       (case cursor of
          None \<Rightarrow> rows
        | Some c \<Rightarrow>
            filter (\<lambda>r. case (boundary_of (cu_id c) (fst tables @ snd tables), ls_key r) of
                          (Some b, Some x) \<Rightarrow> x < b \<or> x = b \<and> cu_id c < ls_id r | _ \<Rightarrow> False) rows))"

definition artifact_rows ::
  "'v listed list \<times> 'v listed list \<Rightarrow> ('v :: linorder) CursorPayload option \<Rightarrow> nat \<Rightarrow> 'v listed list" where
  "artifact_rows tables cursor n =
     take n (js_sort bySortKeyDesc (artifact_branch tables cursor n (fst tables) @ artifact_branch tables cursor n (snd tables)))"

section \<open>Walking the pages\<close>

text \<open>A client that follows \<open>nextCursor\<close>; \<open>ts\<close>: the tables at each of its requests. The rows it has read, and whether
  it came to the last page.\<close>

fun walk_pages :: "('t \<Rightarrow> 'c option \<Rightarrow> nat \<Rightarrow> 'r list) \<Rightarrow> ('r \<Rightarrow> 'c) \<Rightarrow> nat \<Rightarrow> 'c option \<Rightarrow> 't list \<Rightarrow> 'r list \<times> bool" where
  "walk_pages fetch cursor_of limit cur [] = ([], False)"
| "walk_pages fetch cursor_of limit cur (t # ts) =
     (let page = buildPageResult cursor_of (fetch t cur (limit + 1)) limit in
      case pg_next page of
        None \<Rightarrow> (pg_data page, True)
      | Some c \<Rightarrow> (let (rest, ended) = walk_pages fetch cursor_of limit (Some c) ts in (pg_data page @ rest, ended)))"

text \<open>Whether each row that a page ended on resolves in the table that the next page is read from.\<close>

fun cursors_found ::
  "('t \<Rightarrow> 'c option \<Rightarrow> nat \<Rightarrow> 'r list) \<Rightarrow> ('r \<Rightarrow> 'c) \<Rightarrow> ('t \<Rightarrow> 'r \<Rightarrow> bool) \<Rightarrow> nat \<Rightarrow> 'r option \<Rightarrow> 't list \<Rightarrow> bool" where
  "cursors_found fetch cursor_of resolves limit cur [] = True"
| "cursors_found fetch cursor_of resolves limit cur (t # ts) =
     ((case cur of None \<Rightarrow> True | Some c \<Rightarrow> resolves t c) \<and>
      (let page = buildPageResult cursor_of (fetch t (map_option cursor_of cur) (limit + 1)) limit in
       pg_next page = None \<or> cursors_found fetch cursor_of resolves limit (Some (last (pg_data page))) ts))"

lemma cursors_always: "(\<And>t c. resolves t c) \<Longrightarrow> cursors_found fetch cursor_of resolves limit cur ts"
  by (induction ts arbitrary: cur) (simp_all add: Let_def split: option.split)

lemma take_filter_ahead:
  assumes "sorted_wrt lt ys" "\<And>x y. lt x y \<Longrightarrow> \<not> lt y x"
    and "\<forall>y\<in>set ys. \<not> P y \<longrightarrow> n \<le> length (filter (\<lambda>x. P x \<and> lt x y) ys)"
  shows "take n (filter P ys) = take n ys"
  using assms(1,3)
proof (induction ys arbitrary: n)
  case (Cons y ys)
  show ?case
  proof (cases "P y")
    case False
    have "filter (\<lambda>x. P x \<and> lt x y) (y # ys) = []" using Cons.prems(1) assms(2) False by (auto simp: filter_empty_conv)
    with Cons.prems(2) False have "n = 0" by simp
    then show ?thesis by simp
  next
    case True
    show ?thesis
    proof (cases n)
      case (Suc m)
      have "m \<le> length (filter (\<lambda>x. P x \<and> lt x z) ys)" if "z \<in> set ys" "\<not> P z" for z
        using Cons.prems that True Suc by auto
      with Cons True Suc show ?thesis by simp
    qed simp
  qed
qed simp

text \<open>Listings of rows with distinct keys.\<close>

context js_keyed_order
begin

lemma strict_of_distinct: "sorted_wrt (\<lambda>a b. cmp a b \<le> 0) zs \<Longrightarrow> distinct (map key zs) \<Longrightarrow> sorted_wrt (\<lambda>a b. cmp a b < 0) zs"
proof (induction zs)
  case (Cons y ys)
  have "cmp y z < 0" if "z \<in> set ys" for z
  proof -
    have "cmp y z \<le> 0" "key y \<noteq> key z" using that Cons.prems by auto
    with cmp_key show ?thesis by (metis order_le_imp_less_or_eq)
  qed
  with Cons show ?case by simp
qed simp

lemma distinct_strict: "sorted_wrt (\<lambda>a b. cmp a b < 0) zs \<Longrightarrow> distinct zs"
  using cmp_refl by (induction zs) force+

lemma strictly_sorted: "distinct (map key xs) \<Longrightarrow> sorted_wrt (\<lambda>a b. cmp a b < 0) (js_sort cmp xs)"
  using strict_of_distinct [OF sorted_js_sort] distinct_map_mset [OF mset_js_sort] by blast

text \<open>Cutting both branches at \<open>n\<close> before a merge loses nothing of the first \<open>n\<close>.\<close>

lemma merge_cut:
  assumes "distinct (map key (xs @ ys))"
  shows "take n (js_sort cmp (take n (js_sort cmp xs) @ take n (js_sort cmp ys))) = take n (js_sort cmp (xs @ ys))"
proof -
  let ?X = "js_sort cmp xs" and ?Y = "js_sort cmp ys" and ?S = "js_sort cmp (xs @ ys)"
  define P where "P r \<longleftrightarrow> r \<in> set (take n ?X) \<or> r \<in> set (take n ?Y)" for r
  have S: "sorted_wrt (\<lambda>a b. cmp a b < 0) ?S" by (rule strictly_sorted [OF assms])
  have X: "sorted_wrt (\<lambda>a b. cmp a b < 0) ?X" "sorted_wrt (\<lambda>a b. cmp a b < 0) ?Y" using assms by (auto intro: strictly_sorted)
  have dist: "distinct (xs @ ys)" "distinct ?S" "distinct ?X" "distinct ?Y"
    using assms distinct_strict [OF S] distinct_strict [OF X(1)] distinct_strict [OF X(2)] by (auto simp: distinct_map)
  have subs: "set (take n ?X) \<subseteq> set xs" "set (take n ?Y) \<subseteq> set ys"
    using set_take_subset [of n ?X] set_take_subset [of n ?Y] by simp_all
  have ahead: "n \<le> length (filter (\<lambda>x. P x \<and> cmp x z < 0) ?S)"
    if z: "z \<in> set zs" "z \<notin> set (take n zs)" "sorted_wrt (\<lambda>a b. cmp a b < 0) zs" "set (take n zs) \<subseteq> set ?S" "distinct zs"
      "\<And>r. r \<in> set (take n zs) \<Longrightarrow> P r" for z zs
  proof -
    from z(1,2) have "z \<in> set (drop n zs)" by (metis Un_iff append_take_drop_id set_append)
    then have "n < length zs" by (metis drop_all empty_iff leI list.set(1))
    have "\<forall>x\<in>set (take n zs). cmp x z < 0"
      using z(3) \<open>z \<in> set (drop n zs)\<close> by (metis append_take_drop_id sorted_wrt_append)
    then have "set (take n zs) \<subseteq> set (filter (\<lambda>x. P x \<and> cmp x z < 0) ?S)" using z(4,6) by auto
    then have "card (set (take n zs)) \<le> card (set (filter (\<lambda>x. P x \<and> cmp x z < 0) ?S))" by (intro card_mono) simp_all
    moreover have "card (set (take n zs)) = n" using z(5) \<open>n < length zs\<close> by (simp add: distinct_card)
    moreover have "card (set (filter (\<lambda>x. P x \<and> cmp x z < 0) ?S)) = length (filter (\<lambda>x. P x \<and> cmp x z < 0) ?S)"
      using dist(2) by (intro distinct_card distinct_filter)
    ultimately show ?thesis by simp
  qed
  have "take n (filter P ?S) = take n ?S"
  proof (rule take_filter_ahead [OF S])
    show "cmp x y < 0 \<Longrightarrow> \<not> cmp y x < 0" for x y using cmp_flip [of x y] by linarith
    show "\<forall>z\<in>set ?S. \<not> P z \<longrightarrow> n \<le> length (filter (\<lambda>x. P x \<and> cmp x z < 0) ?S)"
    proof (intro ballI impI)
      fix z assume z: "z \<in> set ?S" "\<not> P z"
      then consider "z \<in> set ?X" | "z \<in> set ?Y" by auto
      then show "n \<le> length (filter (\<lambda>x. P x \<and> cmp x z < 0) ?S)"
      proof cases
        case 1
        have "set (take n ?X) \<subseteq> set ?S" using subs by auto
        moreover have "z \<notin> set (take n ?X)" using z(2) by (simp add: P_def)
        ultimately show ?thesis using ahead [OF 1 _ X(1) _ dist(3)] by (simp add: P_def)
      next
        case 2
        have "set (take n ?Y) \<subseteq> set ?S" using subs by auto
        moreover have "z \<notin> set (take n ?Y)" using z(2) by (simp add: P_def)
        ultimately show ?thesis using ahead [OF 2 _ X(2) _ dist(4)] by (simp add: P_def)
      qed
    qed
  qed
  moreover have "js_sort cmp (take n ?X @ take n ?Y) = filter P ?S"
  proof (rule sorted_unique [OF sorted_js_sort])
    show "sorted_wrt (\<lambda>a b. cmp a b \<le> 0) (filter P ?S)" using sorted_js_sort by (rule sorted_wrt_filter)
    have "set (take n ?X) \<inter> set (take n ?Y) = {}" using dist(1) subs by auto
    then have "distinct (take n ?X @ take n ?Y)" using dist(3,4) by simp
    moreover have "set (take n ?X @ take n ?Y) = set (filter P ?S)" using subs by (auto simp: P_def)
    ultimately have "mset (take n ?X @ take n ?Y) = mset (filter P ?S)"
      using dist(2) by (metis distinct_filter set_eq_iff_mset_eq_distinct)
    then show "mset (js_sort cmp (take n ?X @ take n ?Y)) = mset (filter P ?S)" by simp
    have "distinct (map key (filter P ?S))" using distinct_map_mset [OF mset_js_sort] assms by (intro distinct_map_filter) blast
    with \<open>mset (take n ?X @ take n ?Y) = mset (filter P ?S)\<close> show "distinct (map key (js_sort cmp (take n ?X @ take n ?Y)))"
      using distinct_map_mset by (metis mset_js_sort)
  qed
  ultimately show ?thesis by simp
qed

end

text \<open>A feed: what a query answers after a cursor, in the order its rows are listed in.\<close>

locale feed = js_keyed_order cmp ident for cmp :: "'r \<Rightarrow> 'r \<Rightarrow> int" and ident :: "'r \<Rightarrow> uuid" +
  fixes listing :: "'t \<Rightarrow> 'r list" and fetch :: "'t \<Rightarrow> 'c option \<Rightarrow> nat \<Rightarrow> 'r list" and cursor_of :: "'r \<Rightarrow> 'c"
    and sound :: "'t \<Rightarrow> bool" and resolves :: "'t \<Rightarrow> 'r \<Rightarrow> bool"
  assumes sound_ids: "sound t \<Longrightarrow> distinct (map ident (listing t))"
    and fetch_first: "sound t \<Longrightarrow> fetch t None n = take n (js_sort cmp (listing t))"
    and fetch_after: "sound t \<Longrightarrow> resolves t c \<Longrightarrow>
      fetch t (Some (cursor_of c)) n = take n (js_sort cmp (filter (\<lambda>r. cmp c r < 0) (listing t)))"
begin

definition remaining :: "'r option \<Rightarrow> 't \<Rightarrow> 'r list" where
  "remaining cur t = (case cur of None \<Rightarrow> listing t | Some c \<Rightarrow> filter (\<lambda>r. cmp c r < 0) (listing t))"

lemma fetch_remaining:
  assumes "sound t" "\<And>c. cur = Some c \<Longrightarrow> resolves t c"
  shows "fetch t (map_option cursor_of cur) n = take n (js_sort cmp (remaining cur t))"
  using assms fetch_first fetch_after by (cases cur) (simp_all add: remaining_def)

lemma remaining_ids: "sound t \<Longrightarrow> distinct (map ident (remaining cur t))"
  using sound_ids [of t] by (cases cur) (auto simp: remaining_def intro: distinct_map_filter)

text \<open>A full page and what is left after its last row.\<close>

lemma after_page:
  assumes s: "sorted_wrt (\<lambda>a b. cmp a b < 0) xs" and n: "0 < n" "n < length xs"
  shows "last (take n xs) \<in> set xs" and "\<forall>x\<in>set (take n xs). cmp x (last (take n xs)) \<le> 0"
    and "\<forall>x\<in>set xs. x \<in> set (drop n xs) \<longleftrightarrow> cmp (last (take n xs)) x < 0"
proof -
  have "take n xs \<noteq> []" using n by auto
  from last_conv_nth [OF this] have last: "last (take n xs) = xs ! (n - 1)" using n by (simp add: min_def)
  have before: "cmp (xs ! i) (xs ! j) < 0" if "i < j" "j < length xs" for i j using s that by (simp add: sorted_wrt_iff_nth_less)
  show "last (take n xs) \<in> set xs" using last n by simp
  show up: "\<forall>x\<in>set (take n xs). cmp x (last (take n xs)) \<le> 0"
  proof
    fix x assume "x \<in> set (take n xs)"
    then obtain i where i: "i < n" "x = xs ! i" using n by (auto simp: in_set_conv_nth)
    show "cmp x (last (take n xs)) \<le> 0"
    proof (cases "i = n - 1")
      case False
      then show ?thesis using before [of i "n - 1"] i n last by force
    qed (use i last cmp_refl in simp)
  qed
  show "\<forall>x\<in>set xs. x \<in> set (drop n xs) \<longleftrightarrow> cmp (last (take n xs)) x < 0"
  proof
    fix x assume "x \<in> set xs"
    then consider "x \<in> set (take n xs)" | "x \<in> set (drop n xs)" by (metis Un_iff append_take_drop_id set_append)
    then show "x \<in> set (drop n xs) \<longleftrightarrow> cmp (last (take n xs)) x < 0"
    proof cases
      case 1
      have "distinct xs" using distinct_strict [OF s] .
      then have "x \<notin> set (drop n xs)" using 1 by (meson disjoint_iff set_take_disj_set_drop_if_distinct order_refl)
      moreover have "\<not> cmp (last (take n xs)) x < 0" using up 1 cmp_flip [of "last (take n xs)" x] by auto
      ultimately show ?thesis by blast
    next
      case 2
      then obtain j where "j < length xs - n" "x = xs ! (n + j)" by (auto simp: in_set_conv_nth)
      with before [of "n - 1" "n + j"] n last 2 show ?thesis by simp
    qed
  qed
qed

lemma walk_step:
  assumes "sound t" "\<forall>c. cur = Some c \<longrightarrow> resolves t c" "0 < limit"
  defines "xs \<equiv> js_sort cmp (remaining cur t)"
  shows "walk_pages fetch cursor_of limit (map_option cursor_of cur) (t # ts) =
    (if limit < length xs
     then (let (rest, ended) = walk_pages fetch cursor_of limit (map_option cursor_of (Some (last (take limit xs)))) ts
           in (take limit xs @ rest, ended))
     else (xs, True)) \<and>
    (limit < length xs \<and> cursors_found fetch cursor_of resolves limit cur (t # ts) \<longrightarrow>
      cursors_found fetch cursor_of resolves limit (Some (last (take limit xs))) ts)"
proof -
  have raw: "fetch t (map_option cursor_of cur) (Suc limit) = take (Suc limit) xs"
    unfolding xs_def using fetch_remaining [OF assms(1)] assms(2) by blast
  show ?thesis
  proof (cases "limit < length xs")
    case True
    then have "take limit xs \<noteq> []" "limit < length (take (Suc limit) xs)" "take limit (take (Suc limit) xs) = take limit xs"
      using assms(3) by auto
    with True show ?thesis by (simp add: raw buildPageResult_def Let_def)
  qed (simp add: raw buildPageResult_def Let_def)
qed

lemma walk_delivers:
  assumes "\<forall>t\<in>set ts. sound t" "0 < limit"
    and "cursors_found fetch cursor_of resolves limit cur ts"
    and "walk_pages fetch cursor_of limit (map_option cursor_of cur) ts = (rows, True)"
  shows "sorted_wrt (\<lambda>a b. cmp a b < 0) rows \<and> (\<forall>c. cur = Some c \<longrightarrow> (\<forall>r\<in>set rows. cmp c r < 0)) \<and>
    (\<forall>r\<in>set rows. \<exists>t\<in>set ts. r \<in> set (listing t)) \<and> (\<forall>r. (\<forall>t\<in>set ts. r \<in> set (remaining cur t)) \<longrightarrow> r \<in> set rows)"
  using assms
proof (induction ts arbitrary: cur rows)
  case (Cons t ts)
  define xs where "xs = js_sort cmp (remaining cur t)"
  have t: "sound t" "\<forall>c. cur = Some c \<longrightarrow> resolves t c" using Cons.prems by auto
  have sorted: "sorted_wrt (\<lambda>a b. cmp a b < 0) xs" unfolding xs_def by (rule strictly_sorted [OF remaining_ids [OF t(1)]])
  have mem: "r \<in> set xs \<longleftrightarrow> r \<in> set (remaining cur t)" for r by (simp add: xs_def)
  have in_listing: "r \<in> set (listing t)" "cur = Some c \<Longrightarrow> cmp c r < 0" if "r \<in> set xs" for r c
    using that unfolding mem remaining_def by (auto split: option.splits)
  note step = walk_step [OF t Cons.prems(2), THEN conjunct1, folded xs_def]
    and found = walk_step [OF t Cons.prems(2), THEN conjunct2, folded xs_def]
  show ?case
  proof (cases "limit < length xs")
    case False
    have "rows = xs" using Cons.prems(4) False unfolding step by simp
    with sorted in_listing mem show ?thesis by (auto simp del: remaining_def)
  next
    case True
    define c where "c = last (take limit xs)"
    obtain rest where rest: "walk_pages fetch cursor_of limit (map_option cursor_of (Some c)) ts = (rest, True)"
      and rows: "rows = take limit xs @ rest"
      using Cons.prems(4) True unfolding step c_def by (auto split: prod.splits)
    note page = after_page [OF sorted Cons.prems(2) True, folded c_def]
    have c: "c \<in> set (listing t)" using in_listing page(1) by blast
    have ih: "sorted_wrt (\<lambda>a b. cmp a b < 0) rest" "\<forall>r\<in>set rest. cmp c r < 0"
      "\<forall>r\<in>set rest. \<exists>t\<in>set ts. r \<in> set (listing t)" "\<forall>r. (\<forall>t\<in>set ts. r \<in> set (remaining (Some c) t)) \<longrightarrow> r \<in> set rest"
      using Cons.IH [OF _ Cons.prems(2) _ rest] Cons.prems(1,3) found True c_def by auto
    have later: "cmp x r < 0" if "x \<in> set (take limit xs)" "r \<in> set rest" for x r
      using page(2) ih(2) that cmp_less_trans by blast
    have first: "x \<in> set xs" if "x \<in> set (take limit xs)" for x using that by (rule in_set_takeD)
    have "sorted_wrt (\<lambda>a b. cmp a b < 0) rows"
      unfolding rows sorted_wrt_append using sorted_wrt_take [OF sorted] ih(1) later by blast
    moreover have "cmp d r < 0" if "cur = Some d" "r \<in> set rows" for d r
    proof -
      have dc: "cmp d c < 0" using in_listing(2) [OF page(1) that(1)] .
      from that(2) rows consider "r \<in> set (take limit xs)" | "r \<in> set rest" by auto
      then show ?thesis
      proof cases
        case 2
        then have "cmp c r \<le> 0" using ih(2) by force
        with dc cmp_less_trans' show ?thesis by blast
      qed (use first in_listing(2) that(1) in blast)
    qed
    moreover have "\<exists>u\<in>set (t # ts). r \<in> set (listing u)" if "r \<in> set rows" for r
      using that ih(3) first in_listing(1) unfolding rows by auto
    moreover have "r \<in> set rows" if "\<forall>u\<in>set (t # ts). r \<in> set (remaining cur u)" for r
    proof (cases "r \<in> set (take limit xs)")
      case False
      have "r \<in> set xs" using that mem by simp
      with False have "r \<in> set (drop limit xs)" by (metis Un_iff append_take_drop_id set_append)
      with page(3) \<open>r \<in> set xs\<close> have "cmp c r < 0" by blast
      moreover have "r \<in> set (listing u)" if "u \<in> set ts" for u
        using \<open>\<forall>u\<in>set (t # ts). r \<in> set (remaining cur u)\<close> that unfolding remaining_def by (auto split: option.splits)
      ultimately have "\<forall>u\<in>set ts. r \<in> set (remaining (Some c) u)" by (simp add: remaining_def)
      with ih(4) rows show ?thesis by simp
    qed (simp add: rows)
    ultimately show ?thesis by blast
  qed
qed simp

text \<open>On a table that does not change the walk ends, with the table in its order.\<close>

lemma walk_constant:
  assumes "sound t" "0 < limit" "\<forall>c\<in>set (listing t). resolves t c" "\<forall>c. cur = Some c \<longrightarrow> resolves t c"
    and "0 < n" "length (remaining cur t) \<le> n * limit"
  shows "walk_pages fetch cursor_of limit (map_option cursor_of cur) (replicate n t) = (js_sort cmp (remaining cur t), True)"
  using assms(4-6)
proof (induction n arbitrary: cur)
  case (Suc n)
  define xs where "xs = js_sort cmp (remaining cur t)"
  have sorted: "sorted_wrt (\<lambda>a b. cmp a b < 0) xs" unfolding xs_def by (rule strictly_sorted [OF remaining_ids [OF assms(1)]])
  note step = walk_step [OF assms(1) Suc.prems(1) assms(2), THEN conjunct1, folded xs_def]
  show ?case
  proof (cases "limit < length xs")
    case True
    define c where "c = last (take limit xs)"
    note page = after_page [OF sorted assms(2) True, folded c_def]
    have in_listing: "r \<in> set (listing t)" if "r \<in> set xs" for r
      using that unfolding xs_def remaining_def by (auto split: option.splits)
    have left: "set (remaining (Some c) t) = set (drop limit xs)"
    proof (intro set_eqI iffI)
      fix r assume r: "r \<in> set (remaining (Some c) t)"
      have "r \<in> set (remaining cur t)"
      proof (cases cur)
        case (Some d)
        have "cmp d c < 0" using page(1) unfolding xs_def Some remaining_def by simp
        moreover have "cmp c r \<le> 0" using r by (force simp: remaining_def)
        ultimately show ?thesis using r cmp_less_trans' by (auto simp: remaining_def Some)
      qed (use r in \<open>simp add: remaining_def\<close>)
      then show "r \<in> set (drop limit xs)" using page(3) r by (auto simp: xs_def remaining_def)
    next
      fix r assume "r \<in> set (drop limit xs)"
      then show "r \<in> set (remaining (Some c) t)" using page(3) in_listing in_set_dropD by (fastforce simp: remaining_def)
    qed
    have "distinct xs" using distinct_strict [OF sorted] .
    moreover have "distinct (remaining (Some c) t)" using remaining_ids [OF assms(1)] by (simp add: distinct_map)
    ultimately have "mset (remaining (Some c) t) = mset (drop limit xs)" using left set_eq_iff_mset_eq_distinct by (metis distinct_drop)
    then have rest: "js_sort cmp (remaining (Some c) t) = drop limit xs" and len: "length (remaining (Some c) t) = length xs - limit"
      using js_sort_perm remaining_ids [OF assms(1)] js_sort_id [OF sorted_wrt_mono_rel [OF _ sorted_wrt_drop [OF sorted]]]
      by (simp_all add: less_imp_le) (metis length_drop size_mset)
    have "resolves t c" using in_listing page(1) assms(3) by blast
    moreover have "length xs \<le> Suc n * limit" using Suc.prems(3) by (simp add: xs_def)
    then have "length (remaining (Some c) t) \<le> n * limit" "0 < n" using len True by (cases n; simp)+
    ultimately have "walk_pages fetch cursor_of limit (map_option cursor_of (Some c)) (replicate n t) = (drop limit xs, True)"
      using Suc.IH [of "Some c"] rest by simp
    then show ?thesis using True unfolding replicate_Suc step by (simp add: c_def xs_def)
  next
    case False
    then show ?thesis unfolding replicate_Suc step by (simp add: xs_def)
  qed
qed simp

end

section \<open>The feeds of the code\<close>

lemma key_order_js: "js_order (\<lambda>a b. key_order d (ls_key a) (ls_key b))"
  by unfold_locales (auto simp: key_order_def split: option.splits if_splits)

interpretation by_page: js_keyed_order "page_order d" ls_id for d
proof -
  have tie: "js_order (\<lambda>a b :: 'a listed. if ls_id a < ls_id b then -1 else if ls_id b < ls_id a then 1 else 0)"
    by unfold_locales (auto split: if_splits)
  show "js_keyed_order (page_order d) (ls_id :: 'a listed \<Rightarrow> uuid)"
    unfolding js_keyed_order_def page_order_def [abs_def]
    by (intro conjI js_order.js_order_lex [OF key_order_js tie] js_keyed_order_axioms.intro) (auto split: if_splits)
qed

text \<open>What follows a cursor is what comes after its row in the order.\<close>

lemma keysetCondition_order: "keysetCondition (row_cursor d c) = (\<lambda>r. page_order d c r < 0)"
  by (rule ext, cases d) (auto simp: row_cursor_def page_order_def key_order_def split: option.splits)

interpretation keyset: feed "page_order d" ls_id "\<lambda>t. t" "keyset_rows d" "row_cursor d" "\<lambda>t. distinct (map ls_id t)" "\<lambda>_ _. True" for d
  by unfold_locales (simp_all add: keyset_rows_def keysetCondition_order)

definition dated :: "('v :: linorder) listed list \<Rightarrow> bool" where
  "dated rows \<longleftrightarrow> distinct (map ls_id rows) \<and> (\<forall>r\<in>set rows. ls_key r \<noteq> None)"

lemma boundary_of_row: "distinct (map ls_id rows) \<Longrightarrow> c \<in> set rows \<Longrightarrow> boundary_of (ls_id c) rows = ls_key c"
  by (induction rows) (auto simp: boundary_of_def)

lemma keysetDateCondition_order:
  assumes "dated rows" "c \<in> set rows" "r \<in> set rows"
  shows "keysetDateCondition rows (row_cursor d c) r \<longleftrightarrow> page_order d c r < 0"
proof -
  obtain x y where "ls_key c = Some x" "ls_key r = Some y" using assms unfolding dated_def by blast
  moreover have "boundary_of (ls_id c) rows = ls_key c" using assms(1) by (intro boundary_of_row [OF _ assms(2)]) (simp add: dated_def)
  ultimately show ?thesis by (cases d) (auto simp: keysetDateCondition_def row_cursor_def page_order_def key_order_def)
qed

interpretation keyset_date: feed "page_order d" ls_id "\<lambda>t. t" "keyset_date_rows d" "row_cursor d" dated "\<lambda>t c. c \<in> set t" for d
proof unfold_locales
  show "keyset_date_rows d t (Some (row_cursor d c)) n = take n (js_sort (page_order d) (filter (\<lambda>r. page_order d c r < 0) t))"
    if "dated t" "c \<in> set t" for t :: "'a listed list" and c n
    using keysetDateCondition_order [OF that] by (simp add: keyset_date_rows_def cong: filter_cong)
qed (simp_all add: dated_def keyset_date_rows_def)

lemma js_insert_cong: "(\<And>y. y \<in> set xs \<Longrightarrow> cmp x y = cmp' x y) \<Longrightarrow> js_insert cmp x xs = js_insert cmp' x xs"
  by (induction xs) auto

lemma js_sort_cong: "(\<And>x y. x \<in> set xs \<Longrightarrow> y \<in> set xs \<Longrightarrow> cmp x y = cmp' x y) \<Longrightarrow> js_sort cmp xs = js_sort cmp' xs"
proof (induction xs)
  case (Cons x xs)
  then have "js_sort cmp xs = js_sort cmp' xs" by simp
  moreover have "js_insert cmp x (js_sort cmp' xs) = js_insert cmp' x (js_sort cmp' xs)"
    using Cons.prems by (intro js_insert_cong) simp
  ultimately show ?case by simp
qed simp

text \<open>On dated rows the comparator of the merge is the order of the branches.\<close>

lemma bySortKeyDesc_order: "ls_key a \<noteq> None \<Longrightarrow> ls_key b \<noteq> None \<Longrightarrow> bySortKeyDesc a b = page_order Desc a b"
  by (auto simp: bySortKeyDesc_def page_order_def key_order_def split: if_splits)

lemma artifact_branch_after:
  assumes "dated (fst t @ snd t)" "c \<in> set (fst t @ snd t)" "set rows \<subseteq> set (fst t @ snd t)"
  shows "artifact_branch t (Some (row_cursor Desc c)) n rows = take n (js_sort (page_order Desc) (filter (\<lambda>r. page_order Desc c r < 0) rows))"
proof -
  have "keysetDateCondition (fst t @ snd t) (row_cursor Desc c) r \<longleftrightarrow> page_order Desc c r < 0" if "r \<in> set rows" for r
    using assms that by (intro keysetDateCondition_order) auto
  then have "filter (keysetDateCondition (fst t @ snd t) (row_cursor Desc c)) rows = filter (\<lambda>r. page_order Desc c r < 0) rows"
    by (intro filter_cong) simp_all
  then show ?thesis by (simp add: artifact_branch_def keysetDateCondition_def [abs_def] row_cursor_def cong: option.case_cong)
qed

lemma merge_dated:
  assumes "dated (xs @ ys)"
  shows "take n (js_sort bySortKeyDesc (take n (js_sort (page_order Desc) xs) @ take n (js_sort (page_order Desc) ys))) =
    take n (js_sort (page_order Desc) (xs @ ys))"
proof -
  have "ls_key r \<noteq> None" if "r \<in> set (take n (js_sort (page_order Desc) xs) @ take n (js_sort (page_order Desc) ys))" for r
    using assms that set_take_subset [of n "js_sort (page_order Desc) xs"] set_take_subset [of n "js_sort (page_order Desc) ys"]
    by (auto simp: dated_def)
  then have "js_sort bySortKeyDesc (take n (js_sort (page_order Desc) xs) @ take n (js_sort (page_order Desc) ys)) =
      js_sort (page_order Desc) (take n (js_sort (page_order Desc) xs) @ take n (js_sort (page_order Desc) ys))"
    by (intro js_sort_cong bySortKeyDesc_order) blast+
  with assms show ?thesis by (simp add: by_page.merge_cut dated_def)
qed

lemma dated_filter: "dated (xs @ ys) \<Longrightarrow> dated (filter P xs @ filter P ys)"
  unfolding dated_def by (auto intro: distinct_map_filter)

interpretation artifacts: feed "page_order Desc" ls_id "\<lambda>t. fst t @ snd t" artifact_rows "row_cursor Desc"
  "\<lambda>t. dated (fst t @ snd t)" "\<lambda>t c. c \<in> set (fst t @ snd t)"
proof unfold_locales
  show "distinct (map ls_id (fst t @ snd t))" if "dated (fst t @ snd t)" for t :: "'a listed list \<times> 'a listed list"
    using that by (simp add: dated_def)
  show "artifact_rows t None n = take n (js_sort (page_order Desc) (fst t @ snd t))"
    if "dated (fst t @ snd t)" for t :: "'a listed list \<times> 'a listed list" and n
    using merge_dated [OF that] by (simp add: artifact_rows_def artifact_branch_def)
  show "artifact_rows t (Some (row_cursor Desc c)) n = take n (js_sort (page_order Desc) (filter (\<lambda>r. page_order Desc c r < 0) (fst t @ snd t)))"
    if "dated (fst t @ snd t)" "c \<in> set (fst t @ snd t)" for t :: "'a listed list \<times> 'a listed list" and c n
    using merge_dated [OF dated_filter [OF that(1)]] by (simp add: artifact_rows_def artifact_branch_after [OF that])
qed

section \<open>Properties\<close>

lemma count_list_distinct: "distinct xs \<Longrightarrow> x \<in> set xs \<Longrightarrow> count_list xs x = 1"
  by (induction xs) (auto simp: count_list_0_iff)

text \<open>A row is its id together with its sort value. What a walk should have read: the rows in the strict order of
  the listing, only rows that were there at some page, and exactly once every row that was there at all of them.\<close>

definition delivered :: "direction \<Rightarrow> ('v :: linorder) listed list list \<Rightarrow> 'v listed list \<Rightarrow> bool" where
  "delivered d ts rows \<longleftrightarrow>
     sorted_wrt (\<lambda>a b. page_order d a b < 0) rows \<and> (\<forall>r\<in>set rows. \<exists>t\<in>set ts. r \<in> set t) \<and>
     (\<forall>r. (\<forall>t\<in>set ts. r \<in> set t) \<longrightarrow> count_list rows r = 1)"

lemma deliveredI:
  assumes "sorted_wrt (\<lambda>a b. page_order d a b < 0) rows" "\<forall>r\<in>set rows. \<exists>t\<in>set ts. r \<in> set t"
    "\<forall>r. (\<forall>t\<in>set ts. r \<in> set t) \<longrightarrow> r \<in> set rows"
  shows "delivered d ts rows"
  using assms count_list_distinct [OF by_page.distinct_strict [OF assms(1)]] by (auto simp: delivered_def)

text \<open>C13: A client walks the pages of a list to the end, each page read from the rows of its moment. On a column
  that is not a date, the walk has read, in the strict order of the listing, only rows that were there and
  exactly once every row (an id with its sort value) that was there at every page, whatever was added,
  removed or given another sort value in between. On a date column without NULLs the same holds as long as
  each row that a page ended on is still there, with its date, when the next page is read; once such a row
  is gone the next page is empty and the walk ends.\<close>

theorem pages_deliver:
  assumes "0 < limit"
  shows "((\<forall>t\<in>set ts. distinct (map ls_id t)) \<and> walk_pages (keyset_rows d) (row_cursor d) limit None ts = (rows, True) \<longrightarrow>
      delivered d ts rows) \<and>
    ((\<forall>t\<in>set ts. dated t) \<and> cursors_found (keyset_date_rows d) (row_cursor d) (\<lambda>t c. c \<in> set t) limit None ts \<and>
      walk_pages (keyset_date_rows d) (row_cursor d) limit None ts = (rows, True) \<longrightarrow> delivered d ts rows) \<and>
    (c \<notin> ls_id ` set t \<longrightarrow> keyset_date_rows d t (Some \<lparr>cu_key = k, cu_id = c, cu_dir = d\<rparr>) n = [])"
proof (intro conjI impI)
  assume "(\<forall>t\<in>set ts. distinct (map ls_id t)) \<and> walk_pages (keyset_rows d) (row_cursor d) limit None ts = (rows, True)"
  moreover have "cursors_found (keyset_rows d) (row_cursor d) (\<lambda>_ _. True) limit None ts" by (rule cursors_always) simp
  ultimately show "delivered d ts rows"
    using keyset.walk_delivers [of ts limit d None rows] assms
    by (intro deliveredI) (auto simp: keyset.remaining_def)
next
  assume "(\<forall>t\<in>set ts. dated t) \<and> cursors_found (keyset_date_rows d) (row_cursor d) (\<lambda>t c. c \<in> set t) limit None ts \<and>
      walk_pages (keyset_date_rows d) (row_cursor d) limit None ts = (rows, True)"
  then show "delivered d ts rows"
    using keyset_date.walk_delivers [of ts limit d None rows] assms
    by (intro deliveredI) (auto simp: keyset_date.remaining_def)
next
  assume "c \<notin> ls_id ` set t"
  then have "find (\<lambda>r. ls_id r = c) t = None" by (auto simp: find_None_iff)
  then show "keyset_date_rows d t (Some \<lparr>cu_key = k, cu_id = c, cu_dir = d\<rparr>) n = []"
    by (simp add: keyset_date_rows_def keysetDateCondition_def boundary_of_def)
qed

text \<open>C22: The artifact feed of a release or a milestone, which cuts its two tables before it merges them, gives to a
  walk of its pages exactly the rows of both tables, newest first and ties by id, and the walk ends within the
  number of pages they fill.\<close>

theorem merged_pages_exact:
  assumes "0 < limit" and "dated (stories @ portfolio)" and "0 < n" "length (stories @ portfolio) \<le> n * limit"
  shows "walk_pages artifact_rows (row_cursor Desc) limit None (replicate n (stories, portfolio)) =
    (js_sort (page_order Desc) (stories @ portfolio), True)"
  using artifacts.walk_constant [of "(stories, portfolio)" limit None n] assms by (simp add: artifacts.remaining_def)

text \<open>A date column that may be NULL is read back as no boundary: after a page that ends on such a row nothing
  follows, and a boundary never reaches the rows without a date.\<close>

lemma date_rows_null: "boundary_of (cu_id c) rows = None \<Longrightarrow> keyset_date_rows d rows (Some c) n = []"
  by (simp add: keyset_date_rows_def keysetDateCondition_def)

lemma date_rows_skip_null: "r \<in> set (keyset_date_rows d rows (Some c) n) \<Longrightarrow> ls_key r \<noteq> None"
  by (auto simp: keyset_date_rows_def keysetDateCondition_def dest!: in_set_takeD split: option.splits)

section \<open>On concrete rows\<close>

definition ex_listed :: "uuid \<Rightarrow> nat option \<Rightarrow> nat listed" where
  "ex_listed i k = \<lparr>ls_id = i, ls_key = k\<rparr>"

text \<open>Between the two pages a row goes and one comes.\<close>

definition ex_listings :: "nat listed list list" where
  "ex_listings = [[ex_listed ''a'' (Some 1), ex_listed ''b'' None, ex_listed ''c'' (Some 2), ex_listed ''d'' (Some 2)],
                [ex_listed ''a'' (Some 1), ex_listed ''b'' None, ex_listed ''d'' (Some 2), ex_listed ''e'' None]]"

text \<open>Of a list by date a row that was read goes and a newer one comes.\<close>

definition ex_dated :: "nat listed list list" where
  "ex_dated = [[ex_listed ''d'' (Some 4), ex_listed ''a'' (Some 1), ex_listed ''c'' (Some 3), ex_listed ''b'' (Some 2)],
     [ex_listed ''e'' (Some 5), ex_listed ''a'' (Some 1), ex_listed ''c'' (Some 3), ex_listed ''b'' (Some 2)]]"

theorem pages_deliver_witness:
  "(\<exists>rows. walk_pages (keyset_rows Asc) (row_cursor Asc) 2 None (ex_listings @ [last ex_listings]) = (rows, True) \<and>
     count_list rows (ex_listed ''b'' None) = 1) \<and>
   (\<exists>rows. walk_pages (keyset_date_rows Desc) (row_cursor Desc) 2 None ex_dated = (rows, True) \<and> count_list rows (ex_listed ''a'' (Some 1)) = 1) \<and>
   keyset_date_rows Desc (tl (hd ex_dated)) (Some (row_cursor Desc (hd (hd ex_dated)))) 3 = []"
proof -
  define rows where "rows = [ex_listed ''a'' (Some 1), ex_listed ''c'' (Some 2), ex_listed ''d'' (Some 2), ex_listed ''b'' None, ex_listed ''e'' None]"
  have walk: "walk_pages (keyset_rows Asc) (row_cursor Asc) 2 None (ex_listings @ [last ex_listings]) = (rows, True)"
    unfolding rows_def by code_simp
  have "\<forall>t\<in>set (ex_listings @ [last ex_listings]). distinct (map ls_id t)" by (simp add: ex_listings_def ex_listed_def)
  with walk have "delivered Asc (ex_listings @ [last ex_listings]) rows"
    using pages_deliver [of 2 "ex_listings @ [last ex_listings]" Asc rows, OF zero_less_numeral, THEN conjunct1] by blast
  then have "count_list rows (ex_listed ''b'' None) = 1" by (simp add: delivered_def ex_listings_def)
  moreover define dates where "dates = [ex_listed ''d'' (Some 4), ex_listed ''c'' (Some 3), ex_listed ''b'' (Some 2), ex_listed ''a'' (Some 1)]"
  have dated: "walk_pages (keyset_date_rows Desc) (row_cursor Desc) 2 None ex_dated = (dates, True)" unfolding dates_def by code_simp
  have found: "cursors_found (keyset_date_rows Desc) (row_cursor Desc) (\<lambda>t c. c \<in> set t) 2 None ex_dated" by code_simp
  have "\<forall>t\<in>set ex_dated. dated t" by (simp add: ex_dated_def ex_listed_def dated_def)
  with dated found have "delivered Desc ex_dated dates" using pages_deliver [of 2 ex_dated Desc dates, OF zero_less_numeral, THEN conjunct2, THEN conjunct1] by blast
  then have "count_list dates (ex_listed ''a'' (Some 1)) = 1" by (simp add: delivered_def ex_dated_def)
  moreover have "keyset_date_rows Desc (tl (hd ex_dated)) (Some (row_cursor Desc (hd (hd ex_dated)))) 3 = []" by code_simp
  ultimately show ?thesis using walk dated by blast
qed

theorem merged_pages_exact_witness:
  "walk_pages artifact_rows (row_cursor Desc) 1 None (replicate 3 ([ex_listed ''s'' (Some 5), ex_listed ''t'' (Some 3)], [ex_listed ''f'' (Some 4)])) =
    ([ex_listed ''s'' (Some 5), ex_listed ''f'' (Some 4), ex_listed ''t'' (Some 3)], True)"
proof -
  have "js_sort (page_order Desc) ([ex_listed ''s'' (Some 5), ex_listed ''t'' (Some 3)] @ [ex_listed ''f'' (Some 4)]) =
    [ex_listed ''s'' (Some 5), ex_listed ''f'' (Some 4), ex_listed ''t'' (Some 3)]" by code_simp
  with merged_pages_exact [of 1 "[ex_listed ''s'' (Some 5), ex_listed ''t'' (Some 3)]" "[ex_listed ''f'' (Some 4)]" 3]
  show ?thesis by (simp add: dated_def ex_listed_def)
qed

end
