(* ===== verification/Carryover.thy ===== *)
theory Carryover
  imports Velocity
begin

text \<open>
  The carryover report (\<^verbatim>\<open>carryover.ts\<close>): the events that touch a set of iterations, their direction, the summary, the
  rows, and the hours logged after each event, read off the next snapshot of the same task. Titles, names and
  the dates that are only copied into a row are left out; hours are exact.
\<close>

section \<open>Events\<close>

datatype CarryoverDirection = In_set | Out_set

record StoredCarryoverTask =
  ca_task :: uuid
  ca_estimate :: "num option"
  ca_todo :: "num option"
  ca_actual :: "num option"
  ca_current :: num

record StoredCarryoverEvent =
  ce_id :: uuid
  ce_at :: string
  ce_story :: uuid
  ce_source :: "uuid option"
  ce_target :: "uuid option"
  ce_tasks :: "StoredCarryoverTask list"

record CarryoverSummary =
  cs_in :: nat
  cs_out :: nat
  cs_todo :: num

record CarryoverRow =
  cr_id :: uuid
  cr_direction :: CarryoverDirection
  cr_estimate :: num
  cr_todo :: num
  cr_actualBefore :: num
  cr_actualAfter :: num

definition sum_hours :: "num option list \<Rightarrow> num" where
  "sum_hours xs = roundForDisplay (sum_list (map (case_option 0 (\<lambda>v. v)) xs))"

definition isIn :: "StoredCarryoverEvent \<Rightarrow> uuid set \<Rightarrow> bool" where
  "isIn event ids = (case ce_target event of None \<Rightarrow> False | Some t \<Rightarrow> t \<in> ids)"

definition isOut :: "StoredCarryoverEvent \<Rightarrow> uuid set \<Rightarrow> bool" where
  "isOut event ids = (case ce_source event of None \<Rightarrow> False | Some t \<Rightarrow> t \<in> ids)"

definition involving :: "StoredCarryoverEvent list \<Rightarrow> uuid list \<Rightarrow> StoredCarryoverEvent list" where
  "involving events ids = filter (\<lambda>e. isIn e (set ids) \<or> isOut e (set ids)) events"

definition rowDirection :: "StoredCarryoverEvent \<Rightarrow> uuid set \<Rightarrow> CarryoverDirection" where
  "rowDirection event ids = (if isIn event ids then In_set else Out_set)"

definition summarise :: "StoredCarryoverEvent list \<Rightarrow> uuid list \<Rightarrow> CarryoverSummary option" where
  "summarise events ids =
     (let touched = involving events ids in
      if touched = [] then None
      else Some \<lparr>cs_in = length (filter (\<lambda>e. rowDirection e (set ids) = In_set) touched),
                 cs_out = length (filter (\<lambda>e. rowDirection e (set ids) = Out_set) touched),
                 cs_todo = sum_hours (concat (map (\<lambda>e. map ca_todo (ce_tasks e)) touched))\<rparr>)"

definition compareEvents :: "StoredCarryoverEvent \<Rightarrow> StoredCarryoverEvent \<Rightarrow> int" where
  "compareEvents a b =
     (if ce_at a \<noteq> ce_at b then (if ce_at a < ce_at b then -1 else 1)
      else if ce_id a < ce_id b then -1 else if ce_id b < ce_id a then 1 else 0)"

section \<open>The next snapshot of a task\<close>

definition snapshotKey :: "uuid \<Rightarrow> uuid \<Rightarrow> string" where
  "snapshotKey transitionId taskId = transitionId @ '':'' @ taskId"

definition actual_of :: "StoredCarryoverTask \<Rightarrow> num" where
  "actual_of t = (case ca_actual t of None \<Rightarrow> 0 | Some v \<Rightarrow> v)"

fun index_tasks :: "uuid \<Rightarrow> StoredCarryoverTask list \<Rightarrow> (uuid \<rightharpoonup> num) \<times> (string \<rightharpoonup> num) \<Rightarrow> (uuid \<rightharpoonup> num) \<times> (string \<rightharpoonup> num)" where
  "index_tasks i [] maps = maps"
| "index_tasks i (t # ts) (laterActual, index) =
     index_tasks i ts
       (laterActual(ca_task t \<mapsto> actual_of t),
        case laterActual (ca_task t) of None \<Rightarrow> index | Some later \<Rightarrow> index(snapshotKey i (ca_task t) \<mapsto> later))"

text \<open>From the last event to the first.\<close>

definition snapshot_maps :: "StoredCarryoverEvent list \<Rightarrow> (uuid \<rightharpoonup> num) \<times> (string \<rightharpoonup> num)" where
  "snapshot_maps ordered = fold (\<lambda>e. index_tasks (ce_id e) (ce_tasks e)) (rev ordered) (Map.empty, Map.empty)"

definition nextSnapshotIndex :: "StoredCarryoverEvent list \<Rightarrow> string \<rightharpoonup> num" where
  "nextSnapshotIndex allEvents = snd (snapshot_maps (js_sort compareEvents allEvents))"

definition logged_after :: "(string \<rightharpoonup> num) \<Rightarrow> uuid \<Rightarrow> StoredCarryoverTask \<Rightarrow> num" where
  "logged_after index i t =
     max 0 ((case index (snapshotKey i (ca_task t)) of None \<Rightarrow> ca_current t | Some later \<Rightarrow> later) - actual_of t)"

definition actualAfter :: "StoredCarryoverEvent \<Rightarrow> (string \<rightharpoonup> num) \<Rightarrow> num" where
  "actualAfter event index = roundForDisplay (sum_list (map (logged_after index (ce_id event)) (ce_tasks event)))"

definition buildCarryoverRows :: "StoredCarryoverEvent list \<Rightarrow> uuid list \<Rightarrow> CarryoverDirection option \<Rightarrow> CarryoverRow list" where
  "buildCarryoverRows allEvents iterationIds direction =
     (let ids = set iterationIds; index = nextSnapshotIndex allEvents in
      map (\<lambda>e. \<lparr>cr_id = ce_id e, cr_direction = rowDirection e ids,
                cr_estimate = sum_hours (map ca_estimate (ce_tasks e)), cr_todo = sum_hours (map ca_todo (ce_tasks e)),
                cr_actualBefore = sum_hours (map ca_actual (ce_tasks e)), cr_actualAfter = actualAfter e index\<rparr>)
        (filter (\<lambda>e. direction = None \<or> Some (rowDirection e ids) = direction)
          (js_sort compareEvents (involving allEvents iterationIds))))"

text \<open>A percentage with one decimal.\<close>

definition carryoverRate :: "StoredCarryoverEvent list \<Rightarrow> uuid list \<Rightarrow> uuid list \<Rightarrow> num" where
  "carryoverRate events iterationIds scheduledStoryIds =
     (let affected = set (map ce_story (involving events iterationIds));
          denominator = set scheduledStoryIds \<union> affected
      in if card denominator = 0 then 0
         else of_int (math_round (of_nat (card affected) / of_nat (card denominator) * 100 * 10)) / 10)"

record CarryoverTrendPoint =
  ct_iteration :: uuid
  ct_in :: nat
  ct_out :: nat

definition buildTrend :: "StoredCarryoverEvent list \<Rightarrow> uuid list \<Rightarrow> CarryoverTrendPoint list" where
  "buildTrend events its =
     map (\<lambda>i. \<lparr>ct_iteration = i, ct_in = length (filter (\<lambda>e. ce_target e = Some i) events),
               ct_out = length (filter (\<lambda>e. ce_source e = Some i) events)\<rparr>) its"

section \<open>The order of the events\<close>

interpretation by_event: js_keyed_order compareEvents ce_id
  by unfold_locales (auto simp: compareEvents_def split: if_splits)

lemma snapshot_maps_Cons: "snapshot_maps (e # es) = index_tasks (ce_id e) (ce_tasks e) (snapshot_maps es)"
  by (simp add: snapshot_maps_def)

lemma snapshot_maps_Nil: "snapshot_maps [] = (Map.empty, Map.empty)"
  by (simp add: snapshot_maps_def)

text \<open>One event: every task of it is given its next snapshot, and becomes the next snapshot.\<close>

lemma index_tasks_later:
  "distinct (map ca_task ts) \<Longrightarrow>
     fst (index_tasks i ts m) x = (case find (\<lambda>t. ca_task t = x) ts of None \<Rightarrow> fst m x | Some t \<Rightarrow> Some (actual_of t))"
proof (induction ts arbitrary: m)
  case (Cons t ts)
  have none: "ca_task t = x \<Longrightarrow> find (\<lambda>t. ca_task t = x) ts = None" using Cons.prems unfolding find_None_iff by (auto simp: rev_image_eqI)
  show ?case using Cons none by (cases m) (auto split: option.splits)
qed (cases m, simp)

lemma snapshotKey_inj: "CHR '':'' \<notin> set i \<Longrightarrow> CHR '':'' \<notin> set j \<Longrightarrow> snapshotKey i x = snapshotKey j y \<longleftrightarrow> i = j \<and> x = y"
proof -
  assume i: "CHR '':'' \<notin> set i" and j: "CHR '':'' \<notin> set j"
  have "takeWhile (\<lambda>c. c \<noteq> CHR '':'') (snapshotKey k z) = k" if "CHR '':'' \<notin> set k" for k z
    using that by (induction k) (auto simp: snapshotKey_def)
  with i j show ?thesis by (metis append_same_eq same_append_eq snapshotKey_def)
qed

lemma index_tasks_key:
  assumes "CHR '':'' \<notin> set i" "CHR '':'' \<notin> set j"
  shows "distinct (map ca_task ts) \<Longrightarrow>
     snd (index_tasks i ts m) (snapshotKey j x) =
       (if i = j \<and> x \<in> ca_task ` set ts \<and> fst m x \<noteq> None then fst m x else snd m (snapshotKey j x))"
proof (induction ts arbitrary: m)
  case (Cons t ts)
  obtain l k where m: "m = (l, k)" by fastforce
  show ?case using Cons.prems unfolding m
    by (auto simp: Cons.IH snapshotKey_inj [OF assms(2,1)] snapshotKey_inj [OF assms(1,2)] split: option.splits)
qed (cases m, simp)

section \<open>No hour twice\<close>

text \<open>The snapshots of a task over events in their order.\<close>

definition snapshot_in :: "uuid \<Rightarrow> StoredCarryoverEvent \<Rightarrow> num option" where
  "snapshot_in x e = map_option actual_of (find (\<lambda>t. ca_task t = x) (ce_tasks e))"

definition snapshots :: "uuid \<Rightarrow> StoredCarryoverEvent list \<Rightarrow> num list" where
  "snapshots x es = List.map_filter (snapshot_in x) es"

definition tidy :: "StoredCarryoverEvent \<Rightarrow> bool" where
  "tidy e \<longleftrightarrow> distinct (map ca_task (ce_tasks e)) \<and> CHR '':'' \<notin> set (ce_id e)"

lemma later_is_first:
  "\<forall>e\<in>set es. tidy e \<Longrightarrow> fst (snapshot_maps es) x = (case snapshots x es of [] \<Rightarrow> None | v # _ \<Rightarrow> Some v)"
proof (induction es)
  case (Cons e es)
  then show ?case
    by (auto simp: snapshot_maps_Cons index_tasks_later tidy_def snapshots_def snapshot_in_def map_filter_simps split: option.splits)
qed (simp add: snapshot_maps_Nil snapshots_def map_filter_simps)

lemma key_of_other:
  assumes "\<forall>e\<in>set es. tidy e" "CHR '':'' \<notin> set j" "j \<notin> ce_id ` set es"
  shows "snd (snapshot_maps es) (snapshotKey j x) = None"
  using assms
proof (induction es)
  case (Cons e es)
  then have "distinct (map ca_task (ce_tasks e))" "CHR '':'' \<notin> set (ce_id e)" by (simp_all add: tidy_def)
  from index_tasks_key [OF this(2) Cons.prems(2) this(1)] Cons show ?case by (auto simp: snapshot_maps_Cons)
qed (simp add: snapshot_maps_Nil)

text \<open>The bound on the hours of a task after the first event is its next snapshot, or its present hours.\<close>

lemma logged_after_first:
  assumes "\<forall>e\<in>set (e # es). tidy e" "distinct (map ce_id (e # es))" "t \<in> set (ce_tasks e)"
  shows "logged_after (snd (snapshot_maps (e # es))) (ce_id e) t =
    max 0 ((case snapshots (ca_task t) es of [] \<Rightarrow> ca_current t | v # _ \<Rightarrow> v) - actual_of t)"
proof -
  have e: "distinct (map ca_task (ce_tasks e))" "CHR '':'' \<notin> set (ce_id e)" using assms(1) by (simp_all add: tidy_def)
  have "snd (snapshot_maps (e # es)) (snapshotKey (ce_id e) (ca_task t)) = fst (snapshot_maps es) (ca_task t)"
    using index_tasks_key [OF e(2,2,1), of "snapshot_maps es" "ca_task t"] key_of_other [of es "ce_id e" "ca_task t"] assms e
    by (auto simp: snapshot_maps_Cons)
  then show ?thesis using assms(1) by (simp add: logged_after_def later_is_first split: list.split)
qed

lemma logged_after_rest:
  assumes "\<forall>d\<in>set (e # es). tidy d" "distinct (map ce_id (e # es))" "d \<in> set es"
  shows "logged_after (snd (snapshot_maps (e # es))) (ce_id d) t = logged_after (snd (snapshot_maps es)) (ce_id d) t"
proof -
  have e: "distinct (map ca_task (ce_tasks e))" "CHR '':'' \<notin> set (ce_id e)" "CHR '':'' \<notin> set (ce_id d)" "ce_id e \<noteq> ce_id d"
    using assms by (auto simp: tidy_def)
  from index_tasks_key [OF e(2,3,1), of "snapshot_maps es" "ca_task t"] e(4) show ?thesis
    by (simp add: logged_after_def snapshot_maps_Cons)
qed

definition tasks_in :: "StoredCarryoverEvent list \<Rightarrow> uuid set" where
  "tasks_in es = (\<Union>e\<in>set es. ca_task ` set (ce_tasks e))"

text \<open>The present hours of a task are the same in every event that lists it.\<close>

definition present_hours :: "(uuid \<Rightarrow> num) \<Rightarrow> StoredCarryoverEvent list \<Rightarrow> bool" where
  "present_hours current es \<longleftrightarrow> (\<forall>e\<in>set es. \<forall>t\<in>set (ce_tasks e). ca_current t = current (ca_task t))"

text \<open>What a reading gains from one value to the next, a fall counting as nothing.\<close>

fun gains :: "num list \<Rightarrow> num" where
  "gains (x # y # xs) = max 0 (y - x) + gains (y # xs)"
| "gains _ = 0"

lemma gains_sorted: "sorted (x # xs) \<Longrightarrow> gains (x # xs) = last (x # xs) - x"
proof (induction xs arbitrary: x)
  case (Cons y ys)
  then show ?case using Cons.IH [of y] by simp
qed simp

lemma snapshots_Cons: "snapshots x (e # es) = (case snapshot_in x e of None \<Rightarrow> snapshots x es | Some v \<Rightarrow> v # snapshots x es)"
  by (simp add: snapshots_def map_filter_simps split: option.split)

lemma snapshots_empty: "snapshots x es = [] \<longleftrightarrow> x \<notin> tasks_in es"
proof (induction es)
  case (Cons e es)
  have "snapshot_in x e = None \<longleftrightarrow> x \<notin> ca_task ` set (ce_tasks e)" by (auto simp: snapshot_in_def find_None_iff)
  with Cons show ?case by (auto simp: snapshots_Cons tasks_in_def split: option.splits)
qed (simp add: snapshots_def tasks_in_def map_filter_simps)

lemma snapshot_of_task: "distinct (map ca_task (ce_tasks e)) \<Longrightarrow> t \<in> set (ce_tasks e) \<Longrightarrow> snapshot_in (ca_task t) e = Some (actual_of t)"
proof -
  have "distinct (map ca_task ts) \<Longrightarrow> t \<in> set ts \<Longrightarrow> find (\<lambda>u. ca_task u = ca_task t) ts = Some t" for ts
    by (induction ts) auto
  then show "distinct (map ca_task (ce_tasks e)) \<Longrightarrow> t \<in> set (ce_tasks e) \<Longrightarrow> ?thesis" by (simp add: snapshot_in_def)
qed

lemma sum_tasks: "distinct (map ca_task ts) \<Longrightarrow> sum_list (map f ts) = sum f (set ts)"
  by (rule sum_list_distinct_conv_sum_set) (simp add: distinct_map)

text \<open>What each task is given over all its events adds up to what its hours gained since the first of them.\<close>

lemma gains_Cons:
  "gains (snapshots x (e # es) @ [c]) = gains (snapshots x es @ [c]) +
     (case snapshot_in x e of None \<Rightarrow> 0 | Some v \<Rightarrow> max 0 ((case snapshots x es of [] \<Rightarrow> c | w # _ \<Rightarrow> w) - v))"
  by (cases "snapshots x es") (simp_all add: snapshots_Cons split: option.split)

lemma sum_event_tasks:
  assumes "distinct (map ca_task (ce_tasks e))" "finite A" "ca_task ` set (ce_tasks e) \<subseteq> A"
  shows "sum_list (map (\<lambda>t. f (ca_task t) (actual_of t)) (ce_tasks e)) =
    (\<Sum>x\<in>A. case snapshot_in x e of None \<Rightarrow> 0 | Some v \<Rightarrow> f x v)"
proof -
  let ?T = "ca_task ` set (ce_tasks e)"
  have "sum_list (map (\<lambda>t. f (ca_task t) (actual_of t)) (ce_tasks e)) =
      (\<Sum>t\<in>set (ce_tasks e). case snapshot_in (ca_task t) e of None \<Rightarrow> 0 | Some v \<Rightarrow> f (ca_task t) v)"
    using snapshot_of_task [OF assms(1)] by (simp add: sum_tasks [OF assms(1)])
  also have "\<dots> = (\<Sum>x\<in>?T. case snapshot_in x e of None \<Rightarrow> 0 | Some v \<Rightarrow> f x v)"
    using assms(1) by (simp add: sum.reindex distinct_map)
  also have "\<dots> = (\<Sum>x\<in>A. case snapshot_in x e of None \<Rightarrow> 0 | Some v \<Rightarrow> f x v)"
  proof (rule sum.mono_neutral_left [OF assms(2,3)])
    show "\<forall>x\<in>A - ?T. (case snapshot_in x e of None \<Rightarrow> 0 | Some v \<Rightarrow> f x v) = 0"
    proof
      fix x assume "x \<in> A - ?T"
      then have "snapshot_in x e = None" by (auto simp: snapshot_in_def find_None_iff)
      then show "(case snapshot_in x e of None \<Rightarrow> 0 | Some v \<Rightarrow> f x v) = 0" by simp
    qed
  qed
  finally show ?thesis .
qed

lemma logged_telescopes:
  assumes "\<forall>e\<in>set es. tidy e" "distinct (map ce_id es)" "present_hours current es" "finite A" "tasks_in es \<subseteq> A"
  shows "sum_list (map (\<lambda>e. sum_list (map (logged_after (snd (snapshot_maps es)) (ce_id e)) (ce_tasks e))) es) =
    (\<Sum>x\<in>A. gains (snapshots x es @ [current x]))"
  using assms(1-3,5)
proof (induction es)
  case (Cons e es)
  have e: "distinct (map ca_task (ce_tasks e))" using Cons.prems(1) by (simp add: tidy_def)
  note first = logged_after_first [OF Cons.prems(1,2)] and rest = logged_after_rest [OF Cons.prems(1,2)]
  let ?f = "\<lambda>x v. max 0 ((case snapshots x es of [] \<Rightarrow> current x | w # _ \<Rightarrow> w) - v)"
  have mapped: "map (logged_after (snd (snapshot_maps (e # es))) (ce_id e)) (ce_tasks e) = map (\<lambda>t. ?f (ca_task t) (actual_of t)) (ce_tasks e)"
    using first Cons.prems(3) by (intro map_cong) (simp_all add: present_hours_def split: list.split)
  have "ca_task ` set (ce_tasks e) \<subseteq> A" using Cons.prems(4) by (auto simp: tasks_in_def)
  then have here: "sum_list (map (logged_after (snd (snapshot_maps (e # es))) (ce_id e)) (ce_tasks e)) =
      (\<Sum>x\<in>A. case snapshot_in x e of None \<Rightarrow> 0 | Some v \<Rightarrow> ?f x v)" unfolding mapped by (rule sum_event_tasks [OF e assms(4)])
  have same: "map (\<lambda>d. sum_list (map (logged_after (snd (snapshot_maps (e # es))) (ce_id d)) (ce_tasks d))) es =
      map (\<lambda>d. sum_list (map (logged_after (snd (snapshot_maps es)) (ce_id d)) (ce_tasks d))) es"
    using rest by (intro map_cong refl) (simp cong: map_cong)
  have "tasks_in es \<subseteq> A" "present_hours current es" using Cons.prems(3,4) by (auto simp: tasks_in_def present_hours_def)
  with Cons.IH Cons.prems(1,2)
  have later: "sum_list (map (\<lambda>d. sum_list (map (logged_after (snd (snapshot_maps (e # es))) (ce_id d)) (ce_tasks d))) es) =
      (\<Sum>x\<in>A. gains (snapshots x es @ [current x]))" unfolding same by simp
  show ?case unfolding gains_Cons sum.distrib using here later by simp
qed (simp add: snapshots_def map_filter_simps)

definition whole_hours :: "StoredCarryoverEvent \<Rightarrow> bool" where
  "whole_hours e \<longleftrightarrow> (\<forall>t\<in>set (ce_tasks e). hundredths (actual_of t) \<and> hundredths (ca_current t))"

definition whole_maps :: "(uuid \<rightharpoonup> num) \<times> (string \<rightharpoonup> num) \<Rightarrow> bool" where
  "whole_maps m \<longleftrightarrow> (\<forall>x v. fst m x = Some v \<longrightarrow> hundredths v) \<and> (\<forall>x v. snd m x = Some v \<longrightarrow> hundredths v)"

lemma index_tasks_whole: "\<forall>t\<in>set ts. hundredths (actual_of t) \<Longrightarrow> whole_maps m \<Longrightarrow> whole_maps (index_tasks i ts m)"
proof (induction ts arbitrary: m)
  case (Cons t ts)
  obtain l k where m: "m = (l, k)" by fastforce
  have "whole_maps (l(ca_task t \<mapsto> actual_of t), case l (ca_task t) of None \<Rightarrow> k | Some later \<Rightarrow> k(snapshotKey i (ca_task t) \<mapsto> later))"
    using Cons.prems unfolding m whole_maps_def by (cases "l (ca_task t)") simp_all
  with Cons m show ?case by simp
qed simp

lemma snapshot_maps_whole: "\<forall>e\<in>set es. whole_hours e \<Longrightarrow> whole_maps (snapshot_maps es)"
proof (induction es)
  case (Cons e es)
  then show ?case unfolding snapshot_maps_Cons by (intro index_tasks_whole) (simp_all add: whole_hours_def)
qed (simp add: snapshot_maps_Nil whole_maps_def)

lemma actualAfter_exact:
  assumes "\<forall>e\<in>set es. whole_hours e" "e \<in> set es"
  shows "actualAfter e (snd (snapshot_maps es)) = sum_list (map (logged_after (snd (snapshot_maps es)) (ce_id e)) (ce_tasks e))"
proof -
  have "hundredths (logged_after (snd (snapshot_maps es)) (ce_id e) t)" if t: "t \<in> set (ce_tasks e)" for t
  proof -
    have "hundredths (actual_of t)" "hundredths (ca_current t)" using assms t by (auto simp: whole_hours_def)
    moreover have "hundredths v" if "snd (snapshot_maps es) k = Some v" for k v
      using snapshot_maps_whole [OF assms(1)] that by (simp add: whole_maps_def)
    ultimately show ?thesis unfolding logged_after_def by (auto simp: max_def hundredths_diff split: option.splits)
  qed
  then show ?thesis unfolding actualAfter_def by (intro roundForDisplay_hundredths hundredths_sum_list) auto
qed

text \<open>C21: Over all the carryovers of a project the hours shown as logged after them add up, task by task, to what
  the hours of the task gained from one carryover to the next and from the last one to the present, a fall
  counting as nothing; so a task whose hours never fell is shown exactly the hours logged since its first
  carryover, none of them after two carryovers and none lost. The hours are whole hundredths, and the present
  hours of a task are the same in every event.\<close>

theorem actual_after_telescopes:
  assumes "distinct (map ce_id events)" and "\<forall>e\<in>set events. tidy e \<and> whole_hours e"
    and ordered: "ordered = js_sort compareEvents events" and "present_hours current events"
  shows "sum_list (map (\<lambda>e. actualAfter e (nextSnapshotIndex events)) ordered) =
      (\<Sum>x\<in>tasks_in ordered. gains (snapshots x ordered @ [current x])) \<and>
    (\<forall>x\<in>tasks_in ordered. sorted (snapshots x ordered @ [current x]) \<longrightarrow>
      gains (snapshots x ordered @ [current x]) = current x - hd (snapshots x ordered))"
proof
  have es: "\<forall>e\<in>set ordered. tidy e" "\<forall>e\<in>set ordered. whole_hours e" "present_hours current ordered"
    using assms(2,4) unfolding ordered present_hours_def by auto
  have ids: "distinct (map ce_id ordered)" using assms(1) distinct_map_mset [OF mset_js_sort] unfolding ordered by blast
  have same: "map (\<lambda>e. actualAfter e (nextSnapshotIndex events)) ordered =
      map (\<lambda>e. sum_list (map (logged_after (snd (snapshot_maps ordered)) (ce_id e)) (ce_tasks e))) ordered"
    using actualAfter_exact [OF es(2)] by (intro map_cong) (simp_all add: nextSnapshotIndex_def ordered)
  have fin: "finite (tasks_in ordered)" by (simp add: tasks_in_def)
  show "sum_list (map (\<lambda>e. actualAfter e (nextSnapshotIndex events)) ordered) =
      (\<Sum>x\<in>tasks_in ordered. gains (snapshots x ordered @ [current x]))"
    unfolding arg_cong [OF same, of sum_list] by (rule logged_telescopes [OF es(1) ids es(3) fin order_refl])
  show "\<forall>x\<in>tasks_in ordered. sorted (snapshots x ordered @ [current x]) \<longrightarrow>
      gains (snapshots x ordered @ [current x]) = current x - hd (snapshots x ordered)"
  proof (intro ballI impI)
    fix x assume x: "x \<in> tasks_in ordered" "sorted (snapshots x ordered @ [current x])"
    then obtain v vs where v: "snapshots x ordered = v # vs" using snapshots_empty [of x ordered] by (cases "snapshots x ordered") auto
    show "gains (snapshots x ordered @ [current x]) = current x - hd (snapshots x ordered)"
      using gains_sorted [of v "vs @ [current x]"] x(2) by (simp add: v)
  qed
qed

text \<open>A task at 7 hours when it is first carried over, corrected to 3 the second time, and at 10 now.\<close>

definition ex_carried :: "uuid \<Rightarrow> string \<Rightarrow> num \<Rightarrow> StoredCarryoverEvent" where
  "ex_carried i at' v = \<lparr>ce_id = i, ce_at = at', ce_story = ''S'', ce_source = Some ''1'', ce_target = Some ''2'',
     ce_tasks = [\<lparr>ca_task = ''T'', ca_estimate = None, ca_todo = Some 1, ca_actual = Some v, ca_current = 10\<rparr>]\<rparr>"

definition ex_events :: "num list \<Rightarrow> StoredCarryoverEvent list" where
  "ex_events vs = [ex_carried ''b'' ''2026-02-01'' (vs ! 1), ex_carried ''a'' ''2026-01-01'' (vs ! 0)]"

lemma whole_numeral: "hundredths (numeral n)"
  unfolding hundredths_def by (rule exI [of _ "numeral n * 100"]) simp

theorem actual_after_telescopes_witness:
  "sum_list (map (\<lambda>e. actualAfter e (nextSnapshotIndex (ex_events [3, 7]))) (js_sort compareEvents (ex_events [3, 7]))) = 7 \<and>
   sum_list (map (\<lambda>e. actualAfter e (nextSnapshotIndex (ex_events [7, 3]))) (js_sort compareEvents (ex_events [7, 3]))) = 7"
proof -
  have ordered: "js_sort compareEvents (ex_events [3, 7]) = [ex_carried ''a'' ''2026-01-01'' 3, ex_carried ''b'' ''2026-02-01'' 7]"
    "js_sort compareEvents (ex_events [7, 3]) = [ex_carried ''a'' ''2026-01-01'' 7, ex_carried ''b'' ''2026-02-01'' 3]" by code_simp+
  have ok: "\<forall>e\<in>set (ex_events vs). tidy e \<and> whole_hours e" "present_hours (\<lambda>_. 10) (ex_events vs)" "distinct (map ce_id (ex_events vs))"
    if "\<forall>v\<in>{vs ! 0, vs ! 1}. hundredths v" for vs
    using that by (auto simp: ex_events_def ex_carried_def tidy_def whole_hours_def actual_of_def whole_numeral present_hours_def)
  have vs: "\<forall>v\<in>{[3, 7] ! 0, [3, 7 :: num] ! 1}. hundredths v" "\<forall>v\<in>{[7, 3] ! 0, [7, 3 :: num] ! 1}. hundredths v"
    by (simp_all add: whole_numeral)
  show ?thesis
    using actual_after_telescopes [OF ok(3,1) refl ok(2), OF vs(1) vs(1) vs(1), THEN conjunct1]
      actual_after_telescopes [OF ok(3,1) refl ok(2), OF vs(2) vs(2) vs(2), THEN conjunct1]
    unfolding ordered by (simp add: tasks_in_def ex_carried_def snapshots_def snapshot_in_def map_filter_simps actual_of_def)
qed

section \<open>Directions\<close>

text \<open>Every event that touches the iterations is one row, in or out; the summary counts the rows; the rate is a percentage.\<close>

lemma directions_partition:
  "length (buildCarryoverRows events ids None) =
     length (buildCarryoverRows events ids (Some In_set)) + length (buildCarryoverRows events ids (Some Out_set))"
proof -
  have "length xs = length (filter (\<lambda>e. rowDirection e (set ids) = In_set) xs) + length (filter (\<lambda>e. rowDirection e (set ids) = Out_set) xs)" for xs
    by (induction xs) (auto simp: rowDirection_def)
  from this [of "js_sort compareEvents (involving events ids)"] show ?thesis
    unfolding buildCarryoverRows_def Let_def length_map by (simp add: eq_commute [of _ "rowDirection _ _"])
qed

lemma summary_counts_rows:
  assumes "summarise events ids = Some s"
  shows "cs_in s = length (buildCarryoverRows events ids (Some In_set)) \<and> cs_out s = length (buildCarryoverRows events ids (Some Out_set))"
proof -
  have "length (filter P (js_sort cmp xs)) = length (filter P xs)" for P and cmp :: "StoredCarryoverEvent \<Rightarrow> StoredCarryoverEvent \<Rightarrow> int" and xs
    by (metis mset_filter mset_js_sort size_mset)
  with assms show ?thesis by (auto simp: summarise_def buildCarryoverRows_def Let_def split: if_splits)
qed

lemma rate_is_percentage: "0 \<le> carryoverRate events ids scheduled \<and> carryoverRate events ids scheduled \<le> 100"
proof -
  let ?a = "set (map ce_story (involving events ids))" and ?d = "set scheduled \<union> set (map ce_story (involving events ids))"
  have "card ?a \<le> card ?d" by (intro card_mono) auto
  then have r: "0 \<le> (of_nat (card ?a) / of_nat (card ?d) :: num)" "of_nat (card ?a) / of_nat (card ?d) \<le> (1 :: num)"
    by (auto simp: divide_le_eq_1 card_gt_0_iff)
  have "0 \<le> math_round (of_nat (card ?a) / of_nat (card ?d) * 100 * 10)"
    using math_round_mono [of 0 "of_nat (card ?a) / of_nat (card ?d) * 100 * 10"] math_round_of_int [of 0] r(1) by simp
  moreover have "math_round (of_nat (card ?a) / of_nat (card ?d) * 100 * 10) \<le> 1000"
    using math_round_mono [of "of_nat (card ?a) / of_nat (card ?d) * 100 * 10" 1000] math_round_of_int [of 1000] r(2) by simp
  ultimately show ?thesis unfolding carryoverRate_def Let_def by (auto simp: divide_le_eq)
qed

end
