(* ===== verification/TeamCapacity.thy ===== *)
theory TeamCapacity
  imports Velocity "HOL-Library.AList"
begin

text \<open>
  The team capacity report (\<^verbatim>\<open>team-capacity.ts\<close>): the hours of a task one iteration may claim, and the roll-up of
  capacities and task hours into teams and members. A JS map in insertion order is an association list; hours
  are exact; \<open>lc\<close> is \<^verbatim>\<open>localeCompare\<close>.
\<close>

section \<open>Hours\<close>

record TeamCapacityHours =
  th_capacity :: num
  th_estimate :: num
  th_todo :: num
  th_actual :: num

definition ZERO :: TeamCapacityHours where
  "ZERO = \<lparr>th_capacity = 0, th_estimate = 0, th_todo = 0, th_actual = 0\<rparr>"

definition add_hours :: "TeamCapacityHours \<Rightarrow> TeamCapacityHours \<Rightarrow> TeamCapacityHours" where
  "add_hours a b = \<lparr>th_capacity = th_capacity a + th_capacity b, th_estimate = th_estimate a + th_estimate b,
                    th_todo = th_todo a + th_todo b, th_actual = th_actual a + th_actual b\<rparr>"

definition round_hours :: "TeamCapacityHours \<Rightarrow> TeamCapacityHours" where
  "round_hours h = \<lparr>th_capacity = roundForDisplay (th_capacity h), th_estimate = roundForDisplay (th_estimate h),
                    th_todo = roundForDisplay (th_todo h), th_actual = roundForDisplay (th_actual h)\<rparr>"

record TaskActualWindow =
  aw_actual :: num
  aw_arrival :: "num option"
  aw_departure :: "num option"

definition attributeActualHours :: "TaskActualWindow \<Rightarrow> num" where
  "attributeActualHours w =
     max 0 ((case aw_departure w of None \<Rightarrow> aw_actual w | Some v \<Rightarrow> v) - (case aw_arrival w of None \<Rightarrow> 0 | Some v \<Rightarrow> v))"

section \<open>The roll-up\<close>

record CapacityRecord =
  rc_team :: uuid
  rc_teamName :: string
  rc_archived :: bool
  rc_member :: uuid
  rc_memberName :: string
  rc_hours :: num

record ScopedTaskHours =
  ts_task :: uuid
  ts_team :: "uuid option"
  ts_teamName :: "string option"
  ts_archived :: bool
  ts_owner :: "uuid option"
  ts_ownerName :: "string option"
  ts_estimate :: num
  ts_todo :: num
  ts_actual :: num

record TeamCapacityMemberRow =
  tm_id :: "uuid option"
  tm_name :: string
  tm_hours :: TeamCapacityHours

record bucket =
  bu_id :: "uuid option"
  bu_name :: string
  bu_archived :: bool
  bu_members :: "(string \<times> TeamCapacityMemberRow) list"

record TeamCapacityTeamRow =
  tt_id :: "uuid option"
  tt_name :: string
  tt_archived :: bool
  tt_totals :: TeamCapacityHours
  tt_members :: "TeamCapacityMemberRow list"

record TeamCapacityRollup =
  tr_totals :: TeamCapacityHours
  tr_teams :: "TeamCapacityTeamRow list"

definition UNASSIGNED_LABEL :: string where
  "UNASSIGNED_LABEL = ''Unassigned''"

definition NO_TEAM_LABEL :: string where
  "NO_TEAM_LABEL = ''No Team''"

text \<open>The bucket of a team, found or created, and the row of a member in it; \<open>f\<close>: what is done to it.\<close>

definition on_team :: "uuid option \<Rightarrow> string \<Rightarrow> bool \<Rightarrow> (bucket \<Rightarrow> bucket) \<Rightarrow> (string \<times> bucket) list \<Rightarrow> (string \<times> bucket) list" where
  "on_team i name archived f teams =
     (let key = (case i of None \<Rightarrow> NO_TEAM_LABEL | Some t \<Rightarrow> t) in
      AList.update key
        (f (case map_of teams key of
              Some b \<Rightarrow> b\<lparr>bu_archived := bu_archived b \<or> archived\<rparr>
            | None \<Rightarrow> \<lparr>bu_id = i, bu_name = name, bu_archived = archived, bu_members = []\<rparr>)) teams)"

definition on_member :: "string \<Rightarrow> uuid option \<Rightarrow> string \<Rightarrow> TeamCapacityHours \<Rightarrow> bucket \<Rightarrow> bucket" where
  "on_member key i name h b =
     (let row = (case map_of (bu_members b) key of Some r \<Rightarrow> r | None \<Rightarrow> \<lparr>tm_id = i, tm_name = name, tm_hours = ZERO\<rparr>) in
      b\<lparr>bu_members := AList.update key (row\<lparr>tm_hours := add_hours (tm_hours row) h\<rparr>) (bu_members b)\<rparr>)"

definition record_hours :: "CapacityRecord \<Rightarrow> TeamCapacityHours" where
  "record_hours r = ZERO\<lparr>th_capacity := rc_hours r\<rparr>"

definition task_claim :: "ScopedTaskHours \<Rightarrow> TeamCapacityHours" where
  "task_claim t = \<lparr>th_capacity = 0, th_estimate = ts_estimate t, th_todo = ts_todo t, th_actual = ts_actual t\<rparr>"

definition add_record :: "CapacityRecord \<Rightarrow> (string \<times> bucket) list \<Rightarrow> (string \<times> bucket) list" where
  "add_record r =
     on_team (Some (rc_team r)) (rc_teamName r) (rc_archived r)
       (on_member (rc_member r) (Some (rc_member r)) (rc_memberName r) (record_hours r))"

definition add_task :: "ScopedTaskHours \<Rightarrow> (string \<times> bucket) list \<Rightarrow> (string \<times> bucket) list" where
  "add_task t =
     on_team (ts_team t) (case ts_teamName t of None \<Rightarrow> NO_TEAM_LABEL | Some n \<Rightarrow> n) (ts_archived t)
       (case (ts_owner t, ts_ownerName t) of
          (Some i, Some n) \<Rightarrow> on_member i (Some i) n (task_claim t)
        | _ \<Rightarrow> on_member UNASSIGNED_LABEL None UNASSIGNED_LABEL (task_claim t))"

fun add_tasks :: "uuid set \<Rightarrow> ScopedTaskHours list \<Rightarrow> (string \<times> bucket) list \<Rightarrow> (string \<times> bucket) list" where
  "add_tasks seenTasks [] teams = teams"
| "add_tasks seenTasks (t # ts) teams =
     (if ts_task t \<in> seenTasks then add_tasks seenTasks ts teams
      else add_tasks (insert (ts_task t) seenTasks) ts (add_task t teams))"

text \<open>The row without an id comes last.\<close>

definition sortMembers :: "(string \<Rightarrow> string \<Rightarrow> int) \<Rightarrow> TeamCapacityMemberRow \<Rightarrow> TeamCapacityMemberRow \<Rightarrow> int" where
  "sortMembers lc a b = (if tm_id a = None then 1 else if tm_id b = None then -1 else lc (tm_name a) (tm_name b))"

definition sortTeams :: "(string \<Rightarrow> string \<Rightarrow> int) \<Rightarrow> TeamCapacityTeamRow \<Rightarrow> TeamCapacityTeamRow \<Rightarrow> int" where
  "sortTeams lc a b = (if tt_id a = None then 1 else if tt_id b = None then -1 else lc (tt_name a) (tt_name b))"

definition rollup_row :: "(string \<Rightarrow> string \<Rightarrow> int) \<Rightarrow> bucket \<Rightarrow> TeamCapacityTeamRow" where
  "rollup_row lc b =
     (let rows = js_sort (sortMembers lc) (map snd (bu_members b)) in
      \<lparr>tt_id = bu_id b, tt_name = bu_name b, tt_archived = bu_archived b,
       tt_totals = round_hours (foldl add_hours ZERO (map tm_hours rows)),
       tt_members = map (\<lambda>m. m\<lparr>tm_hours := round_hours (tm_hours m)\<rparr>) rows\<rparr>)"

definition team_buckets :: "CapacityRecord list \<Rightarrow> ScopedTaskHours list \<Rightarrow> (string \<times> bucket) list" where
  "team_buckets capacities tasks' = add_tasks {} tasks' (fold add_record capacities [])"

definition rollUpTeamCapacity :: "(string \<Rightarrow> string \<Rightarrow> int) \<Rightarrow> CapacityRecord list \<Rightarrow> ScopedTaskHours list \<Rightarrow> TeamCapacityRollup" where
  "rollUpTeamCapacity lc capacities tasks' =
     (let teamRows = js_sort (sortTeams lc) (map (rollup_row lc) (map snd (team_buckets capacities tasks')))
      in \<lparr>tr_totals = round_hours (foldl add_hours ZERO (map tt_totals teamRows)), tr_teams = teamRows\<rparr>)"

definition describeEmptiness :: "TeamCapacityRollup \<Rightarrow> bool \<times> bool" where
  "describeEmptiness r =
     (0 < th_capacity (tr_totals r), 0 < th_estimate (tr_totals r) \<or> 0 < th_todo (tr_totals r) \<or> 0 < th_actual (tr_totals r))"

section \<open>The hours of a task over its iterations\<close>

text \<open>The windows of a task that was carried over at the snapshots \<open>vs\<close>, starting from an arrival.\<close>

fun windows :: "num \<Rightarrow> num option \<Rightarrow> num list \<Rightarrow> TaskActualWindow list" where
  "windows now arrival [] = [\<lparr>aw_actual = now, aw_arrival = arrival, aw_departure = None\<rparr>]"
| "windows now arrival (v # vs) = \<lparr>aw_actual = now, aw_arrival = arrival, aw_departure = Some v\<rparr> # windows now (Some v) vs"

lemma windows_sum:
  "sorted ((case arrival of None \<Rightarrow> 0 | Some a \<Rightarrow> a) # vs @ [now]) \<Longrightarrow>
     sum_list (map attributeActualHours (windows now arrival vs)) = now - (case arrival of None \<Rightarrow> 0 | Some a \<Rightarrow> a)"
  by (induction vs arbitrary: arrival) (auto simp: attributeActualHours_def split: option.splits)

section \<open>What a step adds\<close>

text \<open>A field of the hours.\<close>

definition additive :: "(TeamCapacityHours \<Rightarrow> num) \<Rightarrow> bool" where
  "additive f \<longleftrightarrow> f \<in> {th_capacity, th_estimate, th_todo, th_actual}"

lemma additive_simps: "additive f \<Longrightarrow> f ZERO = 0 \<and> f (add_hours a b) = f a + f b \<and> f (round_hours h) = roundForDisplay (f h)"
  by (auto simp: additive_def ZERO_def add_hours_def round_hours_def)

lemma additive_fields: "additive th_capacity" "additive th_estimate" "additive th_todo" "additive th_actual"
  by (simp_all add: additive_def)

lemma additive_foldl: "additive f \<Longrightarrow> f (foldl add_hours ZERO hs) = sum_list (map f hs)"
proof -
  assume f: "additive f"
  then have "f (foldl add_hours z hs) = f z + sum_list (map f hs)" for z
    by (induction hs arbitrary: z) (simp_all add: additive_simps)
  with f show ?thesis by (simp add: additive_simps)
qed

lemma sum_update:
  "sum_list (map (g \<circ> snd) (AList.update k v xs)) =
     sum_list (map (g \<circ> snd) xs) - (case map_of xs k of None \<Rightarrow> 0 | Some w \<Rightarrow> g w) + (g v :: num)"
  by (induction xs) auto

definition bucket_sum :: "(TeamCapacityHours \<Rightarrow> num) \<Rightarrow> bucket \<Rightarrow> num" where
  "bucket_sum f b = sum_list (map (\<lambda>m. f (tm_hours m)) (map snd (bu_members b)))"

definition teams_sum :: "(TeamCapacityHours \<Rightarrow> num) \<Rightarrow> (string \<times> bucket) list \<Rightarrow> num" where
  "teams_sum f teams = sum_list (map (bucket_sum f) (map snd teams))"

lemma on_member_sum: "additive f \<Longrightarrow> bucket_sum f (on_member key i name h b) = bucket_sum f b + f h"
  by (simp add: on_member_def bucket_sum_def sum_update Let_def additive_simps split: option.split)

lemma on_team_sum:
  assumes "\<And>b. bucket_sum f (g b) = bucket_sum f b + x"
  shows "teams_sum f (on_team i name archived g teams) = teams_sum f teams + x"
proof -
  have "bucket_sum f (b\<lparr>bu_archived := a\<rparr>) = bucket_sum f b" for b a by (simp add: bucket_sum_def)
  moreover have "bucket_sum f \<lparr>bu_id = i, bu_name = name, bu_archived = archived, bu_members = []\<rparr> = 0" by (simp add: bucket_sum_def)
  ultimately show ?thesis using assms by (simp add: on_team_def teams_sum_def sum_update Let_def split: option.split)
qed

lemma add_record_sum: "additive f \<Longrightarrow> teams_sum f (add_record r teams) = teams_sum f teams + f (record_hours r)"
  unfolding add_record_def by (rule on_team_sum) (rule on_member_sum)

lemma add_task_sum: "additive f \<Longrightarrow> teams_sum f (add_task t teams) = teams_sum f teams + f (task_claim t)"
  unfolding add_task_def by (rule on_team_sum) (simp add: on_member_sum split: option.split)

lemma fold_record_sum: "additive f \<Longrightarrow> teams_sum f (fold add_record rs teams) = teams_sum f teams + sum_list (map (\<lambda>r. f (record_hours r)) rs)"
  by (induction rs arbitrary: teams) (simp_all add: add_record_sum)

lemma add_tasks_sum:
  "additive f \<Longrightarrow> teams_sum f (add_tasks seen ts teams) = teams_sum f teams + sum_list (map (\<lambda>t. f (task_claim t)) (dedupe_by ts_task seen ts))"
  by (induction ts arbitrary: seen teams) (simp_all add: add_task_sum)

lemma dedupe_hundredths: "\<forall>t\<in>set ts. hundredths (g t) \<Longrightarrow> \<forall>t\<in>set (dedupe_by ts_task seen ts). hundredths (g t)"
  using set_dedupe_by_subset [of ts_task seen ts] by blast

section \<open>Every hour counts once\<close>

lemma sum_js_sort: "sum_list (map g (js_sort cmp xs)) = (sum_list (map g xs) :: num)"
proof -
  have "mset (map g (js_sort cmp xs)) = mset (map g xs)" by simp
  then show ?thesis by (metis sum_mset_sum_list)
qed

text \<open>Hours in whole hundredths.\<close>

definition whole :: "TeamCapacityHours \<Rightarrow> bool" where
  "whole h \<longleftrightarrow> hundredths (th_capacity h) \<and> hundredths (th_estimate h) \<and> hundredths (th_todo h) \<and> hundredths (th_actual h)"

definition whole_teams :: "(string \<times> bucket) list \<Rightarrow> bool" where
  "whole_teams teams \<longleftrightarrow> (\<forall>b\<in>set (map snd teams). \<forall>m\<in>set (map snd (bu_members b)). whole (tm_hours m))"

lemma whole_field: "whole h \<Longrightarrow> additive f \<Longrightarrow> hundredths (f h)"
  by (auto simp: whole_def additive_def)

lemma whole_round: "whole h \<Longrightarrow> round_hours h = h"
  by (simp add: whole_def round_hours_def roundForDisplay_hundredths)

lemma whole_add: "whole a \<Longrightarrow> whole b \<Longrightarrow> whole (add_hours a b)"
  by (simp add: whole_def add_hours_def hundredths_add)

lemma whole_ZERO [simp]: "whole ZERO"
  by (simp add: whole_def ZERO_def)

lemma whole_foldl: "whole z \<Longrightarrow> \<forall>h\<in>set hs. whole h \<Longrightarrow> whole (foldl add_hours z hs)"
  by (induction hs arbitrary: z) (simp_all add: whole_add)

lemma set_update: "x \<in> set (map snd (AList.update k v xs)) \<Longrightarrow> x = v \<or> x \<in> set (map snd xs)"
  by (induction xs) (auto split: if_splits)

lemma map_of_snd: "map_of xs k = Some v \<Longrightarrow> v \<in> set (map snd xs)"
  by (force dest: map_of_SomeD)

definition whole_bucket :: "bucket \<Rightarrow> bool" where
  "whole_bucket b \<longleftrightarrow> (\<forall>m\<in>set (map snd (bu_members b)). whole (tm_hours m))"

lemma on_member_whole: "whole h \<Longrightarrow> whole_bucket b \<Longrightarrow> whole_bucket (on_member key i name h b)"
  unfolding whole_bucket_def on_member_def Let_def
  by (auto simp del: set_map simp: whole_add dest!: set_update map_of_snd split: option.splits)

lemma on_team_whole:
  assumes "\<And>b. whole_bucket b \<Longrightarrow> whole_bucket (g b)" "whole_teams teams"
  shows "whole_teams (on_team i name archived g teams)"
proof -
  let ?key = "case i of None \<Rightarrow> NO_TEAM_LABEL | Some t \<Rightarrow> t"
  let ?old = "case map_of teams ?key of Some b \<Rightarrow> b\<lparr>bu_archived := bu_archived b \<or> archived\<rparr>
     | None \<Rightarrow> \<lparr>bu_id = i, bu_name = name, bu_archived = archived, bu_members = []\<rparr>"
  have old: "whole_bucket ?old"
    using assms(2) map_of_snd [of teams ?key] unfolding whole_teams_def whole_bucket_def by (cases "map_of teams ?key") auto
  have "whole_bucket b" if "b \<in> set (map snd (on_team i name archived g teams))" for b
    using set_update [OF that [unfolded on_team_def Let_def]] assms(1) [OF old] assms(2) unfolding whole_teams_def whole_bucket_def by blast
  then show ?thesis by (simp only: whole_teams_def whole_bucket_def) blast
qed

lemma add_record_whole: "hundredths (rc_hours r) \<Longrightarrow> whole_teams teams \<Longrightarrow> whole_teams (add_record r teams)"
  unfolding add_record_def by (intro on_team_whole on_member_whole) (simp_all add: whole_def record_hours_def ZERO_def)

lemma fold_record_whole: "\<forall>r\<in>set rs. hundredths (rc_hours r) \<Longrightarrow> whole_teams teams \<Longrightarrow> whole_teams (fold add_record rs teams)"
  by (induction rs arbitrary: teams) (simp_all add: add_record_whole)

lemma add_task_whole: "whole (task_claim t) \<Longrightarrow> whole_teams teams \<Longrightarrow> whole_teams (add_task t teams)"
  unfolding add_task_def by (intro on_team_whole) (simp_all add: on_member_whole split: option.split)

lemma add_tasks_whole: "\<forall>t\<in>set ts. whole (task_claim t) \<Longrightarrow> whole_teams teams \<Longrightarrow> whole_teams (add_tasks seen ts teams)"
  by (induction ts arbitrary: seen teams) (simp_all add: add_task_whole)

lemma rollup_row_exact:
  assumes "whole_bucket b" "additive f"
  shows "f (tt_totals (rollup_row lc b)) = bucket_sum f b \<and> whole (tt_totals (rollup_row lc b)) \<and>
    f (tt_totals (rollup_row lc b)) = sum_list (map (\<lambda>m. f (tm_hours m)) (tt_members (rollup_row lc b)))"
proof -
  let ?rows = "js_sort (sortMembers lc) (map snd (bu_members b))"
  have rows: "\<forall>m\<in>set ?rows. whole (tm_hours m)" using assms(1) by (simp add: whole_bucket_def)
  then have w: "whole (foldl add_hours ZERO (map tm_hours ?rows))" by (intro whole_foldl) auto
  have "f (foldl add_hours ZERO (map tm_hours ?rows)) = sum_list (map (\<lambda>m. f (tm_hours m)) ?rows)"
    using additive_foldl [OF assms(2)] by (simp add: comp_def)
  moreover have "\<dots> = bucket_sum f b" unfolding sum_js_sort bucket_sum_def by simp
  moreover have "map (\<lambda>m. f (round_hours (tm_hours m))) ?rows = map (\<lambda>m. f (tm_hours m)) ?rows"
    using rows by (intro map_cong refl) (simp only: whole_round)
  ultimately show ?thesis using w by (simp add: rollup_row_def Let_def whole_round comp_def del: map_eq_conv)
qed

text \<open>C31: With hours in hundredths the roll-up keeps every hour and counts it once: the totals are the recorded
  capacities and the hours of the distinct tasks, they are the sum of the team rows, and each team row is the sum of
  its member rows, whatever teams and people the records and tasks name.\<close>

theorem rollup_conserves:
  assumes "\<forall>r\<in>set capacities. hundredths (rc_hours r)" and "\<forall>t\<in>set tasks'. whole (task_claim t)"
    and r: "r = rollUpTeamCapacity lc capacities tasks'" and unique: "unique = dedupe_by ts_task {} tasks'"
  shows "tr_totals r = \<lparr>th_capacity = sum_list (map rc_hours capacities), th_estimate = sum_list (map ts_estimate unique),
                          th_todo = sum_list (map ts_todo unique), th_actual = sum_list (map ts_actual unique)\<rparr> \<and>
    tr_totals r = foldl add_hours ZERO (map tt_totals (tr_teams r)) \<and>
    (\<forall>t\<in>set (tr_teams r). tt_totals t = foldl add_hours ZERO (map tm_hours (tt_members t)))"
proof -
  let ?teams = "team_buckets capacities tasks'"
  have whole: "whole_teams ?teams"
    unfolding team_buckets_def using assms(1,2) by (intro add_tasks_whole fold_record_whole) (simp_all add: whole_teams_def)
  have eqI: "a = b" if "\<And>f. additive f \<Longrightarrow> f a = f b" for a b :: TeamCapacityHours
    using that additive_fields by (simp add: TeamCapacityHours.equality)
  have buckets: "whole_bucket b" if "b \<in> set (map snd ?teams)" for b
    using whole that unfolding whole_teams_def whole_bucket_def by blast
  have rows: "\<exists>b. t = rollup_row lc b \<and> whole_bucket b" if "t \<in> set (tr_teams r)" for t
    using that buckets by (auto simp: r rollUpTeamCapacity_def Let_def)
  have "\<forall>h\<in>set (map tt_totals (tr_teams r)). whole h" using rows rollup_row_exact [OF _ additive_fields(1)] by fastforce
  then have total: "tr_totals r = foldl add_hours ZERO (map tt_totals (tr_teams r))"
    using whole_round [OF whole_foldl [OF whole_ZERO]] by (simp add: r rollUpTeamCapacity_def Let_def)
  have sums: "f (tr_totals r) = sum_list (map (\<lambda>x. f (record_hours x)) capacities) + sum_list (map (\<lambda>t. f (task_claim t)) unique)"
    if f: "additive f" for f
  proof -
    have "f (tr_totals r) = sum_list (map (\<lambda>t. f (tt_totals t)) (tr_teams r))"
      unfolding total additive_foldl [OF f] by (simp add: comp_def)
    also have "\<dots> = sum_list (map (\<lambda>b. f (tt_totals (rollup_row lc b))) (map snd ?teams))"
      unfolding r rollUpTeamCapacity_def Let_def by (simp add: sum_js_sort comp_def)
    also have "map (\<lambda>b. f (tt_totals (rollup_row lc b))) (map snd ?teams) = map (bucket_sum f) (map snd ?teams)"
      using buckets rollup_row_exact [OF _ f] by (intro map_cong refl) blast
    also have "sum_list \<dots> = teams_sum f ?teams" by (simp add: teams_sum_def)
    also have "\<dots> = teams_sum f [] + sum_list (map (\<lambda>x. f (record_hours x)) capacities) + sum_list (map (\<lambda>t. f (task_claim t)) unique)"
      unfolding team_buckets_def unique by (simp add: add_tasks_sum [OF f] fold_record_sum [OF f])
    finally show ?thesis by (simp add: teams_sum_def)
  qed
  have "tr_totals r = \<lparr>th_capacity = sum_list (map rc_hours capacities), th_estimate = sum_list (map ts_estimate unique),
                          th_todo = sum_list (map ts_todo unique), th_actual = sum_list (map ts_actual unique)\<rparr>"
    using sums [OF additive_fields(1)] sums [OF additive_fields(2)] sums [OF additive_fields(3)] sums [OF additive_fields(4)]
    by (intro TeamCapacityHours.equality) (simp_all add: record_hours_def task_claim_def ZERO_def)
  moreover have "tt_totals t = foldl add_hours ZERO (map tm_hours (tt_members t))" if t: "t \<in> set (tr_teams r)" for t
  proof (rule eqI)
    fix f :: "TeamCapacityHours \<Rightarrow> num" assume f: "additive f"
    have "f (tt_totals t) = sum_list (map (\<lambda>m. f (tm_hours m)) (tt_members t))"
      using rows [OF t] rollup_row_exact [OF _ f] by blast
    then show "f (tt_totals t) = f (foldl add_hours ZERO (map tm_hours (tt_members t)))"
      unfolding additive_foldl [OF f] by (simp only: map_map comp_def)
  qed
  ultimately show ?thesis using total by blast
qed

definition ex_task_hours :: "uuid \<Rightarrow> uuid option \<Rightarrow> ScopedTaskHours" where
  "ex_task_hours i owner = \<lparr>ts_task = i, ts_team = None, ts_teamName = None, ts_archived = False, ts_owner = owner, ts_ownerName = owner,
     ts_estimate = 8, ts_todo = 3, ts_actual = 5\<rparr>"

definition ex_rollup :: TeamCapacityRollup where
  "ex_rollup = rollUpTeamCapacity (\<lambda>_ _. 0) [\<lparr>rc_team = ''A'', rc_teamName = ''A'', rc_archived = False, rc_member = ''u'', rc_memberName = ''U'', rc_hours = 40\<rparr>]
     [ex_task_hours ''1'' (Some ''u''), ex_task_hours ''2'' None, ex_task_hours ''1'' None]"

text \<open>A task that the query returns twice counts once.\<close>

theorem rollup_conserves_witness: "tr_totals ex_rollup = \<lparr>th_capacity = 40, th_estimate = 16, th_todo = 6, th_actual = 10\<rparr>"
proof -
  have n: "hundredths (numeral k)" for k unfolding hundredths_def by (rule exI [of _ "numeral k * 100"]) simp
  show ?thesis
    using rollup_conserves [OF _ _ ex_rollup_def refl] n by (simp add: ex_task_hours_def whole_def task_claim_def)
qed

end
