(* ===== verification/Spec2Isabelle.thy ===== *)
theory Spec2Isabelle
  imports OutboxProtocol TeamCases RelayPasses RankMoves WorkspaceCases Calendar Velocity ReleaseTracking IterationLaws WorkItemCases
    PlanDetail Idempotency CapacityForecast Paging Carryover TeamCapacity
begin

text \<open>
  Rova is a work-tracking service: a NestJS API with PostgreSQL and Redis, worker processes beside it, and a
  web client. This development models the decisions and the writes of its server: the
  libraries under \<^verbatim>\<open>libs/modules\<close> (one per bounded context, each with \<^verbatim>\<open>domain\<close>,
  \<^verbatim>\<open>application\<close> and \<^verbatim>\<open>infrastructure/persistence\<close> layers) and \<^verbatim>\<open>libs/platform\<close>. A request
  passes the policy guard, then a service of the application layer, which reads rows through its
  repository, checks them in a fixed order (every check an exception with a status), and writes in one transaction;
  triggers of the database complete the rows. The reports are pure functions of the domain layer over rows a
  repository has read. The worker's relays deliver what the transactions left in outbox tables.

  \<^bold>\<open>Parts.\<close> A theory per component; a component that needs many laws has them in theories of their own.

  \<^item> Shared: \<open>Prelude\<close> (JavaScript numbers, strings, sorting and result values; the locales \<open>js_order\<close> and
    \<open>js_keyed_order\<close>, the contract a comparator has to keep for \<open>Array.sort\<close> and \<open>ORDER BY\<close>; lists of rows with
    \<open>update_where\<close>), \<open>Doubles\<close> (rounding to an IEEE double, where the source floors a quotient).
  \<^item> Platform: \<open>LexoRank\<close> (\<^verbatim>\<open>libs/platform/src/utils/lexorank.util.ts\<close>); \<open>RankMoves\<close> (the three services that place a
    row between two neighbours: \<^verbatim>\<open>rankWorkItem\<close>, \<^verbatim>\<open>rankItem\<close>, \<^verbatim>\<open>reorder\<close>); \<open>Outbox\<close>, \<open>OutboxProtocol\<close>, \<open>RelayPasses\<close>
    (\<^verbatim>\<open>libs/platform/src/outbox\<close> with the queries of \<^verbatim>\<open>apps/worker/src/email\<close>); \<open>Idempotency\<close>
    (\<^verbatim>\<open>http/idempotency.interceptor.ts\<close>); \<open>Paging\<close> (\<^verbatim>\<open>http/pagination.ts\<close> and the lists of work items and releases).
  \<^item> Access: \<open>Permissions\<close> (\<^verbatim>\<open>db/permissions.catalog.ts\<close>), \<open>Access\<close> (\<^verbatim>\<open>libs/modules/access\<close>: effective roles, levels, team
    scope, \<^verbatim>\<open>policy.guard.ts\<close>); \<open>Workspaces\<close>, \<open>WorkspaceLaws\<close>, \<open>WorkspaceRuns\<close>, \<open>WorkspaceCases\<close> (members,
    invitations, the relay of guest invitations, Project grants and API tokens: \<^verbatim>\<open>workspace.service.ts\<close>,
    \<^verbatim>\<open>api-tokens\<close>, \<^verbatim>\<open>entra-guest-invite-relay\<close>); \<open>Teams\<close>, \<open>TeamLaws\<close>, \<open>TeamCases\<close> (\<^verbatim>\<open>team.service.ts\<close>, the teams and
    members of a Project in \<^verbatim>\<open>projects.service.ts\<close>).
  \<^item> Planning: \<open>Iterations\<close>, \<open>IterationLaws\<close> (\<^verbatim>\<open>libs/modules/iterations\<close>, bulk assignment and automatic acceptance in
    \<^verbatim>\<open>work-items\<close>); \<open>StorySplit\<close> (\<^verbatim>\<open>split-story.ts\<close>, \<^verbatim>\<open>carryover-eligibility.ts\<close>); \<open>WorkItems\<close>, \<open>WorkItemLaws\<close>,
    \<open>WorkItemRuns\<close>, \<open>WorkItemCases\<close> (create, update, delete of \<^verbatim>\<open>work-items.service.ts\<close> with its repository and
    the triggers); \<open>StoryMoves\<close>, \<open>StoryMoveLaws\<close> (split and carryover as whole transactions).
  \<^item> Portfolio: \<open>PortfolioRollup\<close> (\<^verbatim>\<open>portfolio-rollup.ts\<close>, the estimate map); \<open>CapacityPlans\<close>, \<open>CapacityLaws\<close>,
    \<open>CapacityRuns\<close>, \<open>CapacityProtocol\<close>, \<open>CapacityCases\<close> (the writes of \<^verbatim>\<open>capacity-plans.service.ts\<close>), \<open>PlanDetail\<close> (its list and its detail);
    \<open>CapacityForecast\<close> (\<^verbatim>\<open>capacity-forecast.ts\<close>).
  \<^item> Reports (\<^verbatim>\<open>libs/modules/reporting/src/domain\<close>): \<open>Calendar\<close> (\<^verbatim>\<open>report-scope.ts\<close>), \<open>Burndown\<close>, \<open>Velocity\<close>, \<open>ReleaseTracking\<close>,
    \<open>Carryover\<close>, \<open>TeamCapacity\<close> (the files of the same names).
  A definition has the name of the function, constant or type it translates, but for clashes with names of the
  library. A service method is one definition: its arguments are the caller, the request and what
  the method reads, its result \<open>Inl\<close> the first exception in the order of the code or \<open>Inr\<close> the new tables.

  \<^bold>\<open>How the code is read.\<close>
  \<^item> Values: a date is an ISO string, compared as the code compares it; \<open>null\<close> is \<open>None\<close>; a field that may be absent
    or null has type \<open>'a option option\<close>; numbers are exact rationals, except where the source floors or
    rounds them (doubles through \<open>fl\<close>, \<open>numeric(10,2)\<close> columns through \<open>numeric_10_2\<close> with its overflow 22003);
    hashes and the random generator of the forecast are on \<open>32 word\<close>.
  \<^item> A JavaScript \<open>Map\<close> that is read in insertion order is an association list (\<open>AList.update\<close>), a set or map that
    is only looked up a function or a list. \<open>Array.sort\<close> and \<open>ORDER BY\<close> are \<open>js_sort\<close>.
  \<^item> A table is a list of rows; a statement filters or updates it (\<open>update_where\<close>), a constraint that fails is the
    uncaught SQLSTATE; triggers and column defaults are applied by the statement that fires them. Text that is
    only copied is left out of the rows.
  \<^item> A transaction is atomic. What other requests commit between two reads, or between the reads and the
    transaction, is an argument (\<open>others\<close>), an arbitrary function on tables unless a theorem says more; so is what they
    commit between the two transactions of \<open>moveItemToPlan\<close>. The theorems on splits and bulk assignments take nothing in
    between, and say so.
  \<^item> The cache of effective assignments holds each entry with the second it expires. \<open>access_reach\<close> relates the tables, the
    cache and the lookups in flight over any order of commits, reads, fills and invalidations that may miss; what the
    policy guard sees may be older than the tables by the cache lifetime and the time a lookup takes. The two
    queries of one lookup see one state of the tables.
  \<^item> Hash functions, collation, clocks, time zones, generated identifiers, the Redis server and deliveries are arguments.

  \<^bold>\<open>Bounds and fuel.\<close> Loops over a list are structural. The walk of \<open>between\<close> ends by a measure; the day loop of the
  calendar is \<open>days_from\<close>, a \<open>partial_function (option)\<close>: that it returns is proved, and refuted for the end date
  9999-12-31. The retries after
  a key collision count down from the constant of the source (\<open>MAX_KEY_RETRIES\<close>; \<open>create_tries\<close>,
  \<open>split_tries\<close>, \<open>create_attempts\<close>, \<open>plan_tries\<close>): the fuel is the retry budget of the code and the last attempt
  propagates the violation, as there. The forecast draws \<open>FORECAST_TRIALS\<close> samples. A walk over the pages of a list is
  given a number of pages; \<open>merged_pages_exact\<close> says how many are enough. The relays and the idempotency steps are
  relations with runs of any length.

  \<^bold>\<open>What is shown.\<close>
  \<^item> Ranks: a new rank is strictly between its neighbours and well-formed; each of the three services puts the row
    where the request says, or reports why not.
  \<^item> Outbox: with any number of workers, crashes and lost leases, no row is delivered on two live leases, deliveries are
    bounded by attempts and refunds, final states are final, a worker without its lease writes nothing; a pass that fails
    while another waits blocks the relay for good.
  \<^item> Idempotency: replays agree with a completed run, whatever fails; handlers under one key run one at a time and complete
    once as long as the cache works, nobody dies and no marker or answer expires under a request.
  \<^item> Access: what the guard admits was granted within the lifetime of the cache; editors are fenced by their team, nobody
    else; lists and single checks agree.
  \<^item> Workspaces: an accepted invitation is bound to its recipient and gives no more than it offered; a link works once;
    whoever is removed has no permission until an administrator brings them back, and no token once their tokens are
    revoked, which is best effort; the last administrator is kept, unless the role is held twice; a minted token verifies until it expires or is revoked.
  \<^item> Teams: keys, members and links stay unique, and a team on a capacity plan stays linked to its Project, over all
    runs of requests; who leaves a team loses its scope and its tasks; a write that names Editor leaves a team.
  \<^item> Iterations and work items: invariants of the tables over all runs of requests; acceptance is earned; parents follow
    their tasks; a stale version is refused; split and carryover conserve the children and land in a valid sprint.
  \<^item> Capacity: the allocation rows stay sound over all runs; demand is kept; permissions; publishing writes what it says and a
    published plan is frozen; a move with its republication fails halfway only when the target plan changed in
    between; rows, teams and Features of a plan detail agree for planners, and a reader sees their own teams; the
    forecast is well-formed.
  \<^item> Lists: a finished walk delivers each row that stayed exactly once, whatever changed; on a date column as long as the
    rows its pages ended on are still there.
  \<^item> Reports: axes list exactly the working days, segments and buckets partition, roll-ups conserve their sums.
  The places where the code and its intention part are theorems too (a day loop without end, a wedged relay, a
  collision answered as an internal error, a sprint left unaccepted by a race).

  \<^bold>\<open>Interfaces.\<close> \<open>js_order\<close> and \<open>js_keyed_order\<close> are interpreted on every comparator of the model; \<open>feed\<close> in \<open>Paging\<close> extends
  the latter with a keyset condition and is interpreted on the four lists; \<open>rank_space\<close> in \<open>RankMoves\<close> is the contract of a
  placement, interpreted on \<open>between\<close>; the other locales and their
  interpretations are named in their theories.

  \<^bold>\<open>Not modelled.\<close> The web client (\<^verbatim>\<open>apps/web\<close>); controllers, DTOs and MCP tools, which parse a request and call a service;
  the repositories that only read for lists and reports (their SQL joins and projections); generated clients,
  migrations, seeds and schema texts; logging, metrics and tracing; sign-in, mail texts, object storage and the
  code-hosting webhooks, which are calls of outside services. The manifest lists what is left out of
  each component that is modelled in part.
\<close>

end
